(* ===== verification/Js.thy ===== *)
theory Js
  imports Prelude
begin

text \<open>
  JavaScript values as the request bodies and control messages carry them (the result of
  JSON.parse, plus undefined), with the coercions the server applies to them: truthiness,
  String(v) and Number(v).

  Whole numbers are integers. Every other number (a fraction, an infinity or NaN) is
  \<open>JFloat\<close> with its printed form; the server rejects such numbers with
  Number.isInteger wherever it takes a number from a client, so only that they are not
  whole matters. Number(s) is exact decimal arithmetic here, without the rounding of
  IEEE doubles above 2^53.
\<close>

datatype jsval =
    JUndef
  | JNull
  | JBool bool
  | JInt int
  | JFloat string
  | JStr string
  | JArr "jsval list"
  | JObj "(string \<times> jsval) list"

text \<open>An error object with the code property the handlers switch on.\<close>

datatype err = Err (err_code: string) (err_message: string)

type_synonym 'a result = "err + 'a"

text \<open>Sequencing of computations that may throw.\<close>

fun bind :: "'a result \<Rightarrow> ('a \<Rightarrow> 'b result) \<Rightarrow> 'b result" where
  "bind (Inl e) f = Inl e"
| "bind (Inr x) f = f x"

fun truthy :: "jsval \<Rightarrow> bool" where
  "truthy JUndef = False"
| "truthy JNull = False"
| "truthy (JBool b) = b"
| "truthy (JInt i) = (i \<noteq> 0)"
| "truthy (JFloat s) = (s \<noteq> ''NaN'')"
| "truthy (JStr s) = (s \<noteq> [])"
| "truthy (JArr xs) = True"
| "truthy (JObj kvs) = True"

text \<open>v.k, and v?.k on null and undefined: undefined when there is no such property.\<close>

fun js_get :: "jsval \<Rightarrow> string \<Rightarrow> jsval" where
  "js_get (JObj kvs) k = (case map_of kvs k of None \<Rightarrow> JUndef | Some v \<Rightarrow> v)"
| "js_get _ k = JUndef"

text \<open>String(v). Inside an array null and undefined print as nothing.\<close>

fun js_string :: "jsval \<Rightarrow> string" where
  "js_string JUndef = ''undefined''"
| "js_string JNull = ''null''"
| "js_string (JBool b) = (if b then ''true'' else ''false'')"
| "js_string (JInt i) = show_int i"
| "js_string (JFloat s) = s"
| "js_string (JStr s) = s"
| "js_string (JArr xs) =
     join '','' (map (\<lambda>x. if x = JUndef \<or> x = JNull then [] else js_string x) xs)"
| "js_string (JObj kvs) = ''[object Object]''"

text \<open>v || d, for a default string d, followed by String().\<close>

definition string_or :: "jsval \<Rightarrow> string \<Rightarrow> string" where
  "string_or v d = (if truthy v then js_string v else d)"

subsection \<open>Number()\<close>

definition digit_val :: "char \<Rightarrow> nat" where
  "digit_val c = ord c - 48"

definition dec_nat :: "string \<Rightarrow> nat" where
  "dec_nat s = foldl (\<lambda>acc c. acc * 10 + digit_val c) 0 s"

fun hex_digit :: "char \<Rightarrow> nat option" where
  "hex_digit c =
     (if is_digit c then Some (ord c - 48)
      else if 97 \<le> ord c \<and> ord c \<le> 102 then Some (ord c - 87)
      else if 65 \<le> ord c \<and> ord c \<le> 70 then Some (ord c - 55)
      else None)"

fun radix_nat :: "nat \<Rightarrow> nat \<Rightarrow> string \<Rightarrow> nat option" where
  "radix_nat r acc [] = Some acc"
| "radix_nat r acc (c # cs) =
     (case hex_digit c of
        None \<Rightarrow> None
      | Some d \<Rightarrow> if d < r then radix_nat r (acc * r + d) cs else None)"

text \<open>The value m * 10 ^ k, when it is whole.\<close>

definition scaled :: "nat \<Rightarrow> int \<Rightarrow> nat option" where
  "scaled m k =
     (if 0 \<le> k then Some (m * 10 ^ nat k)
      else if m mod 10 ^ nat (- k) = 0 then Some (m div 10 ^ nat (- k)) else None)"

text \<open>The exponent part of a decimal literal: empty, or e with a signed digit string.\<close>

definition exponent :: "string \<Rightarrow> int option" where
  "exponent s = (case s of
       [] \<Rightarrow> Some 0
     | e # r \<Rightarrow>
         if lower_char e \<noteq> CHR ''e'' then None
         else (case r of
             [] \<Rightarrow> None
           | c # ds \<Rightarrow>
               if c = CHR ''-'' \<and> ds \<noteq> [] \<and> list_all is_digit ds then Some (- int (dec_nat ds))
               else if c = CHR ''+'' \<and> ds \<noteq> [] \<and> list_all is_digit ds then Some (int (dec_nat ds))
               else if list_all is_digit r then Some (int (dec_nat r))
               else None))"

text \<open>An unsigned decimal literal, when its value is whole.\<close>

definition decimal :: "string \<Rightarrow> nat option" where
  "decimal s =
     (let a = takeWhile is_digit s; r = dropWhile is_digit s;
          dotted = (r \<noteq> [] \<and> hd r = CHR ''.'');
          frac = (if dotted then takeWhile is_digit (tl r) else []);
          r' = (if dotted then dropWhile is_digit (tl r) else r)
      in if a = [] \<and> frac = [] then None
         else (case exponent r' of
             None \<Rightarrow> None
           | Some e \<Rightarrow> scaled (dec_nat (a @ frac)) (e - int (length frac))))"

text \<open>Number(s) for a string s: Some n when it is the whole number n, None otherwise.\<close>

definition number_of_string :: "string \<Rightarrow> int option" where
  "number_of_string s =
     (let t = trim s; radix = (\<lambda>b. if drop 2 t = [] then None else map_option int (radix_nat b 0 (drop 2 t)))
      in if t = [] then Some 0
         else if to_lower (take 2 t) = ''0x'' then radix 16
         else if to_lower (take 2 t) = ''0o'' then radix 8
         else if to_lower (take 2 t) = ''0b'' then radix 2
         else if hd t = CHR ''-'' then map_option (\<lambda>n. - int n) (decimal (tl t))
         else if hd t = CHR ''+'' then map_option int (decimal (tl t))
         else map_option int (decimal t))"

text \<open>Number(v) with Number.isInteger: Some n when the result is the whole number n.\<close>

fun js_integer :: "jsval \<Rightarrow> int option" where
  "js_integer JUndef = None"
| "js_integer JNull = Some 0"
| "js_integer (JBool b) = Some (if b then 1 else 0)"
| "js_integer (JInt i) = Some i"
| "js_integer (JFloat s) = None"
| "js_integer (JStr s) = number_of_string s"
| "js_integer (JArr xs) = number_of_string (js_string (JArr xs))"
| "js_integer (JObj kvs) = None"

lemma bind_Inr [simp]: "bind m f = Inr y \<longleftrightarrow> (\<exists>x. m = Inr x \<and> f x = Inr y)"
  by (cases m) auto

lemma dec_nat_snoc: "dec_nat (s @ [c]) = dec_nat s * 10 + digit_val c"
  by (simp add: dec_nat_def)

lemma digit_val_digit_char: "d < 10 \<Longrightarrow> digit_val (digit_char d) = d"
  by (simp add: digit_val_def ord_def)

lemma dec_nat_show_nat: "dec_nat (show_nat n) = n"
proof (induction n rule: show_nat.induct)
  case (1 n)
  show ?case
  proof (cases "n < 10")
    case True
    then show ?thesis
      by (subst show_nat.simps) (simp add: dec_nat_def digit_val_digit_char del: digit_char.simps)
  next
    case False
    with "1.IH" show ?thesis
      by (subst show_nat.simps)
        (simp add: dec_nat_snoc digit_val_digit_char del: digit_char.simps)
  qed
qed

lemma digit_not_space: "is_digit c \<Longrightarrow> \<not> is_space c"
  by (auto simp: is_digit_def is_space_def)

lemma trim_no_space: "\<forall>c \<in> set s. \<not> is_space c \<Longrightarrow> trim s = s"
proof -
  assume a: "\<forall>c \<in> set s. \<not> is_space c"
  then have d: "dropWhile is_space s = s"
    by (cases s) auto
  moreover from a have "dropWhile is_space (rev s) = rev s"
    by (cases "rev s") (auto simp: rev_eq_Cons_iff)
  ultimately show ?thesis by (simp add: trim_def)
qed

lemma decimal_digits: "s \<noteq> [] \<Longrightarrow> \<forall>c \<in> set s. is_digit c \<Longrightarrow> decimal s = Some (dec_nat s)"
proof -
  assume s: "s \<noteq> []" "\<forall>c \<in> set s. is_digit c"
  then have td: "takeWhile is_digit s = s" "dropWhile is_digit s = []"
    by (simp_all add: takeWhile_eq_all_conv dropWhile_eq_Nil_conv)
  show ?thesis unfolding decimal_def td Let_def using s(1) by (simp add: exponent_def scaled_def)
qed

lemma digit_not_letter:
  "is_digit x \<Longrightarrow> lower_char x \<noteq> CHR ''x'' \<and> lower_char x \<noteq> CHR ''o'' \<and> lower_char x \<noteq> CHR ''b''"
  by (auto simp: is_digit_def is_upper_def lower_char_def ord_def)

lemma number_of_digits:
  "s \<noteq> [] \<Longrightarrow> \<forall>c \<in> set s. is_digit c \<Longrightarrow> number_of_string s = Some (int (dec_nat s))"
proof -
  assume s: "s \<noteq> []" "\<forall>c \<in> set s. is_digit c"
  then have tr: "trim s = s" by (intro trim_no_space) (auto dest: digit_not_space)
  have dec: "decimal s = Some (dec_nat s)" using decimal_digits [OF s] .
  obtain a r where ar: "s = a # r" using s(1) by (cases s) auto
  with s have a: "is_digit a" by simp
  have sign: "a \<noteq> CHR ''-''" "a \<noteq> CHR ''+''"
    using a by (auto simp: is_digit_def ord_def)
  have nl: "to_lower (take 2 s) \<notin> {''0x'', ''0o'', ''0b''}"
    using s ar digit_not_letter by (cases r) (auto simp: to_lower_def numeral_2_eq_2)
  show ?thesis
    using ar tr dec sign nl by (simp add: number_of_string_def Let_def)
qed

text \<open>A printed number reads back: what the decimal strings of the protocol rely on.\<close>

lemma number_of_show_nat: "number_of_string (show_nat n) = Some (int n)"
  using number_of_digits [OF show_nat_nonempty show_nat_digits] by (simp add: dec_nat_show_nat)

end
