(* ===== verification/Bytes.thy ===== *)
theory Bytes
  imports Prelude
begin

text \<open>
  Node's Buffer as the server uses it: big-endian reads and writes, subarray with clamped
  bounds, and text in the latin1 encoding. A read past the end of a buffer throws
  ERR_OUT_OF_RANGE in Node; the checked reads return None there. Plain indexing yields
  undefined past the end, which is None as well.
\<close>

fun be_bytes :: "nat \<Rightarrow> nat \<Rightarrow> bytes" where
  "be_bytes 0 k = []"
| "be_bytes (Suc n) k = be_bytes n (k div 256) @ [of_nat (k mod 256)]"

definition be_nat :: "bytes \<Rightarrow> nat" where
  "be_nat bs = foldl (\<lambda>acc b. acc * 256 + unat b) 0 bs"

text \<open>buffer[i]: undefined (None) out of range, at a negative index too.\<close>

definition at :: "bytes \<Rightarrow> int \<Rightarrow> byte option" where
  "at buf i = (if 0 \<le> i \<and> i < int (length buf) then Some (buf ! nat i) else None)"

text \<open>readUIntBE of n bytes at an offset; None where Node throws.\<close>

definition read_be :: "nat \<Rightarrow> bytes \<Rightarrow> int \<Rightarrow> nat option" where
  "read_be n buf off =
     (if 0 \<le> off \<and> off + int n \<le> int (length buf)
      then Some (be_nat (take n (drop (nat off) buf))) else None)"

text \<open>A relative index of subarray and slice: negative counts from the end, then clamped.\<close>

definition clamp_index :: "nat \<Rightarrow> int \<Rightarrow> nat" where
  "clamp_index len i = nat (min (int len) (max 0 (if i < 0 then int len + i else i)))"

definition subarray :: "'a list \<Rightarrow> int \<Rightarrow> int \<Rightarrow> 'a list" where
  "subarray buf from to =
     (let a = clamp_index (length buf) from; b = clamp_index (length buf) to
      in take (b - a) (drop a buf))"

text \<open>Buffer.from(text) for ASCII text and toString("latin1").\<close>

definition to_buf :: "string \<Rightarrow> bytes" where
  "to_buf s = map (\<lambda>c. of_nat (of_char c)) s"

definition latin1 :: "bytes \<Rightarrow> string" where
  "latin1 bs = map (\<lambda>b. char_of (unat b)) bs"

lemma length_be_bytes [simp]: "length (be_bytes n k) = n"
  by (induction n arbitrary: k) auto

lemma be_nat_snoc [simp]: "be_nat (bs @ [b]) = be_nat bs * 256 + unat b"
  by (simp add: be_nat_def)

lemma be_nat_Nil [simp]: "be_nat [] = 0"
  by (simp add: be_nat_def)

lemma unat_of_nat_byte: "unat (of_nat (k mod 256) :: byte) = k mod 256"
  by (simp add: unat_of_nat)

lemma be_nat_be_bytes: "be_nat (be_bytes n k) = k mod 256 ^ n"
proof (induction n arbitrary: k)
  case 0
  then show ?case by simp
next
  case (Suc n)
  have "be_nat (be_bytes (Suc n) k) = ((k div 256) mod 256 ^ n) * 256 + k mod 256"
    using Suc by (simp add: unat_of_nat_byte)
  also have "\<dots> = k mod (256 * 256 ^ n)"
    by (simp add: mod_mult2_eq algebra_simps)
  finally show ?case by simp
qed

lemma be_nat_bound: "be_nat bs < 256 ^ length bs"
proof (induction bs rule: rev_induct)
  case Nil
  then show ?case by simp
next
  case (snoc b bs)
  have "unat b < 256" using unsigned_less [of b] by simp
  with snoc show ?case by simp
qed

lemma be_bytes_be_nat: "be_bytes (length bs) (be_nat bs) = bs"
proof (induction bs rule: rev_induct)
  case Nil
  then show ?case by simp
next
  case (snoc b bs)
  have "unat b < 256" using unsigned_less [of b] by simp
  then have "(be_nat bs * 256 + unat b) div 256 = be_nat bs"
    and "(be_nat bs * 256 + unat b) mod 256 = unat b"
    by auto
  with snoc show ?case by simp
qed

lemma latin1_to_buf: "latin1 (to_buf s) = s"
proof -
  have "char_of (unat (of_nat (of_char c) :: byte)) = c" for c :: char
  proof -
    have "(of_char c :: nat) < 256" by simp
    then have "unat (of_nat (of_char c) :: byte) = of_char c" by (simp add: unat_of_nat)
    then show ?thesis by simp
  qed
  then show ?thesis by (simp add: latin1_def to_buf_def comp_def)
qed

lemma length_latin1 [simp]: "length (latin1 bs) = length bs"
  by (simp add: latin1_def)

lemma length_to_buf [simp]: "length (to_buf s) = length s"
  by (simp add: to_buf_def)

lemma subarray_from_zero: "0 \<le> n \<Longrightarrow> subarray buf 0 n = take (nat n) buf"
  by (simp add: subarray_def clamp_index_def Let_def min_def nat_le_iff)

lemma subarray_nat:
  "a \<le> b \<Longrightarrow> subarray buf (int a) (int b) = take (b - a) (drop a buf)"
  by (auto simp: subarray_def clamp_index_def Let_def min_def)

lemma length_subarray_le: "length (subarray buf a b) \<le> length buf"
  by (simp add: subarray_def Let_def)

end
