(* ===== verification/Ids.thy ===== *)
theory Ids
  imports Js Bytes
begin

text \<open>
  Identifiers (src/server/utils/ids.js): random names and secrets over an alphabet, the
  syntax of tunnel names, and share codes, the concatenation of a tunnel id and a secret.
  The bytes drawn by crypto.randomBytes are arguments; sha256 is a parameter.
\<close>

definition ALPHABET :: string where
  "ALPHABET = ''abcdefghijklmnopqrstuvwxyz0123456789''"

definition MIXED :: string where
  "MIXED = ''ABCDEFGHIJKLMNOPQRSTUVWXYZabcdefghijklmnopqrstuvwxyz0123456789''"

definition RESERVED :: "string list" where
  "RESERVED = [''tunlit'']"

definition SECRET_LENGTH :: nat where
  "SECRET_LENGTH = 26"

definition randomFrom :: "string \<Rightarrow> bytes \<Rightarrow> string" where
  "randomFrom alphabet bs = map (\<lambda>b. alphabet ! (unat b mod length alphabet)) bs"

definition randomId :: "bytes \<Rightarrow> string" where
  "randomId bs = randomFrom ALPHABET bs"

definition randomSecret :: "bytes \<Rightarrow> string" where
  "randomSecret bs = randomFrom MIXED bs"

definition randomToken :: "bytes \<Rightarrow> string" where
  "randomToken bs = randomFrom MIXED bs"

definition name_char :: "char \<Rightarrow> bool" where
  "name_char c \<longleftrightarrow> is_lower c \<or> is_digit c \<or> c = CHR ''-''"

text \<open>The regular expression \<open>^[a-z0-9-]{3,32}$\<close>.\<close>

definition NAME_REGEX :: "string \<Rightarrow> bool" where
  "NAME_REGEX s \<longleftrightarrow> 3 \<le> length s \<and> length s \<le> 32 \<and> list_all name_char s"

definition isReserved :: "string \<Rightarrow> bool" where
  "isReserved name \<longleftrightarrow> name \<in> set RESERVED"

definition isValidName :: "string \<Rightarrow> bool" where
  "isValidName name \<longleftrightarrow> NAME_REGEX name \<and> \<not> isReserved name"

definition hashSecret :: "(bytes \<Rightarrow> bytes) \<Rightarrow> string \<Rightarrow> bytes" where
  "hashSecret sha256 secret = sha256 (to_buf secret)"

text \<open>The regular expression \<open>^[a-z0-9-]+[A-Za-z0-9]{26}$\<close>: the last 26 characters are
  alphanumeric and what precedes them is a non-empty run of name characters.\<close>

definition share_code_regex :: "string \<Rightarrow> bool" where
  "share_code_regex s \<longleftrightarrow>
     26 < length s \<and> list_all name_char (take (length s - 26) s) \<and>
     list_all is_alnum (drop (length s - 26) s)"

fun splitShareCode :: "jsval \<Rightarrow> (string \<times> string) option" where
  "splitShareCode (JStr code) =
     (if \<not> share_code_regex code then None
      else Some (take (length code - SECRET_LENGTH) code, drop (length code - SECRET_LENGTH) code))"
| "splitShareCode _ = None"

lemma randomFrom_length [simp]: "length (randomFrom a bs) = length bs"
  by (simp add: randomFrom_def)

lemma randomFrom_chars: "a \<noteq> [] \<Longrightarrow> set (randomFrom a bs) \<subseteq> set a"
  by (auto simp: randomFrom_def)

lemma ALPHABET_chars: "c \<in> set ALPHABET \<Longrightarrow> name_char c"
proof -
  have "list_all name_char ALPHABET" by code_simp
  then show "c \<in> set ALPHABET \<Longrightarrow> name_char c" by (simp add: list_all_iff)
qed

lemma MIXED_chars: "c \<in> set MIXED \<Longrightarrow> is_alnum c"
proof -
  have "list_all is_alnum MIXED" by code_simp
  then show "c \<in> set MIXED \<Longrightarrow> is_alnum c" by (simp add: list_all_iff)
qed

lemma randomId_valid: "length bs = 6 \<Longrightarrow> NAME_REGEX (randomId bs)"
proof -
  assume l: "length bs = 6"
  have "ALPHABET \<noteq> []" by (simp add: ALPHABET_def)
  then have "list_all name_char (randomId bs)"
    using randomFrom_chars [of ALPHABET bs] ALPHABET_chars
    by (auto simp: list_all_iff randomId_def)
  with l show ?thesis by (simp add: NAME_REGEX_def randomId_def)
qed

lemma randomSecret_alnum: "list_all is_alnum (randomSecret bs)"
proof -
  have "MIXED \<noteq> []" by (simp add: MIXED_def)
  then show ?thesis
    using randomFrom_chars [of MIXED bs] MIXED_chars by (auto simp: list_all_iff randomSecret_def)
qed

lemma splitShareCode_append:
  assumes "NAME_REGEX i" and "length s = SECRET_LENGTH" and "list_all is_alnum s"
  shows "splitShareCode (JStr (i @ s)) = Some (i, s)"
  using assms by (auto simp: NAME_REGEX_def SECRET_LENGTH_def share_code_regex_def)

lemma splitShareCode_Some:
  assumes "splitShareCode v = Some (i, s)"
  shows "v = JStr (i @ s) \<and> length s = SECRET_LENGTH \<and> i \<noteq> [] \<and> list_all name_char i"
proof -
  obtain code where v: "v = JStr code"
    using assms by (cases v) auto
  with assms have r: "share_code_regex code"
    and i: "i = take (length code - SECRET_LENGTH) code"
    and s: "s = drop (length code - SECRET_LENGTH) code"
    by (auto split: if_splits)
  then show ?thesis using v by (auto simp: share_code_regex_def SECRET_LENGTH_def)
qed

text \<open>
  Share codes: the code built by the shareCode getter of a tunnel, its id followed by
  its 26-character secret, splits back into exactly that id and that secret, for every
  tunnel name and every secret that randomSecret can draw.
\<close>

theorem share_code_roundtrip:
  assumes "NAME_REGEX i" and "length bs = SECRET_LENGTH"
  shows "splitShareCode (JStr (i @ randomSecret bs)) = Some (i, randomSecret bs)"
  using assms randomSecret_alnum
  by (intro splitShareCode_append) (simp_all add: randomSecret_def)

theorem share_code_roundtrip_witness:
  "NAME_REGEX ''web-1'' \<and>
   splitShareCode (JStr (''web-1'' @ randomSecret (replicate 26 7))) =
     Some (''web-1'', randomSecret (replicate 26 7))"
proof -
  have n: "NAME_REGEX ''web-1''"
    by (simp add: NAME_REGEX_def name_char_def is_lower_def is_digit_def ord_def)
  have l: "length (replicate 26 (7 :: byte)) = SECRET_LENGTH"
    by (simp add: SECRET_LENGTH_def)
  show ?thesis using n share_code_roundtrip [OF n l] by simp
qed

end
