(* ===== verification/Frames.thy ===== *)
theory Frames
  imports Bytes
begin

text \<open>
  The frames of the multiplexing protocol (src/server/lib/frames.js): one type byte, the
  stream id as a big-endian 32-bit number, and the payload.
\<close>

definition OPEN :: byte where "OPEN = 1"
definition DATA :: byte where "DATA = 2"
definition CLOSE :: byte where "CLOSE = 3"
definition WINDOW_UPDATE :: byte where "WINDOW_UPDATE = 4"
definition DATAGRAM :: byte where "DATAGRAM = 5"
definition RESET :: byte where "RESET = 6"

definition HEADER_SIZE :: nat where "HEADER_SIZE = 5"
definition WINDOW_SIZE :: nat where "WINDOW_SIZE = 1024 * 1024"
definition CHUNK_SIZE :: nat where "CHUNK_SIZE = 64 * 1024"
definition MAX_DATAGRAM :: nat where "MAX_DATAGRAM = 65507"

lemmas frame_types = OPEN_def DATA_def CLOSE_def WINDOW_UPDATE_def DATAGRAM_def RESET_def
lemmas frame_sizes = HEADER_SIZE_def WINDOW_SIZE_def CHUNK_SIZE_def MAX_DATAGRAM_def

record frame =
  f_type :: byte
  f_stream :: nat
  f_payload :: bytes

text \<open>streamId \<open>>>>\<close> 0 reduces the id modulo 2^32.\<close>

definition encode :: "byte \<Rightarrow> int \<Rightarrow> bytes \<Rightarrow> bytes" where
  "encode type streamId payload = [type] @ be_bytes 4 (nat (streamId mod 2 ^ 32)) @ payload"

definition decode :: "bytes \<Rightarrow> frame option" where
  "decode buffer =
     (if length buffer < HEADER_SIZE then None
      else Some \<lparr>f_type = buffer ! 0, f_stream = be_nat (take 4 (drop 1 buffer)),
                 f_payload = drop HEADER_SIZE buffer\<rparr>)"

lemma length_encode [simp]: "length (encode t i p) = HEADER_SIZE + length p"
  by (simp add: encode_def HEADER_SIZE_def)

text \<open>
  Frame codec: decoding an encoded frame gives back its type, its payload and its
  stream id modulo 2^32.
\<close>

theorem decode_encode:
  "decode (encode t i p) = Some \<lparr>f_type = t, f_stream = nat (i mod 2 ^ 32), f_payload = p\<rparr>"
proof -
  have "nat (i mod 2 ^ 32) < 2 ^ 32" by (simp add: nat_less_iff)
  then show ?thesis
    by (simp add: decode_def encode_def HEADER_SIZE_def be_nat_be_bytes)
qed

text \<open>
  The codec loses nothing: every buffer the decoder accepts is the encoding of what it
  decoded to, and it rejects exactly the buffers shorter than a header.
\<close>

theorem encode_decode:
  "(decode b = None \<longleftrightarrow> length b < HEADER_SIZE) \<and>
   (\<forall>f. decode b = Some f \<longrightarrow> encode (f_type f) (int (f_stream f)) (f_payload f) = b)"
proof (intro conjI allI impI)
  show "decode b = None \<longleftrightarrow> length b < HEADER_SIZE" by (simp add: decode_def)
next
  fix f
  assume d: "decode b = Some f"
  then obtain t a1 a2 a3 a4 p where b: "b = t # a1 # a2 # a3 # a4 # p"
    by (auto simp: decode_def HEADER_SIZE_def not_less numeral_eq_Suc Suc_le_length_iff
        split: if_splits)
  have bd: "be_nat [a1, a2, a3, a4] < 2 ^ 32"
    using be_nat_bound [of "[a1, a2, a3, a4]"] by simp
  have m: "nat (int (be_nat [a1, a2, a3, a4]) mod 2 ^ 32) = be_nat [a1, a2, a3, a4]"
    using bd by (simp add: nat_mod_distrib)
  have f: "f = \<lparr>f_type = t, f_stream = be_nat [a1, a2, a3, a4], f_payload = p\<rparr>"
    using d b by (simp add: decode_def HEADER_SIZE_def)
  have l4: "length [a1, a2, a3, a4] = 4" by simp
  have b4: "be_bytes 4 (be_nat [a1, a2, a3, a4]) = [a1, a2, a3, a4]"
    using be_bytes_be_nat [of "[a1, a2, a3, a4]"] unfolding l4 .
  show "encode (f_type f) (int (f_stream f)) (f_payload f) = b"
    unfolding f encode_def frame.select_convs m b4 b by simp
qed

theorem encode_decode_witness:
  "decode [2, 0, 0, 0, 7, 65] = Some \<lparr>f_type = 2, f_stream = 7, f_payload = [65]\<rparr> \<and>
   encode 2 7 [65] = [2, 0, 0, 0, 7, 65]"
proof -
  have d: "decode [2, 0, 0, 0, 7, 65] = Some \<lparr>f_type = 2, f_stream = 7, f_payload = [65]\<rparr>"
    by (simp add: decode_def HEADER_SIZE_def be_nat_def)
  show ?thesis using d encode_decode [of "[2, 0, 0, 0, 7, 65]"] by simp
qed

end
