(* ===== verification/MuxStream.thy ===== *)
theory MuxStream
  imports Frames
begin

text \<open>
  One multiplexed stream (class MuxStream of src/server/lib/MuxSession.js). A method of the
  class is a function from the stream to the stream and the list of actions it performs, in
  order: what it asks of the session (send a frame, wait for drain, forget the stream), what
  it hands to the readable side, and the callbacks it calls.

  The amount of data buffered in the websocket is the environment's: \<open>ba k\<close> is
  session.bufferedAmount() after k frames were sent in the current call.
\<close>

definition WS_HIGH_WATER :: nat where
  "WS_HIGH_WATER = 4 * 1024 * 1024"

record write_item =
  pieces :: "bytes list"
  index :: nat
  callback :: nat

record mux_stream =
  protocol :: string
  sendWindow :: int
  pendingUpdate :: nat
  writeQueue :: "write_item list"
  finalCallback :: bool
  closeSent :: bool
  closeReceived :: bool
  finished :: bool
  resetReceived :: bool
  destroyed :: bool

datatype action =
    Send byte bytes
  | WantDrain
  | Forget
  | Push bytes
  | PushEnd
  | WriteDone nat
  | WriteFailed nat
  | FinalDone
  | Datagram bytes
  | ThrowRange

definition new_stream :: "string \<Rightarrow> mux_stream" where
  "new_stream metaProtocol =
     \<lparr>protocol = (if metaProtocol = ''udp'' then ''udp'' else ''tcp''),
      sendWindow = int WINDOW_SIZE, pendingUpdate = 0, writeQueue = [],
      finalCallback = False, closeSent = False, closeReceived = False, finished = False,
      resetReceived = False, destroyed = False\<rparr>"

definition stream_read :: "mux_stream \<Rightarrow> mux_stream \<times> action list" where
  "stream_read s =
     (if pendingUpdate s > 0 \<and> \<not> finished s \<and> \<not> closeReceived s
      then let amount = pendingUpdate s; s' = s\<lparr>pendingUpdate := 0\<rparr>
           in if amount < 2 ^ 32 then (s', [Send WINDOW_UPDATE (be_bytes 4 amount)])
              else (s', [ThrowRange])
      else (s, []))"

text \<open>The loop of _write that cuts the chunk at multiples of CHUNK_SIZE.\<close>

function cut_pieces :: "bytes \<Rightarrow> nat \<Rightarrow> bytes list" where
  "cut_pieces chunk offset =
     (if offset < length chunk
      then take CHUNK_SIZE (drop offset chunk) # cut_pieces chunk (offset + CHUNK_SIZE)
      else [])"
  by pat_completeness auto
termination
  by (relation "measure (\<lambda>(chunk, offset). length chunk - offset)") (auto simp: CHUNK_SIZE_def)

declare cut_pieces.simps [simp del]

text \<open>The inner loop of _flushWrites: send pieces while the window and the socket allow;
  what is left, and the window and frame count reached.\<close>

fun send_pieces :: "(nat \<Rightarrow> nat) \<Rightarrow> nat \<Rightarrow> int \<Rightarrow> bytes list \<Rightarrow> action list \<times> int \<times> nat \<times> bytes list" where
  "send_pieces ba n w [] = ([], w, n, [])"
| "send_pieces ba n w (p # ps) =
     (if w < int (length p) \<or> ba n > WS_HIGH_WATER then ([], w, n, p # ps)
      else (case send_pieces ba (Suc n) (w - int (length p)) ps of
              (acts, w', n', rest) \<Rightarrow> (Send DATA p # acts, w', n', rest)))"

text \<open>The outer loop: one queued write after the other, each completed write calling its
  callback; it stops at the first write that cannot be sent in full.\<close>

fun flush_queue ::
  "(nat \<Rightarrow> nat) \<Rightarrow> nat \<Rightarrow> int \<Rightarrow> write_item list \<Rightarrow> action list \<times> int \<times> write_item list \<times> bool" where
  "flush_queue ba n w [] = ([], w, [], False)"
| "flush_queue ba n w (it # q) =
     (case send_pieces ba n w (drop (index it) (pieces it)) of
        (acts, w', n', rest) \<Rightarrow>
          if rest \<noteq> []
          then (acts @ [WantDrain], w',
                it\<lparr>index := length (pieces it) - length rest\<rparr> # q, True)
          else (case flush_queue ba n' w' q of
                  (acts', w'', q', b) \<Rightarrow> (acts @ WriteDone (callback it) # acts', w'', q', b)))"

definition maybeFinish :: "mux_stream \<Rightarrow> mux_stream \<times> action list" where
  "maybeFinish s =
     (if closeSent s \<and> closeReceived s \<and> \<not> finished s
      then (s\<lparr>finished := True\<rparr>, [Forget]) else (s, []))"

definition sendClose :: "mux_stream \<Rightarrow> mux_stream \<times> action list" where
  "sendClose s =
     (if closeSent s \<or> finished s then (s, [])
      else (case maybeFinish (s\<lparr>closeSent := True\<rparr>) of
              (s', acts) \<Rightarrow> (s', Send CLOSE [] # acts)))"

definition flushWrites :: "(nat \<Rightarrow> nat) \<Rightarrow> mux_stream \<Rightarrow> mux_stream \<times> action list" where
  "flushWrites ba s =
     (case (if finished s then ([], sendWindow s, writeQueue s, False)
            else flush_queue ba 0 (sendWindow s) (writeQueue s)) of
        (acts, w, q, blocked) \<Rightarrow>
          let s1 = s\<lparr>sendWindow := w, writeQueue := q\<rparr>
          in if blocked then (s1, acts)
             else if q = [] \<and> finalCallback s1
             then (case sendClose (s1\<lparr>finalCallback := False\<rparr>) of
                     (s2, acts') \<Rightarrow> (s2, acts @ acts' @ [FinalDone]))
             else (s1, acts))"

definition stream_write :: "(nat \<Rightarrow> nat) \<Rightarrow> bytes \<Rightarrow> nat \<Rightarrow> mux_stream \<Rightarrow> mux_stream \<times> action list" where
  "stream_write ba chunk cb s =
     (if finished s then (s, [WriteDone cb])
      else flushWrites ba
             (s\<lparr>writeQueue := writeQueue s @ [\<lparr>pieces = cut_pieces chunk 0, index = 0, callback = cb\<rparr>]\<rparr>))"

definition stream_final :: "(nat \<Rightarrow> nat) \<Rightarrow> mux_stream \<Rightarrow> mux_stream \<times> action list" where
  "stream_final ba s =
     (if finished s then (s, [FinalDone]) else flushWrites ba (s\<lparr>finalCallback := True\<rparr>))"

text \<open>destroy() runs _destroy once; later calls return at once (Node's stream contract).\<close>

definition stream_destroy :: "mux_stream \<Rightarrow> mux_stream \<times> action list" where
  "stream_destroy s =
     (if destroyed s then (s, [])
      else let acts = map (\<lambda>it. WriteFailed (callback it)) (writeQueue s);
               s1 = s\<lparr>destroyed := True, writeQueue := []\<rparr>
           in if finished s1 then (s1, acts)
              else (s1\<lparr>finished := True\<rparr>,
                    acts @ (if \<not> resetReceived s1 \<and> \<not> (closeSent s1 \<and> closeReceived s1)
                            then [Send RESET []] else []) @ [Forget]))"

definition sendDatagram :: "(nat \<Rightarrow> nat) \<Rightarrow> bytes \<Rightarrow> mux_stream \<Rightarrow> bool \<times> action list" where
  "sendDatagram ba d s =
     (if finished s \<or> length d > MAX_DATAGRAM then (False, [])
      else if ba 0 > WS_HIGH_WATER then (False, [])
      else (True, [Send DATAGRAM d]))"

definition onData :: "bytes \<Rightarrow> mux_stream \<Rightarrow> mux_stream \<times> action list" where
  "onData payload s =
     (if closeReceived s \<or> finished s then (s, [])
      else (s\<lparr>pendingUpdate := pendingUpdate s + length payload\<rparr>, [Push payload]))"

definition onClose :: "mux_stream \<Rightarrow> mux_stream \<times> action list" where
  "onClose s =
     (if closeReceived s then (s, [])
      else (case maybeFinish (s\<lparr>closeReceived := True\<rparr>) of (s', acts) \<Rightarrow> (s', PushEnd # acts)))"

definition onReset :: "mux_stream \<Rightarrow> mux_stream \<times> action list" where
  "onReset s = stream_destroy (s\<lparr>resetReceived := True\<rparr>)"

definition onWindowUpdate :: "(nat \<Rightarrow> nat) \<Rightarrow> nat \<Rightarrow> mux_stream \<Rightarrow> mux_stream \<times> action list" where
  "onWindowUpdate ba amount s = flushWrites ba (s\<lparr>sendWindow := sendWindow s + int amount\<rparr>)"

definition onDatagram :: "bytes \<Rightarrow> mux_stream \<Rightarrow> mux_stream \<times> action list" where
  "onDatagram payload s = (if finished s then (s, []) else (s, [Datagram payload]))"

lemmas stream_op_defs = stream_read_def maybeFinish_def sendClose_def stream_write_def
  stream_final_def stream_destroy_def sendDatagram_def onData_def onClose_def onReset_def
  onWindowUpdate_def onDatagram_def

subsection \<open>What a list of actions sends\<close>

fun data_sent :: "action list \<Rightarrow> bytes" where
  "data_sent [] = []"
| "data_sent (Send t p # as) = (if t = DATA then p else []) @ data_sent as"
| "data_sent (_ # as) = data_sent as"

definition sends :: "action list \<Rightarrow> bool" where
  "sends as \<longleftrightarrow> (\<exists>t p. Send t p \<in> set as)"

text \<open>The bytes that wait in the queue, in the order they were written.\<close>

definition item_left :: "write_item \<Rightarrow> bytes" where
  "item_left it = concat (drop (index it) (pieces it))"

definition queued :: "mux_stream \<Rightarrow> bytes" where
  "queued s = concat (map item_left (writeQueue s))"

lemma data_sent_append [simp]: "data_sent (as @ bs) = data_sent as @ data_sent bs"
  by (induction as rule: data_sent.induct) auto

lemma data_sent_fails [simp]: "data_sent (map (\<lambda>it. WriteFailed (f it)) q) = []"
  by (induction q) auto

lemma frame_types_distinct [simp]:
  "CLOSE \<noteq> DATA" "RESET \<noteq> DATA" "WINDOW_UPDATE \<noteq> DATA" "DATAGRAM \<noteq> DATA" "OPEN \<noteq> DATA"
  "DATA \<noteq> CLOSE" "DATA \<noteq> RESET" "DATA \<noteq> WINDOW_UPDATE" "DATA \<noteq> DATAGRAM" "DATA \<noteq> OPEN"
  by (simp_all add: frame_types)

lemma cut_pieces_concat: "concat (cut_pieces chunk offset) = drop offset chunk"
proof (induction chunk offset rule: cut_pieces.induct)
  case (1 chunk offset)
  then show ?case
    by (subst cut_pieces.simps) (auto simp: add.commute simp flip: drop_drop)
qed

lemma cut_pieces_sizes: "\<forall>p \<in> set (cut_pieces chunk offset). 0 < length p \<and> length p \<le> CHUNK_SIZE"
proof (induction chunk offset rule: cut_pieces.induct)
  case (1 chunk offset)
  have "0 < CHUNK_SIZE" by (simp add: CHUNK_SIZE_def)
  with 1 show ?case
    by (subst cut_pieces.simps) auto
qed

lemma send_pieces_spec:
  "send_pieces ba n w ps = (acts, w', n', rest) \<Longrightarrow>
     data_sent acts @ concat rest = concat ps \<and> int (length (data_sent acts)) = w - w' \<and>
     (0 \<le> w \<longrightarrow> 0 \<le> w') \<and> w' \<le> w \<and>
     (\<exists>k \<le> length ps. rest = drop k ps) \<and>
     (\<forall>a \<in> set acts. \<exists>p \<in> set ps. a = Send DATA p)"
proof (induction ps arbitrary: n w acts w' n' rest)
  case Nil
  then show ?case by auto
next
  case (Cons p ps)
  show ?case
  proof (cases "w < int (length p) \<or> ba n > WS_HIGH_WATER")
    case True
    with Cons.prems show ?thesis by auto
  next
    case False
    obtain a1 w1 n1 r1 where r: "send_pieces ba (Suc n) (w - int (length p)) ps = (a1, w1, n1, r1)"
      by (cases "send_pieces ba (Suc n) (w - int (length p)) ps") auto
    from Cons.IH [OF r] obtain k where k: "k \<le> length ps" "r1 = drop k ps" by auto
    then have "\<exists>k \<le> length (p # ps). r1 = drop k (p # ps)"
      by (intro exI [of _ "Suc k"]) auto
    with Cons.IH [OF r] False Cons.prems r show ?thesis by auto
  qed
qed

lemma flush_queue_spec:
  "flush_queue ba n w q = (acts, w', q', b) \<Longrightarrow> \<forall>it \<in> set q. index it \<le> length (pieces it) \<Longrightarrow>
     data_sent acts @ concat (map item_left q') = concat (map item_left q) \<and>
     int (length (data_sent acts)) = w - w' \<and> (0 \<le> w \<longrightarrow> 0 \<le> w') \<and> w' \<le> w \<and>
     (\<forall>it \<in> set q'. index it \<le> length (pieces it)) \<and>
     (b \<longrightarrow> q' \<noteq> []) \<and> (\<not> b \<longrightarrow> q' = [])"
proof (induction q arbitrary: n w acts w' q' b)
  case Nil
  then show ?case by simp
next
  case (Cons it q)
  obtain a1 w1 n1 rest where s: "send_pieces ba n w (drop (index it) (pieces it)) = (a1, w1, n1, rest)"
    by (cases "send_pieces ba n w (drop (index it) (pieces it))") auto
  note sp = send_pieces_spec [OF s]
  show ?case
  proof (cases "rest = []")
    case False
    from sp obtain k where k: "rest = drop (index it + k) (pieces it)"
      "index it + k \<le> length (pieces it)"
      using Cons.prems(2) by (auto simp: add.commute)
    then have "length (pieces it) - length rest = index it + k" by simp
    with False Cons.prems s sp k show ?thesis by (auto simp: item_left_def)
  next
    case True
    obtain a2 w2 q2 b2 where f: "flush_queue ba n1 w1 q = (a2, w2, q2, b2)"
      by (cases "flush_queue ba n1 w1 q") auto
    from Cons.IH [OF f] Cons.prems True s sp f show ?thesis
      by (auto simp: item_left_def)
  qed
qed

end
