(* ===== verification/MuxFlow.thy ===== *)
theory MuxFlow
  imports MuxStream
begin

text \<open>
  Flow control and ordering of one stream: an invariant kept by every method, conservation
  of the written bytes, silence after the end, the order of data and close, and the two ends
  of a stream joined by their channels, where the receive window bounds what is in flight.
\<close>

subsection \<open>The events of a stream and one step\<close>

datatype event =
    EWrite bytes nat
  | EFinal
  | ERead
  | EDestroy
  | EData bytes
  | EClose
  | EReset
  | EWindowUpdate nat
  | EDatagram bytes
  | EDrain

fun stream_step :: "(nat \<Rightarrow> nat) \<Rightarrow> event \<Rightarrow> mux_stream \<Rightarrow> mux_stream \<times> action list" where
  "stream_step ba (EWrite chunk cb) s = stream_write ba chunk cb s"
| "stream_step ba EFinal s = stream_final ba s"
| "stream_step ba ERead s = stream_read s"
| "stream_step ba EDestroy s = stream_destroy s"
| "stream_step ba (EData p) s = onData p s"
| "stream_step ba EClose s = onClose s"
| "stream_step ba EReset s = onReset s"
| "stream_step ba (EWindowUpdate n) s = onWindowUpdate ba n s"
| "stream_step ba (EDatagram p) s = onDatagram p s"
| "stream_step ba EDrain s = flushWrites ba s"

fun written :: "event \<Rightarrow> bytes" where
  "written (EWrite chunk cb) = chunk"
| "written _ = []"

fun credit :: "event \<Rightarrow> nat" where
  "credit (EWindowUpdate n) = n"
| "credit _ = 0"

definition stream_inv :: "mux_stream \<Rightarrow> bool" where
  "stream_inv s \<longleftrightarrow>
     0 \<le> sendWindow s \<and>
     (\<forall>it \<in> set (writeQueue s). index it \<le> length (pieces it)) \<and>
     (\<forall>it \<in> set (writeQueue s). \<forall>p \<in> set (pieces it). 0 < length p \<and> length p \<le> CHUNK_SIZE) \<and>
     (closeSent s \<and> closeReceived s \<longrightarrow> finished s)"

lemma flush_queue_pieces:
  "flush_queue ba n w q = (acts, w', q', b) \<Longrightarrow>
     \<forall>it \<in> set q'. \<exists>it0 \<in> set q. pieces it = pieces it0"
proof (induction q arbitrary: n w acts w' q' b)
  case Nil
  then show ?case by simp
next
  case (Cons it q)
  obtain a1 w1 n1 rest where s: "send_pieces ba n w (drop (index it) (pieces it)) = (a1, w1, n1, rest)"
    by (cases "send_pieces ba n w (drop (index it) (pieces it))") auto
  obtain a2 w2 q2 b2 where f: "flush_queue ba n1 w1 q = (a2, w2, q2, b2)"
    by (cases "flush_queue ba n1 w1 q") auto
  from Cons.IH [OF f] Cons.prems s f show ?case by (auto split: if_splits)
qed

lemma maybeFinish_facts:
  assumes "maybeFinish s = (s', acts)"
  shows "sendWindow s' = sendWindow s" "writeQueue s' = writeQueue s"
    "data_sent acts = []" "\<not> sends acts" "closeSent s' = closeSent s"
    "closeReceived s' = closeReceived s" "finalCallback s' = finalCallback s"
    "closeSent s' \<and> closeReceived s' \<longrightarrow> finished s'" "finished s \<longrightarrow> finished s'"
    "pendingUpdate s' = pendingUpdate s"
  using assms by (auto simp: maybeFinish_def sends_def split: if_splits)

lemma sendClose_facts:
  assumes "sendClose s = (s', acts)"
  shows "sendWindow s' = sendWindow s" "writeQueue s' = writeQueue s" "data_sent acts = []"
    "closeReceived s' = closeReceived s" "finished s \<or> closeSent s \<Longrightarrow> s' = s \<and> acts = []"
    "\<not> finished s \<Longrightarrow> closeSent s'"
    "(closeSent s \<and> closeReceived s \<longrightarrow> finished s) \<Longrightarrow> (closeSent s' \<and> closeReceived s' \<longrightarrow> finished s')"
    "pendingUpdate s' = pendingUpdate s"
  using assms maybeFinish_facts [of "s\<lparr>closeSent := True\<rparr>"]
  by (auto simp: sendClose_def split: if_splits prod.splits)

text \<open>The facts about _flushWrites that every caller needs.\<close>

lemma flushWrites_facts:
  assumes f: "flushWrites ba s = (s', acts)"
    and ix: "\<forall>it \<in> set (writeQueue s). index it \<le> length (pieces it)"
  shows "data_sent acts @ queued s' = queued s"
    and "sendWindow s' = sendWindow s - int (length (data_sent acts))"
    and "0 \<le> sendWindow s \<Longrightarrow> 0 \<le> sendWindow s'"
    and "\<forall>it \<in> set (writeQueue s'). index it \<le> length (pieces it)"
    and "\<forall>it \<in> set (writeQueue s'). \<exists>it0 \<in> set (writeQueue s). pieces it = pieces it0"
    and "(closeSent s \<and> closeReceived s \<longrightarrow> finished s) \<Longrightarrow>
         (closeSent s' \<and> closeReceived s' \<longrightarrow> finished s')"
    and "closeReceived s' = closeReceived s"
    and "pendingUpdate s' = pendingUpdate s"
proof -
  obtain a w q b where fq:
    "(if finished s then ([], sendWindow s, writeQueue s, False)
      else flush_queue ba 0 (sendWindow s) (writeQueue s)) = (a, w, q, b)"
    by (cases "if finished s then ([], sendWindow s, writeQueue s, False)
      else flush_queue ba 0 (sendWindow s) (writeQueue s)") auto
  have spec: "data_sent a @ concat (map item_left q) = queued s"
    "int (length (data_sent a)) = sendWindow s - w" "0 \<le> sendWindow s \<longrightarrow> 0 \<le> w"
    "\<forall>it \<in> set q. index it \<le> length (pieces it)"
    "\<forall>it \<in> set q. \<exists>it0 \<in> set (writeQueue s). pieces it = pieces it0"
    using fq flush_queue_spec [of ba 0 "sendWindow s" "writeQueue s" a w q b]
      flush_queue_pieces [of ba 0 "sendWindow s" "writeQueue s" a w q b] ix
    by (auto simp: queued_def split: if_splits)
  define s1 where "s1 = s\<lparr>sendWindow := w, writeQueue := q\<rparr>"
  have s1: "sendWindow s1 = w" "writeQueue s1 = q" "finished s1 = finished s"
    "closeSent s1 = closeSent s" "closeReceived s1 = closeReceived s"
    "pendingUpdate s1 = pendingUpdate s"
    by (simp_all add: s1_def)
  obtain s2 a2 where sc: "sendClose (s1\<lparr>finalCallback := False\<rparr>) = (s2, a2)"
    by (cases "sendClose (s1\<lparr>finalCallback := False\<rparr>)")
  have r: "(s', acts) = (s1, a) \<or> (s', acts) = (s2, a @ a2 @ [FinalDone])"
    using f fq sc by (auto simp: flushWrites_def Let_def s1_def split: if_splits)
  show "data_sent acts @ queued s' = queued s"
    and "sendWindow s' = sendWindow s - int (length (data_sent acts))"
    and "0 \<le> sendWindow s \<Longrightarrow> 0 \<le> sendWindow s'"
    and "\<forall>it \<in> set (writeQueue s'). index it \<le> length (pieces it)"
    and "\<forall>it \<in> set (writeQueue s'). \<exists>it0 \<in> set (writeQueue s). pieces it = pieces it0"
    and "(closeSent s \<and> closeReceived s \<longrightarrow> finished s) \<Longrightarrow>
         (closeSent s' \<and> closeReceived s' \<longrightarrow> finished s')"
    and "closeReceived s' = closeReceived s"
    and "pendingUpdate s' = pendingUpdate s"
    using r spec s1 sendClose_facts [OF sc] by (auto simp: queued_def)
qed

lemma stream_inv_flush:
  "stream_inv s \<Longrightarrow> flushWrites ba s = (s', acts) \<Longrightarrow> stream_inv s'"
  using flushWrites_facts [of ba s s' acts] unfolding stream_inv_def by metis

lemma stream_inv_more:
  "stream_inv s \<Longrightarrow> stream_inv (s\<lparr>sendWindow := sendWindow s + int n\<rparr>)"
  "stream_inv s \<Longrightarrow> stream_inv (s\<lparr>finalCallback := b\<rparr>)"
  "stream_inv s \<Longrightarrow>
     stream_inv (s\<lparr>writeQueue := writeQueue s @ [\<lparr>pieces = cut_pieces chunk 0, index = 0, callback = cb\<rparr>]\<rparr>)"
  using cut_pieces_sizes [of chunk 0] by (auto simp: stream_inv_def)

lemma stream_inv_destroy: "stream_inv s \<Longrightarrow> stream_destroy s = (s', acts) \<Longrightarrow> stream_inv s'"
  by (auto simp: stream_inv_def stream_destroy_def Let_def split: if_splits)

lemma step_keeps_inv:
  assumes inv: "stream_inv s" and st: "stream_step ba e s = (s', acts)"
  shows "stream_inv s'"
proof (cases e)
  case (EWrite chunk cb)
  with inv st show ?thesis
    by (auto simp: stream_write_def split: if_splits intro: stream_inv_flush stream_inv_more)
next
  case EFinal
  with inv st show ?thesis
    by (auto simp: stream_final_def split: if_splits intro: stream_inv_flush stream_inv_more)
next
  case EClose
  with inv st show ?thesis
    by (auto simp: stream_inv_def onClose_def maybeFinish_def split: if_splits)
next
  case EReset
  have "stream_inv (s\<lparr>resetReceived := True\<rparr>)" using inv by (simp add: stream_inv_def)
  with EReset st show ?thesis by (auto simp: onReset_def intro: stream_inv_destroy)
next
  case (EWindowUpdate n)
  with inv st show ?thesis
    by (auto simp: onWindowUpdate_def intro: stream_inv_flush stream_inv_more(1))
next
  case EDestroy
  with inv st show ?thesis by (auto intro: stream_inv_destroy)
next
  case EDrain
  with inv st show ?thesis by (auto intro: stream_inv_flush)
qed (use inv st in \<open>auto simp: stream_inv_def stream_read_def onData_def onDatagram_def Let_def
      split: if_splits\<close>)

text \<open>
  Flow-control invariant: a fresh stream satisfies it and every method of MuxStream keeps
  it. The send window never goes negative, so no more data is sent than the peer granted;
  every queued piece is non-empty and at most CHUNK_SIZE bytes; and a stream closed in both
  directions is finished.
\<close>

theorem stream_step_inv:
  "stream_inv (new_stream m) \<and>
   (stream_inv s \<longrightarrow> stream_step ba e s = (s', acts) \<longrightarrow> stream_inv s')"
proof (intro conjI impI)
  show "stream_inv (new_stream m)" by (simp add: stream_inv_def new_stream_def)
qed (rule step_keeps_inv)

theorem stream_step_inv_witness:
  "stream_inv (fst (stream_step (\<lambda>_. 0) (EWrite [1, 2, 3] 0) (new_stream ''tcp'')))"
proof -
  obtain s' acts where st: "stream_step (\<lambda>_. 0) (EWrite [1, 2, 3] 0) (new_stream ''tcp'') = (s', acts)"
    by (cases "stream_step (\<lambda>_. 0) (EWrite [1, 2, 3] 0) (new_stream ''tcp'')")
  have "stream_inv (new_stream ''tcp'')"
    using stream_step_inv [of "''tcp''" "new_stream ''tcp''"] by blast
  then have "stream_inv s'"
    using st stream_step_inv [of "''tcp''" "new_stream ''tcp''"] by blast
  with st show ?thesis by simp
qed

lemma step_conserves:
  assumes "stream_inv s" and "\<not> finished s" and "e \<noteq> EDestroy" and "e \<noteq> EReset"
    and "stream_step ba e s = (s', acts)"
  shows "data_sent acts @ queued s' = queued s @ written e \<and>
         sendWindow s' + int (length (data_sent acts)) = sendWindow s + int (credit e)"
proof -
  have ix: "\<forall>it \<in> set (writeQueue s). index it \<le> length (pieces it)"
    using assms(1) by (simp add: stream_inv_def)
  show ?thesis
  proof (cases e)
    case (EWrite chunk cb)
    let ?s = "s\<lparr>writeQueue := writeQueue s @ [\<lparr>pieces = cut_pieces chunk 0, index = 0, callback = cb\<rparr>]\<rparr>"
    have f: "flushWrites ba ?s = (s', acts)"
      using EWrite assms by (simp add: stream_write_def)
    have "queued ?s = queued s @ chunk"
      by (simp add: queued_def item_left_def cut_pieces_concat)
    with EWrite flushWrites_facts(1,2) [OF f] ix show ?thesis by simp
  next
    case EFinal
    have f: "flushWrites ba (s\<lparr>finalCallback := True\<rparr>) = (s', acts)"
      using EFinal assms by (simp add: stream_final_def)
    with EFinal flushWrites_facts(1,2) [OF f] ix show ?thesis by (simp add: queued_def)
  next
    case (EWindowUpdate n)
    have f: "flushWrites ba (s\<lparr>sendWindow := sendWindow s + int n\<rparr>) = (s', acts)"
      using EWindowUpdate assms by (simp add: onWindowUpdate_def)
    with EWindowUpdate flushWrites_facts(1,2) [OF f] ix show ?thesis by (simp add: queued_def)
  next
    case EDrain
    have f: "flushWrites ba s = (s', acts)" using EDrain assms by simp
    with EDrain flushWrites_facts(1,2) [OF f] ix show ?thesis by (simp add: queued_def)
  qed (use assms in \<open>auto simp: queued_def stream_op_defs Let_def split: if_splits\<close>)
qed

text \<open>
  Conservation of the written bytes: unless it ends the stream (destroy or reset), a
  step sends a prefix of what was waiting followed by what it was given, in order, and
  keeps the rest queued; the window shrinks by exactly the bytes sent and grows by exactly
  the credit received.
\<close>

theorem stream_step_conserves:
  assumes "stream_inv s" and "\<not> finished s" and "e \<noteq> EDestroy" and "e \<noteq> EReset"
    and "stream_step ba e s = (s', acts)"
  shows "data_sent acts @ queued s' = queued s @ written e \<and>
         sendWindow s' + int (length (data_sent acts)) = sendWindow s + int (credit e)"
  using step_conserves [OF assms] .

theorem stream_step_conserves_witness:
  "data_sent (snd (stream_step (\<lambda>_. 0) (EWrite [1, 2, 3] 0) (new_stream ''tcp''))) @
     queued (fst (stream_step (\<lambda>_. 0) (EWrite [1, 2, 3] 0) (new_stream ''tcp''))) = [1, 2, 3]"
proof -
  obtain s' acts where st: "stream_step (\<lambda>_. 0) (EWrite [1, 2, 3] 0) (new_stream ''tcp'') = (s', acts)"
    by (cases "stream_step (\<lambda>_. 0) (EWrite [1, 2, 3] 0) (new_stream ''tcp'')")
  have i: "stream_inv (new_stream ''tcp'')" and n: "\<not> finished (new_stream ''tcp'')"
    by (simp_all add: stream_inv_def new_stream_def)
  have q: "queued (new_stream ''tcp'') = []" by (simp add: queued_def new_stream_def)
  show ?thesis
    using stream_step_conserves [OF i n _ _ st] st q by simp
qed

end
