(* ===== verification/MuxLink.thy ===== *)
theory MuxLink
  imports MuxFlow
begin

text \<open>
  Ordering at the end of a stream, progress of a flush, and the two ends of a stream: a
  sender and a receiver joined by the websocket, which carries data frames one way and
  window updates the other, each in order.
\<close>

subsection \<open>Silence and the order of close\<close>

lemma sends_simps [simp]:
  "\<not> sends []" "sends (as @ bs) \<longleftrightarrow> sends as \<or> sends bs"
  "sends (a # as) \<longleftrightarrow> (\<exists>t p. a = Send t p) \<or> sends as"
  by (auto simp: sends_def)

lemma sends_fails [simp]: "\<not> sends (map (\<lambda>it. WriteFailed (f it)) q)"
  by (auto simp: sends_def)

lemma flushWrites_finished:
  "finished s \<Longrightarrow> flushWrites ba s = (s', acts) \<Longrightarrow> finished s' \<and> \<not> sends acts"
  by (auto simp: flushWrites_def sendClose_def Let_def split: if_splits)

text \<open>
  Silence after the end: a finished stream (closed both ways, reset or destroyed) sends
  no frame whatever happens to it, and stays finished. So forgetting it in the session map
  loses nothing.
\<close>

theorem finished_silent:
  assumes "finished s" and "stream_step ba e s = (s', acts)"
  shows "finished s' \<and> \<not> sends acts"
proof (cases e)
  case (EWindowUpdate n)
  with assms have "flushWrites ba (s\<lparr>sendWindow := sendWindow s + int n\<rparr>) = (s', acts)"
    by (simp add: onWindowUpdate_def)
  moreover have "finished (s\<lparr>sendWindow := sendWindow s + int n\<rparr>)" using assms(1) by simp
  ultimately show ?thesis by (metis flushWrites_finished)
next
  case EDrain
  with assms have "flushWrites ba s = (s', acts)" by simp
  with assms(1) show ?thesis by (rule flushWrites_finished)
next
  case EClose
  with assms show ?thesis
    by (auto simp: onClose_def maybeFinish_def split: if_splits)
next
  case EReset
  with assms show ?thesis
    by (auto simp: onReset_def stream_destroy_def Let_def split: if_splits)
next
  case EDestroy
  with assms show ?thesis
    by (auto simp: stream_destroy_def Let_def split: if_splits)
qed (use assms in \<open>auto simp: stream_write_def stream_final_def stream_read_def onData_def
      onDatagram_def Let_def split: if_splits\<close>)

theorem finished_silent_witness:
  "\<not> sends (snd (stream_step (\<lambda>_. 0) (EWrite [1] 0) ((new_stream ''tcp'')\<lparr>finished := True\<rparr>)))"
proof -
  obtain s' acts where st:
    "stream_step (\<lambda>_. 0) (EWrite [1] 0) ((new_stream ''tcp'')\<lparr>finished := True\<rparr>) = (s', acts)"
    by (cases "stream_step (\<lambda>_. 0) (EWrite [1] 0) ((new_stream ''tcp'')\<lparr>finished := True\<rparr>)")
  have "finished ((new_stream ''tcp'')\<lparr>finished := True\<rparr>)" by simp
  from finished_silent [OF this st] st show ?thesis by simp
qed

text \<open>Runs: each event comes with its own view of the websocket's buffer.\<close>

fun stream_run :: "((nat \<Rightarrow> nat) \<times> event) list \<Rightarrow> mux_stream \<Rightarrow> mux_stream \<times> action list" where
  "stream_run [] s = (s, [])"
| "stream_run ((ba, e) # es) s =
     (case stream_step ba e s of (s1, a1) \<Rightarrow> (case stream_run es s1 of (s2, a2) \<Rightarrow> (s2, a1 @ a2)))"

text \<open>Node refuses a write after end(): no write event follows the final event.\<close>

fun no_write_after_end :: "event list \<Rightarrow> bool" where
  "no_write_after_end [] = True"
| "no_write_after_end (e # es) =
     ((e = EFinal \<longrightarrow> (\<forall>c k. EWrite c k \<notin> set es)) \<and> no_write_after_end es)"

text \<open>The payload bytes sent after the first CLOSE, and whether a CLOSE was sent.\<close>

fun after_close :: "action list \<Rightarrow> action list" where
  "after_close [] = []"
| "after_close (Send t p # as) = (if t = CLOSE then as else after_close as)"
| "after_close (_ # as) = after_close as"

definition closes :: "action list \<Rightarrow> bool" where
  "closes as \<longleftrightarrow> (\<exists>p. Send CLOSE p \<in> set as)"

lemma after_close_append:
  "after_close (as @ bs) = (if closes as then after_close as @ bs else after_close bs)"
  by (induction as rule: after_close.induct) (auto simp: closes_def)

lemma after_close_none: "\<not> closes as \<Longrightarrow> after_close as = []"
  by (induction as rule: after_close.induct) (auto simp: closes_def)

lemma closes_simps [simp]:
  "\<not> closes []" "closes (as @ bs) \<longleftrightarrow> closes as \<or> closes bs"
  "closes (a # as) \<longleftrightarrow> (\<exists>p. a = Send CLOSE p) \<or> closes as"
  by (auto simp: closes_def)

lemma closes_fails [simp]: "\<not> closes (map (\<lambda>it. WriteFailed (f it)) q)"
  by (auto simp: closes_def)

lemma after_close_fails [simp]: "after_close (map (\<lambda>it. WriteFailed (f it)) q) = []"
  by (simp add: after_close_none)

text \<open>Once the close is sent nothing waits, and while final is not pending and no close was
  sent, the writable side has not been ended.\<close>

definition close_inv :: "bool \<Rightarrow> mux_stream \<Rightarrow> bool" where
  "close_inv ended s \<longleftrightarrow>
     (closeSent s \<longrightarrow> ended \<and> writeQueue s = []) \<and> (finalCallback s \<longrightarrow> ended)"

lemma flush_queue_empty: "flush_queue ba n w [] = ([], w, [], False)"
  by simp

lemma flush_queue_sends:
  "flush_queue ba n w q = (acts, w', q', b) \<Longrightarrow> \<not> closes acts"
proof (induction q arbitrary: n w acts w' q' b)
  case Nil
  then show ?case by auto
next
  case (Cons it q)
  obtain a1 w1 n1 rest where s: "send_pieces ba n w (drop (index it) (pieces it)) = (a1, w1, n1, rest)"
    by (cases "send_pieces ba n w (drop (index it) (pieces it))") auto
  have c1: "\<not> closes a1" using send_pieces_spec [OF s] by (auto simp: closes_def)
  obtain a2 w2 q2 b2 where f: "flush_queue ba n1 w1 q = (a2, w2, q2, b2)"
    by (cases "flush_queue ba n1 w1 q") auto
  from Cons.IH [OF f] c1 Cons.prems s f show ?case by (auto split: if_splits)
qed

lemma flushWrites_close:
  assumes "close_inv ended s" and "flushWrites ba s = (s', acts)"
    and ix: "\<forall>it \<in> set (writeQueue s). index it \<le> length (pieces it)"
  shows "close_inv ended s'" and "data_sent (after_close acts) = []"
    and "closeSent s \<Longrightarrow> closeSent s' \<and> data_sent acts = [] \<and> \<not> closes acts"
    and "closes acts \<Longrightarrow> closeSent s'"
proof -
  obtain a w q b where fq:
    "(if finished s then ([], sendWindow s, writeQueue s, False)
      else flush_queue ba 0 (sendWindow s) (writeQueue s)) = (a, w, q, b)"
    by (cases "if finished s then ([], sendWindow s, writeQueue s, False)
      else flush_queue ba 0 (sendWindow s) (writeQueue s)") auto
  have nc: "\<not> closes a"
    using fq flush_queue_sends [of ba 0 "sendWindow s" "writeQueue s"] by (auto split: if_splits)
  have em: "closeSent s \<Longrightarrow> q = [] \<and> data_sent a = []"
    using fq assms(1) by (auto simp: close_inv_def split: if_splits)
  have qb: "\<not> finished s \<and> \<not> b \<Longrightarrow> q = []"
    using fq flush_queue_spec [of ba 0 "sendWindow s" "writeQueue s" a w q b] ix
    by (auto split: if_splits)
  show "close_inv ended s'" and "data_sent (after_close acts) = []"
    and "closeSent s \<Longrightarrow> closeSent s' \<and> data_sent acts = [] \<and> \<not> closes acts"
    and "closes acts \<Longrightarrow> closeSent s'"
    using assms(1,2) fq nc em qb
    by (auto simp: flushWrites_def sendClose_def maybeFinish_def close_inv_def Let_def
        after_close_append after_close_none split: if_splits)
qed

lemma stream_step_close:
  assumes "close_inv ended s" and "stream_inv s" and "stream_step ba e s = (s', acts)"
    and "ended \<Longrightarrow> \<forall>c k. e \<noteq> EWrite c k"
  shows "close_inv (ended \<or> e = EFinal) s'" and "data_sent (after_close acts) = []"
    and "closeSent s \<Longrightarrow> closeSent s' \<and> data_sent acts = [] \<and> \<not> closes acts"
    and "closes acts \<Longrightarrow> closeSent s'"
proof -
  have ix: "\<forall>it \<in> set (writeQueue s). index it \<le> length (pieces it)"
    using assms(2) by (simp add: stream_inv_def)
  have goal: "close_inv (ended \<or> e = EFinal) s' \<and> data_sent (after_close acts) = [] \<and>
    (closeSent s \<longrightarrow> closeSent s' \<and> data_sent acts = [] \<and> \<not> closes acts) \<and>
    (closes acts \<longrightarrow> closeSent s')"
  proof (cases e)
    case (EWrite chunk cb)
    show ?thesis
    proof (cases "finished s")
      case True
      with EWrite assms show ?thesis by (auto simp: stream_write_def close_inv_def)
    next
      case False
      let ?s = "s\<lparr>writeQueue := writeQueue s @ [\<lparr>pieces = cut_pieces chunk 0, index = 0, callback = cb\<rparr>]\<rparr>"
      have f: "flushWrites ba ?s = (s', acts)"
        using EWrite False assms(3) by (simp add: stream_write_def)
      have "\<not> ended" using EWrite assms(4) by auto
      then have ci: "close_inv ended ?s" using assms(1) by (auto simp: close_inv_def)
      have "\<not> closeSent s" using \<open>\<not> ended\<close> assms(1) by (auto simp: close_inv_def)
      with flushWrites_close [OF ci f] ix EWrite show ?thesis by auto
    qed
  next
    case EFinal
    show ?thesis
    proof (cases "finished s")
      case True
      with EFinal assms show ?thesis by (auto simp: stream_final_def close_inv_def)
    next
      case False
      have f: "flushWrites ba (s\<lparr>finalCallback := True\<rparr>) = (s', acts)"
        using EFinal False assms(3) by (simp add: stream_final_def)
      have ci: "close_inv True (s\<lparr>finalCallback := True\<rparr>)"
        using assms(1) by (auto simp: close_inv_def)
      show ?thesis using flushWrites_close [OF ci f] ix EFinal by simp
    qed
  next
    case (EWindowUpdate n)
    have f: "flushWrites ba (s\<lparr>sendWindow := sendWindow s + int n\<rparr>) = (s', acts)"
      using EWindowUpdate assms(3) by (simp add: onWindowUpdate_def)
    have ci: "close_inv ended (s\<lparr>sendWindow := sendWindow s + int n\<rparr>)"
      using assms(1) by (auto simp: close_inv_def)
    show ?thesis using flushWrites_close [OF ci f] ix EWindowUpdate by simp
  next
    case EDrain
    have f: "flushWrites ba s = (s', acts)" using EDrain assms(3) by simp
    show ?thesis using flushWrites_close [OF assms(1) f ix] EDrain by simp
  qed (use assms in \<open>auto simp: stream_op_defs close_inv_def Let_def frame_types
        after_close_append split: if_splits\<close>)
  show "close_inv (ended \<or> e = EFinal) s'" and "data_sent (after_close acts) = []"
    and "closeSent s \<Longrightarrow> closeSent s' \<and> data_sent acts = [] \<and> \<not> closes acts"
    and "closes acts \<Longrightarrow> closeSent s'"
    using goal by auto
qed

lemma stream_run_close:
  assumes "close_inv ended s" and "stream_inv s" and "stream_run es s = (s', acts)"
    and "no_write_after_end (map snd es)" and "ended \<Longrightarrow> \<forall>c k. EWrite c k \<notin> set (map snd es)"
  shows "data_sent (after_close acts) = [] \<and> (closeSent s \<longrightarrow> data_sent acts = [] \<and> \<not> closes acts)"
  using assms
proof (induction es arbitrary: ended s acts s')
  case Nil
  then show ?case by simp
next
  case (Cons be es)
  obtain ba e where be: "be = (ba, e)" by (cases be)
  obtain s1 a1 where st: "stream_step ba e s = (s1, a1)" by (cases "stream_step ba e s")
  obtain s2 a2 where rn: "stream_run es s1 = (s2, a2)" by (cases "stream_run es s1")
  have acts: "acts = a1 @ a2" using Cons.prems(3) be st rn by simp
  have en: "ended \<Longrightarrow> \<forall>c k. e \<noteq> EWrite c k" using Cons.prems(5) be by auto
  note sc = stream_step_close [OF Cons.prems(1,2) st en]
  have i1: "stream_inv s1" using step_keeps_inv [OF Cons.prems(2) st] .
  have nw: "no_write_after_end (map snd es)" using Cons.prems(4) be by simp
  have e1: "ended \<or> e = EFinal \<Longrightarrow> \<forall>c k. EWrite c k \<notin> set (map snd es)"
    using Cons.prems(4,5) be by auto
  note ih = Cons.IH [OF sc(1) i1 rn nw e1]
  show ?case using acts sc(2-4) ih by (auto simp: after_close_append)
qed

lemma new_stream_close_inv: "close_inv False (new_stream m)"
  by (simp add: close_inv_def new_stream_def)

lemma new_stream_inv: "stream_inv (new_stream m)"
  by (simp add: stream_inv_def new_stream_def)

text \<open>
  Close comes last: over any run of a fresh stream (Node refusing writes after end()),
  no data byte is sent after the CLOSE frame. The peer that sees CLOSE has seen everything.
\<close>

theorem no_data_after_close:
  assumes "no_write_after_end (map snd es)" and "stream_run es (new_stream m) = (s', acts)"
  shows "data_sent (after_close acts) = []"
  using stream_run_close [OF new_stream_close_inv new_stream_inv assms(2,1)] by simp

theorem no_data_after_close_witness:
  "no_write_after_end (map snd [(\<lambda>_::nat. 0::nat, EWrite [1, 2] 0), (\<lambda>_. 0, EFinal), (\<lambda>_. 0, EDrain)]) \<and>
   data_sent (after_close (snd (stream_run
     [(\<lambda>_. 0, EWrite [1, 2] 0), (\<lambda>_. 0, EFinal), (\<lambda>_. 0, EDrain)] (new_stream ''tcp'')))) = []"
proof -
  let ?es = "[(\<lambda>_::nat. 0::nat, EWrite [1, 2] 0), (\<lambda>_. 0, EFinal), (\<lambda>_. 0, EDrain)]"
  have n: "no_write_after_end (map snd ?es)" by simp
  obtain s' acts where r: "stream_run ?es (new_stream ''tcp'') = (s', acts)"
    by (cases "stream_run ?es (new_stream ''tcp'')")
  show ?thesis using n r no_data_after_close [OF n r] by simp
qed

subsection \<open>Progress\<close>

lemma send_pieces_all:
  assumes "\<forall>k. ba k \<le> WS_HIGH_WATER" and "int (length (concat ps)) \<le> w"
  shows "\<exists>acts w' n'. send_pieces ba n w ps = (acts, w', n', [])"
  using assms(2)
proof (induction ps arbitrary: n w)
  case Nil
  then show ?case by simp
next
  case (Cons p ps)
  then have "int (length (concat ps)) \<le> w - int (length p)" by simp
  from Cons.IH [OF this] obtain a w' n' where
    "send_pieces ba (Suc n) (w - int (length p)) ps = (a, w', n', [])" by blast
  moreover have "\<not> (w < int (length p) \<or> ba n > WS_HIGH_WATER)"
    using Cons.prems assms(1) by (auto simp: not_less)
  ultimately show ?case by simp
qed

lemma flush_queue_all:
  assumes "\<forall>k. ba k \<le> WS_HIGH_WATER" and "int (length (concat (map item_left q))) \<le> w"
  shows "\<exists>acts w'. flush_queue ba n w q = (acts, w', [], False) \<and>
           (\<forall>it \<in> set q. WriteDone (callback it) \<in> set acts)"
  using assms(2)
proof (induction q arbitrary: n w)
  case Nil
  then show ?case by simp
next
  case (Cons it q)
  from Cons.prems have i: "int (length (concat (drop (index it) (pieces it)))) \<le> w"
    by (simp add: item_left_def)
  obtain a1 w1 n1 where s: "send_pieces ba n w (drop (index it) (pieces it)) = (a1, w1, n1, [])"
    using send_pieces_all [OF assms(1) i] by blast
  from send_pieces_spec [OF s] have "int (length (concat (drop (index it) (pieces it)))) = w - w1"
    by (metis append_Nil2 concat.simps(1))
  moreover have "length (concat (map item_left (it # q))) =
      length (concat (drop (index it) (pieces it))) + length (concat (map item_left q))"
    by (simp add: item_left_def [of it])
  ultimately have "int (length (concat (map item_left q))) \<le> w1" using Cons.prems by linarith
  from Cons.IH [OF this] obtain a2 w2 where
    "flush_queue ba n1 w1 q = (a2, w2, [], False)" "\<forall>it \<in> set q. WriteDone (callback it) \<in> set a2"
    by blast
  with s show ?case by auto
qed

text \<open>
  Progress: when the window covers what is queued and the websocket is not congested,
  one flush sends everything, completes every pending write, and, if the writable side was
  ended, sends CLOSE behind the data and completes the end.
\<close>

theorem flushWrites_progress:
  assumes "\<not> finished s" and "\<not> closeSent s" and "int (length (queued s)) \<le> sendWindow s"
    and "\<forall>k. ba k \<le> WS_HIGH_WATER" and "flushWrites ba s = (s', acts)"
  shows "writeQueue s' = [] \<and> (\<forall>it \<in> set (writeQueue s). WriteDone (callback it) \<in> set acts) \<and>
         (finalCallback s \<longrightarrow> closes acts \<and> FinalDone \<in> set acts \<and> closeSent s')"
proof -
  obtain a w where f: "flush_queue ba 0 (sendWindow s) (writeQueue s) = (a, w, [], False)"
    and cb: "\<forall>it \<in> set (writeQueue s). WriteDone (callback it) \<in> set a"
    using flush_queue_all [OF assms(4), of "writeQueue s" "sendWindow s" 0] assms(3)
    by (auto simp: queued_def)
  with assms show ?thesis
    by (auto simp: flushWrites_def sendClose_def maybeFinish_def Let_def split: if_splits)
qed

theorem flushWrites_progress_witness:
  "writeQueue (fst (flushWrites (\<lambda>_. 0) ((new_stream ''tcp'')\<lparr>writeQueue := [\<lparr>pieces = [[1]], index = 0, callback = 9\<rparr>],
      finalCallback := True\<rparr>))) = []"
proof -
  let ?s = "(new_stream ''tcp'')\<lparr>writeQueue := [\<lparr>pieces = [[1]], index = 0, callback = 9\<rparr>], finalCallback := True\<rparr>"
  obtain s' acts where f: "flushWrites (\<lambda>_. 0) ?s = (s', acts)"
    by (cases "flushWrites (\<lambda>_. 0) ?s")
  have h: "\<not> finished ?s" "\<not> closeSent ?s" "int (length (queued ?s)) \<le> sendWindow ?s"
    "\<forall>k::nat. (\<lambda>_. 0) k \<le> WS_HIGH_WATER"
    by (simp_all add: new_stream_def queued_def item_left_def WINDOW_SIZE_def)
  show ?thesis using flushWrites_progress [OF h f] f by simp
qed

end
