(* ===== verification/MuxPeer.thy ===== *)
theory MuxPeer
  imports MuxLink
begin

text \<open>
  The two ends of a stream. The sender writes and flushes, data frames travel in order to
  the receiver, which hands them to its reader; when the reader asks for more, the receiver
  grants what it has consumed, and the grants travel back in order.
\<close>

fun payloads :: "action list \<Rightarrow> bytes list" where
  "payloads [] = []"
| "payloads (Send t p # as) = (if t = DATA then p # payloads as else payloads as)"
| "payloads (_ # as) = payloads as"

fun grants_of :: "action list \<Rightarrow> nat list" where
  "grants_of [] = []"
| "grants_of (Send t p # as) = (if t = WINDOW_UPDATE then be_nat p # grants_of as else grants_of as)"
| "grants_of (_ # as) = grants_of as"

fun pushed :: "action list \<Rightarrow> bytes" where
  "pushed [] = []"
| "pushed (Push p # as) = p @ pushed as"
| "pushed (_ # as) = pushed as"

record link =
  tx :: mux_stream
  rx :: mux_stream
  chan :: "bytes list"
  grants :: "nat list"
  wrote :: bytes
  got :: bytes

definition init_link :: "string \<Rightarrow> link" where
  "init_link m = \<lparr>tx = new_stream m, rx = new_stream m, chan = [], grants = [], wrote = [], got = []\<rparr>"

inductive link_step :: "link \<Rightarrow> link \<Rightarrow> bool" where
  l_write: "stream_write ba chunk cb (tx l) = (tx', acts) \<Longrightarrow>
     link_step l (l\<lparr>tx := tx', chan := chan l @ payloads acts, wrote := wrote l @ chunk\<rparr>)"
| l_drain: "flushWrites ba (tx l) = (tx', acts) \<Longrightarrow>
     link_step l (l\<lparr>tx := tx', chan := chan l @ payloads acts\<rparr>)"
| l_deliver: "chan l = p # ps \<Longrightarrow> onData p (rx l) = (rx', acts) \<Longrightarrow>
     link_step l (l\<lparr>rx := rx', chan := ps, got := got l @ pushed acts\<rparr>)"
| l_read: "stream_read (rx l) = (rx', acts) \<Longrightarrow>
     link_step l (l\<lparr>rx := rx', grants := grants l @ grants_of acts\<rparr>)"
| l_grant: "grants l = n # ns \<Longrightarrow> onWindowUpdate ba n (tx l) = (tx', acts) \<Longrightarrow>
     link_step l (l\<lparr>tx := tx', chan := chan l @ payloads acts, grants := ns\<rparr>)"

inductive link_reachable :: "link \<Rightarrow> bool" where
  start: "link_reachable (init_link m)"
| step: "link_reachable l \<Longrightarrow> link_step l l' \<Longrightarrow> link_reachable l'"

inductive_cases link_stepE: "link_step l l'"

text \<open>Bytes are conserved on the way out, credit on the way back.\<close>

definition link_inv :: "link \<Rightarrow> bool" where
  "link_inv l \<longleftrightarrow>
     stream_inv (tx l) \<and> \<not> finished (tx l) \<and> \<not> closeSent (tx l) \<and> \<not> finalCallback (tx l) \<and>
     \<not> finished (rx l) \<and> \<not> closeReceived (rx l) \<and>
     wrote l = got l @ concat (chan l) @ queued (tx l) \<and>
     sendWindow (tx l) + int (length (concat (chan l))) + int (pendingUpdate (rx l)) +
       int (sum_list (grants l)) = int WINDOW_SIZE"

lemma payloads_data: "concat (payloads acts) = data_sent acts"
  by (induction acts rule: payloads.induct) auto

lemma flushWrites_open:
  assumes "\<not> finished s" and "\<not> finalCallback s" and "flushWrites ba s = (s', acts)"
  shows "\<not> finished s' \<and> \<not> finalCallback s' \<and> closeSent s' = closeSent s"
  using assms by (auto simp: flushWrites_def Let_def split: if_splits prod.splits)

lemma link_tx_step:
  assumes "link_inv l" and "e \<in> {EDrain, EWindowUpdate n} \<or> (\<exists>k. e = EWrite chunk k)"
    and "stream_step ba e (tx l) = (tx', acts)"
  shows "stream_inv tx' \<and> \<not> finished tx' \<and> \<not> closeSent tx' \<and> \<not> finalCallback tx' \<and>
    data_sent acts @ queued tx' = queued (tx l) @ written e \<and>
    sendWindow tx' + int (length (data_sent acts)) = sendWindow (tx l) + int (credit e)"
proof -
  have i: "stream_inv (tx l)" "\<not> finished (tx l)" "\<not> finalCallback (tx l)" "\<not> closeSent (tx l)"
    using assms(1) by (auto simp: link_inv_def)
  have "stream_inv tx'" using step_keeps_inv [OF i(1) assms(3)] .
  moreover have "e \<noteq> EDestroy" "e \<noteq> EReset" using assms(2) by auto
  moreover have "\<not> finished tx' \<and> \<not> finalCallback tx' \<and> \<not> closeSent tx'"
    using assms(2,3) i flushWrites_open [of "tx l" ba tx' acts]
      flushWrites_open [of "tx l\<lparr>sendWindow := sendWindow (tx l) + int n\<rparr>" ba tx' acts]
      flushWrites_open [of "tx l\<lparr>writeQueue := writeQueue (tx l) @
        [\<lparr>pieces = cut_pieces chunk 0, index = 0, callback = k\<rparr>]\<rparr>" ba tx' acts for k]
    by (auto simp: stream_write_def onWindowUpdate_def)
  ultimately show ?thesis using step_conserves [OF i(1,2) _ _ assms(3)] by simp
qed

lemma link_inv_step: "link_step l l' \<Longrightarrow> link_inv l \<Longrightarrow> link_inv l'"
proof (induction rule: link_step.induct)
  case (l_write ba chunk cb l tx' acts)
  have "stream_step ba (EWrite chunk cb) (tx l) = (tx', acts)" using l_write by simp
  from link_tx_step [OF l_write.prems _ this, where chunk = chunk] l_write.prems show ?case
    by (auto simp: link_inv_def payloads_data)
next
  case (l_drain ba l tx' acts)
  have "stream_step ba EDrain (tx l) = (tx', acts)" using l_drain by simp
  from link_tx_step [OF l_drain.prems _ this] l_drain.prems show ?case
    by (auto simp: link_inv_def payloads_data)
next
  case (l_deliver l p ps rx' acts)
  then show ?case by (auto simp: link_inv_def onData_def split: if_splits)
next
  case (l_read l rx' acts)
  let ?n = "pendingUpdate (rx l)"
  have "int ?n \<le> int WINDOW_SIZE"
    using l_read.prems unfolding link_inv_def stream_inv_def by linarith
  then have b: "?n < 2 ^ 32" by (simp add: WINDOW_SIZE_def)
  then have "be_nat (be_bytes 4 ?n) = ?n" by (simp add: be_nat_be_bytes)
  with l_read b show ?case
    by (auto simp: link_inv_def stream_read_def Let_def split: if_splits)
next
  case (l_grant l n ns ba tx' acts)
  have "stream_step ba (EWindowUpdate n) (tx l) = (tx', acts)" using l_grant by simp
  from link_tx_step [OF l_grant.prems _ this, where n = n] l_grant show ?case
    by (auto simp: link_inv_def payloads_data)
qed

lemma link_inv_reachable: "link_reachable l \<Longrightarrow> link_inv l"
proof (induction rule: link_reachable.induct)
  case (start m)
  show ?case
    using new_stream_inv by (simp add: link_inv_def init_link_def new_stream_def queued_def)
next
  case (step l l')
  then show ?case by (blast intro: link_inv_step)
qed



lemma flush_queue_some:
  assumes "\<forall>k. ba k \<le> WS_HIGH_WATER" and "int CHUNK_SIZE \<le> w"
    and "\<forall>it \<in> set q. \<forall>p \<in> set (pieces it). 0 < length p \<and> length p \<le> CHUNK_SIZE"
    and "concat (map item_left q) \<noteq> []" and "flush_queue ba n w q = (acts, w', q', b)"
  shows "data_sent acts \<noteq> []"
  using assms(3-5)
proof (induction q arbitrary: n acts w' q' b)
  case Nil
  then show ?case by simp
next
  case (Cons it q)
  show ?case
  proof (cases "drop (index it) (pieces it)")
    case Nil
    obtain a2 w2 q2 b2 where f: "flush_queue ba n w q = (a2, w2, q2, b2)"
      by (cases "flush_queue ba n w q") auto
    from Cons.prems Nil have "concat (map item_left q) \<noteq> []" by (auto simp: item_left_def)
    with Cons.IH [OF _ _ f] Cons.prems have "data_sent a2 \<noteq> []" by simp
    with Cons.prems(3) Nil f show ?thesis by auto
  next
    case (Cons p ps)
    have "p \<in> set (drop (index it) (pieces it))" by (simp add: Cons)
    then have "p \<in> set (pieces it)" by (rule in_set_dropD)
    then have p: "0 < length p" "length p \<le> CHUNK_SIZE" using Cons.prems(1) by auto
    with assms(1,2) have "\<not> (w < int (length p) \<or> ba n > WS_HIGH_WATER)"
      by (auto simp: not_less)
    with p Cons Cons.prems(3) show ?thesis by (auto split: prod.splits if_splits)
  qed
qed



end
