(* ===== verification/MuxSession.thy ===== *)
theory MuxSession
  imports MuxLink Js
begin

text \<open>
  The session over one websocket (class MuxSession of src/server/lib/MuxSession.js): the map
  of live streams, dispatch of incoming frames, the drain timer, control messages and the
  end of the socket. Stream objects outlive their entry in the map (a pipe may still hold
  one), so \<open>objs\<close> keeps every object by id and \<open>streams\<close> is the key list of the map.
  What is handed to ws.send is recorded in \<open>sent\<close> (frames) and \<open>controls\<close> (messages);
  \<open>emitted\<close> records, per stream, the remaining actions of the stream methods.
\<close>

definition DEAD_AFTER :: time where
  "DEAD_AFTER = 60000"

record mux_session =
  objs :: "(nat, mux_stream) jsmap"
  streams :: "nat list"
  nextId :: nat
  closed :: bool
  wsOpen :: bool
  waiting :: "nat list"
  drainTimer :: bool
  lastActivity :: time
  bytesSent :: nat
  bytesReceived :: nat
  sent :: "bytes list"
  controls :: "jsval list"
  emitted :: "(nat \<times> action) list"

definition new_session :: "nat \<Rightarrow> time \<Rightarrow> mux_session" where
  "new_session parity now =
     \<lparr>objs = [], streams = [], nextId = (if parity = 0 then 2 else 1), closed = False,
      wsOpen = True, waiting = [], drainTimer = False, lastActivity = now,
      bytesSent = 0, bytesReceived = 0, sent = [], controls = [], emitted = []\<rparr>"

definition counted :: "byte \<Rightarrow> bool" where
  "counted t \<longleftrightarrow> t = DATA \<or> t = DATAGRAM"

definition sess_send :: "byte \<Rightarrow> nat \<Rightarrow> bytes \<Rightarrow> mux_session \<Rightarrow> mux_session" where
  "sess_send type streamId payload s =
     (if closed s \<or> \<not> wsOpen s then s
      else s\<lparr>bytesSent := bytesSent s + (if counted type then length payload else 0),
             sent := sent s @ [encode type (int streamId) payload]\<rparr>)"

definition sendControl :: "jsval \<Rightarrow> mux_session \<Rightarrow> mux_session" where
  "sendControl m s = (if closed s \<or> \<not> wsOpen s then s else s\<lparr>controls := controls s @ [m]\<rparr>)"

definition wantDrain :: "nat \<Rightarrow> mux_session \<Rightarrow> mux_session" where
  "wantDrain i s =
     s\<lparr>waiting := (if i \<in> set (waiting s) then waiting s else waiting s @ [i]), drainTimer := True\<rparr>"

definition forget :: "nat \<Rightarrow> mux_session \<Rightarrow> mux_session" where
  "forget i s = s\<lparr>streams := filter (\<lambda>j. j \<noteq> i) (streams s)\<rparr>"

text \<open>What an action of stream i does to the session.\<close>

fun apply_action :: "nat \<Rightarrow> action \<Rightarrow> mux_session \<Rightarrow> mux_session" where
  "apply_action i (Send t p) s = sess_send t i p s"
| "apply_action i WantDrain s = wantDrain i s"
| "apply_action i Forget s = forget i s"
| "apply_action i a s = s\<lparr>emitted := emitted s @ [(i, a)]\<rparr>"

definition on_stream ::
  "nat \<Rightarrow> (mux_stream \<Rightarrow> mux_stream \<times> action list) \<Rightarrow> mux_session \<Rightarrow> mux_session" where
  "on_stream i method s =
     (case map_get (objs s) i of
        None \<Rightarrow> s
      | Some st \<Rightarrow> (case method st of
          (st', acts) \<Rightarrow> fold (apply_action i) acts (s\<lparr>objs := map_set i st' (objs s)\<rparr>)))"

definition new_entry :: "nat \<Rightarrow> string \<Rightarrow> mux_session \<Rightarrow> mux_session" where
  "new_entry i metaProtocol s =
     s\<lparr>objs := map_set i (new_stream metaProtocol) (objs s),
       streams := (if i \<in> set (streams s) then streams s else streams s @ [i])\<rparr>"

definition sess_open :: "string \<Rightarrow> bytes \<Rightarrow> mux_session \<Rightarrow> string + (nat \<times> mux_session)" where
  "sess_open metaProtocol metaText s =
     (if closed s then Inl ''session closed''
      else let i = nextId s
           in Inr (i, sess_send OPEN i metaText (new_entry i metaProtocol (s\<lparr>nextId := i + 2\<rparr>))))"

definition stopDraining :: "mux_session \<Rightarrow> mux_session" where
  "stopDraining s = s\<lparr>drainTimer := False\<rparr>"

fun drain_each :: "(nat \<Rightarrow> nat) \<Rightarrow> nat \<Rightarrow> nat list \<Rightarrow> mux_session \<Rightarrow> mux_session" where
  "drain_each ba base [] s = s"
| "drain_each ba base (i # is) s =
     drain_each ba base is (on_stream i (flushWrites (\<lambda>k. ba (length (sent s) - base + k))) s)"

definition drain :: "(nat \<Rightarrow> nat) \<Rightarrow> mux_session \<Rightarrow> mux_session" where
  "drain ba s =
     (if waiting s = [] then stopDraining s
      else if ba 0 > WS_HIGH_WATER then s
      else let s' = drain_each ba (length (sent s)) (waiting s) (s\<lparr>waiting := []\<rparr>)
           in if waiting s' = [] then stopDraining s' else s')"

definition dispatch :: "(bytes \<Rightarrow> string) \<Rightarrow> (nat \<Rightarrow> nat) \<Rightarrow> frame \<Rightarrow> mux_session \<Rightarrow> mux_session" where
  "dispatch metaOf ba f s =
     (let type = f_type f; i = f_stream f; payload = f_payload f; known = i \<in> set (streams s)
      in if type = OPEN then (if known then s else new_entry i (metaOf payload) s)
         else if \<not> known then s
         else if type = DATA then on_stream i (onData payload) s
         else if type = CLOSE then on_stream i onClose s
         else if type = RESET then on_stream i onReset s
         else if type = DATAGRAM then on_stream i (onDatagram payload) s
         else if type = WINDOW_UPDATE
         then (if 4 \<le> length payload then on_stream i (onWindowUpdate ba (be_nat (take 4 payload))) s
               else s)
         else s)"

definition onFrame :: "(bytes \<Rightarrow> string) \<Rightarrow> (nat \<Rightarrow> nat) \<Rightarrow> bytes \<Rightarrow> mux_session \<Rightarrow> mux_session" where
  "onFrame metaOf ba data s =
     (case decode data of
        None \<Rightarrow> s
      | Some f \<Rightarrow>
          dispatch metaOf ba f
            (s\<lparr>bytesReceived := bytesReceived s +
                 (if counted (f_type f) then length (f_payload f) else 0)\<rparr>))"

text \<open>The message was parsed before (None when it is not JSON); the result is the message to
  emit as a control event, if any.\<close>

definition onControl :: "jsval option \<Rightarrow> mux_session \<Rightarrow> mux_session \<times> jsval option" where
  "onControl parsed s =
     (case parsed of
        None \<Rightarrow> (s, None)
      | Some m \<Rightarrow> (case js_get m ''type'' of
            JStr t \<Rightarrow>
              if t = ''ping'' then (sendControl (JObj [(''type'', JStr ''pong'')]) s, None)
              else if t = ''pong'' then (s, None)
              else (s, Some m)
          | _ \<Rightarrow> (s, None)))"

fun reset_each :: "nat list \<Rightarrow> mux_session \<Rightarrow> mux_session" where
  "reset_each [] s = s"
| "reset_each (i # is) s =
     reset_each is (on_stream i (\<lambda>st. stream_destroy (st\<lparr>resetReceived := True\<rparr>)) s)"

definition onSocketClose :: "mux_session \<Rightarrow> mux_session" where
  "onSocketClose s =
     (if closed s then s
      else (reset_each (streams s) (stopDraining (s\<lparr>closed := True\<rparr>)))\<lparr>streams := []\<rparr>)"

text \<open>ws.close leaves the OPEN state at once; the close event comes later.\<close>

definition sess_close :: "mux_session \<Rightarrow> mux_session" where
  "sess_close s = s\<lparr>wsOpen := False\<rparr>"

definition ping_tick :: "time \<Rightarrow> mux_session \<Rightarrow> mux_session" where
  "ping_tick now s =
     (if now - lastActivity s > DEAD_AFTER then sess_close s
      else sendControl (JObj [(''type'', JStr ''ping'')]) s)"

subsection \<open>Events of a session\<close>

datatype sess_event =
    SOpen string bytes
  | SFrame time bytes "nat \<Rightarrow> nat"
  | SControl time "jsval option"
  | SLocal nat event "nat \<Rightarrow> nat"
  | SDrain "nat \<Rightarrow> nat"
  | SPing time
  | SClose
  | SSocketClosed

fun sess_step :: "(bytes \<Rightarrow> string) \<Rightarrow> sess_event \<Rightarrow> mux_session \<Rightarrow> mux_session" where
  "sess_step metaOf (SOpen m t) s = (case sess_open m t s of Inl _ \<Rightarrow> s | Inr (_, s') \<Rightarrow> s')"
| "sess_step metaOf (SFrame now d ba) s = onFrame metaOf ba d (s\<lparr>lastActivity := now\<rparr>)"
| "sess_step metaOf (SControl now p) s = fst (onControl p (s\<lparr>lastActivity := now\<rparr>))"
| "sess_step metaOf (SLocal i e ba) s = on_stream i (stream_step ba e) s"
| "sess_step metaOf (SDrain ba) s = drain ba s"
| "sess_step metaOf (SPing now) s = ping_tick now s"
| "sess_step metaOf SClose s = sess_close s"
| "sess_step metaOf SSocketClosed s = onSocketClose s"

definition sess_inv :: "mux_session \<Rightarrow> bool" where
  "sess_inv s \<longleftrightarrow>
     wf_map (objs s) \<and> distinct (streams s) \<and>
     (\<forall>i \<in> set (streams s). \<exists>st. map_get (objs s) i = Some st \<and> \<not> finished st) \<and>
     (\<forall>i st. map_get (objs s) i = Some st \<longrightarrow> stream_inv st)"

lemma apply_action_frame [simp]:
  "objs (apply_action i a s) = objs s" "nextId (apply_action i a s) = nextId s"
  "closed (apply_action i a s) = closed s" "wsOpen (apply_action i a s) = wsOpen s"
  "streams (apply_action i a s) = (if a = Forget then filter (\<lambda>j. j \<noteq> i) (streams s) else streams s)"
  by (cases a; simp add: sess_send_def wantDrain_def forget_def)+

declare apply_action.simps [simp del]

lemma fold_actions_frame [simp]:
  "objs (fold (apply_action i) as s) = objs s" "nextId (fold (apply_action i) as s) = nextId s"
  "closed (fold (apply_action i) as s) = closed s" "wsOpen (fold (apply_action i) as s) = wsOpen s"
  by (induction as arbitrary: s) auto

lemma fold_actions_streams:
  "streams (fold (apply_action i) as s) =
     (if Forget \<in> set as then filter (\<lambda>j. j \<noteq> i) (streams s) else streams s)"
  by (induction as arbitrary: s) auto

lemma closed_no_sends: "closed s \<Longrightarrow> sent (apply_action i a s) = sent s"
  by (cases a) (auto simp: apply_action.simps sess_send_def wantDrain_def forget_def)

lemma fold_closed_no_sends: "closed s \<Longrightarrow> sent (fold (apply_action i) as s) = sent s"
  by (induction as arbitrary: s) (auto simp: closed_no_sends)

lemma flushWrites_forget:
  "flushWrites ba st = (st', acts) \<Longrightarrow> \<not> finished st \<Longrightarrow> finished st' \<Longrightarrow> Forget \<in> set acts"
  by (auto simp: flushWrites_def sendClose_def maybeFinish_def Let_def split: if_splits prod.splits)

text \<open>A step that finishes a stream also asks the session to forget it.\<close>

lemma stream_step_forget:
  assumes "stream_step ba e st = (st', acts)" and "\<not> finished st" and "finished st'"
  shows "Forget \<in> set acts"
proof (cases e)
  case (EWrite c k)
  with assms show ?thesis
    by (auto simp: stream_write_def split: if_splits dest!: flushWrites_forget)
next
  case EFinal
  with assms show ?thesis
    by (auto simp: stream_final_def split: if_splits dest!: flushWrites_forget)
next
  case (EWindowUpdate n)
  with assms show ?thesis by (auto simp: onWindowUpdate_def dest!: flushWrites_forget)
next
  case EDrain
  with assms show ?thesis by (auto dest: flushWrites_forget)
qed (use assms in \<open>auto simp: stream_read_def stream_destroy_def onData_def onClose_def onReset_def
      onDatagram_def maybeFinish_def Let_def split: if_splits\<close>)

lemma on_stream_inv:
  assumes inv: "sess_inv s"
  shows "sess_inv (on_stream i (stream_step ba e) s)"
proof (cases "map_get (objs s) i")
  case None
  with inv show ?thesis by (simp add: on_stream_def)
next
  case (Some st)
  obtain st' acts where st: "stream_step ba e st = (st', acts)"
    by (cases "stream_step ba e st")
  let ?s = "on_stream i (stream_step ba e) s"
  have o: "objs ?s = map_set i st' (objs s)"
    using Some st by (simp add: on_stream_def)
  have str: "streams ?s = (if Forget \<in> set acts then filter (\<lambda>j. j \<noteq> i) (streams s) else streams s)"
    using Some st by (simp add: on_stream_def fold_actions_streams)
  have i': "stream_inv st'"
    using inv Some step_keeps_inv [OF _ st] by (auto simp: sess_inv_def)
  have fin: "finished st' \<Longrightarrow> \<not> finished st \<Longrightarrow> Forget \<in> set acts"
    using stream_step_forget [OF st] by blast
  show ?thesis
    using inv i' fin Some unfolding sess_inv_def o str by (auto intro: wf_map_set)
qed

lemma new_stream_unfinished [simp]: "\<not> finished (new_stream m)"
  by (simp add: new_stream_def)

lemma new_entry_inv: "sess_inv s \<Longrightarrow> sess_inv (new_entry i m s)"
  using new_stream_inv [of m] by (auto simp: sess_inv_def new_entry_def intro: wf_map_set)

text \<open>The fields the invariant reads.\<close>

lemma sess_inv_cong:
  "objs s' = objs s \<Longrightarrow> streams s' = streams s \<Longrightarrow> sess_inv s' = sess_inv s"
  by (simp add: sess_inv_def)

lemma drain_each_inv: "sess_inv s \<Longrightarrow> sess_inv (drain_each ba base is s)"
proof (induction "is" arbitrary: s)
  case (Cons i "is")
  have "sess_inv (on_stream i (stream_step (\<lambda>k. ba (length (sent s) - base + k)) EDrain) s)"
    using Cons.prems by (rule on_stream_inv)
  moreover have "stream_step b EDrain = flushWrites b" for b by (rule ext) simp
  ultimately show ?case using Cons.IH by simp
qed simp

lemma reset_each_inv: "sess_inv s \<Longrightarrow> sess_inv (reset_each is s)"
proof (induction "is" arbitrary: s)
  case (Cons i "is")
  have "sess_inv (on_stream i (stream_step (\<lambda>_. 0) EReset) s)"
    using Cons.prems by (rule on_stream_inv)
  moreover have "stream_step b EReset = (\<lambda>st. stream_destroy (st\<lparr>resetReceived := True\<rparr>))" for b
    by (rule ext) (simp add: onReset_def)
  ultimately show ?case using Cons.IH by simp
qed simp

lemma stream_step_fun:
  "onData p = stream_step ba (EData p)" "onClose = stream_step ba EClose"
  "onReset = stream_step ba EReset" "onDatagram p = stream_step ba (EDatagram p)"
  "onWindowUpdate ba n = stream_step ba (EWindowUpdate n)"
  by (rule ext, simp)+

lemma dispatch_cases:
  "dispatch metaOf ba f s \<in>
     {s, new_entry (f_stream f) (metaOf (f_payload f)) s} \<union>
     range (\<lambda>e. on_stream (f_stream f) (stream_step ba e) s)"
  unfolding dispatch_def Let_def stream_step_fun [where ba = ba] by auto

lemma onFrame_inv:
  assumes "sess_inv s"
  shows "sess_inv (onFrame metaOf ba d s)"
proof (cases "decode d")
  case None
  with assms show ?thesis by (simp add: onFrame_def)
next
  case (Some f)
  define s1 where "s1 = s\<lparr>bytesReceived := bytesReceived s +
    (if counted (f_type f) then length (f_payload f) else 0)\<rparr>"
  have "sess_inv s1" using assms by (simp add: sess_inv_def s1_def)
  then have "sess_inv (dispatch metaOf ba f s1)"
    using dispatch_cases [of metaOf ba f s1] by (auto intro: on_stream_inv new_entry_inv)
  with Some show ?thesis by (simp add: onFrame_def s1_def)
qed

text \<open>
  Session invariant: a new session satisfies it and every event keeps it. The stream
  map holds each id once, every stream in it has an object that is not finished (so a
  finished stream is never dispatched to), and every stream object, live or forgotten,
  satisfies the flow-control invariant.
\<close>

theorem sess_step_inv:
  "sess_inv (new_session parity now) \<and> (sess_inv s \<longrightarrow> sess_inv (sess_step metaOf e s))"
proof (intro conjI impI)
  show "sess_inv (new_session parity now)" by (simp add: sess_inv_def new_session_def)
next
  assume i: "sess_inv s"
  show "sess_inv (sess_step metaOf e s)"
  proof (cases e)
    case (SOpen m t)
    have "sess_inv (new_entry (nextId s) m (s\<lparr>nextId := nextId s + 2\<rparr>))"
      using i by (intro new_entry_inv) (simp add: sess_inv_def)
    with SOpen i show ?thesis
      by (auto simp: sess_open_def sess_send_def sess_inv_def Let_def split: if_splits)
  next
    case (SFrame now d ba)
    have "sess_inv (s\<lparr>lastActivity := now\<rparr>)" using i by (simp add: sess_inv_def)
    with SFrame show ?thesis by (simp add: onFrame_inv)
  next
    case (SControl now p)
    with i show ?thesis
      by (auto simp: onControl_def MuxSession.sendControl_def sess_inv_def split: option.split jsval.split)
  next
    case (SLocal j ev ba)
    with i on_stream_inv show ?thesis by simp
  next
    case (SDrain ba)
    have "sess_inv (drain_each ba n (waiting s) (s\<lparr>waiting := []\<rparr>))" for n
      using i by (intro drain_each_inv) (simp add: sess_inv_def)
    with SDrain i show ?thesis
      by (simp add: drain_def stopDraining_def Let_def sess_inv_def)
  next
    case SSocketClosed
    have "sess_inv (reset_each (streams s) (stopDraining (s\<lparr>closed := True\<rparr>)))"
      using i by (intro reset_each_inv) (simp add: sess_inv_def stopDraining_def)
    with SSocketClosed i show ?thesis by (auto simp: onSocketClose_def sess_inv_def)
  qed (use i in \<open>auto simp: ping_tick_def sess_close_def MuxSession.sendControl_def sess_inv_def\<close>)
qed

theorem sess_step_inv_witness:
  "sess_inv (sess_step (\<lambda>_. ''tcp'') (SOpen ''tcp'' []) (new_session 0 0))"
proof -
  have "sess_inv (new_session 0 0)"
    using sess_step_inv [of 0 0 "new_session 0 0"] by blast
  then show ?thesis
    using sess_step_inv [of 0 0 "new_session 0 0" "\<lambda>_. ''tcp''" "SOpen ''tcp'' []"] by blast
qed

lemma on_stream_other: "j \<noteq> i \<Longrightarrow> map_get (objs (on_stream i m s)) j = map_get (objs s) j"
  by (auto simp: on_stream_def split: option.split prod.split)

lemma on_stream_other_streams: "j \<noteq> i \<Longrightarrow> j \<in> set (streams (on_stream i m s)) \<longleftrightarrow> j \<in> set (streams s)"
  by (auto simp: on_stream_def fold_actions_streams split: option.split prod.split)

text \<open>
  Isolation of streams: a frame changes only the stream it is addressed to. Every other
  stream keeps its state and its place in the map, and a frame other than OPEN for a stream
  the session does not know changes no stream at all.
\<close>

theorem onFrame_isolation:
  assumes "decode d = Some f"
  shows "(j \<noteq> f_stream f \<longrightarrow>
            map_get (objs (onFrame metaOf ba d s)) j = map_get (objs s) j \<and>
            (j \<in> set (streams (onFrame metaOf ba d s)) \<longleftrightarrow> j \<in> set (streams s))) \<and>
         (f_stream f \<notin> set (streams s) \<and> f_type f \<noteq> OPEN \<longrightarrow>
            objs (onFrame metaOf ba d s) = objs s \<and> streams (onFrame metaOf ba d s) = streams s \<and>
            sent (onFrame metaOf ba d s) = sent s)"
proof -
  define s1 where "s1 = s\<lparr>bytesReceived := bytesReceived s +
    (if counted (f_type f) then length (f_payload f) else 0)\<rparr>"
  have s1: "objs s1 = objs s" "streams s1 = streams s" "sent s1 = sent s" by (simp_all add: s1_def)
  have o: "onFrame metaOf ba d s = dispatch metaOf ba f s1"
    using assms by (simp add: onFrame_def s1_def)
  have "j \<noteq> f_stream f \<longrightarrow>
      map_get (objs (dispatch metaOf ba f s1)) j = map_get (objs s1) j \<and>
      (j \<in> set (streams (dispatch metaOf ba f s1)) \<longleftrightarrow> j \<in> set (streams s1))"
    using dispatch_cases [of metaOf ba f s1]
    by (auto simp: on_stream_other on_stream_other_streams new_entry_def split: if_splits)
  moreover have "f_stream f \<notin> set (streams s1) \<and> f_type f \<noteq> OPEN \<longrightarrow> dispatch metaOf ba f s1 = s1"
    by (simp add: dispatch_def Let_def)
  ultimately show ?thesis unfolding o by (auto simp: s1)
qed

theorem onFrame_isolation_witness:
  "objs (onFrame (\<lambda>_. ''tcp'') (\<lambda>_. 0) (encode DATA 5 [1]) (new_session 0 0)) = []"
proof -
  have d: "decode (encode DATA 5 [1]) = Some \<lparr>f_type = DATA, f_stream = 5, f_payload = [1]\<rparr>"
    by (simp add: decode_def encode_def HEADER_SIZE_def be_nat_be_bytes)
  show ?thesis
    using onFrame_isolation [OF d, of 0 "\<lambda>_. ''tcp''" "\<lambda>_. 0" "new_session 0 0"]
    by (simp add: new_session_def)
qed

end
