(* ===== verification/Address.thy ===== *)
theory Address
  imports Js Bytes
begin

text \<open>
  IP addresses and CIDR rules (the first part of src/server/lib/access.js): parsing an
  address into 4 or 16 bytes, parsing a rule, and matching an address against a rule.
\<close>

unbundle bit_operations_syntax

text \<open>The first pattern removed by replace(/%.*$/, ""): from a percent sign to the end, with
  no line terminator in between.\<close>

fun stripScope :: "string \<Rightarrow> string" where
  "stripScope [] = []"
| "stripScope (c # cs) =
     (if c = CHR ''%'' \<and> (\<forall>d \<in> set cs. ord d \<noteq> 10 \<and> ord d \<noteq> 13) then [] else c # stripScope cs)"

definition strip_brackets :: "string \<Rightarrow> string" where
  "strip_brackets s =
     (let t = (if s \<noteq> [] \<and> hd s = CHR ''['' then tl s else s)
      in if t \<noteq> [] \<and> last t = CHR '']'' then butlast t else t)"

text \<open>The test \<open>^\d+\.\d+\.\d+\.\d+$\<close>.\<close>

definition dotted :: "string \<Rightarrow> bool" where
  "dotted s \<longleftrightarrow>
     length (split_on CHR ''.'' s) = 4 \<and>
     (\<forall>p \<in> set (split_on CHR ''.'' s). p \<noteq> [] \<and> list_all is_digit p)"

text \<open>The address inside \<open>::ffff:a.b.c.d\<close>, in any case of the letters.\<close>

definition mapped :: "string \<Rightarrow> string option" where
  "mapped s =
     (if to_lower (take 7 s) = ''::ffff:'' \<and> dotted (drop 7 s) then Some (drop 7 s) else None)"

text \<open>parseInt(s, 16): leading white space, a sign, 0x, then as many hexadecimal digits as
  there are; None for NaN.\<close>

definition parseInt16 :: "string \<Rightarrow> int option" where
  "parseInt16 s =
     (let t = dropWhile is_space s;
          neg = (t \<noteq> [] \<and> hd t = CHR ''-'');
          t = (if t \<noteq> [] \<and> (hd t = CHR ''-'' \<or> hd t = CHR ''+'') then tl t else t);
          t = (if to_lower (take 2 t) = ''0x'' then drop 2 t else t);
          ds = takeWhile (\<lambda>c. hex_digit c \<noteq> None) t
      in if ds = [] then None
         else map_option (\<lambda>n. if neg then - int n else int n) (radix_nat 16 0 ds))"

text \<open>value.split("::"), the parts before and after the first separator, the second part
  ending at the next one.\<close>

definition split_double :: "string \<Rightarrow> string \<times> string" where
  "split_double s =
     (case index_of ''::'' s of
        None \<Rightarrow> (s, [])
      | Some i \<Rightarrow>
          let r = drop (i + 2) s
          in (take i s, case index_of ''::'' r of None \<Rightarrow> r | Some j \<Rightarrow> take j r))"

definition expand :: "string \<Rightarrow> string list" where
  "expand part = (if part = [] then [] else filter (\<lambda>p. p \<noteq> []) (split_on CHR '':'' part))"

fun group_bytes :: "string list \<Rightarrow> bytes option" where
  "group_bytes [] = Some []"
| "group_bytes (g # gs) =
     (case parseInt16 g of
        None \<Rightarrow> None
      | Some n \<Rightarrow>
          if n < 0 \<or> n > 65535 then None
          else map_option (\<lambda>bs. be_bytes 2 (nat n) @ bs) (group_bytes gs))"

definition toBytes :: "string \<Rightarrow> bytes option" where
  "toBytes address =
     (let value = strip_brackets (stripScope address);
          plain = (case mapped value of Some m \<Rightarrow> m | None \<Rightarrow> value)
      in if dotted plain
         then let parts = map dec_nat (split_on CHR ''.'' plain)
              in if \<exists>p \<in> set parts. p > 255 then None else Some (map of_nat parts)
         else if CHR '':'' \<notin> set value then None
         else let (head, tail) = split_double value;
                  left = expand head; right = expand tail;
                  missing = 8 - int (length left) - int (length right)
              in if missing < 0 \<or> (missing > 0 \<and> \<not> includes_str ''::'' value) then None
                 else let groups = left @ replicate (nat (max missing 0)) ''0'' @ right
                      in if length groups \<noteq> 8 then None else group_bytes groups)"

record ip_rule =
  rule_bytes :: bytes
  rule_bits :: nat
  rule_text :: string

definition parseRule :: "string \<Rightarrow> ip_rule option" where
  "parseRule rule =
     (let text = trim rule
      in if text = [] then None
         else let parts = split_on CHR ''/'' text
              in case toBytes (hd parts) of
                   None \<Rightarrow> None
                 | Some bs \<Rightarrow>
                     (case (if length parts < 2 then Some (int (length bs * 8))
                            else number_of_string (parts ! 1)) of
                        None \<Rightarrow> None
                      | Some bits \<Rightarrow>
                          if bits < 0 \<or> bits > int (length bs * 8) then None
                          else Some \<lparr>rule_bytes = bs, rule_bits = nat bits, rule_text = text\<rparr>))"

definition matchesRule :: "string \<Rightarrow> ip_rule \<Rightarrow> bool" where
  "matchesRule address rule =
     (case toBytes address of
        None \<Rightarrow> False
      | Some bs \<Rightarrow>
          if length bs \<noteq> length (rule_bytes rule) then False
          else let whole = rule_bits rule div 8
               in if take whole bs \<noteq> take whole (rule_bytes rule) then False
                  else let remainder = rule_bits rule mod 8
                       in if remainder = 0 then True
                          else let mask = push_bit (8 - remainder) (255 :: byte)
                               in (bs ! whole) AND mask = (rule_bytes rule ! whole) AND mask)"

definition isAllowed :: "string \<Rightarrow> string list \<Rightarrow> bool" where
  "isAllowed address rules =
     (if rules = [] then True
      else \<exists>r \<in> set rules. case parseRule r of None \<Rightarrow> False | Some rule \<Rightarrow> matchesRule address rule)"

subsection \<open>Sizes\<close>

lemma group_bytes_length: "group_bytes gs = Some bs \<Longrightarrow> length bs = 2 * length gs"
  by (induction gs arbitrary: bs) (auto split: option.splits if_splits)

lemma toBytes_length: "toBytes a = Some bs \<Longrightarrow> length bs = 4 \<or> length bs = 16"
  by (auto simp: toBytes_def dotted_def Let_def split: if_splits prod.splits dest: group_bytes_length)

lemma parseRule_sizes:
  assumes "parseRule t = Some r"
  shows "(length (rule_bytes r) = 4 \<or> length (rule_bytes r) = 16) \<and>
         rule_bits r \<le> 8 * length (rule_bytes r)"
  using assms by (auto simp: parseRule_def Let_def split: if_splits option.splits dest: toBytes_length)

subsection \<open>A mask compares the leading bits\<close>

lemma be_nat_append: "be_nat (xs @ ys) = be_nat xs * 256 ^ length ys + be_nat ys"
proof (induction ys rule: rev_induct)
  case Nil
  then show ?case by simp
next
  case (snoc y ys)
  have "be_nat (xs @ ys @ [y]) = be_nat (xs @ ys) * 256 + unat y"
    using be_nat_snoc [of "xs @ ys" y] by simp
  with snoc show ?case by (simp add: algebra_simps)
qed

lemma be_nat_eq_iff: "length xs = length ys \<Longrightarrow> be_nat xs = be_nat ys \<longleftrightarrow> xs = ys"
  by (metis be_bytes_be_nat)

lemma mask_byte_iff:
  fixes a b :: byte
  assumes "m \<le> 8"
  shows "a AND push_bit m 255 = b AND push_bit m 255 \<longleftrightarrow> drop_bit m a = drop_bit m b"
proof -
  have p: "bit (push_bit m (255 :: byte)) k \<longleftrightarrow> m \<le> k \<and> k < 8" for k
  proof -
    have e: "(255 :: byte) = mask 8" by (simp add: mask_eq_exp_minus_1)
    show ?thesis unfolding e by (auto simp: bit_push_bit_iff bit_mask_iff)
  qed
  have l: "a AND push_bit m 255 = b AND push_bit m 255 \<longleftrightarrow>
      (\<forall>k. m \<le> k \<and> k < 8 \<longrightarrow> bit a k = bit b k)"
    by (auto simp: bit_eq_iff bit_and_iff p)
  have r: "drop_bit m a = drop_bit m b \<longleftrightarrow> (\<forall>k. m + k < 8 \<longrightarrow> bit a (m + k) = bit b (m + k))"
  proof
    assume "drop_bit m a = drop_bit m b"
    then show "\<forall>k. m + k < 8 \<longrightarrow> bit a (m + k) = bit b (m + k)"
      by (metis bit_drop_bit_eq comp_apply)
  next
    assume *: "\<forall>k. m + k < 8 \<longrightarrow> bit a (m + k) = bit b (m + k)"
    have "bit c k \<Longrightarrow> k < 8" for c :: byte and k using bit_imp_le_length [of c k] by simp
    with * show "drop_bit m a = drop_bit m b"
      by (intro bit_eqI) (auto simp: bit_drop_bit_eq)
  qed
  show ?thesis unfolding l r by (metis le_Suc_ex le_add1)
qed

lemma unat_drop_bit: "unat (drop_bit m (a :: byte)) = unat a div 2 ^ m"
  unfolding unat_drop_bit_eq by (rule drop_bit_eq_div)

lemma div_prefix_iff:
  fixes x y b c Y Z :: nat
  assumes "b < 256" "c < 256" "Y < 256 ^ k" "Z < 256 ^ k" "0 < r" "r < 8"
  shows "((x * 256 + b) * 256 ^ k + Y) div 2 ^ (8 * k + (8 - r)) =
         ((y * 256 + c) * 256 ^ k + Z) div 2 ^ (8 * k + (8 - r)) \<longleftrightarrow>
         x = y \<and> b div 2 ^ (8 - r) = c div 2 ^ (8 - r)"
proof -
  have k: "(256::nat) ^ k = 2 ^ (8 * k)" by (simp add: power_mult)
  have d: "((u * 256 + v) * 256 ^ k + w) div 2 ^ (8 * k + (8 - r)) = u * 2 ^ r + v div 2 ^ (8 - r)"
    if "w < 256 ^ k" for u v w :: nat
  proof -
    have "((u * 256 + v) * 256 ^ k + w) div 2 ^ (8 * k) = u * 256 + v"
      using that by (simp add: k div_add1_eq)
    moreover have "(u * 256 + v) div 2 ^ (8 - r) = u * 2 ^ r + v div 2 ^ (8 - r)"
    proof -
      have "(256::nat) = 2 ^ r * 2 ^ (8 - r)" using assms(6) by (simp flip: power_add)
      then have "u * 256 + v = v + (u * 2 ^ r) * 2 ^ (8 - r)" by (simp add: algebra_simps)
      then show ?thesis by (simp only: div_mult_self1 power_not_zero) simp
    qed
    ultimately show ?thesis by (simp add: power_add div_mult2_eq)
  qed
  have lt: "v div 2 ^ (8 - r) < 2 ^ r" if "v < 256" for v :: nat
  proof -
    have "(256::nat) = 2 ^ r * 2 ^ (8 - r)" using assms(6) by (simp flip: power_add)
    with that show ?thesis by (simp add: div_less_iff_less_mult)
  qed
  have "x * 2 ^ r + b div 2 ^ (8 - r) = y * 2 ^ r + c div 2 ^ (8 - r) \<longleftrightarrow>
      x = y \<and> b div 2 ^ (8 - r) = c div 2 ^ (8 - r)"
  proof
    assume eq: "x * 2 ^ r + b div 2 ^ (8 - r) = y * 2 ^ r + c div 2 ^ (8 - r)"
    have "(x * 2 ^ r + b div 2 ^ (8 - r)) div 2 ^ r = x"
      and "(y * 2 ^ r + c div 2 ^ (8 - r)) div 2 ^ r = y"
      using lt [OF assms(1)] lt [OF assms(2)] by simp_all
    with eq have "x = y" by simp
    with eq show "x = y \<and> b div 2 ^ (8 - r) = c div 2 ^ (8 - r)" by simp
  qed simp
  then show ?thesis using d assms(3,4) by simp
qed

lemma byte_bound: "unat (b :: byte) < 256"
  using unsigned_less [of b] by simp

text \<open>The numeric meaning of a prefix match: the same number after dropping the host bits.\<close>

lemma prefix_match_iff:
  fixes bs rs :: bytes
  assumes len: "length bs = length rs" and bits: "n \<le> 8 * length rs"
  shows "(take (n div 8) bs = take (n div 8) rs \<and>
          (n mod 8 = 0 \<or> (bs ! (n div 8)) AND push_bit (8 - n mod 8) 255 =
                          (rs ! (n div 8)) AND push_bit (8 - n mod 8) 255)) \<longleftrightarrow>
         be_nat bs div 2 ^ (8 * length rs - n) = be_nat rs div 2 ^ (8 * length rs - n)"
proof (cases "n mod 8 = 0")
  case True
  define w where "w = n div 8"
  have n: "n = 8 * w" using True w_def by auto
  have w: "w \<le> length rs" using bits n by simp
  have split: "be_nat xs div 2 ^ (8 * length rs - n) = be_nat (take w xs)" if "length xs = length rs" for xs
  proof -
    have "be_nat xs = be_nat (take w xs) * 256 ^ length (drop w xs) + be_nat (drop w xs)"
      using be_nat_append [of "take w xs" "drop w xs"] by simp
    moreover have "(2::nat) ^ (8 * length rs - n) = 256 ^ length (drop w xs)"
    proof -
      have "8 * length rs - n = 8 * length (drop w xs)" using that n w by simp
      then show ?thesis by (simp add: power_mult del: length_drop)
    qed
    moreover have "be_nat (drop w xs) < 256 ^ length (drop w xs)" by (rule be_nat_bound)
    ultimately show ?thesis by (simp add: div_add1_eq)
  qed
  have "be_nat (take w bs) = be_nat (take w rs) \<longleftrightarrow> take w bs = take w rs"
    using len by (intro be_nat_eq_iff) simp
  with True split [of bs] split [of rs] len show ?thesis by (simp add: w_def)
next
  case False
  define w r k where "w = n div 8" and "r = n mod 8" and "k = length rs - w - 1"
  have r: "0 < r" "r < 8" using False by (auto simp: r_def)
  have n: "n = 8 * w + r" by (simp add: w_def r_def)
  have w: "w < length rs" using bits n r by simp
  have e: "8 * length rs - n = 8 * k + (8 - r)" using w n r by (simp add: k_def)
  have dec: "be_nat xs = (be_nat (take w xs) * 256 + unat (xs ! w)) * 256 ^ k + be_nat (drop (Suc w) xs)
      \<and> be_nat (drop (Suc w) xs) < 256 ^ k"
    if "length xs = length rs" for xs
  proof -
    have "xs = (take w xs @ [xs ! w]) @ drop (Suc w) xs"
      using that w by (simp add: id_take_nth_drop)
    then have "be_nat xs = be_nat (take w xs @ [xs ! w]) * 256 ^ length (drop (Suc w) xs) + be_nat (drop (Suc w) xs)"
      using be_nat_append by metis
    moreover have l: "length (drop (Suc w) xs) = k" using that by (simp add: k_def)
    ultimately show ?thesis using be_nat_bound [of "drop (Suc w) xs"] by simp
  qed
  have t: "be_nat (take w bs) = be_nat (take w rs) \<longleftrightarrow> take w bs = take w rs"
    using len by (intro be_nat_eq_iff) simp
  have m: "(bs ! w) AND push_bit (8 - r) 255 = (rs ! w) AND push_bit (8 - r) 255 \<longleftrightarrow>
      unat (bs ! w) div 2 ^ (8 - r) = unat (rs ! w) div 2 ^ (8 - r)"
    using mask_byte_iff [of "8 - r" "bs ! w" "rs ! w"] by (metis diff_le_self unat_drop_bit word_unat_eq_iff)
  show ?thesis
    using div_prefix_iff [OF byte_bound byte_bound conjunct2 [OF dec [OF len]] conjunct2 [OF dec [OF refl]] r,
        of "be_nat (take w bs)" "bs ! w" "be_nat (take w rs)" "rs ! w"]
      dec [OF len] dec [OF refl] t m False
    unfolding e by (simp add: w_def r_def)
qed

text \<open>
  CIDR matching: a rule as parsed matches an address exactly when the address parses to
  the same family and the two agree as numbers once the host part (the bits after the
  prefix length) is dropped. The byte-and-mask comparison of matchesRule is the textbook
  definition, for every prefix length.
\<close>

theorem matchesRule_cidr:
  assumes "parseRule t = Some r"
  shows "matchesRule a r \<longleftrightarrow>
         (\<exists>bs. toBytes a = Some bs \<and> length bs = length (rule_bytes r) \<and>
            be_nat bs div 2 ^ (8 * length (rule_bytes r) - rule_bits r) =
            be_nat (rule_bytes r) div 2 ^ (8 * length (rule_bytes r) - rule_bits r))"
proof (cases "toBytes a")
  case None
  then show ?thesis by (simp add: matchesRule_def)
next
  case (Some bs)
  have "rule_bits r \<le> 8 * length (rule_bytes r)" using parseRule_sizes [OF assms] by simp
  with Some prefix_match_iff [of bs "rule_bytes r" "rule_bits r"] show ?thesis
    by (auto simp: matchesRule_def Let_def)
qed

subsection \<open>Dotted quads\<close>

definition quad :: "nat \<Rightarrow> nat \<Rightarrow> nat \<Rightarrow> nat \<Rightarrow> string" where
  "quad a b c d = join ''.'' [show_nat a, show_nat b, show_nat c, show_nat d]"

lemma stripScope_id: "CHR ''%'' \<notin> set s \<Longrightarrow> stripScope s = s"
  by (induction s) auto

lemma show_nat_plain: "c \<in> set (show_nat n) \<Longrightarrow> 48 \<le> ord c \<and> ord c \<le> 57"
  using show_nat_digits [of n] by (auto simp: is_digit_def)

lemma digit_not_punct:
  "48 \<le> ord c \<and> ord c \<le> 57 \<Longrightarrow> c \<noteq> CHR ''.'' \<and> c \<noteq> CHR ''%'' \<and> c \<noteq> CHR ''['' \<and> c \<noteq> CHR '']'' \<and> c \<noteq> CHR '':'' \<and> c \<noteq> CHR ''/''"
  by (auto simp: ord_def)

lemma split_quad: "split_on CHR ''.'' (quad a b c d) = [show_nat a, show_nat b, show_nat c, show_nat d]"
  unfolding quad_def
  by (intro split_on_join) (auto dest!: show_nat_plain digit_not_punct)

lemma quad_chars: "c \<in> set (quad u v w x) \<Longrightarrow> c = CHR ''.'' \<or> (48 \<le> ord c \<and> ord c \<le> 57)"
  by (auto simp: quad_def dest: show_nat_plain)

lemma quad_nonempty: "quad a b c d \<noteq> []"
  by (simp add: quad_def)

lemma quad_plain:
  "CHR ''%'' \<notin> set (quad a b c d)" "CHR ''['' \<notin> set (quad a b c d)"
  "CHR '']'' \<notin> set (quad a b c d)" "CHR '':'' \<notin> set (quad a b c d)"
  by (auto dest!: quad_chars simp: ord_def)

lemma dotted_quad: "dotted (quad a b c d)"
  unfolding dotted_def split_quad using show_nat_digits by (auto simp: list_all_iff)

lemma strip_brackets_id:
  "CHR ''['' \<notin> set s \<Longrightarrow> CHR '']'' \<notin> set s \<Longrightarrow> strip_brackets s = s"
proof -
  assume a: "CHR ''['' \<notin> set s" "CHR '']'' \<notin> set s"
  have h: "s \<noteq> [] \<Longrightarrow> hd s \<noteq> CHR ''[''" using a(1) hd_in_set [of s] by fastforce
  have l: "s \<noteq> [] \<Longrightarrow> last s \<noteq> CHR '']''" using a(2) last_in_set [of s] by fastforce
  show ?thesis using h l by (cases "s = []") (simp_all add: strip_brackets_def)
qed

lemma mapped_quad_None: "mapped (quad a b c d) = None"
proof -
  obtain x xs where q: "quad a b c d = x # xs" using quad_nonempty by (cases "quad a b c d") auto
  then have "x \<noteq> CHR '':''" using quad_plain(4) [of a b c d] by auto
  moreover have "lower_char y = CHR '':'' \<Longrightarrow> y = CHR '':''" for y
  proof -
    assume l: "lower_char y = CHR '':''"
    show "y = CHR '':''"
    proof (cases "is_upper y")
      case True
      then have "ord (lower_char y) \<noteq> 58" by (auto simp: lower_char_def is_upper_def ord_def)
      with l show ?thesis by (simp add: ord_def)
    next
      case False
      with l show ?thesis by (simp add: lower_char_def)
    qed
  qed
  ultimately show ?thesis using q by (auto simp: mapped_def to_lower_def)
qed

lemma toBytes_quad:
  assumes "a < 256" "b < 256" "c < 256" "d < 256"
  shows "toBytes (quad a b c d) = Some [of_nat a, of_nat b, of_nat c, of_nat d]"
proof -
  have "strip_brackets (stripScope (quad a b c d)) = quad a b c d"
    using quad_plain by (simp add: stripScope_id strip_brackets_id)
  then show ?thesis
    using assms by (simp add: toBytes_def Let_def mapped_quad_None dotted_quad split_quad dec_nat_show_nat)
qed

lemma toBytes_mapped:
  assumes "a < 256" "b < 256" "c < 256" "d < 256" and "to_lower p = ''::ffff:''"
    and "CHR ''['' \<notin> set p" "CHR ''%'' \<notin> set p" "CHR '']'' \<notin> set p"
  shows "toBytes (p @ quad a b c d) = Some [of_nat a, of_nat b, of_nat c, of_nat d]"
proof -
  have "length (to_lower p) = length ''::ffff:''" using assms(5) by simp
  then have l: "length p = 7" by (simp add: to_lower_def)
  have "strip_brackets (stripScope (p @ quad a b c d)) = p @ quad a b c d"
    using quad_plain assms(6-8) by (simp add: stripScope_id strip_brackets_id)
  moreover have "mapped (p @ quad a b c d) = Some (quad a b c d)"
    using l assms(5) by (simp add: mapped_def dotted_quad)
  ultimately show ?thesis
    using assms by (simp add: toBytes_def Let_def dotted_quad split_quad dec_nat_show_nat)
qed

text \<open>
  IPv4 clients are recognised however the socket prints them: a dotted quad and its
  IPv4-mapped IPv6 form parse to the same four bytes, so a rule written for one matches
  the other.
\<close>

theorem mapped_same_address:
  assumes "a < 256" "b < 256" "c < 256" "d < 256"
  shows "toBytes (quad a b c d) = Some [of_nat a, of_nat b, of_nat c, of_nat d] \<and>
         toBytes (''::ffff:'' @ quad a b c d) = toBytes (quad a b c d) \<and>
         matchesRule (''::ffff:'' @ quad a b c d) r = matchesRule (quad a b c d) r"
proof -
  have "to_lower ''::ffff:'' = ''::ffff:''" by (simp add: js_simps)
  then have "toBytes (''::ffff:'' @ quad a b c d) = Some [of_nat a, of_nat b, of_nat c, of_nat d]"
    using assms by (intro toBytes_mapped) auto
  with toBytes_quad [OF assms] show ?thesis by (simp add: matchesRule_def)
qed

theorem mapped_same_address_witness:
  "toBytes (''::ffff:'' @ quad 10 0 0 7) = Some [10, 0, 0, 7]"
  using mapped_same_address [of 10 0 0 7] by simp

theorem matchesRule_cidr_witness:
  "\<exists>r. parseRule ''10.8.0.0/13'' = Some r \<and> rule_bits r = 13 \<and> matchesRule ''10.15.9.9'' r \<and>
     \<not> matchesRule ''10.16.0.1'' r"
proof -
  have p: "parseRule ''10.8.0.0/13'' =
      Some \<lparr>rule_bytes = [10, 8, 0, 0], rule_bits = 13, rule_text = ''10.8.0.0/13''\<rparr>"
    by code_simp
  have a: "toBytes ''10.15.9.9'' = Some [10, 15, 9, 9]" by code_simp
  have b: "toBytes ''10.16.0.1'' = Some [10, 16, 0, 1]" by code_simp
  show ?thesis
    using p matchesRule_cidr [OF p, of "''10.15.9.9''"] matchesRule_cidr [OF p, of "''10.16.0.1''"]
    unfolding a b by (simp add: be_nat_def)
qed

text \<open>
  A trailing slash opens the rule to everyone: Number("") is 0, so "10.0.0.0/" is
  accepted as a rule with a prefix of zero bits and matches every IPv4 address. An allow
  list holding it lets every IPv4 visitor in.
\<close>

theorem trailing_slash_allows_all:
  assumes "a < 256" "b < 256" "c < 256" "d < 256"
  shows "isAllowed (quad a b c d) [''10.0.0.0/'']"
proof -
  have p: "parseRule ''10.0.0.0/'' =
      Some \<lparr>rule_bytes = [10, 0, 0, 0], rule_bits = 0, rule_text = ''10.0.0.0/''\<rparr>"
    by code_simp
  show ?thesis
    using toBytes_quad [OF assms] by (simp add: isAllowed_def p matchesRule_def)
qed

theorem trailing_slash_allows_all_witness: "isAllowed (quad 203 0 113 9) [''10.0.0.0/'']"
  using trailing_slash_allows_all [of 203 0 113 9] by simp

end
