(* ===== verification/Intel.thy ===== *)
theory Intel
  imports Address
begin

text \<open>
  IP intelligence (src/server/lib/intel.js): private ranges, the range lists (sorted CIDR
  blocks searched by bisection), the lookup of an address, and the refresh of databases
  and lists from the network.

  The MaxMind readers are parameters: a reader maps an address to the record found, a
  JavaScript value. What a download returns and the clock are arguments as well. The files
  written by refresh are read back by the load functions at once, so the model passes the
  downloaded text on directly.
\<close>

fun ipv4_value :: "nat \<Rightarrow> string list \<Rightarrow> nat option" where
  "ipv4_value v [] = Some v"
| "ipv4_value v (part # parts) =
     (case number_of_string part of
        None \<Rightarrow> None
      | Some octet \<Rightarrow>
          if octet < 0 \<or> octet > 255 then None else ipv4_value (v * 256 + nat octet) parts)"

definition ipv4 :: "string \<Rightarrow> nat option" where
  "ipv4 text =
     (let parts = split_on CHR ''.'' text
      in if length parts \<noteq> 4 then None else ipv4_value 0 parts)"

definition PRIVATE :: "(nat \<times> nat) list" where
  "PRIVATE = map (\<lambda>(base, bits). (the (ipv4 base), bits))
     [(''10.0.0.0'', 8), (''172.16.0.0'', 12), (''192.168.0.0'', 16), (''127.0.0.0'', 8),
      (''169.254.0.0'', 16), (''100.64.0.0'', 10), (''0.0.0.0'', 8)]"

definition normalize :: "string \<Rightarrow> string" where
  "normalize address =
     (let text = strip_brackets (stripScope address)
      in case mapped text of Some m \<Rightarrow> m | None \<Rightarrow> text)"

definition isPrivate :: "string \<Rightarrow> bool" where
  "isPrivate ip =
     (case ipv4 ip of
        Some value \<Rightarrow>
          (\<exists>(base, bits) \<in> set PRIVATE. value div 2 ^ (32 - bits) = base div 2 ^ (32 - bits))
      | None \<Rightarrow>
          ip = ''::1'' \<or> to_lower (take 2 ip) = ''fc'' \<or> to_lower (take 2 ip) = ''fd'' \<or>
          to_lower (take 4 ip) = ''fe80'')"

subsection \<open>Range sets\<close>

type_synonym ranges = "(nat \<times> nat) list"

text \<open>One line of a list: nothing for blank lines, comments and what does not parse.\<close>

definition line_range :: "string \<Rightarrow> (nat \<times> nat) option" where
  "line_range line =
     (let text = trim line
      in if text = [] \<or> starts_with ''#'' text then None
         else let parts = split_on CHR ''/'' text;
                  prefix = (if length parts < 2 then ''32'' else parts ! 1)
              in case ipv4 (hd parts) of
                   None \<Rightarrow> None
                 | Some start \<Rightarrow>
                     (case number_of_string prefix of
                        None \<Rightarrow> None
                      | Some bits \<Rightarrow>
                          if bits < 0 \<or> bits > 32 then None
                          else let size = 2 ^ (32 - nat bits); from = (start div size) * size
                               in Some (from, from + size - 1)))"

definition new_RangeSet :: "string list \<Rightarrow> ranges" where
  "new_RangeSet lines = sort_key fst (List.map_filter line_range lines)"

text \<open>The bisection of has(), over indices low and high (high may become -1).\<close>

function bisect :: "ranges \<Rightarrow> nat \<Rightarrow> int \<Rightarrow> int \<Rightarrow> bool" where
  "bisect rs value low high =
     (if low \<le> high
      then let middle = (low + high) div 2; (from, to) = rs ! nat middle
           in if value < from then bisect rs value low (middle - 1)
              else if value > to then bisect rs value (middle + 1) high
              else True
      else False)"
  by pat_completeness auto
termination
  by (relation "measure (\<lambda>(rs, v, low, high). nat (high - low + 1))") auto

declare bisect.simps [simp del]

definition has :: "ranges \<Rightarrow> string \<Rightarrow> bool" where
  "has rs ip =
     (case ipv4 ip of
        None \<Rightarrow> False
      | Some value \<Rightarrow> bisect rs value 0 (int (length rs) - 1))"

subsection \<open>The intelligence object\<close>

type_synonym reader = "string \<Rightarrow> jsval"

record intel =
  readers :: "(string, reader) jsmap"
  lists :: "(string, ranges) jsmap"
  updatedAt :: "(string, time) jsmap"

record ip_details =
  i_ip :: string
  i_private :: bool
  i_country :: jsval
  i_continent :: jsval
  i_eu :: bool
  i_asn :: jsval
  i_org :: jsval
  i_tor :: bool
  i_vpn :: bool
  i_datacenter :: bool
  i_blocklisted :: bool

definition or_null :: "jsval \<Rightarrow> jsval" where
  "or_null v = (if truthy v then v else JNull)"

text \<open>The test \<open>^[0-9a-f.:]+$\<close>, ignoring case.\<close>

definition plain_address :: "string \<Rightarrow> bool" where
  "plain_address ip \<longleftrightarrow>
     ip \<noteq> [] \<and> list_all (\<lambda>c. hex_digit c \<noteq> None \<or> c = CHR ''.'' \<or> c = CHR '':'') ip"

definition read_db :: "intel \<Rightarrow> string \<Rightarrow> string \<Rightarrow> jsval" where
  "read_db it name ip =
     (if plain_address ip
      then (case map_get (readers it) name of None \<Rightarrow> JUndef | Some get \<Rightarrow> get ip)
      else JNull)"

definition in_list :: "intel \<Rightarrow> string \<Rightarrow> string \<Rightarrow> bool" where
  "in_list it name ip = (case map_get (lists it) name of None \<Rightarrow> False | Some rs \<Rightarrow> has rs ip)"

definition lookup :: "intel \<Rightarrow> string \<Rightarrow> ip_details" where
  "lookup it address =
     (let ip = normalize address
      in if isPrivate ip
         then \<lparr>i_ip = ip, i_private = True, i_country = JUndef, i_continent = JUndef,
               i_eu = False, i_asn = JUndef, i_org = JUndef, i_tor = False, i_vpn = False,
               i_datacenter = False, i_blocklisted = False\<rparr>
         else let country = read_db it ''country'' ip; asn = read_db it ''asn'' ip
              in \<lparr>i_ip = ip, i_private = False,
                  i_country = or_null (js_get (js_get country ''country'') ''iso_code''),
                  i_continent = or_null (js_get (js_get country ''continent'') ''code''),
                  i_eu = truthy (js_get (js_get country ''country'') ''is_in_european_union''),
                  i_asn = or_null (js_get asn ''autonomous_system_number''),
                  i_org = or_null (js_get asn ''autonomous_system_organization''),
                  i_tor = in_list it ''tor'' ip, i_vpn = in_list it ''vpn'' ip,
                  i_datacenter = in_list it ''datacenter'' ip,
                  i_blocklisted = in_list it ''blocklist'' ip\<rparr>)"

subsection \<open>Refresh\<close>

definition DAY :: time where
  "DAY = 24 * 60 * 60 * 1000"

definition LISTS :: "(string \<times> string) list" where
  "LISTS =
     [(''tor'', ''https://check.torproject.org/torbulkexitlist''),
      (''datacenter'', ''https://raw.githubusercontent.com/X4BNet/lists_vpn/main/output/datacenter/ipv4.txt''),
      (''vpn'', ''https://raw.githubusercontent.com/X4BNet/lists_vpn/main/output/vpn/ipv4.txt''),
      (''blocklist'', ''https://raw.githubusercontent.com/firehol/blocklist-ipsets/master/firehol_level1.netset'')]"

definition DATABASES :: "(string \<times> string) list" where
  "DATABASES = [(''country'', ''dbip-country-lite''), (''asn'', ''dbip-asn-lite'')]"

definition stale :: "intel \<Rightarrow> time \<Rightarrow> string \<Rightarrow> time \<Rightarrow> bool" where
  "stale it now name maxAge =
     (case map_get (updatedAt it) name of None \<Rightarrow> True | Some t \<Rightarrow> now - t > maxAge)"

definition stamp :: "nat \<Rightarrow> nat \<Rightarrow> string" where
  "stamp year month0 =
     (let m = show_nat (month0 + 1)
      in show_nat year @ ''-'' @ replicate (2 - length m) CHR ''0'' @ m)"

text \<open>This month and the previous one; Date.UTC turns month -1 into December of the year before.\<close>

definition months :: "nat \<Rightarrow> nat \<Rightarrow> string list" where
  "months year month0 =
     [stamp year month0,
      if month0 = 0 then stamp (year - 1) 11 else stamp year (month0 - 1)]"

definition loadDatabase :: "string \<Rightarrow> reader \<Rightarrow> time \<Rightarrow> intel \<Rightarrow> intel" where
  "loadDatabase name reader mtime it =
     it\<lparr>readers := map_set name reader (readers it), updatedAt := map_set name mtime (updatedAt it)\<rparr>"

definition loadList :: "string \<Rightarrow> string \<Rightarrow> time \<Rightarrow> intel \<Rightarrow> intel" where
  "loadList name body mtime it =
     it\<lparr>lists := map_set name (new_RangeSet (split_on (char_of (10 :: nat)) body)) (lists it),
       updatedAt := map_set name mtime (updatedAt it)\<rparr>"

text \<open>fetchDb is the download of one database with gunzip and the reader's constructor,
  None when any of them throws; fetchList is the download of one list.\<close>

fun refresh_database ::
  "(string \<Rightarrow> reader option) \<Rightarrow> time \<Rightarrow> string \<Rightarrow> string \<Rightarrow> string list \<Rightarrow> intel \<Rightarrow> intel" where
  "refresh_database fetchDb now name base [] it = it"
| "refresh_database fetchDb now name base (m # ms) it =
     (case fetchDb (''https://download.db-ip.com/free/'' @ base @ ''-'' @ m @ ''.mmdb.gz'') of
        Some reader \<Rightarrow> loadDatabase name reader now it
      | None \<Rightarrow> refresh_database fetchDb now name base ms it)"

fun refresh_databases ::
  "(string \<Rightarrow> reader option) \<Rightarrow> time \<Rightarrow> string list \<Rightarrow> (string \<times> string) list \<Rightarrow> intel \<Rightarrow> intel" where
  "refresh_databases fetchDb now ms [] it = it"
| "refresh_databases fetchDb now ms ((name, base) # dbs) it =
     refresh_databases fetchDb now ms dbs
       (if stale it now name (7 * DAY) then refresh_database fetchDb now name base ms it else it)"

text \<open>A list that cannot be fetched ends the refresh with an error (the flag).\<close>

fun refresh_lists ::
  "(string \<Rightarrow> string option) \<Rightarrow> time \<Rightarrow> (string \<times> string) list \<Rightarrow> intel \<Rightarrow> intel \<times> bool" where
  "refresh_lists fetchList now [] it = (it, True)"
| "refresh_lists fetchList now ((name, url) # ls) it =
     (if \<not> stale it now name DAY then refresh_lists fetchList now ls it
      else (case fetchList url of
              None \<Rightarrow> (it, False)
            | Some body \<Rightarrow> refresh_lists fetchList now ls (loadList name body now it)))"

definition refresh ::
  "(string \<Rightarrow> reader option) \<Rightarrow> (string \<Rightarrow> string option) \<Rightarrow> time \<Rightarrow> nat \<Rightarrow> nat \<Rightarrow> intel \<Rightarrow> intel \<times> bool" where
  "refresh fetchDb fetchList now year month0 it =
     refresh_lists fetchList now LISTS
       (refresh_databases fetchDb now (months year month0) DATABASES it)"

subsection \<open>The bisection finds the covering range\<close>

lemma bisect_sound:
  "bisect rs v low high \<Longrightarrow> 0 \<le> low \<Longrightarrow> high < int (length rs) \<Longrightarrow>
   \<exists>(a, b) \<in> set rs. a \<le> v \<and> v \<le> b"
proof (induction rs v low high rule: bisect.induct)
  case (1 rs v low high)
  let ?m = "(low + high) div 2"
  obtain a b where ab: "rs ! nat ?m = (a, b)" by (cases "rs ! nat ?m")
  have lh: "low \<le> high" using "1.prems"(1) by (subst (asm) bisect.simps) (auto split: if_splits)
  then have m: "low \<le> ?m" "?m \<le> high" by auto
  have mem: "(a, b) \<in> set rs"
    using ab m "1.prems"(2,3) nth_mem [of "nat ?m" rs] by simp
  have step: "bisect rs v low high =
      (if v < a then bisect rs v low (?m - 1) else if v > b then bisect rs v (?m + 1) high else True)"
    using lh ab by (subst bisect.simps) (simp add: Let_def)
  consider "v < a" | "\<not> v < a" "v > b" | "a \<le> v" "v \<le> b" by linarith
  then show ?case
  proof cases
    case 1
    then show ?thesis
      using "1.IH"(1) [OF lh refl ab [symmetric] refl 1] step "1.prems" m by simp
  next
    case 2
    then show ?thesis
      using "1.IH"(2) [OF lh refl ab [symmetric] refl 2] step "1.prems" m by simp
  next
    case 3
    then show ?thesis using mem by auto
  qed
qed

lemma bisect_complete:
  assumes "sorted (map fst rs)"
    and "\<forall>i j. i \<le> j \<longrightarrow> j < length rs \<longrightarrow> snd (rs ! i) \<le> snd (rs ! j)"
  shows "0 \<le> low \<Longrightarrow> high < int (length rs) \<Longrightarrow> low \<le> int k \<Longrightarrow> int k \<le> high \<Longrightarrow>
    fst (rs ! k) \<le> v \<Longrightarrow> v \<le> snd (rs ! k) \<Longrightarrow> bisect rs v low high"
  using assms
proof (induction rs v low high rule: bisect.induct)
  case (1 rs v low high)
  let ?m = "(low + high) div 2"
  obtain a b where ab: "rs ! nat ?m = (a, b)" by (cases "rs ! nat ?m")
  have lh: "low \<le> high" using "1.prems" by linarith
  then have m: "low \<le> ?m" "?m \<le> high" by auto
  have step: "bisect rs v low high =
      (if v < a then bisect rs v low (?m - 1) else if v > b then bisect rs v (?m + 1) high else True)"
    using lh ab by (subst bisect.simps) (simp add: Let_def)
  consider "v < a" | "\<not> v < a" "v > b" | "a \<le> v" "v \<le> b" by linarith
  then show ?case
  proof cases
    case 1
    have "int k \<le> ?m - 1"
    proof (rule ccontr)
      assume "\<not> ?thesis"
      then have "nat ?m \<le> k" by linarith
      moreover have "k < length rs" using "1.prems" by linarith
      ultimately have "fst (rs ! nat ?m) \<le> fst (rs ! k)"
        using sorted_nth_mono [OF "1.prems"(7), of "nat ?m" k] by simp
      with 1 ab "1.prems"(5) show False by simp
    qed
    then show ?thesis
      using "1.IH"(1) [OF lh refl ab [symmetric] refl 1] step 1 "1.prems" m by simp
  next
    case 2
    have "?m + 1 \<le> int k"
    proof (rule ccontr)
      assume "\<not> ?thesis"
      then have "k \<le> nat ?m" using m "1.prems" by linarith
      moreover have "nat ?m < length rs" using m "1.prems" by linarith
      ultimately have "snd (rs ! k) \<le> snd (rs ! nat ?m)" using "1.prems"(8) by blast
      with 2 ab "1.prems"(6) show False by simp
    qed
    then show ?thesis
      using "1.IH"(2) [OF lh refl ab [symmetric] refl 2] step 2 "1.prems" m by simp
  next
    case 3
    then show ?thesis using step by simp
  qed
qed

text \<open>No block of the list lies inside a larger one: blocks that start later end later.\<close>

definition flat :: "ranges \<Rightarrow> bool" where
  "flat rs \<longleftrightarrow> (\<forall>r \<in> set rs. \<forall>r' \<in> set rs. fst r \<le> fst r' \<longrightarrow> snd r \<le> snd r')"

lemma flat_monotone:
  assumes "flat rs" "i \<le> j" "j < length (sort_key fst rs)"
  shows "snd (sort_key fst rs ! i) \<le> snd (sort_key fst rs ! j)"
proof -
  have "sorted (map fst (sort_key fst rs))" by simp
  then have "fst (sort_key fst rs ! i) \<le> fst (sort_key fst rs ! j)"
    using assms sorted_nth_mono [of "map fst (sort_key fst rs)" i j] by simp
  moreover have "sort_key fst rs ! i \<in> set rs" "sort_key fst rs ! j \<in> set rs"
    using assms(2,3) nth_mem [of i "sort_key fst rs"] nth_mem [of j "sort_key fst rs"] by simp_all
  ultimately show ?thesis using assms(1) by (auto simp: flat_def)
qed

lemma has_sorted_iff:
  assumes "flat rs"
  shows "has (sort_key fst rs) ip \<longleftrightarrow>
    (\<exists>v. ipv4 ip = Some v \<and> (\<exists>(a, b) \<in> set rs. a \<le> v \<and> v \<le> b))"
proof (cases "ipv4 ip")
  case None
  then show ?thesis by (simp add: has_def)
next
  case (Some v)
  let ?rs = "sort_key fst rs"
  have "bisect ?rs v 0 (int (length ?rs) - 1) \<longleftrightarrow> (\<exists>(a, b) \<in> set ?rs. a \<le> v \<and> v \<le> b)"
  proof
    assume "bisect ?rs v 0 (int (length ?rs) - 1)"
    then show "\<exists>(a, b) \<in> set ?rs. a \<le> v \<and> v \<le> b" by (rule bisect_sound) auto
  next
    assume "\<exists>(a, b) \<in> set ?rs. a \<le> v \<and> v \<le> b"
    then obtain r where "r \<in> set ?rs" "fst r \<le> v" "v \<le> snd r" by fastforce
    then obtain k where "k < length ?rs" "fst (?rs ! k) \<le> v" "v \<le> snd (?rs ! k)"
      using in_set_conv_nth [of r ?rs] by blast
    then show "bisect ?rs v 0 (int (length ?rs) - 1)"
      using flat_monotone [OF assms] by (intro bisect_complete [of ?rs 0 _ k]) auto
  qed
  then show ?thesis using Some by (simp add: has_def)
qed

text \<open>The block of a line is the set of addresses that agree with it above the prefix.\<close>

lemma line_range_block:
  assumes "line_range line = Some (a, b)"
  shows "\<exists>size start. 0 < size \<and> ipv4 (hd (split_on CHR ''/'' (trim line))) = Some start \<and>
    (\<forall>v. a \<le> v \<and> v \<le> b \<longleftrightarrow> v div size = start div size)"
proof -
  from assms obtain start n where s: "ipv4 (hd (split_on CHR ''/'' (trim line))) = Some start"
    and ab: "a = (start div 2 ^ n) * 2 ^ n" "b = a + 2 ^ n - 1"
    by (auto simp: line_range_def Let_def split: if_splits option.splits)
  have "a \<le> v \<and> v \<le> b \<longleftrightarrow> v div 2 ^ n = start div 2 ^ n" for v
  proof -
    have p: "(0 :: nat) < 2 ^ n" by simp
    have "v div 2 ^ n = start div 2 ^ n \<longleftrightarrow>
        start div 2 ^ n * 2 ^ n \<le> v \<and> v < Suc (start div 2 ^ n) * 2 ^ n"
      by (metis div_nat_eqI dividend_less_div_times mult.commute p times_div_less_eq_dividend mult_Suc)
    moreover have "v \<le> b \<longleftrightarrow> v < Suc (start div 2 ^ n) * 2 ^ n"
    proof -
      have "b = Suc (start div 2 ^ n) * 2 ^ n - 1" unfolding ab(2) ab(1) by (simp add: add.commute)
      moreover have "0 < Suc (start div 2 ^ n) * 2 ^ n" by simp
      ultimately show ?thesis by linarith
    qed
    ultimately show ?thesis unfolding ab(1) by blast
  qed
  with s show ?thesis by (intro exI [of _ "2 ^ n"] exI [of _ start]) simp
qed

text \<open>
  Range lists answer exactly what they contain, as long as no block of the list lies
  inside a larger one: the bisection over the sorted blocks finds an address if and only
  if some line of the list covers it.
\<close>

theorem has_covering:
  assumes "flat (List.map_filter line_range lines)"
  shows "has (new_RangeSet lines) ip \<longleftrightarrow>
    (\<exists>v a b. ipv4 ip = Some v \<and> (\<exists>line \<in> set lines. line_range line = Some (a, b)) \<and> a \<le> v \<and> v \<le> b)"
proof -
  have "set (List.map_filter line_range lines) = {r. \<exists>line \<in> set lines. line_range line = Some r}"
    by (induction lines) (auto simp: List.map_filter_def)
  then show ?thesis
    unfolding new_RangeSet_def has_sorted_iff [OF assms] by auto
qed

lemma number_of_small:
  "number_of_string ''10'' = Some 10" "number_of_string ''0'' = Some 0"
  "number_of_string ''1'' = Some 1" "number_of_string ''2'' = Some 2"
  "number_of_string ''24'' = Some 24" "number_of_string ''8'' = Some 8"
  "number_of_string ''128'' = Some 128" "number_of_string ''9'' = Some 9"
  by code_simp+

lemma sample_ranges:
  "line_range ''10.0.0.0/8'' = Some (167772160, 184549375)"
  "line_range ''10.1.0.0/24'' = Some (167837696, 167837951)"
  "line_range ''10.2.0.0/24'' = Some (167903232, 167903487)"
  by (simp_all add: line_range_def Let_def trim_def js_simps starts_with_def ipv4_def number_of_small)

lemma sample_address: "ipv4 ''10.1.128.0'' = Some 167870464" "ipv4 ''10.2.0.9'' = Some 167903241"
  by (simp_all add: ipv4_def number_of_small)

theorem has_covering_witness:
  "has (new_RangeSet [''10.2.0.0/24'', ''10.1.0.0/24'']) ''10.2.0.9'' \<and>
   \<not> has (new_RangeSet [''10.2.0.0/24'', ''10.1.0.0/24'']) ''10.1.128.0''"
proof -
  have f: "flat (List.map_filter line_range [''10.2.0.0/24'', ''10.1.0.0/24''])"
    by (simp add: flat_def List.map_filter_def sample_ranges)
  have "has (new_RangeSet [''10.2.0.0/24'', ''10.1.0.0/24'']) ''10.2.0.9''"
    unfolding has_covering [OF f]
    by (intro exI [of _ 167903241] exI [of _ 167903232] exI [of _ 167903487])
      (simp add: sample_ranges sample_address)
  moreover have "\<not> has (new_RangeSet [''10.2.0.0/24'', ''10.1.0.0/24'']) ''10.1.128.0''"
    unfolding has_covering [OF f] by (auto simp: sample_ranges sample_address)
  ultimately show ?thesis ..
qed

text \<open>
  With nested blocks the bisection can miss: 10.1.128.0 lies in the first block of this
  list, yet the list answers that it does not contain it, so a block rule for the category
  does not apply to it.
\<close>

theorem nested_range_missed:
  "let lines = [''10.0.0.0/8'', ''10.1.0.0/24'', ''10.2.0.0/24''] in
   (\<exists>v a b. ipv4 ''10.1.128.0'' = Some v \<and> line_range (hd lines) = Some (a, b) \<and> a \<le> v \<and> v \<le> b) \<and>
   \<not> has (new_RangeSet lines) ''10.1.128.0''"
proof -
  have r: "new_RangeSet [''10.0.0.0/8'', ''10.1.0.0/24'', ''10.2.0.0/24''] =
      [(167772160, 184549375), (167837696, 167837951), (167903232, 167903487)]"
    by (simp add: new_RangeSet_def List.map_filter_def sample_ranges)
  have "\<not> bisect [(167772160, 184549375), (167837696, 167837951), (167903232, 167903487)] 167870464 0 2"
    by (simp add: bisect.simps Let_def)
  then show ?thesis
    unfolding Let_def has_def r by (simp add: sample_ranges sample_address)
qed

subsection \<open>Lookups\<close>

text \<open>A private address has no country and belongs to no list.\<close>

lemma lookup_private:
  "isPrivate (normalize a) \<Longrightarrow>
   i_country (lookup it a) = JUndef \<and> \<not> i_tor (lookup it a) \<and> \<not> i_vpn (lookup it a) \<and>
   \<not> i_datacenter (lookup it a) \<and> \<not> i_blocklisted (lookup it a)"
  by (simp add: lookup_def Let_def)

text \<open>A refresh leaves what is fresh alone.\<close>

lemma loadDatabase_lists [simp]: "lists (loadDatabase n r t it) = lists it"
  by (simp add: loadDatabase_def)

lemma refresh_database_lists [simp]: "lists (refresh_database f now n b ms it) = lists it"
  by (induction ms) (auto split: option.splits)

lemma refresh_databases_lists [simp]: "lists (refresh_databases f now ms dbs it) = lists it"
  by (induction f now ms dbs it rule: refresh_databases.induct) auto

lemma refresh_database_updated:
  "updatedAt (refresh_database f now n b ms it) = updatedAt it \<or>
   updatedAt (refresh_database f now n b ms it) = map_set n now (updatedAt it)"
  by (induction ms) (auto split: option.splits simp: loadDatabase_def)

lemma refresh_lists_fresh:
  "\<not> stale it now name DAY \<Longrightarrow>
   map_get (lists (fst (refresh_lists f now ls it))) name = map_get (lists it) name"
proof (induction f now ls it rule: refresh_lists.induct)
  case (2 f now n url ls it)
  have keep: "\<not> stale (loadList n body now it) now name DAY" for body
    using "2.prems" by (auto simp: stale_def loadList_def DAY_def split: option.splits)
  show ?case
  proof (cases "stale it now n DAY")
    case True
    then have "n \<noteq> name" using "2.prems" by auto
    then show ?thesis using 2 True keep by (auto simp: loadList_def split: option.splits)
  next
    case False
    then show ?thesis using 2 by simp
  qed
qed simp

end
