(* ===== verification/Password.thy ===== *)
theory Password
  imports Js Bytes
begin

text \<open>
  Stored passwords (src/server/utils/password.js): "scrypt$salt$hash" with both parts in
  hexadecimal. The key derivation function of Node's crypto module is the parameter
  scrypt, a function of the password, the salt and the length asked for; the sixteen random
  bytes of the salt are an argument.
\<close>

definition KEY_LENGTH :: nat where
  "KEY_LENGTH = 64"

definition hex_char :: "nat \<Rightarrow> char" where
  "hex_char d = (if d < 10 then char_of (48 + d) else char_of (87 + d))"

definition to_hex :: "bytes \<Rightarrow> string" where
  "to_hex bs = concat (map (\<lambda>b. [hex_char (unat b div 16), hex_char (unat b mod 16)]) bs)"

text \<open>Buffer.from(s, "hex"): pairs of digits up to the first that is not one.\<close>

fun from_hex :: "string \<Rightarrow> bytes" where
  "from_hex (a # b # cs) =
     (case (hex_digit a, hex_digit b) of
        (Some x, Some y) \<Rightarrow> of_nat (x * 16 + y) # from_hex cs
      | _ \<Rightarrow> [])"
| "from_hex _ = []"

definition hashPassword :: "(string \<Rightarrow> bytes \<Rightarrow> nat \<Rightarrow> bytes) \<Rightarrow> bytes \<Rightarrow> string \<Rightarrow> string" where
  "hashPassword scrypt salt password =
     ''scrypt$'' @ to_hex salt @ ''$'' @ to_hex (scrypt password salt KEY_LENGTH)"

definition verifyPassword :: "(string \<Rightarrow> bytes \<Rightarrow> nat \<Rightarrow> bytes) \<Rightarrow> string \<Rightarrow> string \<Rightarrow> bool" where
  "verifyPassword scrypt password stored =
     (let parts = split_on CHR ''$'' stored
      in if hd parts \<noteq> ''scrypt'' \<or> length parts < 3 \<or> parts ! 1 = [] \<or> parts ! 2 = [] then False
         else let expected = from_hex (parts ! 2)
              in scrypt password (from_hex (parts ! 1)) (length expected) = expected)"

lemma hex_char_digit: "d < 16 \<Longrightarrow> hex_digit (hex_char d) = Some d"
  by (auto simp: hex_char_def js_simps)

lemma hex_char_no_dollar: "d < 16 \<Longrightarrow> hex_char d \<noteq> CHR ''$''"
proof
  assume "d < 16" "hex_char d = CHR ''$''"
  then have "hex_digit (CHR ''$'') = Some d" using hex_char_digit [of d] by simp
  then show False by (simp add: js_simps)
qed

lemma unat_byte_less: "unat (b :: byte) < 256"
  using unsigned_less [of b] by simp

lemma from_hex_to_hex: "from_hex (to_hex bs) = bs"
proof (induction bs)
  case Nil
  then show ?case by (simp add: to_hex_def)
next
  case (Cons b bs)
  have "unat b div 16 < 16" "unat b mod 16 < 16" using unat_byte_less [of b] by auto
  moreover have "of_nat (unat b div 16 * 16 + unat b mod 16) = b" by simp
  ultimately show ?case
    using Cons by (simp add: to_hex_def hex_char_digit del: hex_digit.simps)
qed

lemma to_hex_no_dollar: "CHR ''$'' \<notin> set (to_hex bs)"
proof (induction bs)
  case Nil
  then show ?case by (simp add: to_hex_def)
next
  case (Cons b bs)
  have "unat b div 16 < 16" "unat b mod 16 < 16" using unat_byte_less [of b] by auto
  then have "hex_char (unat b div 16) \<noteq> CHR ''$''" "hex_char (unat b mod 16) \<noteq> CHR ''$''"
    by (simp_all add: hex_char_no_dollar)
  then show ?case using Cons by (auto simp: to_hex_def)
qed

lemma to_hex_empty: "to_hex bs = [] \<longleftrightarrow> bs = []"
  by (cases bs) (auto simp: to_hex_def)

lemma split_hash:
  "split_on CHR ''$'' (hashPassword scrypt salt p) =
     [''scrypt'', to_hex salt, to_hex (scrypt p salt KEY_LENGTH)]"
proof -
  have "hashPassword scrypt salt p = join ''$'' [''scrypt'', to_hex salt, to_hex (scrypt p salt KEY_LENGTH)]"
    by (simp add: hashPassword_def)
  then show ?thesis
    using to_hex_no_dollar by (simp only: , intro split_on_join) auto
qed

text \<open>Verification accepts exactly the passwords that derive the stored key from the stored salt.\<close>

lemma verify_hash:
  assumes "salt \<noteq> []" and len: "\<And>p s n. length (scrypt p s n) = n"
  shows "verifyPassword scrypt q (hashPassword scrypt salt p) \<longleftrightarrow>
         scrypt q salt KEY_LENGTH = scrypt p salt KEY_LENGTH"
proof -
  have "scrypt p salt KEY_LENGTH \<noteq> []" using len [of p salt KEY_LENGTH] by (auto simp: KEY_LENGTH_def)
  then show ?thesis
    using assms by (simp add: verifyPassword_def split_hash to_hex_empty from_hex_to_hex Let_def)
qed

end
