(* ===== verification/Policy.thy ===== *)
theory Policy
  imports Intel Password
begin

text \<open>
  Access policies of a tunnel (the middle part of src/server/lib/access.js): building a
  policy from the input of a client, describing it, and deciding whether an address may
  use the tunnel.
\<close>

definition AUTH_MODES :: "string list" where
  "AUTH_MODES = [''none'', ''password'', ''tunlit'']"

definition CATEGORIES :: "string list" where
  "CATEGORIES = [''tor'', ''vpn'', ''datacenter'', ''blocklist'']"

definition CATEGORY_LABELS :: "(string \<times> string) list" where
  "CATEGORY_LABELS =
     [(''tor'', ''Tor exit nodes''), (''vpn'', ''VPN services''), (''datacenter'', ''datacenters''),
      (''blocklist'', ''blocklisted addresses'')]"

text \<open>intel[CATEGORY_KEYS[entry]]\<close>

definition in_category :: "ip_details \<Rightarrow> string \<Rightarrow> bool" where
  "in_category intel entry =
     (if entry = ''tor'' then i_tor intel
      else if entry = ''vpn'' then i_vpn intel
      else if entry = ''datacenter'' then i_datacenter intel
      else if entry = ''blocklist'' then i_blocklisted intel
      else False)"

definition fail :: "string \<Rightarrow> err" where
  "fail message = Err ''bad_request'' message"

record policy =
  auth :: string
  passwordHash :: "string option"
  allow_ips :: "string list"
  allow_countries :: "string list"
  block_ips :: "string list"
  block_countries :: "string list"
  block_categories :: "string list"

definition emptyPolicy :: policy where
  "emptyPolicy =
     \<lparr>auth = ''none'', passwordHash = None, allow_ips = [], allow_countries = [],
      block_ips = [], block_countries = [], block_categories = []\<rparr>"

definition listOf :: "jsval \<Rightarrow> string list" where
  "listOf value =
     filter (\<lambda>e. e \<noteq> [])
       (map trim (case value of
          JArr vs \<Rightarrow> map js_string vs
        | v \<Rightarrow> split_on CHR '','' (js_string v)))"

definition ipRules :: "jsval \<Rightarrow> string list result" where
  "ipRules value =
     (let rules = listOf value
      in case find (\<lambda>r. parseRule r = None) rules of
           Some rule \<Rightarrow> Inl (fail (''\"'' @ rule @ ''\" is not an IP address or CIDR range''))
         | None \<Rightarrow> if length rules > 64 then Inl (fail ''At most 64 IP rules'') else Inr rules)"

definition country_code :: "string \<Rightarrow> bool" where
  "country_code c \<longleftrightarrow> length c = 2 \<and> list_all is_upper c"

definition countryCodes :: "jsval \<Rightarrow> string list result" where
  "countryCodes value =
     (let codes = uniq (map to_upper (listOf value))
      in case find (\<lambda>c. \<not> country_code c) codes of
           Some code \<Rightarrow> Inl (fail (''\"'' @ code @ ''\" is not a country code''))
         | None \<Rightarrow> Inr codes)"

definition categories :: "jsval \<Rightarrow> string list result" where
  "categories value =
     (let list = uniq (map to_lower (listOf value))
      in case find (\<lambda>e. e \<notin> set CATEGORIES) list of
           Some entry \<Rightarrow>
             Inl (fail (''\"'' @ entry @ ''\" is not one of '' @ join '', '' CATEGORIES))
         | None \<Rightarrow> Inr list)"

text \<open>if (v !== undefined) field = parse(v): the parse error is thrown to the caller.\<close>

definition set_field ::
  "jsval \<Rightarrow> (jsval \<Rightarrow> string list result) \<Rightarrow> (string list \<Rightarrow> policy \<Rightarrow> policy) \<Rightarrow> policy \<Rightarrow> policy result" where
  "set_field v parse put p =
     (if v = JUndef then Inr p
      else (case parse v of Inl e \<Rightarrow> Inl e | Inr xs \<Rightarrow> Inr (put xs p)))"

definition build_auth :: "jsval \<Rightarrow> policy \<Rightarrow> policy result" where
  "build_auth input p =
     (let v = js_get input ''auth''
      in if v = JUndef then Inr p
         else let auth = string_or v ''none''
              in if auth \<notin> set AUTH_MODES
                 then Inl (Err ''bad_request'' (''auth must be one of '' @ join '', '' AUTH_MODES))
                 else Inr (p\<lparr>auth := auth\<rparr>))"

definition build_password ::
  "(string \<Rightarrow> bytes \<Rightarrow> nat \<Rightarrow> bytes) \<Rightarrow> bytes \<Rightarrow> jsval \<Rightarrow> policy \<Rightarrow> policy result" where
  "build_password scrypt salt input p =
     (let v = js_get input ''password''
      in if \<not> truthy v then Inr p
         else let password = js_string v
              in if length password < 4
                 then Inl (Err ''bad_request'' ''The tunnel password must be at least 4 characters'')
                 else let p' = p\<lparr>passwordHash := Some (hashPassword scrypt salt password)\<rparr>
                      in Inr (if js_get input ''auth'' = JUndef then p'\<lparr>auth := ''password''\<rparr> else p'))"

definition build_finish :: "policy \<Rightarrow> policy result" where
  "build_finish p =
     (if auth p = ''password'' \<and> (passwordHash p = None \<or> passwordHash p = Some [])
      then Inl (Err ''bad_request'' ''Password protection needs a password'')
      else Inr (if auth p \<noteq> ''password'' then p\<lparr>passwordHash := None\<rparr> else p))"

definition buildPolicy ::
  "(string \<Rightarrow> bytes \<Rightarrow> nat \<Rightarrow> bytes) \<Rightarrow> bytes \<Rightarrow> jsval \<Rightarrow> policy \<Rightarrow> policy result" where
  "buildPolicy scrypt salt input previous =
     (let allow = js_get input ''allow''; block = js_get input ''block''
      in bind (set_field (js_get allow ''ips'') ipRules (\<lambda>xs p. p\<lparr>allow_ips := xs\<rparr>) previous) (\<lambda>p.
         bind (set_field (js_get allow ''countries'') countryCodes (\<lambda>xs p. p\<lparr>allow_countries := xs\<rparr>) p) (\<lambda>p.
         bind (set_field (js_get block ''ips'') ipRules (\<lambda>xs p. p\<lparr>block_ips := xs\<rparr>) p) (\<lambda>p.
         bind (set_field (js_get block ''countries'') countryCodes (\<lambda>xs p. p\<lparr>block_countries := xs\<rparr>) p) (\<lambda>p.
         bind (set_field (js_get block ''categories'') categories (\<lambda>xs p. p\<lparr>block_categories := xs\<rparr>) p) (\<lambda>p.
         bind (build_auth input p) (\<lambda>p.
         bind (build_password scrypt salt input p) build_finish)))))))"

record policy_view =
  v_auth :: string
  v_hasPassword :: bool
  v_allow :: "string list \<times> string list"
  v_block :: "string list \<times> string list \<times> string list"

definition describePolicy :: "policy \<Rightarrow> policy_view" where
  "describePolicy p =
     \<lparr>v_auth = auth p, v_hasPassword = (case passwordHash p of None \<Rightarrow> False | Some h \<Rightarrow> h \<noteq> []),
      v_allow = (allow_ips p, allow_countries p),
      v_block = (block_ips p, block_countries p, block_categories p)\<rparr>"

definition hasRules :: "policy \<Rightarrow> bool" where
  "hasRules p \<longleftrightarrow>
     length (allow_ips p) + length (allow_countries p) + length (block_ips p) +
     length (block_countries p) + length (block_categories p) > 0"

definition isRestricted :: "policy \<Rightarrow> bool" where
  "isRestricted p \<longleftrightarrow> auth p \<noteq> ''none'' \<or> hasRules p"

text \<open>list.includes(v) for a list of strings.\<close>

definition js_includes :: "string list \<Rightarrow> jsval \<Rightarrow> bool" where
  "js_includes xs v = (case v of JStr s \<Rightarrow> s \<in> set xs | _ \<Rightarrow> False)"

text \<open>The reason an address is refused, None when it is let in.\<close>

definition evaluate :: "policy \<Rightarrow> string \<Rightarrow> ip_details \<Rightarrow> string option" where
  "evaluate p ip intel =
     (if \<not> hasRules p then None
      else if block_ips p \<noteq> [] \<and> isAllowed ip (block_ips p) then Some ''address''
      else if js_includes (block_countries p) (i_country intel) then Some ''country''
      else (case find (in_category intel) (block_categories p) of
              Some category \<Rightarrow> Some category
            | None \<Rightarrow>
                if allow_ips p \<noteq> [] \<and> \<not> isAllowed ip (allow_ips p) then Some ''address''
                else if allow_countries p \<noteq> [] \<and> \<not> js_includes (allow_countries p) (i_country intel)
                then Some ''country''
                else None))"

text \<open>The separator is a middle dot between blanks.\<close>

definition summarizePolicy :: "policy \<Rightarrow> string option" where
  "summarizePolicy p =
     (let parts =
        (if auth p = ''tunlit'' then [''tunlit login required''] else []) @
        (if auth p = ''password'' then [''password protected''] else []) @
        (if allow_ips p \<noteq> [] then [''allowed: '' @ join '', '' (allow_ips p)] else []) @
        (if allow_countries p \<noteq> [] then [''only '' @ join '', '' (allow_countries p)] else []) @
        (if block_ips p \<noteq> [] then [''blocked: '' @ join '', '' (block_ips p)] else []) @
        (if block_countries p \<noteq> [] then [''not '' @ join '', '' (block_countries p)] else []) @
        (if block_categories p \<noteq> []
         then [''no '' @ join '', '' (map (\<lambda>e. case map_of CATEGORY_LABELS e of
                  Some l \<Rightarrow> l | None \<Rightarrow> []) (block_categories p))]
         else [])
      in if parts = [] then None
         else Some (join ('' '' @ [char_of (183 :: nat)] @ '' '') parts))"

subsection \<open>What the constructors guarantee\<close>

lemma find_None_all: "find P xs = None \<Longrightarrow> x \<in> set xs \<Longrightarrow> \<not> P x"
  by (auto simp: find_None_iff)

definition rules_ok :: "string list \<Rightarrow> bool" where
  "rules_ok rs \<longleftrightarrow> length rs \<le> 64 \<and> list_all (\<lambda>r. parseRule r \<noteq> None) rs"

definition codes_ok :: "string list \<Rightarrow> bool" where
  "codes_ok cs \<longleftrightarrow> distinct cs \<and> list_all country_code cs"

definition policy_wf :: "policy \<Rightarrow> bool" where
  "policy_wf p \<longleftrightarrow>
     auth p \<in> set AUTH_MODES \<and>
     (auth p = ''password'' \<longleftrightarrow> passwordHash p \<noteq> None) \<and> passwordHash p \<noteq> Some [] \<and>
     rules_ok (allow_ips p) \<and> rules_ok (block_ips p) \<and>
     codes_ok (allow_countries p) \<and> codes_ok (block_countries p) \<and>
     distinct (block_categories p) \<and> set (block_categories p) \<subseteq> set CATEGORIES"

lemma ipRules_ok: "ipRules v = Inr rs \<Longrightarrow> rules_ok rs"
  by (auto simp: ipRules_def rules_ok_def Let_def list_all_iff find_None_iff
      split: option.splits if_splits)

lemma countryCodes_ok: "countryCodes v = Inr cs \<Longrightarrow> codes_ok cs"
  by (auto simp: countryCodes_def codes_ok_def Let_def list_all_iff find_None_iff
      split: option.splits)

lemma categories_ok: "categories v = Inr cs \<Longrightarrow> distinct cs \<and> set cs \<subseteq> set CATEGORIES"
  by (auto simp: categories_def Let_def find_None_iff split: option.splits)

lemma set_field_Inr:
  "set_field v parse put p = Inr q \<longleftrightarrow> (if v = JUndef then q = p else \<exists>xs. parse v = Inr xs \<and> q = put xs p)"
  by (auto simp: set_field_def split: sum.splits)

lemma build_auth_Inr:
  "build_auth i p = Inr q \<Longrightarrow> \<exists>a. q = p\<lparr>auth := a\<rparr> \<and> (a = auth p \<or> a \<in> set AUTH_MODES)"
proof -
  assume "build_auth i p = Inr q"
  then consider "q = p" | a where "q = p\<lparr>auth := a\<rparr>" "a \<in> set AUTH_MODES"
    by (auto simp: build_auth_def Let_def split: if_splits)
  then show ?thesis
  proof cases
    case 1
    then show ?thesis by (intro exI [of _ "auth p"]) simp
  qed blast
qed

lemma build_password_Inr:
  "build_password sc salt i p = Inr q \<Longrightarrow>
   \<exists>a h. q = p\<lparr>auth := a, passwordHash := h\<rparr> \<and> (a = auth p \<or> a = ''password'') \<and>
     (h = passwordHash p \<or> (\<exists>x. x \<noteq> [] \<and> h = Some x))"
proof -
  assume b: "build_password sc salt i p = Inr q"
  have ne: "hashPassword sc salt x \<noteq> []" for x by (simp add: hashPassword_def)
  from b consider "q = p"
    | x where "q = p\<lparr>passwordHash := Some (hashPassword sc salt x)\<rparr>"
    | x where "q = p\<lparr>passwordHash := Some (hashPassword sc salt x), auth := ''password''\<rparr>"
    by (auto simp: build_password_def Let_def split: if_splits)
  then show ?thesis
  proof cases
    case 1
    then show ?thesis by (intro exI [of _ "auth p"] exI [of _ "passwordHash p"]) simp
  next
    case (2 x)
    then show ?thesis using ne
      by (intro exI [of _ "auth p"] exI [of _ "Some (hashPassword sc salt x)"]) simp
  next
    case (3 x)
    then show ?thesis using ne
      by (intro exI [of _ "''password''"] exI [of _ "Some (hashPassword sc salt x)"]) simp
  qed
qed

text \<open>The fields a policy needs before the authentication part is settled.\<close>

definition lists_wf :: "policy \<Rightarrow> bool" where
  "lists_wf p \<longleftrightarrow> rules_ok (allow_ips p) \<and> rules_ok (block_ips p) \<and>
     codes_ok (allow_countries p) \<and> codes_ok (block_countries p) \<and>
     distinct (block_categories p) \<and> set (block_categories p) \<subseteq> set CATEGORIES"

lemma build_finish_wf:
  "build_finish p = Inr q \<Longrightarrow> lists_wf p \<Longrightarrow> auth p \<in> set AUTH_MODES \<Longrightarrow> policy_wf q"
  by (auto simp: build_finish_def policy_wf_def lists_wf_def split: if_splits)

text \<open>
  C28. Whatever a client sends, a policy that is accepted is well formed: the mode is one of
  the three known ones, a password hash is stored exactly in password mode, every IP rule
  parses (at most 64 of them), country codes are two capital letters without repetition and
  categories are known ones. Anything else is refused with an error.
\<close>

theorem buildPolicy_wf:
  assumes "policy_wf previous" "buildPolicy scrypt salt input previous = Inr p"
  shows "policy_wf p"
proof -
  from assms(2) obtain a b c d e f g where
    a: "set_field (js_get (js_get input ''allow'') ''ips'') ipRules (\<lambda>xs p. p\<lparr>allow_ips := xs\<rparr>) previous = Inr a"
    and b: "set_field (js_get (js_get input ''allow'') ''countries'') countryCodes (\<lambda>xs p. p\<lparr>allow_countries := xs\<rparr>) a = Inr b"
    and c: "set_field (js_get (js_get input ''block'') ''ips'') ipRules (\<lambda>xs p. p\<lparr>block_ips := xs\<rparr>) b = Inr c"
    and d: "set_field (js_get (js_get input ''block'') ''countries'') countryCodes (\<lambda>xs p. p\<lparr>block_countries := xs\<rparr>) c = Inr d"
    and e: "set_field (js_get (js_get input ''block'') ''categories'') categories (\<lambda>xs p. p\<lparr>block_categories := xs\<rparr>) d = Inr e"
    and f: "build_auth input e = Inr f" and g: "build_password scrypt salt input f = Inr g"
    and p: "build_finish g = Inr p"
    unfolding buildPolicy_def Let_def bind_Inr by blast
  have prev: "lists_wf previous" "auth previous \<in> set AUTH_MODES"
    using assms(1) by (auto simp: policy_wf_def lists_wf_def)
  have "lists_wf a \<and> auth a = auth previous"
    using a prev by (auto simp: set_field_Inr lists_wf_def split: if_splits dest: ipRules_ok)
  then have "lists_wf b \<and> auth b = auth previous"
    using b by (auto simp: set_field_Inr lists_wf_def split: if_splits dest: countryCodes_ok)
  then have "lists_wf c \<and> auth c = auth previous"
    using c by (auto simp: set_field_Inr lists_wf_def split: if_splits dest: ipRules_ok)
  then have "lists_wf d \<and> auth d = auth previous"
    using d by (auto simp: set_field_Inr lists_wf_def split: if_splits dest: countryCodes_ok)
  then have e': "lists_wf e \<and> auth e = auth previous"
    using e by (auto simp: set_field_Inr lists_wf_def split: if_splits dest!: categories_ok)
  obtain m where "f = e\<lparr>auth := m\<rparr>" "m = auth e \<or> m \<in> set AUTH_MODES"
    using build_auth_Inr [OF f] by blast
  then have "lists_wf f \<and> auth f \<in> set AUTH_MODES" using e' prev by (auto simp: lists_wf_def)
  moreover obtain m' h where "g = f\<lparr>auth := m', passwordHash := h\<rparr>" "m' = auth f \<or> m' = ''password''"
    using build_password_Inr [OF g] by blast
  ultimately have "lists_wf g" "auth g \<in> set AUTH_MODES" by (auto simp: lists_wf_def AUTH_MODES_def)
  then show ?thesis using build_finish_wf [OF p] by blast
qed

definition sample_input :: jsval where
  "sample_input = JObj [(''password'', JStr ''hunter2''),
     (''allow'', JObj [(''ips'', JStr ''10.0.0.0/8, 192.168.1.4'')]),
     (''block'', JObj [(''countries'', JArr [JStr ''de'', JStr ''DE'', JStr ''fr'']),
                     (''categories'', JStr ''tor'')])]"

theorem buildPolicy_wf_witness:
  "\<exists>p. buildPolicy (\<lambda>p s n. replicate n 7) [1, 2] sample_input emptyPolicy = Inr p \<and> policy_wf p \<and>
     block_countries p = [''DE'', ''FR''] \<and> auth p = ''password''"
proof -
  have e: "policy_wf emptyPolicy"
    by (simp add: policy_wf_def emptyPolicy_def AUTH_MODES_def rules_ok_def codes_ok_def)
  have "case buildPolicy (\<lambda>p s n. replicate n 7) [1, 2] sample_input emptyPolicy of
      Inl _ \<Rightarrow> False | Inr p \<Rightarrow> block_countries p = [''DE'', ''FR''] \<and> auth p = ''password''"
    by code_simp
  then show ?thesis using buildPolicy_wf [OF e] by (auto split: sum.splits)
qed

text \<open>
  C18. The decision on an address: it is let in exactly when no block rule covers it, its
  country is not blocked, it is in no blocked category, it matches the allow list of
  addresses if there is one, and its country is allowed if countries are listed. Blocking
  wins over allowing.
\<close>

theorem evaluate_admits:
  "evaluate p ip intel = None \<longleftrightarrow>
     \<not> (\<exists>r \<in> set (block_ips p). \<exists>rule. parseRule r = Some rule \<and> matchesRule ip rule) \<and>
     \<not> (\<exists>c \<in> set (block_countries p). i_country intel = JStr c) \<and>
     \<not> (\<exists>c \<in> set (block_categories p). in_category intel c) \<and>
     (allow_ips p = [] \<or> (\<exists>r \<in> set (allow_ips p). \<exists>rule. parseRule r = Some rule \<and> matchesRule ip rule)) \<and>
     (allow_countries p = [] \<or> (\<exists>c \<in> set (allow_countries p). i_country intel = JStr c))"
proof -
  have hit: "isAllowed ip rs \<longleftrightarrow> rs = [] \<or>
      (\<exists>r \<in> set rs. \<exists>rule. parseRule r = Some rule \<and> matchesRule ip rule)" for rs
    by (auto simp: isAllowed_def split: option.splits)
  have inc: "js_includes cs v \<longleftrightarrow> (\<exists>c \<in> set cs. v = JStr c)" for cs v
    by (cases v) (auto simp: js_includes_def)
  have none: "find (in_category intel) cs = None \<longleftrightarrow> \<not> (\<exists>c \<in> set cs. in_category intel c)" for cs
    by (auto simp: find_None_iff)
  show ?thesis
  proof (cases "hasRules p")
    case False
    then show ?thesis by (auto simp: evaluate_def hasRules_def)
  next
    case True
    then show ?thesis
      unfolding evaluate_def hit inc none [symmetric] by (auto split: option.splits)
  qed
qed

text \<open>An unrestricted tunnel admits everyone.\<close>

lemma unrestricted_admits: "\<not> isRestricted p \<Longrightarrow> evaluate p ip intel = None"
  by (simp add: isRestricted_def evaluate_def)

end
