(* ===== verification/OnceStore.thy ===== *)
theory OnceStore
  imports Prelude
begin

text \<open>
  Single-use secrets with a lifetime. The server keeps several: the sign-in states of OIDC
  (src/server/lib/oidc.js), the challenges of passkeys (src/server/lib/passkeys.js) and the
  hand-over codes of protected tunnels (src/server/lib/access.js). The first two share the
  same pair of functions remember and take, modelled here with the lifetime as an argument;
  what all three promise is the locale once_store.
\<close>

type_synonym ('k, 'v) timed = "('k, time \<times> 'v) jsmap"

definition remember :: "time \<Rightarrow> 'k \<Rightarrow> time \<Rightarrow> 'v \<Rightarrow> ('k, 'v) timed \<Rightarrow> ('k, 'v) timed" where
  "remember lifetime key now v m =
     map_set key (now, v) (filter (\<lambda>(k, at, _). \<not> now - at > lifetime) m)"

definition take_entry :: "time \<Rightarrow> 'k \<Rightarrow> time \<Rightarrow> ('k, 'v) timed \<Rightarrow> ('k, 'v) timed \<times> 'v option" where
  "take_entry lifetime key now m =
     (map_delete key m,
      case map_get m key of
        None \<Rightarrow> None
      | Some (at, v) \<Rightarrow> if now - at > lifetime then None else Some v)"

datatype ('k, 'v) once_op = Put 'k 'v | Take 'k

text \<open>A run of operations, each at its time; the results are those of the Take operations
  (None for a Put).\<close>

fun once_run ::
  "('k \<Rightarrow> time \<Rightarrow> 'v \<Rightarrow> 's \<Rightarrow> 's) \<Rightarrow> ('k \<Rightarrow> time \<Rightarrow> 's \<Rightarrow> 's \<times> 'v option) \<Rightarrow>
   (time \<times> ('k, 'v) once_op) list \<Rightarrow> 's \<Rightarrow> 's \<times> ('k \<times> 'v option) list" where
  "once_run put tk [] s = (s, [])"
| "once_run put tk ((t, Put k v) # ops) s = once_run put tk ops (put k t v s)"
| "once_run put tk ((t, Take k) # ops) s =
     (case tk k t s of (s1, r) \<Rightarrow>
        (case once_run put tk ops s1 of (s2, rs) \<Rightarrow> (s2, (k, r) # rs)))"

definition puts :: "'k \<Rightarrow> (time \<times> ('k, 'v) once_op) list \<Rightarrow> bool" where
  "puts k ops \<longleftrightarrow> (\<exists>t v. (t, Put k v) \<in> set ops)"

definition hits :: "'k \<Rightarrow> ('k \<times> 'v option) list \<Rightarrow> nat" where
  "hits k rs = length (filter (\<lambda>(k', r). k' = k \<and> r \<noteq> None) rs)"

lemma puts_Cons [simp]:
  "puts k ((t, Put k' v) # ops) \<longleftrightarrow> k' = k \<or> puts k ops" "puts k ((t, Take k') # ops) \<longleftrightarrow> puts k ops"
  by (auto simp: puts_def)

lemma hits_Nil [simp]: "hits k [] = 0"
  by (simp add: hits_def)

lemma hits_Cons [simp]: "hits k ((k', r) # rs) = (if k' = k \<and> r \<noteq> None then 1 else 0) + hits k rs"
  by (simp add: hits_def)

locale once_store =
  fixes put :: "'k \<Rightarrow> time \<Rightarrow> 'v \<Rightarrow> 's \<Rightarrow> 's"
    and tk :: "'k \<Rightarrow> time \<Rightarrow> 's \<Rightarrow> 's \<times> 'v option"
    and lifetime :: time
    and inv :: "'s \<Rightarrow> bool"
  assumes take_put: "inv s \<Longrightarrow> snd (tk k t' (put k t v s)) = (if t' - t > lifetime then None else Some v)"
    and take_twice: "inv s \<Longrightarrow> snd (tk k t' (fst (tk k t s))) = None"
    and put_other: "inv s \<Longrightarrow> k' \<noteq> k \<Longrightarrow> t \<le> t' \<Longrightarrow> snd (tk k' t' (put k t v s)) = snd (tk k' t' s)"
    and take_other: "inv s \<Longrightarrow> k' \<noteq> k \<Longrightarrow> snd (tk k' t' (fst (tk k t s))) = snd (tk k' t' s)"
    and inv_put: "inv s \<Longrightarrow> inv (put k t v s)"
    and inv_take: "inv s \<Longrightarrow> inv (fst (tk k t s))"
begin

lemma gone_stays_gone:
  assumes "inv s" "sorted (map fst ops)" "\<forall>t' \<ge> t0. snd (tk k t' s) = None"
    "\<forall>t \<in> fst ` set ops. t0 \<le> t" "\<not> puts k ops"
  shows "hits k (snd (once_run put tk ops s)) = 0"
  using assms
proof (induction ops arbitrary: s t0)
  case Nil
  then show ?case by simp
next
  case (Cons x ops)
  obtain t op where x: "x = (t, op)" by (cases x)
  have later: "\<forall>u \<in> fst ` set ops. t \<le> u" and srt: "sorted (map fst ops)"
    using Cons.prems(2) x by auto
  have t: "t0 \<le> t" using Cons.prems(4) x by simp
  show ?case
  proof (cases op)
    case (Put k' v)
    then have "k' \<noteq> k" "\<not> puts k ops" using Cons.prems(5) x by auto
    then have "\<forall>t' \<ge> t. snd (tk k t' (put k' t v s)) = None"
      using put_other [of s k k' t _ v] Cons.prems(1,3) t by auto
    then show ?thesis
      using Cons.IH [of "put k' t v s" t] Cons.prems(1) srt later \<open>\<not> puts k ops\<close> Put x
      by (simp add: inv_put)
  next
    case (Take k')
    obtain s1 r where s1: "tk k' t s = (s1, r)" by (cases "tk k' t s")
    have "\<forall>t' \<ge> t. snd (tk k t' s1) = None"
      using take_twice [of s k _ t] take_other [of s k k' _ t] Cons.prems(1,3) t s1
      by (cases "k' = k") auto
    then have "hits k (snd (once_run put tk ops s1)) = 0"
      using Cons.IH [of s1 t] Cons.prems(1,5) srt later Take x s1 inv_take [of s k' t] by simp
    moreover have "k' = k \<longrightarrow> r = None" using Cons.prems(3) t s1 by auto
    ultimately show ?thesis using Take x s1 by (auto split: prod.splits)
  qed
qed

text \<open>A secret is handed out at most once.\<close>

lemma single_use:
  assumes "inv s" "sorted (map fst ops)" "\<not> puts k ops"
  shows "hits k (snd (once_run put tk ops s)) \<le> 1"
  using assms
proof (induction ops arbitrary: s)
  case Nil
  then show ?case by simp
next
  case (Cons x ops)
  obtain t op where x: "x = (t, op)" by (cases x)
  show ?case
  proof (cases op)
    case (Put k' v)
    then show ?thesis using Cons x by (simp add: inv_put)
  next
    case (Take k')
    obtain s1 r where s1: "tk k' t s = (s1, r)" by (cases "tk k' t s")
    have i1: "inv s1" using inv_take [of s k' t] Cons.prems(1) s1 by simp
    have tail: "hits k (snd (once_run put tk ops s1)) \<le> 1"
      using Cons.IH [OF i1] Cons.prems Take x by simp
    moreover have "hits k (snd (once_run put tk ops s1)) = 0" if "k' = k"
      using gone_stays_gone [OF i1, of ops t k] take_twice [of s k _ t] Cons.prems s1 that Take x
      by simp
    ultimately show ?thesis using Take x s1 by (auto split: prod.splits)
  qed
qed

text \<open>And only within its lifetime, whatever else happens to the store in between.\<close>

lemma lifetime_kept:
  assumes "inv s" "sorted (map fst ops)" "\<forall>u \<in> fst ` set ops. u \<le> t'"
    "\<not> puts k ops" "\<forall>u. (u, Take k) \<notin> set ops"
  shows "snd (tk k t' (fst (once_run put tk ops s))) = snd (tk k t' s)"
  using assms
proof (induction ops arbitrary: s)
  case Nil
  then show ?case by simp
next
  case (Cons x ops)
  obtain t op where x: "x = (t, op)" by (cases x)
  show ?case
  proof (cases op)
    case (Put k' v)
    then show ?thesis
      using Cons.IH [of "put k' t v s"] Cons.prems x put_other [of s k k' t t' v] by (auto simp: inv_put)
  next
    case (Take k')
    then have "k' \<noteq> k" using Cons.prems(5) x by auto
    then show ?thesis
      using Cons.IH [of "fst (tk k' t s)"] Cons.prems x Take take_other [of s k k' t' t] inv_take [of s k' t]
      by (auto split: prod.splits)
  qed
qed

end

lemma wf_remember: "wf_map m \<Longrightarrow> wf_map (remember l k t v m)"
  unfolding remember_def by (intro wf_map_set wf_map_filter)

lemma remember_get:
  assumes "wf_map m"
  shows "map_get (remember l k t v m) k' =
     (if k' = k then Some (t, v)
      else case map_get m k' of None \<Rightarrow> None | Some (at, w) \<Rightarrow> if t - at > l then None else Some (at, w))"
  by (auto simp: remember_def map_of_filter_entries [OF assms] split: option.splits)

interpretation timed: once_store "remember l" "take_entry l" l wf_map for l
proof unfold_locales
  fix s :: "('a, 'b) timed" and k k' :: 'a and t t' :: time and v :: 'b
  show "wf_map s \<Longrightarrow> snd (take_entry l k t' (remember l k t v s)) = (if t' - t > l then None else Some v)"
    by (simp add: take_entry_def remember_get)
  show "wf_map s \<Longrightarrow> snd (take_entry l k t' (fst (take_entry l k t s))) = None"
    by (simp add: take_entry_def)
  show "wf_map s \<Longrightarrow> k' \<noteq> k \<Longrightarrow> t \<le> t' \<Longrightarrow>
      snd (take_entry l k' t' (remember l k t v s)) = snd (take_entry l k' t' s)"
    by (auto simp: take_entry_def remember_get split: option.splits)
  show "wf_map s \<Longrightarrow> k' \<noteq> k \<Longrightarrow> snd (take_entry l k' t' (fst (take_entry l k t s))) = snd (take_entry l k' t' s)"
    by (simp add: take_entry_def)
  show "wf_map s \<Longrightarrow> wf_map (remember l k t v s)" by (rule wf_remember)
  show "wf_map s \<Longrightarrow> wf_map (fst (take_entry l k t s))" by (simp add: take_entry_def wf_map_delete)
qed

end
