(* ===== verification/Base64.thy ===== *)
theory Base64
  imports Js Bytes
begin

text \<open>
  Node's base64 codec as the server uses it: encoding with padding, and the lenient decoder
  that takes both alphabets and skips characters outside them.
\<close>

definition b64_char :: "nat \<Rightarrow> char" where
  "b64_char n =
     (if n < 26 then char_of (65 + n) else if n < 52 then char_of (71 + n)
      else if n < 62 then char_of (n - 4) else if n = 62 then CHR ''+'' else CHR ''/'')"

definition b64_index :: "char \<Rightarrow> nat option" where
  "b64_index c =
     (if is_upper c then Some (ord c - 65) else if is_lower c then Some (ord c - 71)
      else if is_digit c then Some (ord c + 4)
      else if c = CHR ''+'' \<or> c = CHR ''-'' then Some 62
      else if c = CHR ''/'' \<or> c = CHR ''_'' then Some 63 else None)"

fun b64_encode :: "bytes \<Rightarrow> string" where
  "b64_encode (x # y # z # bs) =
     [b64_char (unat x div 4), b64_char (unat x mod 4 * 16 + unat y div 16),
      b64_char (unat y mod 16 * 4 + unat z div 64), b64_char (unat z mod 64)] @ b64_encode bs"
| "b64_encode [x, y] =
     [b64_char (unat x div 4), b64_char (unat x mod 4 * 16 + unat y div 16),
      b64_char (unat y mod 16 * 4), CHR ''='']"
| "b64_encode [x] = [b64_char (unat x div 4), b64_char (unat x mod 4 * 16), CHR ''='', CHR ''='']"
| "b64_encode [] = []"

fun b64_groups :: "nat list \<Rightarrow> bytes" where
  "b64_groups (a # b # c # d # r) =
     [of_nat (a * 4 + b div 16), of_nat (b mod 16 * 16 + c div 4), of_nat (c mod 4 * 64 + d)] @
     b64_groups r"
| "b64_groups [a, b, c] = [of_nat (a * 4 + b div 16), of_nat (b mod 16 * 16 + c div 4)]"
| "b64_groups [a, b] = [of_nat (a * 4 + b div 16)]"
| "b64_groups _ = []"

definition b64_decode :: "string \<Rightarrow> bytes" where
  "b64_decode s = b64_groups (List.map_filter b64_index s)"

lemma b64_index_char: "n < 64 \<Longrightarrow> b64_index (b64_char n) = Some n"
proof -
  assume n: "n < 64"
  consider "n < 26" | "26 \<le> n" "n < 52" | "52 \<le> n" "n < 62" | "n = 62" | "n = 63" using n by linarith
  then show ?thesis by cases (auto simp: b64_char_def b64_index_def js_simps)
qed

lemma b64_index_pad [simp]: "b64_index CHR ''='' = None"
  by (simp add: b64_index_def js_simps)

lemma byte_less_256: "unat (x :: byte) < 256"
  using unsigned_less [of x] by simp

lemma byte_parts:
  fixes x :: byte
  shows "unat x div 16 div 16 = 0" "unat x div 64 div 4 = 0" "unat x div 16 mod 16 = unat x div 16"
    "unat x div 64 mod 4 = unat x div 64"
  using byte_less_256 [of x] by (simp_all add: div_mult2_eq [symmetric])

lemma six_bits:
  fixes x y z :: byte
  shows "unat x div 4 < 64" "unat x mod 4 * 16 + unat y div 16 < 64"
    "unat y mod 16 * 4 + unat z div 64 < 64" "unat x mod 4 * 16 < 64" "unat y mod 16 * 4 < 64"
proof -
  have q: "unat y div 16 < 16" "unat z div 64 < 4" using byte_less_256 by (simp_all add: less_mult_imp_div_less)
  have r: "unat x mod 4 < 4" "unat y mod 16 < 16" by simp_all
  show "unat x div 4 < 64" using byte_less_256 [of x] by (simp add: less_mult_imp_div_less)
  show "unat x mod 4 * 16 + unat y div 16 < 64" using q(1) r(1) by linarith
  show "unat y mod 16 * 4 + unat z div 64 < 64" using q(2) r(2) by linarith
  show "unat x mod 4 * 16 < 64" "unat y mod 16 * 4 < 64" using r by linarith+
qed

lemma b64_roundtrip: "b64_decode (b64_encode bs) = bs"
proof (induction bs rule: b64_encode.induct)
  case (1 x y z bs)
  then show ?case
    by (simp add: b64_decode_def List.map_filter_simps b64_index_char six_bits byte_parts
        del: of_nat_add of_nat_mult)
next
  case (2 x y)
  show ?case
    by (simp add: b64_decode_def List.map_filter_simps b64_index_char six_bits byte_parts
        del: of_nat_add of_nat_mult)
next
  case (3 x)
  show ?case
    by (simp add: b64_decode_def List.map_filter_simps b64_index_char six_bits byte_parts
        del: of_nat_add of_nat_mult)
next
  case 4
  show ?case by (simp add: b64_decode_def List.map_filter_simps)
qed

end
