(* ===== verification/AccessStore.thy ===== *)
theory AccessStore
  imports Ids OnceStore Base64
begin

text \<open>
  Access tokens and hand-over codes of protected tunnels (class AccessStore and the cookie
  and credential helpers at the end of src/server/lib/access.js). Random bytes and the clock
  are arguments.
\<close>

definition COOKIE_NAME :: string where
  "COOKIE_NAME = ''tunlit-access''"

definition TTL :: time where
  "TTL = 12 * 60 * 60 * 1000"

definition CODE_TTL :: time where
  "CODE_TTL = 60 * 1000"

record access_token =
  t_tunnelId :: string
  t_expiresAt :: time

record access_code =
  c_tunnelId :: string
  c_host :: string
  c_expiresAt :: time

record access_store =
  ttl :: time
  tokens :: "(string, access_token) jsmap"
  codes :: "(string, access_code) jsmap"

definition new_AccessStore :: "time \<Rightarrow> access_store" where
  "new_AccessStore t = \<lparr>ttl = t, tokens = [], codes = []\<rparr>"

definition create :: "bytes \<Rightarrow> time \<Rightarrow> string \<Rightarrow> access_store \<Rightarrow> access_store \<times> string" where
  "create rnd now tunnelId s =
     (let token = randomToken rnd
      in (s\<lparr>tokens := map_set token \<lparr>t_tunnelId = tunnelId, t_expiresAt = now + ttl s\<rparr> (tokens s)\<rparr>, token))"

definition store_code :: "string \<Rightarrow> time \<Rightarrow> string \<times> string \<Rightarrow> access_store \<Rightarrow> access_store" where
  "store_code code now entry s =
     s\<lparr>codes := map_set code \<lparr>c_tunnelId = fst entry, c_host = snd entry, c_expiresAt = now + CODE_TTL\<rparr> (codes s)\<rparr>"

definition issueCode :: "bytes \<Rightarrow> time \<Rightarrow> string \<Rightarrow> string \<Rightarrow> access_store \<Rightarrow> access_store \<times> string" where
  "issueCode rnd now tunnelId host s =
     (let code = randomToken rnd in (store_code code now (tunnelId, host) s, code))"

text \<open>The first half of redeem: the entry is removed whether or not it is still good.\<close>

definition take_code :: "string \<Rightarrow> time \<Rightarrow> access_store \<Rightarrow> access_store \<times> (string \<times> string) option" where
  "take_code code now s =
     (case map_get (codes s) code of
        None \<Rightarrow> (s, None)
      | Some e \<Rightarrow>
          (s\<lparr>codes := map_delete code (codes s)\<rparr>,
           if c_expiresAt e < now then None else Some (c_tunnelId e, c_host e)))"

definition redeem ::
  "bytes \<Rightarrow> time \<Rightarrow> string \<Rightarrow> string \<Rightarrow> access_store \<Rightarrow> access_store \<times> string option" where
  "redeem rnd now code host s =
     (if code = [] then (s, None)
      else (case take_code code now s of
              (s', None) \<Rightarrow> (s', None)
            | (s', Some (tunnelId, h)) \<Rightarrow>
                if h \<noteq> host then (s', None)
                else (case create rnd now tunnelId s' of (s'', token) \<Rightarrow> (s'', Some token))))"

definition allows :: "time \<Rightarrow> string \<Rightarrow> string \<Rightarrow> access_store \<Rightarrow> access_store \<times> bool" where
  "allows now token tunnelId s =
     (if token = [] then (s, False)
      else (case map_get (tokens s) token of
              None \<Rightarrow> (s, False)
            | Some e \<Rightarrow>
                if t_expiresAt e < now then (s\<lparr>tokens := map_delete token (tokens s)\<rparr>, False)
                else (s, t_tunnelId e = tunnelId)))"

definition forget_tunnel :: "string \<Rightarrow> access_store \<Rightarrow> access_store" where
  "forget_tunnel tunnelId s = s\<lparr>tokens := filter (\<lambda>(_, e). t_tunnelId e \<noteq> tunnelId) (tokens s)\<rparr>"

definition sweep :: "time \<Rightarrow> access_store \<Rightarrow> access_store" where
  "sweep now s =
     s\<lparr>tokens := filter (\<lambda>(_, e). \<not> t_expiresAt e < now) (tokens s),
       codes := filter (\<lambda>(_, e). \<not> c_expiresAt e < now) (codes s)\<rparr>"

subsection \<open>Cookies and credentials of a request\<close>

definition cookieFor :: "string \<Rightarrow> bool \<Rightarrow> string" where
  "cookieFor token secure =
     COOKIE_NAME @ ''='' @ token @ ''; Path=/; HttpOnly; SameSite=Lax; Max-Age='' @
     show_int (TTL div 1000) @ (if secure then ''; Secure'' else [])"

text \<open>The name and value of one part of a Cookie header, None without an equals sign.\<close>

definition cookie_part :: "string \<Rightarrow> (string \<times> string) option" where
  "cookie_part part =
     (case index_of ''='' part of
        None \<Rightarrow> None
      | Some i \<Rightarrow> Some (trim (take i part), trim (drop (i + 1) part)))"

definition tokenFromRequest :: "string \<Rightarrow> string option" where
  "tokenFromRequest cookie =
     map_of (List.map_filter cookie_part (split_on CHR '';'' cookie)) COOKIE_NAME"

text \<open>The match of \<open>^Scheme\s+(.+)$\<close>, ignoring case, in a trimmed header.\<close>

definition scheme_match :: "string \<Rightarrow> string \<Rightarrow> string option" where
  "scheme_match scheme header =
     (let h = trim header; n = length scheme; r = drop n h; m = dropWhile is_space r
      in if to_lower (take n h) = to_lower scheme \<and> r \<noteq> [] \<and> is_space (hd r) \<and> m \<noteq> [] \<and>
            list_all (\<lambda>c. ord c \<noteq> 10 \<and> ord c \<noteq> 13) m
         then Some m else None)"

definition basicCredentials :: "string option \<Rightarrow> (string \<times> string) option" where
  "basicCredentials authorization =
     (case authorization of
        None \<Rightarrow> None
      | Some header \<Rightarrow>
          (case scheme_match ''Basic'' header of
             None \<Rightarrow> None
           | Some m \<Rightarrow>
               (let decoded = latin1 (b64_decode m)
                in case index_of '':'' decoded of
                     None \<Rightarrow> None
                   | Some i \<Rightarrow> Some (take i decoded, drop (i + 1) decoded))))"

subsection \<open>The codes are single-use secrets\<close>

definition store_wf :: "access_store \<Rightarrow> bool" where
  "store_wf s \<longleftrightarrow> wf_map (tokens s) \<and> wf_map (codes s)"

lemma store_wf_ops [map_inv]:
  "store_wf s \<Longrightarrow> store_wf (fst (create rnd now t s))"
  "store_wf s \<Longrightarrow> store_wf (store_code c now e s)"
  "store_wf s \<Longrightarrow> store_wf (fst (take_code c now s))"
  "store_wf s \<Longrightarrow> store_wf (fst (allows now tok t s))"
  "store_wf s \<Longrightarrow> store_wf (forget_tunnel t s)"
  "store_wf s \<Longrightarrow> store_wf (sweep now s)"
  by (auto simp: store_wf_def create_def store_code_def take_code_def allows_def forget_tunnel_def
      sweep_def Let_def intro!: wf_map_set wf_map_delete wf_map_filter split: option.splits)

interpretation ac: once_store store_code take_code CODE_TTL store_wf
proof unfold_locales
  fix s :: access_store and k k' :: string and t t' :: time and v :: "string \<times> string"
  show "store_wf s \<Longrightarrow> snd (take_code k t' (store_code k t v s)) = (if t' - t > CODE_TTL then None else Some v)"
    by (auto simp: take_code_def store_code_def)
  show "store_wf s \<Longrightarrow> snd (take_code k t' (fst (take_code k t s))) = None"
    by (auto simp: take_code_def split: option.splits)
  show "store_wf s \<Longrightarrow> k' \<noteq> k \<Longrightarrow> t \<le> t' \<Longrightarrow>
      snd (take_code k' t' (store_code k t v s)) = snd (take_code k' t' s)"
    by (auto simp: take_code_def store_code_def split: option.splits)
  show "store_wf s \<Longrightarrow> k' \<noteq> k \<Longrightarrow> snd (take_code k' t' (fst (take_code k t s))) = snd (take_code k' t' s)"
    by (auto simp: take_code_def split: option.splits)
  show "store_wf s \<Longrightarrow> store_wf (store_code k t v s)" by (rule store_wf_ops)
  show "store_wf s \<Longrightarrow> store_wf (fst (take_code k t s))" by (rule store_wf_ops)
qed

subsection \<open>Runs of the store\<close>

datatype access_op =
    OCreate bytes string
  | OIssue bytes string string
  | ORedeem bytes string string
  | OAllows string string
  | OForget string
  | OSweep

text \<open>One operation at a time; the flag tells whether it redeemed a code.\<close>

fun access_step :: "time \<Rightarrow> access_op \<Rightarrow> access_store \<Rightarrow> access_store \<times> bool" where
  "access_step now (OCreate rnd t) s = (fst (create rnd now t s), False)"
| "access_step now (OIssue rnd t h) s = (fst (issueCode rnd now t h s), False)"
| "access_step now (ORedeem rnd c h) s = (fst (redeem rnd now c h s), snd (redeem rnd now c h s) \<noteq> None)"
| "access_step now (OAllows tok t) s = (fst (allows now tok t s), False)"
| "access_step now (OForget t) s = (forget_tunnel t s, False)"
| "access_step now OSweep s = (sweep now s, False)"

fun redeems :: "string \<Rightarrow> (time \<times> access_op) list \<Rightarrow> access_store \<Rightarrow> nat" where
  "redeems code [] s = 0"
| "redeems code ((now, op) # ops) s =
     (case access_step now op s of (s', ok) \<Rightarrow>
        (if ok \<and> (\<exists>rnd h. op = ORedeem rnd code h) then 1 else 0) + redeems code ops s')"

fun access_run :: "(time \<times> access_op) list \<Rightarrow> access_store \<Rightarrow> access_store" where
  "access_run [] s = s"
| "access_run ((now, op) # ops) s = access_run ops (fst (access_step now op s))"

definition issues :: "string \<Rightarrow> access_op \<Rightarrow> bool" where
  "issues code op = (case op of OIssue rnd _ _ \<Rightarrow> randomToken rnd = code | _ \<Rightarrow> False)"

definition tries :: "string \<Rightarrow> access_op \<Rightarrow> bool" where
  "tries code op = (case op of ORedeem _ c _ \<Rightarrow> c = code | _ \<Rightarrow> False)"

lemma create_codes [simp]: "codes (fst (create rnd now t s)) = codes s"
  by (simp add: create_def Let_def)

lemma redeem_codes:
  "codes (fst (redeem rnd now c h s)) = (if c = [] then codes s else codes (fst (take_code c now s)))"
  by (auto simp: redeem_def create_def Let_def split: option.splits prod.splits)

lemma redeem_wf: "store_wf s \<Longrightarrow> store_wf (fst (redeem rnd now c h s))"
  using store_wf_ops(3) [of s c now] store_wf_ops(1)
  by (auto simp: redeem_def split: option.splits prod.splits) (metis fst_conv)

lemma access_step_wf: "store_wf s \<Longrightarrow> store_wf (fst (access_step now op s))"
  by (cases op) (auto simp: issueCode_def Let_def redeem_wf intro: store_wf_ops)

text \<open>A step that does not issue the code never adds it; one that tries it removes it.\<close>

lemma access_step_codes:
  "store_wf s \<Longrightarrow> \<not> issues code op \<Longrightarrow>
   map_get (codes (fst (access_step now op s))) code = map_get (codes s) code \<or>
   map_get (codes (fst (access_step now op s))) code = None"
  by (cases op)
    (auto simp: issues_def issueCode_def store_code_def redeem_codes take_code_def allows_def
      forget_tunnel_def sweep_def Let_def map_of_filter_entries store_wf_def split: option.splits)

lemma redeemed_removes:
  "store_wf s \<Longrightarrow> snd (redeem rnd now code h s) \<noteq> None \<Longrightarrow>
   map_get (codes s) code \<noteq> None \<and> map_get (codes (fst (redeem rnd now code h s))) code = None"
  by (auto simp: redeem_def take_code_def create_def Let_def split: option.splits prod.splits if_splits)

lemma redeems_gone:
  "store_wf s \<Longrightarrow> \<forall>op \<in> snd ` set ops. \<not> issues code op \<Longrightarrow> map_get (codes s) code = None \<Longrightarrow>
   redeems code ops s = 0"
proof (induction code ops s rule: redeems.induct)
  case (2 code now op ops s)
  have gone: "map_get (codes (fst (access_step now op s))) code = None"
    using access_step_codes [OF 2(2), of code op now] 2(3,4) by auto
  moreover have "snd (access_step now op s) \<longrightarrow> \<not> (\<exists>rnd h. op = ORedeem rnd code h)"
    using redeemed_removes [OF 2(2), of _ now code] 2(4) by fastforce
  ultimately show ?case
    using 2(1) [of "fst (access_step now op s)" "snd (access_step now op s)"] 2(2,3)
    by (auto simp: access_step_wf split: prod.splits)
qed simp

text \<open>
  C11. A hand-over code works at most once: whatever is done with the store, as long as the
  same code is not issued anew, at most one attempt to redeem it succeeds.
\<close>

theorem redeem_at_most_once:
  assumes "store_wf s" "\<forall>op \<in> snd ` set ops. \<not> issues code op"
  shows "redeems code ops s \<le> 1"
  using assms
proof (induction code ops s rule: redeems.induct)
  case (1 code s)
  then show ?case by simp
next
  case (2 code now op ops s)
  let ?s' = "fst (access_step now op s)"
  have wf: "store_wf ?s'" using 2(2) by (rule access_step_wf)
  have rest: "redeems code ops ?s' \<le> 1"
    using 2(1) [of ?s' "snd (access_step now op s)"] 2(3) wf by simp
  have "redeems code ops ?s' = 0"
    if "snd (access_step now op s)" "op = ORedeem rnd code h" for rnd h
    using redeems_gone [OF wf, of ops code] redeemed_removes [OF 2(2), of rnd now code h] that 2(3) by simp
  with rest show ?case by (auto split: prod.splits)
qed

lemma code_kept:
  assumes "store_wf s" "\<forall>op \<in> snd ` set ops. \<not> issues code op \<and> \<not> tries code op"
    "map_get (codes s) code = Some e" "\<forall>u \<in> fst ` set ops. u \<le> c_expiresAt e"
  shows "map_get (codes (access_run ops s)) code = Some e \<and> store_wf (access_run ops s)"
  using assms
proof (induction ops s rule: access_run.induct)
  case (2 now op ops s)
  have "map_get (codes (fst (access_step now op s))) code = Some e"
    using 2(2-5)
    by (cases op)
      (auto simp: issues_def tries_def issueCode_def store_code_def redeem_codes take_code_def allows_def
        forget_tunnel_def sweep_def Let_def map_of_filter_entries store_wf_def split: option.splits)
  then show ?case using 2 by (auto simp: access_step_wf)
qed simp

text \<open>
  The hand-over itself: a code issued at time t for a tunnel and a host, left alone in
  between, is exchanged at time t' for a token exactly when it is presented for that host
  and at most a minute has passed; the token then opens that tunnel and no other one.
\<close>

theorem handover:
  assumes "store_wf s" "code = randomToken rnd" "code \<noteq> []"
    "\<forall>op \<in> snd ` set ops. \<not> issues code op \<and> \<not> tries code op"
    "\<forall>u \<in> fst ` set ops. u \<le> t + CODE_TTL"
    "s1 = access_run ops (fst (issueCode rnd t tunnel host s))" "rnd' \<noteq> []" "0 \<le> ttl s1"
  shows "(snd (redeem rnd' t' code host' s1) = Some (randomToken rnd') \<longleftrightarrow> host' = host \<and> t' \<le> t + CODE_TTL) \<and>
    (host' = host \<and> t' \<le> t + CODE_TTL \<longrightarrow>
     (\<forall>x. snd (allows t' (randomToken rnd') x (fst (redeem rnd' t' code host' s1))) = (x = tunnel)))"
proof -
  let ?e = "\<lparr>c_tunnelId = tunnel, c_host = host, c_expiresAt = t + CODE_TTL\<rparr>"
  have "store_wf (fst (issueCode rnd t tunnel host s))"
    using assms(1) by (simp add: issueCode_def Let_def store_wf_ops)
  moreover have "map_get (codes (fst (issueCode rnd t tunnel host s))) code = Some ?e"
    using assms(2) by (simp add: issueCode_def store_code_def Let_def)
  ultimately have e: "map_get (codes s1) code = Some ?e"
    using code_kept [of _ ops code ?e] assms(4,5,6) by simp
  have ne: "randomToken rnd' \<noteq> []" using assms(7) by (simp add: randomToken_def randomFrom_def)
  have "redeem rnd' t' code host' s1 =
      (let s2 = s1\<lparr>codes := map_delete code (codes s1)\<rparr>
       in if t + CODE_TTL < t' \<or> host \<noteq> host' then (s2, None)
          else (fst (create rnd' t' tunnel s2), Some (randomToken rnd')))"
    using e assms(3) by (simp add: redeem_def take_code_def create_def Let_def)
  then show ?thesis
    using ne assms(8) by (auto simp: Let_def allows_def create_def)
qed

definition demo_store :: access_store where
  "demo_store = fst (issueCode [1, 2, 3] 0 ''blog'' ''blog.example'' (new_AccessStore TTL))"

theorem redeem_at_most_once_witness:
  "redeems ''BCD'' [(10, ORedeem [7] ''BCD'' ''evil''), (11, OSweep), (12, ORedeem [8] ''BCD'' ''blog.example'')]
     demo_store \<le> 1"
proof -
  have "store_wf demo_store" by code_simp
  then show ?thesis by (intro redeem_at_most_once) (auto simp: issues_def)
qed

theorem handover_witness:
  "snd (redeem [9] 1000 ''BCD'' ''blog.example''
     (access_run [(500, OSweep)] (fst (issueCode [1, 2, 3] 0 ''blog'' ''blog.example'' (new_AccessStore TTL)))))
   = Some ''J''"
proof -
  have w: "store_wf (new_AccessStore TTL)" by (simp add: store_wf_def new_AccessStore_def)
  have c: "''BCD'' = randomToken [1, 2, 3]" by code_simp
  have j: "randomToken [9] = ''J''" by code_simp
  have t: "0 \<le> ttl (access_run [(500, OSweep)] (fst (issueCode [1, 2, 3] 0 ''blog'' ''blog.example'' (new_AccessStore TTL))))"
    by code_simp
  show ?thesis
    using handover [OF w c _ _ _ refl, where ops = "[(500, OSweep)]" and t = 0 and tunnel = "''blog''" and host = "''blog.example''"
        and rnd' = "[9]" and t' = 1000 and host' = "''blog.example''"] t j
    by (simp add: issues_def tries_def CODE_TTL_def)
qed

text \<open>Credentials sent the way a browser encodes them are read back.\<close>

lemma b64_encode_chars: "c \<in> set (b64_encode bs) \<Longrightarrow> \<not> is_space c \<and> ord c \<noteq> 10 \<and> ord c \<noteq> 13"
proof -
  have ch: "\<not> is_space (b64_char n) \<and> ord (b64_char n) \<noteq> 10 \<and> ord (b64_char n) \<noteq> 13" if "n < 64" for n
  proof -
    consider "n < 26" | "26 \<le> n" "n < 52" | "52 \<le> n" "n < 62" | "n = 62" | "n = 63" using \<open>n < 64\<close> by linarith
    then show ?thesis by cases (auto simp: b64_char_def js_simps)
  qed
  have pad: "\<not> is_space CHR ''='' \<and> ord CHR ''='' \<noteq> 10 \<and> ord CHR ''='' \<noteq> 13" by (simp add: js_simps)
  show "c \<in> set (b64_encode bs) \<Longrightarrow> ?thesis"
    by (induction bs rule: b64_encode.induct) (auto simp: pad ch six_bits)
qed

end
