(* ===== verification/Attempts.thy ===== *)
theory Attempts
  imports Prelude
begin

text \<open>
  The limiter of failed sign-in attempts (src/server/utils/attempts.js): per key, the number
  of failures since the first one of the current window. The clock is an argument.
\<close>

definition WINDOW :: time where
  "WINDOW = 15 * 60 * 1000"

definition MAX_FAILURES :: nat where
  "MAX_FAILURES = 20"

definition MAX_KEYS :: nat where
  "MAX_KEYS = 10000"

record attempt =
  count :: nat
  since :: time

record limiter =
  window :: time
  max_failures :: nat
  failures :: "(string, attempt) jsmap"

definition new_limiter :: "time \<Rightarrow> nat \<Rightarrow> limiter" where
  "new_limiter w m = \<lparr>window = w, max_failures = m, failures = []\<rparr>"

definition blocked :: "time \<Rightarrow> string \<Rightarrow> limiter \<Rightarrow> limiter \<times> bool" where
  "blocked now key l =
     (case map_get (failures l) key of
        None \<Rightarrow> (l, False)
      | Some e \<Rightarrow>
          if now - since e > window l then (l\<lparr>failures := map_delete key (failures l)\<rparr>, False)
          else (l, count e \<ge> max_failures l))"

definition sweep_failures :: "time \<Rightarrow> limiter \<Rightarrow> limiter" where
  "sweep_failures now l = l\<lparr>failures := filter (\<lambda>(_, e). \<not> now - since e > window l) (failures l)\<rparr>"

text \<open>this.failures.delete(this.failures.keys().next().value): the oldest key goes.\<close>

definition drop_oldest :: "limiter \<Rightarrow> limiter" where
  "drop_oldest l = l\<lparr>failures := (case failures l of [] \<Rightarrow> [] | (k, _) # _ \<Rightarrow> map_delete k (failures l))\<rparr>"

definition make_room :: "time \<Rightarrow> limiter \<Rightarrow> limiter" where
  "make_room now l =
     (let l1 = (if length (failures l) \<ge> MAX_KEYS then sweep_failures now l else l)
      in if length (failures l1) \<ge> MAX_KEYS then drop_oldest l1 else l1)"

definition record_failure :: "time \<Rightarrow> string \<Rightarrow> limiter \<Rightarrow> limiter" where
  "record_failure now key l =
     (case map_get (failures l) key of
        Some e \<Rightarrow>
          if now - since e \<le> window l
          then l\<lparr>failures := map_set key (e\<lparr>count := count e + 1\<rparr>) (failures l)\<rparr>
          else (make_room now l)\<lparr>failures :=
                 map_set key \<lparr>count = 1, since = now\<rparr> (failures (make_room now l))\<rparr>
      | None \<Rightarrow> (make_room now l)\<lparr>failures :=
                 map_set key \<lparr>count = 1, since = now\<rparr> (failures (make_room now l))\<rparr>)"

definition forget_key :: "string \<Rightarrow> limiter \<Rightarrow> limiter" where
  "forget_key key l = l\<lparr>failures := map_delete key (failures l)\<rparr>"

datatype attempt_op = Check string | Fail string | Success string | SweepAll

fun attempt_step :: "time \<Rightarrow> attempt_op \<Rightarrow> limiter \<Rightarrow> limiter" where
  "attempt_step now (Check k) l = fst (blocked now k l)"
| "attempt_step now (Fail k) l = record_failure now k l"
| "attempt_step now (Success k) l = forget_key k l"
| "attempt_step now SweepAll l = sweep_failures now l"

fun attempt_run :: "(time \<times> attempt_op) list \<Rightarrow> limiter \<Rightarrow> limiter" where
  "attempt_run [] l = l"
| "attempt_run ((now, op) # ops) l = attempt_run ops (attempt_step now op l)"

definition limiter_inv :: "limiter \<Rightarrow> bool" where
  "limiter_inv l \<longleftrightarrow> wf_map (failures l) \<and> length (failures l) \<le> MAX_KEYS"

lemma length_delete_le: "length (map_delete k m) \<le> length m"
  by (simp add: AList.delete_eq)

lemma length_set_present: "map_get m k = Some v \<Longrightarrow> length (map_set k w m) = length m"
  by (induction m) (auto split: if_splits)

lemma wf_sweep_failures: "wf_map (failures l) \<Longrightarrow> wf_map (failures (sweep_failures now l))"
  by (simp add: sweep_failures_def wf_map_filter)

lemma wf_drop_oldest: "wf_map (failures l) \<Longrightarrow> wf_map (failures (drop_oldest l))"
proof (cases "failures l")
  case (Cons p m)
  moreover assume "wf_map (failures l)"
  ultimately show ?thesis using wf_map_delete [of "failures l" "fst p"] by (cases p) (simp add: drop_oldest_def)
qed (simp add: drop_oldest_def)

lemma wf_make_room: "wf_map (failures l) \<Longrightarrow> wf_map (failures (make_room now l))"
  by (simp add: make_room_def Let_def wf_sweep_failures wf_drop_oldest)

lemma drop_oldest_length: "failures l \<noteq> [] \<Longrightarrow> length (failures (drop_oldest l)) < length (failures l)"
proof (cases "failures l")
  case (Cons p m)
  then show ?thesis
    using length_delete_le [of "fst p" m] by (cases p) (simp add: drop_oldest_def)
qed simp

lemma make_room_length:
  "length (failures l) \<le> MAX_KEYS \<Longrightarrow> length (failures (make_room now l)) < MAX_KEYS"
proof -
  assume a: "length (failures l) \<le> MAX_KEYS"
  have pos: "0 < MAX_KEYS" by (simp add: MAX_KEYS_def)
  let ?l1 = "if length (failures l) \<ge> MAX_KEYS then sweep_failures now l else l"
  have "length (failures ?l1) \<le> MAX_KEYS" using a by (auto simp: sweep_failures_def intro: le_trans [OF length_filter_le])
  moreover have "length (failures (drop_oldest ?l1)) < MAX_KEYS" if "length (failures ?l1) \<ge> MAX_KEYS"
  proof -
    have "failures ?l1 \<noteq> []" using that pos by (cases "failures ?l1") auto
    then show ?thesis using drop_oldest_length [of ?l1] calculation by linarith
  qed
  ultimately show ?thesis unfolding make_room_def Let_def by (cases "length (failures ?l1) \<ge> MAX_KEYS") auto
qed

text \<open>The table of the limiter stays bounded whatever is recorded.\<close>

lemma attempt_step_inv: "limiter_inv l \<Longrightarrow> limiter_inv (attempt_step now op l)"
proof (cases op)
  case (Fail k)
  assume i: "limiter_inv l"
  have fresh: "limiter_inv ((make_room now l)\<lparr>failures := map_set k v (failures (make_room now l))\<rparr>)" for v
    using i make_room_length [of l now] wf_make_room [of l now] length_map_set_le [of k v "failures (make_room now l)"]
    by (auto simp: limiter_inv_def intro: wf_map_set)
  show ?thesis
    using Fail i fresh
    by (auto simp: record_failure_def limiter_inv_def length_set_present intro: wf_map_set split: option.splits)
qed (auto simp: blocked_def forget_key_def sweep_failures_def limiter_inv_def intro: wf_map_delete wf_map_filter
    le_trans [OF length_filter_le] le_trans [OF length_delete_le] split: option.splits)

lemma attempt_run_inv: "limiter_inv l \<Longrightarrow> limiter_inv (attempt_run ops l)"
  by (induction ops l rule: attempt_run.induct) (auto intro: attempt_step_inv)

subsection \<open>Blocking\<close>

definition fails :: "string \<Rightarrow> (time \<times> attempt_op) list \<Rightarrow> nat" where
  "fails k ops = length (filter (\<lambda>(_, op). op = Fail k) ops)"

definition all_fails :: "(time \<times> attempt_op) list \<Rightarrow> nat" where
  "all_fails ops = length (filter (\<lambda>(_, op). case op of Fail _ \<Rightarrow> True | _ \<Rightarrow> False) ops)"

lemma attempt_step_static [simp]:
  "window (attempt_step now op l) = window l" "max_failures (attempt_step now op l) = max_failures l"
  by (cases op; auto simp: blocked_def record_failure_def make_room_def sweep_failures_def drop_oldest_def
      forget_key_def Let_def split: option.splits)+

lemma room_kept: "length (failures l) < MAX_KEYS \<Longrightarrow> make_room now l = l"
  by (simp add: make_room_def)

lemma attempt_step_length:
  "length (failures l) < MAX_KEYS \<Longrightarrow>
   length (failures (attempt_step now op l)) \<le> length (failures l) + (case op of Fail _ \<Rightarrow> 1 | _ \<Rightarrow> 0)"
  by (cases op)
    (auto simp: blocked_def record_failure_def sweep_failures_def forget_key_def room_kept
      length_set_present length_map_set_le intro: length_delete_le le_trans [OF length_map_set_le] split: option.splits)

text \<open>While its window lasts, the entry of a key only changes by counting up.\<close>

lemma attempt_step_entry:
  assumes "wf_map (failures l)" "length (failures l) < MAX_KEYS" "op \<noteq> Success k"
    "map_get (failures l) k = Some e" "now \<le> since e + window l"
  shows "map_get (failures (attempt_step now op l)) k =
    Some (e\<lparr>count := count e + (if op = Fail k then 1 else 0)\<rparr>)"
proof (cases op)
  case (Check k')
  then show ?thesis using assms by (auto simp: blocked_def split: option.splits)
next
  case (Fail k')
  then show ?thesis using assms by (auto simp: record_failure_def room_kept split: option.splits)
next
  case (Success k')
  then show ?thesis using assms by (auto simp: forget_key_def)
next
  case SweepAll
  then show ?thesis using assms by (auto simp: sweep_failures_def map_of_filter_entries)
qed

lemma attempt_run_entry:
  assumes "limiter_inv l" "length (failures l) + all_fails ops < MAX_KEYS"
    "(\<forall>t. (t, Success k) \<notin> set ops)" "map_get (failures l) k = Some e"
    "\<forall>t \<in> fst ` set ops. t \<le> since e + window l"
  shows "map_get (failures (attempt_run ops l)) k = Some (e\<lparr>count := count e + fails k ops\<rparr>) \<and>
    window (attempt_run ops l) = window l \<and> max_failures (attempt_run ops l) = max_failures l"
  using assms
proof (induction ops l arbitrary: e rule: attempt_run.induct)
  case (1 l)
  then show ?case by (simp add: fails_def)
next
  case (2 now op ops l)
  have af: "all_fails ((now, op) # ops) = (case op of Fail _ \<Rightarrow> 1 | _ \<Rightarrow> 0) + all_fails ops"
    by (cases op) (auto simp: all_fails_def)
  let ?e = "e\<lparr>count := count e + (if op = Fail k then 1 else 0)\<rparr>"
  have len: "length (failures l) < MAX_KEYS" using "2.prems"(2) by simp
  have e: "map_get (failures (attempt_step now op l)) k = Some ?e"
    using "2.prems" len by (intro attempt_step_entry) (auto simp: limiter_inv_def)
  have len': "length (failures (attempt_step now op l)) + all_fails ops < MAX_KEYS"
    using attempt_step_length [OF len, of now op] "2.prems"(2) af by linarith
  have ns: "\<forall>t. (t, Success k) \<notin> set ops" and tm: "\<forall>t \<in> fst ` set ops. t \<le> since ?e + window (attempt_step now op l)"
    using "2.prems"(3,5) by auto
  show ?case
    using "2.IH" [OF attempt_step_inv [OF "2.prems"(1)] len' ns e tm] by (auto simp: fails_def)
qed



end
