(* ===== verification/Capture.thy ===== *)
theory Capture
  imports Bytes
begin

text \<open>
  Capturing bodies and headers (src/server/lib/capture.js): a pass-through stage that keeps a
  bounded prefix of what flows by, and the flattening of Node's header objects, whose values
  are strings or lists of strings.
\<close>

definition MAX_BODY :: nat where
  "MAX_BODY = 64 * 1024"

record tap =
  limit :: nat
  chunks :: "bytes list"
  kept :: nat
  total :: nat

definition new_Tap :: "nat \<Rightarrow> tap" where
  "new_Tap l = \<lparr>limit = l, chunks = [], kept = 0, total = 0\<rparr>"

text \<open>_transform: the new state and the chunk passed on.\<close>

definition tap_transform :: "bytes \<Rightarrow> tap \<Rightarrow> tap \<times> bytes" where
  "tap_transform chunk t =
     (let t1 = t\<lparr>total := total t + length chunk\<rparr>
      in if kept t1 < limit t1
         then let room = limit t1 - kept t1;
                  piece = (if length chunk > room then take room chunk else chunk)
              in (t1\<lparr>chunks := chunks t1 @ [piece], kept := kept t1 + length piece\<rparr>, chunk)
         else (t1, chunk))"

record tap_result =
  r_body :: "bytes option"
  r_bytes :: nat
  r_truncated :: bool

definition tap_result_of :: "tap \<Rightarrow> tap_result" where
  "tap_result_of t =
     \<lparr>r_body = (if chunks t \<noteq> [] then Some (take (kept t) (concat (chunks t))) else None),
      r_bytes = total t, r_truncated = (total t > kept t)\<rparr>"

datatype hval = HOne string | HMany "string list"

type_synonym headers = "(string \<times> hval) list"

fun hvals :: "hval \<Rightarrow> string list" where
  "hvals (HOne s) = [s]"
| "hvals (HMany ss) = ss"

definition headerList :: "headers \<Rightarrow> (string \<times> string) list" where
  "headerList hs = concat (map (\<lambda>(name, v). map (\<lambda>one. (name, one)) (hvals v)) hs)"

fun tap_run :: "bytes list \<Rightarrow> tap \<Rightarrow> tap \<times> bytes" where
  "tap_run [] t = (t, [])"
| "tap_run (c # cs) t =
     (case tap_transform c t of (t1, out) \<Rightarrow> (case tap_run cs t1 of (t2, outs) \<Rightarrow> (t2, out @ outs)))"

definition tap_inv :: "bytes \<Rightarrow> tap \<Rightarrow> bool" where
  "tap_inv seen t \<longleftrightarrow>
     concat (chunks t) = take (limit t) seen \<and> kept t = min (limit t) (length seen) \<and>
     total t = length seen"

lemma tap_transform_inv:
  assumes "tap_inv seen t"
  shows "tap_inv (seen @ c) (fst (tap_transform c t)) \<and> snd (tap_transform c t) = c \<and>
    limit (fst (tap_transform c t)) = limit t"
proof (cases "kept t < limit t")
  case True
  then have "kept t = length seen" "length seen < limit t" using assms by (auto simp: tap_inv_def)
  then show ?thesis
    using assms True by (auto simp: tap_transform_def tap_inv_def Let_def)
next
  case False
  then have "limit t \<le> length seen" using assms by (auto simp: tap_inv_def)
  then show ?thesis using assms False by (auto simp: tap_transform_def tap_inv_def Let_def)
qed

lemma tap_run_inv:
  "tap_inv seen t \<Longrightarrow>
   tap_inv (seen @ concat cs) (fst (tap_run cs t)) \<and> snd (tap_run cs t) = concat cs \<and>
   limit (fst (tap_run cs t)) = limit t"
proof (induction cs arbitrary: seen t)
  case (Cons c cs)
  show ?case
    using tap_transform_inv [OF Cons.prems, of c] Cons.IH [of "seen @ c" "fst (tap_transform c t)"]
    by (auto split: prod.splits)
qed simp

lemma tap_chunks: "0 < limit t \<Longrightarrow> tap_inv seen t \<Longrightarrow> (chunks t = [] \<longleftrightarrow> seen = []) \<Longrightarrow>
  c \<noteq> [] \<Longrightarrow> chunks (fst (tap_transform c t)) \<noteq> []"
  by (auto simp: tap_transform_def tap_inv_def Let_def)

text \<open>
  Capturing never alters the traffic and reports it exactly: whatever chunks a body
  arrives in, they pass unchanged, the captured body is the first limit bytes of it, its
  size is the full size and it is marked truncated exactly when bytes were left out.
\<close>

theorem tap_captures_prefix:
  "let (t, out) = tap_run cs (new_Tap l); r = tap_result_of t in
   out = concat cs \<and> r_bytes r = length (concat cs) \<and>
   (case r_body r of None \<Rightarrow> take l (concat cs) = [] | Some b \<Rightarrow> b = take l (concat cs)) \<and>
   (r_truncated r \<longleftrightarrow> length (concat cs) > l)"
proof -
  have "tap_inv [] (new_Tap l)" by (simp add: tap_inv_def new_Tap_def)
  from tap_run_inv [OF this, of cs]
  have inv: "tap_inv (concat cs) (fst (tap_run cs (new_Tap l)))" "snd (tap_run cs (new_Tap l)) = concat cs"
    "limit (fst (tap_run cs (new_Tap l))) = l"
    by (auto simp: new_Tap_def)
  then show ?thesis
    by (auto simp: tap_result_of_def tap_inv_def Let_def min_def split: prod.splits if_splits)
qed

lemma headerList_values: "(n, v) \<in> set (headerList hs) \<longleftrightarrow> (\<exists>h. (n, h) \<in> set hs \<and> v \<in> set (hvals h))"
  by (auto simp: headerList_def)

end
