(* ===== verification/Breakpoints.thy ===== *)
theory Breakpoints
  imports Ids Base64 Capture
begin

text \<open>
  Breakpoints on the traffic of a tunnel (src/server/lib/breakpoints.js): rules per tunnel and
  the requests held until somebody decides on them. The promise of a held request is modelled
  by the list of decisions handed to its resolve function.
\<close>

definition MAX_RULES :: nat where
  "MAX_RULES = 32"

text \<open>The regular expression \<open>^[A-Z]{3,10}$\<close>.\<close>

definition METHOD :: "string \<Rightarrow> bool" where
  "METHOD m \<longleftrightarrow> 3 \<le> length m \<and> length m \<le> 10 \<and> list_all is_upper m"

definition PHASES :: "string list" where
  "PHASES = [''request'', ''response'', ''both'']"

record bp_rule =
  rule_method :: "string option"
  rule_path :: string
  rule_phase :: string

definition bp_fail :: "string \<Rightarrow> err" where
  "bp_fail message = Err ''bad_request'' message"

text \<open>One rule of the input; reading a property of null or undefined throws.\<close>

definition normalize_rule :: "jsval \<Rightarrow> bp_rule result" where
  "normalize_rule rule =
     (if rule = JNull \<or> rule = JUndef then Inl (Err ''TypeError'' ''Cannot read properties'')
      else let given = js_get rule ''method'';
               method = (if truthy given then Some (to_upper (trim (js_string given))) else None);
               path = trim (js_string (js_get rule ''path''));
               phase = js_string (js_get rule ''phase'')
           in if method \<noteq> None \<and> the method \<noteq> [] \<and> \<not> METHOD (the method)
              then Inl (bp_fail (''\"'' @ js_string given @ ''\" is not a method''))
              else if \<not> starts_with ''/'' path then Inl (bp_fail ''A breakpoint path must start with /'')
              else if phase \<notin> set PHASES
              then Inl (bp_fail (''phase must be one of '' @ join '', '' PHASES))
              else Inr \<lparr>rule_method = method, rule_path = path, rule_phase = phase\<rparr>)"

fun normalize_each :: "jsval list \<Rightarrow> bp_rule list result" where
  "normalize_each [] = Inr []"
| "normalize_each (v # vs) =
     (case normalize_rule v of
        Inl e \<Rightarrow> Inl e
      | Inr r \<Rightarrow> (case normalize_each vs of Inl e \<Rightarrow> Inl e | Inr rs \<Rightarrow> Inr (r # rs)))"

definition normalizeRules :: "jsval \<Rightarrow> bp_rule list result" where
  "normalizeRules input =
     (case input of
        JArr vs \<Rightarrow>
          if length vs > MAX_RULES
          then Inl (bp_fail (''At most '' @ show_nat MAX_RULES @ '' breakpoints''))
          else normalize_each vs
      | _ \<Rightarrow> Inl (bp_fail ''rules must be a list''))"

record message_part =
  p_headers :: "(string \<times> string) list"
  p_body :: "bytes option"
  p_bytes :: nat
  p_truncated :: bool

record held =
  h_id :: string
  h_tunnel :: string
  h_phase :: string
  h_time :: time
  h_method :: string
  h_path :: string
  h_ip :: string
  h_host :: string
  h_request :: message_part
  h_response :: "(nat \<times> message_part) option"

record breakpoints =
  bp_rules :: "(string, bp_rule list) jsmap"
  held_map :: "(string, held) jsmap"
  decided :: "(string \<times> jsval) list"

definition new_Breakpoints :: breakpoints where
  "new_Breakpoints = \<lparr>bp_rules = [], held_map = [], decided = []\<rparr>"

definition rulesFor :: "string \<Rightarrow> breakpoints \<Rightarrow> bp_rule list" where
  "rulesFor tunnel b = (case map_get (bp_rules b) tunnel of None \<Rightarrow> [] | Some rs \<Rightarrow> rs)"

definition setRules :: "string \<Rightarrow> jsval \<Rightarrow> breakpoints \<Rightarrow> (breakpoints \<times> bp_rule list) result" where
  "setRules tunnel input b =
     (case normalizeRules input of
        Inl e \<Rightarrow> Inl e
      | Inr rs \<Rightarrow>
          Inr (if rs \<noteq> [] then b\<lparr>bp_rules := map_set tunnel rs (bp_rules b)\<rparr>
               else b\<lparr>bp_rules := map_delete tunnel (bp_rules b)\<rparr>, rs))"

definition rule_matches :: "string \<Rightarrow> string \<Rightarrow> string \<Rightarrow> bp_rule \<Rightarrow> bool" where
  "rule_matches method path phase r \<longleftrightarrow>
     (rule_phase r = phase \<or> rule_phase r = ''both'') \<and>
     (rule_method r = None \<or> rule_method r = Some [] \<or> rule_method r = Some method) \<and>
     starts_with (rule_path r) path"

definition bp_matches :: "string \<Rightarrow> string \<Rightarrow> string \<Rightarrow> string \<Rightarrow> breakpoints \<Rightarrow> bool" where
  "bp_matches tunnel method path phase b =
     list_ex (rule_matches method path phase) (rulesFor tunnel b)"

text \<open>The request carries every field but the id and the tunnel.\<close>

definition hold :: "bytes \<Rightarrow> string \<Rightarrow> held \<Rightarrow> breakpoints \<Rightarrow> breakpoints \<times> string" where
  "hold rnd tunnel request b =
     (let i = randomToken rnd
      in (b\<lparr>held_map := map_set i (request\<lparr>h_id := i, h_tunnel := tunnel\<rparr>) (held_map b)\<rparr>, i))"

definition settle :: "string \<Rightarrow> jsval \<Rightarrow> breakpoints \<Rightarrow> breakpoints \<times> bool" where
  "settle i decision b =
     (case map_get (held_map b) i of
        None \<Rightarrow> (b, False)
      | Some e \<Rightarrow>
          (b\<lparr>held_map := map_delete i (held_map b), decided := decided b @ [(i, decision)]\<rparr>, True))"

definition get_held :: "string \<Rightarrow> string \<Rightarrow> breakpoints \<Rightarrow> held option" where
  "get_held tunnel i b =
     (case map_get (held_map b) i of
        None \<Rightarrow> None
      | Some e \<Rightarrow> if h_tunnel e = tunnel then Some e else None)"

definition CANCEL :: jsval where
  "CANCEL = JObj [(''action'', JStr ''cancel'')]"

text \<open>The loop of forget over the values of the map.\<close>

fun cancel_each :: "string \<Rightarrow> held list \<Rightarrow> breakpoints \<Rightarrow> breakpoints" where
  "cancel_each tunnel [] b = b"
| "cancel_each tunnel (e # es) b =
     cancel_each tunnel es (if h_tunnel e = tunnel then fst (settle (h_id e) CANCEL b) else b)"

definition bp_forget :: "string \<Rightarrow> breakpoints \<Rightarrow> breakpoints" where
  "bp_forget tunnel b =
     cancel_each tunnel (map snd (held_map b)) (b\<lparr>bp_rules := map_delete tunnel (bp_rules b)\<rparr>)"

definition part :: "message_part \<Rightarrow> (string \<times> string) list \<times> string option \<times> nat \<times> bool" where
  "part p = (p_headers p, map_option b64_encode (p_body p), p_bytes p, p_truncated p)"

record held_view =
  hv_id :: string
  hv_phase :: string
  hv_time :: time
  hv_method :: string
  hv_path :: string
  hv_ip :: string
  hv_host :: string
  hv_status :: "nat option"
  hv_request :: "(string \<times> string) list \<times> string option \<times> nat \<times> bool"
  hv_response :: "(nat \<times> (string \<times> string) list \<times> string option \<times> nat \<times> bool) option"

definition serialize :: "held \<Rightarrow> held_view" where
  "serialize e =
     \<lparr>hv_id = h_id e, hv_phase = h_phase e, hv_time = h_time e, hv_method = h_method e,
      hv_path = h_path e, hv_ip = h_ip e, hv_host = h_host e,
      hv_status = map_option fst (h_response e), hv_request = part (h_request e),
      hv_response = map_option (\<lambda>(s, p). (s, part p)) (h_response e)\<rparr>"

definition bp_list :: "string \<Rightarrow> breakpoints \<Rightarrow> held_view list" where
  "bp_list tunnel b = map serialize (filter (\<lambda>e. h_tunnel e = tunnel) (map snd (held_map b)))"

subsection \<open>Rules\<close>

definition rule_ok :: "bp_rule \<Rightarrow> bool" where
  "rule_ok r \<longleftrightarrow> starts_with ''/'' (rule_path r) \<and> rule_phase r \<in> set PHASES \<and>
     (case rule_method r of None \<Rightarrow> True | Some m \<Rightarrow> m = [] \<or> METHOD m)"

lemma normalize_rule_ok: "normalize_rule v = Inr r \<Longrightarrow> rule_ok r"
  by (auto simp: normalize_rule_def rule_ok_def Let_def split: if_splits)

lemma normalize_each_ok: "normalize_each vs = Inr rs \<Longrightarrow> list_all rule_ok rs \<and> length rs = length vs"
  by (induction vs arbitrary: rs) (auto split: sum.splits dest: normalize_rule_ok)

lemma normalizeRules_ok: "normalizeRules v = Inr rs \<Longrightarrow> list_all rule_ok rs \<and> length rs \<le> MAX_RULES"
  by (auto simp: normalizeRules_def split: jsval.splits if_splits dest: normalize_each_ok)

subsection \<open>Held requests\<close>

definition bp_inv :: "breakpoints \<Rightarrow> bool" where
  "bp_inv b \<longleftrightarrow> wf_map (held_map b) \<and> (\<forall>i e. map_get (held_map b) i = Some e \<longrightarrow> h_id e = i)"

lemma hold_inv: "bp_inv b \<Longrightarrow> bp_inv (fst (hold rnd t r b))"
  by (auto simp: bp_inv_def hold_def Let_def intro: wf_map_set split: if_splits)

lemma settle_inv: "bp_inv b \<Longrightarrow> bp_inv (fst (settle i d b))"
  by (auto simp: bp_inv_def settle_def intro: wf_map_delete split: option.splits if_splits)

lemma settle_held:
  "map_get (held_map (fst (settle i d b))) j = (if j = i then None else map_get (held_map b) j)"
  by (auto simp: settle_def split: option.splits)

lemma cancel_each_spec:
  assumes "distinct (map h_id es)" "\<forall>e \<in> set es. map_get (held_map b) (h_id e) = Some e"
  shows "(\<forall>j. map_get (held_map (cancel_each t es b)) j =
           (if \<exists>e \<in> set es. h_id e = j \<and> h_tunnel e = t then None else map_get (held_map b) j)) \<and>
         decided (cancel_each t es b) =
           decided b @ map (\<lambda>e. (h_id e, CANCEL)) (filter (\<lambda>e. h_tunnel e = t) es)"
  using assms
proof (induction es arbitrary: b)
  case (Cons e es)
  let ?b = "if h_tunnel e = t then fst (settle (h_id e) CANCEL b) else b"
  have "\<forall>x \<in> set es. map_get (held_map ?b) (h_id x) = Some x"
  proof
    fix x assume x: "x \<in> set es"
    then have "h_id x \<noteq> h_id e" using Cons.prems(1) by (metis distinct.simps(2) image_eqI list.set_map list.simps(9))
    moreover have "map_get (held_map b) (h_id x) = Some x" using Cons.prems(2) x by simp
    ultimately show "map_get (held_map ?b) (h_id x) = Some x" by (simp add: settle_held)
  qed
  moreover have "distinct (map h_id es)" using Cons.prems(1) by simp
  ultimately have ih: "\<forall>j. map_get (held_map (cancel_each t es ?b)) j =
       (if \<exists>x \<in> set es. h_id x = j \<and> h_tunnel x = t then None else map_get (held_map ?b) j)"
    "decided (cancel_each t es ?b) = decided ?b @ map (\<lambda>e. (h_id e, CANCEL)) (filter (\<lambda>e. h_tunnel e = t) es)"
    using Cons.IH [of ?b] by blast+
  have d: "decided ?b = decided b @ (if h_tunnel e = t then [(h_id e, CANCEL)] else [])"
    using Cons.prems(2) by (auto simp: settle_def)
  show ?case using ih d by (auto simp: settle_held)
qed simp

lemma held_values:
  assumes "bp_inv b"
  shows "distinct (map h_id (map snd (held_map b)))"
    and "\<forall>e \<in> set (map snd (held_map b)). map_get (held_map b) (h_id e) = Some e"
proof -
  have w: "wf_map (held_map b)" using assms by (simp add: bp_inv_def)
  have entry: "h_id e = i \<and> map_get (held_map b) i = Some e" if "(i, e) \<in> set (held_map b)" for i e
    using assms that map_of_is_SomeI [OF w that] by (auto simp: bp_inv_def)
  have "map h_id (map snd (held_map b)) = map fst (held_map b)" using entry by auto
  with w show "distinct (map h_id (map snd (held_map b)))" by (simp only:)
  show "\<forall>e \<in> set (map snd (held_map b)). map_get (held_map b) (h_id e) = Some e"
    using entry by auto
qed

text \<open>
  When a tunnel goes away nothing stays held on its behalf: every request held for it is
  decided with cancel, once each, in order; its rules are gone; and the requests and rules of
  other tunnels are as before.
\<close>

theorem forget_releases:
  assumes "bp_inv b"
  shows "bp_list t (bp_forget t b) = [] \<and> rulesFor t (bp_forget t b) = [] \<and>
    decided (bp_forget t b) =
      decided b @ map (\<lambda>e. (h_id e, CANCEL)) (filter (\<lambda>e. h_tunnel e = t) (map snd (held_map b))) \<and>
    (\<forall>u i. u \<noteq> t \<longrightarrow> get_held u i (bp_forget t b) = get_held u i b \<and> rulesFor u (bp_forget t b) = rulesFor u b)"
proof -
  let ?b0 = "b\<lparr>bp_rules := map_delete t (bp_rules b)\<rparr>" and ?es = "map snd (held_map b)"
  have rules: "bp_rules (cancel_each t es c) = bp_rules c" for es c
    by (induction es arbitrary: c) (auto simp: settle_def split: option.splits)
  have spec: "\<forall>j. map_get (held_map (bp_forget t b)) j =
       (if \<exists>e \<in> set ?es. h_id e = j \<and> h_tunnel e = t then None else map_get (held_map b) j)"
    "decided (bp_forget t b) = decided b @ map (\<lambda>e. (h_id e, CANCEL)) (filter (\<lambda>e. h_tunnel e = t) ?es)"
    using cancel_each_spec [of ?es ?b0 t] held_values [OF assms] by (auto simp: bp_forget_def)
  have inv: "bp_inv (cancel_each t es c)" if "bp_inv c" for es c
    using that by (induction es arbitrary: c) (auto intro: settle_inv)
  have "bp_inv (bp_forget t b)"
    unfolding bp_forget_def using assms by (intro inv) (simp add: bp_inv_def)
  note hv = held_values [OF this]
  have "\<not> (\<exists>e \<in> set (map snd (held_map (bp_forget t b))). h_tunnel e = t)"
  proof
    assume "\<exists>e \<in> set (map snd (held_map (bp_forget t b))). h_tunnel e = t"
    then obtain e where e: "map_get (held_map (bp_forget t b)) (h_id e) = Some e" "h_tunnel e = t"
      using hv(2) by blast
    then have o: "map_get (held_map b) (h_id e) = Some e" using spec(1) by (metis option.distinct(1))
    then have "e \<in> set ?es" using map_of_SomeD [OF o] by force
    then show False using e spec(1) by (metis option.distinct(1))
  qed
  then have "bp_list t (bp_forget t b) = []" by (auto simp: bp_list_def filter_empty_conv)
  moreover have "get_held u i (bp_forget t b) = get_held u i b" if "u \<noteq> t" for u i
  proof (cases "\<exists>e \<in> set ?es. h_id e = i \<and> h_tunnel e = t")
    case True
    then obtain e where "map_get (held_map b) i = Some e" "h_tunnel e = t" using held_values(2) [OF assms] by auto
    then show ?thesis using that spec(1) True by (auto simp: get_held_def)
  next
    case False
    then have "map_get (held_map (bp_forget t b)) i = map_get (held_map b) i" using spec(1) by auto
    then show ?thesis unfolding get_held_def by simp
  qed
  moreover have "rulesFor u (bp_forget t b) = (if u = t then [] else rulesFor u b)" for u
    by (simp add: rulesFor_def bp_forget_def rules)
  ultimately show ?thesis using spec(2) by simp
qed

definition sample_part :: message_part where
  "sample_part = \<lparr>p_headers = [], p_body = None, p_bytes = 0, p_truncated = False\<rparr>"

definition sample_held :: held where
  "sample_held = \<lparr>h_id = [], h_tunnel = [], h_phase = ''request'', h_time = 0, h_method = ''GET'', h_path = ''/'',
     h_ip = [], h_host = [], h_request = sample_part, h_response = None\<rparr>"

definition sample_bp :: breakpoints where
  "sample_bp = fst (hold [2] ''shop'' sample_held (fst (hold [1] ''blog'' sample_held new_Breakpoints)))"

theorem forget_releases_witness:
  "bp_list ''blog'' (bp_forget ''blog'' sample_bp) = [] \<and> decided (bp_forget ''blog'' sample_bp) = [(''B'', CANCEL)] \<and>
   get_held ''shop'' ''C'' (bp_forget ''blog'' sample_bp) = get_held ''shop'' ''C'' sample_bp"
proof -
  have i: "bp_inv sample_bp"
    unfolding sample_bp_def by (intro hold_inv) (simp add: bp_inv_def new_Breakpoints_def)
  have "map (\<lambda>e. (h_id e, CANCEL)) (filter (\<lambda>e. h_tunnel e = ''blog'') (map snd (held_map sample_bp))) = [(''B'', CANCEL)] \<and>
      decided sample_bp = []"
    by code_simp
  then show ?thesis using forget_releases [OF i, of "''blog''"] by simp
qed

end
