(* ===== verification/Websocket.thy ===== *)
theory Websocket
  imports Bytes
begin

text \<open>
  Websocket frames (src/server/lib/websocket.js): the incremental parser that reads the
  messages flowing through an upgraded connection, and the encoder of single frames.

  Bit tests on the two header bytes are written as arithmetic on their values: the top bit is
  set when the value is at least 128, the lower four or seven bits are the remainders by 16
  and 128. Messages handed to onMessage are collected in a list. The masking key drawn by
  randomBytes is an argument.
\<close>

unbundle bit_operations_syntax

definition MAX_FRAME :: nat where
  "MAX_FRAME = 16 * 1024 * 1024"

type_synonym message = "nat \<times> bytes"

record parser =
  buffer :: bytes
  fragments :: "(nat \<times> bytes list) option"
  dead :: bool
  awaitingHead :: bool

definition new_FrameParser :: "bool \<Rightarrow> parser" where
  "new_FrameParser skipHead =
     \<lparr>buffer = [], fragments = None, dead = False, awaitingHead = skipHead\<rparr>"

definition apply_mask :: "bytes \<Rightarrow> bytes \<Rightarrow> bytes" where
  "apply_mask key bs = map (\<lambda>i. (bs ! i) XOR (key ! (i mod 4))) [0..<length bs]"

datatype parsed = NeedMore | TooLong | Frame bool nat bytes bytes

text \<open>The length field and the offset after it, None when the buffer ends before it.\<close>

definition frame_length :: "bytes \<Rightarrow> (nat \<times> nat) option" where
  "frame_length buf =
     (let n = unat (buf ! 1) mod 128
      in if n = 126 then (if length buf < 4 then None else Some (be_nat (take 2 (drop 2 buf)), 4))
         else if n = 127 then (if length buf < 10 then None else Some (be_nat (take 8 (drop 2 buf)), 10))
         else Some (n, 2))"

text \<open>One turn of the loop in drain: the frame at the front of the buffer and the rest.\<close>

definition parse_one :: "bytes \<Rightarrow> parsed" where
  "parse_one buf =
     (if length buf < 2 then NeedMore
      else let fin = (unat (buf ! 0) \<ge> 128); opcode = unat (buf ! 0) mod 16;
               masked = (unat (buf ! 1) \<ge> 128)
           in case frame_length buf of
                None \<Rightarrow> NeedMore
              | Some (len, offset) \<Rightarrow>
                  if len > MAX_FRAME then TooLong
                  else let start = offset + (if masked then 4 else 0)
                       in if length buf < start + len then NeedMore
                          else let payload = take len (drop start buf);
                                   payload = (if masked then apply_mask (take 4 (drop offset buf)) payload
                                              else payload)
                               in Frame fin opcode payload (drop (start + len) buf))"

text \<open>What a frame does to the pending fragments, and the messages it completes.\<close>

definition on_frame ::
  "bool \<Rightarrow> nat \<Rightarrow> bytes \<Rightarrow> (nat \<times> bytes list) option \<Rightarrow> (nat \<times> bytes list) option \<times> message list" where
  "on_frame fin opcode payload fr =
     (if opcode \<ge> 8 then (fr, [(opcode, payload)])
      else if opcode = 0
      then (case fr of
              None \<Rightarrow> (None, [])
            | Some (first, parts) \<Rightarrow>
                if fin then (None, [(first, concat (parts @ [payload]))])
                else (Some (first, parts @ [payload]), []))
      else if fin then (fr, [(opcode, payload)])
      else (Some (opcode, [payload]), []))"

lemma frame_length_offset: "frame_length buf = Some (n, off) \<Longrightarrow> 2 \<le> off \<and> off \<le> 10"
  by (auto simp: frame_length_def Let_def split: if_splits)

lemma parse_one_shrinks: "parse_one buf = Frame f op p rest \<Longrightarrow> length rest < length buf"
  by (auto simp: parse_one_def Let_def split: if_splits option.splits dest!: frame_length_offset)

function drain_buffer ::
  "bytes \<Rightarrow> (nat \<times> bytes list) option \<Rightarrow> bytes \<times> (nat \<times> bytes list) option \<times> bool \<times> message list" where
  "drain_buffer buf fr =
     (case parse_one buf of
        NeedMore \<Rightarrow> (buf, fr, False, [])
      | TooLong \<Rightarrow> ([], fr, True, [])
      | Frame fin opcode payload rest \<Rightarrow>
          (case on_frame fin opcode payload fr of (fr', out) \<Rightarrow>
             (case drain_buffer rest fr' of (b, f, d, ms) \<Rightarrow> (b, f, d, out @ ms))))"
  by pat_completeness auto
termination
  by (relation "measure (\<lambda>(buf, fr). length buf)") (auto dest: parse_one_shrinks)

declare drain_buffer.simps [simp del]

definition parser_drain :: "parser \<Rightarrow> parser \<times> message list" where
  "parser_drain p =
     (case drain_buffer (buffer p) (fragments p) of (b, f, d, ms) \<Rightarrow>
        (p\<lparr>buffer := b, fragments := f, dead := d\<rparr>, ms))"

definition HEAD_END :: bytes where
  "HEAD_END = [13, 10, 13, 10]"

definition parser_push :: "bytes \<Rightarrow> parser \<Rightarrow> parser \<times> message list" where
  "parser_push chunk p =
     (if dead p then (p, [])
      else let p1 = p\<lparr>buffer := buffer p @ chunk\<rparr>
           in if awaitingHead p1
              then (case index_of HEAD_END (buffer p1) of
                      None \<Rightarrow> (p1, [])
                    | Some end_at \<Rightarrow>
                        parser_drain (p1\<lparr>buffer := drop (end_at + 4) (buffer p1), awaitingHead := False\<rparr>))
              else parser_drain p1)"

definition encodeFrame :: "byte \<Rightarrow> bytes \<Rightarrow> bytes option \<Rightarrow> bytes" where
  "encodeFrame opcode payload key =
     (let n = length payload;
          header = (if n < 126 then [128 OR opcode, of_nat n]
                    else if n < 65536 then [128 OR opcode, 126] @ be_bytes 2 n
                    else [128 OR opcode, 127, 0, 0, 0, 0] @ be_bytes 4 n)
      in case key of
           None \<Rightarrow> header @ payload
         | Some k \<Rightarrow> header[1 := (header ! 1) OR 128] @ k @ apply_mask k payload)"

fun push_all :: "bytes list \<Rightarrow> parser \<Rightarrow> parser \<times> message list" where
  "push_all [] p = (p, [])"
| "push_all (c # cs) p =
     (case parser_push c p of (p1, ms) \<Rightarrow> (case push_all cs p1 of (p2, ms') \<Rightarrow> (p2, ms @ ms')))"

subsection \<open>Chunking does not matter\<close>

lemma frame_length_append:
  "frame_length buf = Some r \<Longrightarrow> 2 \<le> length buf \<Longrightarrow> frame_length (buf @ c) = Some r"
  by (auto simp: frame_length_def Let_def nth_append take_append split: if_splits)

lemma parse_one_append:
  "parse_one buf = TooLong \<Longrightarrow> parse_one (buf @ c) = TooLong"
  "parse_one buf = Frame f op p rest \<Longrightarrow> parse_one (buf @ c) = Frame f op p (rest @ c)"
  by (auto simp: parse_one_def Let_def nth_append take_append drop_append frame_length_append
      split: if_splits option.splits dest: frame_length_offset)

lemma drain_buffer_append:
  "drain_buffer (buf @ c) fr =
     (case drain_buffer buf fr of (b, f, d, ms) \<Rightarrow>
        if d then ([], f, True, ms)
        else (case drain_buffer (b @ c) f of (b', f', d', ms') \<Rightarrow> (b', f', d', ms @ ms')))"
proof (induction buf fr rule: drain_buffer.induct)
  case (1 buf fr)
  show ?case
  proof (cases "parse_one buf")
    case NeedMore
    then have "drain_buffer buf fr = (buf, fr, False, [])" by (subst drain_buffer.simps) simp
    then show ?thesis by (auto split: prod.splits)
  next
    case TooLong
    then show ?thesis
      using parse_one_append(1) [OF TooLong, of c] by (subst (1 2) drain_buffer.simps) simp
  next
    case (Frame fin op p rest)
    obtain fr' out where o: "on_frame fin op p fr = (fr', out)" by (cases "on_frame fin op p fr")
    have l: "drain_buffer (buf @ c) fr = (case drain_buffer (rest @ c) fr' of (b, f, d, ms) \<Rightarrow> (b, f, d, out @ ms))"
      using parse_one_append(2) [OF Frame, of c] o by (subst drain_buffer.simps) simp
    have r: "drain_buffer buf fr = (case drain_buffer rest fr' of (b, f, d, ms) \<Rightarrow> (b, f, d, out @ ms))"
      using Frame o by (subst drain_buffer.simps) simp
    show ?thesis
      unfolding l r using "1.IH" [OF Frame o [symmetric]] by (auto split: prod.splits if_splits)
  qed
qed

lemma drain_settled: "drain_buffer buf fr = (b, f, False, ms) \<Longrightarrow> drain_buffer b f = (b, f, False, [])"
proof (induction buf fr arbitrary: b f ms rule: drain_buffer.induct)
  case (1 buf fr)
  show ?case
  proof (cases "parse_one buf")
    case NeedMore
    then have "drain_buffer buf fr = (buf, fr, False, [])" by (subst drain_buffer.simps) simp
    with "1.prems" show ?thesis by simp
  next
    case TooLong
    then have "drain_buffer buf fr = ([], fr, True, [])" by (subst drain_buffer.simps) simp
    with "1.prems" show ?thesis by simp
  next
    case (Frame fin op p rest)
    obtain fr' out where o: "on_frame fin op p fr = (fr', out)" by (cases "on_frame fin op p fr")
    have "drain_buffer buf fr = (case drain_buffer rest fr' of (b, f, d, ms) \<Rightarrow> (b, f, d, out @ ms))"
      using Frame o by (subst drain_buffer.simps) simp
    then obtain ms' where "drain_buffer rest fr' = (b, f, False, ms')"
      using "1.prems" by (auto split: prod.splits)
    then show ?thesis using "1.IH" [OF Frame o [symmetric]] by blast
  qed
qed

text \<open>Pushing in pieces leaves the parser where pushing at once does.\<close>

definition settled :: "parser \<Rightarrow> bool" where
  "settled p \<longleftrightarrow> \<not> awaitingHead p \<and> drain_buffer (buffer p) (fragments p) = (buffer p, fragments p, False, [])"

lemma push_all_drain:
  "settled p \<Longrightarrow> \<not> dead p \<Longrightarrow>
   snd (push_all cs p) = snd (snd (snd (drain_buffer (buffer p @ concat cs) (fragments p)))) \<and>
   dead (fst (push_all cs p)) = fst (snd (snd (drain_buffer (buffer p @ concat cs) (fragments p)))) \<and>
   buffer (fst (push_all cs p)) = fst (drain_buffer (buffer p @ concat cs) (fragments p))"
proof (induction cs arbitrary: p)
  case Nil
  then show ?case by (simp add: settled_def)
next
  case (Cons c cs)
  obtain b f d ms where dr: "drain_buffer (buffer p @ c) (fragments p) = (b, f, d, ms)"
    by (cases "drain_buffer (buffer p @ c) (fragments p)")
  let ?p1 = "p\<lparr>buffer := b, fragments := f, dead := d\<rparr>"
  have push: "parser_push c p = (?p1, ms)"
    using Cons.prems dr by (simp add: parser_push_def parser_drain_def settled_def Let_def)
  have split: "drain_buffer (buffer p @ concat (c # cs)) (fragments p) =
      (if d then ([], f, True, ms)
       else (case drain_buffer (b @ concat cs) f of (b', f', d', ms') \<Rightarrow> (b', f', d', ms @ ms')))"
    using drain_buffer_append [of "buffer p @ c" "concat cs" "fragments p"] dr by simp
  show ?case
  proof (cases d)
    case True
    have stuck: "push_all cs q = (q, [])" if "dead q" for q
      using that by (induction cs) (auto simp: parser_push_def)
    have "b = []"
    proof -
      have "drain_buffer buf fr = (b, f, True, ms) \<Longrightarrow> b = []" for buf fr b f ms
        by (induction buf fr arbitrary: b f ms rule: drain_buffer.induct)
          (subst (asm) (2) drain_buffer.simps, auto split: parsed.splits prod.splits)
      moreover have "drain_buffer (buffer p @ c) (fragments p) = (b, f, True, ms)" using dr True by simp
      ultimately show ?thesis by blast
    qed
    then show ?thesis using True push split stuck [of ?p1] by simp
  next
    case False
    then have "drain_buffer b f = (b, f, False, [])" using drain_settled dr by simp
    then have "settled ?p1" using Cons.prems False by (simp add: settled_def)
    from Cons.IH [OF this] show ?thesis
      using False push split by (auto split: prod.splits)
  qed
qed

subsection \<open>Reading back what the encoder writes\<close>

lemma or_top:
  fixes x :: byte
  assumes "unat x < 128"
  shows "unat (128 OR x) = 128 + unat x"
proof -
  have "\<not> bit x 7"
  proof -
    have "bit (unat x) 7 = bit x 7" by (simp add: bit_unsigned_iff)
    moreover have "\<not> bit (unat x) 7" using assms by (simp add: bit_iff_odd)
    ultimately show ?thesis by simp
  qed
  then have "x AND 2 ^ 7 = 0" by (rule iffD2 [OF and_exp_eq_0_iff_not_bit])
  then have "128 AND x = 0" by (simp add: and.commute)
  then have "128 OR x = 128 + x" by (simp add: disjunctive_add_eq_or)
  then show ?thesis using assms by (simp add: unat_word_ariths)
qed

lemma length_apply_mask [simp]: "length (apply_mask k bs) = length bs"
  by (simp add: apply_mask_def)

lemma apply_mask_twice [simp]: "apply_mask k (apply_mask k bs) = bs"
  by (rule nth_equalityI) (auto simp: apply_mask_def xor.assoc)

text \<open>The header of a frame of n bytes, with or without the mask bit.\<close>

definition frame_header :: "byte \<Rightarrow> nat \<Rightarrow> bool \<Rightarrow> bytes" where
  "frame_header opcode n m =
     (let t = (\<lambda>b. if m then b OR 128 else b)
      in if n < 126 then [128 OR opcode, t (of_nat n)]
         else if n < 65536 then [128 OR opcode, t 126] @ be_bytes 2 n
         else [128 OR opcode, t 127, 0, 0, 0, 0] @ be_bytes 4 n)"

lemma encodeFrame_header:
  "encodeFrame op p key =
     frame_header op (length p) (key \<noteq> None) @ (case key of None \<Rightarrow> p | Some k \<Rightarrow> k @ apply_mask k p)"
  by (auto simp: encodeFrame_def frame_header_def Let_def split: option.splits)

lemma header_byte:
  assumes "n < 128"
  shows "unat (if m then of_nat n OR 128 else (of_nat n :: byte)) = (if m then 128 else 0) + n"
proof -
  have "unat (of_nat n :: byte) = n" using assms by (simp add: unat_of_nat)
  then show ?thesis using assms or_top [of "of_nat n"] by (simp add: or.commute)
qed

lemma frame_header_parts:
  assumes "n \<le> MAX_FRAME" "unat op < 16"
  shows "2 \<le> length (frame_header op n m)"
    "unat (frame_header op n m ! 0) = 128 + unat op"
    "unat (frame_header op n m ! 1) \<ge> 128 \<longleftrightarrow> m"
    "frame_length (frame_header op n m @ r) = Some (n, length (frame_header op n m))"
proof -
  let ?h = "frame_header op n m"
  have n: "n < 2 ^ 32" using assms(1) by (simp add: MAX_FRAME_def)
  have o: "unat (128 OR op) = 128 + unat op" using assms(2) by (intro or_top) simp
  show "2 \<le> length ?h" by (simp add: frame_header_def Let_def)
  show "unat (?h ! 0) = 128 + unat op" using o by (simp add: frame_header_def Let_def)
  have b: "unat (?h ! 1) = (if m then 128 else 0) + (if n < 126 then n else if n < 65536 then 126 else 127)"
    using header_byte [of n m] header_byte [of 126 m] header_byte [of 127 m]
    by (auto simp: frame_header_def Let_def)
  then show "unat (?h ! 1) \<ge> 128 \<longleftrightarrow> m" by auto
  have one: "(?h @ r) ! 1 = ?h ! 1" by (simp add: frame_header_def Let_def)
  have low: "unat ((?h @ r) ! 1) mod 128 = (if n < 126 then n else if n < 65536 then 126 else 127)"
    unfolding one b by auto
  show "frame_length (?h @ r) = Some (n, length ?h)"
  proof -
    consider "n < 126" | "126 \<le> n" "n < 65536" | "65536 \<le> n" by linarith
    then show ?thesis
    proof cases
      case 1
      then show ?thesis unfolding frame_length_def low by (simp add: frame_header_def Let_def)
    next
      case 2
      then have "be_nat (take 2 (drop 2 (?h @ r))) = n"
        by (simp add: frame_header_def Let_def be_nat_be_bytes)
      then show ?thesis using 2 unfolding frame_length_def low by (simp add: frame_header_def Let_def)
    next
      case 3
      have "take 8 (drop 2 (?h @ r)) = [0, 0, 0, 0] @ be_bytes 4 n"
        using 3 by (simp add: frame_header_def Let_def)
      moreover have "be_nat ([0, 0, 0, 0] @ bs) = be_nat bs" for bs by (simp add: be_nat_def)
      ultimately have "be_nat (take 8 (drop 2 (?h @ r))) = n" using n by (simp only: be_nat_be_bytes) simp
      then show ?thesis using 3 unfolding frame_length_def low by (simp add: frame_header_def Let_def)
    qed
  qed
qed

lemma parse_encoded:
  assumes "length p \<le> MAX_FRAME" "unat op < 16" "case key of None \<Rightarrow> True | Some k \<Rightarrow> length k = 4"
  shows "parse_one (encodeFrame op p key @ rest) = Frame True (unat op) p rest"
proof -
  let ?h = "frame_header op (length p) (key \<noteq> None)"
  let ?b = "case key of None \<Rightarrow> p | Some k \<Rightarrow> k @ apply_mask k p"
  note h = frame_header_parts [OF assms(1,2), of "key \<noteq> None"]
  have eq: "encodeFrame op p key @ rest = ?h @ ?b @ rest" by (simp add: encodeFrame_header)
  have z: "(?h @ ?b @ rest) ! 0 = ?h ! 0" "(?h @ ?b @ rest) ! 1 = ?h ! 1"
    using h(1) by (auto simp: nth_append)
  have fl: "frame_length (?h @ ?b @ rest) = Some (length p, length ?h)" by (rule h(4))
  have "(128 + unat op) mod 16 = unat op" using assms(2) by (simp add: mod_add_left_eq [of 128 16, symmetric])
  then have op: "unat (?h ! 0) mod 16 = unat op" using h(2) by simp
  have fin: "unat (?h ! 0) \<ge> 128" using h(2) by simp
  show ?thesis
  proof (cases key)
    case None
    then show ?thesis
      unfolding eq parse_one_def z fl
      using h(1,3) op fin assms(1) by (simp add: Let_def)
  next
    case (Some k)
    then show ?thesis
      unfolding eq parse_one_def z fl
      using h(1,3) op fin assms(1,3) by (simp add: Let_def)
  qed
qed

definition encode_message :: "message \<times> bytes option \<Rightarrow> bytes" where
  "encode_message m = encodeFrame (of_nat (fst (fst m))) (snd (fst m)) (snd m)"

definition sendable :: "message \<times> bytes option \<Rightarrow> bool" where
  "sendable m \<longleftrightarrow> 0 < fst (fst m) \<and> fst (fst m) < 16 \<and> length (snd (fst m)) \<le> MAX_FRAME \<and>
     (case snd m of None \<Rightarrow> True | Some k \<Rightarrow> length k = 4)"

lemma drain_messages:
  "list_all sendable ms \<Longrightarrow>
   drain_buffer (concat (map encode_message ms)) fr = ([], fr, False, map fst ms)"
proof (induction ms)
  case Nil
  then show ?case by (subst drain_buffer.simps) (simp add: parse_one_def)
next
  case (Cons m ms)
  obtain op p key where m: "m = ((op, p), key)" by (cases m) auto
  have s: "sendable m" using Cons.prems by simp
  have u: "unat (of_nat op :: byte) = op" using s m by (simp add: sendable_def unat_of_nat)
  have "parse_one (encode_message m @ concat (map encode_message ms)) =
      Frame True op p (concat (map encode_message ms))"
    using parse_encoded [of p "of_nat op" key] s m u by (simp add: encode_message_def sendable_def)
  moreover have "on_frame True op p fr = (fr, [(op, p)])"
    using s m by (auto simp: on_frame_def sendable_def)
  ultimately show ?case using Cons m by (subst drain_buffer.simps) simp
qed

text \<open>
  C25. Websocket messages survive the wire: whatever sequence of messages is encoded, masked
  or not, and however the bytes are cut into chunks on the way, the parser reports exactly
  these messages in order and is left with an empty buffer, ready for the next one.
\<close>

theorem websocket_roundtrip:
  assumes "list_all sendable ms" "concat cs = concat (map encode_message ms)"
  shows "snd (push_all cs (new_FrameParser False)) = map fst ms \<and>
    buffer (fst (push_all cs (new_FrameParser False))) = [] \<and>
    \<not> dead (fst (push_all cs (new_FrameParser False)))"
proof -
  have "drain_buffer [] None = ([], None, False, [])"
    by (subst drain_buffer.simps) (simp add: parse_one_def)
  then have "settled (new_FrameParser False)" by (simp add: settled_def new_FrameParser_def)
  from push_all_drain [OF this, of cs] show ?thesis
    using drain_messages [OF assms(1), of None] assms(2) by (simp add: new_FrameParser_def)
qed

theorem websocket_roundtrip_witness:
  "snd (push_all [[129], [2, 72], [105, 136, 128, 9, 9], [9, 9]] (new_FrameParser False)) =
     [(1, [72, 105]), (8, [])]"
proof -
  let ?ms = "[((1, [72, 105]), None), ((8, []), Some [9, 9, 9, 9])] :: (message \<times> bytes option) list"
  have "list_all sendable ?ms" by (simp add: sendable_def MAX_FRAME_def)
  moreover have "concat [[129], [2, 72], [105, 136, 128, 9, 9], [9, 9]] = concat (map encode_message ?ms)"
    by (simp add: encode_message_def encodeFrame_def apply_mask_def)
  ultimately have "snd (push_all [[129], [2, 72], [105, 136, 128, 9, 9], [9, 9]] (new_FrameParser False)) = map fst ?ms"
    by (intro websocket_roundtrip [THEN conjunct1])
  then show ?thesis by simp
qed

text \<open>A frame announcing more than the maximum stops the parser for good.\<close>

lemma dead_stays: "dead p \<Longrightarrow> parser_push c p = (p, [])"
  by (simp add: parser_push_def)

subsection \<open>The loop ends\<close>

text \<open>The loop of drain with a bound on its turns and the messages it has delivered so far; None
  when the bound is reached before one of its returns.\<close>

fun drain_turns ::
  "nat \<Rightarrow> bytes \<Rightarrow> (nat \<times> bytes list) option \<Rightarrow> message list \<Rightarrow>
   (bytes \<times> (nat \<times> bytes list) option \<times> bool \<times> message list) option" where
  "drain_turns 0 buf fr out = None"
| "drain_turns (Suc n) buf fr out =
     (case parse_one buf of
        NeedMore \<Rightarrow> Some (buf, fr, False, out)
      | TooLong \<Rightarrow> Some ([], fr, True, out)
      | Frame fin opcode payload rest \<Rightarrow>
          (case on_frame fin opcode payload fr of (fr', ms) \<Rightarrow> drain_turns n rest fr' (out @ ms)))"

lemma parse_one_takes_head: "parse_one buf = Frame f op p rest \<Longrightarrow> length rest + 2 \<le> length buf"
  by (auto simp: parse_one_def Let_def split: if_splits option.splits dest!: frame_length_offset)

lemma drain_turns_enough:
  "length buf div 2 < n \<Longrightarrow>
   drain_turns n buf fr out = Some (case drain_buffer buf fr of (b, f, d, ms) \<Rightarrow> (b, f, d, out @ ms))"
proof (induction n buf fr out rule: drain_turns.induct)
  case (2 n buf fr out)
  show ?case
  proof (cases "parse_one buf")
    case (Frame f op p rest)
    then have "length rest div 2 < n" using parse_one_takes_head [OF Frame] 2(2) by simp
    then show ?thesis using 2(1) [OF Frame] Frame by (simp add: drain_buffer.simps [of buf] split: prod.splits)
  qed (simp_all add: drain_buffer.simps [of buf])
qed simp

lemma on_frame_one: "length (snd (on_frame fin op p fr)) \<le> 1"
  by (simp add: on_frame_def split: option.split)

lemma drain_message_count: "length (snd (snd (snd (drain_buffer buf fr)))) \<le> length buf div 2"
proof (induction buf fr rule: drain_buffer.induct)
  case (1 buf fr)
  show ?case
  proof (cases "parse_one buf")
    case (Frame f op p rest)
    obtain fr' ms where o: "on_frame f op p fr = (fr', ms)" by fastforce
    have "length (snd (snd (snd (drain_buffer rest fr')))) \<le> length rest div 2"
      using "1.IH" [OF Frame] o by auto
    moreover have "length ms \<le> 1" using on_frame_one [of f op p fr] o by simp
    ultimately show ?thesis using parse_one_takes_head [OF Frame] Frame o
      by (cases "drain_buffer rest fr'") (simp add: drain_buffer.simps [of buf])
  qed (simp_all add: drain_buffer.simps [of buf])
qed

text \<open>
  C36. The endless loop of the parser ends: whatever the buffer holds, after at most half as many
  turns as it has bytes, and one more, the loop has returned with what the parser is specified to
  make of the buffer, and it has not delivered more messages than turns.
\<close>

theorem drain_returns:
  "\<exists>b f d ms. drain_turns (length buf div 2 + 1) buf fr [] = Some (b, f, d, ms) \<and>
     drain_buffer buf fr = (b, f, d, ms) \<and> length ms \<le> length buf div 2"
  using drain_turns_enough [of buf "length buf div 2 + 1" fr "[]"] drain_message_count [of buf fr]
  by (cases "drain_buffer buf fr") auto

end
