(* ===== verification/Sniff.thy ===== *)
theory Sniff
  imports Js Bytes
begin

text \<open>
  Protocol detection on the first bytes of a connection (src/server/lib/sniff.js). A detector
  returns nothing, or a name with an optional description, or throws: a checked read outside
  the buffer is Node's ERR_OUT_OF_RANGE. Text is decoded byte by byte; the descriptions are
  for display only.
\<close>

unbundle bit_operations_syntax

type_synonym detection = "(string \<times> string option) option"

definition RANGE_ERROR :: err where
  "RANGE_ERROR = Err ''ERR_OUT_OF_RANGE'' ''The value of offset is out of range''"

definition read16 :: "bytes \<Rightarrow> int \<Rightarrow> nat result" where
  "read16 buf off = (case read_be 2 buf off of None \<Rightarrow> Inl RANGE_ERROR | Some n \<Rightarrow> Inr n)"

definition read32 :: "bytes \<Rightarrow> int \<Rightarrow> nat result" where
  "read32 buf off = (case read_be 4 buf off of None \<Rightarrow> Inl RANGE_ERROR | Some n \<Rightarrow> Inr n)"

text \<open>buffer[i] where the code uses it as a number; undefined counts as 0 here, the callers
  check the bound first.\<close>

definition byte_at :: "bytes \<Rightarrow> int \<Rightarrow> nat" where
  "byte_at buf i = (case at buf i of None \<Rightarrow> 0 | Some b \<Rightarrow> unat b)"

definition CRLF :: string where
  "CRLF = [char_of (13 :: nat), char_of (10 :: nat)]"

definition DOT :: string where
  "DOT = '' '' @ [char_of (183 :: nat)] @ '' ''"

text \<open>list.filter(Boolean).join(sep) || null\<close>

definition joined :: "string \<Rightarrow> string option list \<Rightarrow> string option" where
  "joined sep xs =
     (let ys = filter (\<lambda>s. s \<noteq> []) (List.map_filter id xs)
      in if ys = [] then None else Some (join sep ys))"

text \<open>The loop of varint: 32-bit arithmetic, as the bitwise operators of JavaScript do it.\<close>

fun varint_loop :: "bytes \<Rightarrow> nat \<Rightarrow> nat \<Rightarrow> 32 word \<Rightarrow> (int \<times> nat) option" where
  "varint_loop [] i shift value = None"
| "varint_loop (b # bs) i shift value =
     (if shift \<ge> 35 then None
      else let value' = value OR push_bit shift (ucast (b AND 127))
           in if b AND 128 = 0 then Some (sint value', i + 1)
              else varint_loop bs (i + 1) (shift + 7) value')"

definition varint :: "bytes \<Rightarrow> nat \<Rightarrow> (int \<times> nat) option" where
  "varint buf offset = varint_loop (drop offset buf) offset 0 0"

subsection \<open>TLS\<close>

function alpn_loop :: "bytes \<Rightarrow> nat \<Rightarrow> string list" where
  "alpn_loop body cursor =
     (if cursor < length body
      then let size = unat (body ! cursor)
           in latin1 (take size (drop (cursor + 1) body)) # alpn_loop body (cursor + 1 + size)
      else [])"
  by pat_completeness auto
termination
  by (relation "measure (\<lambda>(body, cursor). length body - cursor)") auto

declare alpn_loop.simps [simp del]

text \<open>The loop over the extensions: the server name found last and the protocols collected.\<close>

function extensions_loop ::
  "bytes \<Rightarrow> nat \<Rightarrow> nat \<Rightarrow> string option \<Rightarrow> string list \<Rightarrow> (string option \<times> string list) result" where
  "extensions_loop buf end_at pos sni alpn =
     (if pos + 4 \<le> end_at
      then (case (read16 buf (int pos), read16 buf (int pos + 2)) of
              (Inr type, Inr len) \<Rightarrow>
                (let body = subarray buf (int pos + 4) (min (int end_at) (int pos + 4 + int len))
                 in case (if type = 0 \<and> length body \<ge> 5
                          then bind (read16 body 3) (\<lambda>n. Inr (Some (latin1 (subarray body 5 (5 + int n)))))
                          else Inr sni) of
                      Inl e \<Rightarrow> Inl e
                    | Inr sni' \<Rightarrow>
                        extensions_loop buf end_at (pos + 4 + len) sni'
                          (alpn @ (if type = 16 \<and> length body \<ge> 2 then alpn_loop body 2 else [])))
            | _ \<Rightarrow> Inl RANGE_ERROR)
      else Inr (sni, alpn))"
  by pat_completeness auto
termination
  by (relation "measure (\<lambda>(buf, end_at, pos, sni, alpn). end_at - pos)") auto

declare extensions_loop.simps [simp del]

definition TLS :: detection where
  "TLS = Some (''TLS'', None)"

definition sniff_tls :: "bytes \<Rightarrow> detection result" where
  "sniff_tls buf =
     (if length buf < 44 \<or> buf ! 0 \<noteq> 22 \<or> buf ! 1 \<noteq> 3 \<or> buf ! 5 \<noteq> 1 then Inr None
      else let p = 43; p = p + 1 + unat (buf ! p)
           in if p + 2 > length buf then Inr TLS
              else bind (read16 buf (int p)) (\<lambda>n. let p = p + 2 + n
                   in if p + 1 > length buf then Inr TLS
                      else let p = p + 1 + unat (buf ! p)
                           in if p + 2 > length buf then Inr TLS
                              else bind (read16 buf (int p)) (\<lambda>n.
                                   bind (extensions_loop buf (min (length buf) (p + 2 + n)) (p + 2) None []) (\<lambda>(sni, alpn).
                                   Inr (Some (''TLS'', joined DOT [sni, if alpn \<noteq> [] then Some (join '', '' alpn) else None]))))))"

subsection \<open>HTTP\<close>

definition HTTP_METHODS :: "string list" where
  "HTTP_METHODS = [''GET'', ''POST'', ''PUT'', ''PATCH'', ''DELETE'', ''HEAD'', ''OPTIONS'', ''CONNECT'', ''TRACE'']"

text \<open>The match of METHODS: the method and the path of a request line.\<close>

definition request_line :: "string \<Rightarrow> (string \<times> string) option" where
  "request_line head =
     (case find (\<lambda>m. starts_with (m @ '' '') head) HTTP_METHODS of
        None \<Rightarrow> None
      | Some m \<Rightarrow>
          let r = drop (length m + 1) head; path = takeWhile (\<lambda>c. \<not> is_space c) r;
              rest = drop (length path) r
          in if path \<noteq> [] \<and> (starts_with ('' HTTP/1.0'' @ CRLF) rest \<or> starts_with ('' HTTP/1.1'' @ CRLF) rest)
             then Some (m, path) else None)"

definition is_crlf :: "char \<Rightarrow> bool" where
  "is_crlf c \<longleftrightarrow> ord c = 13 \<or> ord c = 10"

text \<open>The capture of the host header: after the white space, up to the end of the line. When
  only white space is left the match gives one blank back.\<close>

definition host_header :: "string \<Rightarrow> string option" where
  "host_header head =
     (case index_of (CRLF @ ''host:'') (to_lower head) of
        None \<Rightarrow> None
      | Some i \<Rightarrow>
          let r = drop (i + 7) head; rest = dropWhile is_space r
          in if rest \<noteq> [] then Some (takeWhile (\<lambda>c. \<not> is_crlf c) rest)
             else (case dropWhile is_crlf (rev r) of [] \<Rightarrow> None | c # _ \<Rightarrow> Some [c]))"

definition sniff_http :: "bytes \<Rightarrow> detection result" where
  "sniff_http buf =
     (let head = latin1 (take 2048 buf)
      in if starts_with (''PRI * HTTP/2.0'' @ CRLF) head then Inr (Some (''HTTP/2'', None))
         else (case request_line head of
                 None \<Rightarrow> Inr None
               | Some (m, path) \<Rightarrow>
                   Inr (Some (''HTTP'', joined DOT [host_header head, Some (m @ '' '' @ path)]))))"

subsection \<open>Other TCP protocols\<close>

definition sniff_ssh :: "bytes \<Rightarrow> detection result" where
  "sniff_ssh buf =
     (if take 4 buf \<noteq> to_buf ''SSH-'' then Inr None
      else let text = latin1 (take 64 buf);
               line = (case index_of CRLF text of None \<Rightarrow> text | Some i \<Rightarrow> take i text)
           in Inr (Some (''SSH'', Some (take 48 line))))"

text \<open>pairs[params[i]] = params[i + 1], two at a time; a later value replaces an earlier one.\<close>

fun param_pairs :: "string list \<Rightarrow> (string, string) jsmap \<Rightarrow> (string, string) jsmap" where
  "param_pairs (k # v # ps) m = param_pairs ps (map_set k v m)"
| "param_pairs _ m = m"

definition sniff_postgres :: "bytes \<Rightarrow> detection result" where
  "sniff_postgres buf =
     (if length buf < 8 then Inr None
      else bind (read32 buf 0) (\<lambda>len. bind (read32 buf 4) (\<lambda>code.
           if code = 80877103 \<or> code = 80877104 then Inr (Some (''PostgreSQL'', None))
           else if code \<noteq> 196608 \<or> len > 10000 then Inr None
           else let params = split_on (char_of (0 :: nat)) (latin1 (subarray buf 8 (int (min len (length buf)))));
                    pairs = param_pairs params []
                in Inr (Some (''PostgreSQL'', joined '' @ '' [map_get pairs ''user'', map_get pairs ''database''])))))"

definition zero_from :: "bytes \<Rightarrow> nat \<Rightarrow> nat option" where
  "zero_from buf k = map_option (\<lambda>i. k + i) (index_of [0] (drop k buf))"

definition sniff_mysql :: "bytes \<Rightarrow> detection result" where
  "sniff_mysql buf =
     (if length buf < 6 \<or> buf ! 3 \<noteq> 0 \<or> buf ! 4 \<noteq> 10 then Inr None
      else (case zero_from buf 5 of
              None \<Rightarrow> Inr None
            | Some end_at \<Rightarrow>
                if end_at > 64 then Inr None
                else Inr (Some (''MySQL'', Some (latin1 (subarray buf 5 (int end_at)))))))"

text \<open>A symbol, digits and a line end: the parts of the pattern for Redis commands.\<close>

definition counted_line :: "char \<Rightarrow> string \<Rightarrow> string option" where
  "counted_line c s =
     (if s \<noteq> [] \<and> hd s = c
      then let ds = takeWhile is_digit (tl s); r = dropWhile is_digit (tl s)
           in if ds \<noteq> [] \<and> starts_with CRLF r then Some (drop 2 r) else None
      else None)"

definition sniff_redis :: "bytes \<Rightarrow> detection result" where
  "sniff_redis buf =
     (case counted_line CHR ''*'' (latin1 (take 64 buf)) of
        None \<Rightarrow> Inr None
      | Some r \<Rightarrow>
          (case counted_line CHR ''$'' r of
             None \<Rightarrow> Inr None
           | Some r' \<Rightarrow>
               let w = takeWhile (\<lambda>c. is_lower c \<or> is_upper c) r'
               in if w \<noteq> [] \<and> starts_with CRLF (drop (length w) r')
                  then Inr (Some (''Redis'', Some (to_upper w))) else Inr None))"

definition sniff_mqtt :: "bytes \<Rightarrow> detection result" where
  "sniff_mqtt buf =
     (if at buf 0 \<noteq> Some 16 then Inr None
      else (case varint buf 1 of
              None \<Rightarrow> Inr None
            | Some (_, p) \<Rightarrow>
                if length buf < p + 6 then Inr None
                else bind (read16 buf (int p)) (\<lambda>n.
                     if n \<noteq> 4 \<or> latin1 (subarray buf (int p + 2) (int p + 6)) \<noteq> ''MQTT'' then Inr None
                     else Inr (Some (''MQTT'', None)))))"

text \<open>The regular expression \<open>^[\w.:-]+$\<close>.\<close>

definition host_name :: "string \<Rightarrow> bool" where
  "host_name s \<longleftrightarrow> s \<noteq> [] \<and> list_all (\<lambda>c. is_alnum c \<or> c = CHR ''_'' \<or> c = CHR ''.'' \<or> c = CHR '':'' \<or> c = CHR ''-'') s"

definition sniff_minecraft :: "bytes \<Rightarrow> detection result" where
  "sniff_minecraft buf =
     (case varint buf 0 of
        None \<Rightarrow> Inr None
      | Some (_, p) \<Rightarrow>
          if at buf (int p) \<noteq> Some 0 then Inr None
          else (case varint buf (p + 1) of
             None \<Rightarrow> Inr None
           | Some (_, q) \<Rightarrow>
               (case varint buf q of
                  None \<Rightarrow> Inr None
                | Some (len, h) \<Rightarrow>
                    if len > 255 \<or> int h + len + 3 > int (length buf) then Inr None
                    else let name = latin1 (subarray buf (int h) (int h + len))
                         in bind (read16 buf (int h + len)) (\<lambda>port.
                            let state = at buf (int h + len + 2)
                            in if \<not> host_name name \<or> (state \<noteq> Some 1 \<and> state \<noteq> Some 2) then Inr None
                               else Inr (Some (''Minecraft'',
                                 Some (name @ '':'' @ show_nat port @ DOT @
                                       (if state = Some 1 then ''status'' else ''login''))))))))"

subsection \<open>UDP protocols\<close>

function labels_loop :: "bytes \<Rightarrow> nat \<Rightarrow> string list option" where
  "labels_loop buf p =
     (if p < length buf \<and> buf ! p \<noteq> 0
      then let size = unat (buf ! p)
           in if size > 63 \<or> p + 1 + size > length buf then None
              else map_option (Cons (latin1 (take size (drop (p + 1) buf)))) (labels_loop buf (p + 1 + size))
      else Some [])"
  by pat_completeness auto
termination
  by (relation "measure (\<lambda>(buf, p). length buf - p)") auto

declare labels_loop.simps [simp del]

definition sniff_dns :: "bytes \<Rightarrow> detection result" where
  "sniff_dns buf =
     (if length buf < 17 \<or> buf ! 2 AND 128 \<noteq> 0 then Inr None
      else bind (read16 buf 4) (\<lambda>n.
           if n \<noteq> 1 then Inr None
           else (case labels_loop buf 12 of
                   None \<Rightarrow> Inr None
                 | Some labels \<Rightarrow>
                     if labels = [] then Inr None else Inr (Some (''DNS'', Some (join ''.'' labels))))))"

definition sniff_wireguard :: "bytes \<Rightarrow> detection result" where
  "sniff_wireguard buf =
     (if length buf = 148 \<and> take 4 buf = [1, 0, 0, 0] then Inr (Some (''WireGuard'', None)) else Inr None)"

definition sniff_quic :: "bytes \<Rightarrow> detection result" where
  "sniff_quic buf =
     (if length buf \<ge> 5 \<and> buf ! 0 AND 192 = 192
      then bind (read32 buf 1) (\<lambda>v. if v = 1 then Inr (Some (''QUIC'', None)) else Inr None)
      else Inr None)"

definition TCP_IN :: "(bytes \<Rightarrow> detection result) list" where
  "TCP_IN = [sniff_tls, sniff_http, sniff_ssh, sniff_postgres, sniff_redis, sniff_mqtt, sniff_minecraft]"

definition TCP_OUT :: "(bytes \<Rightarrow> detection result) list" where
  "TCP_OUT = [sniff_ssh, sniff_mysql]"

definition UDP :: "(bytes \<Rightarrow> detection result) list" where
  "UDP = [sniff_dns, sniff_quic, sniff_wireguard]"

fun first_match :: "(bytes \<Rightarrow> detection result) list \<Rightarrow> bytes \<Rightarrow> detection result" where
  "first_match [] buf = Inr None"
| "first_match (d # ds) buf =
     bind (d buf) (\<lambda>r. case r of None \<Rightarrow> first_match ds buf | Some x \<Rightarrow> Inr (Some x))"

definition sniff :: "string \<Rightarrow> string \<Rightarrow> bytes \<Rightarrow> detection result" where
  "sniff protocol direction buf =
     (if buf = [] then Inr None
      else first_match (if protocol = ''udp'' then UDP else if direction = ''in'' then TCP_IN else TCP_OUT) buf)"

subsection \<open>Where detection can throw\<close>

definition throws :: "'a result \<Rightarrow> bool" where
  "throws r = (case r of Inl _ \<Rightarrow> True | Inr _ \<Rightarrow> False)"

lemma throws_simps [simp]: "throws (Inl e)" "\<not> throws (Inr x)"
  by (simp_all add: throws_def)

lemma throws_bind: "throws (bind r f) \<longleftrightarrow> (case r of Inl _ \<Rightarrow> True | Inr x \<Rightarrow> throws (f x))"
  by (cases r) simp_all

lemma read16_ok: "0 \<le> off \<Longrightarrow> off + 2 \<le> int (length buf) \<Longrightarrow> \<exists>n. read16 buf off = Inr n"
  by (simp add: read16_def read_be_def)

lemma read32_ok: "0 \<le> off \<Longrightarrow> off + 4 \<le> int (length buf) \<Longrightarrow> \<exists>n. read32 buf off = Inr n"
  by (simp add: read32_def read_be_def)

lemma first_match_safe: "\<forall>d \<in> set ds. \<not> throws (d buf) \<Longrightarrow> \<not> throws (first_match ds buf)"
  by (induction ds) (auto simp: throws_bind throws_def split: sum.splits option.splits)

lemma extensions_loop_safe: "end_at \<le> length buf \<Longrightarrow> \<not> throws (extensions_loop buf end_at pos sni alpn)"
proof (induction buf end_at pos sni alpn rule: extensions_loop.induct)
  case (1 buf end_at pos sni alpn)
  show ?case
  proof (cases "pos + 4 \<le> end_at")
    case True
    obtain t l where tl: "read16 buf (int pos) = Inr t" "read16 buf (int pos + 2) = Inr l"
      using read16_ok [of "int pos" buf] read16_ok [of "int pos + 2" buf] True "1.prems" by auto
    let ?body = "subarray buf (int pos + 4) (min (int end_at) (int pos + 4 + int l))"
    let ?r = "if t = 0 \<and> length ?body \<ge> 5
              then bind (read16 ?body 3) (\<lambda>n. Inr (Some (latin1 (subarray ?body 5 (5 + int n))))) else Inr sni"
    have "\<exists>s. ?r = Inr s"
      using read16_ok [of 3 ?body] by auto
    then obtain s where s: "?r = Inr s" ..
    show ?thesis
      using True tl s "1.IH" [OF True _ tl(1) tl(2) refl s] "1.prems"
      by (subst extensions_loop.simps) (simp add: Let_def)
  next
    case False
    then show ?thesis by (subst extensions_loop.simps) simp
  qed
qed

lemma detectors_safe:
  "\<not> throws (sniff_http b)" "\<not> throws (sniff_ssh b)" "\<not> throws (sniff_redis b)"
  "\<not> throws (sniff_mysql b)" "\<not> throws (sniff_wireguard b)"
  by (auto simp: sniff_http_def sniff_ssh_def sniff_redis_def sniff_mysql_def sniff_wireguard_def Let_def
      split: option.splits)

lemma sniff_dns_safe: "\<not> throws (sniff_dns b)"
  using read16_ok [of 4 b] by (auto simp: sniff_dns_def throws_bind split: option.splits sum.splits)

lemma sniff_quic_safe: "\<not> throws (sniff_quic b)"
  using read32_ok [of 1 b] by (auto simp: sniff_quic_def throws_bind split: sum.splits)

lemma sniff_postgres_safe: "\<not> throws (sniff_postgres b)"
proof (cases "length b < 8")
  case False
  then obtain m n where "read32 b 0 = Inr m" "read32 b 4 = Inr n"
    using read32_ok [of 0 b] read32_ok [of 4 b] by auto
  then show ?thesis by (simp add: sniff_postgres_def Let_def)
qed (simp add: sniff_postgres_def)

lemma sniff_mqtt_safe: "\<not> throws (sniff_mqtt b)"
proof (cases "varint b 1")
  case (Some r)
  then show ?thesis
    using read16_ok [of "int (snd r)" b]
    by (cases r) (auto simp: sniff_mqtt_def throws_bind split: sum.splits)
qed (simp add: sniff_mqtt_def)

lemma tls_reads:
  fixes f :: "nat \<Rightarrow> detection result"
  assumes "p + 2 \<le> length b" "\<And>n. \<not> throws (f n)"
  shows "\<not> throws (bind (read16 b (int p)) f)"
  using read16_ok [of "int p" b] assms by auto

lemma tls_extensions:
  fixes g :: "string option \<Rightarrow> string list \<Rightarrow> detection"
  shows "\<not> throws (bind (extensions_loop b (min (length b) k) q s a) (\<lambda>(sni, alpn). Inr (g sni alpn)))"
  using extensions_loop_safe [of "min (length b) k" b q s a]
  by (cases "extensions_loop b (min (length b) k) q s a") (auto split: prod.splits)

lemma if_safe: "(\<not> c \<Longrightarrow> \<not> throws r) \<Longrightarrow> \<not> throws (if c then Inr x else r)"
  by simp

lemma sniff_tls_safe: "\<not> throws (sniff_tls b)"
  unfolding sniff_tls_def Let_def TLS_def
  by (intro if_safe tls_reads tls_extensions) simp_all

text \<open>The one detector that can throw, and when: the announced host length is negative.\<close>

lemma sniff_minecraft_throws:
  assumes "throws (sniff_minecraft b)"
  shows "\<exists>q len h. varint b q = Some (len, h) \<and> len < 0"
proof -
  show ?thesis
  proof (rule ccontr)
    assume "\<not> ?thesis"
    then have nn: "varint b q = Some (len, h) \<Longrightarrow> 0 \<le> len" for q len h by force
    have "\<not> throws (bind (read16 b off) (\<lambda>port. if c then Inr None else Inr (f port)))"
      if "0 \<le> off" "off + 2 \<le> int (length b)" for off c and f :: "nat \<Rightarrow> detection"
      using read16_ok [OF that] by (auto split: if_splits)
    then have "\<not> throws (sniff_minecraft b)"
      unfolding sniff_minecraft_def Let_def using nn by (auto split: option.splits simp del: bind_Inr)
    with assms show False by simp
  qed
qed

text \<open>Eight bytes that look like a handshake with a negative host length.\<close>

definition crafted :: bytes where
  "crafted = [1, 0, 0, 247, 255, 255, 255, 15]"

lemma crafted_detectors:
  "sniff_tls crafted = Inr None" "sniff_http crafted = Inr None" "sniff_ssh crafted = Inr None"
  "sniff_redis crafted = Inr None" "sniff_mqtt crafted = Inr None"
  by code_simp+

lemma crafted_postgres: "sniff_postgres crafted = Inr None"
  by (simp add: sniff_postgres_def read32_def read_be_def be_nat_def crafted_def)

lemma crafted_minecraft: "sniff_minecraft crafted = Inl RANGE_ERROR"
  by code_simp

text \<open>
  C29. Detection on UDP and on the answers of a TCP service never throws, but eight bytes
  sent by a client make it throw on an inbound TCP connection: a Minecraft handshake whose
  host length is the negative number -9 passes the bounds check and the port is read at
  offset -1.
\<close>

theorem sniff_throws:
  "\<not> throws (sniff ''udp'' direction buf) \<and> \<not> throws (sniff ''tcp'' ''out'' buf) \<and>
   sniff ''tcp'' ''in'' crafted = Inl RANGE_ERROR"
proof -
  have "\<not> throws (sniff ''udp'' direction buf)"
    using first_match_safe [of UDP buf] detectors_safe [of buf] sniff_dns_safe [of buf] sniff_quic_safe [of buf]
    by (simp add: sniff_def UDP_def del: first_match.simps)
  moreover have "\<not> throws (sniff ''tcp'' ''out'' buf)"
    using first_match_safe [of TCP_OUT buf] detectors_safe [of buf]
    by (simp add: sniff_def TCP_OUT_def del: first_match.simps)
  moreover have "sniff ''tcp'' ''in'' crafted = Inl RANGE_ERROR"
    by (simp add: sniff_def TCP_IN_def crafted_detectors crafted_postgres crafted_minecraft) (simp add: crafted_def)
  ultimately show ?thesis by blast
qed

text \<open>On inbound TCP every detector before the last one is safe.\<close>

lemma sniff_in_throws:
  assumes "throws (sniff ''tcp'' ''in'' b)"
  shows "throws (sniff_minecraft b)"
proof (rule ccontr)
  assume "\<not> throws (sniff_minecraft b)"
  then have "\<forall>d \<in> set TCP_IN. \<not> throws (d b)"
    using detectors_safe [of b] sniff_tls_safe [of b] sniff_postgres_safe [of b] sniff_mqtt_safe [of b] by (simp add: TCP_IN_def)
  then have "\<not> throws (first_match TCP_IN b)" by (rule first_match_safe)
  then show False using assms by (auto simp: sniff_def split: if_splits)
qed

end
