(* ===== verification/Accounts.thy ===== *)
theory Accounts
  imports Password Base64 AccessStore
begin

text \<open>
  Accounts and everything that signs in as one: src/server/lib/accounts.js, lib/sessions.js,
  lib/invites.js, lib/totp.js, utils/auth.js, controllers/auth.js and middlewares/auth.js.

  The tables of the database are lists of rows in order of creation with a counter for the
  next id (the tables use AUTOINCREMENT, so ids are not reused). A query is find or filter,
  an update is map. Time, random bytes, SHA-256, scrypt and the TOTP check of speakeasy are
  arguments.
\<close>

record account =
  a_id :: nat
  a_username :: string
  a_passwordHash :: string
  a_role :: string
  a_totpSecret :: "string option"
  a_totpEnabled :: bool
  a_quotas :: "jsval option"
  a_createdAt :: time

record session_row =
  s_id :: nat
  s_accountId :: nat
  s_token :: string
  s_ip :: "string option"
  s_userAgent :: "string option"
  s_createdAt :: time
  s_lastSeen :: time

record device =
  d_id :: nat
  d_accountId :: nat
  d_name :: string
  d_kind :: string
  d_tokenHash :: bytes
  d_ip :: "string option"
  d_userAgent :: "string option"
  d_createdAt :: time
  d_lastUsedAt :: "time option"

record invite =
  n_id :: nat
  n_accountId :: nat
  n_label :: string
  n_tokenHash :: bytes
  n_createdAt :: time
  n_lastUsedAt :: "time option"
  n_uses :: nat

record db =
  accounts :: "account list"
  db_sessions :: "session_row list"
  devices :: "device list"
  invites :: "invite list"
  nextAccount :: nat
  nextSession :: nat
  nextDevice :: nat
  nextInvite :: nat

text \<open>The outcome of a handler: a value, a refusal with a status code, or an exception.\<close>

datatype 'a reply = Reply 'a | Refuse nat string | Throw err

definition TYPE_ERROR :: err where
  "TYPE_ERROR = Err ''ERR_INVALID_ARG_TYPE'' ''The argument must be a string''"

definition non_empty :: "string \<Rightarrow> string option" where
  "non_empty s = (if s = [] then None else Some s)"

subsection \<open>accounts.js\<close>

definition ROLES :: "string list" where
  "ROLES = [''admin'', ''user'']"

text \<open>The regular expression \<open>^[a-zA-Z0-9._-]{3,32}$\<close>.\<close>

definition USERNAME_REGEX :: "string \<Rightarrow> bool" where
  "USERNAME_REGEX s \<longleftrightarrow> 3 \<le> length s \<and> length s \<le> 32 \<and>
     list_all (\<lambda>c. is_alnum c \<or> c = CHR ''.'' \<or> c = CHR ''_'' \<or> c = CHR ''-'') s"

record account_view =
  av_id :: nat
  av_username :: string
  av_role :: string
  av_quotas :: "jsval option"
  av_createdAt :: time

definition describe_account :: "account \<Rightarrow> account_view" where
  "describe_account a =
     \<lparr>av_id = a_id a, av_username = a_username a, av_role = a_role a, av_quotas = a_quotas a,
      av_createdAt = a_createdAt a\<rparr>"

definition validate :: "jsval \<Rightarrow> jsval \<Rightarrow> string option" where
  "validate username password =
     (if username \<noteq> JUndef \<and> \<not> USERNAME_REGEX (string_or username [])
      then Some ''The username must be 3 to 32 letters, digits, dots, dashes or underscores''
      else if password \<noteq> JUndef \<and> length (string_or password []) < 8
      then Some ''The password must be at least 8 characters''
      else None)"

definition byUsername :: "jsval \<Rightarrow> db \<Rightarrow> account option" where
  "byUsername username d = find (\<lambda>a. a_username a = string_or username []) (accounts d)"

definition byId :: "nat \<Rightarrow> db \<Rightarrow> account option" where
  "byId i d = find (\<lambda>a. a_id a = i) (accounts d)"

definition account_count :: "db \<Rightarrow> nat" where
  "account_count d = length (accounts d)"

definition adminCount :: "db \<Rightarrow> nat" where
  "adminCount d = length (filter (\<lambda>a. a_role a = ''admin'') (accounts d))"

text \<open>hashPassword(v): scrypt takes strings only.\<close>

definition hash_value ::
  "(string \<Rightarrow> bytes \<Rightarrow> nat \<Rightarrow> bytes) \<Rightarrow> bytes \<Rightarrow> jsval \<Rightarrow> string result" where
  "hash_value scrypt salt v =
     (case v of JStr p \<Rightarrow> Inr (hashPassword scrypt salt p) | _ \<Rightarrow> Inl TYPE_ERROR)"

text \<open>Account.create: a username that is not a string or a number violates the column.\<close>

definition list_accounts :: "db \<Rightarrow> account_view list" where
  "list_accounts d = map describe_account (sort_key a_id (accounts d))"

definition insert_account ::
  "time \<Rightarrow> jsval \<Rightarrow> string \<Rightarrow> string \<Rightarrow> db \<Rightarrow> db result" where
  "insert_account now username hash role d =
     (let row = (\<lambda>u. d\<lparr>accounts := accounts d @
          [\<lparr>a_id = nextAccount d, a_username = u, a_passwordHash = hash, a_role = role,
            a_totpSecret = None, a_totpEnabled = False, a_quotas = None, a_createdAt = now\<rparr>],
          nextAccount := nextAccount d + 1\<rparr>)
      in case username of
           JStr u \<Rightarrow> Inr (row u)
         | JInt i \<Rightarrow> Inr (row (show_int i))
         | _ \<Rightarrow> Inl (Err ''ValidationError'' ''username''))"

definition create_account ::
  "(string \<Rightarrow> bytes \<Rightarrow> nat \<Rightarrow> bytes) \<Rightarrow> bytes \<Rightarrow> time \<Rightarrow> jsval \<Rightarrow> jsval \<Rightarrow> jsval \<Rightarrow> db \<Rightarrow> db \<times> account_view reply" where
  "create_account scrypt salt now username password role d =
     (let role = (if role = JUndef then JStr ''user'' else role)
      in case validate username password of
           Some problem \<Rightarrow> (d, Refuse 400 problem)
         | None \<Rightarrow>
             if role \<notin> JStr ` set ROLES
             then (d, Refuse 400 (''The role must be one of '' @ join '', '' ROLES))
             else if byUsername username d \<noteq> None then (d, Refuse 409 ''That username is taken'')
             else (case hash_value scrypt salt password of
                 Inl e \<Rightarrow> (d, Throw e)
               | Inr hash \<Rightarrow>
                   (case insert_account now username hash (js_string role) d of
                      Inl e \<Rightarrow> (d, Throw e)
                    | Inr d' \<Rightarrow>
                        (d', case byUsername username d' of
                               None \<Rightarrow> Throw TYPE_ERROR
                             | Some a \<Rightarrow> Reply (describe_account a)))))"

definition put_account :: "nat \<Rightarrow> (account \<Rightarrow> account) \<Rightarrow> db \<Rightarrow> db" where
  "put_account i f d = d\<lparr>accounts := map (\<lambda>a. if a_id a = i then f a else a) (accounts d)\<rparr>"

definition forAccount :: "nat \<Rightarrow> db \<Rightarrow> db" where
  "forAccount i d = d\<lparr>db_sessions := filter (\<lambda>s. s_accountId s \<noteq> i) (db_sessions d)\<rparr>"

text \<open>The values collected by update, written to the row.\<close>

definition updated_row :: "jsval \<Rightarrow> jsval \<Rightarrow> string \<Rightarrow> jsval \<Rightarrow> account \<Rightarrow> account \<Rightarrow> account" where
  "updated_row role password hash quotas acc a =
     a\<lparr>a_role := (if role \<noteq> JUndef \<and> role \<noteq> JStr (a_role acc) then js_string role else a_role a),
       a_passwordHash := (if password = JUndef then a_passwordHash a else hash),
       a_quotas := (if quotas = JUndef then a_quotas a else if truthy quotas then Some quotas else None)\<rparr>"

definition update_account ::
  "(string \<Rightarrow> bytes \<Rightarrow> nat \<Rightarrow> bytes) \<Rightarrow> bytes \<Rightarrow> nat \<Rightarrow> jsval \<Rightarrow> jsval \<Rightarrow> jsval \<Rightarrow> db \<Rightarrow> db \<times> account_view reply" where
  "update_account scrypt salt i role password quotas d =
     (case byId i d of
        None \<Rightarrow> (d, Refuse 404 ''That account does not exist'')
      | Some account \<Rightarrow>
          let change = (role \<noteq> JUndef \<and> role \<noteq> JStr (a_role account))
          in if change \<and> role \<notin> JStr ` set ROLES
             then (d, Refuse 400 (''The role must be one of '' @ join '', '' ROLES))
             else if change \<and> a_role account = ''admin'' \<and> adminCount d \<le> 1
             then (d, Refuse 409 ''The last admin cannot lose the role'')
             else (case (if password = JUndef then None else validate JUndef password) of
                 Some problem \<Rightarrow> (d, Refuse 400 problem)
               | None \<Rightarrow>
                   (case (if password = JUndef then Inr (a_passwordHash account) else hash_value scrypt salt password) of
                      Inl e \<Rightarrow> (d, Throw e)
                    | Inr hash \<Rightarrow>
                        let d2 = put_account i (updated_row role password hash quotas account)
                                   (if password = JUndef then d else forAccount i d)
                        in (d2, case byId i d2 of None \<Rightarrow> Throw TYPE_ERROR | Some a \<Rightarrow> Reply (describe_account a)))))"

definition remove_account :: "nat \<Rightarrow> db \<Rightarrow> db \<times> unit reply" where
  "remove_account i d =
     (case byId i d of
        None \<Rightarrow> (d, Refuse 404 ''That account does not exist'')
      | Some account \<Rightarrow>
          if a_role account = ''admin'' \<and> adminCount d \<le> 1
          then (d, Refuse 409 ''The last admin cannot be deleted'')
          else (d\<lparr>db_sessions := filter (\<lambda>s. s_accountId s \<noteq> i) (db_sessions d),
                  devices := filter (\<lambda>v. d_accountId v \<noteq> i) (devices d),
                  invites := filter (\<lambda>v. n_accountId v \<noteq> i) (invites d),
                  accounts := filter (\<lambda>a. a_id a \<noteq> i) (accounts d)\<rparr>, Reply ()))"

text \<open>The password of an unknown account is checked against a fixed hash, so that both
  cases take the same time.\<close>

definition checkCredentials ::
  "(string \<Rightarrow> bytes \<Rightarrow> nat \<Rightarrow> bytes) \<Rightarrow> string \<Rightarrow> jsval \<Rightarrow> jsval \<Rightarrow> db \<Rightarrow> account option" where
  "checkCredentials scrypt ABSENT username password d =
     (let account = byUsername username d;
          matches = verifyPassword scrypt (string_or password [])
                      (case account of None \<Rightarrow> ABSENT | Some a \<Rightarrow> a_passwordHash a)
      in if matches then account else None)"

subsection \<open>sessions.js\<close>

definition SESSION_COOKIE :: string where
  "SESSION_COOKIE = ''tunlit-admin''"

definition SESSION_TTL :: time where
  "SESSION_TTL = 7 * 24 * 60 * 60 * 1000"

definition TOUCH_AFTER :: time where
  "TOUCH_AFTER = 60000"

definition create_session ::
  "string \<Rightarrow> time \<Rightarrow> nat \<Rightarrow> string \<Rightarrow> string \<Rightarrow> db \<Rightarrow> db \<times> string" where
  "create_session token now accountId ip userAgent d =
     (d\<lparr>db_sessions := db_sessions d @
          [\<lparr>s_id = nextSession d, s_accountId = accountId, s_token = token, s_ip = non_empty ip,
            s_userAgent = non_empty userAgent, s_createdAt = now, s_lastSeen = now\<rparr>],
        nextSession := nextSession d + 1\<rparr>, token)"

record signed_in =
  in_account :: account
  in_username :: string
  in_role :: string
  in_device :: bool

definition get_session :: "time \<Rightarrow> string \<Rightarrow> db \<Rightarrow> db \<times> signed_in option" where
  "get_session now token d =
     (if token = [] then (d, None)
      else (case find (\<lambda>s. s_token s = token) (db_sessions d) of
              None \<Rightarrow> (d, None)
            | Some s \<Rightarrow>
                let gone = d\<lparr>db_sessions := filter (\<lambda>x. s_id x \<noteq> s_id s) (db_sessions d)\<rparr>
                in if now - s_lastSeen s > SESSION_TTL then (gone, None)
                   else (case byId (s_accountId s) d of
                           None \<Rightarrow> (gone, None)
                         | Some account \<Rightarrow>
                             (if now - s_lastSeen s > TOUCH_AFTER
                              then d\<lparr>db_sessions := map (\<lambda>x. if s_id x = s_id s then x\<lparr>s_lastSeen := now\<rparr> else x) (db_sessions d)\<rparr>
                              else d,
                              Some \<lparr>in_account = account, in_username = a_username account,
                                    in_role = a_role account, in_device = False\<rparr>))))"

definition remove_session :: "string \<Rightarrow> db \<Rightarrow> db" where
  "remove_session token d = d\<lparr>db_sessions := filter (\<lambda>s. s_token s \<noteq> token) (db_sessions d)\<rparr>"

definition sweep_sessions :: "time \<Rightarrow> db \<Rightarrow> db" where
  "sweep_sessions now d = d\<lparr>db_sessions := filter (\<lambda>s. \<not> s_lastSeen s < now - SESSION_TTL) (db_sessions d)\<rparr>"

definition parseCookies :: "string \<Rightarrow> (string \<times> string) list" where
  "parseCookies header =
     filter (\<lambda>(n, _). n \<noteq> []) (List.map_filter cookie_part (split_on CHR '';'' header))"

definition session_token :: "string \<Rightarrow> string option" where
  "session_token header =
     (case map_of (parseCookies header) SESSION_COOKIE of
        None \<Rightarrow> None | Some v \<Rightarrow> non_empty v)"

definition sessionCookie :: "string \<Rightarrow> bool \<Rightarrow> string" where
  "sessionCookie token secure =
     SESSION_COOKIE @ ''='' @ token @ ''; Path=/@tunlit; HttpOnly; SameSite=Lax; Max-Age='' @
     show_int (SESSION_TTL div 1000) @ (if secure then ''; Secure'' else [])"

definition clearSessionCookie :: "bool \<Rightarrow> string" where
  "clearSessionCookie secure =
     SESSION_COOKIE @ ''=; Path=/@tunlit; HttpOnly; SameSite=Lax; Max-Age=0'' @
     (if secure then ''; Secure'' else [])"

subsection \<open>invites.js\<close>

definition hashToken :: "(bytes \<Rightarrow> bytes) \<Rightarrow> string \<Rightarrow> bytes" where
  "hashToken sha256 token = sha256 (to_buf token)"

definition create_invite ::
  "(bytes \<Rightarrow> bytes) \<Rightarrow> bytes \<Rightarrow> time \<Rightarrow> nat \<Rightarrow> jsval \<Rightarrow> db \<Rightarrow> db \<times> (invite \<times> string) reply" where
  "create_invite sha256 rnd now accountId label d =
     (let name = trim (string_or label [])
      in if name = [] then (d, Refuse 400 ''Give the invite a label'')
         else let token = randomToken rnd;
                  v = \<lparr>n_id = nextInvite d, n_accountId = accountId, n_label = name,
                       n_tokenHash = hashToken sha256 token, n_createdAt = now, n_lastUsedAt = None, n_uses = 0\<rparr>
              in (d\<lparr>invites := invites d @ [v], nextInvite := nextInvite d + 1\<rparr>, Reply (v, token)))"

definition scoped :: "nat option \<Rightarrow> nat \<Rightarrow> bool" where
  "scoped accountId owner = (case accountId of None \<Rightarrow> True | Some i \<Rightarrow> owner = i)"

definition list_invites :: "nat option \<Rightarrow> db \<Rightarrow> (invite \<times> string option) list" where
  "list_invites accountId d =
     map (\<lambda>v. (v, if accountId = None then map_option a_username (byId (n_accountId v) d) else None))
       (sort_key (\<lambda>v. - n_createdAt v) (filter (\<lambda>v. scoped accountId (n_accountId v)) (invites d)))"

definition revoke_invite :: "nat \<Rightarrow> nat option \<Rightarrow> db \<Rightarrow> db \<times> string reply" where
  "revoke_invite i accountId d =
     (case find (\<lambda>v. n_id v = i \<and> scoped accountId (n_accountId v)) (invites d) of
        None \<Rightarrow> (d, Refuse 404 ''Invite not found'')
      | Some v \<Rightarrow> (d\<lparr>invites := filter (\<lambda>x. n_id x \<noteq> n_id v) (invites d)\<rparr>, Reply (n_label v @ '' revoked'')))"

definition verify_invite :: "(bytes \<Rightarrow> bytes) \<Rightarrow> jsval \<Rightarrow> db \<Rightarrow> invite option" where
  "verify_invite sha256 token d =
     (case token of
        JStr t \<Rightarrow> if t = [] then None else find (\<lambda>v. n_tokenHash v = hashToken sha256 t) (invites d)
      | _ \<Rightarrow> None)"

definition used :: "time \<Rightarrow> invite \<Rightarrow> db \<Rightarrow> db" where
  "used now v d =
     d\<lparr>invites := map (\<lambda>x. if n_id x = n_id v then x\<lparr>n_lastUsedAt := Some now, n_uses := n_uses v + 1\<rparr> else x) (invites d)\<rparr>"

definition linkFor :: "string \<Rightarrow> string \<Rightarrow> string" where
  "linkFor publicUrl token = publicUrl @ ''/@tunlit/invite/'' @ token"

subsection \<open>totp.js\<close>

type_synonym totp_check = "string \<Rightarrow> string \<Rightarrow> bool"

definition verify_totp :: "totp_check \<Rightarrow> string option \<Rightarrow> jsval \<Rightarrow> bool" where
  "verify_totp check secret code =
     check (case secret of None \<Rightarrow> [] | Some s \<Rightarrow> s) (filter (\<lambda>c. \<not> is_space c) (string_or code []))"

definition secretFor :: "string \<Rightarrow> account \<Rightarrow> db \<Rightarrow> db \<times> string" where
  "secretFor generated account d =
     (case a_totpSecret account of
        Some s \<Rightarrow> (d, s)
      | None \<Rightarrow> (put_account (a_id account) (\<lambda>a. a\<lparr>a_totpSecret := Some generated\<rparr>) d, generated))"

definition begin_totp :: "string \<Rightarrow> account \<Rightarrow> db \<Rightarrow> db \<times> string reply" where
  "begin_totp generated account d =
     (if a_totpEnabled account then (d, Refuse 409 ''Two-factor is already on for this account'')
      else (case secretFor generated account d of (d', s) \<Rightarrow> (d', Reply s)))"

definition enable_totp :: "totp_check \<Rightarrow> account \<Rightarrow> jsval \<Rightarrow> db \<Rightarrow> db \<times> unit reply" where
  "enable_totp check account code d =
     (if a_totpEnabled account then (d, Refuse 409 ''Two-factor is already on for this account'')
      else if a_totpSecret account = None then (d, Refuse 409 ''Start the setup first'')
      else if \<not> verify_totp check (a_totpSecret account) code
      then (d, Refuse 401 ''That code is not right. Check your clock and try the next one.'')
      else (forAccount (a_id account) (put_account (a_id account) (\<lambda>a. a\<lparr>a_totpEnabled := True\<rparr>) d), Reply ()))"

definition disable_totp :: "totp_check \<Rightarrow> account \<Rightarrow> jsval \<Rightarrow> db \<Rightarrow> db \<times> unit reply" where
  "disable_totp check account code d =
     (if \<not> a_totpEnabled account then (d, Refuse 409 ''Two-factor is already off'')
      else if \<not> verify_totp check (a_totpSecret account) code then (d, Refuse 401 ''That code is not right'')
      else (put_account (a_id account) (\<lambda>a. a\<lparr>a_totpEnabled := False, a_totpSecret := None\<rparr>) d, Reply ()))"

subsection \<open>controllers/auth.js\<close>

definition login ::
  "(string \<Rightarrow> bytes \<Rightarrow> nat \<Rightarrow> bytes) \<Rightarrow> string \<Rightarrow> totp_check \<Rightarrow> string \<Rightarrow> time \<Rightarrow> jsval \<Rightarrow> string \<Rightarrow> string \<Rightarrow> db \<Rightarrow>
   db \<times> (string \<times> account) reply" where
  "login scrypt ABSENT check token now body ip userAgent d =
     (if account_count d = 0 then (d, Refuse 409 ''The server has not been set up yet'')
      else (case checkCredentials scrypt ABSENT (js_get body ''username'') (js_get body ''password'') d of
              None \<Rightarrow> (d, Refuse 401 ''Username or password incorrect'')
            | Some account \<Rightarrow>
                let code = js_get body ''code''
                in if a_totpEnabled account \<and> \<not> truthy code
                   then (d, Refuse 202 ''This account asks for a code from your authenticator'')
                   else if a_totpEnabled account \<and> \<not> verify_totp check (a_totpSecret account) code
                   then (d, Refuse 401 ''That code is not right or has expired'')
                   else (case create_session token now (a_id account) ip userAgent d of
                           (d', t) \<Rightarrow> (d', Reply (t, account)))))"

definition checkAccountCredentials ::
  "(string \<Rightarrow> bytes \<Rightarrow> nat \<Rightarrow> bytes) \<Rightarrow> string \<Rightarrow> jsval \<Rightarrow> jsval \<Rightarrow> db \<Rightarrow> bool" where
  "checkAccountCredentials scrypt ABSENT username password d =
     (case checkCredentials scrypt ABSENT username password d of
        None \<Rightarrow> False | Some a \<Rightarrow> \<not> a_totpEnabled a)"

definition logout :: "string \<Rightarrow> db \<Rightarrow> db" where
  "logout token d = remove_session token d"

subsection \<open>Invariants\<close>

definition accounts_inv :: "db \<Rightarrow> bool" where
  "accounts_inv d \<longleftrightarrow>
     distinct (map a_id (accounts d)) \<and> list_all (\<lambda>a. a_id a < nextAccount d) (accounts d) \<and>
     distinct (map a_username (accounts d)) \<and> list_all (\<lambda>a. a_role a \<in> set ROLES) (accounts d)"

datatype account_op =
    CreateAccount bytes time jsval jsval jsval
  | UpdateAccount bytes nat jsval jsval jsval
  | RemoveAccount nat

fun account_step :: "(string \<Rightarrow> bytes \<Rightarrow> nat \<Rightarrow> bytes) \<Rightarrow> account_op \<Rightarrow> db \<Rightarrow> db" where
  "account_step scrypt (CreateAccount salt now u p r) d = fst (create_account scrypt salt now u p r d)"
| "account_step scrypt (UpdateAccount salt i r p q) d = fst (update_account scrypt salt i r p q d)"
| "account_step scrypt (RemoveAccount i) d = fst (remove_account i d)"

definition other_admins :: "nat \<Rightarrow> db \<Rightarrow> nat" where
  "other_admins i d = length (filter (\<lambda>a. a_role a = ''admin'' \<and> a_id a \<noteq> i) (accounts d))"

lemma byId_SomeD: "byId i d = Some a \<Longrightarrow> a \<in> set (accounts d) \<and> a_id a = i"
  by (auto simp: byId_def find_Some_iff)

lemma adminCount_split:
  assumes "distinct (map a_id (accounts d))" "byId i d = Some acc"
  shows "adminCount d = other_admins i d + (if a_role acc = ''admin'' then 1 else 0)"
proof -
  have "length (filter (\<lambda>a. a_role a = ''admin'') xs) =
      length (filter (\<lambda>a. a_role a = ''admin'' \<and> a_id a \<noteq> i) xs) + (if a_role acc = ''admin'' then 1 else 0)"
    if "distinct (map a_id xs)" "find (\<lambda>a. a_id a = i) xs = Some acc" for xs
    using that
  proof (induction xs)
    case (Cons x xs)
    show ?case
    proof (cases "a_id x = i")
      case True
      then have x: "x = acc" using Cons.prems(2) by simp
      have "\<forall>a \<in> set xs. a_id a \<noteq> i" using Cons.prems(1) True by (metis distinct.simps(2) image_eqI list.set_map list.simps(9))
      then have "filter (\<lambda>a. a_role a = ''admin'' \<and> a_id a \<noteq> i) xs = filter (\<lambda>a. a_role a = ''admin'') xs"
        by (intro filter_cong) auto
      then show ?thesis using True x by simp
    next
      case False
      then show ?thesis using Cons by simp
    qed
  qed simp
  then show ?thesis using assms by (simp add: adminCount_def other_admins_def byId_def)
qed

lemma other_admins_update:
  "other_admins i (put_account i f d) = other_admins i d" if "\<And>a. a_id (f a) = a_id a"
proof -
  have "length (filter (\<lambda>a. a_role a = ''admin'' \<and> a_id a \<noteq> i) (map (\<lambda>a. if a_id a = i then f a else a) xs)) =
      length (filter (\<lambda>a. a_role a = ''admin'' \<and> a_id a \<noteq> i) xs)" for xs
    using that by (induction xs) auto
  then show ?thesis by (simp add: other_admins_def put_account_def)
qed

lemma put_account_ids:
  assumes "\<And>a. a_id (f a) = a_id a"
  shows "map a_id (accounts (put_account i f d)) = map a_id (accounts d)"
  using assms by (simp add: put_account_def)

lemma byId_put:
  assumes "\<And>a. a_id (f a) = a_id a" "byId i d = Some acc"
  shows "byId i (put_account i f d) = Some (f acc)"
proof -
  have "find (\<lambda>a. a_id a = i) (map (\<lambda>a. if a_id a = i then f a else a) xs) =
      map_option f (find (\<lambda>a. a_id a = i) xs)" for xs
    using assms(1) by (induction xs) auto
  then show ?thesis using assms(2) by (simp add: byId_def put_account_def)
qed

lemma update_account_cases:
  obtains (same) "fst (update_account sc salt i r p q d) = d"
    "\<not> (\<exists>v. snd (update_account sc salt i r p q d) = Reply v)"
  | (changed) acc hash where "byId i d = Some acc"
      "r \<noteq> JUndef \<and> r \<noteq> JStr (a_role acc) \<longrightarrow> r \<in> JStr ` set ROLES"
      "r \<noteq> JUndef \<and> r \<noteq> JStr (a_role acc) \<and> a_role acc = ''admin'' \<longrightarrow> adminCount d > 1"
      "fst (update_account sc salt i r p q d) =
         put_account i (updated_row r p hash q acc) (if p = JUndef then d else forAccount i d)"
proof (cases "byId i d")
  case None
  then show thesis by (intro same) (simp_all add: update_account_def)
next
  case (Some acc)
  let ?change = "r \<noteq> JUndef \<and> r \<noteq> JStr (a_role acc)"
  let ?v = "if p = JUndef then None else validate JUndef p"
  let ?h = "if p = JUndef then Inr (a_passwordHash acc) else hash_value sc salt p"
  have eq: "update_account sc salt i r p q d =
      (if ?change \<and> r \<notin> JStr ` set ROLES then (d, Refuse 400 (''The role must be one of '' @ join '', '' ROLES))
       else if ?change \<and> a_role acc = ''admin'' \<and> adminCount d \<le> 1 then (d, Refuse 409 ''The last admin cannot lose the role'')
       else (case ?v of Some problem \<Rightarrow> (d, Refuse 400 problem)
         | None \<Rightarrow> (case ?h of Inl e \<Rightarrow> (d, Throw e)
           | Inr hash \<Rightarrow> (let d2 = put_account i (updated_row r p hash q acc) (if p = JUndef then d else forAccount i d)
               in (d2, case byId i d2 of None \<Rightarrow> Throw TYPE_ERROR | Some a \<Rightarrow> Reply (describe_account a))))))"
    using Some by (simp add: update_account_def Let_def)
  consider (a) "?change \<and> r \<notin> JStr ` set ROLES" | (b) "?change \<and> a_role acc = ''admin'' \<and> adminCount d \<le> 1"
    | (c) x where "?v = Some x" | (e) e where "?h = Inl e"
    | (ok) hash where "\<not> (?change \<and> r \<notin> JStr ` set ROLES)"
        "\<not> (?change \<and> a_role acc = ''admin'' \<and> adminCount d \<le> 1)" "?v = None" "?h = Inr hash"
    by (cases ?v; cases ?h) blast+
  then show thesis
  proof cases
    case (ok hash)
    have "fst (update_account sc salt i r p q d) =
         put_account i (updated_row r p hash q acc) (if p = JUndef then d else forAccount i d)"
      unfolding eq if_not_P [OF ok(1)] if_not_P [OF ok(2)] ok(3,4) by (simp add: Let_def)
    then show thesis using ok(1,2) by (intro changed [OF Some]) auto
  qed (intro same, unfold eq, auto split: option.splits sum.splits)+
qed

lemma updated_row_ids [simp]:
  "a_id (updated_row r p h q acc a) = a_id a" "a_username (updated_row r p h q acc a) = a_username a"
  by (simp_all add: updated_row_def)

lemma forAccount_accounts [simp]:
  "accounts (forAccount i d) = accounts d" "nextAccount (forAccount i d) = nextAccount d"
  by (simp_all add: forAccount_def)

lemma put_account_names:
  "(\<And>a. a_username (f a) = a_username a) \<Longrightarrow>
   map a_username (accounts (put_account i f d)) = map a_username (accounts d)"
  by (simp add: put_account_def)

lemma create_account_cases:
  obtains (same) "fst (create_account sc salt now u p r d) = d"
  | (added) name hash role where "role \<in> set ROLES" "\<forall>a \<in> set (accounts d). a_username a \<noteq> name"
      "fst (create_account sc salt now u p r d) = d\<lparr>accounts := accounts d @
          [\<lparr>a_id = nextAccount d, a_username = name, a_passwordHash = hash, a_role = role,
            a_totpSecret = None, a_totpEnabled = False, a_quotas = None, a_createdAt = now\<rparr>],
          nextAccount := nextAccount d + 1\<rparr>"
proof (cases "fst (create_account sc salt now u p r d) = d")
  case True
  then show thesis by (rule same)
next
  case False
  let ?role = "if r = JUndef then JStr ''user'' else r"
  have roles: "?role \<in> JStr ` set ROLES" and free: "byUsername u d = None"
    and valid: "validate u p = None"
    using False by (auto simp: create_account_def Let_def split: option.splits if_splits)
  then obtain rl where rl: "?role = JStr rl" "rl \<in> set ROLES" by blast
  obtain hash where h: "hash_value sc salt p = Inr hash"
    using False roles free valid by (auto simp: create_account_def Let_def split: sum.splits)
  obtain d' where d': "insert_account now u hash (js_string ?role) d = Inr d'"
    using False roles free valid h by (auto simp: create_account_def Let_def split: sum.splits)
  have fstd: "fst (create_account sc salt now u p r d) = d'"
    using roles free valid h d' by (simp add: create_account_def Let_def)
  have fr: "\<forall>a \<in> set (accounts d). a_username a \<noteq> string_or u []"
    using free by (auto simp: byUsername_def find_None_iff)
  have rl': "js_string ?role = rl" using rl(1) by simp
  show thesis
  proof (cases u)
    case (JStr x)
    then have "string_or u [] = x" by (simp add: string_or_def)
    then show thesis using d' fstd fr rl(2) JStr
      by (intro added [of rl x hash]) (auto simp: insert_account_def rl' Let_def)
  next
    case (JInt x)
    have "x \<noteq> 0"
    proof
      assume "x = 0"
      then have "\<not> USERNAME_REGEX (string_or u [])" using JInt by (simp add: string_or_def USERNAME_REGEX_def)
      then show False using valid JInt by (simp add: validate_def)
    qed
    then have "string_or u [] = show_int x" using JInt by (simp add: string_or_def)
    then show thesis using d' fstd fr rl(2) JInt
      by (intro added [of rl "show_int x" hash]) (auto simp: insert_account_def rl' Let_def)
  qed (use d' in \<open>auto simp: insert_account_def Let_def\<close>)
qed

lemma create_step:
  assumes "accounts_inv d"
  shows "accounts_inv (fst (create_account sc salt now u p r d)) \<and>
    adminCount (fst (create_account sc salt now u p r d)) \<ge> adminCount d"
proof (rule create_account_cases [of sc salt now u p r d])
  assume "fst (create_account sc salt now u p r d) = d"
  then show ?thesis using assms by simp
next
  fix name hash role
  assume "role \<in> set ROLES" "\<forall>a \<in> set (accounts d). a_username a \<noteq> name"
    "fst (create_account sc salt now u p r d) = d\<lparr>accounts := accounts d @
          [\<lparr>a_id = nextAccount d, a_username = name, a_passwordHash = hash, a_role = role,
            a_totpSecret = None, a_totpEnabled = False, a_quotas = None, a_createdAt = now\<rparr>],
          nextAccount := nextAccount d + 1\<rparr>"
  then show ?thesis using assms
    by (auto simp: accounts_inv_def adminCount_def list_all_iff less_Suc_eq)
qed

lemma update_step:
  assumes "accounts_inv d" "adminCount d \<ge> 1"
  shows "accounts_inv (fst (update_account sc salt i r p q d)) \<and>
    adminCount (fst (update_account sc salt i r p q d)) \<ge> 1"
proof (rule update_account_cases [of sc salt i r p q d])
  assume "fst (update_account sc salt i r p q d) = d"
  then show ?thesis using assms by simp
next
  fix acc hash
  let ?f = "updated_row r p hash q acc" and ?d1 = "if p = JUndef then d else forAccount i d"
  let ?change = "r \<noteq> JUndef \<and> r \<noteq> JStr (a_role acc)"
  assume acc: "byId i d = Some acc" and role: "?change \<longrightarrow> r \<in> JStr ` set ROLES"
    and last: "r \<noteq> JUndef \<and> r \<noteq> JStr (a_role acc) \<and> a_role acc = ''admin'' \<longrightarrow> adminCount d > 1"
    and eq: "fst (update_account sc salt i r p q d) = put_account i ?f ?d1"
  have d1: "accounts ?d1 = accounts d" "nextAccount ?d1 = nextAccount d" "byId i ?d1 = Some acc"
    using acc by (simp_all add: byId_def)
  have ids: "map a_id (accounts (put_account i ?f ?d1)) = map a_id (accounts d)"
    "map a_username (accounts (put_account i ?f ?d1)) = map a_username (accounts d)"
    using put_account_ids [of ?f i ?d1] put_account_names [of ?f i ?d1] d1 by simp_all
  have roles: "\<forall>a \<in> set (accounts (put_account i ?f ?d1)). a_role a \<in> set ROLES"
    using assms(1) role d1(1) by (auto simp: put_account_def updated_row_def accounts_inv_def list_all_iff)
  have lt: "\<forall>a \<in> set (accounts (put_account i ?f ?d1)). a_id a < nextAccount (put_account i ?f ?d1)"
    using assms(1) d1(1,2) by (auto simp: put_account_def accounts_inv_def list_all_iff)
  have inv: "accounts_inv (put_account i ?f ?d1)"
    using ids roles lt assms(1) unfolding accounts_inv_def list_all_iff by simp
  have dist: "distinct (map a_id (accounts d))" using assms(1) by (simp add: accounts_inv_def)
  have split: "adminCount d = other_admins i d + (if a_role acc = ''admin'' then 1 else 0)"
    by (rule adminCount_split [OF dist acc])
  have o: "other_admins i (put_account i ?f ?d1) = other_admins i d"
    using other_admins_update [of ?f i ?d1] d1(1) by (simp add: other_admins_def)
  have b: "byId i (put_account i ?f ?d1) = Some (?f acc)" using byId_put [of ?f i ?d1 acc] d1(3) by simp
  have "adminCount (put_account i ?f ?d1) = other_admins i d + (if a_role (?f acc) = ''admin'' then 1 else 0)"
    using adminCount_split [OF _ b] ids(1) dist o by simp
  then have "adminCount (put_account i ?f ?d1) \<ge> 1"
    using split last assms(2) by (cases ?change) (auto simp: updated_row_def split: if_splits)
  then show ?thesis using inv eq by simp
qed

lemma remove_step:
  assumes "accounts_inv d" "adminCount d \<ge> 1"
  shows "accounts_inv (fst (remove_account i d)) \<and> adminCount (fst (remove_account i d)) \<ge> 1"
proof (cases "byId i d")
  case None
  then show ?thesis using assms by (simp add: remove_account_def)
next
  case (Some acc)
  have dist: "distinct (map a_id (accounts d))" using assms(1) by (simp add: accounts_inv_def)
  have split: "adminCount d = other_admins i d + (if a_role acc = ''admin'' then 1 else 0)"
    by (rule adminCount_split [OF dist Some])
  have inv: "accounts_inv (fst (remove_account i d))"
    using assms(1) Some
    by (auto simp: remove_account_def accounts_inv_def list_all_iff distinct_map_filter)
  have c: "length (filter (\<lambda>a. a_role a = ''admin'') (filter (\<lambda>a. a_id a \<noteq> i) (accounts d))) = other_admins i d"
    by (simp add: other_admins_def conj_commute)
  show ?thesis
    using assms(2) Some split c inv by (auto simp: remove_account_def adminCount_def)
qed


definition sample_db :: db where
  "sample_db = \<lparr>accounts = [\<lparr>a_id = 1, a_username = ''root'', a_passwordHash = ''scrypt$00$00'', a_role = ''admin'',
     a_totpSecret = None, a_totpEnabled = False, a_quotas = None, a_createdAt = 0\<rparr>],
     db_sessions = [\<lparr>s_id = 1, s_accountId = 1, s_token = ''t'', s_ip = None, s_userAgent = None, s_createdAt = 0, s_lastSeen = 0\<rparr>],
     devices = [], invites = [], nextAccount = 2, nextSession = 2, nextDevice = 1, nextInvite = 1\<rparr>"


subsection \<open>Sessions\<close>

lemma get_session_sound:
  "snd (get_session now token d) = Some x \<Longrightarrow>
   \<exists>s \<in> set (db_sessions d). s_token s = token \<and> now - s_lastSeen s \<le> SESSION_TTL \<and>
     byId (s_accountId s) d = Some (in_account x) \<and> in_role x = a_role (in_account x)"
  by (auto simp: get_session_def Let_def find_Some_iff split: if_splits option.splits)

lemma update_ends_sessions:
  assumes "p \<noteq> JUndef" "snd (update_account sc salt i r p q d) = Reply v"
  shows "\<forall>s \<in> set (db_sessions (fst (update_account sc salt i r p q d))). s_accountId s \<noteq> i"
proof (rule update_account_cases [of sc salt i r p q d])
  assume "\<not> (\<exists>v. snd (update_account sc salt i r p q d) = Reply v)"
  then show ?thesis using assms(2) by simp
next
  fix acc hash
  assume "fst (update_account sc salt i r p q d) =
      put_account i (updated_row r p hash q acc) (if p = JUndef then d else forAccount i d)"
  then show ?thesis using assms(1) by (simp add: put_account_def forAccount_def)
qed

text \<open>
  A new password signs everyone out: after a successful change of the password of an
  account no session token whatsoever is accepted for that account, whenever it is presented.
\<close>

theorem password_change_signs_out:
  assumes "p \<noteq> JUndef" "snd (update_account scrypt salt i r p q d) = Reply v"
  shows "case snd (get_session now token (fst (update_account scrypt salt i r p q d))) of
    None \<Rightarrow> True | Some x \<Rightarrow> a_id (in_account x) \<noteq> i"
proof (cases "snd (get_session now token (fst (update_account scrypt salt i r p q d)))")
  case (Some x)
  let ?d = "fst (update_account scrypt salt i r p q d)"
  obtain s where s: "s \<in> set (db_sessions ?d)" "byId (s_accountId s) ?d = Some (in_account x)"
    using get_session_sound [OF Some] by blast
  have "s_accountId s \<noteq> i" using update_ends_sessions [OF assms] s(1) by blast
  moreover have "a_id (in_account x) = s_accountId s" using byId_SomeD [OF s(2)] by simp
  ultimately show ?thesis unfolding Some by simp
qed simp

theorem password_change_signs_out_witness:
  "case snd (get_session 5 ''t'' (fst (update_account (\<lambda>p s n. replicate n 0) [1] 1 JUndef (JStr ''longenough'') JUndef sample_db))) of
     None \<Rightarrow> True | Some x \<Rightarrow> a_id (in_account x) \<noteq> 1"
proof -
  have "\<exists>v. snd (update_account (\<lambda>p s n. replicate n 0) [1] 1 JUndef (JStr ''longenough'') JUndef sample_db) = Reply v"
    by (simp add: update_account_def sample_db_def byId_def validate_def string_or_def hash_value_def
        put_account_def forAccount_def updated_row_def Let_def)
  then obtain v where v: "snd (update_account (\<lambda>p s n. replicate n 0) [1] 1 JUndef (JStr ''longenough'') JUndef sample_db) = Reply v"
    by blast
  show ?thesis by (rule password_change_signs_out [OF _ v]) simp
qed

text \<open>The same for a removed account: there is no account left to sign in as.\<close>

lemma removed_signed_out:
  assumes "snd (remove_account i d) = Reply ()" "snd (get_session now token (fst (remove_account i d))) = Some x"
  shows "a_id (in_account x) \<noteq> i"
proof -
  obtain k where "byId k (fst (remove_account i d)) = Some (in_account x)"
    using get_session_sound [OF assms(2)] by blast
  then have "in_account x \<in> set (accounts (fst (remove_account i d)))" using byId_SomeD by blast
  then show ?thesis using assms(1) by (auto simp: remove_account_def split: option.splits if_splits)
qed

end
