(* ===== verification/Devices.thy ===== *)
theory Devices
  imports Accounts
begin

text \<open>
  Devices and API keys (src/server/lib/devices.js), the credentials they give
  (src/server/utils/auth.js) and the middlewares that admit a request
  (src/server/middlewares/auth.js). Pending device codes live in memory, devices in the
  database; random bytes, SHA-256 and the clock are arguments.
\<close>

definition DEVICE_CODE_TTL :: time where
  "DEVICE_CODE_TTL = 10 * 60 * 1000"

definition CODE_ALPHABET :: string where
  "CODE_ALPHABET = ''ABCDEFGHJKLMNPQRSTUVWXYZ23456789''"

definition CODE_LENGTH :: nat where
  "CODE_LENGTH = 8"

definition DEVICE_TOUCH_AFTER :: time where
  "DEVICE_TOUCH_AFTER = 60000"

text \<open>Eight letters with a dash after the fourth.\<close>

definition humanCode :: "bytes \<Rightarrow> string" where
  "humanCode rnd = (let s = randomFrom CODE_ALPHABET rnd in take 4 s @ ''-'' @ drop 4 s)"

record pending_request =
  p_code :: string
  p_pollToken :: string
  p_client :: string
  p_ip :: string
  p_userAgent :: string
  p_createdAt :: time
  p_expiresAt :: time
  p_status :: string
  p_issued :: "string option"

type_synonym pending = "(string, pending_request) jsmap"

record device_view =
  dv_id :: nat
  dv_name :: string
  dv_kind :: string
  dv_owner :: "string option"
  dv_createdAt :: time
  dv_lastUsedAt :: "time option"
  dv_ip :: "string option"
  dv_userAgent :: "string option"

definition describeDevice :: "device \<Rightarrow> string option \<Rightarrow> device_view" where
  "describeDevice v owner =
     \<lparr>dv_id = d_id v, dv_name = d_name v, dv_kind = d_kind v, dv_owner = owner,
      dv_createdAt = d_createdAt v, dv_lastUsedAt = d_lastUsedAt v, dv_ip = d_ip v, dv_userAgent = d_userAgent v\<rparr>"

definition sweep_pending :: "time \<Rightarrow> pending \<Rightarrow> pending" where
  "sweep_pending now m = filter (\<lambda>(_, r). \<not> p_expiresAt r < now) m"

definition createCode ::
  "bytes \<Rightarrow> bytes \<Rightarrow> time \<Rightarrow> string \<Rightarrow> string \<Rightarrow> string \<Rightarrow> pending \<Rightarrow> pending \<times> (string \<times> string \<times> time)" where
  "createCode rndCode rndPoll now client ip userAgent m =
     (let code = humanCode rndCode; pollToken = randomToken rndPoll; expiresAt = now + DEVICE_CODE_TTL
      in (map_set code
            \<lparr>p_code = code, p_pollToken = pollToken, p_client = client, p_ip = ip, p_userAgent = userAgent,
             p_createdAt = now, p_expiresAt = expiresAt, p_status = ''pending'', p_issued = None\<rparr>
            (sweep_pending now m),
          (code, pollToken, expiresAt)))"

definition get_pending :: "time \<Rightarrow> jsval \<Rightarrow> pending \<Rightarrow> pending \<times> pending_request option" where
  "get_pending now code m =
     (let m' = sweep_pending now m in (m', map_get m' (trim (to_upper (string_or code [])))))"

text \<open>Everything but the poll token and the issued token.\<close>

definition describe_pending ::
  "time \<Rightarrow> jsval \<Rightarrow> pending \<Rightarrow> pending \<times> (string \<times> string \<times> string \<times> string \<times> time \<times> time \<times> string) option" where
  "describe_pending now code m =
     (case get_pending now code m of (m', r) \<Rightarrow>
        (m', map_option (\<lambda>r. (p_code r, p_client r, p_ip r, p_userAgent r, p_createdAt r, p_expiresAt r, p_status r)) r))"

definition add_device ::
  "(bytes \<Rightarrow> bytes) \<Rightarrow> string \<Rightarrow> time \<Rightarrow> nat \<Rightarrow> string \<Rightarrow> string \<Rightarrow> string option \<Rightarrow> string option \<Rightarrow> db \<Rightarrow> db \<times> device" where
  "add_device sha256 token now accountId name kind ip userAgent d =
     (let v = \<lparr>d_id = nextDevice d, d_accountId = accountId, d_name = name, d_kind = kind,
               d_tokenHash = hashToken sha256 token, d_ip = ip, d_userAgent = userAgent,
               d_createdAt = now, d_lastUsedAt = None\<rparr>
      in (d\<lparr>devices := devices d @ [v], nextDevice := nextDevice d + 1\<rparr>, v))"

definition createKey ::
  "(bytes \<Rightarrow> bytes) \<Rightarrow> bytes \<Rightarrow> time \<Rightarrow> nat \<Rightarrow> jsval \<Rightarrow> db \<Rightarrow> db \<times> (device_view \<times> string) reply" where
  "createKey sha256 rnd now accountId name d =
     (let label = trim (string_or name [])
      in if label = [] then (d, Refuse 400 ''Give the key a name'')
         else let token = randomToken rnd
              in case add_device sha256 token now accountId label ''key'' None None d of
                   (d', v) \<Rightarrow> (d', Reply (describeDevice v None, token)))"

definition approve ::
  "(bytes \<Rightarrow> bytes) \<Rightarrow> bytes \<Rightarrow> time \<Rightarrow> jsval \<Rightarrow> jsval \<Rightarrow> nat \<Rightarrow> pending \<Rightarrow> db \<Rightarrow> pending \<times> db \<times> device_view reply" where
  "approve sha256 rnd now code name accountId m d =
     (case get_pending now code m of
        (m', None) \<Rightarrow> (m', d, Refuse 404 ''That code is unknown or has expired'')
      | (m', Some r) \<Rightarrow>
          if p_status r \<noteq> ''pending'' then (m', d, Refuse 409 ''That code was already used'')
          else let token = randomToken rnd; label = trim (string_or name []);
                   label = (if label \<noteq> [] then label else if p_client r \<noteq> [] then p_client r else ''CLI'')
               in case add_device sha256 token now accountId label ''device'' (non_empty (p_ip r)) (non_empty (p_userAgent r)) d of
                    (d', v) \<Rightarrow>
                      (map_set (p_code r) (r\<lparr>p_status := ''authorized'', p_issued := Some token\<rparr>) m', d',
                       Reply (describeDevice v None)))"

definition deny :: "time \<Rightarrow> jsval \<Rightarrow> pending \<Rightarrow> pending \<times> unit reply" where
  "deny now code m =
     (case get_pending now code m of
        (m', None) \<Rightarrow> (m', Refuse 404 ''That code is unknown or has expired'')
      | (m', Some r) \<Rightarrow> (map_delete (p_code r) m', Reply ()))"

datatype poll_status = Invalid | Waiting | Authorized "string option"

definition poll :: "time \<Rightarrow> string \<Rightarrow> pending \<Rightarrow> pending \<times> poll_status" where
  "poll now pollToken m =
     (let m' = sweep_pending now m
      in case find (\<lambda>(_, r). p_pollToken r = pollToken) m' of
           None \<Rightarrow> (m', Invalid)
         | Some (_, r) \<Rightarrow>
             if p_status r \<noteq> ''authorized'' then (m', Waiting)
             else (map_delete (p_code r) m', Authorized (p_issued r)))"

definition verify_device :: "(bytes \<Rightarrow> bytes) \<Rightarrow> time \<Rightarrow> jsval \<Rightarrow> db \<Rightarrow> db \<times> device option" where
  "verify_device sha256 now token d =
     (case token of
        JStr t \<Rightarrow>
          if t = [] then (d, None)
          else (case find (\<lambda>v. d_tokenHash v = hashToken sha256 t) (devices d) of
                  None \<Rightarrow> (d, None)
                | Some v \<Rightarrow>
                    (if (case d_lastUsedAt v of None \<Rightarrow> True | Some u \<Rightarrow> now - u > DEVICE_TOUCH_AFTER)
                     then d\<lparr>devices := map (\<lambda>x. if d_id x = d_id v then x\<lparr>d_lastUsedAt := Some now\<rparr> else x) (devices d)\<rparr>
                     else d, Some v))
      | _ \<Rightarrow> (d, None))"

definition list_devices :: "nat option \<Rightarrow> db \<Rightarrow> device_view list" where
  "list_devices accountId d =
     map (\<lambda>v. describeDevice v (if accountId = None then map_option a_username (byId (d_accountId v) d) else None))
       (sort_key (\<lambda>v. - d_createdAt v) (filter (\<lambda>v. scoped accountId (d_accountId v)) (devices d)))"

definition revoke_device :: "nat \<Rightarrow> nat option \<Rightarrow> db \<Rightarrow> db \<times> string reply" where
  "revoke_device i accountId d =
     (case find (\<lambda>v. d_id v = i \<and> scoped accountId (d_accountId v)) (devices d) of
        None \<Rightarrow> (d, Refuse 404 ''Device not found'')
      | Some v \<Rightarrow> (d\<lparr>devices := filter (\<lambda>x. d_id x \<noteq> d_id v) (devices d)\<rparr>, Reply (d_name v @ '' revoked'')))"

subsection \<open>utils/auth.js\<close>

definition safeEqual :: "(bytes \<Rightarrow> bytes) \<Rightarrow> string \<Rightarrow> string \<Rightarrow> bool" where
  "safeEqual sha256 a b \<longleftrightarrow> sha256 (to_buf a) = sha256 (to_buf b)"

record credential =
  cr_accountId :: nat
  cr_credential :: string
  cr_guest :: "invite option"

definition deviceFor :: "(bytes \<Rightarrow> bytes) \<Rightarrow> time \<Rightarrow> jsval \<Rightarrow> db \<Rightarrow> db \<times> credential option" where
  "deviceFor sha256 now presented d =
     (case verify_device sha256 now presented d of
        (d', Some v) \<Rightarrow>
          (d', Some \<lparr>cr_accountId = d_accountId v, cr_credential = ''device:'' @ show_nat (d_id v), cr_guest = None\<rparr>)
      | (d', None) \<Rightarrow>
          (d', map_option (\<lambda>v. \<lparr>cr_accountId = n_accountId v, cr_credential = ''invite:'' @ show_nat (n_id v),
                               cr_guest = Some v\<rparr>) (verify_invite sha256 presented d')))"

definition accountFor :: "credential \<Rightarrow> db \<Rightarrow> account option" where
  "accountFor c d = byId (cr_accountId c) d"

definition bearerFromHeaders :: "string option \<Rightarrow> string option" where
  "bearerFromHeaders authorization =
     (case authorization of
        None \<Rightarrow> None
      | Some value \<Rightarrow> if value = [] then None else map_option trim (scheme_match ''Bearer'' value))"

subsection \<open>middlewares/auth.js\<close>

definition opt_value :: "string option \<Rightarrow> jsval" where
  "opt_value s = (case s of None \<Rightarrow> JNull | Some t \<Rightarrow> JStr t)"

definition deviceSession :: "(bytes \<Rightarrow> bytes) \<Rightarrow> time \<Rightarrow> string option \<Rightarrow> db \<Rightarrow> db \<times> signed_in option" where
  "deviceSession sha256 now authorization d =
     (case deviceFor sha256 now (opt_value (bearerFromHeaders authorization)) d of
        (d', None) \<Rightarrow> (d', None)
      | (d', Some c) \<Rightarrow>
          if cr_guest c \<noteq> None then (d', None)
          else (d', map_option (\<lambda>a. \<lparr>in_account = a, in_username = a_username a, in_role = a_role a, in_device = True\<rparr>)
                      (accountFor c d')))"

definition authenticate ::
  "(bytes \<Rightarrow> bytes) \<Rightarrow> time \<Rightarrow> string \<Rightarrow> string option \<Rightarrow> db \<Rightarrow> db \<times> signed_in reply" where
  "authenticate sha256 now cookie authorization d =
     (case get_session now (case session_token cookie of None \<Rightarrow> [] | Some t \<Rightarrow> t) d of
        (d', Some s) \<Rightarrow> (d', Reply s)
      | (d', None) \<Rightarrow>
          (case deviceSession sha256 now authorization d' of
             (d'', Some s) \<Rightarrow> (d'', Reply s)
           | (d'', None) \<Rightarrow> (d'', Refuse 401 ''You need to be logged in'')))"

definition requireBrowser :: "signed_in \<Rightarrow> unit reply" where
  "requireBrowser s = (if in_device s then Refuse 403 ''Sign in on the website for that'' else Reply ())"

definition requireAdmin :: "signed_in \<Rightarrow> unit reply" where
  "requireAdmin s = (if in_role s \<noteq> ''admin'' then Refuse 403 ''Only an admin can do that'' else Reply ())"

definition requireSetupComplete :: "db \<Rightarrow> unit reply" where
  "requireSetupComplete d =
     (if account_count d = 0 then Refuse 409 ''The server has not been set up yet'' else Reply ())"

subsection \<open>A code is used up by the poll that gets its token\<close>

datatype device_op =
    DCreate bytes bytes string string string
  | DApprove bytes jsval jsval nat
  | DDeny jsval
  | DPoll string
  | DSweep

fun device_step :: "(bytes \<Rightarrow> bytes) \<Rightarrow> time \<Rightarrow> device_op \<Rightarrow> pending \<times> db \<Rightarrow> (pending \<times> db) \<times> poll_status" where
  "device_step sha now (DCreate c p cl ip ua) (m, d) = ((fst (createCode c p now cl ip ua m), d), Invalid)"
| "device_step sha now (DApprove rnd code name acc) (m, d) =
     (case approve sha rnd now code name acc m d of (m', d', _) \<Rightarrow> ((m', d'), Invalid))"
| "device_step sha now (DDeny code) (m, d) = ((fst (deny now code m), d), Invalid)"
| "device_step sha now (DPoll t) (m, d) = (case poll now t m of (m', r) \<Rightarrow> ((m', d), r))"
| "device_step sha now DSweep (m, d) = ((sweep_pending now m, d), Invalid)"

fun deliveries :: "(bytes \<Rightarrow> bytes) \<Rightarrow> string \<Rightarrow> (time \<times> device_op) list \<Rightarrow> pending \<times> db \<Rightarrow> nat" where
  "deliveries sha t [] s = 0"
| "deliveries sha t ((now, op) # ops) s =
     (case device_step sha now op s of (s', r) \<Rightarrow>
        (if op = DPoll t \<and> (\<exists>x. r = Authorized x) then 1 else 0) + deliveries sha t ops s')"

definition creates_poll :: "string \<Rightarrow> device_op \<Rightarrow> bool" where
  "creates_poll t op = (case op of DCreate _ p _ _ _ \<Rightarrow> randomToken p = t | _ \<Rightarrow> False)"

text \<open>The pending requests that carry a poll token, and the consistency of the map.\<close>

definition holders :: "string \<Rightarrow> pending \<Rightarrow> string set" where
  "holders t m = {c. \<exists>r. map_get m c = Some r \<and> p_pollToken r = t}"

definition pending_inv :: "pending \<Rightarrow> bool" where
  "pending_inv m \<longleftrightarrow> wf_map m \<and> (\<forall>c r. map_get m c = Some r \<longrightarrow> p_code r = c)"

lemma sweep_get:
  "wf_map m \<Longrightarrow> map_get (sweep_pending now m) c =
     (case map_get m c of None \<Rightarrow> None | Some r \<Rightarrow> if p_expiresAt r < now then None else Some r)"
  by (auto simp: sweep_pending_def map_of_filter_entries split: option.splits)

lemma sweep_inv: "pending_inv m \<Longrightarrow> pending_inv (sweep_pending now m)"
  by (auto simp: pending_inv_def sweep_get sweep_pending_def wf_map_filter map_of_filter_entries split: option.splits if_splits)

lemma sweep_holders: "pending_inv m \<Longrightarrow> holders t (sweep_pending now m) \<subseteq> holders t m"
  by (auto simp: holders_def pending_inv_def sweep_get split: option.splits if_splits)

lemma delete_inv: "pending_inv m \<Longrightarrow> pending_inv (map_delete c m)"
  by (auto simp: pending_inv_def wf_map_delete split: if_splits)

lemma delete_holders: "holders t (map_delete c m) = holders t m - {c}"
  by (auto simp: holders_def split: if_splits)

lemma create_inv: "pending_inv m \<Longrightarrow> pending_inv (fst (createCode rc rp now cl ip ua m))"
  using sweep_inv [of m now] by (auto simp: createCode_def Let_def pending_inv_def wf_map_set split: if_splits)

lemma create_holders:
  "pending_inv m \<Longrightarrow> randomToken rp \<noteq> t \<Longrightarrow> holders t (fst (createCode rc rp now cl ip ua m)) \<subseteq> holders t m"
  using sweep_holders [of m t now] by (auto simp: createCode_def Let_def holders_def split: if_splits)

lemma approve_keeps:
  assumes "pending_inv m"
  shows "pending_inv (fst (approve sha rnd now code name acc m d)) \<and>
    holders t (fst (approve sha rnd now code name acc m d)) \<subseteq> holders t m"
proof (cases "map_get (sweep_pending now m) (trim (to_upper (string_or code [])))")
  case None
  then show ?thesis using sweep_inv [OF assms] sweep_holders [OF assms] by (simp add: approve_def get_pending_def Let_def)
next
  case (Some r)
  let ?m = "sweep_pending now m"
  have code: "p_code r = trim (to_upper (string_or code []))" using sweep_inv [OF assms] Some by (auto simp: pending_inv_def)
  let ?r = "r\<lparr>p_status := ''authorized'', p_issued := Some (randomToken rnd)\<rparr>"
  have i: "pending_inv (map_set (p_code r) ?r ?m)"
    using sweep_inv [OF assms] by (auto simp: pending_inv_def wf_map_set split: if_splits)
  have h: "holders t (map_set (p_code r) ?r ?m) \<subseteq> holders t ?m"
    using Some code by (auto simp: holders_def split: if_splits)
  show ?thesis
    using Some i h sweep_inv [OF assms] sweep_holders [OF assms, of t now]
    by (auto simp: approve_def get_pending_def add_device_def Let_def)
qed

lemma deny_keeps:
  "pending_inv m \<Longrightarrow> pending_inv (fst (deny now code m)) \<and> holders t (fst (deny now code m)) \<subseteq> holders t m"
  using sweep_inv [of m now] sweep_holders [of m t now]
  by (auto simp: deny_def get_pending_def Let_def delete_holders delete_inv split: option.splits)

lemma poll_found:
  assumes "pending_inv m" "find (\<lambda>(_, r). p_pollToken r = t) (sweep_pending now m) = Some (c, r)"
  shows "p_code r = c \<and> c \<in> holders t (sweep_pending now m)"
proof -
  have "(c, r) \<in> set (sweep_pending now m)" "p_pollToken r = t"
    using assms(2) by (auto simp: find_Some_iff in_set_conv_nth)
  moreover have "wf_map (sweep_pending now m)" using sweep_inv [OF assms(1)] by (simp add: pending_inv_def)
  ultimately have "map_get (sweep_pending now m) c = Some r" by (simp add: map_of_is_SomeI)
  then show ?thesis using sweep_inv [OF assms(1)] \<open>p_pollToken r = t\<close> by (auto simp: pending_inv_def holders_def)
qed

lemma poll_keeps:
  assumes "pending_inv m"
  shows "pending_inv (fst (poll now u m)) \<and> holders t (fst (poll now u m)) \<subseteq> holders t m"
  using sweep_inv [OF assms, of now] sweep_holders [OF assms, of t now]
  by (auto simp: poll_def Let_def delete_holders delete_inv split: option.splits)

lemma poll_delivers:
  assumes "pending_inv m" "holders t m \<subseteq> {c}" "snd (poll now t m) = Authorized x"
  shows "holders t m = {c} \<and> holders t (fst (poll now t m)) = {}"
proof -
  obtain c' r where f: "find (\<lambda>(_, r). p_pollToken r = t) (sweep_pending now m) = Some (c', r)"
    and st: "p_status r = ''authorized''"
    using assms(3) by (auto simp: poll_def Let_def split: option.splits if_splits)
  have "p_code r = c'" "c' \<in> holders t (sweep_pending now m)" using poll_found [OF assms(1) f] by auto
  moreover have "holders t (sweep_pending now m) \<subseteq> holders t m" by (rule sweep_holders [OF assms(1)])
  ultimately show ?thesis
    using f st assms(2) by (auto simp: poll_def Let_def delete_holders)
qed

lemma device_step_keeps:
  assumes "pending_inv (fst s)" "\<not> creates_poll t op"
  shows "pending_inv (fst (fst (device_step sha now op s))) \<and>
    holders t (fst (fst (device_step sha now op s))) \<subseteq> holders t (fst s)"
proof -
  obtain m d where s: "s = (m, d)" by (cases s)
  show ?thesis
  proof (cases op)
    case (DCreate rc rp cl ip ua)
    then show ?thesis using assms s create_inv create_holders [of m rp t] by (simp add: creates_poll_def)
  next
    case (DApprove rnd code name acc)
    then show ?thesis using assms s approve_keeps [of m sha rnd now code name acc d t]
      by (auto split: prod.splits)
  next
    case (DDeny code)
    then show ?thesis using assms s deny_keeps [of m now code t] by simp
  next
    case (DPoll u)
    then show ?thesis using assms s poll_keeps [of m now u t] by (auto split: prod.splits)
  next
    case DSweep
    then show ?thesis using assms s sweep_inv sweep_holders by simp
  qed
qed

lemma no_delivery:
  "pending_inv (fst s) \<Longrightarrow> \<forall>op \<in> snd ` set ops. \<not> creates_poll t op \<Longrightarrow> holders t (fst s) = {} \<Longrightarrow>
   deliveries sha t ops s = 0"
proof (induction sha t ops s rule: deliveries.induct)
  case (2 sha t now op ops s)
  have k: "pending_inv (fst (fst (device_step sha now op s)))" "holders t (fst (fst (device_step sha now op s))) = {}"
    using device_step_keeps [of s t op sha now] "2.prems" by auto
  have "\<not> (op = DPoll t \<and> (\<exists>x. snd (device_step sha now op s) = Authorized x))"
  proof
    assume a: "op = DPoll t \<and> (\<exists>x. snd (device_step sha now op s) = Authorized x)"
    obtain m d where s: "s = (m, d)" by (cases s)
    from a s obtain x where "snd (poll now t m) = Authorized x" by (auto split: prod.splits)
    then show False using poll_delivers [of m t undefined now x] "2.prems"(1,3) s by simp
  qed
  then show ?case
    using "2.IH" [of "fst (device_step sha now op s)" "snd (device_step sha now op s)"] k "2.prems"(2)
    by (auto split: prod.splits)
qed simp

text \<open>
  The token of an approved device is handed out once: whatever is done with the pending
  codes, at most one poll with a given poll token gets a token, as long as that poll token
  belongs to one request and is not drawn again.
\<close>

theorem poll_at_most_once:
  assumes "pending_inv (fst s)" "holders t (fst s) \<subseteq> {c}" "\<forall>op \<in> snd ` set ops. \<not> creates_poll t op"
  shows "deliveries sha t ops s \<le> 1"
  using assms
proof (induction sha t ops s rule: deliveries.induct)
  case (2 sha t now op ops s)
  let ?s = "fst (device_step sha now op s)" and ?r = "snd (device_step sha now op s)"
  have k: "pending_inv (fst ?s)" "holders t (fst ?s) \<subseteq> {c}"
    using device_step_keeps [of s t op sha now] "2.prems" by auto
  have rest: "deliveries sha t ops ?s \<le> 1"
    using "2.IH" [of ?s ?r] k "2.prems"(3) by simp
  have "deliveries sha t ops ?s = 0" if "op = DPoll t" "?r = Authorized x" for x
  proof -
    obtain m d where s: "s = (m, d)" by (cases s)
    have "snd (poll now t m) = Authorized x" "fst ?s = fst (poll now t m)" using that s by (auto split: prod.splits)
    then have "holders t (fst ?s) = {}" using poll_delivers [of m t c now x] "2.prems"(1,2) s by simp
    then show ?thesis using no_delivery [of ?s ops t sha] k(1) "2.prems"(3) by simp
  qed
  with rest show ?case by (auto split: prod.splits)
qed simp

definition sample_pending :: pending where
  "sample_pending = fst (createCode [0, 1, 2, 3, 4, 5, 6, 7] [7] 0 ''cli'' [] [] [])"

theorem poll_at_most_once_witness:
  "deliveries (\<lambda>b. b) ''H'' [(5, DApprove [9] (JStr ''abcd-efgh'') JUndef 1), (6, DPoll ''H''), (7, DPoll ''H'')]
     (sample_pending, sample_db) \<le> 1"
proof -
  have "pending_inv sample_pending"
    unfolding sample_pending_def by (intro create_inv) (simp add: pending_inv_def)
  moreover have "holders ''H'' sample_pending \<subseteq> {humanCode [0, 1, 2, 3, 4, 5, 6, 7]}"
    by (auto simp: holders_def sample_pending_def createCode_def sweep_pending_def Let_def split: if_splits)
  ultimately show ?thesis
    by (intro poll_at_most_once) (auto simp: creates_poll_def)
qed

end
