(* ===== verification/Quotas.thy ===== *)
theory Quotas
  imports Accounts
begin

text \<open>
  Limits of an account and the accounting of its traffic (src/server/lib/quotas.js), and the
  statistics of the tunnels that feed it (src/server/lib/stats.js). Usage rows are kept per
  account and month; the month and the clock are arguments.
\<close>

definition KEYS :: "string list" where
  "KEYS = [''tunnels'', ''persistent'', ''domains'', ''traffic'']"

definition LABELS :: "(string \<times> string) list" where
  "LABELS = [(''tunnels'', ''tunnels''), (''persistent'', ''persistent tunnels''),
     (''domains'', ''custom domains''), (''traffic'', ''monthly traffic'')]"

definition label :: "string \<Rightarrow> string" where
  "label key = (case map_of LABELS key of None \<Rightarrow> ''undefined'' | Some l \<Rightarrow> l)"

type_synonym limits = "(string, int) jsmap"

fun parse_keys :: "jsval \<Rightarrow> bool \<Rightarrow> string list \<Rightarrow> limits result" where
  "parse_keys input partial [] = Inr []"
| "parse_keys input partial (key # keys) =
     (let raw = js_get input key
      in if raw = JUndef \<or> raw = JNull \<or> raw = JStr []
         then bind (parse_keys input partial keys) (\<lambda>ls. Inr (if partial then ls else (key, 0) # ls))
         else (case js_integer raw of
                 None \<Rightarrow> Inl (Err ''bad_request'' (label key @ '' must be a whole number, 0 for no limit''))
               | Some value \<Rightarrow>
                   if value < 0
                   then Inl (Err ''bad_request'' (label key @ '' must be a whole number, 0 for no limit''))
                   else bind (parse_keys input partial keys) (\<lambda>ls. Inr ((key, value) # ls))))"

definition parseLimits :: "jsval \<Rightarrow> bool \<Rightarrow> limits result" where
  "parseLimits input partial = parse_keys input partial KEYS"

definition NONE :: limits where
  "NONE = map (\<lambda>k. (k, 0)) KEYS"

definition parseOverride :: "jsval \<Rightarrow> limits option result" where
  "parseOverride input =
     (if input = JNull then Inr None
      else bind (parseLimits input True) (\<lambda>ls. Inr (if ls \<noteq> [] then Some ls else None)))"

text \<open>The stored override as a JavaScript object, and the merge of two limit objects.\<close>

definition limits_value :: "limits \<Rightarrow> jsval" where
  "limits_value ls = JObj (map (\<lambda>(k, v). (k, JInt v)) ls)"

definition merge_limits :: "limits \<Rightarrow> jsval option \<Rightarrow> limits" where
  "merge_limits defaults override =
     map (\<lambda>(k, v). (k, case override of
            None \<Rightarrow> v
          | Some q \<Rightarrow> (case js_get q k of JInt i \<Rightarrow> i | _ \<Rightarrow> v))) defaults"

record usage_row =
  u_id :: nat
  u_accountId :: nat
  u_month :: string
  u_bytesIn :: nat
  u_bytesOut :: nat
  u_requests :: nat

record delta =
  dl_in :: nat
  dl_out :: nat
  dl_requests :: nat

record quotas =
  defaults :: limits
  q_pending :: "(nat, delta) jsmap"
  usage :: "usage_row list"
  nextUsage :: nat
  exceeded :: "nat list"

definition new_Quotas :: quotas where
  "new_Quotas = \<lparr>defaults = NONE, q_pending = [], usage = [], nextUsage = 1, exceeded = []\<rparr>"

text \<open>quotas.load reads the stored defaults, saveDefaults replaces and stores them (the value
  to store is returned).\<close>

definition load_quotas :: "jsval \<Rightarrow> quotas \<Rightarrow> quotas result" where
  "load_quotas stored q = bind (parseLimits stored False) (\<lambda>ls. Inr (q\<lparr>defaults := ls\<rparr>))"

definition saveDefaults :: "jsval \<Rightarrow> quotas \<Rightarrow> (quotas \<times> limits) result" where
  "saveDefaults input q = bind (parseLimits input False) (\<lambda>ls. Inr (q\<lparr>defaults := ls\<rparr>, ls))"

definition limitsFor :: "nat \<Rightarrow> db \<Rightarrow> quotas \<Rightarrow> limits" where
  "limitsFor accountId d q =
     (case byId accountId d of
        None \<Rightarrow> NONE
      | Some a \<Rightarrow> if a_role a = ''admin'' then NONE else merge_limits (defaults q) (a_quotas a))"

definition limit_at :: "limits \<Rightarrow> string \<Rightarrow> int" where
  "limit_at ls key = (case map_of ls key of None \<Rightarrow> 0 | Some v \<Rightarrow> v)"

definition trafficFor :: "string \<Rightarrow> nat \<Rightarrow> quotas \<Rightarrow> nat" where
  "trafficFor month accountId q =
     (case find (\<lambda>r. u_accountId r = accountId \<and> u_month r = month) (usage q) of
        None \<Rightarrow> 0 | Some r \<Rightarrow> u_bytesIn r + u_bytesOut r)"

definition enforce :: "limits \<Rightarrow> string \<Rightarrow> nat \<Rightarrow> unit result" where
  "enforce ls key amount =
     (let limit = limit_at ls key
      in if limit \<noteq> 0 \<and> int amount \<ge> limit
         then Inl (Err ''quota_exceeded'' (''Limit of '' @ show_int limit @ '' '' @ label key @ '' reached''))
         else Inr ())"

definition enforceTraffic :: "limits \<Rightarrow> nat \<Rightarrow> unit result" where
  "enforceTraffic ls traffic =
     (let limit = limit_at ls ''traffic''
      in if limit \<noteq> 0 \<and> int traffic \<ge> limit
         then Inl (Err ''quota_exceeded'' ''Monthly traffic limit reached'') else Inr ())"

definition record_usage :: "nat \<Rightarrow> nat \<Rightarrow> nat \<Rightarrow> nat \<Rightarrow> quotas \<Rightarrow> quotas" where
  "record_usage accountId bytesIn bytesOut requests q =
     (if bytesIn = 0 \<and> bytesOut = 0 \<and> requests = 0 then q
      else let e = (case map_get (q_pending q) accountId of
                      None \<Rightarrow> \<lparr>dl_in = 0, dl_out = 0, dl_requests = 0\<rparr> | Some e \<Rightarrow> e)
           in q\<lparr>q_pending := map_set accountId
                  \<lparr>dl_in = dl_in e + bytesIn, dl_out = dl_out e + bytesOut, dl_requests = dl_requests e + requests\<rparr>
                  (q_pending q)\<rparr>)"

text \<open>Usage.findOrCreate: the row of the month, created with zero counters when missing.\<close>

definition find_or_create :: "string \<Rightarrow> nat \<Rightarrow> quotas \<Rightarrow> quotas \<times> nat" where
  "find_or_create month accountId q =
     (case find (\<lambda>r. u_accountId r = accountId \<and> u_month r = month) (usage q) of
        Some r \<Rightarrow> (q, u_id r)
      | None \<Rightarrow>
          (q\<lparr>usage := usage q @ [\<lparr>u_id = nextUsage q, u_accountId = accountId, u_month = month,
                u_bytesIn = 0, u_bytesOut = 0, u_requests = 0\<rparr>],
             nextUsage := nextUsage q + 1\<rparr>, nextUsage q))"

definition increment :: "nat \<Rightarrow> delta \<Rightarrow> quotas \<Rightarrow> quotas" where
  "increment i dl q =
     q\<lparr>usage := map (\<lambda>r. if u_id r = i
          then r\<lparr>u_bytesIn := u_bytesIn r + dl_in dl, u_bytesOut := u_bytesOut r + dl_out dl,
                 u_requests := u_requests r + dl_requests dl\<rparr> else r) (usage q)\<rparr>"

definition flush_one :: "db \<Rightarrow> string \<Rightarrow> nat \<times> delta \<Rightarrow> quotas \<Rightarrow> quotas" where
  "flush_one d month e q =
     (case find_or_create month (fst e) q of (q1, i) \<Rightarrow>
        let q2 = increment i (snd e) q1; limit = limit_at (limitsFor (fst e) d q2) ''traffic''
        in if limit \<noteq> 0 \<and> int (trafficFor month (fst e) q2) \<ge> limit
           then q2\<lparr>exceeded := exceeded q2 @ [fst e]\<rparr> else q2)"

definition flush_usage :: "db \<Rightarrow> string \<Rightarrow> quotas \<Rightarrow> quotas" where
  "flush_usage d month q = fold (flush_one d month) (q_pending q) (q\<lparr>q_pending := []\<rparr>)"

subsection \<open>stats.js\<close>

definition BUCKETS :: nat where
  "BUCKETS = 90"

record bucket =
  b_t :: time
  b_in :: nat
  b_out :: nat
  b_requests :: nat

record series =
  buckets :: "bucket list"
  total_in :: nat
  total_out :: nat
  total_requests :: nat
  pendingRequests :: nat
  lastSent :: nat
  lastReceived :: nat
  series_session :: "nat option"

definition empty_series :: series where
  "empty_series = \<lparr>buckets = [], total_in = 0, total_out = 0, total_requests = 0, pendingRequests = 0,
     lastSent = 0, lastReceived = 0, series_session = None\<rparr>"

type_synonym stats = "(string, series) jsmap"

definition series_for :: "string \<Rightarrow> stats \<Rightarrow> series" where
  "series_for tunnelId st = (case map_get st tunnelId of None \<Rightarrow> empty_series | Some e \<Rightarrow> e)"

definition recordRequest :: "string \<Rightarrow> stats \<Rightarrow> stats" where
  "recordRequest tunnelId st =
     (let e = series_for tunnelId st in map_set tunnelId (e\<lparr>pendingRequests := pendingRequests e + 1\<rparr>) st)"

text \<open>What a sample needs of a tunnel: its account, and its session when there is an open one,
  with the identity and the byte counters of the session.\<close>

record sampled =
  sm_id :: string
  sm_accountId :: nat
  sm_session :: "(nat \<times> nat \<times> nat) option"

definition sample_bytes :: "sampled \<Rightarrow> series \<Rightarrow> series \<times> nat \<times> nat" where
  "sample_bytes t e =
     (case sm_session t of
        Some (s, sent, received) \<Rightarrow>
          let e1 = (if series_session e \<noteq> Some s
                    then e\<lparr>series_session := Some s, lastSent := 0, lastReceived := 0\<rparr> else e)
          in (e1\<lparr>lastSent := sent, lastReceived := received\<rparr>, sent - lastSent e1, received - lastReceived e1)
      | None \<Rightarrow> (e\<lparr>series_session := None\<rparr>, 0, 0))"

definition sample_one :: "time \<Rightarrow> nat \<Rightarrow> sampled \<Rightarrow> stats \<times> quotas \<Rightarrow> stats \<times> quotas" where
  "sample_one now bucketLimit t sq =
     (case sq of (st, q) \<Rightarrow>
        (case sample_bytes t (series_for (sm_id t) st) of (e, inBytes, outBytes) \<Rightarrow>
           let requests = pendingRequests e;
               bs = buckets e @ [\<lparr>b_t = now, b_in = inBytes, b_out = outBytes, b_requests = requests\<rparr>];
               e' = e\<lparr>pendingRequests := 0, total_in := total_in e + inBytes, total_out := total_out e + outBytes,
                      total_requests := total_requests e + requests, buckets := drop (length bs - bucketLimit) bs\<rparr>
           in (map_set (sm_id t) e' st, record_usage (sm_accountId t) inBytes outBytes requests q)))"

definition sample :: "time \<Rightarrow> nat \<Rightarrow> sampled list \<Rightarrow> stats \<times> quotas \<Rightarrow> stats \<times> quotas" where
  "sample now bucketLimit ts sq = fold (sample_one now bucketLimit) ts sq"

text \<open>What read answers, at the interval of two seconds. Math.round of a fraction a / b is the
  nearest whole number, halves up.\<close>

record stats_view =
  sv_buckets :: "bucket list"
  sv_in :: nat
  sv_out :: nat
  sv_requests :: nat
  sv_rateIn :: nat
  sv_rateOut :: nat

definition round_div :: "nat \<Rightarrow> nat \<Rightarrow> nat" where
  "round_div a b = (2 * a + b) div (2 * b)"

definition average :: "(bucket \<Rightarrow> nat) \<Rightarrow> bucket list \<Rightarrow> nat" where
  "average f recent = (if recent = [] then 0 else round_div (sum_list (map f recent)) (length recent * 2))"

definition read_stats :: "string \<Rightarrow> stats \<Rightarrow> stats_view" where
  "read_stats tunnelId st =
     (case map_get st tunnelId of
        None \<Rightarrow> \<lparr>sv_buckets = [], sv_in = 0, sv_out = 0, sv_requests = 0, sv_rateIn = 0, sv_rateOut = 0\<rparr>
      | Some e \<Rightarrow>
          let recent = drop (length (buckets e) - 5) (buckets e)
          in \<lparr>sv_buckets = buckets e, sv_in = total_in e, sv_out = total_out e, sv_requests = total_requests e,
              sv_rateIn = average b_in recent, sv_rateOut = average b_out recent\<rparr>)"

definition forget_series :: "string \<Rightarrow> stats \<Rightarrow> stats" where
  "forget_series tunnelId st = map_delete tunnelId st"

subsection \<open>Limits\<close>

lemma parse_keys_ok:
  "parse_keys input partial keys = Inr ls \<Longrightarrow> distinct keys \<Longrightarrow>
   wf_map ls \<and> fst ` set ls \<subseteq> set keys \<and> (\<forall>(k, v) \<in> set ls. 0 \<le> v) \<and> (\<not> partial \<longrightarrow> map fst ls = keys)"
proof (induction keys arbitrary: ls)
  case (Cons key keys)
  then obtain rest where r: "parse_keys input partial keys = Inr rest"
    and ls: "ls = rest \<and> partial \<or> (\<exists>v. ls = (key, v) # rest \<and> 0 \<le> v)"
    by (auto simp: Let_def split: if_splits option.splits)
  have ih: "wf_map rest" "fst ` set rest \<subseteq> set keys" "\<forall>(k, v) \<in> set rest. 0 \<le> v" "\<not> partial \<longrightarrow> map fst rest = keys"
    using Cons.IH [OF r] Cons.prems(2) by simp_all
  have sub: "fst ` set rest \<subseteq> set (key # keys)" using ih(2) by auto
  have "key \<notin> fst ` set rest" using ih(2) Cons.prems(2) by auto
  then show ?case using ls ih sub by (elim disjE exE conjE) simp_all
qed simp

lemma parseLimits_ok:
  "parseLimits input partial = Inr ls \<Longrightarrow>
   wf_map ls \<and> fst ` set ls \<subseteq> set KEYS \<and> (\<forall>(k, v) \<in> set ls. 0 \<le> v) \<and> (\<not> partial \<longrightarrow> map fst ls = KEYS)"
  unfolding parseLimits_def by (rule parse_keys_ok) (auto simp: KEYS_def)

text \<open>An override that was accepted wins over the defaults, key by key.\<close>

lemma merge_override:
  assumes "parseLimits input True = Inr ls" "map fst defs = KEYS" "key \<in> set KEYS"
  shows "limit_at (merge_limits defs (Some (limits_value ls))) key =
    (case map_of ls key of Some v \<Rightarrow> v | None \<Rightarrow> limit_at defs key)"
proof -
  have g: "js_get (limits_value ls) k = (case map_of ls k of None \<Rightarrow> JUndef | Some v \<Rightarrow> JInt v)" for k
    unfolding limits_value_def by (induction ls) auto
  have m: "map_of (map (\<lambda>(k, v). (k, h k v)) xs) k = map_option (h k) (map_of xs k)" for h :: "string \<Rightarrow> int \<Rightarrow> int" and xs k
    by (induction xs) auto
  have "map_of defs key \<noteq> None" using assms(2,3) by (metis map_of_eq_None_iff image_set)
  then show ?thesis
    unfolding limit_at_def merge_limits_def m by (auto simp: g split: option.splits)
qed

subsection \<open>Accounting\<close>

definition quotas_inv :: "quotas \<Rightarrow> bool" where
  "quotas_inv q \<longleftrightarrow> wf_map (q_pending q) \<and> distinct (map u_id (usage q)) \<and> (\<forall>r \<in> set (usage q). u_id r < nextUsage q)"

definition pending_traffic :: "nat \<Rightarrow> quotas \<Rightarrow> nat" where
  "pending_traffic i q = (case map_get (q_pending q) i of None \<Rightarrow> 0 | Some e \<Rightarrow> dl_in e + dl_out e)"

lemma record_usage_inv: "quotas_inv q \<Longrightarrow> quotas_inv (record_usage a i o' r q)"
  by (auto simp: quotas_inv_def record_usage_def Let_def wf_map_set)

lemma record_usage_pending:
  "pending_traffic k (record_usage a i o' r q) = pending_traffic k q + (if k = a then i + o' else 0)"
  by (auto simp: pending_traffic_def record_usage_def Let_def split: option.splits)

lemma record_usage_traffic [simp]: "trafficFor m k (record_usage a i o' r q) = trafficFor m k q"
  by (simp add: trafficFor_def record_usage_def Let_def)

lemma find_or_create_spec:
  assumes "quotas_inv q" "find_or_create m a q = (q1, i)"
  shows "quotas_inv q1 \<and> q_pending q1 = q_pending q \<and> defaults q1 = defaults q \<and> exceeded q1 = exceeded q \<and>
    (\<exists>r. find (\<lambda>r. u_accountId r = a \<and> u_month r = m) (usage q1) = Some r \<and> u_id r = i) \<and>
    (\<forall>k. trafficFor m k q1 = trafficFor m k q)"
proof (cases "find (\<lambda>r. u_accountId r = a \<and> u_month r = m) (usage q)")
  case (Some r)
  then show ?thesis using assms by (auto simp: find_or_create_def)
next
  case None
  let ?r = "\<lparr>u_id = nextUsage q, u_accountId = a, u_month = m, u_bytesIn = 0, u_bytesOut = 0, u_requests = 0\<rparr>"
  have q1: "q1 = q\<lparr>usage := usage q @ [?r], nextUsage := nextUsage q + 1\<rparr>" "i = nextUsage q"
    using assms(2) None by (auto simp: find_or_create_def)
  have app: "find P (xs @ [x]) = (case find P xs of Some y \<Rightarrow> Some y | None \<Rightarrow> if P x then Some x else None)"
    for P :: "usage_row \<Rightarrow> bool" and xs x
    by (induction xs) auto
  have "quotas_inv q1" using assms(1) q1(1) by (auto simp: quotas_inv_def less_Suc_eq)
  moreover have "trafficFor m k q1 = trafficFor m k q" for k
    using None q1(1) by (auto simp: trafficFor_def app split: option.splits)
  ultimately show ?thesis using None q1 by (auto simp: app)
qed

lemma increment_inv: "quotas_inv q \<Longrightarrow> quotas_inv (increment i dl q)"
  by (auto simp: quotas_inv_def increment_def comp_def if_distrib cong: if_cong)

lemma increment_traffic:
  assumes "quotas_inv q" "find (\<lambda>r. u_accountId r = a \<and> u_month r = m) (usage q) = Some r" "u_id r = i"
  shows "trafficFor m k (increment i dl q) = trafficFor m k q + (if k = a then dl_in dl + dl_out dl else 0)"
proof -
  let ?f = "\<lambda>r. if u_id r = i then r\<lparr>u_bytesIn := u_bytesIn r + dl_in dl, u_bytesOut := u_bytesOut r + dl_out dl,
                 u_requests := u_requests r + dl_requests dl\<rparr> else r"
  let ?P = "\<lambda>k r. u_accountId r = k \<and> u_month r = m"
  have fm: "find (?P k) (map ?f xs) = map_option ?f (find (?P k) xs)" for k xs
    by (induction xs) auto
  have r: "r \<in> set (usage q)" "u_accountId r = a" using assms(2) by (auto simp: find_Some_iff)
  show ?thesis
  proof (cases "find (?P k) (usage q)")
    case None
    then have "k \<noteq> a" using assms(2) by auto
    then show ?thesis using None by (simp add: trafficFor_def increment_def fm)
  next
    case (Some r')
    have r': "r' \<in> set (usage q)" "u_accountId r' = k" using Some by (auto simp: find_Some_iff)
    show ?thesis
    proof (cases "k = a")
      case True
      then have "r' = r" using Some assms(2) by simp
      then show ?thesis using Some assms(3) True by (simp add: trafficFor_def increment_def fm)
    next
      case False
      have "distinct (map u_id (usage q))" using assms(1) by (simp add: quotas_inv_def)
      then have "u_id r' \<noteq> i"
        using r r' assms(3) False by (auto simp: distinct_map inj_on_def)
      then show ?thesis using Some False by (simp add: trafficFor_def increment_def fm)
    qed
  qed
qed

lemma flush_one_spec:
  assumes "quotas_inv q"
  shows "quotas_inv (flush_one d m e q)" "q_pending (flush_one d m e q) = q_pending q"
    "trafficFor m k (flush_one d m e q) = trafficFor m k q + (if k = fst e then dl_in (snd e) + dl_out (snd e) else 0)"
    "defaults (flush_one d m e q) = defaults q"
proof -
  obtain q1 i where f: "find_or_create m (fst e) q = (q1, i)" by (cases "find_or_create m (fst e) q")
  note s = find_or_create_spec [OF assms f]
  then obtain r where r: "find (\<lambda>r. u_accountId r = fst e \<and> u_month r = m) (usage q1) = Some r" "u_id r = i" by blast
  have inv: "quotas_inv (increment i (snd e) q1)" using s by (simp add: increment_inv)
  have t: "trafficFor m k (increment i (snd e) q1) = trafficFor m k q + (if k = fst e then dl_in (snd e) + dl_out (snd e) else 0)"
    using increment_traffic [OF _ r, of k "snd e"] s by simp
  have fields: "q_pending (increment i (snd e) q1) = q_pending q" "defaults (increment i (snd e) q1) = defaults q"
    using s by (simp_all add: increment_def)
  have ex: "quotas_inv (x\<lparr>exceeded := ys\<rparr>) = quotas_inv x" "trafficFor m' k' (x\<lparr>exceeded := ys\<rparr>) = trafficFor m' k' x"
    for x ys m' k'
    by (simp_all add: quotas_inv_def trafficFor_def)
  have "\<exists>ys. flush_one d m e q = (increment i (snd e) q1)\<lparr>exceeded := ys\<rparr>"
  proof (cases "flush_one d m e q = increment i (snd e) q1")
    case True
    then show ?thesis by (intro exI [of _ "exceeded (increment i (snd e) q1)"]) simp
  next
    case False
    then show ?thesis by (auto simp: flush_one_def f Let_def split: if_splits)
  qed
  then obtain ys where fl: "flush_one d m e q = (increment i (snd e) q1)\<lparr>exceeded := ys\<rparr>" ..
  show "quotas_inv (flush_one d m e q)" "q_pending (flush_one d m e q) = q_pending q"
    "defaults (flush_one d m e q) = defaults q"
    using inv fields by (simp_all add: fl ex)
  show "trafficFor m k (flush_one d m e q) = trafficFor m k q + (if k = fst e then dl_in (snd e) + dl_out (snd e) else 0)"
    unfolding fl ex by (rule t)
qed

lemma flush_all:
  "quotas_inv q \<Longrightarrow> wf_map es \<Longrightarrow>
   quotas_inv (fold (flush_one d m) es q) \<and> q_pending (fold (flush_one d m) es q) = q_pending q \<and>
   trafficFor m k (fold (flush_one d m) es q) =
     trafficFor m k q + (case map_of es k of None \<Rightarrow> 0 | Some e \<Rightarrow> dl_in e + dl_out e)"
proof (induction es arbitrary: q)
  case (Cons e es)
  have i: "quotas_inv (flush_one d m e q)" using flush_one_spec(1) [OF Cons.prems(1)] .
  have "map_of es (fst e) = None" using Cons.prems(2) by (auto simp: map_of_eq_None_iff)
  then show ?case
    using Cons.IH [OF i] Cons.prems(2) flush_one_spec(2) [OF Cons.prems(1), of d m e]
      flush_one_spec(3) [OF Cons.prems(1), where d = d and m = m and e = e and k = k]
    by (cases e) auto
qed simp



subsection \<open>Statistics\<close>

definition stats_inv :: "nat \<Rightarrow> stats \<Rightarrow> bool" where
  "stats_inv l st \<longleftrightarrow> (\<forall>k e. map_get st k = Some e \<longrightarrow> length (buckets e) \<le> l)"

lemma sample_bytes_buckets [simp]: "buckets (fst (sample_bytes t e)) = buckets e"
  by (auto simp: sample_bytes_def Let_def split: option.splits)

text \<open>The history of a tunnel stays within the configured number of buckets.\<close>

lemma sample_one_inv: "stats_inv l (fst sq) \<Longrightarrow> stats_inv l (fst (sample_one now l t sq))"
  by (auto simp: stats_inv_def sample_one_def Let_def split: prod.splits if_splits)

lemma sample_inv: "stats_inv l (fst sq) \<Longrightarrow> stats_inv l (fst (sample now l ts sq))"
  unfolding sample_def by (induction ts arbitrary: sq) (simp_all add: sample_one_inv del: split_paired_all)

text \<open>While a tunnel keeps its session, a sample records the growth of the counters.\<close>

lemma sample_records_growth:
  assumes "sm_session t = Some (s, sent, received)" "series_session (series_for (sm_id t) st) = Some s"
  shows "pending_traffic (sm_accountId t) (snd (sample_one now l t (st, q))) =
    pending_traffic (sm_accountId t) q + (sent - lastSent (series_for (sm_id t) st)) +
      (received - lastReceived (series_for (sm_id t) st))"
  using assms by (simp add: sample_one_def sample_bytes_def Let_def record_usage_pending)

end
