(* ===== verification/Persistent.thy ===== *)
theory Persistent
  imports Policy Accounts
begin

text \<open>
  Persistent tunnels (src/server/lib/persistent.js): names reserved by an account together
  with the access policy that a tunnel of that name starts with. The rules column holds the
  two rule lists as JSON; the model keeps them as they are encoded.
\<close>

record tunnel_row =
  tr_name :: string
  tr_accountId :: nat
  tr_allow :: "string list \<times> string list"
  tr_block :: "string list \<times> string list \<times> string list"
  tr_auth :: string
  tr_passwordHash :: "string option"
  tr_createdAt :: time

record definition_row =
  df_name :: string
  df_accountId :: nat
  df_policy :: policy
  df_createdAt :: time

definition toPolicy :: "tunnel_row \<Rightarrow> policy" where
  "toPolicy row =
     \<lparr>auth = tr_auth row,
      passwordHash = (case tr_passwordHash row of None \<Rightarrow> None | Some h \<Rightarrow> non_empty h),
      allow_ips = fst (tr_allow row), allow_countries = snd (tr_allow row),
      block_ips = fst (tr_block row), block_countries = fst (snd (tr_block row)),
      block_categories = snd (snd (tr_block row))\<rparr>"

definition put_columns :: "policy \<Rightarrow> tunnel_row \<Rightarrow> tunnel_row" where
  "put_columns p row =
     row\<lparr>tr_allow := (allow_ips p, allow_countries p),
         tr_block := (block_ips p, block_countries p, block_categories p), tr_auth := auth p,
         tr_passwordHash := (case passwordHash p of None \<Rightarrow> None | Some h \<Rightarrow> non_empty h)\<rparr>"

definition toDefinition :: "tunnel_row \<Rightarrow> definition_row" where
  "toDefinition row =
     \<lparr>df_name = tr_name row, df_accountId = tr_accountId row, df_policy = toPolicy row, df_createdAt = tr_createdAt row\<rparr>"

type_synonym tunnel_table = "tunnel_row list"

definition load :: "string \<Rightarrow> tunnel_table \<Rightarrow> definition_row option" where
  "load name rows = map_option toDefinition (find (\<lambda>r. tr_name r = name) rows)"

text \<open>list(accountId), None for every account; ordered by name, with the owner's username.\<close>

definition list_persistent :: "nat option \<Rightarrow> db \<Rightarrow> tunnel_table \<Rightarrow> (definition_row \<times> string option) list" where
  "list_persistent accountId d rows =
     map (\<lambda>r. (toDefinition r, map_option a_username (byId (tr_accountId r) d)))
       (sort_key (\<lambda>r. map ord (tr_name r)) (filter (\<lambda>r. scoped accountId (tr_accountId r)) rows))"

definition create_persistent ::
  "time \<Rightarrow> string \<Rightarrow> nat \<Rightarrow> policy \<Rightarrow> tunnel_table \<Rightarrow> (tunnel_table \<times> definition_row option) result" where
  "create_persistent now name accountId p rows =
     (if find (\<lambda>r. tr_name r = name) rows \<noteq> None
      then Inl (Err ''name_taken'' (''\"'' @ name @ ''\" is already a persistent tunnel''))
      else let row = put_columns p \<lparr>tr_name = name, tr_accountId = accountId, tr_allow = ([], []),
                       tr_block = ([], [], []), tr_auth = ''none'', tr_passwordHash = None, tr_createdAt = now\<rparr>;
               rows' = rows @ [row]
           in Inr (rows', load name rows'))"

definition savePolicy :: "string \<Rightarrow> policy \<Rightarrow> tunnel_table \<Rightarrow> tunnel_table" where
  "savePolicy name p rows = map (\<lambda>r. if tr_name r = name then put_columns p r else r) rows"

definition remove_persistent :: "string \<Rightarrow> tunnel_table \<Rightarrow> tunnel_table" where
  "remove_persistent name rows = filter (\<lambda>r. tr_name r \<noteq> name) rows"

text \<open>A policy survives being stored, provided it is well formed (no empty password hash).\<close>

lemma toPolicy_columns: "passwordHash p \<noteq> Some [] \<Longrightarrow> toPolicy (put_columns p r) = p"
  by (cases "passwordHash p") (auto simp: toPolicy_def put_columns_def non_empty_def)

lemma put_columns_name [simp]:
  "tr_name (put_columns p r) = tr_name r" "tr_accountId (put_columns p r) = tr_accountId r"
  "tr_createdAt (put_columns p r) = tr_createdAt r"
  by (simp_all add: put_columns_def)

lemma load_savePolicy:
  assumes "policy_wf p"
  shows "load name (savePolicy name' p rows) =
    (if name = name' then map_option (\<lambda>f. f\<lparr>df_policy := p\<rparr>) (load name rows) else load name rows)"
proof -
  have ne: "passwordHash p \<noteq> Some []" using assms by (simp add: policy_wf_def)
  show ?thesis
    by (induction rows)
      (auto simp: load_def savePolicy_def toDefinition_def toPolicy_columns [OF ne])
qed

lemma load_remove: "load name (remove_persistent name' rows) = (if name = name' then None else load name rows)"
  by (induction rows) (auto simp: load_def remove_persistent_def)

lemma create_persistent_unique:
  "distinct (map tr_name rows) \<Longrightarrow> create_persistent now n a p rows = Inr (rows', f) \<Longrightarrow> distinct (map tr_name rows')"
  by (auto simp: create_persistent_def Let_def find_None_iff split: if_splits)

lemma create_persistent_loads:
  assumes "policy_wf p" "create_persistent now n a p rows = Inr (rows', f)"
  shows "f = Some \<lparr>df_name = n, df_accountId = a, df_policy = p, df_createdAt = now\<rparr> \<and> load n rows' = f"
proof -
  have ne: "passwordHash p \<noteq> Some []" using assms(1) by (simp add: policy_wf_def)
  have app: "find P (xs @ [x]) = (case find P xs of Some y \<Rightarrow> Some y | None \<Rightarrow> if P x then Some x else None)"
    for P :: "tunnel_row \<Rightarrow> bool" and xs x
    by (induction xs) auto
  show ?thesis
    using assms(2) ne
    by (auto simp: create_persistent_def load_def toDefinition_def app toPolicy_columns Let_def
        split: if_splits option.splits)
qed

end
