(* ===== verification/Registry.thy ===== *)
theory Registry
  imports Persistent Quotas Devices
begin

text \<open>
  The registry of live tunnels (src/server/lib/registry.js): registration and resumption of
  tunnels by owner sessions, the grace period after a session is lost, removal, and joining a
  TCP tunnel with a share code.

  Tunnels are objects with an identity, since timers and close listeners hold on to the
  object while the map of names may already point to another one: \<open>objs\<close> maps identities to
  tunnels and \<open>names\<close> is the Map of the registry. Sessions are identified by numbers; their
  close listeners and the pending grace timers are part of the state, and the close event of
  a session and the expiry of a timer are operations. Registration awaits the database
  between its checks and the insertion, so it is modelled in two halves, allocateId and
  register_commit, that other operations may come between.
\<close>

record target =
  tg_host :: string
  tg_port :: nat
  tg_authority :: string

text \<open>The match of \<open>^(\[[^\]]+\]|[^:]+):(\d{1,5})$\<close>: host and port text around the last colon.\<close>

definition split_port :: "string \<Rightarrow> (string \<times> string) option" where
  "split_port value =
     (let p = rev (takeWhile (\<lambda>c. c \<noteq> CHR '':'') (rev value));
          h = take (length value - length p - 1) value;
          bracketed = (length h \<ge> 3 \<and> hd h = CHR ''['' \<and> last h = CHR '']'' \<and> CHR '']'' \<notin> set (butlast h))
      in if length p < length value \<and> p \<noteq> [] \<and> length p \<le> 5 \<and> list_all is_digit p \<and>
            (bracketed \<or> (h \<noteq> [] \<and> CHR '':'' \<notin> set h))
         then Some (h, p) else None)"

definition parseTarget :: "jsval \<Rightarrow> target option" where
  "parseTarget raw =
     (case raw of
        JStr s \<Rightarrow>
          let v = trim s;
              value = (if v \<noteq> [] \<and> list_all is_digit v then ''127.0.0.1:'' @ v else v)
          in (case split_port value of
                None \<Rightarrow> None
              | Some (host, p) \<Rightarrow>
                  let port = dec_nat p
                  in if port < 1 \<or> port > 65535 then None
                     else Some \<lparr>tg_host = host, tg_port = port, tg_authority = host @ '':'' @ show_nat port\<rparr>)
      | _ \<Rightarrow> None)"

record tunnel =
  tn_id :: string
  tn_accountId :: "nat option"
  tn_owner :: "string option"
  tn_guest :: "string option"
  tn_mode :: string
  tn_target :: target
  tn_keepHost :: bool
  tn_session :: "nat option"
  tn_resumeToken :: string
  tn_secret :: "string option"
  tn_secretHash :: "bytes option"
  tn_joiners :: "nat list"
  tn_graceUntil :: "time option"
  tn_createdAt :: time
  tn_policy :: policy
  tn_persistent :: bool
  tn_credential :: "string option"

datatype listener = OwnerClose nat | JoinerClose nat

record rsession =
  rs_closed :: bool
  rs_account :: "(nat \<times> string) option"
  rs_guest :: "string option"
  rs_credential :: "string option"
  rs_ip :: string
  rs_saidBye :: bool
  rs_tunnel :: "nat option"
  rs_byes :: "(string \<times> nat) list"
  rs_listeners :: "listener list"

datatype reg_event = Online nat | Offline nat | ForgetTunnel string | Removed nat | Blocked string string string

record registry =
  objs :: "(nat, tunnel) jsmap"
  names :: "(string, nat) jsmap"
  sess :: "(nat, rsession) jsmap"
  nextObj :: nat
  timers :: "(nat \<times> time) list"
  events :: "reg_event list"
  table :: tunnel_table

record rconfig =
  c_httpMode :: string
  c_gracePeriod :: int
  c_publicUrl :: string
  c_publicScheme :: string
  c_baseDomain :: string
  c_urlPort :: string

definition tunnel_online :: "registry \<Rightarrow> tunnel \<Rightarrow> bool" where
  "tunnel_online r t =
     (case tn_session t of
        None \<Rightarrow> False
      | Some s \<Rightarrow> (case map_get (sess r) s of None \<Rightarrow> False | Some x \<Rightarrow> \<not> rs_closed x))"

definition shareCode :: "tunnel \<Rightarrow> string option" where
  "shareCode t = map_option (\<lambda>s. tn_id t @ s) (tn_secret t)"

definition new_Tunnel ::
  "(bytes \<Rightarrow> bytes) \<Rightarrow> bytes \<Rightarrow> bytes \<Rightarrow> time \<Rightarrow> string \<Rightarrow> string \<Rightarrow> target \<Rightarrow> bool \<Rightarrow> (nat \<times> string) option \<Rightarrow> string option \<Rightarrow> tunnel" where
  "new_Tunnel sha256 rndResume rndSecret now i mode target keepHost account guest =
     (let secret = (if mode = ''tcp'' then Some (randomSecret rndSecret) else None)
      in \<lparr>tn_id = i, tn_accountId = map_option fst account, tn_owner = map_option snd account,
          tn_guest = guest, tn_mode = mode, tn_target = target, tn_keepHost = keepHost, tn_session = None,
          tn_resumeToken = randomToken rndResume, tn_secret = secret,
          tn_secretHash = map_option (hashSecret sha256) secret, tn_joiners = [], tn_graceUntil = None,
          tn_createdAt = now, tn_policy = emptyPolicy, tn_persistent = False, tn_credential = None\<rparr>)"

definition get_tunnel :: "string \<Rightarrow> registry \<Rightarrow> (nat \<times> tunnel) option" where
  "get_tunnel i r =
     (case map_get (names r) i of
        None \<Rightarrow> None
      | Some oid \<Rightarrow> map_option (\<lambda>t. (oid, t)) (map_get (objs r) oid))"

definition on_tunnel :: "nat \<Rightarrow> (tunnel \<Rightarrow> tunnel) \<Rightarrow> registry \<Rightarrow> registry" where
  "on_tunnel oid f r =
     (case map_get (objs r) oid of None \<Rightarrow> r | Some t \<Rightarrow> r\<lparr>objs := map_set oid (f t) (objs r)\<rparr>)"

definition on_session :: "nat \<Rightarrow> (rsession \<Rightarrow> rsession) \<Rightarrow> registry \<Rightarrow> registry" where
  "on_session s f r =
     (case map_get (sess r) s of None \<Rightarrow> r | Some x \<Rightarrow> r\<lparr>sess := map_set s (f x) (sess r)\<rparr>)"

definition emit :: "reg_event \<Rightarrow> registry \<Rightarrow> registry" where
  "emit e r = r\<lparr>events := events r @ [e]\<rparr>"

text \<open>The bye message and the close code; the close event follows from the network later.\<close>

definition endSession :: "nat option \<Rightarrow> string \<Rightarrow> nat \<Rightarrow> registry \<Rightarrow> registry" where
  "endSession s reason code r =
     (case s of
        None \<Rightarrow> r
      | Some i \<Rightarrow> on_session i (\<lambda>x. if rs_closed x then x else x\<lparr>rs_byes := rs_byes x @ [(reason, code)]\<rparr>) r)"

fun end_each :: "nat list \<Rightarrow> string \<Rightarrow> nat \<Rightarrow> registry \<Rightarrow> registry" where
  "end_each [] reason code r = r"
| "end_each (s # ss) reason code r = end_each ss reason code (endSession (Some s) reason code r)"

definition clear_timer :: "nat \<Rightarrow> registry \<Rightarrow> registry" where
  "clear_timer oid r = r\<lparr>timers := filter (\<lambda>(o', _). o' \<noteq> oid) (timers r)\<rparr>"

definition remove :: "string \<Rightarrow> string \<Rightarrow> registry \<Rightarrow> registry" where
  "remove i reason r =
     (case get_tunnel i r of
        None \<Rightarrow> r
      | Some (oid, t) \<Rightarrow>
          let r1 = emit (ForgetTunnel i) r;
              r2 = clear_timer oid (r1\<lparr>names := map_delete i (names r1)\<rparr>);
              r3 = endSession (tn_session t) (''tunnel closed ('' @ reason @ '')'') 4004 r2;
              r4 = end_each (tn_joiners t) ''tunnel closed'' 4004 r3
          in emit (Removed oid) (on_tunnel oid (\<lambda>t. t\<lparr>tn_joiners := []\<rparr>) r4))"

definition startGrace :: "rconfig \<Rightarrow> time \<Rightarrow> nat \<Rightarrow> registry \<Rightarrow> registry" where
  "startGrace c now oid r =
     (case map_get (objs r) oid of
        None \<Rightarrow> r
      | Some t \<Rightarrow>
          let r1 = emit (Offline oid) r; seconds = c_gracePeriod c
          in if seconds \<le> 0 then remove (tn_id t) ''grace period is 0'' r1
             else let r2 = on_tunnel oid (\<lambda>t. t\<lparr>tn_graceUntil := Some (now + seconds * 1000)\<rparr>) r1
                  in r2\<lparr>timers := timers r2 @ [(oid, now + seconds * 1000)]\<rparr>)"

definition attach :: "nat \<Rightarrow> nat \<Rightarrow> target \<Rightarrow> bool \<Rightarrow> registry \<Rightarrow> registry" where
  "attach oid s target keepHost r =
     (case (map_get (objs r) oid, map_get (sess r) s) of
        (Some t, Some x) \<Rightarrow>
          let r1 = clear_timer oid (on_tunnel oid (\<lambda>t. t\<lparr>tn_credential := rs_credential x, tn_graceUntil := None\<rparr>) r);
              r2 = (if tn_session t \<noteq> Some s
                    then endSession (tn_session t) ''replaced by a newer connection'' 4001 r1 else r1);
              r3 = on_tunnel oid (\<lambda>t. t\<lparr>tn_session := Some s, tn_target := target, tn_keepHost := keepHost\<rparr>) r2;
              r4 = on_session s (\<lambda>x. x\<lparr>rs_tunnel := Some oid, rs_listeners := rs_listeners x @ [OwnerClose oid]\<rparr>) r3
          in emit (Online oid) r4
      | _ \<Rightarrow> r)"

subsection \<open>Registration\<close>

definition findByResumeToken :: "(bytes \<Rightarrow> bytes) \<Rightarrow> string \<Rightarrow> registry \<Rightarrow> (nat \<times> tunnel) option" where
  "findByResumeToken sha256 token r =
     find (\<lambda>(_, t). safeEqual sha256 (tn_resumeToken t) token)
       (List.map_filter (\<lambda>(_, oid). map_option (\<lambda>t. (oid, t)) (map_get (objs r) oid)) (names r))"

definition allocateId ::
  "bytes list \<Rightarrow> jsval \<Rightarrow> nat option \<Rightarrow> registry \<Rightarrow> (string \<times> definition_row option) result" where
  "allocateId rnds requested accountId r =
     (if requested \<noteq> JUndef \<and> requested \<noteq> JNull \<and> requested \<noteq> JStr []
      then let name = to_lower (js_string requested)
           in if isReserved name
              then Inl (Err ''invalid_name'' (''The name \"'' @ name @ ''\" is taken by the server itself''))
              else if \<not> isValidName name
              then Inl (Err ''invalid_name'' (''Invalid name \"'' @ name @ ''\": use 3-32 characters a-z, 0-9 or \"-\"''))
              else if map_get (names r) name \<noteq> None
              then Inl (Err ''name_taken'' (''The name \"'' @ name @ ''\" is already in use''))
              else (case load name (table r) of
                      None \<Rightarrow> Inr (name, None)
                    | Some f \<Rightarrow>
                        if Some (df_accountId f) \<noteq> accountId
                        then Inl (Err ''name_reserved'' (''The name \"'' @ name @ ''\" is reserved by another account''))
                        else Inr (name, Some f))
      else (case find (\<lambda>i. map_get (names r) i = None \<and> \<not> isReserved i \<and> load i (table r) = None)
                   (map randomId (take 50 rnds)) of
              Some i \<Rightarrow> Inr (i, None)
            | None \<Rightarrow> Inl (Err ''bad_request'' ''Could not allocate a tunnel id'')))"

text \<open>The second half of register: the tunnel is created, stored under its name and attached.
  The previous share code keeps its secret when the tunnel gets the id it had before.\<close>

definition register_commit ::
  "(bytes \<Rightarrow> bytes) \<Rightarrow> (string \<Rightarrow> bytes \<Rightarrow> nat \<Rightarrow> bytes) \<Rightarrow> bytes \<Rightarrow> bytes \<Rightarrow> bytes \<Rightarrow> time \<Rightarrow> nat \<Rightarrow> string \<Rightarrow> target \<Rightarrow> bool \<Rightarrow>
   jsval \<Rightarrow> (string \<times> string) option \<Rightarrow> string \<times> definition_row option \<Rightarrow> registry \<Rightarrow> (registry \<times> nat) result" where
  "register_commit sha256 scrypt salt rndResume rndSecret now s mode target keepHost policy previous allocated r =
     (case map_get (sess r) s of
        None \<Rightarrow> Inl TYPE_ERROR
      | Some x \<Rightarrow>
          let (i, df) = allocated; oid = nextObj r;
              t0 = new_Tunnel sha256 rndResume rndSecret now i mode target keepHost (rs_account x) (rs_guest x);
              t1 = (case previous of
                      Some (pid, secret) \<Rightarrow>
                        if pid = i then t0\<lparr>tn_secret := Some secret, tn_secretHash := Some (hashSecret sha256 secret)\<rparr> else t0
                    | None \<Rightarrow> t0);
              t2 = (case df of None \<Rightarrow> t1 | Some f \<Rightarrow> t1\<lparr>tn_persistent := True, tn_policy := df_policy f\<rparr>)
          in bind (if truthy policy then bind (buildPolicy scrypt salt policy emptyPolicy) (\<lambda>p. Inr (t2\<lparr>tn_policy := p\<rparr>)) else Inr t2) (\<lambda>t3.
             let r1 = (if truthy policy \<and> df \<noteq> None then r\<lparr>table := savePolicy i (tn_policy t3) (table r)\<rparr> else r);
                 r2 = r1\<lparr>objs := map_set oid t3 (objs r1), nextObj := oid + 1, names := map_set i oid (names r1)\<rparr>
             in Inr (attach oid s target keepHost r2, oid)))"

definition resume_tunnel ::
  "(string \<Rightarrow> bytes \<Rightarrow> nat \<Rightarrow> bytes) \<Rightarrow> bytes \<Rightarrow> nat \<Rightarrow> tunnel \<Rightarrow> nat \<Rightarrow> target \<Rightarrow> bool \<Rightarrow> jsval \<Rightarrow> registry \<Rightarrow> (registry \<times> nat) result" where
  "resume_tunnel scrypt salt oid t s target keepHost policy r =
     bind (if truthy policy then bind (buildPolicy scrypt salt policy emptyPolicy) (\<lambda>p. Inr (Some p)) else Inr None) (\<lambda>np.
     let r1 = (case np of
                 None \<Rightarrow> r
               | Some p \<Rightarrow>
                   let r0 = on_tunnel oid (\<lambda>t. t\<lparr>tn_policy := p\<rparr>) r
                   in if tn_persistent t then r0\<lparr>table := savePolicy (tn_id t) p (table r0)\<rparr> else r0)
     in Inr (attach oid s target keepHost r1, oid))"

text \<open>Without an account account.id is undefined and equal to no tunnel's accountId, which is null.\<close>

definition owned :: "nat option \<Rightarrow> registry \<Rightarrow> nat" where
  "owned a r = length (filter (\<lambda>(_, oid). case map_get (objs r) oid of None \<Rightarrow> False | Some t \<Rightarrow> a \<noteq> None \<and> tn_accountId t = a) (names r))"

definition register_new ::
  "(bytes \<Rightarrow> bytes) \<Rightarrow> (string \<Rightarrow> bytes \<Rightarrow> nat \<Rightarrow> bytes) \<Rightarrow> bytes \<Rightarrow> bytes \<Rightarrow> bytes \<Rightarrow> bytes list \<Rightarrow> limits \<Rightarrow> nat \<Rightarrow> time \<Rightarrow>
   nat \<Rightarrow> string \<Rightarrow> target \<Rightarrow> bool \<Rightarrow> jsval \<Rightarrow> nat option \<Rightarrow> jsval \<Rightarrow> registry \<Rightarrow> (registry \<times> nat \<times> bool) result" where
  "register_new sha256 scrypt salt rndResume rndSecret rnds limits traffic now s mode target keepHost policy accountId message r =
     bind (enforce limits ''tunnels'' (owned accountId r)) (\<lambda>_.
     bind (enforceTraffic limits traffic) (\<lambda>_.
     let previous = (if mode = ''tcp'' then splitShareCode (js_get message ''share'') else None);
         name = js_get message ''name'';
         wanted = (if truthy name then name
                   else case previous of
                          Some (pid, _) \<Rightarrow> if map_get (names r) pid = None then JStr pid else JUndef
                        | None \<Rightarrow> JUndef)
     in bind (allocateId rnds wanted accountId r) (\<lambda>allocated.
        bind (register_commit sha256 scrypt salt rndResume rndSecret now s mode target keepHost policy previous allocated r)
          (\<lambda>(r', o'). Inr (r', o', False)))))"

text \<open>The whole of register, with nothing happening in between. limits and traffic are those
  of the account (see Quotas).\<close>

definition register ::
  "(bytes \<Rightarrow> bytes) \<Rightarrow> (string \<Rightarrow> bytes \<Rightarrow> nat \<Rightarrow> bytes) \<Rightarrow> bytes \<Rightarrow> bytes \<Rightarrow> bytes \<Rightarrow> bytes list \<Rightarrow> rconfig \<Rightarrow> limits \<Rightarrow> nat \<Rightarrow> time \<Rightarrow>
   nat \<Rightarrow> jsval \<Rightarrow> registry \<Rightarrow> (registry \<times> nat \<times> bool) result" where
  "register sha256 scrypt salt rndResume rndSecret rnds c limits traffic now s message r =
     (let m = js_get message ''mode''
      in if m \<noteq> JStr ''http'' \<and> m \<noteq> JStr ''tcp'' then Inl (Err ''bad_request'' ''mode must be http or tcp'')
         else let mode = (if m = JStr ''http'' then c_httpMode c else ''tcp'')
              in case parseTarget (js_get message ''target'') of
                   None \<Rightarrow> Inl (Err ''bad_request'' ''target must be a port or host:port'')
                 | Some target \<Rightarrow>
                     let x = map_get (sess r) s; accountId = (case x of None \<Rightarrow> None | Some x \<Rightarrow> map_option fst (rs_account x));
                         keepHost = truthy (js_get message ''keepHost''); policy = js_get message ''policy'';
                         existing = (case js_get message ''resume'' of
                           JStr tok \<Rightarrow> if tok \<noteq> [] then findByResumeToken sha256 tok r else None | _ \<Rightarrow> None)
                     in case existing of
                          Some (oid, t) \<Rightarrow>
                            if tn_mode t = mode \<and> accountId \<noteq> None \<and> tn_accountId t = accountId
                            then bind (resume_tunnel scrypt salt oid t s target keepHost policy r) (\<lambda>(r', o'). Inr (r', o', True))
                            else register_new sha256 scrypt salt rndResume rndSecret rnds limits traffic now s mode target keepHost policy accountId message r
                        | None \<Rightarrow> register_new sha256 scrypt salt rndResume rndSecret rnds limits traffic now s mode target keepHost policy accountId message r)"

subsection \<open>Events\<close>

text \<open>One close listener of a session.\<close>

fun run_listener :: "rconfig \<Rightarrow> time \<Rightarrow> nat \<Rightarrow> listener \<Rightarrow> registry \<Rightarrow> registry" where
  "run_listener c now s (OwnerClose oid) r =
     (case map_get (objs r) oid of
        None \<Rightarrow> r
      | Some t \<Rightarrow>
          if tn_session t \<noteq> Some s then r
          else let r1 = on_tunnel oid (\<lambda>t. t\<lparr>tn_session := None\<rparr>) r
               in if (case map_get (sess r1) s of None \<Rightarrow> False | Some x \<Rightarrow> rs_saidBye x)
                  then remove (tn_id t) ''closed by owner'' r1
                  else startGrace c now oid r1)"
| "run_listener c now s (JoinerClose oid) r =
     on_tunnel oid (\<lambda>t. t\<lparr>tn_joiners := filter (\<lambda>j. j \<noteq> s) (tn_joiners t)\<rparr>) r"

text \<open>The close event of a session: it happens once, its listeners run in order.\<close>

definition session_closed :: "rconfig \<Rightarrow> time \<Rightarrow> nat \<Rightarrow> registry \<Rightarrow> registry" where
  "session_closed c now s r =
     (case map_get (sess r) s of
        None \<Rightarrow> r
      | Some x \<Rightarrow>
          if rs_closed x then r
          else fold (run_listener c now s) (rs_listeners x)
                 (on_session s (\<lambda>x. x\<lparr>rs_closed := True, rs_listeners := []\<rparr>) r))"

definition timer_fires :: "nat \<Rightarrow> registry \<Rightarrow> registry" where
  "timer_fires oid r =
     (case map_get (objs r) oid of
        None \<Rightarrow> r
      | Some t \<Rightarrow> remove (tn_id t) ''grace period expired'' (clear_timer oid r))"

fun remove_each :: "string list \<Rightarrow> string \<Rightarrow> registry \<Rightarrow> registry" where
  "remove_each [] reason r = r"
| "remove_each (i # is) reason r = remove_each is reason (remove i reason r)"

definition names_where :: "(tunnel \<Rightarrow> bool) \<Rightarrow> registry \<Rightarrow> string list" where
  "names_where P r =
     map fst (filter (\<lambda>(_, oid). case map_get (objs r) oid of None \<Rightarrow> False | Some t \<Rightarrow> P t) (names r))"

definition closeFor :: "nat option \<Rightarrow> string \<Rightarrow> registry \<Rightarrow> registry" where
  "closeFor accountId reason r = remove_each (names_where (\<lambda>t. tn_accountId t = accountId) r) reason r"

definition closeCredential :: "string \<Rightarrow> string \<Rightarrow> registry \<Rightarrow> registry" where
  "closeCredential credential reason r =
     remove_each (names_where (\<lambda>t. tn_credential t = Some credential) r) reason r"

definition INVALID_CODE :: err where
  "INVALID_CODE = Err ''invalid_code'' ''Invalid share code''"

definition join_tunnel ::
  "(bytes \<Rightarrow> bytes) \<Rightarrow> (string \<Rightarrow> ip_details) \<Rightarrow> nat \<Rightarrow> jsval \<Rightarrow> registry \<Rightarrow> registry \<times> nat result" where
  "join_tunnel sha256 lookupIp s code r =
     (case splitShareCode code of
        None \<Rightarrow> (r, Inl INVALID_CODE)
      | Some (i, secret) \<Rightarrow>
          (case get_tunnel i r of
             None \<Rightarrow> (r, Inl INVALID_CODE)
           | Some (oid, t) \<Rightarrow>
               if tn_mode t \<noteq> ''tcp'' \<or> tn_secretHash t = None then (r, Inl INVALID_CODE)
               else if tn_secretHash t \<noteq> Some (hashSecret sha256 secret) then (r, Inl INVALID_CODE)
               else let ip = (case map_get (sess r) s of None \<Rightarrow> [] | Some x \<Rightarrow> rs_ip x);
                        details = lookupIp ip
                    in case evaluate (tn_policy t) ip details of
                         Some reason \<Rightarrow>
                           (emit (Blocked i ip reason) r, Inl (Err ''forbidden'' ''Your address is not allowed to use this tunnel''))
                       | None \<Rightarrow>
                           let r1 = on_tunnel oid (\<lambda>t. t\<lparr>tn_joiners := (if s \<in> set (tn_joiners t) then tn_joiners t else tn_joiners t @ [s])\<rparr>) r;
                               r2 = on_session s (\<lambda>x. x\<lparr>rs_tunnel := Some oid, rs_listeners := rs_listeners x @ [JoinerClose oid]\<rparr>) r1
                           in (r2, Inr oid)))"

subsection \<open>Addresses of a tunnel\<close>

definition urlFor :: "rconfig \<Rightarrow> string \<Rightarrow> string \<Rightarrow> string" where
  "urlFor c name mode =
     (if mode = ''subdomain''
      then c_publicScheme c @ ''://'' @ name @ ''.'' @ c_baseDomain c @
           (if c_urlPort c \<noteq> [] then '':'' @ c_urlPort c else [])
      else c_publicUrl c @ ''/@'' @ name)"

definition publicUrl :: "rconfig \<Rightarrow> tunnel \<Rightarrow> string option" where
  "publicUrl c t = (if tn_mode t = ''tcp'' then None else Some (urlFor c (tn_id t) (tn_mode t)))"

definition connectUrl :: "rconfig \<Rightarrow> tunnel \<Rightarrow> string option" where
  "connectUrl c t = map_option (\<lambda>code. c_publicUrl c @ ''/@tunlit/connect/'' @ code) (shareCode t)"

definition customUrls :: "rconfig \<Rightarrow> (string \<Rightarrow> string list) \<Rightarrow> tunnel \<Rightarrow> string list" where
  "customUrls c hostsFor t =
     (if tn_mode t = ''tcp'' then [] else map (\<lambda>h. c_publicScheme c @ ''://'' @ h) (hostsFor (tn_id t)))"

end
