(* ===== verification/RegistryLife.thy ===== *)
theory RegistryLife
  imports Registry
begin

text \<open>
  The life of a tunnel in the registry of src/server/lib/registry.js. A step relation covers
  every operation of the registry and every event it reacts to, in any order; the invariant
  shows that a registered tunnel always has somebody who will remove it: an open session that
  tells it when it closes, or a pending grace timer. The runs at the end show the two ways the
  program escapes this: a registration that ends after its session has closed, and the close
  event of a session whose tunnel was removed meanwhile.
\<close>

subsection \<open>Frame lemmas\<close>

lemma on_tunnel_objs:
  "map_get (objs (on_tunnel oid f r)) k = (if k = oid then map_option f (map_get (objs r) oid) else map_get (objs r) k)"
  by (auto simp: on_tunnel_def split: option.splits)

lemma on_session_sess:
  "map_get (sess (on_session s f r)) k = (if k = s then map_option f (map_get (sess r) s) else map_get (sess r) k)"
  by (auto simp: on_session_def split: option.splits)

lemma on_tunnel_frame [simp]:
  "names (on_tunnel oid f r) = names r" "sess (on_tunnel oid f r) = sess r" "timers (on_tunnel oid f r) = timers r"
  "nextObj (on_tunnel oid f r) = nextObj r" "table (on_tunnel oid f r) = table r" "events (on_tunnel oid f r) = events r"
  by (simp_all add: on_tunnel_def split: option.splits)

lemma on_session_frame [simp]:
  "names (on_session s f r) = names r" "objs (on_session s f r) = objs r" "timers (on_session s f r) = timers r"
  "nextObj (on_session s f r) = nextObj r" "table (on_session s f r) = table r" "events (on_session s f r) = events r"
  by (simp_all add: on_session_def split: option.splits)

lemma emit_frame [simp]:
  "names (emit e r) = names r" "objs (emit e r) = objs r" "timers (emit e r) = timers r" "sess (emit e r) = sess r"
  "nextObj (emit e r) = nextObj r" "table (emit e r) = table r"
  by (simp_all add: emit_def)

lemma clear_timer_frame [simp]:
  "names (clear_timer o' r) = names r" "objs (clear_timer o' r) = objs r" "sess (clear_timer o' r) = sess r"
  "nextObj (clear_timer o' r) = nextObj r" "table (clear_timer o' r) = table r"
  "fst ` set (timers (clear_timer o' r)) = fst ` set (timers r) - {o'}"
  by (auto simp: clear_timer_def)

lemma endSession_frame [simp]:
  "names (endSession s m c r) = names r" "objs (endSession s m c r) = objs r" "timers (endSession s m c r) = timers r"
  "nextObj (endSession s m c r) = nextObj r" "table (endSession s m c r) = table r"
  by (simp_all add: endSession_def split: option.splits)

lemma end_each_frame [simp]:
  "names (end_each ss m c r) = names r" "objs (end_each ss m c r) = objs r" "timers (end_each ss m c r) = timers r"
  "nextObj (end_each ss m c r) = nextObj r" "table (end_each ss m c r) = table r"
  by (induction ss arbitrary: r) auto

text \<open>A session that is open and will tell the tunnel when it closes.\<close>

definition alive :: "registry \<Rightarrow> nat \<Rightarrow> nat \<Rightarrow> bool" where
  "alive r s oid \<longleftrightarrow> (\<exists>x. map_get (sess r) s = Some x \<and> \<not> rs_closed x \<and> OwnerClose oid \<in> set (rs_listeners x))"

lemma alive_endSession [simp]: "alive (endSession s' m c r) s oid = alive r s oid"
  by (auto simp: alive_def endSession_def on_session_sess split: option.splits)

lemma alive_end_each [simp]: "alive (end_each ss m c r) s oid = alive r s oid"
  by (induction ss arbitrary: r) auto

lemma alive_sess: "sess r = sess r' \<Longrightarrow> alive r s oid = alive r' s oid"
  by (simp add: alive_def)

definition anchored :: "registry \<Rightarrow> nat \<Rightarrow> tunnel \<Rightarrow> bool" where
  "anchored r oid t \<longleftrightarrow> (\<exists>s. tn_session t = Some s \<and> alive r s oid) \<or> oid \<in> fst ` set (timers r)"

text \<open>The structure of the registry: names and identities agree, identities are fresh.\<close>

definition reg_inv :: "registry \<Rightarrow> bool" where
  "reg_inv r \<longleftrightarrow> wf_map (names r) \<and>
     (\<forall>i oid. map_get (names r) i = Some oid \<longrightarrow> (\<exists>t. map_get (objs r) oid = Some t \<and> tn_id t = i)) \<and>
     (\<forall>oid t. map_get (objs r) oid = Some t \<longrightarrow> oid < nextObj r)"

text \<open>Every registered tunnel is anchored, apart from those whose listener is still to run.\<close>

definition kept :: "nat set \<Rightarrow> registry \<Rightarrow> bool" where
  "kept X r \<longleftrightarrow> (\<forall>i oid t. map_get (names r) i = Some oid \<longrightarrow> map_get (objs r) oid = Some t \<longrightarrow>
     anchored r oid t \<or> oid \<in> X)"

lemma inv_get: "reg_inv r \<Longrightarrow> map_get (names r) i = Some oid \<Longrightarrow> \<exists>t. get_tunnel i r = Some (oid, t) \<and> map_get (objs r) oid = Some t \<and> tn_id t = i"
  by (auto simp: reg_inv_def get_tunnel_def)

lemma remove_frame:
  assumes "get_tunnel i r = Some (oid, t)"
  shows "names (remove i reason r) = map_delete i (names r)"
    "fst ` set (timers (remove i reason r)) = fst ` set (timers r) - {oid}"
    "map_get (objs (remove i reason r)) k = (if k = oid then map_option (\<lambda>t. t\<lparr>tn_joiners := []\<rparr>) (map_get (objs r) k) else map_get (objs r) k)"
    "nextObj (remove i reason r) = nextObj r" "alive (remove i reason r) s k = alive r s k" "table (remove i reason r) = table r"
proof -
  let ?r2 = "clear_timer oid ((emit (ForgetTunnel i) r)\<lparr>names := map_delete i (names (emit (ForgetTunnel i) r))\<rparr>)"
  have s2: "sess ?r2 = sess r" by simp
  have eq: "remove i reason r = emit (Removed oid) (on_tunnel oid (\<lambda>t. t\<lparr>tn_joiners := []\<rparr>)
      (end_each (tn_joiners t) ''tunnel closed'' 4004 (endSession (tn_session t) (''tunnel closed ('' @ reason @ '')'') 4004 ?r2)))"
    using assms by (simp add: remove_def Let_def)
  show "names (remove i reason r) = map_delete i (names r)" unfolding eq by simp
  show "fst ` set (timers (remove i reason r)) = fst ` set (timers r) - {oid}" unfolding eq by simp
  show "map_get (objs (remove i reason r)) k = (if k = oid then map_option (\<lambda>t. t\<lparr>tn_joiners := []\<rparr>) (map_get (objs r) k) else map_get (objs r) k)"
    unfolding eq by (simp add: on_tunnel_objs)
  show "nextObj (remove i reason r) = nextObj r" "table (remove i reason r) = table r" unfolding eq by simp_all
  have a: "alive (emit e r0) s k = alive r0 s k" "alive (on_tunnel o' f r0) s k = alive r0 s k" for e o' f r0
    by (simp_all add: alive_def)
  show "alive (remove i reason r) s k = alive r s k"
    unfolding eq a alive_end_each alive_endSession using s2 by (rule alive_sess)
qed

lemma remove_none: "get_tunnel i r = None \<Longrightarrow> remove i reason r = r"
  by (simp add: remove_def)

lemma remove_keeps:
  assumes "reg_inv r" "kept X r"
  shows "reg_inv (remove i reason r) \<and> kept X (remove i reason r)"
proof (cases "get_tunnel i r")
  case None
  then show ?thesis using assms by (simp add: remove_none)
next
  case (Some p)
  obtain oid t where p: "get_tunnel i r = Some (oid, t)" using Some by (cases p) auto
  note f = remove_frame [OF p]
  have n: "map_get (names r) i = Some oid" using p by (auto simp: get_tunnel_def split: option.splits)
  have other: "j = i" if "map_get (names r) j = Some oid" for j
    using that n assms(1) by (auto simp: reg_inv_def) (metis option.inject)
  have inv: "reg_inv (remove i reason r)"
    using assms(1) other unfolding reg_inv_def f by (auto simp: wf_map_delete split: if_splits)
  have "kept X (remove i reason r)"
    unfolding kept_def
  proof (intro allI impI)
    fix j k u
    assume a: "map_get (names (remove i reason r)) j = Some k" "map_get (objs (remove i reason r)) k = Some u"
    then have j: "j \<noteq> i" "map_get (names r) j = Some k" unfolding f by (auto split: if_splits)
    then have k: "k \<noteq> oid" using other by blast
    then have u: "map_get (objs r) k = Some u" using a(2) unfolding f by simp
    have "anchored r k u \<or> k \<in> X" using assms(2) j(2) u by (auto simp: kept_def)
    then show "anchored (remove i reason r) k u \<or> k \<in> X" using k unfolding anchored_def f by auto
  qed
  with inv show ?thesis ..
qed


lemma removed_gone:
  assumes "reg_inv r" "map_get (objs r) oid = Some t" "tn_id t = i"
  shows "map_get (names (remove i reason r)) j \<noteq> Some oid"
proof
  assume a: "map_get (names (remove i reason r)) j = Some oid"
  have n: "map_get (names r) j = Some oid"
  proof (cases "get_tunnel i r")
    case (Some p)
    have "get_tunnel i r = Some (fst p, snd p)" using Some by simp
    from a [unfolded remove_frame(1) [OF this]] show ?thesis by (auto split: if_splits)
  qed (use a in \<open>simp add: remove_none\<close>)
  then have "j = i" using assms unfolding reg_inv_def by (metis option.inject)
  with n assms(2) have "get_tunnel i r = Some (oid, t)" by (simp add: get_tunnel_def)
  from a [unfolded remove_frame(1) [OF this]] \<open>j = i\<close> show False by simp
qed

lemma remove_own_keeps:
  assumes "reg_inv r" "kept (insert oid X) r" "map_get (objs r) oid = Some t"
  shows "reg_inv (remove (tn_id t) reason r) \<and> kept X (remove (tn_id t) reason r)"
proof -
  have "map_get (names (remove (tn_id t) reason r)) j \<noteq> Some oid" for j
    by (rule removed_gone [OF assms(1,3) refl])
  then show ?thesis using remove_keeps [OF assms(1,2), of "tn_id t" reason] unfolding kept_def by blast
qed

lemma keeps_mono: "kept X r \<Longrightarrow> X \<subseteq> Y \<Longrightarrow> kept Y r"
  by (auto simp: kept_def)

lemma on_tunnel_inv:
  assumes "reg_inv r" "\<And>t. tn_id (f t) = tn_id t"
  shows "reg_inv (on_tunnel oid f r)"
  using assms unfolding reg_inv_def on_tunnel_frame on_tunnel_objs
  by (auto split: if_splits) (metis option.map_sel option.sel option.distinct(1) map_option_is_None option.map(2))

lemma on_session_inv [simp]: "reg_inv (on_session s f r) = reg_inv r"
  by (simp add: reg_inv_def)

lemma inv_field_updates [simp]:
  "reg_inv (emit e r) = reg_inv r" "reg_inv (clear_timer o' r) = reg_inv r" "reg_inv (endSession s m c r) = reg_inv r"
  "reg_inv (r\<lparr>timers := ts\<rparr>) = reg_inv r" "reg_inv (r\<lparr>table := tb\<rparr>) = reg_inv r"
  by (simp_all add: reg_inv_def)

lemma startGrace_keeps:
  assumes "reg_inv r" "kept (insert oid X) r"
  shows "reg_inv (startGrace c now oid r) \<and> kept X (startGrace c now oid r)"
proof (cases "map_get (objs r) oid")
  case None
  have "kept X r"
    unfolding kept_def
  proof (intro allI impI)
    fix i k t assume "map_get (names r) i = Some k" "map_get (objs r) k = Some t"
    then show "anchored r k t \<or> k \<in> X" using assms(2) None by (cases "k = oid") (auto simp: kept_def)
  qed
  then show ?thesis using None assms by (simp add: startGrace_def)
next
  case (Some t)
  show ?thesis
  proof (cases "c_gracePeriod c \<le> 0")
    case True
    let ?r = "emit (Offline oid) r"
    have eq: "startGrace c now oid r = remove (tn_id t) ''grace period is 0'' ?r"
      using Some True by (simp add: startGrace_def Let_def)
    have k: "kept (insert oid X) ?r" using assms(2) by (simp add: kept_def anchored_def alive_def)
    have i: "reg_inv ?r" using assms(1) by simp
    from remove_own_keeps [OF i k] Some show ?thesis unfolding eq by simp
  next
    case False
    let ?due = "now + c_gracePeriod c * 1000"
    let ?r1 = "on_tunnel oid (\<lambda>t. t\<lparr>tn_graceUntil := Some ?due\<rparr>) (emit (Offline oid) r)"
    have eq: "startGrace c now oid r = ?r1\<lparr>timers := timers ?r1 @ [(oid, ?due)]\<rparr>"
      using Some False by (simp add: startGrace_def Let_def)
    have "reg_inv ?r1" using assms(1) by (intro on_tunnel_inv) simp_all
    moreover have "kept X (?r1\<lparr>timers := timers ?r1 @ [(oid, ?due)]\<rparr>)"
      using assms(2) unfolding kept_def
      by (auto simp: anchored_def alive_def on_tunnel_objs split: if_splits)
    ultimately show ?thesis unfolding eq by simp
  qed
qed

lemma attach_keeps:
  assumes "reg_inv r" "kept (insert oid X) r" "map_get (objs r) oid = Some t"
    "map_get (sess r) s = Some x" "\<not> rs_closed x"
  shows "reg_inv (attach oid s target kh r) \<and> kept X (attach oid s target kh r)"
proof -
  let ?f = "\<lambda>t. t\<lparr>tn_credential := rs_credential x, tn_graceUntil := None\<rparr>"
  let ?g = "\<lambda>t. t\<lparr>tn_session := Some s, tn_target := target, tn_keepHost := kh\<rparr>"
  let ?h = "\<lambda>x. x\<lparr>rs_tunnel := Some oid, rs_listeners := rs_listeners x @ [OwnerClose oid]\<rparr>"
  let ?r1 = "clear_timer oid (on_tunnel oid ?f r)"
  let ?r2 = "if tn_session t \<noteq> Some s then endSession (tn_session t) ''replaced by a newer connection'' 4001 ?r1 else ?r1"
  let ?r3 = "on_tunnel oid ?g ?r2"
  let ?r4 = "on_session s ?h ?r3"
  have eq: "attach oid s target kh r = emit (Online oid) ?r4"
    using assms(3,4) by (simp add: attach_def Let_def)
  have i2: "reg_inv ?r2" using on_tunnel_inv [OF assms(1), of ?f oid] by simp
  then have i4: "reg_inv ?r4" using on_tunnel_inv [OF i2, of ?g oid] by simp
  have fr: "names ?r4 = names r" "fst ` set (timers ?r4) = fst ` set (timers r) - {oid}" by auto
  have ob: "map_get (objs ?r4) k = (if k = oid then Some (?g (?f t)) else map_get (objs r) k)" for k
    using assms(3) by (auto simp: on_tunnel_objs)
  have al2: "alive ?r2 s' k = alive r s' k" for s' k
  proof -
    have "alive ?r1 s' k = alive r s' k" by (rule alive_sess) simp
    then show ?thesis by (cases "tn_session t = Some s") simp_all
  qed
  have al: "alive r s' k \<Longrightarrow> alive ?r4 s' k" for s' k
    using al2 [of s' k] by (auto simp: alive_def on_session_sess)
  have me: "alive ?r4 s oid"
  proof -
    have "\<exists>y. map_get (sess ?r2) s = Some y \<and> \<not> rs_closed y"
      using assms(4,5) by (auto simp: endSession_def on_session_sess split: option.splits)
    then show ?thesis by (auto simp: alive_def on_session_sess)
  qed
  have "kept X ?r4"
    unfolding kept_def
  proof (intro allI impI)
    fix i k u assume a: "map_get (names ?r4) i = Some k" "map_get (objs ?r4) k = Some u"
    show "anchored ?r4 k u \<or> k \<in> X"
    proof (cases "k = oid")
      case True
      then have "tn_session u = Some s" using a(2) ob by auto
      then show ?thesis using me True by (auto simp: anchored_def)
    next
      case False
      have "map_get (names r) i = Some k" using a(1) unfolding fr .
      moreover have "map_get (objs r) k = Some u" using a(2) False unfolding ob by simp
      ultimately have "anchored r k u \<or> k \<in> insert oid X" using assms(2) unfolding kept_def by blast
      with False have "anchored r k u \<or> k \<in> X" by blast
      then show ?thesis
      proof
        assume "anchored r k u"
        then have "anchored ?r4 k u" unfolding anchored_def fr(2) using al False by blast
        then show ?thesis ..
      qed simp
    qed
  qed
  then have "kept X (emit (Online oid) ?r4)" by (simp add: kept_def anchored_def alive_def)
  then show ?thesis unfolding eq using i4 by simp
qed

lemma kept_cong:
  assumes "kept X r" "names r' = names r" "fst ` set (timers r') = fst ` set (timers r)"
    "\<And>k u. map_get (objs r') k = Some u \<Longrightarrow> \<exists>t. map_get (objs r) k = Some t \<and> tn_session t = tn_session u"
    "\<And>s k. alive r s k \<Longrightarrow> alive r' s k"
  shows "kept X r'"
  unfolding kept_def
proof (intro allI impI)
  fix i k u assume a: "map_get (names r') i = Some k" "map_get (objs r') k = Some u"
  obtain t where t: "map_get (objs r) k = Some t" "tn_session t = tn_session u" using assms(4) a(2) by blast
  have "anchored r k t \<or> k \<in> X" using assms(1,2) a(1) t(1) by (simp add: kept_def)
  then show "anchored r' k u \<or> k \<in> X" unfolding anchored_def assms(3) using t(2) assms(5) by auto
qed

subsection \<open>The close event\<close>

lemma remove_session_kept:
  "map_get (objs (remove i reason r)) k = Some u \<Longrightarrow> \<exists>t. map_get (objs r) k = Some t \<and> tn_session t = tn_session u"
proof (cases "get_tunnel i r")
  case (Some p)
  assume a: "map_get (objs (remove i reason r)) k = Some u"
  have "get_tunnel i r = Some (fst p, snd p)" using Some by simp
  from a [unfolded remove_frame(3) [OF this]] show ?thesis by (auto split: if_splits)
qed (simp add: remove_none)

lemma remove_alive: "alive (remove i reason r) s k = alive r s k"
  by (cases "get_tunnel i r") (auto simp: remove_none remove_frame(5))

lemma startGrace_session_kept:
  "map_get (objs (startGrace c now oid r)) k = Some u \<Longrightarrow> \<exists>t. map_get (objs r) k = Some t \<and> tn_session t = tn_session u"
  by (auto simp: startGrace_def Let_def on_tunnel_objs split: option.splits if_splits dest: remove_session_kept)

text \<open>The tunnels of a closing session whose listener has not run yet.\<close>

definition pending :: "nat \<Rightarrow> listener list \<Rightarrow> registry \<Rightarrow> nat set" where
  "pending s ls r = {k. \<exists>t. map_get (objs r) k = Some t \<and> tn_session t = Some s \<and> OwnerClose k \<in> set ls}"

lemma pending_kept:
  assumes "kept X r'" "X \<subseteq> pending s ls r" 
    "\<And>k u. map_get (objs r') k = Some u \<Longrightarrow> \<exists>t. map_get (objs r) k = Some t \<and> tn_session t = tn_session u"
  shows "kept (pending s ls r') r'"
  unfolding kept_def
proof (intro allI impI)
  fix i k u assume a: "map_get (names r') i = Some k" "map_get (objs r') k = Some u"
  have "anchored r' k u \<or> k \<in> X" using assms(1) a by (simp add: kept_def)
  moreover have "k \<in> pending s ls r'" if "k \<in> X"
    using that assms(2,3) a(2) unfolding pending_def by fastforce
  ultimately show "anchored r' k u \<or> k \<in> pending s ls r'" by blast
qed

lemma run_owner_keeps:
  assumes "reg_inv r" "kept (pending s (OwnerClose oid # ls) r) r"
  shows "reg_inv (run_listener c now s (OwnerClose oid) r) \<and>
    kept (pending s ls (run_listener c now s (OwnerClose oid) r)) (run_listener c now s (OwnerClose oid) r)"
proof (cases "\<exists>t. map_get (objs r) oid = Some t \<and> tn_session t = Some s")
  case False
  then have "pending s (OwnerClose oid # ls) r = pending s ls r" by (auto simp: pending_def)
  moreover have "run_listener c now s (OwnerClose oid) r = r" using False by (auto split: option.splits)
  ultimately show ?thesis using assms by simp
next
  case True
  then obtain t where t: "map_get (objs r) oid = Some t" "tn_session t = Some s" by blast
  let ?r1 = "on_tunnel oid (\<lambda>t. t\<lparr>tn_session := None\<rparr>) r"
  let ?X = "pending s ls ?r1"
  have i1: "reg_inv ?r1" using assms(1) by (rule on_tunnel_inv) simp
  have k1: "kept (insert oid ?X) ?r1"
    unfolding kept_def
  proof (intro allI impI)
    fix i k u assume a: "map_get (names ?r1) i = Some k" "map_get (objs ?r1) k = Some u"
    show "anchored ?r1 k u \<or> k \<in> insert oid ?X"
    proof (cases "k = oid")
      case False
      then have u: "map_get (objs r) k = Some u" using a(2) by (simp add: on_tunnel_objs)
      have "anchored r k u \<or> k \<in> pending s (OwnerClose oid # ls) r" using assms(2) a(1) u by (simp add: kept_def)
      then show ?thesis using False u by (auto simp: anchored_def alive_def pending_def on_tunnel_objs)
    qed simp
  qed
  show ?thesis
  proof (cases "case map_get (sess ?r1) s of None \<Rightarrow> False | Some x \<Rightarrow> rs_saidBye x")
    case True
    have eq: "run_listener c now s (OwnerClose oid) r = remove (tn_id t) ''closed by owner'' ?r1"
      using t True by (simp add: Let_def)
    have ik: "reg_inv (remove (tn_id t) ''closed by owner'' ?r1) \<and> kept ?X (remove (tn_id t) ''closed by owner'' ?r1)"
      using remove_own_keeps [OF i1 k1, of "t\<lparr>tn_session := None\<rparr>"] t by (simp add: on_tunnel_objs)
    have "kept (pending s ls (remove (tn_id t) ''closed by owner'' ?r1)) (remove (tn_id t) ''closed by owner'' ?r1)"
      by (rule pending_kept [OF conjunct2 [OF ik] subset_refl]) (rule remove_session_kept)
    with ik show ?thesis unfolding eq by blast
  next
    case False
    have eq: "run_listener c now s (OwnerClose oid) r = startGrace c now oid ?r1"
      using t False by (simp add: Let_def)
    have ik: "reg_inv (startGrace c now oid ?r1) \<and> kept ?X (startGrace c now oid ?r1)"
      by (rule startGrace_keeps [OF i1 k1])
    have "kept (pending s ls (startGrace c now oid ?r1)) (startGrace c now oid ?r1)"
      by (rule pending_kept [OF conjunct2 [OF ik] subset_refl]) (rule startGrace_session_kept)
    with ik show ?thesis unfolding eq by blast
  qed
qed

lemma run_listener_keeps:
  assumes "reg_inv r" "kept (pending s (l # ls) r) r"
  shows "reg_inv (run_listener c now s l r) \<and> kept (pending s ls (run_listener c now s l r)) (run_listener c now s l r)"
proof (cases l)
  case (OwnerClose oid)
  then show ?thesis using run_owner_keeps assms by blast
next
  case (JoinerClose oid)
  let ?f = "\<lambda>t. t\<lparr>tn_joiners := filter (\<lambda>j. j \<noteq> s) (tn_joiners t)\<rparr>"
  let ?r = "on_tunnel oid ?f r"
  have "pending s (l # ls) r = pending s ls r" using JoinerClose by (simp add: pending_def)
  with assms(2) have k: "kept (pending s ls r) r" by simp
  have same: "\<exists>t. map_get (objs r) k = Some t \<and> tn_session t = tn_session u" if "map_get (objs ?r) k = Some u" for k u
    using that by (auto simp: on_tunnel_objs split: if_splits)
  have "kept (pending s ls r) ?r" by (rule kept_cong [OF k]) (use same in \<open>auto simp: alive_def\<close>)
  from pending_kept [OF this subset_refl same] on_tunnel_inv [OF assms(1), of ?f oid] JoinerClose show ?thesis by simp
qed

lemma run_listeners_keep:
  "reg_inv r \<Longrightarrow> kept (pending s ls r) r \<Longrightarrow>
   reg_inv (fold (run_listener c now s) ls r) \<and> kept {} (fold (run_listener c now s) ls r)"
proof (induction ls arbitrary: r)
  case Nil
  then show ?case by (simp add: pending_def)
next
  case (Cons l ls)
  have "reg_inv (run_listener c now s l r) \<and> kept (pending s ls (run_listener c now s l r)) (run_listener c now s l r)"
    by (rule run_listener_keeps [OF Cons.prems])
  then show ?case using Cons.IH by simp
qed

lemma session_closed_keeps:
  assumes "reg_inv r" "kept {} r"
  shows "reg_inv (session_closed c now s r) \<and> kept {} (session_closed c now s r)"
proof (cases "\<exists>x. map_get (sess r) s = Some x \<and> \<not> rs_closed x")
  case False
  then show ?thesis using assms by (auto simp: session_closed_def split: option.splits)
next
  case True
  then obtain x where x: "map_get (sess r) s = Some x" "\<not> rs_closed x" by blast
  let ?r = "on_session s (\<lambda>x. x\<lparr>rs_closed := True, rs_listeners := []\<rparr>) r"
  have "kept (pending s (rs_listeners x) ?r) ?r"
    unfolding kept_def
  proof (intro allI impI)
    fix i k u assume a: "map_get (names ?r) i = Some k" "map_get (objs ?r) k = Some u"
    then have "anchored r k u" using assms(2) by (auto simp: kept_def)
    then consider "tn_session u = Some s" "alive r s k" | s' where "tn_session u = Some s'" "s' \<noteq> s" "alive r s' k"
      | "k \<in> fst ` set (timers r)" unfolding anchored_def by blast
    then show "anchored ?r k u \<or> k \<in> pending s (rs_listeners x) ?r"
      using x a(2) by cases (auto simp: anchored_def alive_def pending_def on_session_sess)
  qed
  from run_listeners_keep [OF _ this] assms(1) x show ?thesis by (simp add: session_closed_def)
qed


subsection \<open>The other operations\<close>

lemma timer_fires_keeps:
  assumes "reg_inv r" "kept {} r"
  shows "reg_inv (timer_fires oid r) \<and> kept {} (timer_fires oid r)"
proof (cases "map_get (objs r) oid")
  case None
  then show ?thesis using assms by (simp add: timer_fires_def)
next
  case (Some t)
  let ?r = "clear_timer oid r"
  have i: "reg_inv ?r" using assms(1) by simp
  have k: "kept {oid} ?r"
    unfolding kept_def
  proof (intro allI impI)
    fix i k u assume "map_get (names ?r) i = Some k" "map_get (objs ?r) k = Some u"
    then have "anchored r k u" using assms(2) by (simp add: kept_def)
    then show "anchored ?r k u \<or> k \<in> {oid}" by (auto simp: anchored_def alive_def)
  qed
  from remove_own_keeps [OF i k] show ?thesis using Some unfolding timer_fires_def by simp
qed

lemma remove_each_keeps:
  "reg_inv r \<Longrightarrow> kept {} r \<Longrightarrow> reg_inv (remove_each is reason r) \<and> kept {} (remove_each is reason r)"
  by (induction "is" arbitrary: r) (auto dest: remove_keeps)

text \<open>The secret of a new tunnel: that of the share code it had before, or a random one.\<close>

definition new_secret :: "bytes \<Rightarrow> string \<Rightarrow> string \<Rightarrow> (string \<times> string) option \<Rightarrow> string option" where
  "new_secret rs mode i previous =
     (if previous \<noteq> None \<and> fst (the previous) = i then Some (snd (the previous))
      else if mode = ''tcp'' then Some (randomSecret rs) else None)"

lemma register_commit_shape:
  assumes "register_commit sha256 scrypt salt rr rs now s mode target kh policy previous (i, df) r = Inr (r', oid)"
    "map_get (sess r) s = Some x"
  obtains t3 tb where "tn_id t3 = i" "tn_mode t3 = mode" "tn_secret t3 = new_secret rs mode i previous"
    "tn_secretHash t3 = map_option (hashSecret sha256) (new_secret rs mode i previous)"
    "tn_accountId t3 = map_option fst (rs_account x)"
    "r' = attach (nextObj r) s target kh (r\<lparr>table := tb, objs := map_set (nextObj r) t3 (objs r), nextObj := nextObj r + 1, names := map_set i (nextObj r) (names r)\<rparr>)"
proof -
  define t0 where "t0 = new_Tunnel sha256 rr rs now i mode target kh (rs_account x) (rs_guest x)"
  define t1 where "t1 = (case previous of
     Some (pid, secret) \<Rightarrow>
       if pid = i then t0\<lparr>tn_secret := Some secret, tn_secretHash := Some (hashSecret sha256 secret)\<rparr> else t0
   | None \<Rightarrow> t0)"
  define t2 where "t2 = (case df of None \<Rightarrow> t1 | Some f \<Rightarrow> t1\<lparr>tn_persistent := True, tn_policy := df_policy f\<rparr>)"
  let ?ok = "\<lambda>t. tn_id t = i \<and> tn_mode t = mode \<and> tn_secret t = new_secret rs mode i previous \<and>
    tn_secretHash t = map_option (hashSecret sha256) (new_secret rs mode i previous) \<and>
    tn_accountId t = map_option fst (rs_account x)"
  have ok1: "?ok t1"
    by (auto simp: t1_def t0_def new_secret_def new_Tunnel_def Let_def split: option.splits)
  then have ok2: "?ok t2" by (cases df) (simp_all add: t2_def)
  let ?tail = "\<lambda>t3 tb. attach (nextObj r) s target kh (r\<lparr>table := tb, objs := map_set (nextObj r) t3 (objs r), nextObj := nextObj r + 1, names := map_set i (nextObj r) (names r)\<rparr>)"
  have "\<exists>t3 tb. ?ok t3 \<and> r' = ?tail t3 tb"
  proof (cases "truthy policy")
    case False
    then have "r' = ?tail t2 (table r)"
      using assms unfolding t2_def t1_def t0_def by (auto simp: register_commit_def Let_def)
    then show ?thesis using ok2 by blast
  next
    case True
    then obtain p where p: "buildPolicy scrypt salt policy emptyPolicy = Inr p"
      using assms by (cases "buildPolicy scrypt salt policy emptyPolicy") (auto simp: register_commit_def Let_def)
    have "r' = ?tail (t2\<lparr>tn_policy := p\<rparr>) (if df \<noteq> None then savePolicy i p (table r) else table r)"
      using assms True p unfolding t2_def t1_def t0_def by (cases "df = None") (auto simp: register_commit_def Let_def)
    moreover have "?ok (t2\<lparr>tn_policy := p\<rparr>)" using ok2 by simp
    ultimately show ?thesis by blast
  qed
  then show thesis using that by blast
qed

lemma register_commit_keeps:
  assumes "register_commit sha256 scrypt salt rr rs now s mode target kh policy previous allocated r = Inr (r', oid)"
    "reg_inv r" "kept {} r" "map_get (sess r) s = Some x" "\<not> rs_closed x"
  shows "reg_inv r' \<and> kept {} r'"
proof -
  obtain i df where al: "allocated = (i, df)" by (cases allocated)
  obtain t3 tb where t3: "tn_id t3 = i" and r': "r' = attach (nextObj r) s target kh (r\<lparr>table := tb, objs := map_set (nextObj r) t3 (objs r), nextObj := nextObj r + 1, names := map_set i (nextObj r) (names r)\<rparr>)"
    by (rule register_commit_shape [OF assms(1) [unfolded al] assms(4)])
  let ?r2 = "r\<lparr>table := tb, objs := map_set (nextObj r) t3 (objs r), nextObj := nextObj r + 1, names := map_set i (nextObj r) (names r)\<rparr>"
  have fresh: "map_get (names r) j \<noteq> Some (nextObj r)" for j using assms(2) unfolding reg_inv_def by (metis less_irrefl)
  have i2: "reg_inv ?r2"
    using assms(2) fresh t3 unfolding reg_inv_def by (auto simp: wf_map_set less_Suc_eq)
  have k2: "kept {nextObj r} ?r2"
    using assms(3) unfolding kept_def by (auto simp: anchored_def alive_def)
  show ?thesis unfolding r'
    by (rule attach_keeps [OF i2 k2, of t3 s x]) (use assms(4,5) in simp_all)
qed


lemma map_set_same: "map_get m k = Some v \<Longrightarrow> map_set k v m = m"
  by (induction m) (auto split: if_splits)

lemma resume_shape:
  assumes "resume_tunnel scrypt salt oid t s target kh policy r = Inr (r', o')" "map_get (objs r) oid = Some t"
  obtains p tb where "r' = attach oid s target kh ((on_tunnel oid (\<lambda>t. t\<lparr>tn_policy := p\<rparr>) r)\<lparr>table := tb\<rparr>)"
proof (cases "truthy policy")
  case True
  then obtain p where p: "buildPolicy scrypt salt policy emptyPolicy = Inr p"
    using assms(1) by (cases "buildPolicy scrypt salt policy emptyPolicy") (auto simp: resume_tunnel_def Let_def)
  have "r' = attach oid s target kh ((on_tunnel oid (\<lambda>t. t\<lparr>tn_policy := p\<rparr>) r)\<lparr>table := if tn_persistent t then savePolicy (tn_id t) p (table r) else table r\<rparr>)"
    using assms(1) True p by (auto simp: resume_tunnel_def Let_def on_tunnel_def split: option.splits)
  then show thesis by (rule that)
next
  case False
  have "on_tunnel oid (\<lambda>u. u\<lparr>tn_policy := tn_policy t\<rparr>) r = r\<lparr>objs := map_set oid t (objs r)\<rparr>"
    using assms(2) by (simp add: on_tunnel_def)
  also have "map_set oid t (objs r) = objs r" using assms(2) by (rule map_set_same)
  finally have "r' = attach oid s target kh ((on_tunnel oid (\<lambda>u. u\<lparr>tn_policy := tn_policy t\<rparr>) r)\<lparr>table := table r\<rparr>)"
    using assms(1) False by (auto simp: resume_tunnel_def)
  then show thesis by (rule that)
qed

lemma resume_keeps:
  assumes "resume_tunnel scrypt salt oid t s target kh policy r = Inr (r', o')"
    "reg_inv r" "kept {} r" "map_get (objs r) oid = Some t" "map_get (sess r) s = Some x" "\<not> rs_closed x"
  shows "reg_inv r' \<and> kept {} r'"
proof -
  obtain p tb where r': "r' = attach oid s target kh ((on_tunnel oid (\<lambda>t. t\<lparr>tn_policy := p\<rparr>) r)\<lparr>table := tb\<rparr>)"
    by (rule resume_shape [OF assms(1,4)])
  let ?r = "(on_tunnel oid (\<lambda>t. t\<lparr>tn_policy := p\<rparr>) r)\<lparr>table := tb\<rparr>"
  have i: "reg_inv ?r" using on_tunnel_inv [OF assms(2)] by simp
  have "kept {} ?r" by (rule kept_cong [OF assms(3)]) (auto simp: alive_def on_tunnel_objs split: if_splits)
  then have k: "kept {oid} ?r" by (auto intro: keeps_mono)
  show ?thesis unfolding r'
    by (rule attach_keeps [OF i k, of "t\<lparr>tn_policy := p\<rparr>" s x]) (use assms(4-6) in \<open>simp_all add: on_tunnel_objs\<close>)
qed

lemma emit_kept: "kept X (emit e r) = kept X r"
  by (simp add: kept_def anchored_def alive_def)

lemma join_keeps:
  assumes "reg_inv r" "kept {} r"
  shows "reg_inv (fst (join_tunnel sha256 lk s code r)) \<and> kept {} (fst (join_tunnel sha256 lk s code r))"
proof -
  have step: "reg_inv (on_session s g (on_tunnel oid f r)) \<and> kept {} (on_session s g (on_tunnel oid f r))"
    if f: "\<And>t. tn_id (f t) = tn_id t \<and> tn_session (f t) = tn_session t"
      and g: "\<And>x. rs_closed (g x) = rs_closed x \<and> set (rs_listeners x) \<subseteq> set (rs_listeners (g x))" for f g oid
  proof
    show "reg_inv (on_session s g (on_tunnel oid f r))" using on_tunnel_inv [OF assms(1)] f by simp
    have "alive (on_session s g (on_tunnel oid f r)) s' k" if a: "alive r s' k" for s' k
      using a g by (fastforce simp: alive_def on_session_sess)
    then show "kept {} (on_session s g (on_tunnel oid f r))"
      by (intro kept_cong [OF assms(2)]) (auto simp: on_tunnel_objs f split: if_splits)
  qed
  show ?thesis
    unfolding join_tunnel_def Let_def
    by (auto split: option.splits simp: assms emit_kept intro!: step [THEN conjunct1] step [THEN conjunct2] on_tunnel_inv [OF assms(1)])
qed


subsection \<open>Reachable registries\<close>

text \<open>All that can happen to the registry: a CLI connects, says bye, registers, resumes or joins;
  a session closes, a grace timer expires, a tunnel is removed from the web interface, and an
  account or a credential loses its tunnels. A registration may use a name that was allocated
  in an earlier state r0, since it awaits the database in between, but its session is still open.\<close>

inductive reg_step :: "(bytes \<Rightarrow> bytes) \<Rightarrow> rconfig \<Rightarrow> registry \<Rightarrow> registry \<Rightarrow> bool" for sha256 c where
  connects: "map_get (sess r) s = None \<Longrightarrow> rs_listeners x = [] \<Longrightarrow> reg_step sha256 c r (r\<lparr>sess := map_set s x (sess r)\<rparr>)"
| says_bye: "reg_step sha256 c r (on_session s (\<lambda>x. x\<lparr>rs_saidBye := True\<rparr>) r)"
| registers: "map_get (sess r) s = Some x \<Longrightarrow> \<not> rs_closed x \<Longrightarrow>
    length rs = SECRET_LENGTH \<Longrightarrow> \<forall>bs \<in> set rnds. length bs = 6 \<Longrightarrow>
    allocateId rnds requested a r0 = Inr allocated \<Longrightarrow> previous = None \<or> previous = splitShareCode share \<Longrightarrow>
    register_commit sha256 scrypt salt rr rs now s mode target kh policy previous allocated r = Inr (r', oid) \<Longrightarrow> reg_step sha256 c r r'"
| resumes: "map_get (sess r) s = Some x \<Longrightarrow> \<not> rs_closed x \<Longrightarrow> get_tunnel i r = Some (oid, t) \<Longrightarrow>
    resume_tunnel scrypt salt oid t s target kh policy r = Inr (r', oid) \<Longrightarrow> reg_step sha256 c r r'"
| joins: "reg_step sha256 c r (fst (join_tunnel sha256 lookupIp s code r))"
| closes: "reg_step sha256 c r (session_closed c now s r)"
| expires: "(oid, due) \<in> set (timers r) \<Longrightarrow> reg_step sha256 c r (timer_fires oid r)"
| removes: "reg_step sha256 c r (remove i reason r)"
| loses_account: "reg_step sha256 c r (closeFor a reason r)"
| loses_credential: "reg_step sha256 c r (closeCredential cr reason r)"

definition reg_init :: "tunnel_table \<Rightarrow> registry" where
  "reg_init tb = \<lparr>objs = [], names = [], sess = [], nextObj = 0, timers = [], events = [], table = tb\<rparr>"

definition reg_reachable :: "(bytes \<Rightarrow> bytes) \<Rightarrow> rconfig \<Rightarrow> registry \<Rightarrow> bool" where
  "reg_reachable sha256 c r \<longleftrightarrow> (\<exists>tb. (reg_step sha256 c)\<^sup>*\<^sup>* (reg_init tb) r)"

lemma reg_step_keeps: "reg_step sha256 c r r' \<Longrightarrow> reg_inv r \<and> kept {} r \<Longrightarrow> reg_inv r' \<and> kept {} r'"
proof (induction rule: reg_step.induct)
  case (connects r s x)
  have "alive (r\<lparr>sess := map_set s x (sess r)\<rparr>) s' k" if "alive r s' k" for s' k
    using that connects(1) by (auto simp: alive_def)
  then have "kept {} (r\<lparr>sess := map_set s x (sess r)\<rparr>)"
    by (intro kept_cong [OF conjunct2 [OF connects(3)]]) auto
  then show ?case using connects(3) by (simp add: reg_inv_def)
next
  case (says_bye r s)
  have "kept {} (on_session s (\<lambda>x. x\<lparr>rs_saidBye := True\<rparr>) r)"
    by (rule kept_cong [OF conjunct2 [OF says_bye]]) (auto simp: alive_def on_session_sess)
  then show ?case using says_bye by simp
next
  case (resumes r s x i oid t scrypt salt target kh policy r')
  have "map_get (objs r) oid = Some t" using resumes(3) by (auto simp: get_tunnel_def split: option.splits)
  then show ?case using resume_keeps [OF resumes(4)] resumes(1,2,5) by blast
next
  case (registers r s x rs rnds requested a r0 allocated previous share scrypt salt rr now mode target kh policy r' oid)
  then show ?case using register_commit_keeps [OF registers(7)] by blast
next
  case (joins r lookupIp s code)
  then show ?case using join_keeps by blast
next
  case (closes r now s)
  then show ?case using session_closed_keeps by blast
next
  case (expires oid due r)
  then show ?case using timer_fires_keeps by blast
next
  case (removes r i reason)
  then show ?case using remove_keeps by blast
next
  case (loses_account r a reason)
  then show ?case unfolding closeFor_def using remove_each_keeps by blast
next
  case (loses_credential r cr reason)
  then show ?case unfolding closeCredential_def using remove_each_keeps by blast
qed

lemma reachable_keeps: "reg_reachable sha256 c r \<Longrightarrow> reg_inv r \<and> kept {} r"
proof -
  assume "reg_reachable sha256 c r"
  then obtain tb where "(reg_step sha256 c)\<^sup>*\<^sup>* (reg_init tb) r" by (auto simp: reg_reachable_def)
  then show ?thesis
    by (induction rule: rtranclp_induct) (auto simp: reg_inv_def kept_def reg_init_def dest: reg_step_keeps)
qed


subsection \<open>What a tunnel keeps for life\<close>

definition same_tunnel :: "tunnel \<Rightarrow> tunnel \<Rightarrow> bool" where
  "same_tunnel t u \<longleftrightarrow> tn_id t = tn_id u \<and> tn_mode t = tn_mode u \<and> tn_secret t = tn_secret u \<and> tn_secretHash t = tn_secretHash u"

definition tame :: "registry \<Rightarrow> registry \<Rightarrow> bool" where
  "tame r r' \<longleftrightarrow> (\<forall>k u. map_get (objs r') k = Some u \<longrightarrow> (\<exists>t. map_get (objs r) k = Some t \<and> same_tunnel t u))"

lemma tame_refl [simp]: "tame r r"
  by (auto simp: tame_def same_tunnel_def)

lemma same_tunnel_trans: "same_tunnel a b \<Longrightarrow> same_tunnel b c \<Longrightarrow> same_tunnel a c"
  by (simp add: same_tunnel_def)

lemma tame_trans: "tame a b \<Longrightarrow> tame b c \<Longrightarrow> tame a c"
  unfolding tame_def by (blast intro: same_tunnel_trans)

lemma tame_objs: "objs r' = objs r \<Longrightarrow> tame r r'"
  by (auto simp: tame_def same_tunnel_def)

lemma tame_on_tunnel: "(\<And>t. same_tunnel t (f t)) \<Longrightarrow> tame r (on_tunnel oid f r)"
  by (auto simp: tame_def on_tunnel_objs same_tunnel_def split: if_splits)

lemma tame_remove: "tame r (remove i reason r)"
proof (cases "get_tunnel i r")
  case (Some p)
  have "get_tunnel i r = Some (fst p, snd p)" using Some by simp
  from remove_frame(3) [OF this] show ?thesis by (auto simp: tame_def same_tunnel_def split: if_splits)
qed (simp add: remove_none)

lemma tame_remove_each: "tame r (remove_each is reason r)"
  by (induction "is" arbitrary: r) (auto intro: tame_trans [OF tame_remove])

lemma tame_startGrace: "tame r (startGrace c now oid r)"
proof (cases "map_get (objs r) oid = None \<or> c_gracePeriod c \<le> 0")
  case True
  have "tame r (emit (Offline oid) r)" by (rule tame_objs) simp
  with True show ?thesis
    by (auto simp: startGrace_def Let_def split: option.splits intro: tame_trans [OF _ tame_remove])
next
  case False
  then show ?thesis
    by (auto simp: startGrace_def Let_def tame_def on_tunnel_objs same_tunnel_def split: if_splits)
qed

lemma tame_run_listener: "tame r (run_listener c now s l r)"
proof (cases l)
  case (OwnerClose oid)
  have "tame r (on_tunnel oid (\<lambda>t. t\<lparr>tn_session := None\<rparr>) r)" by (rule tame_on_tunnel) (simp add: same_tunnel_def)
  then show ?thesis unfolding OwnerClose
    by (auto simp: Let_def split: option.splits intro: tame_trans [OF _ tame_remove] tame_trans [OF _ tame_startGrace])
next
  case (JoinerClose oid)
  then show ?thesis by (auto intro: tame_on_tunnel simp: same_tunnel_def)
qed

lemma tame_run_listeners: "tame r (fold (run_listener c now s) ls r)"
  by (induction ls arbitrary: r) (auto intro: tame_trans [OF tame_run_listener])

lemma tame_session_closed: "tame r (session_closed c now s r)"
proof -
  have "tame r (on_session s (\<lambda>x. x\<lparr>rs_closed := True, rs_listeners := []\<rparr>) r)" by (rule tame_objs) simp
  then show ?thesis by (auto simp: session_closed_def split: option.splits intro: tame_trans [OF _ tame_run_listeners])
qed

lemma tame_timer_fires: "tame r (timer_fires oid r)"
proof -
  have "tame r (clear_timer oid r)" by (rule tame_objs) simp
  then show ?thesis by (auto simp: timer_fires_def split: option.splits intro: tame_trans [OF _ tame_remove])
qed

lemma attach_objs:
  assumes "map_get (objs r) oid = Some t" "map_get (sess r) s = Some x"
  shows "map_get (objs (attach oid s target kh r)) k =
    (if k = oid then Some (t\<lparr>tn_credential := rs_credential x, tn_graceUntil := None, tn_session := Some s, tn_target := target, tn_keepHost := kh\<rparr>)
     else map_get (objs r) k)"
  using assms by (cases "tn_session t = Some s") (simp_all add: attach_def Let_def on_tunnel_objs)

lemma tame_attach: "tame r (attach oid s target kh r)"
proof (cases "map_get (objs r) oid = None \<or> map_get (sess r) s = None")
  case True
  then have "attach oid s target kh r = r" by (auto simp: attach_def split: option.splits)
  then show ?thesis by simp
next
  case False
  then obtain t x where tx: "map_get (objs r) oid = Some t" "map_get (sess r) s = Some x" by auto
  show ?thesis unfolding tame_def attach_objs [OF tx]
    using tx(1) by (auto simp: same_tunnel_def)
qed

lemma tame_join: "tame r (fst (join_tunnel sha256 lk s code r))"
proof -
  let ?f = "\<lambda>t. t\<lparr>tn_joiners := (if s \<in> set (tn_joiners t) then tn_joiners t else tn_joiners t @ [s])\<rparr>"
  have a: "tame r (on_session s g (on_tunnel oid ?f r))" for g oid
    by (rule tame_trans [OF tame_on_tunnel tame_objs]) (simp_all add: same_tunnel_def)
  have b: "tame r (emit e r)" for e by (rule tame_objs) simp
  show ?thesis unfolding join_tunnel_def Let_def by (simp add: a b split: option.split)
qed

lemma tame_resume:
  assumes "resume_tunnel scrypt salt oid t s target kh policy r = Inr (r', o')" "map_get (objs r) oid = Some t"
  shows "tame r r'"
proof -
  obtain p tb where r': "r' = attach oid s target kh ((on_tunnel oid (\<lambda>t. t\<lparr>tn_policy := p\<rparr>) r)\<lparr>table := tb\<rparr>)"
    by (rule resume_shape [OF assms])
  have "tame r ((on_tunnel oid (\<lambda>t. t\<lparr>tn_policy := p\<rparr>) r)\<lparr>table := tb\<rparr>)"
    by (auto simp: tame_def on_tunnel_objs same_tunnel_def split: if_splits)
  then show ?thesis unfolding r' by (rule tame_trans [OF _ tame_attach])
qed

text \<open>A TCP tunnel has a secret of the shape of a share code, and the hash of that secret.\<close>

definition tunnel_ok :: "(bytes \<Rightarrow> bytes) \<Rightarrow> tunnel \<Rightarrow> bool" where
  "tunnel_ok sha256 t \<longleftrightarrow> NAME_REGEX (tn_id t) \<and>
     (tn_mode t = ''tcp'' \<longrightarrow> (\<exists>secret. tn_secret t = Some secret \<and> tn_secretHash t = Some (hashSecret sha256 secret) \<and>
        length secret = SECRET_LENGTH \<and> list_all is_alnum secret))"

definition tunnels_ok :: "(bytes \<Rightarrow> bytes) \<Rightarrow> registry \<Rightarrow> bool" where
  "tunnels_ok sha256 r \<longleftrightarrow> (\<forall>k t. map_get (objs r) k = Some t \<longrightarrow> tunnel_ok sha256 t)"

lemma tame_ok: "tame r r' \<Longrightarrow> tunnels_ok sha256 r \<Longrightarrow> tunnels_ok sha256 r'"
proof -
  have t: "tunnel_ok sha256 u" if "same_tunnel t u" "tunnel_ok sha256 t" for t u
    using that by (simp add: same_tunnel_def tunnel_ok_def)
  assume "tame r r'" "tunnels_ok sha256 r"
  then show "tunnels_ok sha256 r'" unfolding tame_def tunnels_ok_def using t by blast
qed

lemma allocateId_name:
  assumes "allocateId rnds requested a r = Inr (i, df)" "\<forall>bs \<in> set rnds. length bs = 6"
  shows "NAME_REGEX i"
proof (cases "requested \<noteq> JUndef \<and> requested \<noteq> JNull \<and> requested \<noteq> JStr []")
  case True
  then show ?thesis using assms(1)
    by (auto simp: allocateId_def Let_def isValidName_def split: if_splits option.splits)
next
  case False
  then have "find (\<lambda>i. map_get (names r) i = None \<and> \<not> isReserved i \<and> load i (table r) = None) (map randomId (take 50 rnds)) = Some i"
    using assms(1) by (auto simp: allocateId_def split: option.splits)
  then have "i \<in> set (map randomId (take 50 rnds))" unfolding find_Some_iff by (metis nth_mem)
  then show ?thesis using assms(2) by (auto intro!: randomId_valid dest: in_set_takeD)
qed

lemma splitShareCode_secret: "splitShareCode v = Some (i, s) \<Longrightarrow> length s = SECRET_LENGTH \<and> list_all is_alnum s"
  by (cases v) (auto simp: share_code_regex_def SECRET_LENGTH_def split: if_splits)

lemma register_commit_ok:
  assumes "register_commit sha256 scrypt salt rr rs now s mode target kh policy previous (i, df) r = Inr (r', oid)"
    "NAME_REGEX i" "length rs = SECRET_LENGTH" "previous = None \<or> previous = splitShareCode share" "tunnels_ok sha256 r"
    "map_get (sess r) s = Some x"
  shows "tunnels_ok sha256 r'"
proof -
  obtain t3 tb where t3: "tn_id t3 = i" "tn_mode t3 = mode" "tn_secret t3 = new_secret rs mode i previous"
    "tn_secretHash t3 = map_option (hashSecret sha256) (new_secret rs mode i previous)"
    and r': "r' = attach (nextObj r) s target kh (r\<lparr>table := tb, objs := map_set (nextObj r) t3 (objs r), nextObj := nextObj r + 1, names := map_set i (nextObj r) (names r)\<rparr>)"
    by (rule register_commit_shape [OF assms(1,6)])
  have sec: "length z = SECRET_LENGTH \<and> list_all is_alnum z" if "new_secret rs mode i previous = Some z" for z
  proof (cases "previous \<noteq> None \<and> fst (the previous) = i")
    case True
    then have "previous = splitShareCode share" "previous \<noteq> None" using assms(4) by auto
    moreover have "fst (the previous) = i" "snd (the previous) = z" using True that by (auto simp: new_secret_def)
    ultimately have "splitShareCode share = Some (i, z)" by (cases previous) auto
    then show ?thesis by (rule splitShareCode_secret)
  next
    case False
    then have "z = randomSecret rs" using that by (auto simp: new_secret_def split: if_splits)
    then show ?thesis using assms(3) randomSecret_alnum by (simp add: randomSecret_def)
  qed
  have "\<exists>z. new_secret rs mode i previous = Some z" if "mode = ''tcp''" using that by (auto simp: new_secret_def)
  then have "tunnel_ok sha256 t3" using t3 sec assms(2) by (auto simp: tunnel_ok_def)
  then have "tunnels_ok sha256 (r\<lparr>table := tb, objs := map_set (nextObj r) t3 (objs r), nextObj := nextObj r + 1, names := map_set i (nextObj r) (names r)\<rparr>)"
    using assms(5) by (auto simp: tunnels_ok_def)
  then show ?thesis unfolding r' by (rule tame_ok [OF tame_attach])
qed

lemma reg_step_tunnels_ok: "reg_step sha256 c r r' \<Longrightarrow> tunnels_ok sha256 r \<Longrightarrow> tunnels_ok sha256 r'"
proof (induction rule: reg_step.induct)
  case (connects r s x)
  then show ?case by (simp add: tunnels_ok_def)
next
  case (says_bye r s)
  then show ?case by (simp add: tunnels_ok_def)
next
  case (registers r s x rs rnds requested a r0 allocated previous share scrypt salt rr now mode target kh policy r' oid)
  obtain i df where al: "allocated = (i, df)" by (cases allocated)
  have "NAME_REGEX i" using registers(5,4) unfolding al by (rule allocateId_name)
  then show ?case using register_commit_ok [OF registers(7) [unfolded al] _ registers(3,6,8,1)] by blast
next
  case (resumes r s x i oid t scrypt salt target kh policy r')
  have "map_get (objs r) oid = Some t" using resumes(3) by (auto simp: get_tunnel_def split: option.splits)
  then show ?case using tame_ok tame_resume [OF resumes(4)] resumes(5) by blast
qed (simp_all add: closeFor_def closeCredential_def tame_ok [OF tame_join] tame_ok [OF tame_session_closed]
       tame_ok [OF tame_timer_fires] tame_ok [OF tame_remove] tame_ok [OF tame_remove_each])

lemma reachable_tunnels_ok: "reg_reachable sha256 c r \<Longrightarrow> tunnels_ok sha256 r"
proof -
  assume "reg_reachable sha256 c r"
  then obtain tb where "(reg_step sha256 c)\<^sup>*\<^sup>* (reg_init tb) r" by (auto simp: reg_reachable_def)
  moreover have "tunnels_ok sha256 (reg_init tb)" by (simp add: tunnels_ok_def reg_init_def)
  ultimately show ?thesis by (induction rule: rtranclp_induct) (auto dest: reg_step_tunnels_ok)
qed

text \<open>The share code of a registered TCP tunnel opens that tunnel: in every reachable
  registry the tunnel has a share code, and joining with it succeeds, or is refused as
  forbidden, exactly as the tunnel's policy judges the address of the joining session.\<close>

theorem share_code_joins:
  assumes "reg_reachable sha256 c r" "get_tunnel i r = Some (oid, t)" "tn_mode t = ''tcp''"
    "map_get (sess r) s = Some x"
  shows "\<exists>code. shareCode t = Some code \<and>
    snd (join_tunnel sha256 lookupIp s (JStr code) r) =
      (if evaluate (tn_policy t) (rs_ip x) (lookupIp (rs_ip x)) = None then Inr oid
       else Inl (Err ''forbidden'' ''Your address is not allowed to use this tunnel''))"
proof -
  have o: "map_get (names r) i = Some oid" "map_get (objs r) oid = Some t"
    using assms(2) by (auto simp: get_tunnel_def split: option.splits)
  have "reg_inv r" using reachable_keeps [OF assms(1)] ..
  then have i: "tn_id t = i" using inv_get [OF _ o(1)] o(2) by fastforce
  have "tunnel_ok sha256 t" using reachable_tunnels_ok [OF assms(1)] o(2) by (simp add: tunnels_ok_def)
  then obtain secret where z: "tn_secret t = Some secret" "tn_secretHash t = Some (hashSecret sha256 secret)"
    "NAME_REGEX i" "length secret = SECRET_LENGTH" "list_all is_alnum secret"
    using assms(3) i by (auto simp: tunnel_ok_def)
  have "splitShareCode (JStr (i @ secret)) = Some (i, secret)" using z(3-5) by (rule splitShareCode_append)
  then have "snd (join_tunnel sha256 lookupIp s (JStr (i @ secret)) r) =
      (if evaluate (tn_policy t) (rs_ip x) (lookupIp (rs_ip x)) = None then Inr oid
       else Inl (Err ''forbidden'' ''Your address is not allowed to use this tunnel''))"
    using assms(2-4) z(2) by (auto simp: join_tunnel_def Let_def simp del: splitShareCode.simps split: option.splits)
  moreover have "shareCode t = Some (i @ secret)" using z(1) i by (simp add: shareCode_def)
  ultimately show ?thesis by blast
qed

subsection \<open>Runs\<close>

definition run_config :: rconfig where
  "run_config = \<lparr>c_httpMode = ''subdomain'', c_gracePeriod = 60, c_publicUrl = ''https://t.example'',
     c_publicScheme = ''https'', c_baseDomain = ''t.example'', c_urlPort = []\<rparr>"

definition run_session :: rsession where
  "run_session = \<lparr>rs_closed = False, rs_account = Some (1, ''ann''), rs_guest = None, rs_credential = Some ''device:1'',
     rs_ip = ''10.0.0.1'', rs_saidBye = False, rs_tunnel = None, rs_byes = [], rs_listeners = []\<rparr>"

text \<open>Two sessions of one account, and the first or second half of a registration of the name web.\<close>

definition run_start :: registry where
  "run_start = (reg_init [])\<lparr>sess := [(0, run_session), (1, run_session)]\<rparr>"

definition run_target :: target where
  "run_target = \<lparr>tg_host = ''127.0.0.1'', tg_port = 80, tg_authority = ''127.0.0.1:80''\<rparr>"

definition run_register :: "string \<Rightarrow> nat \<Rightarrow> registry \<Rightarrow> registry" where
  "run_register mode s r =
     (case allocateId [] (JStr ''web'') (Some 1) r of
        Inl _ \<Rightarrow> r
      | Inr al \<Rightarrow>
          (case register_commit (\<lambda>b. b) (\<lambda>_ _ _. []) [] [] (replicate 26 0) 0 s mode run_target False JUndef None al r of
             Inl _ \<Rightarrow> r | Inr (r', _) \<Rightarrow> r'))"

lemma run_start_reachable: "reg_reachable (\<lambda>b. b) run_config run_start"
proof -
  have "reg_step (\<lambda>b. b) run_config (reg_init []) ((reg_init [])\<lparr>sess := map_set 0 run_session (sess (reg_init []))\<rparr>)"
    by (rule reg_step.connects) (simp_all add: reg_init_def run_session_def)
  moreover have "reg_step (\<lambda>b. b) run_config ((reg_init [])\<lparr>sess := map_set 0 run_session (sess (reg_init []))\<rparr>)
      ((reg_init [])\<lparr>sess := map_set 0 run_session (sess (reg_init [])), sess := map_set 1 run_session (sess ((reg_init [])\<lparr>sess := map_set 0 run_session (sess (reg_init []))\<rparr>))\<rparr>)"
    by (rule reg_step.connects) (simp_all add: reg_init_def run_session_def)
  moreover have "(reg_init [])\<lparr>sess := map_set 0 run_session (sess (reg_init [])), sess := map_set 1 run_session (sess ((reg_init [])\<lparr>sess := map_set 0 run_session (sess (reg_init []))\<rparr>))\<rparr> = run_start"
    by (simp add: run_start_def reg_init_def)
  ultimately show ?thesis unfolding reg_reachable_def by (metis converse_rtranclp_into_rtranclp rtranclp.rtrancl_refl)
qed

lemma run_free_name: "names r = [] \<Longrightarrow> table r = [] \<Longrightarrow> allocateId [] (JStr ''web'') (Some 1) r = Inr (''web'', None)"
proof -
  have "to_lower ''web'' = ''web''" "\<not> isReserved ''web''" "isValidName ''web''" "load ''web'' [] = None" by code_simp+
  then show "names r = [] \<Longrightarrow> table r = [] \<Longrightarrow> allocateId [] (JStr ''web'') (Some 1) r = Inr (''web'', None)"
    by (simp add: allocateId_def)
qed

lemma run_allocate: "allocateId [] (JStr ''web'') (Some 1) run_start = Inr (''web'', None)"
  by (rule run_free_name) (simp_all add: run_start_def reg_init_def)

lemma run_commit:
  "register_commit (\<lambda>b. b) (\<lambda>_ _ _. []) [] [] (replicate 26 0) 0 0 ''tcp'' run_target False JUndef None (''web'', None) run_start =
     Inr (run_register ''tcp'' 0 run_start, 0)"
proof -
  obtain r' where "register_commit (\<lambda>b. b) (\<lambda>_ _ _. []) [] [] (replicate 26 0) 0 0 ''tcp'' run_target False JUndef None (''web'', None) run_start = Inr (r', 0)"
    by (simp add: register_commit_def run_start_def reg_init_def)
  then show ?thesis unfolding run_register_def run_allocate by simp
qed

lemma run_registered: "reg_reachable (\<lambda>b. b) run_config (run_register ''tcp'' 0 run_start)"
proof -
  have x: "map_get (sess run_start) 0 = Some run_session" "\<not> rs_closed run_session"
    by (simp_all add: run_start_def run_session_def)
  have "reg_step (\<lambda>b. b) run_config run_start (run_register ''tcp'' 0 run_start)"
    by (rule reg_step.registers [OF x _ _ run_allocate _ run_commit]) (simp_all add: SECRET_LENGTH_def)
  then show ?thesis using run_start_reachable unfolding reg_reachable_def by (meson rtranclp.rtrancl_into_rtrancl)
qed

definition run_tunnel :: tunnel where
  "run_tunnel = snd (the (get_tunnel ''web'' (run_register ''tcp'' 0 run_start)))"

definition run_lookup :: "string \<Rightarrow> ip_details" where
  "run_lookup ip = \<lparr>i_ip = ip, i_private = True, i_country = JNull, i_continent = JNull, i_eu = False, i_asn = JNull, i_org = JNull, i_tor = False, i_vpn = False, i_datacenter = False, i_blocklisted = False\<rparr>"

lemmas run_simps = register_commit_def run_start_def reg_init_def attach_def get_tunnel_def Let_def on_tunnel_def on_session_def
  clear_timer_def endSession_def emit_def new_Tunnel_def

lemma run_registry: "run_register ''tcp'' 0 run_start =
   (case register_commit (\<lambda>b. b) (\<lambda>_ _ _. []) [] [] (replicate 26 0) 0 0 ''tcp'' run_target False JUndef None (''web'', None) run_start of
      Inl _ \<Rightarrow> run_start | Inr (r', _) \<Rightarrow> r')"
  by (simp only: run_register_def run_allocate sum.case prod.case)

lemma run_get: "get_tunnel ''web'' (run_register ''tcp'' 0 run_start) = Some (0, run_tunnel)"
  unfolding run_tunnel_def run_registry by (simp add: run_simps)

lemma run_tunnel_facts:
  "tn_mode run_tunnel = ''tcp''" "map_get (names (run_register ''tcp'' 0 run_start)) ''web'' = Some 0"
  "map_get (sess (run_register ''tcp'' 0 run_start)) 1 = Some run_session"
  unfolding run_tunnel_def run_registry by (simp_all add: run_simps)


theorem share_code_joins_witness:
  "\<exists>code. shareCode run_tunnel = Some code \<and>
    snd (join_tunnel (\<lambda>b. b) run_lookup 1 (JStr code) (run_register ''tcp'' 0 run_start)) = Inr 0"
proof -
  have "evaluate (tn_policy run_tunnel) (rs_ip run_session) (run_lookup (rs_ip run_session)) = None"
    unfolding run_tunnel_def run_registry by (simp add: run_simps emptyPolicy_def evaluate_def hasRules_def)
  then show ?thesis
    using share_code_joins [OF run_registered run_get run_tunnel_facts(1,3), of run_lookup] by simp
qed

text \<open>A grace timer outlives its tunnel. Session 0 registers web and the tunnel is removed
  from the web interface, but removing it keeps tunnel.session, so the close event of session 0
  still starts a grace period for the removed object. Its timer removes whatever has the name
  by then: here the online tunnel that session 1 registered in the meantime.\<close>

theorem stale_grace_timer_removes_successor:
  "let r1 = run_register ''subdomain'' 0 run_start;
       r2 = remove ''web'' ''closed from the web UI'' r1;
       r3 = run_register ''subdomain'' 1 r2;
       r4 = session_closed run_config 0 0 r3;
       r5 = timer_fires 0 r4
   in map_get (names r4) ''web'' = Some 1 \<and>
      (case get_tunnel ''web'' r4 of None \<Rightarrow> False | Some (_, t) \<Rightarrow> tunnel_online r4 t \<and> tn_session t = Some 1) \<and>
      timers r4 = [(0, 60000)] \<and> names r5 = []"
  by code_simp

text \<open>A registration that ends after its session has closed leaves a tunnel nobody
  removes: register awaits the database, the close event comes first, and the close listener
  that attach adds then never runs. The name stays taken, offline and without a grace timer,
  and no close event of the session changes that.\<close>

theorem late_registration_leaks:
  "let r1 = session_closed run_config 0 0 run_start;
       r2 = run_register ''subdomain'' 0 r1
   in map_get (names r2) ''web'' = Some 0 \<and> timers r2 = [] \<and>
      (case get_tunnel ''web'' r2 of None \<Rightarrow> False | Some (_, t) \<Rightarrow> \<not> tunnel_online r2 t) \<and>
      session_closed run_config 0 0 r2 = r2"
proof -
  have al: "allocateId [] (JStr ''web'') (Some 1) (session_closed run_config 0 0 run_start) = Inr (''web'', None)"
    by (rule run_free_name) (simp_all add: session_closed_def run_start_def reg_init_def on_session_def run_session_def)
  let ?x = "run_session\<lparr>rs_closed := True, rs_listeners := []\<rparr>"
  have r1: "session_closed run_config 0 0 run_start =
      \<lparr>objs = [], names = [], sess = [(0, ?x), (1, run_session)], nextObj = 0, timers = [], events = [], table = []\<rparr>"
    by (simp add: session_closed_def run_start_def reg_init_def on_session_def run_session_def)
  have r2: "run_register ''subdomain'' 0 (session_closed run_config 0 0 run_start) =
      \<lparr>objs = [(0, (new_Tunnel (\<lambda>b. b) [] (replicate 26 0) 0 ''web'' ''subdomain'' run_target False (Some (1, ''ann'')) None)
         \<lparr>tn_credential := Some ''device:1'', tn_session := Some 0\<rparr>)], names = [(''web'', 0)],
       sess = [(0, ?x\<lparr>rs_tunnel := Some 0, rs_listeners := [OwnerClose 0]\<rparr>), (1, run_session)],
       nextObj = 1, timers = [], events = [Online 0], table = []\<rparr>"
    unfolding run_register_def al unfolding r1 by (simp add: run_simps run_session_def)
  show ?thesis unfolding Let_def r2
    by (simp add: session_closed_def get_tunnel_def tunnel_online_def run_session_def new_Tunnel_def Let_def)
qed

end
