(* ===== verification/Tables.thy ===== *)
theory Tables
  imports Prelude
begin

text \<open>
  What the logs of the server ask of their database tables: ordering and paging of rows, and
  the pruning that keeps only the newest rows of a group. A table is the list of its rows.
  The pruning of the request, frame, visitor and connection logs follows one pattern; its
  contract is the locale pruned, interpreted by each of them.
\<close>

text \<open>A column value as its sort key: NULL sorts before everything, numbers by value and text
  by its code units.\<close>

definition num_key :: "nat option \<Rightarrow> nat list" where
  "num_key v = (case v of None \<Rightarrow> [] | Some n \<Rightarrow> [1, n])"

definition text_key :: "string option \<Rightarrow> nat list" where
  "text_key v = (case v of None \<Rightarrow> [] | Some s \<Rightarrow> 1 # map ord s)"

text \<open>ORDER BY column ASC or DESC, id DESC.\<close>

definition order_rows :: "('r \<Rightarrow> 'k :: linorder) \<Rightarrow> ('r \<Rightarrow> nat) \<Rightarrow> bool \<Rightarrow> 'r list \<Rightarrow> 'r list" where
  "order_rows column rid asc rows =
     (let byId = sort_key rid rows
      in if asc then sort_key column (rev byId) else rev (sort_key column byId))"

text \<open>OFFSET and LIMIT as the lists clamp them.\<close>

definition page :: "int \<Rightarrow> int \<Rightarrow> int \<Rightarrow> 'r list \<Rightarrow> 'r list" where
  "page offset limit most rows = take (nat (min (max limit 1) most)) (drop (nat (max offset 0)) rows)"

text \<open>The key of the row that stands right after the newest n, and the deletion of everything
  up to it: findAll with order DESC, offset n and limit 1, then destroy with lte.\<close>

definition cutoff :: "('r \<Rightarrow> bool) \<Rightarrow> ('r \<Rightarrow> 'k :: linorder) \<Rightarrow> nat \<Rightarrow> 'r list \<Rightarrow> 'k option" where
  "cutoff P key n rows =
     (let sorted = rev (sort_key key (filter P rows))
      in if n < length sorted then Some (key (sorted ! n)) else None)"

definition prune_rows :: "('r \<Rightarrow> bool) \<Rightarrow> ('r \<Rightarrow> 'k :: linorder) \<Rightarrow> nat \<Rightarrow> 'r list \<Rightarrow> 'r list" where
  "prune_rows P key n rows =
     (case cutoff P key n rows of
        None \<Rightarrow> rows
      | Some k \<Rightarrow> filter (\<lambda>r. \<not> (P r \<and> key r \<le> k)) rows)"

text \<open>The distinct values of a Set, in insertion order.\<close>

definition js_set :: "'a list \<Rightarrow> 'a list" where
  "js_set xs = rev (remdups (rev xs))"

definition set_add :: "'a \<Rightarrow> 'a list \<Rightarrow> 'a list" where
  "set_add x xs = (if x \<in> set xs then xs else xs @ [x])"

lemma set_set_add [simp]: "set (set_add x xs) = insert x (set xs)"
  by (auto simp: set_add_def)

lemma distinct_set_add [simp]: "distinct (set_add x xs) = distinct xs"
  by (simp add: set_add_def)

lemma set_js_set [simp]: "set (js_set xs) = set xs"
  by (simp add: js_set_def)

lemma set_order_rows [simp]: "set (order_rows column rid asc rows) = set rows"
  by (simp add: order_rows_def Let_def)

lemma length_order_rows [simp]: "length (order_rows column rid asc rows) = length rows"
  by (simp add: order_rows_def Let_def)

lemma page_length: "0 \<le> most \<Longrightarrow> length (page offset limit most rows) \<le> nat most"
  by (auto simp: page_def)

lemma page_subset: "set (page offset limit most rows) \<subseteq> set rows"
  by (auto simp: page_def dest: in_set_takeD in_set_dropD)

lemma length_filter_filter: "length (filter P (filter Q xs)) \<le> length (filter P xs)"
proof -
  have "filter P (filter Q xs) = filter Q (filter P xs)" by (simp add: conj_commute)
  then show ?thesis using length_filter_le [of Q "filter P xs"] by metis
qed

text \<open>Above the key at position n of a descending list there are at most n elements.\<close>

lemma above_position:
  fixes key :: "'r \<Rightarrow> 'k :: linorder"
  assumes "sorted_wrt (\<lambda>a b. key b \<le> key a) xs" "n < length xs"
  shows "length (filter (\<lambda>r. key (xs ! n) < key r) xs) \<le> n"
proof -
  have "filter (\<lambda>r. key (xs ! n) < key r) (drop n xs) = []"
  proof -
    have "key r \<le> key (xs ! n)" if r: "r \<in> set (drop n xs)" for r
    proof -
      obtain j where "j < length xs - n" "r = xs ! (n + j)" using r by (auto simp: in_set_conv_nth)
      then show ?thesis using assms by (cases "j = 0") (simp_all add: sorted_wrt_iff_nth_less)
    qed
    then show ?thesis by (auto simp: filter_empty_conv not_less)
  qed
  then have "filter (\<lambda>r. key (xs ! n) < key r) (take n xs @ drop n xs) = filter (\<lambda>r. key (xs ! n) < key r) (take n xs)"
    unfolding filter_append by simp
  then have "filter (\<lambda>r. key (xs ! n) < key r) xs = filter (\<lambda>r. key (xs ! n) < key r) (take n xs)"
    by (simp only: append_take_drop_id)
  moreover have "length (filter (\<lambda>r. key (xs ! n) < key r) (take n xs)) \<le> length (take n xs)" by (rule length_filter_le)
  ultimately show ?thesis by simp
qed

lemma sorted_rev_desc: "sorted_wrt (\<lambda>a b. key b \<le> key a) (rev (sort_key key xs))"
  using sorted_sort_key [of key xs] by (simp only: sorted_wrt_rev sorted_wrt_map)

lemma prune_rows_bound: "length (filter P (prune_rows P key n rows)) \<le> n"
proof (cases "n < length (filter P rows)")
  case False
  then show ?thesis by (simp add: prune_rows_def cutoff_def)
next
  case True
  let ?s = "rev (sort_key key (filter P rows))"
  let ?k = "key (?s ! n)"
  have "length (filter (\<lambda>r. ?k < key r) (filter P rows)) = length (filter (\<lambda>r. ?k < key r) ?s)"
    by (simp add: filter_sort flip: rev_filter)
  also have "\<dots> \<le> n" by (rule above_position [OF sorted_rev_desc]) (use True in simp)
  finally have "length (filter (\<lambda>r. ?k < key r) (filter P rows)) \<le> n" .
  moreover have "filter P (filter (\<lambda>r. \<not> (P r \<and> key r \<le> ?k)) rows) = filter (\<lambda>r. ?k < key r) (filter P rows)"
    by (auto simp: not_le intro: filter_cong)
  ultimately show ?thesis using True by (simp add: prune_rows_def cutoff_def Let_def)
qed

lemma prune_rows_keeps: "r \<in> set rows \<Longrightarrow> \<not> P r \<Longrightarrow> r \<in> set (prune_rows P key n rows)"
  by (simp add: prune_rows_def split: option.split)

lemma prune_rows_subset: "set (prune_rows P key n rows) \<subseteq> set rows"
  by (auto simp: prune_rows_def split: option.splits)

lemma prune_rows_newest:
  "r \<in> set (prune_rows P key n rows) \<Longrightarrow> P r \<Longrightarrow> x \<in> set rows \<Longrightarrow> x \<notin> set (prune_rows P key n rows) \<Longrightarrow> key x < key r"
  by (auto simp: prune_rows_def not_le split: option.splits)

lemma prune_rows_small: "length (filter P rows) \<le> n \<Longrightarrow> prune_rows P key n rows = rows"
  by (simp add: prune_rows_def cutoff_def)

lemma prune_rows_filter_le: "length (filter Q (prune_rows P key n rows)) \<le> length (filter Q rows)"
  unfolding prune_rows_def by (cases "cutoff P key n rows") (simp_all add: length_filter_filter del: filter_filter)

text \<open>A log that prunes the groups of the rows it has just added: what the flushes rely on.\<close>

locale pruned =
  fixes group :: "'r \<Rightarrow> 'g"
    and bound :: nat
    and prune :: "'g \<Rightarrow> 'r list \<Rightarrow> 'r list"
  assumes prune_bounds: "length (filter (\<lambda>r. group r = g) (prune g rows)) \<le> bound"
    and prune_shrinks: "length (filter (\<lambda>r. group r = h) (prune g rows)) \<le> length (filter (\<lambda>r. group r = h) rows)"
    and prune_others: "r \<in> set rows \<Longrightarrow> group r \<noteq> g \<Longrightarrow> r \<in> set (prune g rows)"
begin

lemma prune_each_shrinks:
  "length (filter (\<lambda>r. group r = h) (fold prune gs rows)) \<le> length (filter (\<lambda>r. group r = h) rows)"
proof (induction gs arbitrary: rows)
  case (Cons g gs)
  show ?case using Cons.IH [of "prune g rows"] prune_shrinks [of h g rows] by simp
qed simp

lemma prune_each_bounds: "g \<in> set gs \<Longrightarrow> length (filter (\<lambda>r. group r = g) (fold prune gs rows)) \<le> bound"
proof (induction gs arbitrary: rows)
  case (Cons h gs)
  show ?case
  proof (cases "g \<in> set gs")
    case True
    then show ?thesis using Cons.IH by simp
  next
    case False
    then have "g = h" using Cons.prems by simp
    then show ?thesis using prune_each_shrinks [of g gs "prune h rows"] prune_bounds [of h rows] by simp
  qed
qed simp

text \<open>Adding a batch and pruning its groups keeps every group within the bound.\<close>

lemma flush_bounded:
  assumes "\<And>g. length (filter (\<lambda>r. group r = g) rows) \<le> bound"
  shows "length (filter (\<lambda>r. group r = g) (fold prune (js_set (map group batch)) (rows @ batch))) \<le> bound"
proof (cases "g \<in> group ` set batch")
  case True
  then show ?thesis by (intro prune_each_bounds) simp
next
  case False
  then have "filter (\<lambda>r. group r = g) batch = []" by (auto simp: filter_empty_conv)
  then show ?thesis using assms [of g] prune_each_shrinks [of g "js_set (map group batch)" "rows @ batch"] by simp
qed

end

end
