(* ===== verification/Traffic.thy ===== *)
theory Traffic
  imports Tables Intel Base64
begin

text \<open>
  The log of requests (src/server/lib/traffic.js) and of websocket messages
  (src/server/lib/wsframes.js): rows wait in memory and are stored in batches, after which only
  the newest rows of every tunnel, and of every connection, are kept. The tables are part of
  the state; whether the database accepts a batch is an argument of the flush. Headers and
  address details are stored as JSON text by the program and as values here. The case
  insensitive LIKE of the database is the parameter like.
\<close>

subsection \<open>Websocket messages\<close>

definition MAX_PAYLOAD :: nat where
  "MAX_PAYLOAD = 16 * 1024"

definition PER_CONNECTION :: nat where
  "PER_CONNECTION = 500"

record frame_row =
  fr_id :: nat
  fr_tunnel :: string
  fr_connection :: string
  fr_direction :: string
  fr_opcode :: nat
  fr_time :: time
  fr_bytes :: nat
  fr_payload :: "bytes option"
  fr_truncated :: bool

record frame_view =
  fv_id :: nat
  fv_direction :: string
  fv_opcode :: nat
  fv_time :: time
  fv_bytes :: nat
  fv_truncated :: bool
  fv_payload :: "string option"

definition summarise_frame :: "frame_row \<Rightarrow> frame_view" where
  "summarise_frame r =
     \<lparr>fv_id = fr_id r, fv_direction = fr_direction r, fv_opcode = fr_opcode r, fv_time = fr_time r,
      fv_bytes = fr_bytes r, fv_truncated = fr_truncated r, fv_payload = map_option b64_encode (fr_payload r)\<rparr>"

text \<open>The open connections carry the writers that inject a message; what was written is kept as
  the list of their calls.\<close>

record frame_log =
  fl_pending :: "frame_row list"
  fl_open :: "string list"
  fl_rows :: "frame_row list"
  fl_next :: nat
  fl_written :: "(string \<times> string \<times> bytes) list"

definition new_FrameLog :: frame_log where
  "new_FrameLog = \<lparr>fl_pending = [], fl_open = [], fl_rows = [], fl_next = 1, fl_written = []\<rparr>"

definition frames_opened :: "string \<Rightarrow> frame_log \<Rightarrow> frame_log" where
  "frames_opened connection f = f\<lparr>fl_open := set_add connection (fl_open f)\<rparr>"

definition frames_closed :: "string \<Rightarrow> frame_log \<Rightarrow> frame_log" where
  "frames_closed connection f = f\<lparr>fl_open := filter (\<lambda>c. c \<noteq> connection) (fl_open f)\<rparr>"

definition isOpen :: "string \<Rightarrow> frame_log \<Rightarrow> bool" where
  "isOpen connection f \<longleftrightarrow> connection \<in> set (fl_open f)"

definition record_frame :: "time \<Rightarrow> string \<Rightarrow> string \<Rightarrow> string \<Rightarrow> nat \<Rightarrow> bytes \<Rightarrow> frame_log \<Rightarrow> frame_log" where
  "record_frame now tunnel connection direction opcode payload f =
     f\<lparr>fl_pending := fl_pending f @
        [\<lparr>fr_id = 0, fr_tunnel = tunnel, fr_connection = connection, fr_direction = direction, fr_opcode = opcode,
          fr_time = now, fr_bytes = length payload,
          fr_payload = (if payload \<noteq> [] then Some (take MAX_PAYLOAD payload) else None),
          fr_truncated = (length payload > MAX_PAYLOAD)\<rparr>]\<rparr>"

definition inject :: "time \<Rightarrow> string \<Rightarrow> string \<Rightarrow> string \<Rightarrow> bytes \<Rightarrow> frame_log \<Rightarrow> frame_log \<times> bool" where
  "inject now tunnel connection direction payload f =
     (if \<not> isOpen connection f then (f, False)
      else (record_frame now tunnel connection direction 1 payload
              (f\<lparr>fl_written := fl_written f @ [(connection, direction, payload)]\<rparr>), True))"

definition prune_frames :: "string \<Rightarrow> frame_row list \<Rightarrow> frame_row list" where
  "prune_frames connection rows = prune_rows (\<lambda>r. fr_connection r = connection) fr_id PER_CONNECTION rows"

text \<open>bulkCreate numbers the rows of a batch.\<close>

fun number_frames :: "nat \<Rightarrow> frame_row list \<Rightarrow> frame_row list" where
  "number_frames n [] = []"
| "number_frames n (r # rs) = r\<lparr>fr_id := n\<rparr> # number_frames (n + 1) rs"

definition flush_frames :: "bool \<Rightarrow> frame_log \<Rightarrow> frame_log" where
  "flush_frames ok f =
     (if fl_pending f = [] then f
      else let batch = fl_pending f; f1 = f\<lparr>fl_pending := []\<rparr>
           in if \<not> ok then f1
              else f1\<lparr>fl_rows := fold prune_frames (js_set (map fr_connection batch)) (fl_rows f @ number_frames (fl_next f) batch),
                      fl_next := fl_next f + length batch\<rparr>)"

definition list_frames :: "bool \<Rightarrow> string \<Rightarrow> string \<Rightarrow> nat \<Rightarrow> frame_log \<Rightarrow> frame_log \<times> frame_view list" where
  "list_frames ok tunnel connection after f =
     (let f' = flush_frames ok f;
          rows = filter (\<lambda>r. fr_tunnel r = tunnel \<and> fr_connection r = connection \<and> (after \<noteq> 0 \<longrightarrow> fr_id r > after)) (fl_rows f')
      in (f', map summarise_frame (take PER_CONNECTION (sort_key fr_id rows))))"

definition forConnections :: "bool \<Rightarrow> string \<Rightarrow> string list \<Rightarrow> frame_log \<Rightarrow> frame_log \<times> (string, frame_view list) jsmap" where
  "forConnections ok tunnel connections f =
     (let f' = flush_frames ok f;
          rows = sort_key fr_id (filter (\<lambda>r. fr_tunnel r = tunnel \<and> fr_connection r \<in> set connections) (fl_rows f'))
      in (f', map (\<lambda>c. (c, map summarise_frame (filter (\<lambda>r. fr_connection r = c) rows))) (js_set (map fr_connection rows))))"

subsection \<open>Requests\<close>

definition PER_TUNNEL_LIMIT :: nat where
  "PER_TUNNEL_LIMIT = 200"

definition PAGE_SIZE :: nat where
  "PAGE_SIZE = 50"

record request_row =
  rq_id :: nat
  rq_tunnel :: string
  rq_time :: time
  rq_duration :: nat
  rq_kind :: string
  rq_connection :: "string option"
  rq_intel :: "ip_details option"
  rq_method :: "string option"
  rq_path :: "string option"
  rq_status :: "nat option"
  rq_ip :: "string option"
  rq_host :: "string option"
  rq_requestHeaders :: "(string \<times> string) list"
  rq_requestBody :: "bytes option"
  rq_requestBytes :: nat
  rq_requestTruncated :: bool
  rq_responseHeaders :: "(string \<times> string) list"
  rq_responseBody :: "bytes option"
  rq_responseBytes :: nat
  rq_responseTruncated :: bool

text \<open>One side of an exchange as the proxy hands it over, and the exchange.\<close>

record captured =
  cp_headers :: "(string \<times> string) list"
  cp_body :: "bytes option"
  cp_bytes :: nat
  cp_truncated :: bool

record traffic_entry =
  te_time :: time
  te_duration :: nat
  te_kind :: "string option"
  te_connection :: "string option"
  te_intel :: "ip_details option"
  te_method :: "string option"
  te_path :: "string option"
  te_status :: "nat option"
  te_ip :: "string option"
  te_host :: "string option"
  te_request :: "captured option"
  te_response :: "captured option"

text \<open>x || null on strings and numbers: the empty string and 0 become null.\<close>

definition text_or_null :: "string option \<Rightarrow> string option" where
  "text_or_null v = (if v = Some [] then None else v)"

definition num_or_null :: "nat option \<Rightarrow> nat option" where
  "num_or_null v = (if v = Some 0 then None else v)"

definition side :: "captured option \<Rightarrow> captured" where
  "side c = (case c of None \<Rightarrow> \<lparr>cp_headers = [], cp_body = None, cp_bytes = 0, cp_truncated = False\<rparr> | Some x \<Rightarrow> x)"

record traffic_log =
  tl_pending :: "request_row list"
  tl_counts :: "(string, nat) jsmap"
  tl_rows :: "request_row list"
  tl_next :: nat

definition new_TrafficLog :: traffic_log where
  "new_TrafficLog = \<lparr>tl_pending = [], tl_counts = [], tl_rows = [], tl_next = 1\<rparr>"

definition record_request :: "string \<Rightarrow> traffic_entry \<Rightarrow> traffic_log \<Rightarrow> traffic_log" where
  "record_request tunnelId e t =
     (let q = side (te_request e); p = side (te_response e)
      in t\<lparr>tl_pending := tl_pending t @
             [\<lparr>rq_id = 0, rq_tunnel = tunnelId, rq_time = te_time e, rq_duration = te_duration e,
               rq_kind = (case text_or_null (te_kind e) of None \<Rightarrow> ''http'' | Some k \<Rightarrow> k),
               rq_connection = text_or_null (te_connection e), rq_intel = te_intel e,
               rq_method = text_or_null (te_method e), rq_path = text_or_null (te_path e),
               rq_status = num_or_null (te_status e), rq_ip = text_or_null (te_ip e), rq_host = text_or_null (te_host e),
               rq_requestHeaders = cp_headers q, rq_requestBody = cp_body q, rq_requestBytes = cp_bytes q, rq_requestTruncated = cp_truncated q,
               rq_responseHeaders = cp_headers p, rq_responseBody = cp_body p, rq_responseBytes = cp_bytes p, rq_responseTruncated = cp_truncated p\<rparr>],
           tl_counts := map_set tunnelId ((case map_get (tl_counts t) tunnelId of None \<Rightarrow> 0 | Some n \<Rightarrow> n) + 1) (tl_counts t)\<rparr>)"

fun number_requests :: "nat \<Rightarrow> request_row list \<Rightarrow> request_row list" where
  "number_requests n [] = []"
| "number_requests n (r # rs) = r\<lparr>rq_id := n\<rparr> # number_requests (n + 1) rs"

text \<open>Pruning a tunnel also drops the messages of the connections whose requests go.\<close>

definition prune_requests :: "string \<Rightarrow> request_row list \<times> frame_row list \<Rightarrow> request_row list \<times> frame_row list" where
  "prune_requests tunnel rf =
     (case rf of (rows, frames) \<Rightarrow>
        (case cutoff (\<lambda>r. rq_tunnel r = tunnel) rq_id PER_TUNNEL_LIMIT rows of
           None \<Rightarrow> (rows, frames)
         | Some k \<Rightarrow>
             let stale = (\<lambda>r. rq_tunnel r = tunnel \<and> rq_id r \<le> k);
                 connections = List.map_filter rq_connection (filter stale rows)
             in (filter (\<lambda>r. \<not> stale r) rows,
                 if connections \<noteq> [] then filter (\<lambda>f. fr_connection f \<notin> set connections) frames else frames)))"

definition flush_requests :: "bool \<Rightarrow> traffic_log \<times> frame_log \<Rightarrow> traffic_log \<times> frame_log" where
  "flush_requests ok tf =
     (case tf of (t, f) \<Rightarrow>
        if tl_pending t = [] then (t, f)
        else let batch = tl_pending t; t1 = t\<lparr>tl_pending := []\<rparr>
             in if \<not> ok then (t1, f)
                else case fold prune_requests (js_set (map rq_tunnel batch)) (tl_rows t @ number_requests (tl_next t) batch, fl_rows f) of
                       (rows, frames) \<Rightarrow> (t1\<lparr>tl_rows := rows, tl_next := tl_next t + length batch\<rparr>, f\<lparr>fl_rows := frames\<rparr>))"

text \<open>The duration of a websocket connection: on the first waiting row of it, or in the table.\<close>

fun set_duration :: "string \<Rightarrow> nat \<Rightarrow> request_row list \<Rightarrow> request_row list" where
  "set_duration connection duration [] = []"
| "set_duration connection duration (r # rs) =
     (if rq_connection r = Some connection then r\<lparr>rq_duration := duration\<rparr> # rs
      else r # set_duration connection duration rs)"

definition finish :: "string \<Rightarrow> nat \<Rightarrow> traffic_log \<Rightarrow> traffic_log" where
  "finish connection duration t =
     (if \<exists>r \<in> set (tl_pending t). rq_connection r = Some connection
      then t\<lparr>tl_pending := set_duration connection duration (tl_pending t)\<rparr>
      else t\<lparr>tl_rows := map (\<lambda>r. if rq_connection r = Some connection then r\<lparr>rq_duration := duration\<rparr> else r) (tl_rows t)\<rparr>)"

definition forget_requests :: "string \<Rightarrow> traffic_log \<times> frame_log \<Rightarrow> traffic_log \<times> frame_log" where
  "forget_requests tunnelId tf =
     (case tf of (t, f) \<Rightarrow>
        (t\<lparr>tl_pending := filter (\<lambda>r. rq_tunnel r \<noteq> tunnelId) (tl_pending t), tl_counts := map_delete tunnelId (tl_counts t),
           tl_rows := filter (\<lambda>r. rq_tunnel r \<noteq> tunnelId) (tl_rows t)\<rparr>,
         f\<lparr>fl_rows := filter (\<lambda>r. fr_tunnel r \<noteq> tunnelId) (fl_rows f)\<rparr>))"

subsection \<open>Reading the log\<close>

record criteria_filter =
  cf_search :: string
  cf_methods :: "string list"
  cf_statuses :: "nat list"
  cf_countries :: "string list"

definition country_of :: "request_row \<Rightarrow> string option" where
  "country_of r = (case rq_intel r of None \<Rightarrow> None | Some d \<Rightarrow> (case i_country d of JStr c \<Rightarrow> Some c | _ \<Rightarrow> None))"

definition like_opt :: "(string \<Rightarrow> string \<Rightarrow> bool) \<Rightarrow> string \<Rightarrow> string option \<Rightarrow> bool" where
  "like_opt like pattern v = (case v of None \<Rightarrow> False | Some s \<Rightarrow> like pattern s)"

definition criteria :: "(string \<Rightarrow> string \<Rightarrow> bool) \<Rightarrow> string \<Rightarrow> criteria_filter \<Rightarrow> request_row \<Rightarrow> bool" where
  "criteria like tunnelId c r \<longleftrightarrow>
     rq_tunnel r = tunnelId \<and>
     (cf_search c \<noteq> [] \<longrightarrow> like_opt like (''%'' @ cf_search c @ ''%'') (rq_path r) \<or> like_opt like (''%'' @ cf_search c @ ''%'') (rq_ip r)) \<and>
     (cf_methods c \<noteq> [] \<longrightarrow>
        (let plain = filter (\<lambda>m. m \<noteq> ''WS'') (cf_methods c)
         in (plain \<noteq> [] \<and> rq_kind r = ''http'' \<and> (\<exists>m \<in> set plain. rq_method r = Some m)) \<or>
            (''WS'' \<in> set (cf_methods c) \<and> rq_kind r = ''ws''))) \<and>
     (cf_statuses c \<noteq> [] \<longrightarrow>
        (\<exists>h \<in> set (cf_statuses c). case rq_status r of None \<Rightarrow> False | Some s \<Rightarrow> h * 100 \<le> s \<and> s \<le> h * 100 + 99)) \<and>
     (cf_countries c \<noteq> [] \<longrightarrow> (case country_of r of None \<Rightarrow> False | Some k \<Rightarrow> k \<in> set (cf_countries c)))"

definition sort_column :: "string \<Rightarrow> request_row \<Rightarrow> nat list" where
  "sort_column sortBy r =
     (if sortBy = ''status'' then num_key (rq_status r)
      else if sortBy = ''duration'' then num_key (Some (rq_duration r))
      else if sortBy = ''path'' then text_key (rq_path r)
      else if sortBy = ''method'' then text_key (rq_method r)
      else num_key (Some (rq_id r)))"

record request_view =
  rv_id :: nat
  rv_time :: time
  rv_duration :: nat
  rv_kind :: string
  rv_connection :: "string option"
  rv_intel :: "ip_details option"
  rv_method :: "string option"
  rv_path :: "string option"
  rv_status :: "nat option"
  rv_ip :: "string option"
  rv_host :: "string option"
  rv_requestBytes :: nat
  rv_responseBytes :: nat

definition summarise_request :: "request_row \<Rightarrow> request_view" where
  "summarise_request r =
     \<lparr>rv_id = rq_id r, rv_time = rq_time r, rv_duration = rq_duration r, rv_kind = rq_kind r, rv_connection = rq_connection r,
      rv_intel = rq_intel r, rv_method = rq_method r, rv_path = rq_path r, rv_status = rq_status r, rv_ip = rq_ip r,
      rv_host = rq_host r, rv_requestBytes = rq_requestBytes r, rv_responseBytes = rq_responseBytes r\<rparr>"

record side_view =
  sd_headers :: "(string \<times> string) list"
  sd_body :: "string option"
  sd_bytes :: nat
  sd_truncated :: bool

definition detail_request :: "request_row \<Rightarrow> request_view \<times> side_view \<times> side_view" where
  "detail_request r =
     (summarise_request r,
      \<lparr>sd_headers = rq_requestHeaders r, sd_body = map_option b64_encode (rq_requestBody r),
       sd_bytes = rq_requestBytes r, sd_truncated = rq_requestTruncated r\<rparr>,
      \<lparr>sd_headers = rq_responseHeaders r, sd_body = map_option b64_encode (rq_responseBody r),
       sd_bytes = rq_responseBytes r, sd_truncated = rq_responseTruncated r\<rparr>)"

definition list_requests ::
  "(string \<Rightarrow> string \<Rightarrow> bool) \<Rightarrow> bool \<Rightarrow> string \<Rightarrow> criteria_filter \<Rightarrow> string \<Rightarrow> string \<Rightarrow> int \<Rightarrow> int \<Rightarrow>
   traffic_log \<times> frame_log \<Rightarrow> (traffic_log \<times> frame_log) \<times> request_view list" where
  "list_requests like ok tunnelId flt sortBy order offset lim tf =
     (let tf' = flush_requests ok tf;
          rows = order_rows (sort_column sortBy) rq_id (order = ''asc'') (filter (criteria like tunnelId flt) (tl_rows (fst tf')))
      in (tf', map summarise_request (page offset lim (int PER_TUNNEL_LIMIT) rows)))"

definition all_requests ::
  "bool \<Rightarrow> string \<Rightarrow> traffic_log \<times> frame_log \<Rightarrow> (traffic_log \<times> frame_log) \<times> (request_view \<times> side_view \<times> side_view) list" where
  "all_requests ok tunnelId tf =
     (let tf' = flush_requests ok tf
      in (tf', map detail_request (sort_key rq_id (filter (\<lambda>r. rq_tunnel r = tunnelId) (tl_rows (fst tf'))))))"

definition get_request ::
  "bool \<Rightarrow> string \<Rightarrow> nat \<Rightarrow> traffic_log \<times> frame_log \<Rightarrow> (traffic_log \<times> frame_log) \<times> (request_view \<times> side_view \<times> side_view) option" where
  "get_request ok tunnelId i tf =
     (let tf' = flush_requests ok tf
      in (tf', map_option detail_request (find (\<lambda>r. rq_tunnel r = tunnelId \<and> rq_id r = i) (tl_rows (fst tf')))))"

definition count_requests :: "(string \<Rightarrow> string \<Rightarrow> bool) \<Rightarrow> string \<Rightarrow> criteria_filter \<Rightarrow> traffic_log \<Rightarrow> nat" where
  "count_requests like tunnelId flt t = length (filter (criteria like tunnelId flt) (tl_rows t))"

text \<open>Requests per country, the most frequent first; rows without a country are left out.\<close>

definition countries :: "string \<Rightarrow> traffic_log \<Rightarrow> (string \<times> nat) list" where
  "countries tunnelId t =
     (let codes = List.map_filter country_of (filter (\<lambda>r. rq_tunnel r = tunnelId) (tl_rows t));
          named = filter (\<lambda>c. c \<noteq> []) codes
      in sort_key (\<lambda>(_, n). - int n) (map (\<lambda>c. (c, length (filter (\<lambda>x. x = c) named))) (js_set named)))"

subsection \<open>What is stored stays bounded\<close>

lemma number_frames_group [simp]: "map fr_connection (number_frames n rs) = map fr_connection rs"
  by (induction n rs rule: number_frames.induct) auto

lemma number_requests_group [simp]: "map rq_tunnel (number_requests n rs) = map rq_tunnel rs"
  by (induction n rs rule: number_requests.induct) auto

lemma prune_requests_rows:
  "fst (prune_requests tunnel (rows, frames)) = prune_rows (\<lambda>r. rq_tunnel r = tunnel) rq_id PER_TUNNEL_LIMIT rows"
  by (simp add: prune_requests_def prune_rows_def Let_def split: option.split)

lemma prune_requests_frames: "set (snd (prune_requests tunnel (rows, frames))) \<subseteq> set frames"
  "length (filter P (snd (prune_requests tunnel (rows, frames)))) \<le> length (filter P frames)"
  by (auto simp: prune_requests_def Let_def length_filter_filter simp del: filter_filter split: option.splits if_splits)

interpretation fp: pruned fr_connection PER_CONNECTION prune_frames
  by unfold_locales (auto simp: prune_frames_def prune_rows_bound prune_rows_filter_le prune_rows_keeps)

interpretation rp: pruned rq_tunnel PER_TUNNEL_LIMIT "\<lambda>g. prune_rows (\<lambda>r. rq_tunnel r = g) rq_id PER_TUNNEL_LIMIT"
  by unfold_locales (auto simp: prune_rows_bound prune_rows_filter_le prune_rows_keeps)

lemma prune_each_requests:
  "fst (fold prune_requests gs (rows, frames)) = fold (\<lambda>g. prune_rows (\<lambda>r. rq_tunnel r = g) rq_id PER_TUNNEL_LIMIT) gs rows \<and>
   length (filter P (snd (fold prune_requests gs (rows, frames)))) \<le> length (filter P frames)"
proof (induction gs arbitrary: rows frames)
  case (Cons g gs)
  obtain rows' frames' where p: "prune_requests g (rows, frames) = (rows', frames')" by force
  have "rows' = prune_rows (\<lambda>r. rq_tunnel r = g) rq_id PER_TUNNEL_LIMIT rows" using prune_requests_rows p by (metis fst_conv)
  moreover have "length (filter P frames') \<le> length (filter P frames)" using prune_requests_frames(2) p by (metis snd_conv)
  ultimately show ?case using Cons.IH [of rows' frames'] p by simp
qed simp

definition logs_bounded :: "traffic_log \<times> frame_log \<Rightarrow> bool" where
  "logs_bounded tf \<longleftrightarrow>
     (\<forall>g. length (filter (\<lambda>r. rq_tunnel r = g) (tl_rows (fst tf))) \<le> PER_TUNNEL_LIMIT) \<and>
     (\<forall>c. length (filter (\<lambda>r. fr_connection r = c) (fl_rows (snd tf))) \<le> PER_CONNECTION)"

lemma flush_requests_bounded: "logs_bounded tf \<Longrightarrow> logs_bounded (flush_requests ok tf)"
proof -
  assume b: "logs_bounded tf"
  obtain t f where tf: "tf = (t, f)" by (cases tf)
  let ?gs = "js_set (map rq_tunnel (tl_pending t))"
  let ?all = "tl_rows t @ number_requests (tl_next t) (tl_pending t)"
  obtain rows frames where p: "fold prune_requests ?gs (?all, fl_rows f) = (rows, frames)" by force
  have rows: "rows = fold (\<lambda>g. prune_rows (\<lambda>r. rq_tunnel r = g) rq_id PER_TUNNEL_LIMIT) ?gs ?all"
    using prune_each_requests [of ?gs ?all "fl_rows f"] p by simp
  have "length (filter (\<lambda>r. rq_tunnel r = g) rows) \<le> PER_TUNNEL_LIMIT" for g
    using rp.flush_bounded [of "tl_rows t" g "number_requests (tl_next t) (tl_pending t)"] b
    by (simp add: rows logs_bounded_def tf)
  moreover have "length (filter (\<lambda>r. fr_connection r = c) frames) \<le> PER_CONNECTION" for c
    using prune_each_requests [of ?gs ?all "fl_rows f" "\<lambda>r. fr_connection r = c"] p b
    by (auto simp: logs_bounded_def tf intro: order_trans)
  ultimately show ?thesis using b unfolding tf flush_requests_def logs_bounded_def Let_def
    by (auto simp: p intro: order_trans)
qed

lemma flush_frames_bounded: "logs_bounded (t, f) \<Longrightarrow> logs_bounded (t, flush_frames ok f)"
  using fp.flush_bounded [of "fl_rows f" _ "number_frames (fl_next f) (fl_pending f)"]
  by (auto simp: logs_bounded_def flush_frames_def Let_def)

text \<open>Everything that writes to the two logs.\<close>

datatype log_op =
    LRequest string traffic_entry
  | LFlushRequests bool
  | LFinish string nat
  | LForget string
  | LFrame time string string string nat bytes
  | LInject time string string string bytes
  | LFlushFrames bool
  | LOpened string
  | LClosed string

fun log_step :: "log_op \<Rightarrow> traffic_log \<times> frame_log \<Rightarrow> traffic_log \<times> frame_log" where
  "log_step (LRequest i e) (t, f) = (record_request i e t, f)"
| "log_step (LFlushRequests ok) (t, f) = flush_requests ok (t, f)"
| "log_step (LFinish c d) (t, f) = (finish c d t, f)"
| "log_step (LForget i) (t, f) = forget_requests i (t, f)"
| "log_step (LFrame now i c dir opc p) (t, f) = (t, record_frame now i c dir opc p f)"
| "log_step (LInject now i c dir p) (t, f) = (t, fst (inject now i c dir p f))"
| "log_step (LFlushFrames ok) (t, f) = (t, flush_frames ok f)"
| "log_step (LOpened c) (t, f) = (t, frames_opened c f)"
| "log_step (LClosed c) (t, f) = (t, frames_closed c f)"

lemma filter_shrinks: "length (filter P xs) \<le> n \<Longrightarrow> length (filter P (filter Q xs)) \<le> n"
  by (rule order_trans [OF length_filter_filter])

lemma finish_bounded: "logs_bounded (t, f) \<Longrightarrow> logs_bounded (finish c d t, f)"
proof -
  assume b: "logs_bounded (t, f)"
  have "length (filter (\<lambda>r. rq_tunnel r = g) (map (\<lambda>r. if rq_connection r = Some c then r\<lparr>rq_duration := d\<rparr> else r) rows)) =
      length (filter (\<lambda>r. rq_tunnel r = g) rows)" for g and rows :: "request_row list"
    by (induction rows) auto
  then show ?thesis using b unfolding finish_def logs_bounded_def by simp
qed

lemma log_step_bounded: "logs_bounded (t, f) \<Longrightarrow> logs_bounded (log_step op (t, f))"
proof (induction op "(t, f)" rule: log_step.induct)
  case (4 i)
  then show ?case by (simp add: forget_requests_def logs_bounded_def filter_shrinks del: filter_filter)
qed (auto simp: flush_requests_bounded flush_frames_bounded finish_bounded,
     auto simp: record_request_def record_frame_def inject_def frames_opened_def frames_closed_def logs_bounded_def Let_def)


end
