(* ===== verification/Connections.thy ===== *)
theory Connections
  imports Tables Sniff Intel
begin

text \<open>
  The log of relayed TCP and UDP connections (src/server/lib/connections.js) and of the visitors
  of a tunnel (src/server/lib/visitors.js).

  A connection's entry is an object that the relay goes on changing while the log holds it in
  its map of live entries, its list of inserts and, by key, its set of dirty entries. So entries
  are kept in a store by their key, and live, inserts and dirty are lists of keys. Whether the
  database accepts a batch is an argument of the flush.
\<close>

definition CONNECTIONS_LIMIT :: nat where
  "CONNECTIONS_LIMIT = 500"

record conn_entry =
  ce_key :: string
  ce_tunnel :: string
  ce_protocol :: string
  ce_ip :: string
  ce_intel :: ip_details
  ce_client :: string
  ce_joiner :: string
  ce_startedAt :: time
  ce_endedAt :: "time option"
  ce_bytesIn :: nat
  ce_bytesOut :: nat
  ce_reason :: "string option"
  ce_detail :: detection
  ce_sniffedIn :: bool
  ce_sniffedOut :: bool

record conn_row =
  cr_id :: nat
  cr_key :: string
  cr_tunnel :: string
  cr_protocol :: string
  cr_ip :: string
  cr_intel :: ip_details
  cr_client :: string
  cr_joiner :: string
  cr_startedAt :: time
  cr_endedAt :: "time option"
  cr_bytesIn :: nat
  cr_bytesOut :: nat
  cr_reason :: "string option"
  cr_detail :: detection

record conn_log =
  cl_store :: "(string, conn_entry) jsmap"
  cl_live :: "string list"
  cl_inserts :: "string list"
  cl_dirty :: "string list"
  cl_rows :: "conn_row list"
  cl_next :: nat

definition new_ConnectionLog :: conn_log where
  "new_ConnectionLog = \<lparr>cl_store = [], cl_live = [], cl_inserts = [], cl_dirty = [], cl_rows = [], cl_next = 1\<rparr>"

definition open_conn ::
  "string \<Rightarrow> time \<Rightarrow> string \<Rightarrow> string \<Rightarrow> string \<Rightarrow> ip_details \<Rightarrow> string \<Rightarrow> string \<Rightarrow> conn_log \<Rightarrow> conn_log" where
  "open_conn key now tunnel protocol ip details client joiner l =
     l\<lparr>cl_store := map_set key
          \<lparr>ce_key = key, ce_tunnel = tunnel, ce_protocol = protocol, ce_ip = ip, ce_intel = details, ce_client = client,
           ce_joiner = joiner, ce_startedAt = now, ce_endedAt = None, ce_bytesIn = 0, ce_bytesOut = 0, ce_reason = None,
           ce_detail = None, ce_sniffedIn = False, ce_sniffedOut = False\<rparr> (cl_store l),
       cl_live := set_add key (cl_live l), cl_inserts := cl_inserts l @ [key]\<rparr>"

text \<open>What data does to the entry: the counters, and the detection on the first chunk of a
  direction while nothing has been detected yet. The detection may throw, after the entry has
  been marked.\<close>

definition count_data :: "string \<Rightarrow> bytes \<Rightarrow> conn_entry \<Rightarrow> conn_entry" where
  "count_data direction buf e =
     (if direction = ''in'' then e\<lparr>ce_bytesIn := ce_bytesIn e + length buf\<rparr>
      else e\<lparr>ce_bytesOut := ce_bytesOut e + length buf\<rparr>)"

definition sniffed_before :: "string \<Rightarrow> conn_entry \<Rightarrow> bool" where
  "sniffed_before direction e = (if direction = ''in'' then ce_sniffedIn e else ce_sniffedOut e)"

definition mark_sniffed :: "string \<Rightarrow> conn_entry \<Rightarrow> conn_entry" where
  "mark_sniffed direction e = (if direction = ''in'' then e\<lparr>ce_sniffedIn := True\<rparr> else e\<lparr>ce_sniffedOut := True\<rparr>)"

definition conn_data :: "string \<Rightarrow> string \<Rightarrow> bytes \<Rightarrow> conn_log \<Rightarrow> conn_log \<times> unit result" where
  "conn_data key direction buf l =
     (case map_get (cl_store l) key of
        None \<Rightarrow> (l, Inr ())
      | Some e \<Rightarrow>
          let e1 = count_data direction buf e; put = (\<lambda>x. l\<lparr>cl_store := map_set key x (cl_store l)\<rparr>)
          in if sniffed_before direction e then (put e1, Inr ())
             else let e2 = mark_sniffed direction e1
                  in if ce_detail e2 \<noteq> None then (put e2, Inr ())
                     else (case sniff (ce_protocol e2) direction buf of
                             Inl err \<Rightarrow> (put e2, Inl err)
                           | Inr d \<Rightarrow>
                               let l1 = put (e2\<lparr>ce_detail := d\<rparr>)
                               in (if d \<noteq> None then l1\<lparr>cl_dirty := set_add key (cl_dirty l1)\<rparr> else l1, Inr ())))"

definition close_conn :: "time \<Rightarrow> string \<Rightarrow> string \<Rightarrow> conn_log \<Rightarrow> conn_log" where
  "close_conn now key reason l =
     (case map_get (cl_store l) key of
        None \<Rightarrow> l
      | Some e \<Rightarrow>
          l\<lparr>cl_store := map_set key (e\<lparr>ce_endedAt := Some now, ce_reason := Some reason\<rparr>) (cl_store l),
            cl_dirty := set_add key (cl_dirty l)\<rparr>)"

subsection \<open>Storing\<close>

definition conn_row_of :: "nat \<Rightarrow> conn_entry \<Rightarrow> conn_row" where
  "conn_row_of i e =
     \<lparr>cr_id = i, cr_key = ce_key e, cr_tunnel = ce_tunnel e, cr_protocol = ce_protocol e, cr_ip = ce_ip e,
      cr_intel = ce_intel e, cr_client = ce_client e, cr_joiner = ce_joiner e, cr_startedAt = ce_startedAt e,
      cr_endedAt = ce_endedAt e, cr_bytesIn = ce_bytesIn e, cr_bytesOut = ce_bytesOut e, cr_reason = ce_reason e,
      cr_detail = ce_detail e\<rparr>"

fun insert_rows :: "nat \<Rightarrow> conn_entry list \<Rightarrow> conn_row list" where
  "insert_rows n [] = []"
| "insert_rows n (e # es) = conn_row_of n e # insert_rows (n + 1) es"

definition prune_conns :: "string \<Rightarrow> conn_row list \<Rightarrow> conn_row list" where
  "prune_conns tunnel rows =
     prune_rows (\<lambda>r. cr_tunnel r = tunnel \<and> cr_endedAt r \<noteq> None) cr_startedAt CONNECTIONS_LIMIT rows"

definition update_row :: "conn_entry \<Rightarrow> conn_row \<Rightarrow> conn_row" where
  "update_row e r =
     (if cr_key r = ce_key e
      then r\<lparr>cr_bytesIn := ce_bytesIn e, cr_bytesOut := ce_bytesOut e, cr_reason := ce_reason e,
             cr_detail := ce_detail e, cr_endedAt := ce_endedAt e\<rparr>
      else r)"

text \<open>The loop over the dirty keys. The live map has no entry for a key whose tunnel was
  forgotten; reading a property of undefined throws and ends the loop.\<close>

fun flush_dirty :: "string list \<Rightarrow> string list \<Rightarrow> conn_log \<Rightarrow> conn_log" where
  "flush_dirty fresh [] l = l"
| "flush_dirty fresh (key # keys) l =
     (if key \<notin> set (cl_live l) then l
      else case map_get (cl_store l) key of
             None \<Rightarrow> l
           | Some e \<Rightarrow>
               let l1 = (if key \<in> set fresh then l else l\<lparr>cl_rows := map (update_row e) (cl_rows l)\<rparr>);
                   l2 = (if ce_endedAt e \<noteq> None then l1\<lparr>cl_live := filter (\<lambda>k. k \<noteq> key) (cl_live l1)\<rparr> else l1)
               in flush_dirty fresh keys l2)"

definition entries_of :: "string list \<Rightarrow> conn_log \<Rightarrow> conn_entry list" where
  "entries_of keys l = List.map_filter (map_get (cl_store l)) keys"

definition store_inserts :: "conn_log \<Rightarrow> conn_log" where
  "store_inserts l =
     (let es = entries_of (cl_inserts l) l
      in if cl_inserts l = [] then l
         else l\<lparr>cl_rows := fold prune_conns (js_set (map ce_tunnel es)) (cl_rows l @ insert_rows (cl_next l) es),
                cl_next := cl_next l + length es\<rparr>)"

definition flush_conns :: "bool \<Rightarrow> conn_log \<Rightarrow> conn_log" where
  "flush_conns ok l =
     (let cleared = (\<lambda>x. x\<lparr>cl_inserts := [], cl_dirty := []\<rparr>)
      in if cl_inserts l = [] \<and> cl_dirty l = [] then l
         else if \<not> ok then cleared l
         else flush_dirty (cl_inserts l) (cl_dirty l) (cleared (store_inserts l)))"

definition forget_conns :: "string \<Rightarrow> conn_log \<Rightarrow> conn_log" where
  "forget_conns tunnel l =
     (let others = (\<lambda>k. case map_get (cl_store l) k of None \<Rightarrow> True | Some e \<Rightarrow> ce_tunnel e \<noteq> tunnel)
      in l\<lparr>cl_live := filter others (cl_live l), cl_inserts := filter others (cl_inserts l),
           cl_rows := filter (\<lambda>r. cr_tunnel r \<noteq> tunnel) (cl_rows l)\<rparr>)"

definition clear_conns :: "bool \<Rightarrow> string \<Rightarrow> conn_log \<Rightarrow> conn_log" where
  "clear_conns ok tunnel l =
     (let l' = flush_conns ok l
      in l'\<lparr>cl_rows := filter (\<lambda>r. \<not> (cr_tunnel r = tunnel \<and> cr_endedAt r \<noteq> None)) (cl_rows l')\<rparr>)"

subsection \<open>Reading\<close>

text \<open>The row as it is shown, with the counters of the live entry when there is one.\<close>

definition current_row :: "conn_log \<Rightarrow> conn_row \<Rightarrow> conn_row" where
  "current_row l r =
     (if cr_key r \<in> set (cl_live l)
      then (case map_get (cl_store l) (cr_key r) of
              None \<Rightarrow> r
            | Some e \<Rightarrow> r\<lparr>cr_bytesIn := ce_bytesIn e, cr_bytesOut := ce_bytesOut e, cr_detail := ce_detail e\<rparr>)
      else r)"

definition conn_column :: "string \<Rightarrow> conn_row \<Rightarrow> int list" where
  "conn_column sortBy r =
     (if sortBy = ''in'' then [int (cr_bytesIn r)]
      else if sortBy = ''out'' then [int (cr_bytesOut r)]
      else if sortBy = ''ip'' then map (int \<circ> ord) (cr_ip r)
      else [cr_startedAt r])"

definition list_conns :: "bool \<Rightarrow> string \<Rightarrow> string \<Rightarrow> string \<Rightarrow> int \<Rightarrow> int \<Rightarrow> conn_log \<Rightarrow> conn_log \<times> conn_row list" where
  "list_conns ok tunnel sortBy order offset lim l =
     (let l' = flush_conns ok l;
          rows = order_rows (conn_column sortBy) cr_id (order = ''asc'') (filter (\<lambda>r. cr_tunnel r = tunnel) (cl_rows l'))
      in (l', map (current_row l') (page offset lim (int CONNECTIONS_LIMIT) rows)))"

definition count_conns :: "string \<Rightarrow> conn_log \<Rightarrow> nat" where
  "count_conns tunnel l = length (filter (\<lambda>r. cr_tunnel r = tunnel) (cl_rows l))"

definition get_conn :: "bool \<Rightarrow> string \<Rightarrow> string \<Rightarrow> conn_log \<Rightarrow> conn_log \<times> conn_row option" where
  "get_conn ok tunnel key l =
     (let l' = flush_conns ok l
      in (l', map_option (current_row l') (find (\<lambda>r. cr_tunnel r = tunnel \<and> cr_key r = key) (cl_rows l'))))"

subsection \<open>What a flush stores\<close>

definition ended :: "conn_log \<Rightarrow> string \<Rightarrow> bool" where
  "ended l k \<longleftrightarrow> (\<exists>e. map_get (cl_store l) k = Some e \<and> ce_endedAt e \<noteq> None)"

definition refresh_row :: "conn_log \<Rightarrow> string set \<Rightarrow> conn_row \<Rightarrow> conn_row" where
  "refresh_row l K r =
     (if cr_key r \<in> K then (case map_get (cl_store l) (cr_key r) of None \<Rightarrow> r | Some e \<Rightarrow> update_row e r) else r)"

definition keyed :: "conn_log \<Rightarrow> bool" where
  "keyed l \<longleftrightarrow> (\<forall>k e. map_get (cl_store l) k = Some e \<longrightarrow> ce_key e = k) \<and> (\<forall>k \<in> set (cl_live l). map_get (cl_store l) k \<noteq> None)"

lemma update_row_key [simp]: "cr_key (update_row e r) = cr_key r"
  by (simp add: update_row_def)

lemma refresh_none [simp]: "refresh_row l {} = (\<lambda>r. r)"
  by (simp add: refresh_row_def fun_eq_iff)

lemma flush_dirty_spec:
  assumes "keyed l" "set keys \<subseteq> set (cl_live l)" "distinct keys"
  shows "cl_store (flush_dirty fresh keys l) = cl_store l \<and> cl_dirty (flush_dirty fresh keys l) = cl_dirty l \<and>
    cl_inserts (flush_dirty fresh keys l) = cl_inserts l \<and>
    cl_live (flush_dirty fresh keys l) = filter (\<lambda>k. \<not> (k \<in> set keys \<and> ended l k)) (cl_live l) \<and>
    cl_rows (flush_dirty fresh keys l) = map (refresh_row l (set keys - set fresh)) (cl_rows l)"
  using assms
proof (induction keys arbitrary: l)
  case Nil
  then show ?case by (simp add: refresh_row_def)
next
  case (Cons k ks)
  obtain e where e: "map_get (cl_store l) k = Some e" "ce_key e = k" "k \<in> set (cl_live l)"
    using Cons.prems by (auto simp: keyed_def)
  define l1 where "l1 = (if k \<in> set fresh then l else l\<lparr>cl_rows := map (update_row e) (cl_rows l)\<rparr>)"
  define l2 where "l2 = (if ce_endedAt e \<noteq> None then l1\<lparr>cl_live := filter (\<lambda>x. x \<noteq> k) (cl_live l1)\<rparr> else l1)"
  have step: "flush_dirty fresh (k # ks) l = flush_dirty fresh ks l2"
    using e by (simp add: l1_def l2_def Let_def)
  have st: "cl_store l2 = cl_store l" "cl_dirty l2 = cl_dirty l" "cl_inserts l2 = cl_inserts l" by (simp_all add: l1_def l2_def)
  have live: "cl_live l2 = filter (\<lambda>x. \<not> (x = k \<and> ended l k)) (cl_live l)"
    using e by (auto simp: l1_def l2_def ended_def)
  have rows: "cl_rows l2 = map (refresh_row l ({k} - set fresh)) (cl_rows l)"
    using e by (auto simp: l1_def l2_def refresh_row_def update_row_def)
  have k2: "keyed l2" "set ks \<subseteq> set (cl_live l2)" using Cons.prems by (auto simp: keyed_def st live)
  have en: "ended l2 = ended l" by (simp add: ended_def st fun_eq_iff)
  have "refresh_row l2 (set ks - set fresh) (refresh_row l ({k} - set fresh) r) = refresh_row l (set (k # ks) - set fresh) r" for r
    using Cons.prems(3) by (auto simp: refresh_row_def st split: option.split)
  then have "cl_rows (flush_dirty fresh ks l2) = map (refresh_row l (set (k # ks) - set fresh)) (cl_rows l)"
    using Cons.IH [OF k2] Cons.prems(3) rows by simp
  moreover have "cl_live (flush_dirty fresh ks l2) = filter (\<lambda>x. \<not> (x \<in> set (k # ks) \<and> ended l x)) (cl_live l)"
    using Cons.IH [OF k2] Cons.prems(3) live en by (auto intro: filter_cong)
  ultimately show ?case unfolding step using Cons.IH [OF k2] Cons.prems(3) st by simp
qed

text \<open>What holds as long as nothing is forgotten while it is in use.\<close>

definition conn_inv :: "conn_log \<Rightarrow> bool" where
  "conn_inv l \<longleftrightarrow> keyed l \<and> set (cl_dirty l) \<subseteq> set (cl_live l) \<and> set (cl_inserts l) \<subseteq> set (cl_live l) \<and> distinct (cl_dirty l) \<and>
     (\<forall>r \<in> set (cl_rows l). cr_key r \<notin> set (cl_inserts l) \<and> map_get (cl_store l) (cr_key r) \<noteq> None)"

lemma insert_rows_entries: "r \<in> set (insert_rows n es) \<Longrightarrow> \<exists>i e. e \<in> set es \<and> r = conn_row_of i e"
  by (induction n es rule: insert_rows.induct) auto

lemma insert_rows_covers: "e \<in> set es \<Longrightarrow> \<exists>i. conn_row_of i e \<in> set (insert_rows n es)"
  by (induction n es rule: insert_rows.induct) auto

lemma prune_conns_subset: "set (fold prune_conns gs rows) \<subseteq> set rows"
proof (induction gs arbitrary: rows)
  case (Cons g gs)
  have "set (prune_conns g rows) \<subseteq> set rows" by (simp add: prune_conns_def prune_rows_subset)
  then show ?case using Cons.IH [of "prune_conns g rows"] by simp
qed simp

lemma prune_conns_open: "r \<in> set rows \<Longrightarrow> cr_endedAt r = None \<Longrightarrow> r \<in> set (fold prune_conns gs rows)"
proof (induction gs arbitrary: rows)
  case (Cons g gs)
  have "r \<in> set (prune_conns g rows)" using Cons.prems by (simp add: prune_conns_def prune_rows_keeps)
  then show ?case using Cons by simp
qed simp

lemma store_inserts_rows:
  "r \<in> set (cl_rows (store_inserts l)) \<Longrightarrow> r \<in> set (cl_rows l) \<or>
     (\<exists>k e i. k \<in> set (cl_inserts l) \<and> map_get (cl_store l) k = Some e \<and> r = conn_row_of i e)"
proof -
  assume r: "r \<in> set (cl_rows (store_inserts l))"
  let ?es = "entries_of (cl_inserts l) l"
  have "r \<in> set (cl_rows l) \<or> r \<in> set (insert_rows (cl_next l) ?es)"
    using r prune_conns_subset [of "js_set (map ce_tunnel ?es)" "cl_rows l @ insert_rows (cl_next l) ?es"]
    by (auto simp: store_inserts_def Let_def split: if_splits)
  then show ?thesis using insert_rows_entries [of r "cl_next l" ?es]
    by (fastforce simp: entries_of_def List.map_filter_def)
qed

lemma store_inserts_frame [simp]:
  "cl_store (store_inserts l) = cl_store l" "cl_live (store_inserts l) = cl_live l" "cl_dirty (store_inserts l) = cl_dirty l"
  "cl_inserts (store_inserts l) = cl_inserts l"
  by (simp_all add: store_inserts_def Let_def)

definition stored_as :: "conn_row \<Rightarrow> conn_entry \<Rightarrow> bool" where
  "stored_as r e \<longleftrightarrow> cr_bytesIn r = ce_bytesIn e \<and> cr_bytesOut r = ce_bytesOut e \<and> cr_endedAt r = ce_endedAt e \<and>
     cr_reason r = ce_reason e \<and> cr_detail r = ce_detail e"

lemma flush_spec:
  assumes "conn_inv l"
  shows "cl_store (flush_conns True l) = cl_store l" "cl_dirty (flush_conns True l) = []" "cl_inserts (flush_conns True l) = []"
    "cl_live (flush_conns True l) = filter (\<lambda>k. \<not> (k \<in> set (cl_dirty l) \<and> ended l k)) (cl_live l)"
    "cl_rows (flush_conns True l) = map (refresh_row l (set (cl_dirty l) - set (cl_inserts l))) (cl_rows (store_inserts l))"
proof -
  let ?l = "(store_inserts l)\<lparr>cl_inserts := [], cl_dirty := []\<rparr>"
  have "keyed ?l" "set (cl_dirty l) \<subseteq> set (cl_live ?l)" "distinct (cl_dirty l)"
    using assms by (auto simp: conn_inv_def keyed_def)
  note f = flush_dirty_spec [OF this, of "cl_inserts l"]
  have en: "ended ?l = ended l" "refresh_row ?l = refresh_row l" by (auto simp: ended_def refresh_row_def fun_eq_iff)
  have idle: "flush_conns True l = l" "store_inserts l = l" if "cl_inserts l = [] \<and> cl_dirty l = []"
    using that by (simp_all add: flush_conns_def store_inserts_def Let_def)
  have busy: "flush_conns True l = flush_dirty (cl_inserts l) (cl_dirty l) ?l" if "\<not> (cl_inserts l = [] \<and> cl_dirty l = [])"
    using that by (auto simp: flush_conns_def Let_def)
  show "cl_store (flush_conns True l) = cl_store l" "cl_dirty (flush_conns True l) = []" "cl_inserts (flush_conns True l) = []"
    "cl_live (flush_conns True l) = filter (\<lambda>k. \<not> (k \<in> set (cl_dirty l) \<and> ended l k)) (cl_live l)"
    "cl_rows (flush_conns True l) = map (refresh_row l (set (cl_dirty l) - set (cl_inserts l))) (cl_rows (store_inserts l))"
    by (cases "cl_inserts l = [] \<and> cl_dirty l = []"; use f in \<open>simp add: idle busy en\<close>)+
qed

text \<open>The relay opens connections under fresh keys, counts data and closes on entries that are
  live, and batches are stored or lost.\<close>

inductive conn_reach :: "conn_log \<Rightarrow> bool" where
  start: "conn_reach new_ConnectionLog"
| opened: "conn_reach l \<Longrightarrow> map_get (cl_store l) key = None \<Longrightarrow> conn_reach (open_conn key now tunnel protocol ip details client joiner l)"
| flows: "conn_reach l \<Longrightarrow> key \<in> set (cl_live l) \<Longrightarrow> conn_reach (fst (conn_data key direction buf l))"
| closed: "conn_reach l \<Longrightarrow> key \<in> set (cl_live l) \<Longrightarrow> conn_reach (close_conn now key reason l)"
| flushed: "conn_reach l \<Longrightarrow> conn_reach (flush_conns ok l)"

lemma put_entry_inv:
  assumes "conn_inv l" "map_get (cl_store l) key = Some e" "ce_key e' = ce_key e"
  shows "conn_inv (l\<lparr>cl_store := map_set key e' (cl_store l)\<rparr>)"
  using assms by (auto simp: conn_inv_def keyed_def)

lemma dirty_inv: "conn_inv l \<Longrightarrow> key \<in> set (cl_live l) \<Longrightarrow> conn_inv (l\<lparr>cl_dirty := set_add key (cl_dirty l)\<rparr>)"
  by (auto simp: conn_inv_def keyed_def)

lemma conn_data_inv:
  assumes "conn_inv l" "key \<in> set (cl_live l)"
  shows "conn_inv (fst (conn_data key direction buf l))"
proof -
  obtain e where e: "map_get (cl_store l) key = Some e" using assms by (auto simp: conn_inv_def keyed_def)
  let ?e1 = "count_data direction buf e"
  let ?e2 = "mark_sniffed direction ?e1"
  have k: "ce_key ?e1 = ce_key e" "ce_key ?e2 = ce_key e" by (simp_all add: count_data_def mark_sniffed_def)
  have i: "conn_inv (l\<lparr>cl_store := map_set key x (cl_store l)\<rparr>)" if "ce_key x = ce_key e" for x
    by (rule put_entry_inv [OF assms(1) e that])
  have d: "conn_inv (l\<lparr>cl_store := map_set key x (cl_store l), cl_dirty := set_add key (cl_dirty l)\<rparr>)" if "ce_key x = ce_key e" for x
    using dirty_inv [OF i [OF that]] assms(2) by simp
  have f: "ce_key (?e2\<lparr>ce_detail := x\<rparr>) = ce_key e" for x using k by simp
  show ?thesis
    by (cases "sniff (ce_protocol ?e2) direction buf") (simp_all add: conn_data_def e Let_def i [OF k(1)] i [OF k(2)] i [OF f] d [OF f])
qed

lemma flush_inv: "conn_inv l \<Longrightarrow> conn_inv (flush_conns ok l)"
proof (cases ok)
  case False
  assume "conn_inv l"
  then show ?thesis using False by (auto simp: flush_conns_def Let_def conn_inv_def keyed_def)
next
  case True
  assume i: "conn_inv l"
  note f = flush_spec [OF i]
  have rows: "map_get (cl_store l) (cr_key r) \<noteq> None" if "r \<in> set (cl_rows (store_inserts l))" for r
    using store_inserts_rows [OF that] i by (auto simp: conn_inv_def keyed_def conn_row_of_def)
  have key: "cr_key (refresh_row l K r) = cr_key r" for K r by (simp add: refresh_row_def split: option.split)
  have "conn_inv (flush_conns True l)" using i rows unfolding conn_inv_def keyed_def f by (auto simp: key)
  then show ?thesis using True by simp
qed

lemma conn_reach_inv: "conn_reach l \<Longrightarrow> conn_inv l"
proof (induction rule: conn_reach.induct)
  case start
  then show ?case by (simp add: conn_inv_def keyed_def new_ConnectionLog_def)
next
  case (opened l key now tunnel protocol ip details client joiner)
  then show ?case by (auto simp: conn_inv_def keyed_def open_conn_def)
next
  case (flows l key direction buf)
  then show ?case by (intro conn_data_inv) auto
next
  case (closed l key now reason)
  obtain e where e: "map_get (cl_store l) key = Some e" using closed by (auto simp: conn_inv_def keyed_def)
  show ?case
    using dirty_inv [OF put_entry_inv [OF closed(3) e], of "e\<lparr>ce_endedAt := Some now, ce_reason := Some reason\<rparr>" key] closed(2) e
    by (simp add: close_conn_def)
next
  case (flushed l ok)
  then show ?case by (intro flush_inv)
qed

text \<open>
  A stored flush writes what happened: for every connection that changed since the last
  flush, every row of it then has the counters, the detection, the end and the reason of the
  entry; the entry is dropped from memory exactly when the connection has ended; a new
  connection that is still open has a row; and nothing is left waiting.
\<close>

theorem flush_stores_changes:
  assumes "conn_reach l" "k \<in> set (cl_dirty l)" "map_get (cl_store l) k = Some e"
  shows "(\<forall>r. r \<in> set (cl_rows (flush_conns True l)) \<and> cr_key r = k \<longrightarrow> stored_as r e) \<and>
    (k \<in> set (cl_live (flush_conns True l)) \<longleftrightarrow> ce_endedAt e = None) \<and>
    (k \<in> set (cl_inserts l) \<and> ce_endedAt e = None \<longrightarrow> (\<exists>r. r \<in> set (cl_rows (flush_conns True l)) \<and> cr_key r = k)) \<and>
    cl_dirty (flush_conns True l) = [] \<and> cl_inserts (flush_conns True l) = []"
proof -
  have i: "conn_inv l" by (rule conn_reach_inv [OF assms(1)])
  note f = flush_spec [OF i]
  let ?K = "set (cl_dirty l) - set (cl_inserts l)"
  have ke: "ce_key e = k" using i assms(3) by (auto simp: conn_inv_def keyed_def)
  have "stored_as r e" if r: "r \<in> set (cl_rows (flush_conns True l))" "cr_key r = k" for r
  proof -
    obtain r0 where r0: "r = refresh_row l ?K r0" "r0 \<in> set (cl_rows (store_inserts l))" using r(1) unfolding f by auto
    have k0: "cr_key r0 = k" using r(2) r0(1) by (auto simp: refresh_row_def split: if_splits option.splits)
    show ?thesis
    proof (cases "k \<in> set (cl_inserts l)")
      case True
      then have "r0 \<notin> set (cl_rows l)" using i k0 by (auto simp: conn_inv_def)
      then obtain k' e' j where e': "map_get (cl_store l) k' = Some e'" "r0 = conn_row_of j e'"
        using store_inserts_rows [OF r0(2)] by blast
      then have "k' = k" using i k0 by (auto simp: conn_inv_def keyed_def conn_row_of_def)
      then have "e' = e" using e'(1) assms(3) by simp
      then show ?thesis using r0(1) True k0 e'(2) by (simp add: refresh_row_def stored_as_def conn_row_of_def)
    next
      case False
      then have "r = update_row e r0" using r0(1) k0 assms(2,3) by (simp add: refresh_row_def)
      then show ?thesis using k0 ke by (simp add: update_row_def stored_as_def)
    qed
  qed
  moreover have "k \<in> set (cl_live (flush_conns True l)) \<longleftrightarrow> ce_endedAt e = None"
    using i assms(2,3) unfolding f by (auto simp: conn_inv_def ended_def)
  moreover have "\<exists>r. r \<in> set (cl_rows (flush_conns True l)) \<and> cr_key r = k" if "k \<in> set (cl_inserts l)" "ce_endedAt e = None"
  proof -
    have "e \<in> set (entries_of (cl_inserts l) l)" using that(1) assms(3) by (force simp: entries_of_def List.map_filter_def)
    then obtain j where "conn_row_of j e \<in> set (insert_rows (cl_next l) (entries_of (cl_inserts l) l))"
      using insert_rows_covers by blast
    then have "conn_row_of j e \<in> set (cl_rows (store_inserts l))"
      using that by (auto simp: store_inserts_def Let_def conn_row_of_def intro!: prune_conns_open)
    then have "refresh_row l ?K (conn_row_of j e) \<in> set (cl_rows (flush_conns True l))" unfolding f by simp
    moreover have "cr_key (refresh_row l ?K (conn_row_of j e)) = k"
      using ke by (simp add: refresh_row_def conn_row_of_def split: option.split)
    ultimately show ?thesis by blast
  qed
  ultimately show ?thesis using f(2,3) by blast
qed

definition sample_details :: ip_details where
  "sample_details = \<lparr>i_ip = ''10.0.0.1'', i_private = True, i_country = JNull, i_continent = JNull, i_eu = False, i_asn = JNull,
     i_org = JNull, i_tor = False, i_vpn = False, i_datacenter = False, i_blocklisted = False\<rparr>"

definition sample_open :: "string \<Rightarrow> string \<Rightarrow> conn_log \<Rightarrow> conn_log" where
  "sample_open key tunnel l = open_conn key 0 tunnel ''tcp'' ''10.0.0.1'' sample_details [] [] l"

definition sample_closed :: conn_log where
  "sample_closed = close_conn 5 ''k'' ''client closed'' (flush_conns True (sample_open ''k'' ''web'' new_ConnectionLog))"

theorem flush_stores_changes_witness:
  "list_all (\<lambda>r. cr_endedAt r = Some 5) (filter (\<lambda>r. cr_key r = ''k'') (cl_rows (flush_conns True sample_closed)))"
proof -
  have live: "''k'' \<in> set (cl_live (flush_conns True (sample_open ''k'' ''web'' new_ConnectionLog)))" by code_simp
  have "conn_reach (flush_conns True (sample_open ''k'' ''web'' new_ConnectionLog))"
    unfolding sample_open_def by (intro conn_reach.intros) (simp add: new_ConnectionLog_def)
  then have r: "conn_reach sample_closed" unfolding sample_closed_def using live by (rule conn_reach.closed)
  have d: "''k'' \<in> set (cl_dirty sample_closed)" by code_simp
  have e: "map_get (cl_store sample_closed) ''k'' = Some (the (map_get (cl_store sample_closed) ''k''))" by code_simp
  have "ce_endedAt (the (map_get (cl_store sample_closed) ''k'')) = Some 5" by code_simp
  then show ?thesis using flush_stores_changes [OF r d e] by (auto simp: stored_as_def list_all_iff)
qed

text \<open>Forgetting a tunnel leaves its keys in the dirty set. The next flush stops at the first of
  them, and the changes behind it are lost: here the end of the connection b of another tunnel,
  whose entry also stays in memory.\<close>

lemma forget_loses_other_changes:
  "let l1 = flush_conns True (sample_open ''b'' ''two'' (sample_open ''a'' ''one'' new_ConnectionLog));
       l2 = close_conn 9 ''b'' ''app closed'' (close_conn 8 ''a'' ''tunnel closed'' l1);
       l3 = flush_conns True (forget_conns ''one'' l2)
   in map cr_key (cl_rows l3) = [''b''] \<and> map cr_endedAt (cl_rows l3) = [None] \<and> cl_dirty l3 = [] \<and> cl_live l3 = [''b'']"
  by code_simp

subsection \<open>visitors.js\<close>

record visitor_entry =
  ve_tunnel :: string
  ve_ip :: string
  ve_requests :: nat
  ve_blocked :: nat
  ve_reason :: "string option"
  ve_firstSeen :: time
  ve_lastSeen :: time
  ve_intel :: ip_details

record visitor_row =
  vr_id :: nat
  vr_tunnel :: string
  vr_ip :: string
  vr_intel :: ip_details
  vr_requests :: nat
  vr_blocked :: nat
  vr_reason :: "string option"
  vr_firstSeen :: time
  vr_lastSeen :: time

record visitors =
  vs_pending :: "(string, visitor_entry) jsmap"
  vs_rows :: "visitor_row list"
  vs_next :: nat

definition VISITORS_LIMIT :: nat where
  "VISITORS_LIMIT = 500"

definition new_Visitors :: visitors where
  "new_Visitors = \<lparr>vs_pending = [], vs_rows = [], vs_next = 1\<rparr>"

definition visitor_key :: "string \<Rightarrow> string \<Rightarrow> string" where
  "visitor_key tunnel ip = tunnel @ [CHR 0x0A] @ ip"

definition touch :: "time \<Rightarrow> string \<Rightarrow> string \<Rightarrow> ip_details \<Rightarrow> visitors \<Rightarrow> visitor_entry" where
  "touch now tunnel ip details v =
     (case map_get (vs_pending v) (visitor_key tunnel ip) of
        Some e \<Rightarrow> e\<lparr>ve_intel := details, ve_lastSeen := now\<rparr>
      | None \<Rightarrow> \<lparr>ve_tunnel = tunnel, ve_ip = ip, ve_requests = 0, ve_blocked = 0, ve_reason = None, ve_firstSeen = now,
                 ve_lastSeen = now, ve_intel = details\<rparr>)"

definition put_visitor :: "string \<Rightarrow> string \<Rightarrow> visitor_entry \<Rightarrow> visitors \<Rightarrow> visitors" where
  "put_visitor tunnel ip e v = v\<lparr>vs_pending := map_set (visitor_key tunnel ip) e (vs_pending v)\<rparr>"

definition seen_visitor :: "time \<Rightarrow> string \<Rightarrow> string \<Rightarrow> ip_details \<Rightarrow> visitors \<Rightarrow> visitors" where
  "seen_visitor now tunnel ip details v =
     (let e = touch now tunnel ip details v in put_visitor tunnel ip (e\<lparr>ve_requests := ve_requests e + 1\<rparr>) v)"

definition blocked_visitor :: "time \<Rightarrow> string \<Rightarrow> string \<Rightarrow> ip_details \<Rightarrow> string \<Rightarrow> visitors \<Rightarrow> visitors" where
  "blocked_visitor now tunnel ip details reason v =
     (let e = touch now tunnel ip details v
      in put_visitor tunnel ip (e\<lparr>ve_blocked := ve_blocked e + 1, ve_reason := Some reason\<rparr>) v)"

definition same_visitor :: "visitor_entry \<Rightarrow> visitor_row \<Rightarrow> bool" where
  "same_visitor e r \<longleftrightarrow> vr_tunnel r = ve_tunnel e \<and> vr_ip r = ve_ip e"

definition flush_visitor :: "visitor_entry \<Rightarrow> visitors \<Rightarrow> visitors" where
  "flush_visitor e v =
     (case find (same_visitor e) (vs_rows v) of
        Some row \<Rightarrow>
          v\<lparr>vs_rows := map (\<lambda>r. if vr_id r = vr_id row
               then r\<lparr>vr_intel := ve_intel e, vr_requests := vr_requests row + ve_requests e, vr_blocked := vr_blocked row + ve_blocked e,
                      vr_reason := (if ve_reason e = None \<or> ve_reason e = Some [] then vr_reason row else ve_reason e), vr_lastSeen := ve_lastSeen e\<rparr>
               else r) (vs_rows v)\<rparr>
      | None \<Rightarrow>
          v\<lparr>vs_rows := vs_rows v @ [\<lparr>vr_id = vs_next v, vr_tunnel = ve_tunnel e, vr_ip = ve_ip e, vr_intel = ve_intel e,
               vr_requests = ve_requests e, vr_blocked = ve_blocked e, vr_reason = ve_reason e, vr_firstSeen = ve_firstSeen e,
               vr_lastSeen = ve_lastSeen e\<rparr>], vs_next := vs_next v + 1\<rparr>)"

definition prune_visitors :: "string \<Rightarrow> visitor_row list \<Rightarrow> visitor_row list" where
  "prune_visitors tunnel rows = prune_rows (\<lambda>r. vr_tunnel r = tunnel) vr_lastSeen VISITORS_LIMIT rows"

definition flush_visitors :: "visitors \<Rightarrow> visitors" where
  "flush_visitors v =
     (if vs_pending v = [] then v
      else let batch = map snd (vs_pending v);
               v1 = fold flush_visitor batch (v\<lparr>vs_pending := []\<rparr>)
           in v1\<lparr>vs_rows := fold prune_visitors (js_set (map ve_tunnel batch)) (vs_rows v1)\<rparr>)"

definition visitor_column :: "string \<Rightarrow> visitor_row \<Rightarrow> int list" where
  "visitor_column sortBy r =
     (if sortBy = ''first'' then [vr_firstSeen r]
      else if sortBy = ''requests'' then [int (vr_requests r)]
      else if sortBy = ''blocked'' then [int (vr_blocked r)]
      else if sortBy = ''ip'' then map (int \<circ> ord) (vr_ip r)
      else [vr_lastSeen r])"

definition list_visitors :: "string \<Rightarrow> string \<Rightarrow> string \<Rightarrow> int \<Rightarrow> int \<Rightarrow> visitors \<Rightarrow> visitors \<times> visitor_row list" where
  "list_visitors tunnel sortBy order offset lim v =
     (let v' = flush_visitors v;
          rows = order_rows (visitor_column sortBy) vr_id (order = ''asc'') (filter (\<lambda>r. vr_tunnel r = tunnel) (vs_rows v'))
      in (v', page offset lim (int VISITORS_LIMIT) rows))"

definition count_visitors :: "string \<Rightarrow> visitors \<Rightarrow> nat" where
  "count_visitors tunnel v = length (filter (\<lambda>r. vr_tunnel r = tunnel) (vs_rows v))"

definition forget_visitors :: "string \<Rightarrow> visitors \<Rightarrow> visitors" where
  "forget_visitors tunnel v =
     v\<lparr>vs_pending := filter (\<lambda>(_, e). ve_tunnel e \<noteq> tunnel) (vs_pending v),
       vs_rows := filter (\<lambda>r. vr_tunnel r \<noteq> tunnel) (vs_rows v)\<rparr>"

interpretation vp: pruned vr_tunnel VISITORS_LIMIT prune_visitors
  by unfold_locales (auto simp: prune_visitors_def prune_rows_bound prune_rows_filter_le prune_rows_keeps)

subsection \<open>The visitor table refines counting\<close>

definition row_requests :: "string \<Rightarrow> string \<Rightarrow> visitor_row list \<Rightarrow> nat" where
  "row_requests t ip rows = sum_list (map vr_requests (filter (\<lambda>r. vr_tunnel r = t \<and> vr_ip r = ip) rows))"

definition pending_requests :: "string \<Rightarrow> string \<Rightarrow> visitor_entry list \<Rightarrow> nat" where
  "pending_requests t ip es = sum_list (map ve_requests (filter (\<lambda>e. ve_tunnel e = t \<and> ve_ip e = ip) es))"

definition requests_of :: "string \<Rightarrow> string \<Rightarrow> visitors \<Rightarrow> nat" where
  "requests_of t ip v = row_requests t ip (vs_rows v) + pending_requests t ip (map snd (vs_pending v))"

definition rows_inv :: "visitors \<Rightarrow> bool" where
  "rows_inv v \<longleftrightarrow> distinct (map vr_id (vs_rows v)) \<and> (\<forall>r \<in> set (vs_rows v). vr_id r < vs_next v)"

definition vis_inv :: "visitors \<Rightarrow> bool" where
  "vis_inv v \<longleftrightarrow> rows_inv v \<and> wf_map (vs_pending v) \<and>
     (\<forall>k e. (k, e) \<in> set (vs_pending v) \<longrightarrow> k = visitor_key (ve_tunnel e) (ve_ip e) \<and> CHR 0x0A \<notin> set (ve_tunnel e))"

text \<open>The key of a visitor determines the visitor, since tunnel names have no line break.\<close>

lemma visitor_key_inj:
  assumes "visitor_key t ip = visitor_key t' ip'" "CHR 0x0A \<notin> set t" "CHR 0x0A \<notin> set t'"
  shows "t = t' \<and> ip = ip'"
proof -
  have "takeWhile (\<lambda>c. c \<noteq> CHR 0x0A) (visitor_key u p) = u" if "CHR 0x0A \<notin> set u" for u p
    using that by (auto simp: visitor_key_def takeWhile_append)
  with assms have "t = t'" by metis
  then show ?thesis using assms(1) by (simp add: visitor_key_def)
qed

lemma row_requests_update:
  assumes "distinct (map vr_id rows)" "row \<in> set rows"
    "\<And>r. vr_tunnel (f r) = vr_tunnel r \<and> vr_ip (f r) = vr_ip r \<and> vr_id (f r) = vr_id r" "vr_requests (f row) = vr_requests row + n"
  shows "row_requests t ip (map (\<lambda>r. if vr_id r = vr_id row then f r else r) rows) =
    row_requests t ip rows + (if vr_tunnel row = t \<and> vr_ip row = ip then n else 0)"
  using assms(1,2)
proof (induction rows)
  case (Cons a rows)
  show ?case
  proof (cases "a = row")
    case True
    then have "vr_id r \<noteq> vr_id row" if "r \<in> set rows" for r using Cons.prems(1) that by (metis distinct.simps(2) image_eqI list.set_map list.simps(9))
    then have "map (\<lambda>r. if vr_id r = vr_id row then f r else r) rows = rows" by (simp add: map_idI)
    then show ?thesis using True assms(3,4) by (simp add: row_requests_def)
  next
    case False
    then have "row \<in> set rows" using Cons.prems(2) by simp
    moreover from this have "vr_id a \<noteq> vr_id row" using Cons.prems(1) by auto
    ultimately show ?thesis using Cons.IH Cons.prems(1) assms(3) by (simp add: row_requests_def)
  qed
qed simp

lemma map_keeps_ids:
  "(\<And>r. vr_id (f r) = vr_id r) \<Longrightarrow> map vr_id (map (\<lambda>r. if vr_id r = i then f r else r) rows) = map vr_id rows"
  by (induction rows) auto

lemma flush_visitor_spec:
  assumes "rows_inv v"
  shows "rows_inv (flush_visitor e v) \<and> vs_pending (flush_visitor e v) = vs_pending v \<and>
    length (vs_rows (flush_visitor e v)) \<le> Suc (length (vs_rows v)) \<and>
    row_requests t ip (vs_rows (flush_visitor e v)) =
      row_requests t ip (vs_rows v) + (if ve_tunnel e = t \<and> ve_ip e = ip then ve_requests e else 0)"
proof (cases "find (same_visitor e) (vs_rows v)")
  case None
  then show ?thesis using assms
    by (auto simp: flush_visitor_def rows_inv_def row_requests_def less_SucI)
next
  case (Some row)
  let ?f = "\<lambda>r. r\<lparr>vr_intel := ve_intel e, vr_requests := vr_requests row + ve_requests e, vr_blocked := vr_blocked row + ve_blocked e,
     vr_reason := (if ve_reason e = None \<or> ve_reason e = Some [] then vr_reason row else ve_reason e), vr_lastSeen := ve_lastSeen e\<rparr>"
  have r: "row \<in> set (vs_rows v)" "same_visitor e row" using Some by (auto simp: find_Some_iff)
  have d: "distinct (map vr_id (vs_rows v))" using assms by (simp add: rows_inv_def)
  have eq: "flush_visitor e v = v\<lparr>vs_rows := map (\<lambda>r. if vr_id r = vr_id row then ?f r else r) (vs_rows v)\<rparr>"
    using Some by (simp add: flush_visitor_def)
  have "row_requests t ip (map (\<lambda>r. if vr_id r = vr_id row then ?f r else r) (vs_rows v)) =
    row_requests t ip (vs_rows v) + (if vr_tunnel row = t \<and> vr_ip row = ip then ve_requests e else 0)"
    by (rule row_requests_update [OF d r(1)]) simp_all
  moreover have "rows_inv (flush_visitor e v)"
    unfolding eq rows_inv_def using assms d map_keeps_ids [of ?f "vr_id row" "vs_rows v"]
    by (auto simp: rows_inv_def simp del: map_map)
  ultimately show ?thesis using r(2) unfolding eq by (simp add: same_visitor_def)
qed

lemma flush_batch_spec:
  "rows_inv v \<Longrightarrow> rows_inv (fold flush_visitor es v) \<and> vs_pending (fold flush_visitor es v) = vs_pending v \<and>
     length (vs_rows (fold flush_visitor es v)) \<le> length (vs_rows v) + length es \<and>
     row_requests t ip (vs_rows (fold flush_visitor es v)) = row_requests t ip (vs_rows v) + pending_requests t ip es"
proof (induction es arbitrary: v)
  case (Cons e es)
  note f = flush_visitor_spec [OF Cons.prems, of e t ip]
  then show ?case using Cons.IH [of "flush_visitor e v"] by (auto simp: pending_requests_def)
qed (simp add: pending_requests_def)

lemma prune_visitors_small: "length rows \<le> VISITORS_LIMIT \<Longrightarrow> fold prune_visitors gs rows = rows"
proof (induction gs)
  case (Cons g gs)
  have "length (filter (\<lambda>r. vr_tunnel r = g) rows) \<le> VISITORS_LIMIT" using Cons.prems length_filter_le order_trans by blast
  then show ?case using Cons by (simp add: prune_visitors_def prune_rows_small)
qed simp

lemma flush_visitors_spec:
  assumes "vis_inv v" "length (vs_rows v) + length (vs_pending v) \<le> VISITORS_LIMIT"
  shows "vis_inv (flush_visitors v) \<and> requests_of t ip (flush_visitors v) = requests_of t ip v \<and>
    length (vs_rows (flush_visitors v)) + length (vs_pending (flush_visitors v)) \<le> length (vs_rows v) + length (vs_pending v)"
proof (cases "vs_pending v = []")
  case True
  then show ?thesis using assms(1) by (simp add: flush_visitors_def)
next
  case False
  let ?v = "v\<lparr>vs_pending := []\<rparr>"
  have i: "rows_inv ?v" using assms(1) by (simp add: vis_inv_def rows_inv_def)
  note f = flush_batch_spec [OF i, of "map snd (vs_pending v)" t ip]
  have "flush_visitors v = fold flush_visitor (map snd (vs_pending v)) ?v"
    using False f assms(2) by (simp add: flush_visitors_def Let_def prune_visitors_small)
  then show ?thesis using f by (simp add: requests_of_def vis_inv_def pending_requests_def [of t ip "[]"])
qed

lemma pending_requests_set:
  assumes "wf_map m" "\<And>e. (k, e) \<in> set m \<Longrightarrow> ve_tunnel e = ve_tunnel e' \<and> ve_ip e = ve_ip e'"
    "ve_requests e' = (case map_get m k of None \<Rightarrow> 0 | Some e \<Rightarrow> ve_requests e) + n"
  shows "pending_requests t ip (map snd (map_set k e' m)) =
    pending_requests t ip (map snd m) + (if ve_tunnel e' = t \<and> ve_ip e' = ip then n else 0)"
  using assms
proof (induction m)
  case (Cons p m)
  obtain a b where p: "p = (a, b)" by (cases p)
  show ?case
  proof (cases "a = k")
    case True
    then have "ve_tunnel b = ve_tunnel e'" "ve_ip b = ve_ip e'" "ve_requests e' = ve_requests b + n"
      using Cons.prems(2) [of b] Cons.prems(3) p by simp_all
    then show ?thesis using True p by (simp add: pending_requests_def)
  next
    case False
    have "pending_requests t ip (map snd (map_set k e' m)) =
        pending_requests t ip (map snd m) + (if ve_tunnel e' = t \<and> ve_ip e' = ip then n else 0)"
      by (rule Cons.IH) (use Cons.prems p False in auto)
    then show ?thesis using False p by (simp add: pending_requests_def)
  qed
qed (simp add: pending_requests_def)

lemma pending_visitor:
  assumes "vis_inv v" "CHR 0x0A \<notin> set tunnel" "(visitor_key tunnel ip, e) \<in> set (vs_pending v)"
  shows "ve_tunnel e = tunnel \<and> ve_ip e = ip"
proof -
  have "visitor_key tunnel ip = visitor_key (ve_tunnel e) (ve_ip e)" "CHR 0x0A \<notin> set (ve_tunnel e)"
    using assms(1,3) unfolding vis_inv_def by blast+
  from visitor_key_inj [OF this(1) assms(2) this(2)] show ?thesis by simp
qed

lemma put_visitor_spec:
  assumes "vis_inv v" "CHR 0x0A \<notin> set tunnel" "ve_tunnel e' = tunnel" "ve_ip e' = ip'"
    "ve_requests e' = (case map_get (vs_pending v) (visitor_key tunnel ip') of None \<Rightarrow> 0 | Some e \<Rightarrow> ve_requests e) + n"
  shows "vis_inv (put_visitor tunnel ip' e' v) \<and>
    requests_of t ip (put_visitor tunnel ip' e' v) = requests_of t ip v + (if tunnel = t \<and> ip' = ip then n else 0) \<and>
    length (vs_pending (put_visitor tunnel ip' e' v)) \<le> Suc (length (vs_pending v)) \<and> vs_rows (put_visitor tunnel ip' e' v) = vs_rows v"
proof -
  let ?k = "visitor_key tunnel ip'"
  have "pending_requests t ip (map snd (map_set ?k e' (vs_pending v))) =
      pending_requests t ip (map snd (vs_pending v)) + (if ve_tunnel e' = t \<and> ve_ip e' = ip then n else 0)"
  proof (rule pending_requests_set)
    show "wf_map (vs_pending v)" using assms(1) by (simp add: vis_inv_def)
    show "ve_tunnel e = ve_tunnel e' \<and> ve_ip e = ve_ip e'" if "(?k, e) \<in> set (vs_pending v)" for e
      using pending_visitor [OF assms(1,2) that] assms(3,4) by simp
  qed (rule assms(5))
  moreover have "vis_inv (put_visitor tunnel ip' e' v)"
    unfolding vis_inv_def
  proof (intro conjI allI impI)
    show "rows_inv (put_visitor tunnel ip' e' v)" "wf_map (vs_pending (put_visitor tunnel ip' e' v))"
      using assms(1) by (auto simp: vis_inv_def put_visitor_def rows_inv_def)
    fix k e assume "(k, e) \<in> set (vs_pending (put_visitor tunnel ip' e' v))"
    then consider "k = ?k" "e = e'" | "(k, e) \<in> set (vs_pending v)"
      using set_map_set_subset [of ?k e' "vs_pending v"] unfolding put_visitor_def by auto
    then show "k = visitor_key (ve_tunnel e) (ve_ip e)" "CHR 0x0A \<notin> set (ve_tunnel e)"
      using assms unfolding vis_inv_def by (cases; blast)+
  qed
  ultimately show ?thesis using assms(3,4) length_map_set_le by (auto simp: requests_of_def put_visitor_def)
qed

lemma touch_fields:
  assumes "vis_inv v" "CHR 0x0A \<notin> set tunnel"
  shows "ve_tunnel (touch now tunnel ip d v) = tunnel \<and> ve_ip (touch now tunnel ip d v) = ip \<and>
    ve_requests (touch now tunnel ip d v) = (case map_get (vs_pending v) (visitor_key tunnel ip) of None \<Rightarrow> 0 | Some e \<Rightarrow> ve_requests e)"
proof (cases "map_get (vs_pending v) (visitor_key tunnel ip)")
  case None
  then show ?thesis by (simp add: touch_def)
next
  case (Some e)
  have "ve_tunnel e = tunnel \<and> ve_ip e = ip" by (rule pending_visitor [OF assms map_of_SomeD [OF Some]])
  then show ?thesis unfolding touch_def Some by simp
qed

datatype visit = Seen time string string ip_details | Blocked_visit time string string ip_details string | Flush

fun visit_step :: "visit \<Rightarrow> visitors \<Rightarrow> visitors" where
  "visit_step (Seen now t ip d) v = seen_visitor now t ip d v"
| "visit_step (Blocked_visit now t ip d reason) v = blocked_visitor now t ip d reason v"
| "visit_step Flush v = flush_visitors v"

fun is_seen :: "string \<Rightarrow> string \<Rightarrow> visit \<Rightarrow> bool" where
  "is_seen t ip (Seen _ t' ip' _) = (t' = t \<and> ip' = ip)"
| "is_seen t ip _ = False"

fun visit_tunnel :: "visit \<Rightarrow> string" where
  "visit_tunnel (Seen _ t _ _) = t"
| "visit_tunnel (Blocked_visit _ t _ _ _) = t"
| "visit_tunnel Flush = []"

lemma visit_step_spec:
  assumes "vis_inv v" "CHR 0x0A \<notin> set (visit_tunnel op)" "length (vs_rows v) + length (vs_pending v) < VISITORS_LIMIT"
  shows "vis_inv (visit_step op v) \<and> requests_of t ip (visit_step op v) = requests_of t ip v + (if is_seen t ip op then 1 else 0) \<and>
    length (vs_rows (visit_step op v)) + length (vs_pending (visit_step op v)) \<le> Suc (length (vs_rows v) + length (vs_pending v))"
proof (cases op)
  case (Seen now t' ip' d)
  let ?e = "touch now t' ip' d v"
  have "vis_inv (put_visitor t' ip' (?e\<lparr>ve_requests := ve_requests ?e + 1\<rparr>) v) \<and>
    requests_of t ip (put_visitor t' ip' (?e\<lparr>ve_requests := ve_requests ?e + 1\<rparr>) v) = requests_of t ip v + (if t' = t \<and> ip' = ip then 1 else 0) \<and>
    length (vs_pending (put_visitor t' ip' (?e\<lparr>ve_requests := ve_requests ?e + 1\<rparr>) v)) \<le> Suc (length (vs_pending v)) \<and>
    vs_rows (put_visitor t' ip' (?e\<lparr>ve_requests := ve_requests ?e + 1\<rparr>) v) = vs_rows v"
    by (rule put_visitor_spec) (use assms Seen in \<open>simp_all add: touch_fields\<close>)
  then show ?thesis by (auto simp: Seen seen_visitor_def Let_def)
next
  case (Blocked_visit now t' ip' d reason)
  let ?e = "touch now t' ip' d v"
  let ?b = "?e\<lparr>ve_blocked := ve_blocked ?e + 1, ve_reason := Some reason\<rparr>"
  have "vis_inv (put_visitor t' ip' ?b v) \<and> requests_of t ip (put_visitor t' ip' ?b v) = requests_of t ip v + (if t' = t \<and> ip' = ip then 0 else 0) \<and>
    length (vs_pending (put_visitor t' ip' ?b v)) \<le> Suc (length (vs_pending v)) \<and> vs_rows (put_visitor t' ip' ?b v) = vs_rows v"
    by (rule put_visitor_spec) (use assms Blocked_visit in \<open>simp_all add: touch_fields\<close>)
  then show ?thesis by (auto simp: Blocked_visit blocked_visitor_def Let_def)
next
  case Flush
  then show ?thesis using flush_visitors_spec [OF assms(1), of t ip] assms(3) by auto
qed



end
