(* ===== verification/Proxy.thy ===== *)
theory Proxy
  imports Breakpoints Registry
begin

text \<open>
  The HTTP proxy (src/server/lib/proxy.js): what the server makes of a request's address, the
  headers it sends to the tunnelled application and back to the visitor, the rewriting of
  redirects and cookies, and the injection of a snippet into HTML, both streaming and on a
  whole body. A request is followed through proxyRequest in two halves: what is sent upstream,
  and what the answer of the application becomes.

  Header objects are insertion-ordered maps from names to one value or several. The WHATWG URL
  and query parsers, Date.parse and the decompressors are parameters.
\<close>

definition HOP_BY_HOP :: "string list" where
  "HOP_BY_HOP = [''connection'', ''keep-alive'', ''proxy-authenticate'', ''proxy-authorization'', ''proxy-connection'',
     ''te'', ''trailer'', ''transfer-encoding'', ''upgrade'']"

definition QUERY_PARAM :: string where
  "QUERY_PARAM = ''tunlit-tunnel''"

definition REPLAY_IP :: string where
  "REPLAY_IP = ''replay''"

definition LOCAL_HOSTS :: "string list" where
  "LOCAL_HOSTS = [''localhost'', ''127.0.0.1'', ''[::1]'', ''::1'', ''0.0.0.0'']"

text \<open>String(value) of a header: several values are joined with commas.\<close>

definition htext :: "hval \<Rightarrow> string" where
  "htext h = join '','' (hvals h)"

definition header :: "headers \<Rightarrow> string \<Rightarrow> string" where
  "header hs name = (case map_get hs name of None \<Rightarrow> [] | Some h \<Rightarrow> htext h)"

subsection \<open>Where a request wants to go\<close>

text \<open>A socket: whether it is encrypted, and the address of the peer.\<close>

record request_info =
  ri_host :: string
  ri_hostname :: string
  ri_proto :: string
  ri_secure :: bool
  ri_clientIp :: string

definition first_listed :: "string \<Rightarrow> string" where
  "first_listed s = trim (hd (split_on CHR '','' s))"

text \<open>The replacement of \<open>:\d+$\<close> by nothing.\<close>

definition strip_port :: "string \<Rightarrow> string" where
  "strip_port s =
     (let digits = rev (takeWhile is_digit (rev s)); front = take (length s - length digits) s
      in if digits \<noteq> [] \<and> front \<noteq> [] \<and> last front = CHR '':'' then butlast front else s)"

definition requestInfo :: "bool \<Rightarrow> bool \<Rightarrow> string \<Rightarrow> headers \<Rightarrow> request_info" where
  "requestInfo trust encrypted remoteAddress hs =
     (let forwarded = (\<lambda>name. if trust \<and> header hs name \<noteq> [] then first_listed (header hs name) else []);
          host = (if forwarded ''x-forwarded-host'' \<noteq> [] then forwarded ''x-forwarded-host'' else header hs ''host'');
          fproto = to_lower (forwarded ''x-forwarded-proto'');
          proto = (if fproto \<noteq> [] then fproto else if encrypted then ''https'' else ''http'');
          ip = (if forwarded ''x-forwarded-for'' \<noteq> [] then forwarded ''x-forwarded-for'' else remoteAddress)
      in \<lparr>ri_host = host, ri_hostname = to_lower (strip_port host), ri_proto = proto, ri_secure = (proto = ''https''), ri_clientIp = ip\<rparr>)"

datatype host_class = Base | Subdomain string | Unknown

definition classifyHost :: "string \<Rightarrow> string \<Rightarrow> host_class" where
  "classifyHost hostname baseDomain =
     (if hostname = baseDomain then Base
      else if ends_with (''.'' @ baseDomain) hostname
      then let label = take (length hostname - (length baseDomain + 1)) hostname
           in if label \<noteq> [] \<and> CHR ''.'' \<notin> set label then Subdomain label else Unknown
      else Unknown)"

text \<open>The query string as the list of its pairs; printing them is the parameter print_params.\<close>

definition stripQueryParam ::
  "(string \<Rightarrow> (string \<times> string) list) \<Rightarrow> ((string \<times> string) list \<Rightarrow> string) \<Rightarrow> string \<Rightarrow> string" where
  "stripQueryParam search_params print_params url =
     (case index_of ''?'' url of
        None \<Rightarrow> url
      | Some idx \<Rightarrow>
          let path = take idx url; params = search_params (drop (idx + 1) url)
          in if QUERY_PARAM \<notin> fst ` set params then url
             else let rest = print_params (filter (\<lambda>(n, _). n \<noteq> QUERY_PARAM) params)
                  in if rest \<noteq> [] then path @ ''?'' @ rest else path)"

subsection \<open>Headers\<close>

definition hostHeader :: "target \<Rightarrow> string" where
  "hostHeader t = (if tg_port t = 80 \<or> tg_port t = 443 then tg_host t else tg_authority t)"

text \<open>The copy of the visitor's x-forwarded-for is still among the headers when its
  replacement is chosen, so the condition of the source is true only when it is empty.\<close>

definition buildUpstreamHeaders :: "headers \<Rightarrow> request_info \<Rightarrow> tunnel \<Rightarrow> headers" where
  "buildUpstreamHeaders hs info t =
     (let h0 = filter (\<lambda>(name, _). name \<notin> set HOP_BY_HOP \<and> name \<noteq> ''host'') hs;
          h1 = map_set ''host'' (HOne (if tn_keepHost t then ri_host info else hostHeader (tn_target t))) h0;
          h2 = map_set ''x-forwarded-host'' (HOne (ri_host info)) h1;
          h3 = map_set ''x-forwarded-proto'' (HOne (ri_proto info)) h2;
          h4 = map_set ''x-forwarded-for'' (HOne (ri_clientIp info)) h3
      in if ri_clientIp info = [] then map_delete ''x-forwarded-for'' h4 else h4)"

definition appendCookie :: "headers \<Rightarrow> string \<Rightarrow> headers" where
  "appendCookie hs cookie =
     (let name = (case find (\<lambda>k. to_lower k = ''set-cookie'') (map fst hs) of None \<Rightarrow> ''set-cookie'' | Some k \<Rightarrow> k)
      in map_set name (HMany (case map_get hs name of
                                None \<Rightarrow> [cookie]
                              | Some (HMany vs) \<Rightarrow> vs @ [cookie]
                              | Some (HOne v) \<Rightarrow> if v = [] then [cookie] else [v, cookie])) hs)"

text \<open>The match of \<open>^(.*):(\d+)$\<close>.\<close>

definition host_port :: "string \<Rightarrow> (string \<times> string) option" where
  "host_port s =
     (let digits = rev (takeWhile is_digit (rev s)); front = take (length s - length digits) s
      in if digits \<noteq> [] \<and> front \<noteq> [] \<and> last front = CHR '':'' then Some (butlast front, digits) else None)"

definition sameAuthority :: "string \<Rightarrow> string \<Rightarrow> bool" where
  "sameAuthority a b \<longleftrightarrow>
     a = b \<or>
     (case (host_port a, host_port b) of
        (Some (ha, pa), Some (hb, pb)) \<Rightarrow> pa = pb \<and> to_lower ha \<in> set LOCAL_HOSTS \<and> to_lower hb \<in> set LOCAL_HOSTS
      | _ \<Rightarrow> False)"

record url =
  url_protocol :: string
  url_hostname :: string
  url_port :: string
  url_host :: string
  url_pathname :: string
  url_search :: string
  url_hash :: string

definition authorityOf :: "url \<Rightarrow> string" where
  "authorityOf u =
     (if url_port u \<noteq> [] then url_host u
      else url_hostname u @ '':'' @ (if url_protocol u = ''https:'' then ''443'' else ''80''))"

definition rewriteLocation :: "(string \<Rightarrow> string \<Rightarrow> url option) \<Rightarrow> string \<Rightarrow> tunnel \<Rightarrow> request_info \<Rightarrow> bool \<Rightarrow> string" where
  "rewriteLocation parse_url location t info pathMode =
     (case parse_url location (''http://'' @ tg_authority (tn_target t) @ ''/'') of
        None \<Rightarrow> location
      | Some u \<Rightarrow>
          if url_protocol u \<noteq> ''http:'' \<and> url_protocol u \<noteq> ''https:'' then location
          else if \<not> sameAuthority (authorityOf u) (tg_authority (tn_target t)) then location
          else let rest = url_pathname u @ url_search u @ url_hash u
               in if pathMode then rest else ri_proto info @ ''://'' @ ri_host info @ rest)"

definition cookie_key :: "string \<Rightarrow> string" where
  "cookie_key attr = to_lower (trim (hd (split_on CHR ''='' attr)))"

definition cookie_value :: "string \<Rightarrow> string" where
  "cookie_value attr = join ''='' (tl (split_on CHR ''='' attr))"

definition keep_attr :: "(string \<Rightarrow> time option) \<Rightarrow> time \<Rightarrow> string \<Rightarrow> bool" where
  "keep_attr parse_date now attr \<longleftrightarrow>
     cookie_key attr \<noteq> ''domain'' \<and>
     \<not> (cookie_key attr = ''expires'' \<and> (case parse_date (cookie_value attr) of None \<Rightarrow> False | Some d \<Rightarrow> d \<ge> now))"

definition rewriteSetCookie :: "(string \<Rightarrow> time option) \<Rightarrow> time \<Rightarrow> string \<Rightarrow> string" where
  "rewriteSetCookie parse_date now value =
     (case filter (\<lambda>p. p \<noteq> []) (map trim (split_on CHR '';'' value)) of
        [] \<Rightarrow> value
      | first # attrs \<Rightarrow> join ''; '' (first # filter (keep_attr parse_date now) attrs))"

definition push_header :: "string \<Rightarrow> string \<Rightarrow> headers \<Rightarrow> headers" where
  "push_header name v hs =
     (case map_get hs name of
        None \<Rightarrow> map_set name (HOne v) hs
      | Some (HMany vs) \<Rightarrow> map_set name (HMany (vs @ [v])) hs
      | Some (HOne w) \<Rightarrow> map_set name (HMany [w, v]) hs)"

definition downstream_value ::
  "(string \<Rightarrow> string \<Rightarrow> url option) \<Rightarrow> (string \<Rightarrow> time option) \<Rightarrow> time \<Rightarrow> tunnel \<Rightarrow> request_info \<Rightarrow> bool \<Rightarrow> string \<Rightarrow> string \<Rightarrow> string" where
  "downstream_value parse_url parse_date now t info pathMode name value =
     (let v = (if to_lower name = ''location'' then rewriteLocation parse_url value t info pathMode else value)
      in if to_lower name = ''set-cookie'' \<and> pathMode then rewriteSetCookie parse_date now v else v)"

definition buildDownstreamHeaders ::
  "(string \<Rightarrow> string \<Rightarrow> url option) \<Rightarrow> (string \<Rightarrow> time option) \<Rightarrow> time \<Rightarrow> (string \<times> string) list \<Rightarrow> tunnel \<Rightarrow> request_info \<Rightarrow> bool \<Rightarrow> headers" where
  "buildDownstreamHeaders parse_url parse_date now raw t info pathMode =
     fold (\<lambda>(name, value) hs. if to_lower name \<in> set HOP_BY_HOP then hs
             else push_header name (downstream_value parse_url parse_date now t info pathMode name value) hs) raw []"

definition headersFromPairs :: "(string \<times> string) list \<Rightarrow> headers" where
  "headersFromPairs pairs = fold (\<lambda>(name, value). push_header (to_lower name) value) pairs []"

subsection \<open>Injecting a snippet\<close>

definition HEAD_END_TAG :: string where
  "HEAD_END_TAG = ''</head>''"

definition tag_index :: "bytes \<Rightarrow> nat option" where
  "tag_index body = index_of HEAD_END_TAG (to_lower (latin1 body))"

definition injectInto :: "bytes \<Rightarrow> bytes \<Rightarrow> bytes" where
  "injectInto body snippet =
     (case tag_index body of
        None \<Rightarrow> body @ snippet
      | Some i \<Rightarrow> take i body @ snippet @ drop i body)"

record injector =
  in_carry :: bytes
  in_done :: bool

definition new_InjectTransform :: injector where
  "new_InjectTransform = \<lparr>in_carry = [], in_done = False\<rparr>"

definition inject_transform :: "bytes \<Rightarrow> bytes \<Rightarrow> injector \<Rightarrow> injector \<times> bytes" where
  "inject_transform snippet chunk s =
     (if in_done s then (s, chunk)
      else let buf = in_carry s @ chunk
           in case tag_index buf of
                Some i \<Rightarrow> (\<lparr>in_carry = [], in_done = True\<rparr>, take i buf @ snippet @ drop i buf)
              | None \<Rightarrow>
                  let keep = min 6 (length buf)
                  in (s\<lparr>in_carry := drop (length buf - keep) buf\<rparr>, take (length buf - keep) buf))"

definition inject_flush :: "bytes \<Rightarrow> injector \<Rightarrow> bytes" where
  "inject_flush snippet s = (if in_done s then in_carry s else in_carry s @ snippet)"

fun inject_stream :: "bytes \<Rightarrow> bytes list \<Rightarrow> injector \<Rightarrow> bytes" where
  "inject_stream snippet [] s = inject_flush snippet s"
| "inject_stream snippet (c # cs) s =
     (case inject_transform snippet c s of (s', out) \<Rightarrow> out @ inject_stream snippet cs s')"

subsection \<open>Streaming injection is injection\<close>

definition low :: "bytes \<Rightarrow> string" where
  "low b = to_lower (latin1 b)"

lemma low_append: "low (a @ b) = low a @ low b"
  by (simp add: low_def latin1_def to_lower_def)

lemma length_low [simp]: "length (low b) = length b"
  by (simp add: low_def to_lower_def)

lemma index_of_None_iff:
  "p \<noteq> [] \<Longrightarrow> index_of p s = None \<longleftrightarrow> (\<forall>i < length s. \<not> starts_with p (drop i s))"
proof (induction s)
  case (Cons x s)
  have "(\<forall>i < length (x # s). \<not> starts_with p (drop i (x # s))) \<longleftrightarrow>
      \<not> starts_with p (x # s) \<and> (\<forall>i < length s. \<not> starts_with p (drop i s))"
    by (auto simp: less_Suc_eq_0_disj)
  then show ?case using Cons by simp
qed simp

lemma index_of_shift:
  "\<forall>i < length a. \<not> starts_with p (drop i (a @ s)) \<Longrightarrow> index_of p (a @ s) = map_option ((+) (length a)) (index_of p s)"
proof (induction a)
  case Nil
  then show ?case by (cases "index_of p s") simp_all
next
  case (Cons x a)
  have "\<forall>i < length a. \<not> starts_with p (drop i (a @ s))" using Cons.prems by auto
  moreover have "\<not> starts_with p (x # a @ s)" using Cons.prems by force
  ultimately show ?case using Cons.IH by (cases "index_of p s") simp_all
qed

lemma starts_with_prefix: "starts_with p (a @ b) \<Longrightarrow> length p \<le> length a \<Longrightarrow> starts_with p a"
  by (simp add: starts_with_def)

lemma index_of_extend: "index_of p s = Some i \<Longrightarrow> index_of p (s @ t) = Some i"
proof (induction s arbitrary: i)
  case Nil
  then show ?case by (cases t) (auto simp: starts_with_def split: if_splits)
next
  case (Cons x s)
  show ?case
  proof (cases "starts_with p (x # s)")
    case True
    then have "starts_with p ((x # s) @ t)" unfolding starts_with_iff by (rule prefix_prefix)
    then show ?thesis using True Cons.prems by simp
  next
    case False
    then obtain j where j: "index_of p s = Some j" "i = Suc j" using Cons.prems by auto
    have "length p \<le> length (x # s)" using index_of_Some [OF j(1)] by simp
    then have "\<not> starts_with p (x # s @ t)" using False starts_with_prefix [of p "x # s" t] by auto
    then show ?thesis using Cons.IH [OF j(1)] j(2) by simp
  qed
qed

text \<open>A tag that starts before the carried bytes would lie within what was searched before.\<close>

lemma tag_index_carry:
  assumes "tag_index (p @ c) = None" "p = [] \<or> length c = 6"
  shows "tag_index (p @ c @ x) = map_option ((+) (length p)) (tag_index (c @ x))"
proof -
  have n: "\<not> starts_with HEAD_END_TAG (drop i (low p @ low c))" if "i < length (p @ c)" for i
    using assms(1) index_of_None_iff [of HEAD_END_TAG "low (p @ c)"] that
    by (simp add: tag_index_def low_def [symmetric] low_append HEAD_END_TAG_def)
  have "\<forall>i < length (low p). \<not> starts_with HEAD_END_TAG (drop i (low p @ low c @ low x))"
  proof (intro allI impI notI)
    fix i assume i: "i < length (low p)" and s: "starts_with HEAD_END_TAG (drop i (low p @ low c @ low x))"
    have l: "length c = 6" using assms(2) i by auto
    have "drop i (low p @ low c @ low x) = drop i (low p @ low c) @ low x" using i by simp
    moreover have "length HEAD_END_TAG \<le> length (drop i (low p @ low c))" using i l by (simp add: HEAD_END_TAG_def)
    ultimately have "starts_with HEAD_END_TAG (drop i (low p @ low c))" using s starts_with_prefix by metis
    then show False using n [of i] i by simp
  qed
  from index_of_shift [OF this] show ?thesis by (simp add: tag_index_def low_def [symmetric] low_append)
qed

lemma inject_done: "inject_stream snippet cs \<lparr>in_carry = [], in_done = True\<rparr> = concat cs"
  by (induction cs) (simp_all add: inject_flush_def inject_transform_def)

lemma inject_stream_from:
  assumes "tag_index (p @ c) = None" "p = [] \<or> length c = 6"
  shows "p @ inject_stream snippet cs \<lparr>in_carry = c, in_done = False\<rparr> = injectInto (p @ c @ concat cs) snippet"
  using assms
proof (induction cs arbitrary: p c)
  case Nil
  then show ?case by (simp add: inject_flush_def injectInto_def)
next
  case (Cons x cs)
  note shift = tag_index_carry [OF Cons.prems]
  show ?case
  proof (cases "tag_index (c @ x)")
    case (Some i)
    have "i < length (low (c @ x))" using Some by (auto simp: tag_index_def low_def HEAD_END_TAG_def dest!: index_of_Some)
    then have i: "i \<le> length (c @ x)" by simp
    have t: "tag_index (p @ c @ x) = Some (length p + i)" using shift Some by simp
    have "tag_index ((p @ c @ x) @ concat cs) = Some (length p + i)"
      using t index_of_extend [of HEAD_END_TAG "low (p @ c @ x)" "length p + i" "low (concat cs)"]
      by (simp add: tag_index_def low_def [symmetric] low_append)
    then show ?thesis using Some i by (simp add: inject_transform_def injectInto_def inject_done)
  next
    case None
    let ?b = "c @ x"
    define k where "k = length ?b - min 6 (length ?b)"
    define out where "out = take k ?b"
    define car where "car = drop k ?b"
    have oc: "out @ car = c @ x" by (simp only: out_def car_def append_take_drop_id)
    have step: "inject_transform snippet x \<lparr>in_carry = c, in_done = False\<rparr> = (\<lparr>in_carry = car, in_done = False\<rparr>, out)"
      using None by (simp add: inject_transform_def Let_def out_def car_def k_def)
    have t: "tag_index ((p @ out) @ car) = None" using shift [of x] None oc by simp
    have "length car = min 6 (length ?b)" by (simp add: car_def k_def)
    then have l: "p @ out = [] \<or> length car = 6" using Cons.prems(2) oc by (cases "6 \<le> length ?b") (auto simp: out_def k_def)
    have ih: "(p @ out) @ inject_stream snippet cs \<lparr>in_carry = car, in_done = False\<rparr> = injectInto ((p @ out) @ car @ concat cs) snippet"
      by (rule Cons.IH [OF t l])
    have "(p @ out) @ car @ concat cs = p @ (out @ car) @ concat cs" by (simp only: append_assoc)
    also have "\<dots> = p @ c @ concat (x # cs)" unfolding oc by simp
    finally have whole: "(p @ out) @ car @ concat cs = p @ c @ concat (x # cs)" .
    show ?thesis using step ih unfolding whole by simp
  qed
qed

lemma inject_stream_eq: "inject_stream snippet cs new_InjectTransform = injectInto (concat cs) snippet"
  using inject_stream_from [of "[]" "[]" snippet cs]
  by (simp add: new_InjectTransform_def tag_index_def latin1_def to_lower_def HEAD_END_TAG_def)

text \<open>
  C20. Injecting a snippet into a page while it streams by does exactly what injecting it into
  the whole page does, however the page is cut into chunks: the snippet goes in front of the
  first closing head tag, even one that is split between chunks, or to the end.
\<close>

theorem inject_stream_whole:
  "inject_stream snippet cs new_InjectTransform = injectInto (concat cs) snippet"
  by (rule inject_stream_eq)

end
