(* ===== verification/ProxyFlow.thy ===== *)
theory ProxyFlow
  imports Proxy Traffic
begin

text \<open>
  A request on its way through proxyRequest, replayRequest and proxyUpgrade
  (src/server/lib/proxy.js): what is sent to the application, what the visitor gets back, and
  what the traffic log hears of it. The body of a request or response is the list of chunks the
  stream delivers, with a flag for a stream that breaks; the decision on a held request is an
  argument; a decompressor is a function from an encoding and a body to the decoded body, if
  there is one.
\<close>

definition HOLD_LIMIT :: nat where
  "HOLD_LIMIT = 8 * 1024 * 1024"

datatype collected = Overflow "bytes list" "bytes list" | Body bytes

text \<open>Chunks are gathered until they exceed the limit; the rest stays in the paused stream.\<close>

fun collect_from :: "nat \<Rightarrow> bytes list \<Rightarrow> bytes list \<Rightarrow> collected" where
  "collect_from lim acc [] = Body (concat acc)"
| "collect_from lim acc (c # cs) =
     (let acc' = acc @ [c]
      in if length (concat acc') > lim then Overflow acc' cs else collect_from lim acc' cs)"

definition collect :: "nat \<Rightarrow> bytes list \<Rightarrow> collected" where
  "collect lim cs = collect_from lim [] cs"

definition encoding_name :: "string \<Rightarrow> string" where
  "encoding_name e = to_lower (trim e)"

definition compressions :: "string list" where
  "compressions = [''gzip'', ''x-gzip'', ''deflate'', ''br'', ''zstd'']"

definition decodeBody :: "(string \<Rightarrow> bytes \<Rightarrow> bytes option) \<Rightarrow> string \<Rightarrow> bytes \<Rightarrow> bytes option" where
  "decodeBody unzip encoding body =
     (let e = encoding_name encoding
      in if e \<in> set compressions then unzip e body
         else if e = [] \<or> e = ''identity'' then Some body else None)"

datatype decoder = Identity | Decompress string

definition decoderFor :: "bool \<Rightarrow> string \<Rightarrow> decoder option" where
  "decoderFor hasZstd encoding =
     (let e = encoding_name encoding
      in if e = ''zstd'' then (if hasZstd then Some (Decompress e) else None)
         else if e \<in> set compressions then Some (Decompress e)
         else if e = [] \<or> e = ''identity'' then Some Identity else None)"

definition captureOf :: "(string \<times> string) list \<Rightarrow> bytes \<Rightarrow> captured" where
  "captureOf hs body =
     \<lparr>cp_headers = hs, cp_body = (if body \<noteq> [] then Some body else None), cp_bytes = length body, cp_truncated = False\<rparr>"

definition tap_capture :: "(string \<times> string) list \<Rightarrow> bytes list \<Rightarrow> captured" where
  "tap_capture hs cs =
     (let r = tap_result_of (fst (tap_run cs (new_Tap MAX_BODY)))
      in \<lparr>cp_headers = hs, cp_body = r_body r, cp_bytes = r_bytes r, cp_truncated = r_truncated r\<rparr>)"

record shape =
  sh_time :: time
  sh_method :: string
  sh_path :: string
  sh_headers :: "(string \<times> string) list"

text \<open>The entry observe hands to onRequest, once per request.\<close>

definition observe :: "shape \<Rightarrow> request_info \<Rightarrow> time \<Rightarrow> nat \<Rightarrow> captured \<Rightarrow> captured option \<Rightarrow> traffic_entry" where
  "observe sh info now status request response =
     \<lparr>te_time = sh_time sh, te_duration = nat (now - sh_time sh), te_kind = Some ''http'', te_connection = None, te_intel = None,
      te_method = Some (sh_method sh), te_path = Some (sh_path sh), te_status = Some status, te_ip = Some (ri_clientIp info),
      te_host = Some (ri_host info), te_request = Some (request\<lparr>cp_headers := sh_headers sh\<rparr>), te_response = response\<rparr>"

text \<open>The done flag of observe: the first call is logged, later ones are not.\<close>

definition observe_once :: "traffic_entry \<Rightarrow> bool \<times> traffic_entry list \<Rightarrow> bool \<times> traffic_entry list" where
  "observe_once e s = (if fst s then s else (True, snd s @ [e]))"

datatype decision = Cancel | Drop | GoRequest string string "(string \<times> string) list" bytes
  | GoResponse nat "(string \<times> string) list" bytes

record http_reply =
  hr_status :: nat
  hr_headers :: headers
  hr_body :: bytes

definition plain_reply :: "nat \<Rightarrow> string \<Rightarrow> http_reply" where
  "plain_reply status message =
     \<lparr>hr_status = status, hr_headers = [(''Content-Type'', HOne ''text/plain'')], hr_body = to_buf message\<rparr>"

subsection \<open>Towards the application\<close>

text \<open>The body is streamed from the visitor unless the request was held.\<close>

record upstream_request =
  up_method :: string
  up_path :: string
  up_headers :: headers
  up_body :: "bytes option"

datatype sent = Destroyed | Cancelled | Answered http_reply "traffic_entry list" | Forwarded upstream_request shape

definition contains_ci :: "string \<Rightarrow> string \<Rightarrow> bool" where
  "contains_ci p s \<longleftrightarrow> index_of p (to_lower s) \<noteq> None"

definition wantsHtml :: "bool \<Rightarrow> headers \<Rightarrow> bool" where
  "wantsHtml pathMode incoming \<longleftrightarrow>
     pathMode \<and> (contains_ci ''text/html'' (header incoming ''accept'') \<or> header incoming ''sec-fetch-dest'' = ''document'')"

definition upstream_headers :: "headers \<Rightarrow> request_info \<Rightarrow> tunnel \<Rightarrow> bool \<Rightarrow> bytes option \<Rightarrow> headers" where
  "upstream_headers incoming info t pathMode body =
     (let h = buildUpstreamHeaders incoming info t;
          h1 = (if wantsHtml pathMode incoming then map_delete ''accept-encoding'' h else h)
      in case body of
           None \<Rightarrow> h1
         | Some b \<Rightarrow> if b \<noteq> [] then map_set ''content-length'' (HOne (show_nat (length b))) h1 else map_delete ''content-length'' h1)"

definition forward :: "shape \<Rightarrow> headers \<Rightarrow> request_info \<Rightarrow> tunnel \<Rightarrow> bool \<Rightarrow> bytes option \<Rightarrow> sent" where
  "forward sh incoming info t pathMode body =
     Forwarded \<lparr>up_method = sh_method sh, up_path = sh_path sh, up_headers = upstream_headers incoming info t pathMode body, up_body = body\<rparr> sh"

definition proxy_send ::
  "(string \<Rightarrow> (string \<times> string) list) \<Rightarrow> ((string \<times> string) list \<Rightarrow> string) \<Rightarrow> time \<Rightarrow> breakpoints \<Rightarrow> decision \<Rightarrow>
   string \<Rightarrow> string \<Rightarrow> headers \<Rightarrow> bool \<Rightarrow> bytes list \<Rightarrow> tunnel \<Rightarrow> request_info \<Rightarrow> bool \<Rightarrow> sent" where
  "proxy_send search_params print_params now bps decision method url hs broken cs t info pathMode =
     (let sh = \<lparr>sh_time = now, sh_method = method, sh_path = stripQueryParam search_params print_params url, sh_headers = headerList hs\<rparr>
      in if bp_matches (tn_id t) (sh_method sh) (sh_path sh) ''request'' bps
         then if broken then Destroyed
              else case collect HOLD_LIMIT cs of
                     Overflow _ _ \<Rightarrow> Answered (plain_reply 413 ''Request too large to hold'') []
                   | Body b \<Rightarrow>
                       (case decision of
                          Drop \<Rightarrow> Answered (plain_reply 503 ''Dropped at a breakpoint'')
                                    [observe sh info now 503 (captureOf [] b) None]
                        | GoRequest m p hs' b' \<Rightarrow>
                            forward (sh\<lparr>sh_method := m, sh_path := p, sh_headers := hs'\<rparr>) (headersFromPairs hs') info t pathMode (Some b')
                        | _ \<Rightarrow> Cancelled)
         else forward sh hs info t pathMode None)"

subsection \<open>Back to the visitor\<close>

text \<open>The answer of the application: its headers as it wrote them and as Node parsed them.\<close>

record upstream_response =
  ur_status :: nat
  ur_raw :: "(string \<times> string) list"
  ur_headers :: headers
  ur_broken :: bool
  ur_chunks :: "bytes list"

definition isHtml :: "headers \<Rightarrow> bool" where
  "isHtml hs \<longleftrightarrow> starts_with ''text/html'' (to_lower (header hs ''content-type''))"

definition drop_headers :: "string list \<Rightarrow> headers \<Rightarrow> headers" where
  "drop_headers keys hs = filter (\<lambda>(name, _). to_lower name \<notin> set keys) hs"

definition with_cookie :: "string option \<Rightarrow> headers \<Rightarrow> headers" where
  "with_cookie setCookie hs = (case setCookie of None \<Rightarrow> hs | Some c \<Rightarrow> if c = [] then hs else appendCookie hs c)"

text \<open>What is put before the person who decides on a held response.\<close>

definition held_response :: "(string \<Rightarrow> bytes \<Rightarrow> bytes option) \<Rightarrow> upstream_response \<Rightarrow> bytes \<Rightarrow> nat \<times> captured" where
  "held_response unzip r body =
     (let decoded = decodeBody unzip (header (ur_headers r) ''content-encoding'') body;
          dropped = HOP_BY_HOP @ (if decoded \<noteq> None then [''content-encoding'', ''content-length''] else []);
          hs = filter (\<lambda>(name, _). to_lower name \<notin> set dropped) (headerList (ur_headers r))
      in (ur_status r, captureOf hs (case decoded of None \<Rightarrow> body | Some d \<Rightarrow> d)))"

text \<open>The reply with its body, unless the connection is broken off, and what the log records of
  the response: its status, headers and body.\<close>

datatype answer = Broken | NoReply | Replied http_reply nat captured

definition proxy_held ::
  "(string \<Rightarrow> string \<Rightarrow> url option) \<Rightarrow> (string \<Rightarrow> time option) \<Rightarrow> time \<Rightarrow> tunnel \<Rightarrow> request_info \<Rightarrow> bool \<Rightarrow> string option \<Rightarrow> string option \<Rightarrow>
   decision \<Rightarrow> answer" where
  "proxy_held parse_url parse_date now t info pathMode snippet setCookie decision =
     (case decision of
        Drop \<Rightarrow> Replied (plain_reply 503 ''Dropped at a breakpoint'') 503 (captureOf [] [])
      | GoResponse status hs body \<Rightarrow>
          let out = buildDownstreamHeaders parse_url parse_date now hs t info pathMode;
              reply = (case snippet of
                         None \<Rightarrow> body
                       | Some s \<Rightarrow> if s \<noteq> [] \<and> status = 200 \<and> isHtml (headersFromPairs hs) then injectInto body (to_buf s) else body);
              out' = map_set ''content-length'' (HOne (show_nat (length reply))) (drop_headers [''content-length''] out)
          in Replied \<lparr>hr_status = status, hr_headers = with_cookie setCookie out', hr_body = reply\<rparr> status (captureOf hs reply)
      | _ \<Rightarrow> NoReply)"

definition proxy_stream ::
  "(string \<Rightarrow> string \<Rightarrow> url option) \<Rightarrow> (string \<Rightarrow> time option) \<Rightarrow> (string \<Rightarrow> bytes \<Rightarrow> bytes option) \<Rightarrow> bool \<Rightarrow> time \<Rightarrow>
   tunnel \<Rightarrow> request_info \<Rightarrow> bool \<Rightarrow> string option \<Rightarrow> string option \<Rightarrow> upstream_response \<Rightarrow> answer" where
  "proxy_stream parse_url parse_date unzip hasZstd now t info pathMode snippet setCookie r =
     (let out = buildDownstreamHeaders parse_url parse_date now (ur_raw r) t info pathMode;
          inject = (snippet \<noteq> None \<and> snippet \<noteq> Some [] \<and> ur_status r = 200 \<and> isHtml (ur_headers r));
          dec = (if inject then decoderFor hasZstd (header (ur_headers r) ''content-encoding'') else None);
          out' = (if dec \<noteq> None then drop_headers [''content-length'', ''content-encoding''] out else out);
          pieces = (case dec of
                      None \<Rightarrow> Some (ur_chunks r)
                    | Some Identity \<Rightarrow> Some (ur_chunks r)
                    | Some (Decompress e) \<Rightarrow> map_option (\<lambda>d. [d]) (unzip e (concat (ur_chunks r))))
      in case pieces of
           None \<Rightarrow> Broken
         | Some ps \<Rightarrow>
             if ur_broken r then Broken
             else let body = (if dec \<noteq> None then inject_stream (to_buf (the snippet)) ps new_InjectTransform else concat ps)
                  in Replied \<lparr>hr_status = ur_status r, hr_headers = with_cookie setCookie out', hr_body = body\<rparr>
                       (ur_status r) (tap_capture (headerList (ur_headers r)) [body]))"

definition proxy_answer ::
  "(string \<Rightarrow> string \<Rightarrow> url option) \<Rightarrow> (string \<Rightarrow> time option) \<Rightarrow> (string \<Rightarrow> bytes \<Rightarrow> bytes option) \<Rightarrow> bool \<Rightarrow> time \<Rightarrow>
   breakpoints \<Rightarrow> decision \<Rightarrow> shape \<Rightarrow> tunnel \<Rightarrow> request_info \<Rightarrow> bool \<Rightarrow> string option \<Rightarrow> string option \<Rightarrow> upstream_response \<Rightarrow> answer" where
  "proxy_answer parse_url parse_date unzip hasZstd now bps decision sh t info pathMode snippet setCookie r =
     (if bp_matches (tn_id t) (sh_method sh) (sh_path sh) ''response'' bps
      then if ur_broken r then Broken
           else case collect HOLD_LIMIT (ur_chunks r) of
                  Body b \<Rightarrow> proxy_held parse_url parse_date now t info pathMode snippet setCookie decision
                | Overflow taken rest \<Rightarrow>
                    Replied \<lparr>hr_status = ur_status r,
                             hr_headers = buildDownstreamHeaders parse_url parse_date now (ur_raw r) t info pathMode,
                             hr_body = concat (taken @ rest)\<rparr>
                      (ur_status r) (tap_capture (headerList (ur_headers r)) (taken @ rest))
      else proxy_stream parse_url parse_date unzip hasZstd now t info pathMode snippet setCookie r)"

text \<open>The connection to the application fails: once an answer has begun it is broken off,
  otherwise the failure is logged and the visitor gets the offline page.\<close>

datatype failure = Break_off | Offline_reply traffic_entry

definition proxy_fail :: "bool \<Rightarrow> shape \<Rightarrow> request_info \<Rightarrow> time \<Rightarrow> captured \<Rightarrow> failure" where
  "proxy_fail responded sh info now request =
     (if responded then Break_off else Offline_reply (observe sh info now 502 request None))"

text \<open>What was captured of the request: the streamed body, or the whole body of a held one.\<close>

definition request_capture :: "upstream_request \<Rightarrow> bytes list \<Rightarrow> captured" where
  "request_capture u cs = (case up_body u of None \<Rightarrow> tap_capture [] cs | Some b \<Rightarrow> captureOf [] b)"

text \<open>The log entry when the reply is closed.\<close>

definition proxy_logged :: "shape \<Rightarrow> request_info \<Rightarrow> time \<Rightarrow> captured \<Rightarrow> answer \<Rightarrow> traffic_entry option" where
  "proxy_logged sh info now request a =
     (case a of Replied _ status response \<Rightarrow> Some (observe sh info now status request (Some response)) | _ \<Rightarrow> None)"

subsection \<open>Replays and upgrades\<close>

definition replay_headers :: "tunnel \<Rightarrow> string \<Rightarrow> (string \<times> string) list \<Rightarrow> bytes option \<Rightarrow> headers" where
  "replay_headers t host stored body =
     (let h0 = fold (\<lambda>(name, value) hs.
                 if to_lower name \<in> set HOP_BY_HOP \<or> to_lower name = ''host'' \<or> to_lower name = ''content-length'' then hs
                 else push_header name value hs) stored [];
          h1 = map_set ''host'' (HOne (if tn_keepHost t then host else hostHeader (tn_target t))) h0;
          h2 = map_set ''x-forwarded-host'' (HOne host) h1
      in case body of None \<Rightarrow> h2 | Some b \<Rightarrow> map_set ''content-length'' (HOne (show_nat (length b))) h2)"

record stored_request =
  sr_method :: string
  sr_path :: string
  sr_host :: string
  sr_headers :: "(string \<times> string) list"
  sr_body :: "string option"

text \<open>The outcome of a replay: the status of the application's answer and its captured body, or
  502 when the connection breaks. It is logged once.\<close>

definition replayRequest ::
  "time \<Rightarrow> time \<Rightarrow> tunnel \<Rightarrow> stored_request \<Rightarrow> upstream_response option \<Rightarrow> upstream_request \<times> nat \<times> traffic_entry" where
  "replayRequest startedAt now t st response =
     (let body = (case sr_body st of None \<Rightarrow> None | Some b \<Rightarrow> if b = [] then None else Some (b64_decode b));
          hs = replay_headers t (sr_host st) (sr_headers st) body;
          req = \<lparr>up_method = sr_method st, up_path = sr_path st, up_headers = hs, up_body = body\<rparr>;
          ok = (response \<noteq> None \<and> \<not> ur_broken (the response));
          status = (if ok then ur_status (the response) else 502);
          logged = \<lparr>te_time = startedAt, te_duration = nat (now - startedAt), te_kind = Some ''http'', te_connection = None,
                    te_intel = None, te_method = Some (sr_method st), te_path = Some (sr_path st), te_status = Some status,
                    te_ip = Some REPLAY_IP, te_host = Some (sr_host st),
                    te_request = Some \<lparr>cp_headers = headerList hs, cp_body = body, cp_bytes = (case body of None \<Rightarrow> 0 | Some b \<Rightarrow> length b), cp_truncated = False\<rparr>,
                    te_response = (if ok then Some (tap_capture (headerList (ur_headers (the response))) (ur_chunks (the response))) else None)\<rparr>
      in (req, status, logged))"

definition CRLF_TEXT :: string where
  "CRLF_TEXT = [CHR 0x0D, CHR 0x0A]"

definition upgrade_headers :: "headers \<Rightarrow> request_info \<Rightarrow> tunnel \<Rightarrow> headers" where
  "upgrade_headers hs info t =
     map_set ''upgrade'' (HOne (header hs ''upgrade''))
       (map_set ''connection'' (HOne ''Upgrade'') (buildUpstreamHeaders hs info t))"

definition upgrade_head :: "string \<Rightarrow> string \<Rightarrow> headers \<Rightarrow> string" where
  "upgrade_head method path hs =
     method @ '' '' @ path @ '' HTTP/1.1'' @ CRLF_TEXT @
     concat (map (\<lambda>(name, v). name @ '': '' @ v @ CRLF_TEXT) (headerList hs)) @ CRLF_TEXT"

text \<open>What proxyUpgrade writes to the application before the two sockets are joined, and the
  entry it logs for the connection.\<close>

definition proxyUpgrade ::
  "(string \<Rightarrow> (string \<times> string) list) \<Rightarrow> ((string \<times> string) list \<Rightarrow> string) \<Rightarrow> time \<Rightarrow> bytes \<Rightarrow> string \<Rightarrow> string \<Rightarrow> headers \<Rightarrow> bytes \<Rightarrow>
   tunnel \<Rightarrow> request_info \<Rightarrow> bytes \<times> traffic_entry" where
  "proxyUpgrade search_params print_params now rnd method url hs head t info =
     (let path = stripQueryParam search_params print_params url;
          raw = upgrade_head method path (upgrade_headers hs info t)
      in (to_buf raw @ head,
          \<lparr>te_time = now, te_duration = 0, te_kind = Some ''ws'', te_connection = Some (randomToken rnd), te_intel = None,
           te_method = Some method, te_path = Some path, te_status = Some 101, te_ip = Some (ri_clientIp info),
           te_host = Some (ri_host info),
           te_request = Some \<lparr>cp_headers = headerList hs, cp_body = None, cp_bytes = 0, cp_truncated = False\<rparr>,
           te_response = None\<rparr>))"

subsection \<open>What reaches the application and the visitor\<close>

lemma map_of_filter_out: "(\<And>v. \<not> P (k, v)) \<Longrightarrow> map_of (filter P m) k = None"
  by (induction m) (auto split: if_splits)

lemma map_of_filter_fst: "P k \<Longrightarrow> map_of (filter (\<lambda>(n, _). P n) m) k = map_of m k"
  by (induction m) auto

lemma buildUpstreamHeaders_get:
  "map_get (buildUpstreamHeaders hs info t) name =
     (if name = ''x-forwarded-for'' then (if ri_clientIp info = [] then None else Some (HOne (ri_clientIp info)))
      else if name = ''x-forwarded-proto'' then Some (HOne (ri_proto info))
      else if name = ''x-forwarded-host'' then Some (HOne (ri_host info))
      else if name = ''host'' then Some (HOne (if tn_keepHost t then ri_host info else hostHeader (tn_target t)))
      else if name \<in> set HOP_BY_HOP then None
      else map_get hs name)"
proof -
  let ?h0 = "filter (\<lambda>(name, _). name \<notin> set HOP_BY_HOP \<and> name \<noteq> ''host'') hs"
  have "map_get ?h0 name = (if name \<in> set HOP_BY_HOP \<or> name = ''host'' then None else map_get hs name)"
    using map_of_filter_out [of "\<lambda>(name, _). name \<notin> set HOP_BY_HOP \<and> name \<noteq> ''host''" name hs]
      map_of_filter_fst [of "\<lambda>name. name \<notin> set HOP_BY_HOP \<and> name \<noteq> ''host''" name hs] by auto
  then show ?thesis by (simp add: buildUpstreamHeaders_def Let_def)
qed

lemma hop_names:
  "''content-length'' \<notin> set HOP_BY_HOP" "''x-forwarded-for'' \<notin> set HOP_BY_HOP" "''x-forwarded-host'' \<notin> set HOP_BY_HOP"
  "''x-forwarded-proto'' \<notin> set HOP_BY_HOP" "''host'' \<notin> set HOP_BY_HOP"
  by (simp_all add: HOP_BY_HOP_def)

lemma upstream_headers_get:
  "name \<noteq> ''accept-encoding'' \<Longrightarrow> name \<noteq> ''content-length'' \<Longrightarrow>
   map_get (upstream_headers incoming info t pathMode body) name = map_get (buildUpstreamHeaders incoming info t) name"
  by (simp add: upstream_headers_def Let_def split: option.split)

lemma upstream_headers_hop:
  assumes "name \<in> set HOP_BY_HOP"
  shows "map_get (upstream_headers incoming info t pathMode body) name = None"
proof -
  have "name \<noteq> ''content-length''" "name \<noteq> ''accept-encoding''" using assms by (auto simp: HOP_BY_HOP_def)
  moreover have "name \<noteq> ''x-forwarded-for''" "name \<noteq> ''x-forwarded-proto''" "name \<noteq> ''x-forwarded-host''" "name \<noteq> ''host''"
    using assms hop_names by auto
  ultimately show ?thesis using assms by (simp add: upstream_headers_get buildUpstreamHeaders_get)
qed

lemma proxy_send_Forwarded:
  assumes "proxy_send sp pp now bps decision method url hs broken cs t info pathMode = Forwarded u sh"
  shows "\<exists>incoming. up_headers u = upstream_headers incoming info t pathMode (up_body u)"
  using assms unfolding proxy_send_def Let_def forward_def
  by (auto split: if_splits collected.splits decision.splits)

text \<open>
  C21. The application can trust what the proxy tells it about the visitor: whatever headers a
  visitor sends, and however a held request is edited, the request that reaches the application
  carries no hop-by-hop header, the address, scheme and host that the server determined in its
  x-forwarded headers, and the host header the tunnel asks for.
\<close>

theorem forwarded_headers_trusted:
  assumes "proxy_send sp pp now bps decision method url hs broken cs t info pathMode = Forwarded u sh"
  shows "(\<forall>name. name \<in> set HOP_BY_HOP \<longrightarrow> map_get (up_headers u) name = None) \<and>
    map_get (up_headers u) ''x-forwarded-for'' = (if ri_clientIp info = [] then None else Some (HOne (ri_clientIp info))) \<and>
    map_get (up_headers u) ''x-forwarded-proto'' = Some (HOne (ri_proto info)) \<and>
    map_get (up_headers u) ''x-forwarded-host'' = Some (HOne (ri_host info)) \<and>
    map_get (up_headers u) ''host'' = Some (HOne (if tn_keepHost t then ri_host info else hostHeader (tn_target t)))"
proof -
  obtain incoming where u: "up_headers u = upstream_headers incoming info t pathMode (up_body u)"
    using proxy_send_Forwarded [OF assms] by blast
  show ?thesis unfolding u by (simp add: upstream_headers_hop upstream_headers_get buildUpstreamHeaders_get)
qed

definition sample_target :: target where
  "sample_target = \<lparr>tg_host = ''localhost'', tg_port = 3000, tg_authority = ''localhost:3000''\<rparr>"

definition sample_tunnel :: tunnel where
  "sample_tunnel = new_Tunnel (\<lambda>b. b) [] [] 0 ''web'' ''subdomain'' sample_target False None None"

definition sample_info :: request_info where
  "sample_info = requestInfo False True ''203.0.113.9'' [(''host'', HOne ''web.t.example''), (''x-forwarded-for'', HOne ''10.0.0.1'')]"

theorem forwarded_headers_trusted_witness:
  "\<exists>u sh. proxy_send (\<lambda>_. []) (\<lambda>_. []) 0 new_Breakpoints Cancel ''GET'' ''/''
       [(''host'', HOne ''web.t.example''), (''x-forwarded-for'', HOne ''10.0.0.1''), (''upgrade'', HOne ''h2c'')] False [] sample_tunnel sample_info False =
       Forwarded u sh \<and>
     map_get (up_headers u) ''x-forwarded-for'' = Some (HOne ''203.0.113.9'') \<and> map_get (up_headers u) ''upgrade'' = None"
proof -
  let ?hs = "[(''host'', HOne ''web.t.example''), (''x-forwarded-for'', HOne ''10.0.0.1''), (''upgrade'', HOne ''h2c'')]"
  have "\<not> bp_matches i m p ph new_Breakpoints" for i m p ph by (simp add: bp_matches_def rulesFor_def new_Breakpoints_def)
  then obtain u sh where f: "proxy_send (\<lambda>_. []) (\<lambda>_. []) 0 new_Breakpoints Cancel ''GET'' ''/'' ?hs False [] sample_tunnel sample_info False = Forwarded u sh"
    by (simp add: proxy_send_def forward_def)
  have ip: "ri_clientIp sample_info = ''203.0.113.9''" by (simp add: sample_info_def requestInfo_def Let_def)
  have up: "''upgrade'' \<in> set HOP_BY_HOP" by (simp add: HOP_BY_HOP_def)
  show ?thesis using f up forwarded_headers_trusted [OF f] ip by auto
qed

text \<open>Collecting loses nothing: the body when it fits, and otherwise the chunks so far and the rest.\<close>

lemma collect_from_spec:
  "(collect_from lim acc cs = Body b \<longrightarrow> b = concat (acc @ cs)) \<and>
   (collect_from lim acc cs = Overflow taken rest \<longrightarrow> taken @ rest = acc @ cs \<and> length (concat taken) > lim)"
  by (induction lim acc cs rule: collect_from.induct) (auto simp: Let_def)

lemma collect_fits: "length (concat (acc @ cs)) \<le> lim \<Longrightarrow> collect_from lim acc cs = Body (concat (acc @ cs))"
  by (induction lim acc cs rule: collect_from.induct) (auto simp: Let_def)

lemma collect_Overflow: "collect lim cs = Overflow taken rest \<Longrightarrow> taken @ rest = cs"
  using collect_from_spec [of lim "[]" cs _ taken rest] by (simp add: collect_def)

text \<open>Without a breakpoint the visitor gets the application's body, or the decoded page with the
  snippet injected as into the whole of it; the status is the application's.\<close>

lemma proxy_stream_body:
  assumes "proxy_stream pu pd unzip z now t info pathMode snippet setCookie r = Replied reply st cap"
  shows "hr_status reply = ur_status r \<and>
    (hr_body reply = concat (ur_chunks r) \<or>
     (\<exists>s d. snippet = Some s \<and> ur_status r = 200 \<and> isHtml (ur_headers r) \<and>
        decodeBody unzip (header (ur_headers r) ''content-encoding'') (concat (ur_chunks r)) = Some d \<and> hr_body reply = injectInto d (to_buf s)))"
  using assms unfolding proxy_stream_def Let_def decoderFor_def decodeBody_def
  by (auto simp: inject_stream_eq compressions_def split: if_splits option.splits decoder.splits)

end
