(* ===== verification/Http.thy ===== *)
theory Http
  imports AccessStore Attempts ProxyFlow Connections
begin

text \<open>
  The router of HTTP requests and upgrades (src/server/controllers/http.js): which tunnel a
  request is for, the gate in front of restricted tunnels, and what is recorded of a request.
  A handler returns the new state and what it decided to send; proxying itself is described in
  ProxyFlow. The parsed URL, the challenge responses of the certificate manager, the tunnels of
  custom domains and the files of the web interface are arguments.
\<close>

definition UI_PREFIX :: string where
  "UI_PREFIX = ''/@tunlit''"

definition API_PREFIX :: string where
  "API_PREFIX = ''/@tunlit/api''"

definition SELECT_PAGE :: string where
  "SELECT_PAGE = ''/@tunlit/select''"

definition GATE_PATH :: string where
  "GATE_PATH = ''/@tunlit/gate''"

definition SW_PATH :: string where
  "SW_PATH = ''/@tunlit/sw.js''"

definition ACME_PREFIX :: string where
  "ACME_PREFIX = ''/.well-known/acme-challenge/''"

definition word_char :: "char \<Rightarrow> bool" where
  "word_char c \<longleftrightarrow> is_alnum c \<or> c = CHR ''_''"

text \<open>The match of \<open>\btext\/html\b\<close>; before is the character in front, if there is one.\<close>

fun html_from :: "char option \<Rightarrow> string \<Rightarrow> bool" where
  "html_from before [] = False"
| "html_from before (c # cs) =
     ((starts_with ''text/html'' (c # cs) \<and> (case before of None \<Rightarrow> True | Some b \<Rightarrow> \<not> word_char b) \<and>
       (case drop 9 (c # cs) of [] \<Rightarrow> True | d # _ \<Rightarrow> \<not> word_char d)) \<or>
      html_from (Some c) cs)"

definition accepts_html :: "headers \<Rightarrow> bool" where
  "accepts_html hs = html_from None (header hs ''accept'')"

definition isNavigation :: "headers \<Rightarrow> bool" where
  "isNavigation hs =
     (let dest = header hs ''sec-fetch-dest''
      in if dest = ''document'' then True
         else if dest \<noteq> [] \<and> dest \<noteq> ''empty'' then False
         else accepts_html hs)"

record parsed_url =
  pu_pathname :: string
  pu_search :: string
  pu_params :: "(string \<times> string) list"

record http_request =
  hq_method :: string
  hq_url :: parsed_url
  hq_raw :: string
  hq_headers :: headers
  hq_remote :: string
  hq_encrypted :: bool

record hconfig =
  h_ready :: bool
  h_setupRequired :: bool
  h_baseDomain :: string
  h_trustProxy :: bool
  h_publicUrl :: string
  h_httpsPort :: nat

record gateway =
  g_registry :: registry
  g_access :: access_store
  g_attempts :: limiter
  g_visitors :: visitors
  g_traffic :: traffic_log
  g_frames :: frame_log
  g_stats :: stats

text \<open>What the request needs of the other parts: password hashing, the accounts, address
  details, challenge responses, custom domains and files.\<close>

record environment =
  e_scrypt :: "string \<Rightarrow> bytes \<Rightarrow> nat \<Rightarrow> bytes"
  e_absent :: string
  e_db :: db
  e_lookup :: "string \<Rightarrow> ip_details"
  e_challenge :: "string \<Rightarrow> string option"
  e_secured :: "string \<Rightarrow> bool"
  e_custom :: "string \<Rightarrow> string option"
  e_file :: "string \<Rightarrow> bool"
  e_script :: "string \<Rightarrow> string"

subsection \<open>What is recorded of a request\<close>

definition FLAGS :: "string list" where
  "FLAGS = [''tor'', ''vpn'', ''datacenter'', ''blocklisted'']"

definition flag_of :: "ip_details \<Rightarrow> string \<Rightarrow> bool" where
  "flag_of d flag =
     (if flag = ''tor'' then i_tor d else if flag = ''vpn'' then i_vpn d
      else if flag = ''datacenter'' then i_datacenter d else i_blocklisted d)"

text \<open>The control message to the owner: the entry without its bodies, and where it came from.\<close>

definition announce ::
  "environment \<Rightarrow> gateway \<Rightarrow> tunnel \<Rightarrow> traffic_entry \<Rightarrow> (traffic_entry \<times> jsval \<times> jsval \<times> string list) option" where
  "announce env g t e =
     (if \<not> tunnel_online (g_registry g) t then None
      else let d = e_lookup env (case te_ip e of None \<Rightarrow> [] | Some ip \<Rightarrow> ip)
           in Some (e\<lparr>te_request := None, te_response := None\<rparr>, i_country d, i_org d, filter (flag_of d) FLAGS))"

definition record_traffic :: "environment \<Rightarrow> time \<Rightarrow> tunnel \<Rightarrow> traffic_entry \<Rightarrow> gateway \<Rightarrow> gateway" where
  "record_traffic env now t e g =
     (let ip = (case te_ip e of None \<Rightarrow> [] | Some ip \<Rightarrow> ip); d = e_lookup env ip;
          g1 = (if ip \<noteq> REPLAY_IP then g\<lparr>g_visitors := seen_visitor now (tn_id t) ip d (g_visitors g)\<rparr> else g)
      in g1\<lparr>g_traffic := record_request (tn_id t) (e\<lparr>te_intel := Some d\<rparr>) (g_traffic g1), g_stats := recordRequest (tn_id t) (g_stats g1)\<rparr>)"

definition onRequest ::
  "environment \<Rightarrow> time \<Rightarrow> tunnel \<Rightarrow> traffic_entry \<Rightarrow> gateway \<Rightarrow> gateway \<times> (traffic_entry \<times> jsval \<times> jsval \<times> string list) option" where
  "onRequest env now t e g = (record_traffic env now t e g, announce env g t e)"

definition ws_open :: "environment \<Rightarrow> time \<Rightarrow> tunnel \<Rightarrow> traffic_entry \<Rightarrow> gateway \<Rightarrow> gateway" where
  "ws_open env now t e g =
     (let g1 = record_traffic env now t e g
      in g1\<lparr>g_frames := frames_opened (case te_connection e of None \<Rightarrow> [] | Some c \<Rightarrow> c) (g_frames g1)\<rparr>)"

definition ws_frame :: "time \<Rightarrow> tunnel \<Rightarrow> string \<Rightarrow> string \<Rightarrow> nat \<Rightarrow> bytes \<Rightarrow> gateway \<Rightarrow> gateway" where
  "ws_frame now t connection direction opcode payload g =
     g\<lparr>g_frames := record_frame now (tn_id t) connection direction opcode payload (g_frames g)\<rparr>"

definition ws_close :: "string \<Rightarrow> nat \<Rightarrow> gateway \<Rightarrow> gateway" where
  "ws_close connection duration g =
     g\<lparr>g_frames := frames_closed connection (g_frames g), g_traffic := finish connection duration (g_traffic g)\<rparr>"

subsection \<open>The gate\<close>

datatype verdict = Admit "string option" | Blocked_page string | Gate_page "string option" bool

definition accepts :: "environment \<Rightarrow> policy \<Rightarrow> string \<times> string \<Rightarrow> bool" where
  "accepts env p credentials =
     (if auth p = ''password''
      then verifyPassword (e_scrypt env) (snd credentials) (case passwordHash p of None \<Rightarrow> [] | Some h \<Rightarrow> h)
      else checkAccountCredentials (e_scrypt env) (e_absent env) (JStr (fst credentials)) (JStr (snd credentials)) (e_db env))"

definition gate_key :: "string \<Rightarrow> string \<Rightarrow> string" where
  "gate_key i ip = ''gate:'' @ i @ '':'' @ ip"

definition request_token :: "headers \<Rightarrow> string" where
  "request_token hs = (case tokenFromRequest (header hs ''cookie'') of None \<Rightarrow> [] | Some tok \<Rightarrow> tok)"

definition authorization :: "headers \<Rightarrow> string option" where
  "authorization hs = map_option htext (map_get hs ''authorization'')"

text \<open>Denial of a request to a tunnel: None of the source is Admit None, a fresh access cookie
  Admit (Some cookie). The gate page carries the authorize link and whether it asks for basic
  credentials in a header.\<close>

definition denial ::
  "environment \<Rightarrow> hconfig \<Rightarrow> bytes \<Rightarrow> time \<Rightarrow> headers \<Rightarrow> request_info \<Rightarrow> tunnel \<Rightarrow> gateway \<Rightarrow> gateway \<times> verdict" where
  "denial env c rnd now hs info t g =
     (let p = tn_policy t; ip = ri_clientIp info; d = e_lookup env ip
      in if \<not> isRestricted p then (g, Admit None)
         else case evaluate p ip d of
           Some reason \<Rightarrow> (g\<lparr>g_visitors := blocked_visitor now (tn_id t) ip d reason (g_visitors g)\<rparr>, Blocked_page reason)
         | None \<Rightarrow>
             if auth p = ''none'' then (g, Admit None)
             else case allows now (request_token hs) (tn_id t) (g_access g) of
               (a, True) \<Rightarrow> (g\<lparr>g_access := a\<rparr>, Admit None)
             | (a, False) \<Rightarrow>
                 let key = gate_key (tn_id t) ip;
                     (l, stopped) = Attempts.blocked now key (g_attempts g);
                     credentials = (if stopped then None else basicCredentials (authorization hs));
                     g1 = g\<lparr>g_access := a, g_attempts := l\<rparr>;
                     page = Gate_page (if auth p = ''tunlit'' then Some (h_publicUrl c @ API_PREFIX @ ''/gate/'' @ tn_id t @ ''/authorize'') else None)
                              (\<not> isNavigation hs)
                 in case credentials of
                      None \<Rightarrow> (g1, page)
                    | Some cr \<Rightarrow>
                        if accepts env p cr
                        then (case AccessStore.create rnd now (tn_id t) a of
                                (a', token) \<Rightarrow> (g1\<lparr>g_access := a', g_attempts := forget_key key l\<rparr>, Admit (Some (cookieFor token (ri_secure info)))))
                        else (g1\<lparr>g_attempts := record_failure now key l\<rparr>, page))"

subsection \<open>Routing\<close>

datatype lookup = NotFound | OffLine | Found nat tunnel

definition tunnelFor :: "registry \<Rightarrow> string \<Rightarrow> string list \<Rightarrow> lookup" where
  "tunnelFor r i modes =
     (case get_tunnel i r of
        None \<Rightarrow> NotFound
      | Some (oid, t) \<Rightarrow>
          if tn_mode t \<notin> set modes then NotFound
          else if \<not> tunnel_online r t then OffLine else Found oid t)"

definition pathTunnel :: "registry \<Rightarrow> string \<Rightarrow> (nat \<times> tunnel) option" where
  "pathTunnel r i =
     (if \<not> NAME_REGEX i then None
      else case get_tunnel i r of
             None \<Rightarrow> None
           | Some (oid, t) \<Rightarrow> if tn_mode t = ''path'' then Some (oid, t) else None)"

datatype host_kind = OnBase | OnSubdomain string | OnCustom string | OnUnknown

definition hostFor :: "environment \<Rightarrow> hconfig \<Rightarrow> string \<Rightarrow> host_kind" where
  "hostFor env c hostname =
     (case classifyHost hostname (h_baseDomain c) of
        Base \<Rightarrow> OnBase
      | Subdomain i \<Rightarrow> OnSubdomain i
      | Unknown \<Rightarrow> (case e_custom env hostname of None \<Rightarrow> OnUnknown | Some name \<Rightarrow> OnCustom name))"

datatype response =
    Acme string
  | GateDone string "string option"
  | Ui_api string
  | Ui_file string
  | Ui_index
  | Service_worker
  | Method_not_allowed
  | No_tunnel "string option"
  | Missing string
  | Offline_page string
  | Denied string verdict
  | Attach string string
  | Redirect string
  | Proxied nat tunnel bool "string option" "string option"

definition completeGate :: "bytes \<Rightarrow> time \<Rightarrow> request_info \<Rightarrow> parsed_url \<Rightarrow> gateway \<Rightarrow> gateway \<times> response" where
  "completeGate rnd now info url g =
     (let to = (case map_of (pu_params url) ''to'' of None \<Rightarrow> [] | Some v \<Rightarrow> v);
          code = (case map_of (pu_params url) ''code'' of None \<Rightarrow> [] | Some v \<Rightarrow> v);
          safe = (to \<noteq> [] \<and> hd to = CHR ''/'' \<and> (case tl to of [] \<Rightarrow> True | x # _ \<Rightarrow> ord x \<noteq> 47 \<and> ord x \<noteq> 92))
      in case redeem rnd now code (ri_hostname info) (g_access g) of
           (a, token) \<Rightarrow>
             (g\<lparr>g_access := a\<rparr>, GateDone (if safe then to else ''/'') (map_option (\<lambda>tok. cookieFor tok (ri_secure info)) token)))"

definition noTunnel :: "headers \<Rightarrow> string \<Rightarrow> response" where
  "noTunnel hs location = No_tunnel (if accepts_html hs then Some location else None)"

definition is_read :: "string \<Rightarrow> bool" where
  "is_read m \<longleftrightarrow> m = ''GET'' \<or> m = ''HEAD''"

definition handleUi :: "environment \<Rightarrow> string \<Rightarrow> string \<Rightarrow> response" where
  "handleUi env m pathname =
     (if pathname = API_PREFIX \<or> starts_with (API_PREFIX @ ''/'') pathname then Ui_api pathname
      else if \<not> is_read m then Method_not_allowed
      else let relative = (if pathname = UI_PREFIX then [] else drop (length UI_PREFIX + 1) pathname)
           in if relative \<noteq> [] \<and> \<not> includes_str ''..'' relative \<and> e_file env relative then Ui_file relative else Ui_index)"

definition serve :: "environment \<Rightarrow> hconfig \<Rightarrow> bytes \<Rightarrow> time \<Rightarrow> headers \<Rightarrow> request_info \<Rightarrow> nat \<Rightarrow> tunnel \<Rightarrow> bool \<Rightarrow> gateway \<Rightarrow> gateway \<times> response" where
  "serve env c rnd now hs info oid t pathMode g =
     (case denial env c rnd now hs info t g of
        (g', Admit cookie) \<Rightarrow> (g', Proxied oid t pathMode (if pathMode then Some (e_script env (tn_id t)) else None) cookie)
      | (g', v) \<Rightarrow> (g', Denied (tn_id t) v))"

definition serveSelected :: "environment \<Rightarrow> hconfig \<Rightarrow> bytes \<Rightarrow> time \<Rightarrow> headers \<Rightarrow> request_info \<Rightarrow> string \<Rightarrow> gateway \<Rightarrow> gateway \<times> response" where
  "serveSelected env c rnd now hs info i g =
     (case pathTunnel (g_registry g) i of
        None \<Rightarrow> (g, Missing i)
      | Some (oid, t) \<Rightarrow>
          if \<not> tunnel_online (g_registry g) t then (g, Offline_page i)
          else serve env c rnd now hs info oid t True g)"

definition hostTunnel :: "registry \<Rightarrow> host_kind \<Rightarrow> lookup" where
  "hostTunnel r k =
     (case k of
        OnSubdomain i \<Rightarrow> tunnelFor r i [''subdomain'']
      | OnCustom i \<Rightarrow> tunnelFor r i [''subdomain'', ''path'']
      | _ \<Rightarrow> NotFound)"

text \<open>The match of \<open>^\/@([^/]+)(\/.*)?$\<close>: a name and the rest of the path.\<close>

definition selection :: "string \<Rightarrow> (string \<times> string) option" where
  "selection pathname =
     (let i = takeWhile (\<lambda>x. x \<noteq> CHR ''/'') (drop 2 pathname)
      in if starts_with ''/@'' pathname \<and> i \<noteq> [] then Some (i, drop (2 + length i) pathname) else None)"

definition acmeChallenge :: "environment \<Rightarrow> string \<Rightarrow> response option" where
  "acmeChallenge env pathname =
     (if starts_with ACME_PREFIX pathname
      then (case e_challenge env (drop (length ACME_PREFIX) pathname) of
              None \<Rightarrow> None | Some resp \<Rightarrow> if resp = [] then None else Some (Acme resp))
      else None)"

definition request_info_of :: "hconfig \<Rightarrow> http_request \<Rightarrow> request_info" where
  "request_info_of c q = requestInfo (h_trustProxy c) (hq_encrypted q) (hq_remote q) (hq_headers q)"

definition serve_host :: "environment \<Rightarrow> hconfig \<Rightarrow> bytes \<Rightarrow> time \<Rightarrow> headers \<Rightarrow> request_info \<Rightarrow> host_kind \<Rightarrow> string \<Rightarrow> gateway \<Rightarrow> gateway \<times> response" where
  "serve_host env c rnd now hs info k i g =
     (case hostTunnel (g_registry g) k of
        NotFound \<Rightarrow> (g, if (case k of OnCustom _ \<Rightarrow> True | _ \<Rightarrow> False) then Offline_page i else Missing i)
      | OffLine \<Rightarrow> (g, Offline_page i)
      | Found oid t \<Rightarrow> serve env c rnd now hs info oid t False g)"

definition serve_base :: "environment \<Rightarrow> hconfig \<Rightarrow> bytes \<Rightarrow> time \<Rightarrow> http_request \<Rightarrow> request_info \<Rightarrow> gateway \<Rightarrow> gateway \<times> response" where
  "serve_base env c rnd now q info g =
     (let url = hq_url q
      in case selection (pu_pathname url) of
           Some (name, rest) \<Rightarrow>
             let i = to_lower name
             in if pathTunnel (g_registry g) i = None then (g, Missing i)
                else (g, Attach i ((if rest = [] then ''/'' else rest) @ pu_search url))
         | None \<Rightarrow>
             (case map_of (pu_params url) QUERY_PARAM of
                Some v \<Rightarrow> serveSelected env c rnd now (hq_headers q) info (to_lower v) g
              | None \<Rightarrow> (g, noTunnel (hq_headers q) SELECT_PAGE)))"

definition handleRequest :: "environment \<Rightarrow> hconfig \<Rightarrow> bytes \<Rightarrow> time \<Rightarrow> http_request \<Rightarrow> gateway \<Rightarrow> gateway \<times> response" where
  "handleRequest env c rnd now q g =
     (let info = request_info_of c q; url = hq_url q; pathname = pu_pathname url; hs = hq_headers q;
          isUi = (pathname = UI_PREFIX \<or> starts_with (UI_PREFIX @ ''/'') pathname);
          closed = (\<not> h_ready c \<or> h_setupRequired c)
      in case acmeChallenge env pathname of
           Some resp \<Rightarrow> (g, resp)
         | None \<Rightarrow>
             if pathname = GATE_PATH \<and> \<not> closed then completeGate rnd now info url g
             else if closed then (g, if isUi then handleUi env (hq_method q) pathname else noTunnel hs (UI_PREFIX @ ''/''))
             else let k = hostFor env c (ri_hostname info)
                  in if isUi \<and> \<not> (case k of OnCustom _ \<Rightarrow> True | _ \<Rightarrow> False)
                     then (g, if pathname = SW_PATH then (if is_read (hq_method q) then Service_worker else Method_not_allowed)
                              else handleUi env (hq_method q) pathname)
                     else case k of
                            OnSubdomain i \<Rightarrow> serve_host env c rnd now hs info k i g
                          | OnCustom i \<Rightarrow> serve_host env c rnd now hs info k i g
                          | OnUnknown \<Rightarrow> (g, noTunnel hs SELECT_PAGE)
                          | OnBase \<Rightarrow> serve_base env c rnd now q info g)"

definition handleRedirect :: "environment \<Rightarrow> hconfig \<Rightarrow> bytes \<Rightarrow> time \<Rightarrow> http_request \<Rightarrow> gateway \<Rightarrow> gateway \<times> response" where
  "handleRedirect env c rnd now q g =
     (case acmeChallenge env (pu_pathname (hq_url q)) of
        Some resp \<Rightarrow> (g, resp)
      | None \<Rightarrow>
          let given = header (hq_headers q) ''host''; host = to_lower (strip_port (if given = [] then h_baseDomain c else given))
          in if \<not> e_secured env host then handleRequest env c rnd now q g
             else (g, Redirect (''https://'' @ host @ (if h_httpsPort c = 443 then [] else '':'' @ show_nat (h_httpsPort c)) @ hq_raw q)))"

subsection \<open>Upgrades\<close>

datatype upgraded = Reject nat string | To_control | Joined nat tunnel bool

definition upgrade_gate :: "environment \<Rightarrow> time \<Rightarrow> headers \<Rightarrow> request_info \<Rightarrow> nat \<Rightarrow> tunnel \<Rightarrow> bool \<Rightarrow> gateway \<Rightarrow> gateway \<times> upgraded" where
  "upgrade_gate env now hs info oid t pathMode g =
     (let p = tn_policy t; ip = ri_clientIp info; d = e_lookup env ip
      in if \<not> isRestricted p then (g, Joined oid t pathMode)
         else case evaluate p ip d of
           Some reason \<Rightarrow> (g\<lparr>g_visitors := blocked_visitor now (tn_id t) ip d reason (g_visitors g)\<rparr>, Reject 403 ''Forbidden'')
         | None \<Rightarrow>
             if auth p = ''none'' then (g, Joined oid t pathMode)
             else case allows now (request_token hs) (tn_id t) (g_access g) of
               (a, ok) \<Rightarrow> (g\<lparr>g_access := a\<rparr>, if ok then Joined oid t pathMode else Reject 401 ''Unauthorized''))"

definition upgrade_target :: "environment \<Rightarrow> hconfig \<Rightarrow> time \<Rightarrow> http_request \<Rightarrow> request_info \<Rightarrow> bool \<Rightarrow> bool \<Rightarrow> lookup \<Rightarrow> gateway \<Rightarrow> gateway \<times> upgraded" where
  "upgrade_target env c now q info custom pathMode found g =
     (case found of
        NotFound \<Rightarrow> (g, if custom then Reject 502 ''Tunnel offline'' else Reject 404 ''Tunnel not found'')
      | OffLine \<Rightarrow> (g, Reject 502 ''Tunnel offline'')
      | Found oid t \<Rightarrow> upgrade_gate env now (hq_headers q) info oid t pathMode g)"

definition handleUpgrade :: "environment \<Rightarrow> hconfig \<Rightarrow> time \<Rightarrow> http_request \<Rightarrow> gateway \<Rightarrow> gateway \<times> upgraded" where
  "handleUpgrade env c now q g =
     (let info = request_info_of c q; pathname = pu_pathname (hq_url q)
      in if \<not> h_ready c \<or> h_setupRequired c then (g, Reject 503 ''Setup required'')
         else let k = hostFor env c (ri_hostname info)
              in if k = OnBase \<and> pathname = ''/@tunlit/ws'' then (g, To_control)
                 else case k of
                   OnSubdomain i \<Rightarrow> upgrade_target env c now q info False False (hostTunnel (g_registry g) k) g
                 | OnCustom i \<Rightarrow> upgrade_target env c now q info True False (hostTunnel (g_registry g) k) g
                 | OnUnknown \<Rightarrow> (g, Reject 404 ''Not Found'')
                 | OnBase \<Rightarrow>
                     if starts_with ''/@'' pathname then (g, Reject 404 ''Not Found'')
                     else (case map_of (pu_params (hq_url q)) QUERY_PARAM of
                             None \<Rightarrow> (g, Reject 404 ''No tunnel selected'')
                           | Some v \<Rightarrow>
                               if v = [] then (g, Reject 404 ''No tunnel selected'')
                               else upgrade_target env c now q info False True (tunnelFor (g_registry g) (to_lower v) [''path'']) g))"

subsection \<open>Nothing gets past the gate\<close>

text \<open>When a request of these headers and this address may reach the tunnel.\<close>

definition let_in :: "environment \<Rightarrow> time \<Rightarrow> headers \<Rightarrow> string \<Rightarrow> tunnel \<Rightarrow> gateway \<Rightarrow> bool" where
  "let_in env now hs ip t g \<longleftrightarrow>
     evaluate (tn_policy t) ip (e_lookup env ip) = None \<and>
     (auth (tn_policy t) = ''none'' \<or>
      (\<exists>e. map_get (tokens (g_access g)) (request_token hs) = Some e \<and> t_tunnelId e = tn_id t \<and> now \<le> t_expiresAt e) \<or>
      (\<not> snd (Attempts.blocked now (gate_key (tn_id t) ip) (g_attempts g)) \<and>
       (\<exists>cr. basicCredentials (authorization hs) = Some cr \<and> accepts env (tn_policy t) cr)))"

lemma allows_iff:
  "snd (allows now token i s) \<longleftrightarrow>
     token \<noteq> [] \<and> (\<exists>e. map_get (tokens s) token = Some e \<and> t_tunnelId e = i \<and> now \<le> t_expiresAt e)"
  by (auto simp: allows_def split: option.split)

lemma open_policy_admits: "\<not> isRestricted p \<Longrightarrow> evaluate p ip d = None \<and> auth p = ''none''"
  by (auto simp: isRestricted_def evaluate_def)

lemma denial_Admit:
  assumes "denial env c rnd now hs info t g = (g', Admit ck)"
  shows "let_in env now hs (ri_clientIp info) t g"
proof (cases "isRestricted (tn_policy t) \<and> auth (tn_policy t) \<noteq> ''none''")
  case False
  have "evaluate (tn_policy t) (ri_clientIp info) (e_lookup env (ri_clientIp info)) = None \<and> auth (tn_policy t) = ''none''"
    using False assms open_policy_admits by (auto simp: denial_def Let_def split: option.splits if_splits)
  then show ?thesis by (simp add: let_in_def)
next
  case True
  obtain a ok where al: "allows now (request_token hs) (tn_id t) (g_access g) = (a, ok)" by force
  obtain l stopped where bl: "Attempts.blocked now (gate_key (tn_id t) (ri_clientIp info)) (g_attempts g) = (l, stopped)" by force
  have ev: "evaluate (tn_policy t) (ri_clientIp info) (e_lookup env (ri_clientIp info)) = None"
    using True assms by (auto simp: denial_def Let_def split: option.splits)
  show ?thesis
  proof (cases ok)
    case True
    then show ?thesis using ev al allows_iff [of now "request_token hs" "tn_id t" "g_access g"] by (auto simp: let_in_def)
  next
    case False
    have "\<not> stopped \<and> (\<exists>cr. basicCredentials (authorization hs) = Some cr \<and> accepts env (tn_policy t) cr)"
      using assms True False ev al bl by (auto simp: denial_def Let_def split: option.splits if_splits prod.splits)
    then show ?thesis using ev bl by (simp add: let_in_def)
  qed
qed

lemma serve_Proxied:
  assumes "serve env c rnd now hs info oid t pm g = (g', Proxied oid' t' pm' sn ck)"
  shows "oid' = oid \<and> t' = t \<and> let_in env now hs (ri_clientIp info) t g"
proof -
  obtain g1 v where d: "denial env c rnd now hs info t g = (g1, v)" by force
  show ?thesis
  proof (cases v)
    case (Admit k)
    then show ?thesis using assms d denial_Admit [of env c rnd now hs info t g g1 k] by (simp add: serve_def)
  qed (use assms d in \<open>simp_all add: serve_def\<close>)
qed

lemma tunnelFor_Found: "tunnelFor r i modes = Found oid t \<Longrightarrow> get_tunnel i r = Some (oid, t) \<and> tunnel_online r t"
  by (auto simp: tunnelFor_def split: option.splits if_splits)

lemma hostTunnel_Found: "hostTunnel r k = Found oid t \<Longrightarrow> \<exists>i. get_tunnel i r = Some (oid, t) \<and> tunnel_online r t"
  by (auto simp: hostTunnel_def split: host_kind.splits dest: tunnelFor_Found)

lemma serve_host_Proxied:
  assumes "serve_host env c rnd now hs info k i g = (g', Proxied oid t pm sn ck)"
  shows "(\<exists>i. get_tunnel i (g_registry g) = Some (oid, t) \<and> tunnel_online (g_registry g) t) \<and> let_in env now hs (ri_clientIp info) t g"
proof (cases "hostTunnel (g_registry g) k")
  case (Found o' u)
  have s: "serve env c rnd now hs info o' u False g = (g', Proxied oid t pm sn ck)" using assms Found by (simp add: serve_host_def)
  from serve_Proxied [OF s] hostTunnel_Found [OF Found] show ?thesis by auto
qed (use assms in \<open>auto simp: serve_host_def split: host_kind.splits\<close>)

lemma serveSelected_Proxied:
  assumes "serveSelected env c rnd now hs info i g = (g', Proxied oid t pm sn ck)"
  shows "(\<exists>i. get_tunnel i (g_registry g) = Some (oid, t) \<and> tunnel_online (g_registry g) t) \<and> let_in env now hs (ri_clientIp info) t g"
proof -
  obtain o' u where p: "pathTunnel (g_registry g) i = Some (o', u)"
    using assms by (cases "pathTunnel (g_registry g) i") (auto simp: serveSelected_def)
  have on: "tunnel_online (g_registry g) u" using assms p by (auto simp: serveSelected_def split: if_splits)
  have s: "serve env c rnd now hs info o' u True g = (g', Proxied oid t pm sn ck)" using assms p on by (simp add: serveSelected_def)
  have "get_tunnel i (g_registry g) = Some (o', u)" using p by (auto simp: pathTunnel_def split: if_splits option.splits)
  then show ?thesis using serve_Proxied [OF s] on by auto
qed

lemma acme_not_proxied: "acmeChallenge env p = Some resp \<Longrightarrow> resp \<noteq> Proxied oid t pm sn ck"
  by (auto simp: acmeChallenge_def split: if_splits option.splits)

lemma handleUi_not_proxied [simp]: "handleUi env m p \<noteq> Proxied oid t pm sn ck"
  by (simp add: handleUi_def Let_def)

lemma noTunnel_not_proxied [simp]: "noTunnel hs l \<noteq> Proxied oid t pm sn ck"
  by (simp add: noTunnel_def)

lemma completeGate_not_proxied [simp]: "snd (completeGate rnd now info url g) \<noteq> Proxied oid t pm sn ck"
  by (simp add: completeGate_def Let_def split: prod.split)

lemma serve_base_Proxied:
  assumes "serve_base env c rnd now q info g = (g', Proxied oid t pm sn ck)"
  shows "\<exists>v. serveSelected env c rnd now (hq_headers q) info (to_lower v) g = (g', Proxied oid t pm sn ck)"
  using assms by (auto simp: serve_base_def Let_def split: option.splits if_splits prod.splits)

lemma upgrade_gate_Joined:
  assumes "upgrade_gate env now hs info oid t pm g = (g', Joined oid' t' pm')"
  shows "oid' = oid \<and> t' = t \<and> let_in env now hs (ri_clientIp info) t g"
proof -
  obtain a ok where al: "allows now (request_token hs) (tn_id t) (g_access g) = (a, ok)" by force
  have "\<not> isRestricted (tn_policy t) \<Longrightarrow> ?thesis"
    using assms open_policy_admits by (auto simp: upgrade_gate_def let_in_def)
  moreover have "isRestricted (tn_policy t) \<Longrightarrow> ?thesis"
    using assms al allows_iff [of now "request_token hs" "tn_id t" "g_access g"]
    by (auto simp: upgrade_gate_def let_in_def Let_def split: option.splits if_splits)
  ultimately show ?thesis by blast
qed

lemma upgrade_target_Joined:
  assumes "upgrade_target env c now q info cu pm found g = (g', Joined oid t pm')"
  shows "found = Found oid t \<and> let_in env now (hq_headers q) (ri_clientIp info) t g"
proof (cases found)
  case (Found o' u)
  have "upgrade_gate env now (hq_headers q) info o' u pm g = (g', Joined oid t pm')" using assms Found by (simp add: upgrade_target_def)
  from upgrade_gate_Joined [OF this] Found show ?thesis by simp
qed (use assms in \<open>simp_all add: upgrade_target_def split: if_splits\<close>)

text \<open>
  C1. No request and no websocket reaches a tunnel past its access policy: what handleRequest
  proxies and handleUpgrade joins is an online tunnel of the registry whose rules admit the
  address, and which asks for no sign-in, or the request carries an access token that was made
  for this tunnel and has not expired, or credentials that the tunnel accepts while the address
  is not blocked for too many failures.
\<close>

theorem gate_guards_tunnels:
  "(handleRequest env c rnd now q g = (g', Proxied oid t pm sn ck) \<longrightarrow>
     (\<exists>i. get_tunnel i (g_registry g) = Some (oid, t)) \<and> tunnel_online (g_registry g) t \<and>
     let_in env now (hq_headers q) (ri_clientIp (request_info_of c q)) t g) \<and>
   (handleUpgrade env c now q g = (g', Joined oid t pm) \<longrightarrow>
     (\<exists>i. get_tunnel i (g_registry g) = Some (oid, t)) \<and> tunnel_online (g_registry g) t \<and>
     let_in env now (hq_headers q) (ri_clientIp (request_info_of c q)) t g)"
proof (intro conjI impI)
  let ?info = "request_info_of c q"
  let ?p = "pu_pathname (hq_url q)"
  let ?ok = "(\<exists>i. get_tunnel i (g_registry g) = Some (oid, t)) \<and> tunnel_online (g_registry g) t \<and>
    let_in env now (hq_headers q) (ri_clientIp ?info) t g"
  assume h: "handleRequest env c rnd now q g = (g', Proxied oid t pm sn ck)"
  have "acmeChallenge env ?p = None" using h acme_not_proxied [of env ?p] by (cases "acmeChallenge env ?p") (auto simp: handleRequest_def Let_def)
  moreover have "completeGate rnd now ?info (hq_url q) g \<noteq> (g', Proxied oid t pm sn ck)"
    using completeGate_not_proxied by (metis snd_conv)
  ultimately consider k i where "serve_host env c rnd now (hq_headers q) ?info k i g = (g', Proxied oid t pm sn ck)"
    | "serve_base env c rnd now q ?info g = (g', Proxied oid t pm sn ck)"
    using h by (auto simp: handleRequest_def Let_def split: if_splits host_kind.splits)
  then have ok: ?ok
  proof cases
    case 1
    from serve_host_Proxied [OF this] show ?thesis by blast
  next
    case 2
    then obtain v where "serveSelected env c rnd now (hq_headers q) ?info (to_lower v) g = (g', Proxied oid t pm sn ck)"
      using serve_base_Proxied by blast
    from serveSelected_Proxied [OF this] show ?thesis by blast
  qed
  from ok show "\<exists>i. get_tunnel i (g_registry g) = Some (oid, t)" "tunnel_online (g_registry g) t"
    "let_in env now (hq_headers q) (ri_clientIp ?info) t g" by blast+
next
  let ?info = "request_info_of c q"
  assume h: "handleUpgrade env c now q g = (g', Joined oid t pm)"
  then obtain cu pm' found where u: "upgrade_target env c now q ?info cu pm' found g = (g', Joined oid t pm)"
    and f: "(\<exists>k. found = hostTunnel (g_registry g) k) \<or> (\<exists>i ms. found = tunnelFor (g_registry g) i ms)"
    by (auto simp: handleUpgrade_def Let_def split: if_splits host_kind.splits option.splits) blast
  from upgrade_target_Joined [OF u] f show "\<exists>i. get_tunnel i (g_registry g) = Some (oid, t)" "tunnel_online (g_registry g) t"
    "let_in env now (hq_headers q) (ri_clientIp ?info) t g"
    using hostTunnel_Found tunnelFor_Found by metis+
qed

definition sample_env :: environment where
  "sample_env = \<lparr>e_scrypt = (\<lambda>_ _ _. []), e_absent = [], e_db = sample_db, e_lookup = (\<lambda>_. sample_details), e_challenge = (\<lambda>_. None),
     e_secured = (\<lambda>_. False), e_custom = (\<lambda>_. None), e_file = (\<lambda>_. False), e_script = (\<lambda>_. [])\<rparr>"

definition sample_hconfig :: hconfig where
  "sample_hconfig = \<lparr>h_ready = True, h_setupRequired = False, h_baseDomain = ''t.example'', h_trustProxy = False,
     h_publicUrl = ''https://t.example'', h_httpsPort = 443\<rparr>"

definition sample_registry :: registry where
  "sample_registry = \<lparr>objs = [(0, sample_tunnel\<lparr>tn_session := Some 0, tn_policy := emptyPolicy\<lparr>auth := ''password''\<rparr>\<rparr>)], names = [(''web'', 0)],
     sess = [(0, \<lparr>rs_closed = False, rs_account = None, rs_guest = None, rs_credential = None, rs_ip = [], rs_saidBye = False, rs_tunnel = Some 0, rs_byes = [], rs_listeners = []\<rparr>)],
     nextObj = 1, timers = [], events = [], table = []\<rparr>"

definition sample_gateway :: gateway where
  "sample_gateway = \<lparr>g_registry = sample_registry, g_access = (new_AccessStore TTL)\<lparr>tokens := [(''tok'', \<lparr>t_tunnelId = ''web'', t_expiresAt = 100\<rparr>)]\<rparr>,
     g_attempts = new_limiter 1000 5, g_visitors = new_Visitors, g_traffic = new_TrafficLog, g_frames = new_FrameLog, g_stats = []\<rparr>"

definition sample_request :: http_request where
  "sample_request = \<lparr>hq_method = ''GET'', hq_url = \<lparr>pu_pathname = ''/'', pu_search = [], pu_params = []\<rparr>, hq_raw = ''/'',
     hq_headers = [(''host'', HOne ''web.t.example''), (''cookie'', HOne ''tunlit-access=tok'')], hq_remote = ''10.0.0.1'', hq_encrypted = True\<rparr>"

theorem gate_guards_tunnels_witness:
  "\<exists>g' t. handleRequest sample_env sample_hconfig [] 50 sample_request sample_gateway = (g', Proxied 0 t False None None) \<and>
     let_in sample_env 50 (hq_headers sample_request) ''10.0.0.1'' t sample_gateway"
proof -
  have "snd (handleRequest sample_env sample_hconfig [] 50 sample_request sample_gateway) =
      Proxied 0 (snd (the (get_tunnel ''web'' sample_registry))) False None None" by code_simp
  then obtain g' t where h: "handleRequest sample_env sample_hconfig [] 50 sample_request sample_gateway = (g', Proxied 0 t False None None)"
    by (metis prod.collapse)
  have ip: "ri_clientIp (request_info_of sample_hconfig sample_request) = ''10.0.0.1''" by code_simp
  from gate_guards_tunnels [of sample_env sample_hconfig "[]" 50 sample_request sample_gateway g' 0 t False None None] h ip
  show ?thesis by auto
qed

end
