(* ===== verification/Domains.thy ===== *)
theory Domains
  imports Tables Js
begin

text \<open>
  Custom domains (src/server/lib/domains.js and the columns of src/server/models/Domain.js):
  hostnames that an account points at one of its persistent tunnels. The manager keeps the
  Map \<open>byHost\<close> from hostname to tunnel name beside the rows of the database, and the Map
  \<open>checking\<close> (here \<open>checks_running\<close>) of verifications that have not returned.

  Every await is a point where other operations run. An addition is therefore split at
  Domain.create into its checks, the insertion and the assignment to \<open>byHost\<close>; a removal at
  Domain.destroy; a verification at the DNS answers and at the issuing of a certificate. The
  step relation \<open>domain_step\<close> interleaves the parts freely, and \<open>add_domain\<close> and
  \<open>remove_domain\<close> are the uninterrupted calls. The answers of the DNS resolver and of the
  certificate manager are arguments.
\<close>

record domain_row =
  dr_hostname :: string
  dr_tunnelName :: string
  dr_accountId :: nat
  dr_state :: string
  dr_lastError :: "string option"
  dr_checkedAt :: "time option"
  dr_createdAt :: time

datatype phase = Resolving | Issuing

record domains =
  byHost :: "(string, string) jsmap"
  checks_running :: "(string, phase) jsmap"
  dom_rows :: "domain_row list"
  forgotten :: "string list"

definition UNSETTLED :: "string list" where
  "UNSETTLED = [''pending'', ''issuing'', ''error'']"

text \<open>The hostname pattern: labels of at most 63 characters that neither start nor end with a
  hyphen, at least one of them before a top level that starts with a letter, 253 in all.\<close>

definition host_char :: "char \<Rightarrow> bool" where
  "host_char c = (is_lower c \<or> is_digit c \<or> c = CHR ''-'')"

definition host_label :: "string \<Rightarrow> bool" where
  "host_label l = (l \<noteq> [] \<and> length l \<le> 63 \<and> list_all host_char l \<and> hd l \<noteq> CHR ''-'' \<and> last l \<noteq> CHR ''-'')"

definition top_label :: "string \<Rightarrow> bool" where
  "top_label l = (l \<noteq> [] \<and> length l \<le> 63 \<and> list_all host_char l \<and> is_lower (hd l))"

definition HOSTNAME :: "string \<Rightarrow> bool" where
  "HOSTNAME s =
     (let ls = split_on (CHR ''.'') s
      in 1 \<le> length s \<and> length s \<le> 253 \<and> 2 \<le> length ls \<and> list_all host_label (butlast ls) \<and> top_label (last ls))"

definition normalize_host :: "jsval \<Rightarrow> string" where
  "normalize_host hostname =
     (let h = to_lower (trim (string_or hostname []))
      in if h \<noteq> [] \<and> last h = CHR ''.'' then butlast h else h)"

definition validate_host :: "string \<Rightarrow> string \<Rightarrow> string result" where
  "validate_host base hostname =
     (if \<not> HOSTNAME hostname
      then Inl (Err ''bad_request'' (''\"'' @ hostname @ ''\" is not a valid hostname''))
      else if hostname = base \<or> ends_with (''.'' @ base) hostname
      then Inl (Err ''bad_request'' (''Names under '' @ base @ '' are handled by the server itself''))
      else Inr hostname)"

definition new_DomainManager :: "domain_row list \<Rightarrow> domains" where
  "new_DomainManager rows = \<lparr>byHost = [], checks_running = [], dom_rows = rows, forgotten = []\<rparr>"

definition load_domains :: "domains \<Rightarrow> domains" where
  "load_domains d = d\<lparr>byHost := fold (\<lambda>r m. map_set (dr_hostname r) (dr_tunnelName r) m) (dom_rows d) []\<rparr>"

definition domain_tunnel :: "string \<Rightarrow> domains \<Rightarrow> string option" where
  "domain_tunnel hostname d =
     (case map_get (byHost d) hostname of None \<Rightarrow> None | Some n \<Rightarrow> if n = [] then None else Some n)"

definition countFor :: "nat \<Rightarrow> domains \<Rightarrow> nat" where
  "countFor accountId d = length (filter (\<lambda>r. dr_accountId r = accountId) (dom_rows d))"

definition hostsFor :: "string \<Rightarrow> domains \<Rightarrow> string list" where
  "hostsFor tunnelName d = map fst (filter (\<lambda>(_, name). name = tunnelName) (byHost d))"

record 'c domain_view =
  dv_hostname :: string
  dv_tunnel :: string
  dv_state :: string
  dv_error :: "string option"
  dv_checkedAt :: "time option"
  dv_createdAt :: time
  dv_url :: string
  dv_certificate :: "'c"

definition describe_domain :: "string \<Rightarrow> (string \<Rightarrow> 'c) \<Rightarrow> domain_row \<Rightarrow> 'c domain_view" where
  "describe_domain scheme info row =
     \<lparr>dv_hostname = dr_hostname row, dv_tunnel = dr_tunnelName row, dv_state = dr_state row,
      dv_error = (case dr_lastError row of Some (c # cs) \<Rightarrow> Some (c # cs) | _ \<Rightarrow> None),
      dv_checkedAt = dr_checkedAt row, dv_createdAt = dr_createdAt row,
      dv_url = scheme @ ''://'' @ dr_hostname row, dv_certificate = info (dr_hostname row)\<rparr>"

definition listFor :: "string \<Rightarrow> (string \<Rightarrow> 'c) \<Rightarrow> string \<Rightarrow> domains \<Rightarrow> 'c domain_view list" where
  "listFor scheme info tunnelName d =
     map (describe_domain scheme info)
       (sort_key (\<lambda>r. map ord (dr_hostname r)) (filter (\<lambda>r. dr_tunnelName r = tunnelName) (dom_rows d)))"

subsection \<open>Verification\<close>

text \<open>What the resolver answers; a failed lookup is the empty list.\<close>

record dns_answer =
  dns_cname :: "string \<Rightarrow> string list"
  dns_4 :: "string \<Rightarrow> string list"
  dns_6 :: "string \<Rightarrow> string list"

definition addresses :: "dns_answer \<Rightarrow> string \<Rightarrow> string list" where
  "addresses dns name = dns_4 dns name @ dns_6 dns name"

definition pointsHere :: "string \<Rightarrow> dns_answer \<Rightarrow> string \<Rightarrow> bool" where
  "pointsHere base dns hostname =
     (if list_ex (\<lambda>target. normalize_host (JStr target) = base) (dns_cname dns hostname) then True
      else let expected = js_set (addresses dns base)
           in if expected = [] then False
              else list_ex (\<lambda>address. address \<in> set expected) (addresses dns hostname))"

definition update_domain :: "time \<Rightarrow> string \<Rightarrow> string \<Rightarrow> string option \<Rightarrow> domains \<Rightarrow> domains" where
  "update_domain now hostname state lastError d =
     d\<lparr>dom_rows := map (\<lambda>r. if dr_hostname r = hostname
         then r\<lparr>dr_state := state, dr_lastError := lastError, dr_checkedAt := Some now\<rparr> else r) (dom_rows d)\<rparr>"

text \<open>check starts at most one verification of a hostname.\<close>

definition check_domain :: "string \<Rightarrow> domains \<Rightarrow> domains" where
  "check_domain hostname d =
     (if map_get (byHost d) hostname = None then d
      else if map_get (checks_running d) hostname = None
      then d\<lparr>checks_running := map_set hostname Resolving (checks_running d)\<rparr>
      else d)"

definition check_done :: "string \<Rightarrow> domains \<Rightarrow> domains" where
  "check_done hostname d = d\<lparr>checks_running := map_delete hostname (checks_running d)\<rparr>"

text \<open>verify up to the issuing of a certificate, and after it. \<open>due\<close> stands for dueFor of the
  certificate manager and \<open>issued\<close> for the outcome of issueFor.\<close>

definition verify_resolved ::
  "string \<Rightarrow> bool \<Rightarrow> (string \<Rightarrow> bool) \<Rightarrow> dns_answer \<Rightarrow> time \<Rightarrow> string \<Rightarrow> domains \<Rightarrow> domains" where
  "verify_resolved base managesTls due dns now hostname d =
     (if \<not> pointsHere base dns hostname
      then check_done hostname
             (update_domain now hostname ''pending'' (Some (hostname @ '' does not point at '' @ base @ '' yet'')) d)
      else if \<not> managesTls \<or> \<not> due hostname
      then check_done hostname (update_domain now hostname ''active'' None d)
      else (update_domain now hostname ''issuing'' None d)\<lparr>checks_running := map_set hostname Issuing (checks_running d)\<rparr>)"

definition verify_issued :: "string option \<Rightarrow> time \<Rightarrow> string \<Rightarrow> domains \<Rightarrow> domains" where
  "verify_issued issued now hostname d =
     check_done hostname
       (case issued of
          None \<Rightarrow> update_domain now hostname ''active'' None d
        | Some message \<Rightarrow> update_domain now hostname ''error'' (Some message) d)"

text \<open>recheck: the hostnames it checks one after the other.\<close>

definition recheck_hosts :: "domains \<Rightarrow> string list" where
  "recheck_hosts d = map dr_hostname (filter (\<lambda>r. dr_state r \<in> set UNSETTLED) (dom_rows d))"

subsection \<open>Adding and removing\<close>

definition add_check :: "string \<Rightarrow> jsval \<Rightarrow> domains \<Rightarrow> string result" where
  "add_check base rawHostname d =
     bind (validate_host base (normalize_host rawHostname)) (\<lambda>hostname.
       if map_get (byHost d) hostname \<noteq> None
       then Inl (Err ''conflict'' (hostname @ '' is already in use''))
       else Inr hostname)"

text \<open>Domain.create with the defaults of the table; the column hostname is unique.\<close>

definition UNIQUE_ERROR :: err where
  "UNIQUE_ERROR = Err [] ''Validation error''"

definition create_row :: "time \<Rightarrow> string \<Rightarrow> string \<Rightarrow> nat \<Rightarrow> domains \<Rightarrow> (domains \<times> domain_row) result" where
  "create_row now hostname tunnelName accountId d =
     (if hostname \<in> dr_hostname ` set (dom_rows d) then Inl UNIQUE_ERROR
      else let row = \<lparr>dr_hostname = hostname, dr_tunnelName = tunnelName, dr_accountId = accountId,
                       dr_state = ''pending'', dr_lastError = None, dr_checkedAt = None, dr_createdAt = now\<rparr>
           in Inr (d\<lparr>dom_rows := dom_rows d @ [row]\<rparr>, row))"

definition add_commit :: "string \<Rightarrow> string \<Rightarrow> domains \<Rightarrow> domains" where
  "add_commit hostname tunnelName d =
     check_domain hostname (d\<lparr>byHost := map_set hostname tunnelName (byHost d)\<rparr>)"

definition add_domain :: "string \<Rightarrow> time \<Rightarrow> jsval \<Rightarrow> string \<Rightarrow> nat \<Rightarrow> domains \<Rightarrow> (domains \<times> domain_row) result" where
  "add_domain base now rawHostname tunnelName accountId d =
     bind (add_check base rawHostname d) (\<lambda>hostname.
     bind (create_row now hostname tunnelName accountId d) (\<lambda>(d', row).
       Inr (add_commit hostname tunnelName d', row)))"

definition destroy_row :: "string \<Rightarrow> domains \<Rightarrow> domains" where
  "destroy_row hostname d = d\<lparr>dom_rows := filter (\<lambda>r. dr_hostname r \<noteq> hostname) (dom_rows d)\<rparr>"

definition remove_commit :: "string \<Rightarrow> domains \<Rightarrow> domains" where
  "remove_commit hostname d = d\<lparr>byHost := map_delete hostname (byHost d), forgotten := forgotten d @ [hostname]\<rparr>"

definition remove_domain :: "string \<Rightarrow> domains \<Rightarrow> domains" where
  "remove_domain hostname d = remove_commit hostname (destroy_row hostname d)"

definition removeForTunnel :: "string \<Rightarrow> domains \<Rightarrow> domains" where
  "removeForTunnel tunnelName d = fold remove_domain (hostsFor tunnelName d) d"

subsection \<open>Interleaved operations\<close>

record domain_sys =
  ds_d :: domains
  ds_adding :: "(string \<times> string \<times> nat) list"
  ds_created :: "(string \<times> string) list"
  ds_removing :: "string list"

definition domain_start :: "domain_row list \<Rightarrow> domain_sys" where
  "domain_start rows =
     \<lparr>ds_d = load_domains (new_DomainManager rows), ds_adding = [], ds_created = [], ds_removing = []\<rparr>"

inductive domain_step :: "string \<Rightarrow> bool \<Rightarrow> domain_sys \<Rightarrow> domain_sys \<Rightarrow> bool" for base :: string and tls :: bool where
  AddCheck: "add_check base raw (ds_d s) = Inr h \<Longrightarrow>
    domain_step base tls s (s\<lparr>ds_adding := ds_adding s @ [(h, n, a)]\<rparr>)"
| AddCreate: "(h, n, a) \<in> set (ds_adding s) \<Longrightarrow> create_row now h n a (ds_d s) = Inr (d', row) \<Longrightarrow>
    domain_step base tls s (s\<lparr>ds_d := d', ds_adding := remove1 (h, n, a) (ds_adding s), ds_created := ds_created s @ [(h, n)]\<rparr>)"
| AddReject: "(h, n, a) \<in> set (ds_adding s) \<Longrightarrow> create_row now h n a (ds_d s) = Inl e \<Longrightarrow>
    domain_step base tls s (s\<lparr>ds_adding := remove1 (h, n, a) (ds_adding s)\<rparr>)"
| AddCommit: "(h, n) \<in> set (ds_created s) \<Longrightarrow>
    domain_step base tls s (s\<lparr>ds_d := add_commit h n (ds_d s), ds_created := remove1 (h, n) (ds_created s)\<rparr>)"
| RemoveStart: "domain_step base tls s (s\<lparr>ds_d := destroy_row h (ds_d s), ds_removing := h # ds_removing s\<rparr>)"
| RemoveCommit: "h \<in> set (ds_removing s) \<Longrightarrow>
    domain_step base tls s (s\<lparr>ds_d := remove_commit h (ds_d s), ds_removing := remove1 h (ds_removing s)\<rparr>)"
| Check: "domain_step base tls s (s\<lparr>ds_d := check_domain h (ds_d s)\<rparr>)"
| Resolved: "map_get (checks_running (ds_d s)) h = Some Resolving \<Longrightarrow>
    domain_step base tls s (s\<lparr>ds_d := verify_resolved base tls due dns now h (ds_d s)\<rparr>)"
| Issued: "map_get (checks_running (ds_d s)) h = Some Issuing \<Longrightarrow>
    domain_step base tls s (s\<lparr>ds_d := verify_issued outcome now h (ds_d s)\<rparr>)"

text \<open>A hostname a custom domain may have: well formed and not served by the server itself.\<close>

definition custom_host :: "string \<Rightarrow> string \<Rightarrow> bool" where
  "custom_host base h = (HOSTNAME h \<and> h \<noteq> base \<and> \<not> ends_with (''.'' @ base) h)"

definition domain_inv :: "string \<Rightarrow> domain_sys \<Rightarrow> bool" where
  "domain_inv base s =
     (distinct (map dr_hostname (dom_rows (ds_d s))) \<and>
      (\<forall>r \<in> set (dom_rows (ds_d s)). custom_host base (dr_hostname r)) \<and>
      (\<forall>h \<in> fst ` set (byHost (ds_d s)). custom_host base h) \<and>
      (\<forall>x \<in> set (ds_adding s). custom_host base (fst x)) \<and>
      (\<forall>x \<in> set (ds_created s). custom_host base (fst x)) \<and>
      wf_map (byHost (ds_d s)) \<and> wf_map (checks_running (ds_d s)))"

lemma add_check_custom: "add_check base raw d = Inr h \<Longrightarrow> custom_host base h"
  by (auto simp: add_check_def validate_host_def custom_host_def split: if_splits)

lemma update_domain_sel [simp]:
  "byHost (update_domain now h st e d) = byHost d" "checks_running (update_domain now h st e d) = checks_running d"
  "map dr_hostname (dom_rows (update_domain now h st e d)) = map dr_hostname (dom_rows d)"
  by (simp_all add: update_domain_def)

lemma update_domain_hosts [simp]: "dr_hostname ` set (dom_rows (update_domain now h st e d)) = dr_hostname ` set (dom_rows d)"
  by (metis list.set_map update_domain_sel(3))

lemma update_domain_custom:
  "(\<forall>r \<in> set (dom_rows (update_domain now h st e d)). P (dr_hostname r)) = (\<forall>r \<in> set (dom_rows d). P (dr_hostname r))"
  by (simp only: ball_simps(9) [symmetric, where f = dr_hostname and P = P] update_domain_hosts)

lemma check_done_sel [simp]:
  "byHost (check_done h d) = byHost d" "dom_rows (check_done h d) = dom_rows d"
  "checks_running (check_done h d) = map_delete h (checks_running d)"
  by (simp_all add: check_done_def)

lemma check_domain_sel [simp]: "byHost (check_domain h d) = byHost d" "dom_rows (check_domain h d) = dom_rows d"
  by (simp_all add: check_domain_def)

lemma wf_check_domain [map_inv]: "wf_map (checks_running d) \<Longrightarrow> wf_map (checks_running (check_domain h d))"
  by (simp add: check_domain_def distinct_update)

lemma domain_step_inv:
  assumes "domain_step base tls s s'" "domain_inv base s"
  shows "domain_inv base s'"
  using assms
proof (induction rule: domain_step.induct)
  case (AddCheck raw s h n a)
  then show ?case by (auto simp: domain_inv_def dest: add_check_custom)
next
  case (AddCreate h n a s now d' row)
  from AddCreate have h: "custom_host base h" by (auto simp: domain_inv_def)
  have d': "dom_rows d' = dom_rows (ds_d s) @ [row]" "dr_hostname row = h" "h \<notin> dr_hostname ` set (dom_rows (ds_d s))"
    "byHost d' = byHost (ds_d s)" "checks_running d' = checks_running (ds_d s)"
    using AddCreate by (auto simp: create_row_def Let_def split: if_splits)
  show ?case using AddCreate(3) h by (auto simp: domain_inv_def d' dest: notin_set_remove1)
next
  case (AddReject h n a s now e)
  then show ?case by (auto simp: domain_inv_def dest: notin_set_remove1)
next
  case (AddCommit h n s)
  then show ?case
    by (auto simp: domain_inv_def add_commit_def intro!: wf_check_domain distinct_update dest: notin_set_remove1
        dest!: subsetD [OF set_map_set_subset])
next
  case (RemoveStart s h)
  then show ?case by (auto simp: domain_inv_def destroy_row_def distinct_map_filter)
next
  case (RemoveCommit h s)
  then show ?case by (auto simp: domain_inv_def remove_commit_def intro!: distinct_delete dest!: subsetD [OF set_map_delete_subset])
next
  case (Check s h)
  then show ?case by (auto simp: domain_inv_def intro: wf_check_domain)
next
  case (Resolved s h due dns now)
  then show ?case
    by (simp add: domain_inv_def verify_resolved_def update_domain_custom distinct_update distinct_delete)
next
  case (Issued s h outcome now)
  then show ?case
    by (simp add: domain_inv_def verify_issued_def update_domain_custom distinct_delete split: option.split)
qed

lemma domain_run_inv:
  "(domain_step base tls)\<^sup>*\<^sup>* s s' \<Longrightarrow> domain_inv base s \<Longrightarrow> domain_inv base s'"
  by (induction rule: rtranclp_induct) (auto intro: domain_step_inv)

lemma load_fold:
  "wf_map m \<Longrightarrow> wf_map (fold (\<lambda>r. map_set (dr_hostname r) (dr_tunnelName r)) rows m)"
  by (induction rows arbitrary: m) (auto simp: distinct_update)

lemma load_keys:
  "fst ` set (fold (\<lambda>r. map_set (dr_hostname r) (dr_tunnelName r)) rows m) \<subseteq> fst ` set m \<union> dr_hostname ` set rows"
proof (induction rows arbitrary: m)
  case (Cons r rows)
  have "fst ` set (map_set (dr_hostname r) (dr_tunnelName r) m) \<subseteq> insert (dr_hostname r) (fst ` set m)"
    using set_map_set_subset [of "dr_hostname r" "dr_tunnelName r" m] by auto
  with Cons [of "map_set (dr_hostname r) (dr_tunnelName r) m"] show ?case by auto
qed simp

definition rows_ok :: "string \<Rightarrow> domain_row list \<Rightarrow> bool" where
  "rows_ok base rows = (distinct (map dr_hostname rows) \<and> list_all (\<lambda>r. custom_host base (dr_hostname r)) rows)"

lemma domain_start_inv: "rows_ok base rows \<Longrightarrow> domain_inv base (domain_start rows)"
  using load_keys [of rows "[]"] load_fold [of "[]" rows]
  by (auto simp: domain_inv_def domain_start_def load_domains_def new_DomainManager_def rows_ok_def list_all_iff)

lemma domain_tunnel_key: "domain_tunnel h d = Some n \<Longrightarrow> h \<in> fst ` set (byHost d)"
  by (auto simp: domain_tunnel_def split: option.splits if_splits dest: map_of_SomeD intro: rev_image_eqI)

subsection \<open>The routes as an abstract map\<close>

text \<open>What the database says: the tunnel of each hostname.\<close>

definition routes :: "domains \<Rightarrow> string \<rightharpoonup> string" where
  "routes d = map_of (map (\<lambda>r. (dr_hostname r, dr_tunnelName r)) (dom_rows d))"

definition coherent :: "domains \<Rightarrow> bool" where
  "coherent d = (map_of (byHost d) = routes d \<and> wf_map (byHost d))"

lemma routes_same_rows:
  "dom_rows d' = dom_rows d \<Longrightarrow> routes d' = routes d"
  by (simp add: routes_def)

lemma routes_update_row [simp]: "routes (update_domain now h st e d) = routes d"
  by (auto simp: routes_def update_domain_def comp_def intro!: arg_cong [where f = map_of])

lemma create_row_routes:
  "create_row now h n a d = Inr (d', row) \<Longrightarrow> routes d' = (routes d)(h \<mapsto> n) \<and> byHost d' = byHost d"
  by (auto simp: create_row_def Let_def routes_def map_add_def fun_eq_iff image_iff
      split: if_splits option.split dest!: map_of_SomeD)

lemma destroy_row_routes: "routes (destroy_row h d) = (routes d)(h := None)"
proof -
  have "map_of (map (\<lambda>r. (dr_hostname r, dr_tunnelName r)) (filter (\<lambda>r. dr_hostname r \<noteq> h) rs)) k =
    ((map_of (map (\<lambda>r. (dr_hostname r, dr_tunnelName r)) rs))(h := None)) k" for k rs
    by (induction rs) auto
  note this [of "dom_rows d"]
  then show ?thesis
    by (intro ext) (simp add: routes_def destroy_row_def del: fun_upd_apply)
qed

lemma load_fold_map:
  "distinct (map dr_hostname rows) \<Longrightarrow>
   map_of (fold (\<lambda>r. map_set (dr_hostname r) (dr_tunnelName r)) rows m) k =
     (case map_of (map (\<lambda>r. (dr_hostname r, dr_tunnelName r)) rows) k of None \<Rightarrow> map_of m k | Some n \<Rightarrow> Some n)"
proof (induction rows arbitrary: m)
  case (Cons r rows)
  then show ?case
    by (auto split: option.split dest!: map_of_SomeD)
qed simp

lemma load_coherent: "distinct (map dr_hostname (dom_rows d)) \<Longrightarrow> coherent (load_domains d)"
  using load_fold [of "[]" "dom_rows d"]
  by (auto simp: coherent_def load_domains_def routes_def fun_eq_iff load_fold_map split: option.split)

lemma add_domain_routes:
  assumes "coherent d" "add_domain base now raw n a d = Inr (d', row)"
  shows "coherent d' \<and> routes d (dr_hostname row) = None \<and> routes d' = (routes d)(dr_hostname row \<mapsto> n)"
proof -
  obtain h d1 where h: "add_check base raw d = Inr h" and c: "create_row now h n a d = Inr (d1, row)"
    and d': "d' = add_commit h n d1"
    using assms(2) by (auto simp: add_domain_def)
  have row: "dr_hostname row = h" using c by (auto simp: create_row_def Let_def split: if_splits)
  have "map_of (byHost d) h = None" using h by (auto simp: add_check_def split: if_splits)
  then have "routes d h = None" using assms(1) by (simp add: coherent_def)
  moreover have "routes d' = routes d1" "byHost d' = map_set h n (byHost d1)"
    by (simp_all add: d' add_commit_def routes_def)
  ultimately show ?thesis
    using create_row_routes [OF c] assms(1) row by (auto simp: coherent_def distinct_update fun_eq_iff)
qed

lemma remove_domain_routes:
  assumes "coherent d"
  shows "coherent (remove_domain h d) \<and> routes (remove_domain h d) = (routes d)(h := None)"
proof -
  have "routes (remove_domain h d) = (routes d)(h := None)"
    using destroy_row_routes [of h d] by (simp add: remove_domain_def remove_commit_def routes_def)
  moreover have "byHost (remove_domain h d) = map_delete h (byHost d)"
    by (simp add: remove_domain_def remove_commit_def destroy_row_def)
  ultimately show ?thesis using assms by (auto simp: coherent_def distinct_delete fun_eq_iff)
qed

lemma remove_each_routes:
  "coherent d \<Longrightarrow> coherent (fold remove_domain hs d) \<and>
   routes (fold remove_domain hs d) = (\<lambda>k. if k \<in> set hs then None else routes d k)"
proof (induction hs arbitrary: d)
  case (Cons h hs)
  then show ?case using remove_domain_routes [OF Cons.prems, of h] by (auto simp: fun_eq_iff)
qed simp

lemma hostsFor_iff: "coherent d \<Longrightarrow> h \<in> set (hostsFor n d) \<longleftrightarrow> routes d h = Some n"
  by (auto simp: hostsFor_def coherent_def image_iff Map.map_of_eq_Some_iff simp flip: map_of_eq_Some_iff)

lemma verify_routes [simp]:
  "routes (verify_resolved base tls due dns now h d) = routes d"
  "routes (verify_issued outcome now h d) = routes d" "routes (check_domain h d) = routes d"
proof -
  have done_r: "routes (check_done h x) = routes x" for x by (simp add: routes_def)
  have run_r: "routes (x\<lparr>checks_running := y\<rparr>) = routes x" for x y by (simp add: routes_def)
  show "routes (verify_resolved base tls due dns now h d) = routes d"
    by (simp add: verify_resolved_def done_r run_r)
  show "routes (verify_issued outcome now h d) = routes d"
    by (simp add: verify_issued_def done_r split: option.split)
  show "routes (check_domain h d) = routes d" by (simp add: routes_def)
qed

subsection \<open>What custom domains promise\<close>

text \<open>
  C17. However the additions, removals and verifications of custom domains interleave, no two
  rows have the same hostname, and a hostname that is routed to a tunnel is a well formed
  hostname other than the base domain and outside it: a custom domain can never take over the
  server's own name or the name of another tunnel. At most one verification of a hostname runs.
\<close>

theorem custom_hosts_valid:
  assumes "rows_ok base rows" "(domain_step base tls)\<^sup>*\<^sup>* (domain_start rows) s"
  shows "distinct (map dr_hostname (dom_rows (ds_d s))) \<and> distinct (map fst (checks_running (ds_d s))) \<and>
    (\<forall>h n. domain_tunnel h (ds_d s) = Some n \<longrightarrow> HOSTNAME h \<and> h \<noteq> base \<and> \<not> ends_with (''.'' @ base) h)"
  using domain_run_inv [OF assms(2) domain_start_inv [OF assms(1)]]
  by (auto simp: domain_inv_def custom_host_def dest: domain_tunnel_key)

definition sample_row :: domain_row where
  "sample_row = \<lparr>dr_hostname = ''app.site.org'', dr_tunnelName = ''web'', dr_accountId = 1, dr_state = ''pending'',
     dr_lastError = None, dr_checkedAt = None, dr_createdAt = 0\<rparr>"

theorem custom_hosts_valid_witness:
  "distinct (map dr_hostname (dom_rows (check_domain ''app.site.org'' (load_domains (new_DomainManager [sample_row]))))) \<and>
   map_get (checks_running (check_domain ''app.site.org'' (load_domains (new_DomainManager [sample_row])))) ''app.site.org'' = Some Resolving"
proof -
  have ok: "rows_ok ''t.example'' [sample_row]" by code_simp
  have "(domain_step ''t.example'' True)\<^sup>*\<^sup>* (domain_start [sample_row])
    ((domain_start [sample_row])\<lparr>ds_d := check_domain ''app.site.org'' (ds_d (domain_start [sample_row]))\<rparr>)"
    by (intro r_into_rtranclp domain_step.Check)
  from custom_hosts_valid [OF ok this]
  have "distinct (map dr_hostname (dom_rows (check_domain ''app.site.org'' (load_domains (new_DomainManager [sample_row])))))"
    by (simp add: domain_start_def)
  moreover have "map_get (checks_running (check_domain ''app.site.org'' (load_domains (new_DomainManager [sample_row])))) ''app.site.org'' = Some Resolving"
    by code_simp
  ultimately show ?thesis by blast
qed

text \<open>
  C32. The Map of hostnames implements the table: where it agrees with the rows, as it does after
  load, an addition is refused or maps exactly its hostname, which no tunnel had, to its tunnel;
  a removal unmaps exactly its hostname; removing the domains of a tunnel unmaps exactly the
  hostnames of that tunnel; a verification changes no route; and the Map agrees with the rows
  again.
\<close>

theorem domain_routes_refine:
  assumes "coherent d"
  shows "(case add_domain base now raw n a d of
            Inl e \<Rightarrow> True
          | Inr (d', row) \<Rightarrow> coherent d' \<and> routes d (dr_hostname row) = None \<and> routes d' = (routes d)(dr_hostname row \<mapsto> n)) \<and>
    coherent (remove_domain h d) \<and> routes (remove_domain h d) = (routes d)(h := None) \<and>
    coherent (removeForTunnel n d) \<and> routes (removeForTunnel n d) = (\<lambda>k. if routes d k = Some n then None else routes d k) \<and>
    routes (verify_resolved base tls due dns now h d) = routes d \<and> routes (verify_issued outcome now h d) = routes d"
  using add_domain_routes [OF assms, of base now raw n a] remove_domain_routes [OF assms, of h]
    remove_each_routes [OF assms, of "hostsFor n d"] hostsFor_iff [OF assms]
  by (auto simp: removeForTunnel_def fun_eq_iff split: sum.split)

theorem domain_routes_refine_witness:
  "routes (removeForTunnel ''web'' (load_domains (new_DomainManager [sample_row]))) ''app.site.org'' = None \<and>
   routes (load_domains (new_DomainManager [sample_row])) ''app.site.org'' = Some ''web''"
proof -
  have c: "coherent (load_domains (new_DomainManager [sample_row]))"
    by (rule load_coherent) (simp add: new_DomainManager_def)
  have "routes (load_domains (new_DomainManager [sample_row])) ''app.site.org'' = Some ''web''" by code_simp
  then show ?thesis using domain_routes_refine [OF c, where n = "''web''"] by simp
qed

text \<open>
  A domain becomes active without a certificate being issued only when it points at the
  server: an alias for the base domain, or an address that the base domain has too; and, where
  the server manages certificates itself, only when none is due.
\<close>

theorem active_points_here:
  assumes "\<exists>r \<in> set (dom_rows (verify_resolved base tls due dns now h d)). dr_hostname r = h \<and> dr_state r = ''active''"
  shows "((\<exists>t \<in> set (dns_cname dns h). normalize_host (JStr t) = base) \<or>
      set (dns_4 dns base @ dns_6 dns base) \<inter> set (dns_4 dns h @ dns_6 dns h) \<noteq> {}) \<and> (tls \<longrightarrow> \<not> due h)"
proof -
  have st: "dr_state r = st" if r: "r \<in> set (dom_rows (update_domain now h st e d))" "dr_hostname r = h" for r st e
  proof -
    obtain r0 where "r = (if dr_hostname r0 = h then r0\<lparr>dr_state := st, dr_lastError := e, dr_checkedAt := Some now\<rparr> else r0)"
      using r(1) by (simp add: update_domain_def del: image_iff if_image_distrib) (erule imageE, blast)
    with r(2) show ?thesis by (cases "dr_hostname r0 = h") simp_all
  qed
  obtain r where r: "r \<in> set (dom_rows (verify_resolved base tls due dns now h d))" "dr_hostname r = h" "dr_state r = ''active''"
    using assms by blast
  have p: "pointsHere base dns h \<and> (tls \<longrightarrow> \<not> due h)"
    using r(1,3) st [OF _ r(2)] unfolding verify_resolved_def by (fastforce split: if_splits)
  then show ?thesis
    by (auto simp: pointsHere_def addresses_def list_ex_iff Let_def split: if_splits)
qed

definition sample_dns :: dns_answer where
  "sample_dns = \<lparr>dns_cname = (\<lambda>h. if h = ''app.site.org'' then [''T.example.''] else []), dns_4 = (\<lambda>_. []), dns_6 = (\<lambda>_. [])\<rparr>"

theorem active_points_here_witness:
  "normalize_host (JStr ''T.example.'') = ''t.example'' \<and>
   dr_state (hd (dom_rows (verify_resolved ''t.example'' False (\<lambda>_. True) sample_dns 7 ''app.site.org'' (new_DomainManager [sample_row])))) = ''active''"
proof -
  have n: "normalize_host (JStr ''T.example.'') = ''t.example''" by code_simp
  then have "pointsHere ''t.example'' sample_dns ''app.site.org''" by (simp add: pointsHere_def sample_dns_def)
  then have a: "dom_rows (verify_resolved ''t.example'' False (\<lambda>_. True) sample_dns 7 ''app.site.org'' (new_DomainManager [sample_row])) =
    [sample_row\<lparr>dr_state := ''active'', dr_checkedAt := Some 7\<rparr>]"
    by (simp add: verify_resolved_def update_domain_def new_DomainManager_def sample_row_def)
  have "\<exists>r \<in> set (dom_rows (verify_resolved ''t.example'' False (\<lambda>_. True) sample_dns 7 ''app.site.org'' (new_DomainManager [sample_row]))).
    dr_hostname r = ''app.site.org'' \<and> dr_state r = ''active''"
    unfolding a by (simp add: sample_row_def)
  from active_points_here [OF this] show ?thesis unfolding a using n by (simp add: sample_dns_def)
qed

end
