(* ===== verification/TunnelsApi.thy ===== *)
theory TunnelsApi
  imports RegistryLife AccessStore Breakpoints Traffic ProxyFlow Domains
begin

text \<open>
  The handlers of the web interface that read and change tunnels
  (src/server/controllers/tunnels.js, persistent.js and quotas.js). A handler gets the viewer of
  the request and answers with a status code and a message, or with a value. Its effects are on
  the registry with the table of persistent tunnels, the access tokens, the breakpoints, the
  custom domains and the messages sent to the sessions of the command line clients. A handler
  is modelled as one step: what the database answers within it is what the model's tables hold.
\<close>

record viewer =
  vw_role :: string
  vw_account :: nat
  vw_username :: string

datatype 'v reply = Refuse nat string | Reply string 'v

record api =
  ap_registry :: registry
  ap_access :: access_store
  ap_bps :: breakpoints
  ap_domains :: domains
  ap_sent :: "(nat \<times> string option) list"

definition NOT_FOUND :: "'v reply" where
  "NOT_FOUND = Refuse 404 ''Tunnel not found''"

definition isAdmin :: "viewer \<Rightarrow> bool" where
  "isAdmin v = (vw_role v = ''admin'')"

definition mayTouch :: "tunnel option \<Rightarrow> viewer \<Rightarrow> bool" where
  "mayTouch t v = (case t of None \<Rightarrow> False | Some t \<Rightarrow> vw_role v = ''admin'' \<or> tn_accountId t = Some (vw_account v))"

text \<open>The tunnel registered under a name, when the viewer may touch it.\<close>

definition touched :: "string \<Rightarrow> viewer \<Rightarrow> registry \<Rightarrow> (nat \<times> tunnel) option" where
  "touched i v r = (if mayTouch (map_option snd (get_tunnel i r)) v then get_tunnel i r else None)"

definition announceAccess :: "tunnel \<Rightarrow> api \<Rightarrow> api" where
  "announceAccess t a =
     (case tn_session t of
        None \<Rightarrow> a
      | Some s \<Rightarrow> (case map_get (sess (ap_registry a)) s of
                    None \<Rightarrow> a
                  | Some x \<Rightarrow> if rs_closed x then a else a\<lparr>ap_sent := ap_sent a @ [(s, summarizePolicy (tn_policy t))]\<rparr>))"

subsection \<open>Reading\<close>

record tunnel_view =
  tv_id :: string
  tv_mode :: string
  tv_target :: string
  tv_url :: "string option"
  tv_customUrls :: "string list"
  tv_persistent :: bool
  tv_shareCode :: "string option"
  tv_online :: bool
  tv_graceUntil :: "time option"
  tv_joiners :: nat
  tv_createdAt :: time
  tv_owner :: "string option"
  tv_guest :: "string option"
  tv_access :: policy_view

definition serializeTunnel :: "rconfig \<Rightarrow> api \<Rightarrow> tunnel \<Rightarrow> tunnel_view" where
  "serializeTunnel c a t =
     \<lparr>tv_id = tn_id t, tv_mode = tn_mode t, tv_target = tg_authority (tn_target t), tv_url = publicUrl c t,
      tv_customUrls = customUrls c (\<lambda>n. hostsFor n (ap_domains a)) t, tv_persistent = tn_persistent t,
      tv_shareCode = shareCode t, tv_online = tunnel_online (ap_registry a) t, tv_graceUntil = tn_graceUntil t,
      tv_joiners = length (tn_joiners t), tv_createdAt = tn_createdAt t, tv_owner = tn_owner t, tv_guest = tn_guest t,
      tv_access = describePolicy (tn_policy t)\<rparr>"

text \<open>What control.js puts on a session as session.client, and the number of its streams.\<close>

record client_view =
  cv_id :: string
  cv_ip :: string
  cv_connectedAt :: "time option"
  cv_streams :: nat

definition serializeClients :: "(nat \<Rightarrow> client_view) \<Rightarrow> tunnel \<Rightarrow> client_view list" where
  "serializeClients client t =
     sort_key (\<lambda>v. case cv_connectedAt v of None \<Rightarrow> 0 | Some since \<Rightarrow> since) (map client (tn_joiners t))"

definition getTunnel ::
  "rconfig \<Rightarrow> (nat \<Rightarrow> client_view) \<Rightarrow> (string \<Rightarrow> nat) \<Rightarrow> string \<Rightarrow> viewer \<Rightarrow> api \<Rightarrow> (tunnel_view \<times> nat \<times> client_view list option) option" where
  "getTunnel c client count i v a =
     (case touched i v (ap_registry a) of
        None \<Rightarrow> None
      | Some (_, t) \<Rightarrow>
          Some (serializeTunnel c a t, count i, if tn_mode t = ''tcp'' then Some (serializeClients client t) else None))"

definition live_tunnels :: "registry \<Rightarrow> tunnel list" where
  "live_tunnels r = List.map_filter (\<lambda>(_, oid). map_get (objs r) oid) (names r)"

definition listTunnels :: "rconfig \<Rightarrow> viewer \<Rightarrow> api \<Rightarrow> tunnel_view list" where
  "listTunnels c v a =
     map (serializeTunnel c a)
       (sort_key (\<lambda>t. - tn_createdAt t) (filter (\<lambda>t. mayTouch (Some t) v) (live_tunnels (ap_registry a))))"

subsection \<open>Clients of a TCP tunnel\<close>

definition tcpTunnel :: "string \<Rightarrow> viewer \<Rightarrow> api \<Rightarrow> (nat \<times> tunnel) reply" where
  "tcpTunnel i v a =
     (case touched i v (ap_registry a) of
        None \<Rightarrow> NOT_FOUND
      | Some (oid, t) \<Rightarrow>
          if tn_mode t \<noteq> ''tcp'' then Refuse 400 ''Only tcp tunnels have clients'' else Reply [] (oid, t))"

definition KICKED :: string where
  "KICKED = ''disconnected by the administrator''"

definition disconnectClient :: "(nat \<Rightarrow> client_view) \<Rightarrow> string \<Rightarrow> string \<Rightarrow> viewer \<Rightarrow> api \<Rightarrow> api \<times> unit reply" where
  "disconnectClient client i clientId v a =
     (case tcpTunnel i v a of
        Refuse code message \<Rightarrow> (a, Refuse code message)
      | Reply _ (oid, t) \<Rightarrow>
          (case find (\<lambda>s. cv_id (client s) = clientId) (tn_joiners t) of
             None \<Rightarrow> (a, Refuse 404 ''Client not connected'')
           | Some s \<Rightarrow>
               (a\<lparr>ap_registry := on_tunnel oid (\<lambda>t. t\<lparr>tn_joiners := filter (\<lambda>j. j \<noteq> s) (tn_joiners t)\<rparr>)
                    (endSession (Some s) KICKED 4003 (ap_registry a))\<rparr>,
                Reply ''Client disconnected'' ())))"

definition disconnectAllClients :: "string \<Rightarrow> viewer \<Rightarrow> api \<Rightarrow> api \<times> unit reply" where
  "disconnectAllClients i v a =
     (case tcpTunnel i v a of
        Refuse code message \<Rightarrow> (a, Refuse code message)
      | Reply _ (oid, t) \<Rightarrow>
          let count = length (tn_joiners t)
          in (a\<lparr>ap_registry := on_tunnel oid (\<lambda>t. t\<lparr>tn_joiners := []\<rparr>) (end_each (tn_joiners t) KICKED 4003 (ap_registry a))\<rparr>,
              Reply (''Disconnected '' @ show_nat count @ (if count = 1 then '' client'' else '' clients'')) ()))"

subsection \<open>Access\<close>

text \<open>\<open>{ ...input, password: input.password || undefined }\<close> of the body of a request, an object.\<close>

definition with_password :: "jsval \<Rightarrow> jsval" where
  "with_password input =
     (case input of
        JObj kvs \<Rightarrow> JObj (map_set ''password'' (if truthy (js_get input ''password'') then js_get input ''password'' else JUndef) kvs)
      | _ \<Rightarrow> JObj [(''password'', JUndef)])"

definition policyFrom ::
  "(string \<Rightarrow> bytes \<Rightarrow> nat \<Rightarrow> bytes) \<Rightarrow> bytes \<Rightarrow> jsval \<Rightarrow> policy \<Rightarrow> policy reply" where
  "policyFrom scrypt salt input previous =
     (case buildPolicy scrypt salt (with_password input) previous of
        Inl e \<Rightarrow> Refuse (if err_code e = ''bad_request'' then 400 else 500) (err_message e)
      | Inr p \<Rightarrow> Reply [] p)"

definition updateAccess ::
  "(string \<Rightarrow> bytes \<Rightarrow> nat \<Rightarrow> bytes) \<Rightarrow> bytes \<Rightarrow> string \<Rightarrow> jsval \<Rightarrow> viewer \<Rightarrow> api \<Rightarrow> api \<times> policy_view reply" where
  "updateAccess scrypt salt i input v a =
     (case touched i v (ap_registry a) of
        None \<Rightarrow> (a, NOT_FOUND)
      | Some (oid, t) \<Rightarrow>
          (case policyFrom scrypt salt input (tn_policy t) of
             Refuse code message \<Rightarrow> (a, Refuse code message)
           | Reply _ p \<Rightarrow>
               let r1 = on_tunnel oid (\<lambda>t. t\<lparr>tn_policy := p\<rparr>) (ap_registry a);
                   r2 = (if tn_persistent t then r1\<lparr>table := savePolicy (tn_id t) p (table r1)\<rparr> else r1)
               in (announceAccess (t\<lparr>tn_policy := p\<rparr>) (a\<lparr>ap_registry := r2, ap_access := forget_tunnel i (ap_access a)\<rparr>),
                   Reply ''Access updated'' (describePolicy p))))"

definition closeTunnel :: "string \<Rightarrow> viewer \<Rightarrow> api \<Rightarrow> api \<times> unit reply" where
  "closeTunnel i v a =
     (if touched i v (ap_registry a) = None then (a, NOT_FOUND)
      else (a\<lparr>ap_registry := remove i ''closed from the web UI'' (ap_registry a)\<rparr>, Reply ''Tunnel closed'' ()))"

subsection \<open>Edited requests: replay and breakpoints\<close>

text \<open>Headers, the body in base64, its size and whether it was cut: the part of a stored message.\<close>

type_synonym stored_part = "(string \<times> string) list \<times> string option \<times> nat \<times> bool"

fun header_pair :: "jsval \<Rightarrow> (string \<times> string) option" where
  "header_pair (JArr [name, value]) = Some (trim (js_string name), trim (js_string value))"
| "header_pair _ = None"

definition edited_headers :: "jsval \<Rightarrow> (string \<times> string) list result" where
  "edited_headers v =
     (case v of
        JArr pairs \<Rightarrow>
          if list_ex (\<lambda>p. header_pair p = None) pairs
          then Inl (Err [] ''Headers must be a list of [name, value] pairs'')
          else Inr (filter (\<lambda>(name, _). name \<noteq> []) (List.map_filter header_pair pairs))
      | _ \<Rightarrow> Inl (Err [] ''Headers must be a list of [name, value] pairs''))"

definition editedPart :: "stored_part \<Rightarrow> jsval \<Rightarrow> stored_part result" where
  "editedPart stored input =
     (case stored of (headers, body, sz, truncated) \<Rightarrow>
        bind (if js_get input ''headers'' = JUndef then Inr headers else edited_headers (js_get input ''headers'')) (\<lambda>hs.
        if js_get input ''body'' = JUndef then Inr (hs, body, sz, truncated)
        else let b = to_buf (js_string (js_get input ''body''))
             in Inr (hs, if b \<noteq> [] then Some (b64_encode b) else None, length b, False)))"

definition edited_method :: "jsval \<Rightarrow> string option \<Rightarrow> string option result" where
  "edited_method v old =
     (if v = JUndef then Inr old
      else let m = to_upper (trim (js_string v)) in if METHOD m then Inr (Some m) else Inl (Err [] ''Invalid method''))"

definition edited_path :: "jsval \<Rightarrow> string option \<Rightarrow> string option result" where
  "edited_path v old =
     (if v = JUndef then Inr old
      else let p = trim (js_string v)
           in if starts_with ''/'' p then Inr (Some p) else Inl (Err [] ''The path must start with /''))"

definition edited :: "stored_part \<times> string option \<times> string option \<Rightarrow> jsval \<Rightarrow> (stored_part \<times> string option \<times> string option) result" where
  "edited stored input =
     (case stored of (request, method, path) \<Rightarrow>
        bind (editedPart request input) (\<lambda>q.
        bind (edited_method (js_get input ''method'') method) (\<lambda>m.
        bind (edited_path (js_get input ''path'') path) (\<lambda>p. Inr (q, m, p)))))"

definition editedResponse :: "nat \<times> stored_part \<Rightarrow> jsval \<Rightarrow> (nat \<times> stored_part) result" where
  "editedResponse stored input =
     (case stored of (status, response) \<Rightarrow>
        bind (editedPart response input) (\<lambda>p.
        if js_get input ''status'' = JUndef then Inr (status, p)
        else (case js_integer (js_get input ''status'') of
                None \<Rightarrow> Inl (Err [] ''Invalid status'')
              | Some s \<Rightarrow> if s < 100 \<or> s > 599 then Inl (Err [] ''Invalid status'') else Inr (nat s, p))))"

definition bufferOf :: "stored_part \<Rightarrow> bytes" where
  "bufferOf p = (case p of (_, body, _, _) \<Rightarrow> (case body of None \<Rightarrow> [] | Some b \<Rightarrow> if b = [] then [] else b64_decode b))"

text \<open>A row of the log without a method, path or host is replayed with what the HTTP client makes
  of null: GET, / and the text null.\<close>

definition replay ::
  "bool \<Rightarrow> time \<Rightarrow> time \<Rightarrow> upstream_response option \<Rightarrow> string \<Rightarrow> nat \<Rightarrow> jsval \<Rightarrow> viewer \<Rightarrow> api \<Rightarrow> traffic_log \<times> frame_log \<Rightarrow>
   (traffic_log \<times> frame_log) \<times> (upstream_request \<times> nat \<times> traffic_entry) reply" where
  "replay ok startedAt now response i requestId input v a tf =
     (case touched i v (ap_registry a) of
        None \<Rightarrow> (tf, NOT_FOUND)
      | Some (oid, t) \<Rightarrow>
          if \<not> tunnel_online (ap_registry a) t then (tf, Refuse 502 ''The tunnel is offline'')
          else (case get_request ok i requestId tf of
                  (tf', None) \<Rightarrow> (tf', Refuse 404 ''That request is no longer stored'')
                | (tf', Some (summary, request, _)) \<Rightarrow>
                    if rv_kind summary = ''ws'' then (tf', Refuse 400 ''WebSocket connections cannot be replayed'')
                    else (case edited ((sd_headers request, sd_body request, sd_bytes request, sd_truncated request),
                                       rv_method summary, rv_path summary) input of
                            Inl e \<Rightarrow> (tf', Refuse 400 (err_message e))
                          | Inr ((hs, body, _, truncated), m, p) \<Rightarrow>
                              if truncated then (tf', Refuse 400 ''The request body was too large to store'')
                              else let sent = replayRequest startedAt now t
                                         \<lparr>sr_method = (case m of None \<Rightarrow> ''GET'' | Some x \<Rightarrow> x), sr_path = (case p of None \<Rightarrow> ''/'' | Some x \<Rightarrow> x),
                                          sr_host = (case rv_host summary of None \<Rightarrow> ''null'' | Some h \<Rightarrow> h), sr_headers = hs, sr_body = body\<rparr>
                                         response
                                   in (tf', Reply (''Replayed, '' @ show_nat (fst (snd sent))) sent))))"

definition getBreakpoints :: "time \<Rightarrow> string \<Rightarrow> viewer \<Rightarrow> api \<Rightarrow> (bp_rule list \<times> held_view list \<times> time) reply" where
  "getBreakpoints now i v a =
     (if touched i v (ap_registry a) = None then NOT_FOUND
      else Reply [] (rulesFor i (ap_bps a), bp_list i (ap_bps a), now))"

definition setBreakpoints :: "string \<Rightarrow> jsval \<Rightarrow> viewer \<Rightarrow> api \<Rightarrow> api \<times> bp_rule list reply" where
  "setBreakpoints i input v a =
     (if touched i v (ap_registry a) = None then (a, NOT_FOUND)
      else (case setRules i (js_get input ''rules'') (ap_bps a) of
              Inl e \<Rightarrow> (a, Refuse 400 (err_message e))
            | Inr (b, rules) \<Rightarrow> (a\<lparr>ap_bps := b\<rparr>, Reply ''Breakpoints updated'' rules)))"

text \<open>The decisions handed to a held request; a buffer is the list of its bytes.\<close>

definition buffer_value :: "bytes \<Rightarrow> jsval" where
  "buffer_value b = JArr (map (\<lambda>x. JInt (uint x)) b)"

definition pairs_value :: "(string \<times> string) list \<Rightarrow> jsval" where
  "pairs_value hs = JArr (map (\<lambda>(n, v). JArr [JStr n, JStr v]) hs)"

definition DROP :: jsval where
  "DROP = JObj [(''action'', JStr ''drop'')]"

definition go_request :: "string \<Rightarrow> string \<Rightarrow> (string \<times> string) list \<Rightarrow> bytes \<Rightarrow> jsval" where
  "go_request method path hs body =
     JObj [(''action'', JStr ''continue''), (''method'', JStr method), (''path'', JStr path),
           (''headers'', pairs_value hs), (''body'', buffer_value body)]"

definition go_response :: "nat \<Rightarrow> (string \<times> string) list \<Rightarrow> bytes \<Rightarrow> jsval" where
  "go_response status hs body =
     JObj [(''action'', JStr ''continue''), (''status'', JInt (int status)),
           (''headers'', pairs_value hs), (''body'', buffer_value body)]"

text \<open>What the operator's answer to a held request decides. A response phase without a response
  does not occur: proxy.js holds a response together with it.\<close>

definition decide :: "held \<Rightarrow> jsval \<Rightarrow> jsval result" where
  "decide held input =
     (let stored = serialize held
      in if h_phase held = ''response''
         then (case hv_response stored of
                 None \<Rightarrow> Inl (Err ''TypeError'' ''Cannot read properties of undefined'')
               | Some response \<Rightarrow>
                   bind (editedResponse response input) (\<lambda>(status, p). Inr (go_response status (fst p) (bufferOf p))))
         else bind (edited (hv_request stored, Some (hv_method stored), Some (hv_path stored)) input)
                (\<lambda>(p, m, path). Inr (go_request (the m) (the path) (fst p) (bufferOf p))))"

definition resolveBreakpoint :: "string \<Rightarrow> string \<Rightarrow> jsval \<Rightarrow> viewer \<Rightarrow> api \<Rightarrow> api \<times> unit reply" where
  "resolveBreakpoint i holdId input v a =
     (if touched i v (ap_registry a) = None then (a, NOT_FOUND)
      else (case get_held i holdId (ap_bps a) of
              None \<Rightarrow> (a, Refuse 404 ''That request is no longer waiting'')
            | Some held \<Rightarrow>
                if js_get input ''action'' = JStr ''drop''
                then (a\<lparr>ap_bps := fst (settle holdId DROP (ap_bps a))\<rparr>, Reply ''Dropped'' ())
                else (case decide held input of
                        Inl e \<Rightarrow> (a, Refuse 400 (err_message e))
                      | Inr d \<Rightarrow> (a\<lparr>ap_bps := fst (settle holdId d (ap_bps a))\<rparr>, Reply ''Continued'' ()))))"

subsection \<open>Persistent tunnels\<close>

definition PERSISTENT_NOT_FOUND :: "'v reply" where
  "PERSISTENT_NOT_FOUND = Refuse 404 ''Persistent tunnel not found''"

definition applyLive :: "string \<Rightarrow> policy \<Rightarrow> api \<Rightarrow> api" where
  "applyLive name p a =
     (case get_tunnel name (ap_registry a) of
        None \<Rightarrow> a
      | Some (oid, t) \<Rightarrow>
          announceAccess (t\<lparr>tn_policy := p\<rparr>)
            (a\<lparr>ap_registry := on_tunnel oid (\<lambda>t. t\<lparr>tn_policy := p\<rparr>) (ap_registry a), ap_access := forget_tunnel name (ap_access a)\<rparr>))"

record 'c persistent_view =
  pv_name :: string
  pv_owner :: "string option"
  pv_accountId :: nat
  pv_access :: policy_view
  pv_createdAt :: time
  pv_online :: bool
  pv_live :: bool
  pv_url :: string
  pv_domains :: "'c domain_view list"

definition serialize_persistent :: "rconfig \<Rightarrow> (string \<Rightarrow> 'c) \<Rightarrow> api \<Rightarrow> definition_row \<times> string option \<Rightarrow> 'c persistent_view" where
  "serialize_persistent c info a row =
     (case row of (df, owner) \<Rightarrow>
        let live = get_tunnel (df_name df) (ap_registry a)
        in \<lparr>pv_name = df_name df, pv_owner = owner, pv_accountId = df_accountId df, pv_access = describePolicy (df_policy df),
            pv_createdAt = df_createdAt df,
            pv_online = (case live of None \<Rightarrow> False | Some (_, t) \<Rightarrow> tunnel_online (ap_registry a) t), pv_live = (live \<noteq> None),
            pv_url = urlFor c (df_name df) (c_httpMode c), pv_domains = listFor (c_publicScheme c) info (df_name df) (ap_domains a)\<rparr>)"

definition definitionFor :: "string \<Rightarrow> viewer \<Rightarrow> api \<Rightarrow> definition_row option" where
  "definitionFor name v a =
     (case load name (table (ap_registry a)) of
        None \<Rightarrow> None
      | Some df \<Rightarrow> if \<not> isAdmin v \<and> df_accountId df \<noteq> vw_account v then None else Some df)"

definition domainOf :: "string \<Rightarrow> jsval \<Rightarrow> viewer \<Rightarrow> api \<Rightarrow> string option" where
  "domainOf name hostname v a =
     (if definitionFor name v a = None then None
      else let normalized = to_lower (trim (string_or hostname []))
           in if domain_tunnel normalized (ap_domains a) = Some name then Some normalized else None)"

definition persistent_list :: "rconfig \<Rightarrow> (string \<Rightarrow> 'c) \<Rightarrow> db \<Rightarrow> viewer \<Rightarrow> api \<Rightarrow> 'c persistent_view list" where
  "persistent_list c info d v a =
     map (serialize_persistent c info a)
       (list_persistent (if isAdmin v then None else Some (vw_account v)) d (table (ap_registry a)))"

definition persistent_get :: "rconfig \<Rightarrow> (string \<Rightarrow> 'c) \<Rightarrow> string \<Rightarrow> viewer \<Rightarrow> api \<Rightarrow> 'c persistent_view reply" where
  "persistent_get c info name v a =
     (case definitionFor name v a of
        None \<Rightarrow> PERSISTENT_NOT_FOUND
      | Some df \<Rightarrow> Reply [] (serialize_persistent c info a (df, None)))"

definition wants_policy :: "jsval \<Rightarrow> bool" where
  "wants_policy input = list_ex (\<lambda>key. js_get input key \<noteq> JUndef) [''auth'', ''password'', ''allow'', ''block'']"

definition create_status :: "string \<Rightarrow> nat" where
  "create_status code = (if code = ''name_taken'' then 409 else if code = ''quota_exceeded'' then 429 else 500)"

text \<open>persistent.create with the quota before it; an account id of null is refused by the table.\<close>

definition store_definition ::
  "db \<Rightarrow> quotas \<Rightarrow> time \<Rightarrow> string \<Rightarrow> nat option \<Rightarrow> policy \<Rightarrow> tunnel_table \<Rightarrow> (tunnel_table \<times> definition_row option) result" where
  "store_definition d q now name accountId p rows =
     (case accountId of
        None \<Rightarrow> Inl (Err [] ''notNull Violation: tunnels.accountId cannot be null'')
      | Some i \<Rightarrow>
          bind (enforce (limitsFor i d q) ''persistent'' (length (list_persistent (Some i) d rows))) (\<lambda>_.
          create_persistent now name i p rows))"

definition persistent_create ::
  "rconfig \<Rightarrow> (string \<Rightarrow> 'c) \<Rightarrow> (string \<Rightarrow> bytes \<Rightarrow> nat \<Rightarrow> bytes) \<Rightarrow> bytes \<Rightarrow> db \<Rightarrow> quotas \<Rightarrow> time \<Rightarrow> jsval \<Rightarrow> viewer \<Rightarrow> api \<Rightarrow>
   api \<times> 'c persistent_view option reply" where
  "persistent_create c info scrypt salt d q now input v a =
     (let name = to_lower (trim (string_or (js_get input ''name'') [])); live = get_tunnel name (ap_registry a)
      in if \<not> isValidName name then (a, Refuse 400 ''Use 3-32 characters a-z, 0-9 or \"-\" for the name'')
         else if live \<noteq> None \<and> tn_accountId (snd (the live)) \<noteq> Some (vw_account v) \<and> \<not> isAdmin v
         then (a, Refuse 409 (''\"'' @ name @ ''\" is in use by another account''))
         else let previous = (case live of None \<Rightarrow> emptyPolicy | Some (_, t) \<Rightarrow> tn_policy t)
              in (case (if wants_policy input then policyFrom scrypt salt input previous else Reply [] previous) of
                    Refuse code message \<Rightarrow> (a, Refuse code message)
                  | Reply _ p \<Rightarrow>
                      let accountId = (case live of None \<Rightarrow> Some (vw_account v) | Some (_, t) \<Rightarrow> tn_accountId t)
                      in (case store_definition d q now name accountId p (table (ap_registry a)) of
                            Inl e \<Rightarrow> (a, Refuse (create_status (err_code e)) (err_message e))
                          | Inr (rows, df) \<Rightarrow>
                              let owner = (case live of None \<Rightarrow> Some (vw_username v) | Some (_, t) \<Rightarrow> tn_owner t);
                                  a1 = a\<lparr>ap_registry := (ap_registry a)\<lparr>table := rows\<rparr>\<rparr>;
                                  a2 = (case live of
                                          None \<Rightarrow> a1
                                        | Some (oid, _) \<Rightarrow>
                                            applyLive name p (a1\<lparr>ap_registry := on_tunnel oid (\<lambda>t. t\<lparr>tn_persistent := True\<rparr>) (ap_registry a1)\<rparr>))
                              in (a2, Reply (name @ '' is now persistent'') (map_option (\<lambda>df. serialize_persistent c info a2 (df, owner)) df)))))"

definition persistent_updateAccess ::
  "(string \<Rightarrow> bytes \<Rightarrow> nat \<Rightarrow> bytes) \<Rightarrow> bytes \<Rightarrow> string \<Rightarrow> jsval \<Rightarrow> viewer \<Rightarrow> api \<Rightarrow> api \<times> policy_view reply" where
  "persistent_updateAccess scrypt salt name input v a =
     (case definitionFor name v a of
        None \<Rightarrow> (a, PERSISTENT_NOT_FOUND)
      | Some df \<Rightarrow>
          (case policyFrom scrypt salt input (df_policy df) of
             Refuse code message \<Rightarrow> (a, Refuse code message)
           | Reply _ p \<Rightarrow>
               (applyLive name p (a\<lparr>ap_registry := (ap_registry a)\<lparr>table := savePolicy name p (table (ap_registry a))\<rparr>\<rparr>),
                Reply ''Access updated'' (describePolicy p))))"

definition persistent_remove :: "string \<Rightarrow> viewer \<Rightarrow> api \<Rightarrow> api \<times> unit reply" where
  "persistent_remove name v a =
     (if definitionFor name v a = None then (a, PERSISTENT_NOT_FOUND)
      else let r1 = (ap_registry a)\<lparr>table := remove_persistent name (table (ap_registry a))\<rparr>;
               r2 = (case get_tunnel name r1 of None \<Rightarrow> r1 | Some (oid, _) \<Rightarrow> on_tunnel oid (\<lambda>t. t\<lparr>tn_persistent := False\<rparr>) r1)
           in (a\<lparr>ap_domains := removeForTunnel name (ap_domains a), ap_registry := r2\<rparr>,
               Reply (name @ '' is no longer persistent'') ()))"

definition domain_status :: "string \<Rightarrow> nat" where
  "domain_status code =
     (if code = ''bad_request'' then 400 else if code = ''conflict'' then 409 else if code = ''quota_exceeded'' then 429 else 500)"

definition addDomain ::
  "rconfig \<Rightarrow> (string \<Rightarrow> 'c) \<Rightarrow> db \<Rightarrow> quotas \<Rightarrow> time \<Rightarrow> string \<Rightarrow> jsval \<Rightarrow> viewer \<Rightarrow> api \<Rightarrow> api \<times> 'c domain_view reply" where
  "addDomain c info d q now name input v a =
     (case definitionFor name v a of
        None \<Rightarrow> (a, PERSISTENT_NOT_FOUND)
      | Some df \<Rightarrow>
          (case bind (enforce (limitsFor (df_accountId df) d q) ''domains'' (countFor (df_accountId df) (ap_domains a)))
                  (\<lambda>_. add_domain (c_baseDomain c) now (js_get input ''hostname'') name (df_accountId df) (ap_domains a)) of
             Inl e \<Rightarrow> (a, Refuse (domain_status (err_code e)) (err_message e))
           | Inr (ds, row) \<Rightarrow> (a\<lparr>ap_domains := ds\<rparr>, Reply (dr_hostname row @ '' added'') (describe_domain (c_publicScheme c) info row))))"

text \<open>A check of a domain waits for its verification, which runs whole here.\<close>

definition verify ::
  "string \<Rightarrow> bool \<Rightarrow> (string \<Rightarrow> bool) \<Rightarrow> dns_answer \<Rightarrow> string option \<Rightarrow> time \<Rightarrow> string \<Rightarrow> domains \<Rightarrow> domains" where
  "verify base tls due dns outcome now hostname ds =
     (let ds1 = check_domain hostname ds;
          ds2 = (if map_get (checks_running ds1) hostname = Some Resolving then verify_resolved base tls due dns now hostname ds1 else ds1)
      in if map_get (checks_running ds2) hostname = Some Issuing then verify_issued outcome now hostname ds2 else ds2)"

definition checkDomain ::
  "rconfig \<Rightarrow> (string \<Rightarrow> 'c) \<Rightarrow> bool \<Rightarrow> (string \<Rightarrow> bool) \<Rightarrow> dns_answer \<Rightarrow> string option \<Rightarrow> time \<Rightarrow> string \<Rightarrow> jsval \<Rightarrow> viewer \<Rightarrow> api \<Rightarrow>
   api \<times> 'c domain_view reply" where
  "checkDomain c info tls due dns outcome now name hostname v a =
     (case domainOf name hostname v a of
        None \<Rightarrow> (a, Refuse 404 ''Domain not found'')
      | Some domain \<Rightarrow>
          let ds = verify (c_baseDomain c) tls due dns outcome now domain (ap_domains a); a' = a\<lparr>ap_domains := ds\<rparr>
          in (case find (\<lambda>e. dv_hostname e = domain) (listFor (c_publicScheme c) info name ds) of
                None \<Rightarrow> (a', Refuse 500 ''Cannot read properties of undefined'')
              | Some current \<Rightarrow>
                  (a', Reply (if dv_state current = ''active'' then domain @ '' is active'' else domain @ '' checked'') current)))"

definition removeDomain :: "string \<Rightarrow> jsval \<Rightarrow> viewer \<Rightarrow> api \<Rightarrow> api \<times> unit reply" where
  "removeDomain name hostname v a =
     (case domainOf name hostname v a of
        None \<Rightarrow> (a, Refuse 404 ''Domain not found'')
      | Some domain \<Rightarrow> (a\<lparr>ap_domains := remove_domain domain (ap_domains a)\<rparr>, Reply (domain @ '' removed'') ()))"

subsection \<open>Quotas\<close>

definition usageFor :: "db \<Rightarrow> quotas \<Rightarrow> string \<Rightarrow> nat \<Rightarrow> api \<Rightarrow> (string \<times> nat) list" where
  "usageFor d q month accountId a =
     [(''tunnels'', length (filter (\<lambda>t. tn_accountId t = Some accountId) (live_tunnels (ap_registry a)))),
      (''persistent'', length (list_persistent (Some accountId) d (table (ap_registry a)))),
      (''domains'', countFor accountId (ap_domains a)), (''traffic'', trafficFor month accountId q)]"

definition quotas_mine :: "db \<Rightarrow> quotas \<Rightarrow> string \<Rightarrow> nat \<Rightarrow> api \<Rightarrow> limits \<times> limits \<times> (string \<times> nat) list" where
  "quotas_mine d q month accountId a = (defaults q, limitsFor accountId d q, usageFor d q month accountId a)"

definition quotas_saveDefaults :: "jsval \<Rightarrow> quotas \<Rightarrow> quotas \<times> limits reply" where
  "quotas_saveDefaults input q =
     (case saveDefaults input q of
        Inl e \<Rightarrow> (q, Refuse (if err_code e = ''bad_request'' then 400 else 500) (err_message e))
      | Inr (q', ls) \<Rightarrow> (q', Reply ''Limits saved'' ls))"

subsection \<open>Who may change what\<close>

datatype api_call =
    DisconnectClient string string
  | DisconnectAll string
  | UpdateAccess string jsval
  | SetBreakpoints string jsval
  | ResolveBreakpoint string string jsval
  | CloseTunnel string
  | CreatePersistent jsval
  | UpdatePersistent string jsval
  | RemovePersistent string
  | AddDomain string jsval
  | CheckDomain string jsval
  | RemoveDomain string jsval

text \<open>What the handlers take from the rest of the server.\<close>

record api_env =
  env_config :: rconfig
  env_scrypt :: "string \<Rightarrow> bytes \<Rightarrow> nat \<Rightarrow> bytes"
  env_salt :: bytes
  env_db :: db
  env_quotas :: quotas
  env_client :: "nat \<Rightarrow> client_view"
  env_tls :: bool
  env_due :: "string \<Rightarrow> bool"
  env_dns :: dns_answer
  env_issued :: "string option"

fun perform :: "api_env \<Rightarrow> time \<Rightarrow> viewer \<Rightarrow> api_call \<Rightarrow> api \<Rightarrow> api" where
  "perform e now v (DisconnectClient i k) a = fst (disconnectClient (env_client e) i k v a)"
| "perform e now v (DisconnectAll i) a = fst (disconnectAllClients i v a)"
| "perform e now v (UpdateAccess i input) a = fst (updateAccess (env_scrypt e) (env_salt e) i input v a)"
| "perform e now v (SetBreakpoints i input) a = fst (setBreakpoints i input v a)"
| "perform e now v (ResolveBreakpoint i k input) a = fst (resolveBreakpoint i k input v a)"
| "perform e now v (CloseTunnel i) a = fst (closeTunnel i v a)"
| "perform e now v (CreatePersistent input) a =
     fst (persistent_create (env_config e) (\<lambda>_. ()) (env_scrypt e) (env_salt e) (env_db e) (env_quotas e) now input v a)"
| "perform e now v (UpdatePersistent n input) a = fst (persistent_updateAccess (env_scrypt e) (env_salt e) n input v a)"
| "perform e now v (RemovePersistent n) a = fst (persistent_remove n v a)"
| "perform e now v (AddDomain n input) a = fst (addDomain (env_config e) (\<lambda>_. ()) (env_db e) (env_quotas e) now n input v a)"
| "perform e now v (CheckDomain n h) a =
     fst (checkDomain (env_config e) (\<lambda>_. ()) (env_tls e) (env_due e) (env_dns e) (env_issued e) now n h v a)"
| "perform e now v (RemoveDomain n h) a = fst (removeDomain n h v a)"

text \<open>The account of a live tunnel is the one its name is reserved for.\<close>

definition owners_agree :: "registry \<Rightarrow> bool" where
  "owners_agree r \<longleftrightarrow> (\<forall>i oid t df. get_tunnel i r = Some (oid, t) \<longrightarrow> load i (table r) = Some df \<longrightarrow> tn_accountId t = Some (df_accountId df))"

text \<open>Nothing of the tunnels and of the reserved names of other accounts changes: the tunnel with
  all it holds, its breakpoints and held requests, its access tokens; the stored policy of a
  reserved name and the custom domains that lead to it.\<close>

definition spares_tunnels :: "nat \<Rightarrow> api \<Rightarrow> api \<Rightarrow> bool" where
  "spares_tunnels account a a' \<longleftrightarrow> (\<forall>i oid t. get_tunnel i (ap_registry a) = Some (oid, t) \<and> tn_accountId t \<noteq> Some account \<longrightarrow>
     get_tunnel i (ap_registry a') = Some (oid, t) \<and> rulesFor i (ap_bps a') = rulesFor i (ap_bps a) \<and>
     (\<forall>h. get_held i h (ap_bps a') = get_held i h (ap_bps a)) \<and>
     filter (\<lambda>(_, x). t_tunnelId x = i) (tokens (ap_access a')) = filter (\<lambda>(_, x). t_tunnelId x = i) (tokens (ap_access a)))"

definition spares_names :: "nat \<Rightarrow> api \<Rightarrow> api \<Rightarrow> bool" where
  "spares_names account a a' \<longleftrightarrow> (\<forall>n df. load n (table (ap_registry a)) = Some df \<and> df_accountId df \<noteq> account \<longrightarrow>
     load n (table (ap_registry a')) = Some df \<and>
     (\<forall>h. (domain_tunnel h (ap_domains a') = Some n) = (domain_tunnel h (ap_domains a) = Some n)))"

lemma spares_refl [simp]: "spares_tunnels k a a" "spares_names k a a"
  by (simp_all add: spares_tunnels_def spares_names_def)

lemma touched_own:
  assumes "touched i v r = Some (oid, t)" "vw_role v \<noteq> ''admin''"
  shows "get_tunnel i r = Some (oid, t) \<and> tn_accountId t = Some (vw_account v)"
  using assms by (auto simp: touched_def mayTouch_def split: if_splits option.splits)

lemma get_tunnel_objs: "get_tunnel i r = Some (oid, t) \<Longrightarrow> map_get (objs r) oid = Some t \<and> map_get (names r) i = Some oid"
  by (auto simp: get_tunnel_def split: option.splits)

lemma other_object:
  assumes "reg_inv r" "get_tunnel i r = Some (oid, t)" "get_tunnel j r = Some (oid', t')" "i \<noteq> j"
  shows "oid' \<noteq> oid"
proof
  assume e: "oid' = oid"
  have "map_get (names r) i = Some oid" "map_get (names r) j = Some oid" "t' = t"
    using get_tunnel_objs [OF assms(2)] get_tunnel_objs [OF assms(3)] e by auto
  then show False using inv_get [OF assms(1), of i oid] inv_get [OF assms(1), of j oid] assms(2-4) by auto
qed

lemma get_on_tunnel:
  "get_tunnel j (on_tunnel oid f r) = map_option (\<lambda>(o', t). (o', if o' = oid then f t else t)) (get_tunnel j r)"
  by (cases "map_get (names r) j") (auto simp: get_tunnel_def on_tunnel_objs option.map_comp comp_def)

lemma get_tunnel_cong: "objs r' = objs r \<Longrightarrow> names r' = names r \<Longrightarrow> get_tunnel j r' = get_tunnel j r"
  by (simp add: get_tunnel_def cong: option.case_cong)

lemma announce_frame [simp]:
  "ap_registry (announceAccess t a) = ap_registry a" "ap_access (announceAccess t a) = ap_access a"
  "ap_bps (announceAccess t a) = ap_bps a" "ap_domains (announceAccess t a) = ap_domains a"
  by (auto simp: announceAccess_def split: option.splits)

lemma forget_other_tokens:
  "i \<noteq> j \<Longrightarrow> filter (\<lambda>(_, x). t_tunnelId x = j) (tokens (forget_tunnel i s)) = filter (\<lambda>(_, x). t_tunnelId x = j) (tokens s)"
  by (auto simp: forget_tunnel_def split_beta intro!: filter_cong)

text \<open>A change of one object of the viewer spares the others.\<close>

lemma own_object_spares:
  assumes inv: "reg_inv (ap_registry a)" and own: "get_tunnel i (ap_registry a) = Some (oid, t)" "tn_accountId t = Some k"
    and reg: "\<And>j o' u. j \<noteq> i \<Longrightarrow> o' \<noteq> oid \<Longrightarrow> get_tunnel j (ap_registry a) = Some (o', u) \<Longrightarrow> get_tunnel j (ap_registry a') = Some (o', u)"
    and bps: "\<And>j. j \<noteq> i \<Longrightarrow> rulesFor j (ap_bps a') = rulesFor j (ap_bps a) \<and> (\<forall>h. get_held j h (ap_bps a') = get_held j h (ap_bps a))"
    and acc: "ap_access a' = ap_access a \<or> ap_access a' = forget_tunnel i (ap_access a)"
  shows "spares_tunnels k a a'"
  unfolding spares_tunnels_def
proof (intro allI impI, elim conjE)
  fix j o' u
  assume u: "get_tunnel j (ap_registry a) = Some (o', u)" "tn_accountId u \<noteq> Some k"
  then have ji: "j \<noteq> i" using own by auto
  have "o' \<noteq> oid" using other_object [OF inv own(1) u(1)] ji by simp
  then show "get_tunnel j (ap_registry a') = Some (o', u) \<and> rulesFor j (ap_bps a') = rulesFor j (ap_bps a) \<and>
      (\<forall>h. get_held j h (ap_bps a') = get_held j h (ap_bps a)) \<and>
      filter (\<lambda>(_, x). t_tunnelId x = j) (tokens (ap_access a')) = filter (\<lambda>(_, x). t_tunnelId x = j) (tokens (ap_access a))"
    using reg [OF ji _ u(1)] bps [OF ji] acc forget_other_tokens [of i j] ji by auto
qed

lemma same_names_spared:
  "table (ap_registry a') = table (ap_registry a) \<Longrightarrow> ap_domains a' = ap_domains a \<Longrightarrow> spares_names k a a'"
  by (simp add: spares_names_def)

lemma get_end [simp]: "get_tunnel j (endSession s m c r) = get_tunnel j r" "get_tunnel j (end_each ss m c r) = get_tunnel j r"
  by (rule get_tunnel_cong; simp)+

lemma get_table [simp]: "get_tunnel j (r\<lparr>table := tb\<rparr>) = get_tunnel j r"
  by (rule get_tunnel_cong; simp)

lemma load_other_policy: "n' \<noteq> n \<Longrightarrow> load n' (savePolicy n p rows) = load n' rows"
  by (induction rows) (auto simp: load_def savePolicy_def)

lemma load_account: "map_option df_accountId (load n' (savePolicy n p rows)) = map_option df_accountId (load n' rows)"
  by (induction rows) (auto simp: load_def savePolicy_def toDefinition_def)

lemma disconnect_spares:
  assumes inv: "reg_inv (ap_registry a)" and na: "vw_role v \<noteq> ''admin''"
  shows "spares_tunnels (vw_account v) a (fst (disconnectClient client i k v a)) \<and> spares_names (vw_account v) a (fst (disconnectClient client i k v a))"
    "spares_tunnels (vw_account v) a (fst (disconnectAllClients i v a)) \<and> spares_names (vw_account v) a (fst (disconnectAllClients i v a))"
proof -
  have *: "spares_tunnels (vw_account v) a (a\<lparr>ap_registry := on_tunnel oid f r\<rparr>) \<and> spares_names (vw_account v) a (a\<lparr>ap_registry := on_tunnel oid f r\<rparr>)"
    if "tcpTunnel i v a = Reply m (oid, t)" "\<And>j. get_tunnel j r = get_tunnel j (ap_registry a)" "table r = table (ap_registry a)" for oid t f r m
  proof -
    have own: "get_tunnel i (ap_registry a) = Some (oid, t) \<and> tn_accountId t = Some (vw_account v)"
      using that(1) touched_own [OF _ na] by (auto simp: tcpTunnel_def NOT_FOUND_def split: option.splits if_splits)
    have "spares_tunnels (vw_account v) a (a\<lparr>ap_registry := on_tunnel oid f r\<rparr>)"
      by (rule own_object_spares [OF inv own [THEN conjunct1] own [THEN conjunct2]]) (auto simp: get_on_tunnel that(2))
    then show ?thesis by (simp add: same_names_spared that(3))
  qed
  show "spares_tunnels (vw_account v) a (fst (disconnectClient client i k v a)) \<and> spares_names (vw_account v) a (fst (disconnectClient client i k v a))"
    by (cases "tcpTunnel i v a") (auto simp: disconnectClient_def * split: option.split)
  show "spares_tunnels (vw_account v) a (fst (disconnectAllClients i v a)) \<and> spares_names (vw_account v) a (fst (disconnectAllClients i v a))"
    by (cases "tcpTunnel i v a") (auto simp: disconnectAllClients_def Let_def *)
qed

lemma updateAccess_spares:
  assumes inv: "reg_inv (ap_registry a)" and ag: "owners_agree (ap_registry a)" and na: "vw_role v \<noteq> ''admin''"
  shows "spares_tunnels (vw_account v) a (fst (updateAccess scrypt salt i input v a)) \<and>
    spares_names (vw_account v) a (fst (updateAccess scrypt salt i input v a))"
proof (cases "touched i v (ap_registry a)")
  case (Some ot)
  obtain oid t where ot: "ot = (oid, t)" by fastforce
  have own: "get_tunnel i (ap_registry a) = Some (oid, t)" "tn_accountId t = Some (vw_account v)"
    using touched_own [OF _ na] Some ot by auto
  have id: "tn_id t = i" using inv_get [OF inv] get_tunnel_objs [OF own(1)] own(1) by fastforce
  show ?thesis
  proof (cases "policyFrom scrypt salt input (tn_policy t)")
    case (Reply m p)
    let ?a = "fst (updateAccess scrypt salt i input v a)"
    have tn: "spares_tunnels (vw_account v) a ?a"
      by (rule own_object_spares [OF inv own])
        (auto simp: updateAccess_def Some ot Reply Let_def get_on_tunnel)
    have "load n (table (ap_registry ?a)) = Some df" if "load n (table (ap_registry a)) = Some df" "df_accountId df \<noteq> vw_account v" for n df
    proof -
      have "n \<noteq> i" using ag own that unfolding owners_agree_def by fastforce
      with that(1) show ?thesis by (auto simp: updateAccess_def Some ot Reply Let_def id load_other_policy)
    qed
    with tn show ?thesis by (auto simp: spares_names_def updateAccess_def Some ot Reply Let_def)
  qed (simp add: updateAccess_def Some ot)
qed (simp add: updateAccess_def)

lemma setRules_other: "setRules i input b = Inr (b', rs) \<Longrightarrow> j \<noteq> i \<Longrightarrow> rulesFor j b' = rulesFor j b \<and> (\<forall>h. get_held j h b' = get_held j h b)"
  by (auto simp: setRules_def rulesFor_def get_held_def split: sum.splits if_splits option.splits)

lemma settle_other:
  assumes "get_held i k b = Some e" "j \<noteq> i"
  shows "rulesFor j (fst (settle k d b)) = rulesFor j b \<and> (\<forall>h. get_held j h (fst (settle k d b)) = get_held j h b)"
  using assms by (auto simp: settle_def rulesFor_def get_held_def split: option.splits if_splits)

lemma breakpoints_spare:
  assumes inv: "reg_inv (ap_registry a)" and na: "vw_role v \<noteq> ''admin''"
  shows "spares_tunnels (vw_account v) a (fst (setBreakpoints i input v a)) \<and> spares_names (vw_account v) a (fst (setBreakpoints i input v a))"
    "spares_tunnels (vw_account v) a (fst (resolveBreakpoint i k input v a)) \<and> spares_names (vw_account v) a (fst (resolveBreakpoint i k input v a))"
proof -
  have *: "spares_tunnels (vw_account v) a (a\<lparr>ap_bps := b\<rparr>) \<and> spares_names (vw_account v) a (a\<lparr>ap_bps := b\<rparr>)"
    if "touched i v (ap_registry a) = Some (oid, t)"
      "\<And>j. j \<noteq> i \<Longrightarrow> rulesFor j b = rulesFor j (ap_bps a) \<and> (\<forall>h. get_held j h b = get_held j h (ap_bps a))" for oid t b
  proof -
    note own = touched_own [OF that(1) na]
    have "spares_tunnels (vw_account v) a (a\<lparr>ap_bps := b\<rparr>)"
      by (rule own_object_spares [OF inv own [THEN conjunct1] own [THEN conjunct2]]) (use that(2) in auto)
    then show ?thesis by (simp add: same_names_spared)
  qed
  show "spares_tunnels (vw_account v) a (fst (setBreakpoints i input v a)) \<and> spares_names (vw_account v) a (fst (setBreakpoints i input v a))"
  proof (cases "touched i v (ap_registry a)")
    case (Some ot)
    then show ?thesis
    proof (cases "setRules i (js_get input ''rules'') (ap_bps a)")
      case (Inr br)
      then show ?thesis
        using *[of "fst ot" "snd ot" "fst br"] setRules_other [of i _ _ "fst br" "snd br"] Some
        by (simp add: setBreakpoints_def split_beta)
    qed (simp add: setBreakpoints_def)
  qed (simp add: setBreakpoints_def)
  show "spares_tunnels (vw_account v) a (fst (resolveBreakpoint i k input v a)) \<and> spares_names (vw_account v) a (fst (resolveBreakpoint i k input v a))"
  proof (cases "touched i v (ap_registry a) = None \<or> get_held i k (ap_bps a) = None")
    case False
    then obtain oid t e where t: "touched i v (ap_registry a) = Some (oid, t)" and e: "get_held i k (ap_bps a) = Some e" by auto
    have "fst (resolveBreakpoint i k input v a) = a \<or> (\<exists>d. fst (resolveBreakpoint i k input v a) = a\<lparr>ap_bps := fst (settle k d (ap_bps a))\<rparr>)"
      by (auto simp: resolveBreakpoint_def t e split: sum.split)
    then show ?thesis using *[OF t] settle_other [OF e] by fastforce
  qed (auto simp: resolveBreakpoint_def)
qed

lemma close_spares:
  assumes inv: "reg_inv (ap_registry a)" and na: "vw_role v \<noteq> ''admin''"
  shows "spares_tunnels (vw_account v) a (fst (closeTunnel i v a)) \<and> spares_names (vw_account v) a (fst (closeTunnel i v a))"
proof (cases "touched i v (ap_registry a)")
  case (Some ot)
  obtain oid t where "ot = (oid, t)" by fastforce
  then have own: "get_tunnel i (ap_registry a) = Some (oid, t)" "tn_accountId t = Some (vw_account v)"
    using touched_own [OF _ na] Some by auto
  note f = remove_frame [OF own(1), of "''closed from the web UI''"]
  let ?r = "remove i ''closed from the web UI'' (ap_registry a)"
  have "get_tunnel j ?r = Some (o', u)" if "j \<noteq> i" "o' \<noteq> oid" "get_tunnel j (ap_registry a) = Some (o', u)" for j o' u
    using that get_tunnel_objs [OF that(3)] by (simp add: get_tunnel_def f(1,3))
  then have "spares_tunnels (vw_account v) a (a\<lparr>ap_registry := ?r\<rparr>)"
    by (intro own_object_spares [OF inv own]) auto
  moreover have "table ?r = table (ap_registry a)" by (simp add: remove_def own(1) Let_def)
  ultimately show ?thesis by (simp add: closeTunnel_def Some same_names_spared)
qed (simp add: closeTunnel_def)

lemma definitionFor_own:
  "definitionFor n v a = Some df \<Longrightarrow> vw_role v \<noteq> ''admin'' \<Longrightarrow> load n (table (ap_registry a)) = Some df \<and> df_accountId df = vw_account v"
  by (auto simp: definitionFor_def isAdmin_def split: option.splits if_splits)

lemma applyLive_frame [simp]:
  "table (ap_registry (applyLive n p a)) = table (ap_registry a)" "ap_bps (applyLive n p a) = ap_bps a"
  "ap_domains (applyLive n p a) = ap_domains a"
  by (auto simp: applyLive_def split: option.split)

lemma applyLive_access: "ap_access (applyLive n p a) = ap_access a \<or> ap_access (applyLive n p a) = forget_tunnel n (ap_access a)"
  by (auto simp: applyLive_def split: option.split)

lemma applyLive_get:
  "get_tunnel n (ap_registry a) = Some (oid, t) \<Longrightarrow>
   get_tunnel j (ap_registry (applyLive n p a)) = map_option (\<lambda>(o', t). (o', if o' = oid then t\<lparr>tn_policy := p\<rparr> else t)) (get_tunnel j (ap_registry a))"
  "get_tunnel n (ap_registry a) = None \<Longrightarrow> applyLive n p a = a"
  by (simp_all add: applyLive_def get_on_tunnel)

text \<open>What the handlers of reserved names do to the rest: the tunnel of the name, if one is live,
  belongs to the viewer, and the others keep theirs.\<close>

lemma live_spares:
  assumes inv: "reg_inv (ap_registry a)"
    and own: "\<And>oid t. get_tunnel n (ap_registry a) = Some (oid, t) \<Longrightarrow> tn_accountId t = Some k"
    and none: "get_tunnel n (ap_registry a) = None \<Longrightarrow>
      ap_access a' = ap_access a \<and> (\<forall>j. get_tunnel j (ap_registry a') = get_tunnel j (ap_registry a))"
    and some: "\<And>oid t j o' u. get_tunnel n (ap_registry a) = Some (oid, t) \<Longrightarrow> o' \<noteq> oid \<Longrightarrow>
      get_tunnel j (ap_registry a) = Some (o', u) \<Longrightarrow> get_tunnel j (ap_registry a') = Some (o', u)"
    and acc: "ap_access a' = ap_access a \<or> ap_access a' = forget_tunnel n (ap_access a)"
    and bps: "ap_bps a' = ap_bps a"
  shows "spares_tunnels k a a'"
proof (cases "get_tunnel n (ap_registry a)")
  case None
  then show ?thesis using none bps by (simp add: spares_tunnels_def)
next
  case (Some ot)
  then have g: "get_tunnel n (ap_registry a) = Some (fst ot, snd ot)" by simp
  show ?thesis
    using some [OF g] acc bps by (intro own_object_spares [OF inv g own [OF g]]) simp_all
qed

text \<open>A name reserved for another account is another name than one reserved for the viewer.\<close>

lemma spares_namesI:
  assumes "load n (table (ap_registry a)) = Some df" "df_accountId df = k"
    "\<And>m f. m \<noteq> n \<Longrightarrow> load m (table (ap_registry a)) = Some f \<Longrightarrow>
      load m (table (ap_registry a')) = Some f \<and> (\<forall>h. (domain_tunnel h (ap_domains a') = Some m) = (domain_tunnel h (ap_domains a) = Some m))"
  shows "spares_names k a a'"
  unfolding spares_names_def
proof (intro allI impI, elim conjE)
  fix m f
  assume f: "load m (table (ap_registry a)) = Some f" "df_accountId f \<noteq> k"
  then have "m \<noteq> n" using assms(1,2) by auto
  then show "load m (table (ap_registry a')) = Some f \<and> (\<forall>h. (domain_tunnel h (ap_domains a') = Some m) = (domain_tunnel h (ap_domains a) = Some m))"
    using assms(3) f(1) by blast
qed

lemma updatePersistent_spares:
  assumes inv: "reg_inv (ap_registry a)" and ag: "owners_agree (ap_registry a)" and na: "vw_role v \<noteq> ''admin''"
  shows "spares_tunnels (vw_account v) a (fst (persistent_updateAccess scrypt salt n input v a)) \<and>
    spares_names (vw_account v) a (fst (persistent_updateAccess scrypt salt n input v a))"
proof (cases "definitionFor n v a")
  case (Some df)
  note d = definitionFor_own [OF Some na]
  show ?thesis
  proof (cases "policyFrom scrypt salt input (df_policy df)")
    case (Reply m p)
    let ?b = "a\<lparr>ap_registry := (ap_registry a)\<lparr>table := savePolicy n p (table (ap_registry a))\<rparr>\<rparr>"
    have a': "fst (persistent_updateAccess scrypt salt n input v a) = applyLive n p ?b"
      by (simp add: persistent_updateAccess_def Some Reply)
    have "spares_tunnels (vw_account v) a (applyLive n p ?b)"
    proof (rule live_spares [OF inv, where n = n])
      show "tn_accountId t = Some (vw_account v)" if "get_tunnel n (ap_registry a) = Some (oid, t)" for oid t
        using ag d that unfolding owners_agree_def by fastforce
    qed (use applyLive_access [of n p ?b] in \<open>auto simp: applyLive_get\<close>)
    moreover have "spares_names (vw_account v) a (applyLive n p ?b)"
      by (rule spares_namesI [OF d [THEN conjunct1] d [THEN conjunct2]]) (simp add: load_other_policy)
    ultimately show ?thesis by (simp add: a')
  qed (simp add: persistent_updateAccess_def Some)
qed (simp add: persistent_updateAccess_def)

lemma domain_tunnel_remove: "domain_tunnel h (remove_domain k d) = (if h = k then None else domain_tunnel h d)"
  by (simp add: domain_tunnel_def remove_domain_def remove_commit_def destroy_row_def)

lemma domain_tunnel_remove_each: "domain_tunnel h (fold remove_domain hs d) = (if h \<in> set hs then None else domain_tunnel h d)"
  by (induction hs arbitrary: d) (auto simp: domain_tunnel_remove)

lemma removeForTunnel_other:
  assumes "wf_map (byHost d)" "m \<noteq> n"
  shows "(domain_tunnel h (removeForTunnel n d) = Some m) = (domain_tunnel h d = Some m)"
proof -
  have "domain_tunnel h d \<noteq> Some m" if "h \<in> set (hostsFor n d)"
    using that assms by (auto simp: hostsFor_def domain_tunnel_def split: option.splits if_splits)
  then show ?thesis by (auto simp: removeForTunnel_def domain_tunnel_remove_each)
qed

lemma removePersistent_spares:
  assumes inv: "reg_inv (ap_registry a)" and ag: "owners_agree (ap_registry a)" and na: "vw_role v \<noteq> ''admin''"
    and wf: "wf_map (byHost (ap_domains a))"
  shows "spares_tunnels (vw_account v) a (fst (persistent_remove n v a)) \<and> spares_names (vw_account v) a (fst (persistent_remove n v a))"
proof (cases "definitionFor n v a")
  case (Some df)
  note d = definitionFor_own [OF Some na]
  let ?a = "fst (persistent_remove n v a)"
  have "spares_tunnels (vw_account v) a ?a"
  proof (rule live_spares [OF inv, where n = n])
    show "tn_accountId t = Some (vw_account v)" if "get_tunnel n (ap_registry a) = Some (oid, t)" for oid t
      using ag d that unfolding owners_agree_def by fastforce
  qed (auto simp: persistent_remove_def Some Let_def get_on_tunnel)
  moreover have "spares_names (vw_account v) a ?a"
    by (rule spares_namesI [OF d [THEN conjunct1] d [THEN conjunct2]])
      (simp add: persistent_remove_def Some Let_def load_remove removeForTunnel_other [OF wf] split: option.split)
  ultimately show ?thesis by blast
qed (simp add: persistent_remove_def)

lemma find_append_Some: "find P xs = Some x \<Longrightarrow> find P (xs @ ys) = Some x"
  by (induction xs) (auto split: if_splits)

lemma store_definition_load:
  "store_definition d q now n k p rows = Inr (rows', df) \<Longrightarrow> load m rows = Some f \<Longrightarrow> load m rows' = Some f"
  by (auto simp: store_definition_def create_persistent_def Let_def load_def find_append_Some split: option.splits if_splits)

text \<open>The outcome of create: nothing changes, or a definition is stored and a live tunnel of that
  name, which is the viewer's unless the viewer is an administrator, becomes persistent.\<close>

definition made_persistent :: "string \<Rightarrow> policy \<Rightarrow> tunnel_table \<Rightarrow> api \<Rightarrow> api" where
  "made_persistent n p rows a =
     (let a1 = a\<lparr>ap_registry := (ap_registry a)\<lparr>table := rows\<rparr>\<rparr>
      in case get_tunnel n (ap_registry a) of
           None \<Rightarrow> a1
         | Some (oid, _) \<Rightarrow> applyLive n p (a1\<lparr>ap_registry := on_tunnel oid (\<lambda>t. t\<lparr>tn_persistent := True\<rparr>) (ap_registry a1)\<rparr>))"

lemma persistent_create_outcome:
  fixes input a v c info scrypt salt d q now
  defines "a' \<equiv> fst (persistent_create c info scrypt salt d q now input v a)"
  obtains "a' = a"
  | n k p rows df where "store_definition d q now n k p (table (ap_registry a)) = Inr (rows, df)" "a' = made_persistent n p rows a"
      "\<And>oid t. get_tunnel n (ap_registry a) = Some (oid, t) \<Longrightarrow> tn_accountId t = k \<and> (vw_role v \<noteq> ''admin'' \<longrightarrow> k = Some (vw_account v))"
proof -
  define n where "n = to_lower (trim (string_or (js_get input ''name'') []))"
  define live where "live = get_tunnel n (ap_registry a)"
  define previous where "previous = (case live of None \<Rightarrow> emptyPolicy | Some (_, t) \<Rightarrow> tn_policy t)"
  define accountId where "accountId = (case live of None \<Rightarrow> Some (vw_account v) | Some (_, t) \<Rightarrow> tn_accountId t)"
  let ?P = "if wants_policy input then policyFrom scrypt salt input previous else Reply [] previous"
  note defs = a'_def persistent_create_def n_def [symmetric] live_def [symmetric] previous_def [symmetric] accountId_def [symmetric] Let_def
  show thesis
  proof (cases "\<not> isValidName n \<or> (live \<noteq> None \<and> tn_accountId (snd (the live)) \<noteq> Some (vw_account v) \<and> \<not> isAdmin v)")
    case True
    then have "a' = a" unfolding defs by auto
    then show thesis by (rule that(1))
  next
    case False
    show thesis
    proof (cases ?P)
      case (Refuse code m)
      then have "a' = a" using False unfolding defs by auto
      then show thesis by (rule that(1))
    next
      case (Reply m p)
      show thesis
      proof (cases "store_definition d q now n accountId p (table (ap_registry a))")
        case (Inl e)
        then have "a' = a" using False Reply unfolding defs by auto
        then show thesis by (rule that(1))
      next
        case (Inr rd)
        obtain rows df where rd: "rd = (rows, df)" by fastforce
        have a': "a' = made_persistent n p rows a"
          using False Reply Inr rd unfolding defs by (auto simp: made_persistent_def live_def split: option.splits)
        show thesis
          by (rule that(2) [of n accountId p rows df])
            (use False Inr rd a' in \<open>auto simp: live_def accountId_def isAdmin_def\<close>)
      qed
    qed
  qed
qed

lemma createPersistent_spares:
  assumes inv: "reg_inv (ap_registry a)" and na: "vw_role v \<noteq> ''admin''"
  shows "spares_tunnels (vw_account v) a (fst (persistent_create c info scrypt salt d q now input v a)) \<and>
    spares_names (vw_account v) a (fst (persistent_create c info scrypt salt d q now input v a))"
proof (rule persistent_create_outcome [of c info scrypt salt d q now input v a])
  fix n k p rows df
  assume st: "store_definition d q now n k p (table (ap_registry a)) = Inr (rows, df)"
    and a': "fst (persistent_create c info scrypt salt d q now input v a) = made_persistent n p rows a"
    and own: "\<And>oid t. get_tunnel n (ap_registry a) = Some (oid, t) \<Longrightarrow> tn_accountId t = k \<and> (vw_role v \<noteq> ''admin'' \<longrightarrow> k = Some (vw_account v))"
  have "spares_tunnels (vw_account v) a (made_persistent n p rows a)"
  proof (rule live_spares [OF inv, where n = n])
    show "ap_access (made_persistent n p rows a) = ap_access a \<or> ap_access (made_persistent n p rows a) = forget_tunnel n (ap_access a)"
      by (auto simp: made_persistent_def applyLive_def Let_def split: option.split)
  qed (use own na in \<open>auto simp: made_persistent_def applyLive_get get_on_tunnel Let_def split: option.split\<close>)
  moreover have "spares_names (vw_account v) a (made_persistent n p rows a)"
    unfolding spares_names_def made_persistent_def Let_def using store_definition_load [OF st] by (auto split: option.split)
  ultimately show ?thesis unfolding a' by blast
qed simp

lemma same_tunnels_spared:
  "ap_registry a' = ap_registry a \<Longrightarrow> ap_access a' = ap_access a \<Longrightarrow> ap_bps a' = ap_bps a \<Longrightarrow> spares_tunnels k a a'"
  by (simp add: spares_tunnels_def)

lemma add_domain_tunnel:
  assumes "add_domain base now raw n k d = Inr (d', row)" "m \<noteq> n"
  shows "(domain_tunnel h d' = Some m) = (domain_tunnel h d = Some m)"
  using assms
  by (auto simp: add_domain_def add_commit_def create_row_def add_check_def domain_tunnel_def Let_def split: if_splits option.splits)

lemma verify_byHost [simp]: "byHost (verify base tls due dns outcome now h d) = byHost d"
  by (simp add: verify_def Let_def verify_resolved_def verify_issued_def split: option.split)

lemma domains_spare:
  assumes na: "vw_role v \<noteq> ''admin''"
  shows "spares_tunnels (vw_account v) a (fst (addDomain c info db q now n input v a)) \<and> spares_names (vw_account v) a (fst (addDomain c info db q now n input v a))"
    "spares_tunnels (vw_account v) a (fst (checkDomain c info tls due dns outcome now n h v a)) \<and>
     spares_names (vw_account v) a (fst (checkDomain c info tls due dns outcome now n h v a))"
    "spares_tunnels (vw_account v) a (fst (removeDomain n h v a)) \<and> spares_names (vw_account v) a (fst (removeDomain n h v a))"
proof -
  show "spares_tunnels (vw_account v) a (fst (addDomain c info db q now n input v a)) \<and> spares_names (vw_account v) a (fst (addDomain c info db q now n input v a))"
  proof (cases "definitionFor n v a")
    case (Some df)
    note d = definitionFor_own [OF Some na]
    have "spares_names (vw_account v) a (fst (addDomain c info db q now n input v a))"
      by (rule spares_namesI [OF d [THEN conjunct1] d [THEN conjunct2]])
        (auto simp: addDomain_def Some add_domain_tunnel split: sum.split)
    then show ?thesis by (auto simp: addDomain_def Some intro: same_tunnels_spared split: sum.split)
  qed (simp add: addDomain_def)
  have "byHost (ap_domains (fst (checkDomain c info tls due dns outcome now n h v a))) = byHost (ap_domains a) \<and>
     ap_registry (fst (checkDomain c info tls due dns outcome now n h v a)) = ap_registry a \<and>
     ap_access (fst (checkDomain c info tls due dns outcome now n h v a)) = ap_access a \<and>
     ap_bps (fst (checkDomain c info tls due dns outcome now n h v a)) = ap_bps a"
    by (simp add: checkDomain_def Let_def split: option.split)
  then show "spares_tunnels (vw_account v) a (fst (checkDomain c info tls due dns outcome now n h v a)) \<and>
     spares_names (vw_account v) a (fst (checkDomain c info tls due dns outcome now n h v a))"
    by (simp add: same_tunnels_spared spares_names_def domain_tunnel_def)
  show "spares_tunnels (vw_account v) a (fst (removeDomain n h v a)) \<and> spares_names (vw_account v) a (fst (removeDomain n h v a))"
  proof (cases "domainOf n h v a")
    case (Some k)
    then obtain df where df: "definitionFor n v a = Some df" "domain_tunnel k (ap_domains a) = Some n"
      by (auto simp: domainOf_def Let_def split: if_splits)
    note d = definitionFor_own [OF df(1) na]
    have "spares_names (vw_account v) a (fst (removeDomain n h v a))"
      by (rule spares_namesI [OF d [THEN conjunct1] d [THEN conjunct2]])
        (use df(2) in \<open>auto simp: removeDomain_def Some domain_tunnel_remove\<close>)
    then show ?thesis by (auto simp: removeDomain_def Some intro: same_tunnels_spared)
  qed (simp add: removeDomain_def)
qed

text \<open>Every handler keeps the accounts of the live tunnels in line with those of the reserved names.\<close>

definition keeps_owners :: "registry \<Rightarrow> registry \<Rightarrow> bool" where
  "keeps_owners r r' \<longleftrightarrow>
     (\<forall>i oid t'. get_tunnel i r' = Some (oid, t') \<longrightarrow> (\<exists>t. get_tunnel i r = Some (oid, t) \<and> tn_accountId t' = tn_accountId t)) \<and>
     (\<forall>n f'. load n (table r') = Some f' \<longrightarrow>
        (\<exists>f. load n (table r) = Some f \<and> df_accountId f' = df_accountId f) \<or>
        (\<forall>oid t. get_tunnel n r = Some (oid, t) \<longrightarrow> tn_accountId t = Some (df_accountId f')))"

lemma keeps_owners_agree: "keeps_owners r r' \<Longrightarrow> owners_agree r \<Longrightarrow> owners_agree r'"
  unfolding keeps_owners_def owners_agree_def by metis

lemma keeps_owners_refl [simp]: "keeps_owners r r"
  by (auto simp: keeps_owners_def)

lemma keeps_on_tunnel:
  "keeps_owners r r' \<Longrightarrow> (\<And>t. tn_accountId (f t) = tn_accountId t) \<Longrightarrow> keeps_owners r (on_tunnel oid f r')"
  by (fastforce simp: keeps_owners_def get_on_tunnel split: if_splits)

lemma keeps_savePolicy: "keeps_owners r r' \<Longrightarrow> keeps_owners r (r'\<lparr>table := savePolicy n p (table r')\<rparr>)"
proof -
  assume k: "keeps_owners r r'"
  have "\<exists>f. load m (table r') = Some f \<and> df_accountId f' = df_accountId f" if "load m (savePolicy n p (table r')) = Some f'" for m f'
    using load_account [of m n p "table r'"] that by (cases "load m (table r')") auto
  with k show ?thesis by (simp add: keeps_owners_def) metis
qed

lemma keeps_end [simp]:
  "keeps_owners r (endSession s m c r') = keeps_owners r r'" "keeps_owners r (end_each ss m c r') = keeps_owners r r'"
  by (simp_all add: keeps_owners_def)

lemma keeps_remove: "keeps_owners r (remove i reason r)"
proof (cases "get_tunnel i r")
  case (Some ot)
  then obtain oid0 t0 where g: "get_tunnel i r = Some (oid0, t0)" by (cases ot) simp
  have "\<exists>t. get_tunnel j r = Some (oid, t) \<and> tn_accountId t' = tn_accountId t" if "get_tunnel j (remove i reason r) = Some (oid, t')" for j oid t'
    using that unfolding get_tunnel_def remove_frame(1,3) [OF g] by (auto split: option.splits if_splits)
  moreover have "table (remove i reason r) = table r" by (simp add: remove_def g Let_def)
  ultimately show ?thesis by (simp add: keeps_owners_def)
qed (simp add: remove_none)

lemma keeps_applyLive:
  "keeps_owners r (ap_registry b) \<Longrightarrow> keeps_owners r (ap_registry (applyLive n p b))"
  by (auto simp: applyLive_def intro: keeps_on_tunnel split: option.split)

lemma keeps_remove_persistent: "keeps_owners r (r\<lparr>table := remove_persistent n (table r)\<rparr>)"
  by (auto simp: keeps_owners_def load_remove split: if_splits)

lemma keeps_store:
  assumes "store_definition d q now n k p (table r) = Inr (rows, df)"
    "\<And>oid t. get_tunnel n r = Some (oid, t) \<Longrightarrow> tn_accountId t = k"
  shows "keeps_owners r (r\<lparr>table := rows\<rparr>)"
proof -
  obtain i row where i: "k = Some i" "rows = table r @ [row]" "tr_name row = n" "tr_accountId row = i" "find (\<lambda>x. tr_name x = n) (table r) = None"
    using assms(1) by (auto simp: store_definition_def create_persistent_def Let_def split: option.splits if_splits)
  have app: "find P (xs @ [x]) = (case find P xs of Some y \<Rightarrow> Some y | None \<Rightarrow> if P x then Some x else None)"
    for P :: "tunnel_row \<Rightarrow> bool" and xs x by (induction xs) auto
  show ?thesis
    using assms(2) i by (auto simp: keeps_owners_def load_def app toDefinition_def split: option.splits if_splits)
qed

lemma create_keeps_owners: "keeps_owners (ap_registry a) (ap_registry (fst (persistent_create c info scrypt salt d q now input v a)))"
proof (rule persistent_create_outcome [of c info scrypt salt d q now input v a])
  fix n k p rows df
  assume st: "store_definition d q now n k p (table (ap_registry a)) = Inr (rows, df)"
    and a': "fst (persistent_create c info scrypt salt d q now input v a) = made_persistent n p rows a"
    and own: "\<And>oid t. get_tunnel n (ap_registry a) = Some (oid, t) \<Longrightarrow> tn_accountId t = k \<and> (vw_role v \<noteq> ''admin'' \<longrightarrow> k = Some (vw_account v))"
  have "keeps_owners (ap_registry a) ((ap_registry a)\<lparr>table := rows\<rparr>)" by (rule keeps_store [OF st]) (use own in blast)
  then show ?thesis
    unfolding a' made_persistent_def Let_def by (auto intro!: keeps_applyLive keeps_on_tunnel split: option.split)
qed simp

lemma perform_keeps_owners: "keeps_owners (ap_registry a) (ap_registry (perform e now v call a))"
proof (cases call)
  case (DisconnectClient i k)
  then show ?thesis by (auto simp: disconnectClient_def split: reply.split option.split intro!: keeps_on_tunnel)
next
  case (DisconnectAll i)
  then show ?thesis by (auto simp: disconnectAllClients_def Let_def split: reply.split intro!: keeps_on_tunnel)
next
  case (UpdateAccess i input)
  then show ?thesis
    by (auto simp: updateAccess_def Let_def split: reply.split option.split
        intro!: keeps_on_tunnel keeps_savePolicy [of _ "on_tunnel x f r" for x f r, simplified])
next
  case (CreatePersistent input)
  then show ?thesis by (simp add: create_keeps_owners)
next
  case (UpdatePersistent n input)
  then show ?thesis by (auto simp: persistent_updateAccess_def split: reply.split option.split intro!: keeps_applyLive keeps_savePolicy)
next
  case (RemovePersistent n)
  then show ?thesis
    by (auto simp: persistent_remove_def Let_def split: option.split intro!: keeps_on_tunnel keeps_remove_persistent)
qed (auto simp: setBreakpoints_def resolveBreakpoint_def closeTunnel_def keeps_remove addDomain_def checkDomain_def removeDomain_def Let_def
    split: sum.split option.split)

lemma applyLive_inv: "reg_inv (ap_registry a) \<Longrightarrow> reg_inv (ap_registry (applyLive n p a))"
  by (auto simp: applyLive_def intro: on_tunnel_inv split: option.split)

lemma reg_inv_ends [simp]: "reg_inv (end_each ss m c r) = reg_inv r"
  by (induction ss arbitrary: r) auto

lemma perform_reg_inv: "reg_inv (ap_registry a) \<Longrightarrow> reg_inv (ap_registry (perform e now v call a))"
proof -
  assume i: "reg_inv (ap_registry a)"
  have rm: "reg_inv (remove n reason (ap_registry a))" for n reason
    using remove_keeps [OF i, of UNIV n reason] by (simp add: RegistryLife.kept_def)
  have made: "reg_inv (ap_registry (made_persistent n p rows a))" for n p rows
    by (auto simp: i made_persistent_def Let_def intro!: applyLive_inv on_tunnel_inv split: option.split)
  have created: "reg_inv (ap_registry (fst (persistent_create c info scrypt salt d q now input v a)))"
    for c and info :: "string \<Rightarrow> unit" and scrypt salt d q input
    by (rule persistent_create_outcome [of c info scrypt salt d q now input v a]) (simp_all only: i made)
  show ?thesis
    by (cases call) (auto simp: i rm created disconnectClient_def disconnectAllClients_def updateAccess_def setBreakpoints_def
      resolveBreakpoint_def closeTunnel_def persistent_updateAccess_def persistent_remove_def addDomain_def checkDomain_def removeDomain_def
      Let_def intro!: on_tunnel_inv applyLive_inv split: reply.split option.split sum.split)
qed

lemma wf_remove_each: "wf_map (byHost d) \<Longrightarrow> wf_map (byHost (fold remove_domain hs d))"
  by (induction hs arbitrary: d) (auto simp: remove_domain_def remove_commit_def destroy_row_def distinct_delete)

lemma wf_add_domain: "add_domain base now raw n k d = Inr (d', row) \<Longrightarrow> wf_map (byHost d) \<Longrightarrow> wf_map (byHost d')"
  by (auto simp: add_domain_def add_commit_def create_row_def Let_def distinct_update split: if_splits)

lemma perform_wf_domains: "wf_map (byHost (ap_domains a)) \<Longrightarrow> wf_map (byHost (ap_domains (perform e now v call a)))"
proof -
  assume w: "wf_map (byHost (ap_domains a))"
  have made: "ap_domains (made_persistent n p rows a) = ap_domains a" for n p rows
    by (auto simp: made_persistent_def Let_def split: option.split)
  have created: "ap_domains (fst (persistent_create c info scrypt salt d q now input v a)) = ap_domains a"
    for c and info :: "string \<Rightarrow> unit" and scrypt salt d q input
    by (rule persistent_create_outcome [of c info scrypt salt d q now input v a]) (simp_all only: made)
  have rm: "byHost (remove_domain h d) = map_delete h (byHost d)" for h d
    by (simp add: remove_domain_def remove_commit_def destroy_row_def)
  show ?thesis
    by (cases call) (auto simp: w created rm disconnectClient_def disconnectAllClients_def updateAccess_def setBreakpoints_def
      resolveBreakpoint_def closeTunnel_def persistent_updateAccess_def persistent_remove_def addDomain_def checkDomain_def removeDomain_def
      Let_def removeForTunnel_def intro: distinct_delete wf_remove_each wf_add_domain split: reply.split option.split sum.split)
qed

lemma perform_spares:
  assumes "reg_inv (ap_registry a)" "owners_agree (ap_registry a)" "wf_map (byHost (ap_domains a))" "vw_role v \<noteq> ''admin''"
  shows "spares_tunnels (vw_account v) a (perform e now v call a) \<and> spares_names (vw_account v) a (perform e now v call a)"
  by (cases call) (simp_all add: assms disconnect_spares updateAccess_spares breakpoints_spare close_spares createPersistent_spares
    updatePersistent_spares removePersistent_spares domains_spare)

definition api_ok :: "api \<Rightarrow> bool" where
  "api_ok a \<longleftrightarrow> reg_inv (ap_registry a) \<and> owners_agree (ap_registry a) \<and> wf_map (byHost (ap_domains a))"


definition sample_tunnel :: tunnel where
  "sample_tunnel = \<lparr>tn_id = ''web'', tn_accountId = Some 1, tn_owner = Some ''ann'', tn_guest = None, tn_mode = ''subdomain'',
     tn_target = \<lparr>tg_host = ''127.0.0.1'', tg_port = 80, tg_authority = ''127.0.0.1:80''\<rparr>, tn_keepHost = False, tn_session = None,
     tn_resumeToken = ''r'', tn_secret = None, tn_secretHash = None, tn_joiners = [], tn_graceUntil = Some 9, tn_createdAt = 0,
     tn_policy = emptyPolicy, tn_persistent = False, tn_credential = None\<rparr>"

definition sample_api :: api where
  "sample_api = \<lparr>ap_registry = (reg_init [])\<lparr>objs := [(0, sample_tunnel)], names := [(''web'', 0)], nextObj := 1\<rparr>,
     ap_access = new_AccessStore 0, ap_bps = new_Breakpoints, ap_domains = new_DomainManager [], ap_sent = []\<rparr>"


text \<open>
  Continuing a held message without edits sends it on unchanged: the decision carries the
  method, the path, the headers and the bytes of the body of the held request, or the status,
  the headers and the bytes of the held response; and the body survives the base64 of the view.
\<close>

theorem continue_unedited:
  assumes "p_body (h_request held) \<noteq> Some []" "h_response held = Some (status, p)" "p_body p \<noteq> Some []"
  shows "decide (held\<lparr>h_phase := ''request''\<rparr>) (JObj []) =
      Inr (go_request (h_method held) (h_path held) (p_headers (h_request held)) (case p_body (h_request held) of None \<Rightarrow> [] | Some b \<Rightarrow> b)) \<and>
    decide (held\<lparr>h_phase := ''response''\<rparr>) (JObj []) =
      Inr (go_response status (p_headers p) (case p_body p of None \<Rightarrow> [] | Some b \<Rightarrow> b))"
proof -
  have ne: "b64_encode b \<noteq> []" if "b \<noteq> []" for b
    using that by (cases b rule: b64_encode.cases) auto
  have buf: "bufferOf (part x) = (case p_body x of None \<Rightarrow> [] | Some b \<Rightarrow> b)" if "p_body x \<noteq> Some []" for x
    using that ne by (auto simp: bufferOf_def part_def b64_roundtrip split: option.split)
  have un: "editedPart x (JObj []) = Inr x" for x by (cases x) (simp add: editedPart_def)
  show ?thesis
    using assms buf by (simp add: decide_def serialize_def edited_def editedResponse_def un edited_method_def edited_path_def Let_def part_def)
qed

theorem continue_unedited_witness:
  "decide (sample_held\<lparr>h_phase := ''request'', h_request := sample_part\<lparr>p_body := Some [1, 2]\<rparr>, h_response := Some (200, sample_part)\<rparr>) (JObj []) =
   Inr (go_request ''GET'' ''/'' [] [1, 2])"
  using continue_unedited [of "sample_held\<lparr>h_request := sample_part\<lparr>p_body := Some [1, 2]\<rparr>, h_response := Some (200, sample_part)\<rparr>" 200 sample_part]
  by (simp add: sample_held_def sample_part_def)

end
