(* ===== verification/Control.thy ===== *)
theory Control
  imports RegistryLife Connections Domains
begin

text \<open>
  The control connection of the command line client (src/server/controllers/control.js) and the
  relay of TCP and UDP streams between a joiner and the owner of a tunnel
  (src/server/controllers/relay.js).

  A control connection is a state machine: hello, setup, ready. Its messages are handled one
  after the other (the promise queue of the source), so a message is one step. The sessions
  are those of the registry; what is sent on them and how they are asked to close is recorded.
  A relay is the pair of streams with the closure variables of relayStream; its events are the
  chunks, the announcement timer and the error and close events of the two streams.
\<close>

definition PROTOCOL_VERSION :: int where
  "PROTOCOL_VERSION = 1"

record registered =
  rg_id :: string
  rg_mode :: string
  rg_url :: "string option"
  rg_customUrls :: "string list"
  rg_persistent :: bool
  rg_access :: "string option"
  rg_shareCode :: "string option"
  rg_connectUrl :: "string option"
  rg_resumeToken :: string
  rg_resumed :: bool

record conn_summary =
  su_key :: string
  su_protocol :: string
  su_ip :: string
  su_country :: jsval
  su_org :: jsval
  su_client :: string
  su_bytesIn :: nat
  su_bytesOut :: nat
  su_duration :: time
  su_reason :: "string option"
  su_detail :: detection

datatype control_msg =
    MError string string
  | MHello int string string
  | MRegistered registered
  | MJoined string nat bool
  | MConnection string conn_summary

datatype hs_state = SHello | SSetup | SReady

record control =
  ct_state :: hs_state
  ct_role :: "string option"
  ct_attached :: "nat option"

record control_server =
  cs_registry :: registry
  cs_db :: db
  cs_out :: "(nat \<times> control_msg) list"
  cs_closes :: "(nat \<times> nat \<times> string) list"

text \<open>Hash and password functions, the configuration, the quotas of the month, custom domains and
  address details; the version text of the server.\<close>

record control_env =
  ce_sha256 :: "bytes \<Rightarrow> bytes"
  ce_scrypt :: "string \<Rightarrow> bytes \<Rightarrow> nat \<Rightarrow> bytes"
  ce_config :: rconfig
  ce_trustProxy :: bool
  ce_quotas :: quotas
  ce_month :: string
  ce_hosts :: "string \<Rightarrow> string list"
  ce_lookupIp :: "string \<Rightarrow> ip_details"
  ce_server :: string

text \<open>The bytes a registration draws: salt, resume token, secret and the candidates for a name.\<close>

record draws =
  dw_salt :: bytes
  dw_resume :: bytes
  dw_secret :: bytes
  dw_ids :: "bytes list"

subsection \<open>The handshake\<close>

text \<open>The address of a client: the first of X-Forwarded-For behind a trusted proxy.\<close>

definition client_ip :: "bool \<Rightarrow> string option \<Rightarrow> string option \<Rightarrow> string" where
  "client_ip trustProxy forwardedFor remote =
     (let forwarded = (case forwardedFor of
            Some v \<Rightarrow> if trustProxy \<and> v \<noteq> [] then trim (hd (split_on (CHR '','') v)) else []
          | None \<Rightarrow> [])
      in if forwarded \<noteq> [] then forwarded else (case remote of None \<Rightarrow> [] | Some a \<Rightarrow> a))"

definition new_session :: "string \<Rightarrow> rsession" where
  "new_session ip = \<lparr>rs_closed = False, rs_account = None, rs_guest = None, rs_credential = None, rs_ip = ip,
     rs_saidBye = False, rs_tunnel = None, rs_byes = [], rs_listeners = []\<rparr>"

definition new_control :: control where
  "new_control = \<lparr>ct_state = SHello, ct_role = None, ct_attached = None\<rparr>"

definition session_open :: "nat \<Rightarrow> registry \<Rightarrow> bool" where
  "session_open s r = (case map_get (sess r) s of None \<Rightarrow> False | Some x \<Rightarrow> \<not> rs_closed x)"

definition sendControl :: "nat \<Rightarrow> control_msg \<Rightarrow> control_server \<Rightarrow> control_server" where
  "sendControl s m v = (if session_open s (cs_registry v) then v\<lparr>cs_out := cs_out v @ [(s, m)]\<rparr> else v)"

definition close_control :: "nat \<Rightarrow> nat \<Rightarrow> string \<Rightarrow> control_server \<Rightarrow> control_server" where
  "close_control s code reason v = v\<lparr>cs_closes := cs_closes v @ [(s, code, reason)]\<rparr>"

definition fail_control :: "nat \<Rightarrow> string \<Rightarrow> string \<Rightarrow> nat \<Rightarrow> control_server \<Rightarrow> control_server" where
  "fail_control s code message wsCode v = close_control s wsCode code (sendControl s (MError code message) v)"

definition set_session :: "nat \<Rightarrow> (rsession \<Rightarrow> rsession) \<Rightarrow> control_server \<Rightarrow> control_server" where
  "set_session s f v = v\<lparr>cs_registry := on_session s f (cs_registry v)\<rparr>"

text \<open>The owner's part of hello: the credential, the account behind it, and the use of an invite.
  None stands for a refusal.\<close>

definition owner_hello ::
  "control_env \<Rightarrow> time \<Rightarrow> string option \<Rightarrow> jsval \<Rightarrow> nat \<Rightarrow> control_server \<Rightarrow> control_server \<times> bool" where
  "owner_hello e now headerToken message s v =
     (let presented = (case headerToken of Some (c # cs) \<Rightarrow> JStr (c # cs) | _ \<Rightarrow> js_get message ''token'')
      in case deviceFor (ce_sha256 e) now presented (cs_db v) of
           (d, None) \<Rightarrow> (fail_control s ''unauthorized'' ''invalid token'' 4401 (v\<lparr>cs_db := d\<rparr>), False)
         | (d, Some device) \<Rightarrow>
             let account = accountFor device d;
                 v1 = set_session s (\<lambda>x. x\<lparr>rs_account := map_option (\<lambda>a. (a_id a, a_username a)) account\<rparr>) (v\<lparr>cs_db := d\<rparr>)
             in if account = None
                then (fail_control s ''unauthorized'' ''the account behind this device is gone'' 4401 v1, False)
                else let v2 = set_session s (\<lambda>x. x\<lparr>rs_credential := Some (cr_credential device)\<rparr>) v1
                     in (case cr_guest device of
                           None \<Rightarrow> v2
                         | Some g \<Rightarrow> (set_session s (\<lambda>x. x\<lparr>rs_guest := Some (n_label g)\<rparr>) v2)\<lparr>cs_db := used now g (cs_db v2)\<rparr>, True))"

definition handle_hello ::
  "control_env \<Rightarrow> time \<Rightarrow> string option \<Rightarrow> jsval \<Rightarrow> nat \<Rightarrow> control \<times> control_server \<Rightarrow> control \<times> control_server" where
  "handle_hello e now headerToken message s cv =
     (case cv of (ct, v) \<Rightarrow>
        if js_get message ''type'' \<noteq> JStr ''hello'' then (ct, fail_control s ''bad_request'' ''expected hello'' 4000 v)
        else if js_get message ''version'' \<noteq> JInt PROTOCOL_VERSION
        then (ct, fail_control s ''unsupported_version'' (''unsupported protocol version '' @ js_string (js_get message ''version'')) 4000 v)
        else let role = (if js_get message ''role'' = JStr ''joiner'' then Some ''joiner''
                         else if js_get message ''role'' = JStr ''owner'' then Some ''owner'' else None);
                 ct1 = ct\<lparr>ct_role := role\<rparr>
             in if role = None then (ct1, fail_control s ''bad_request'' ''role must be owner or joiner'' 4000 v)
                else (case (if role = Some ''owner'' then owner_hello e now headerToken message s v else (v, True)) of
                        (v1, False) \<Rightarrow> (ct1, v1)
                      | (v1, True) \<Rightarrow>
                          (ct1\<lparr>ct_state := SSetup\<rparr>,
                           sendControl s (MHello PROTOCOL_VERSION (ce_server e) (c_baseDomain (ce_config e))) v1)))"

definition registered_of :: "control_env \<Rightarrow> tunnel \<Rightarrow> bool \<Rightarrow> registered" where
  "registered_of e t resumed =
     \<lparr>rg_id = tn_id t, rg_mode = tn_mode t, rg_url = publicUrl (ce_config e) t,
      rg_customUrls = customUrls (ce_config e) (ce_hosts e) t, rg_persistent = tn_persistent t,
      rg_access = summarizePolicy (tn_policy t), rg_shareCode = shareCode t, rg_connectUrl = connectUrl (ce_config e) t,
      rg_resumeToken = tn_resumeToken t, rg_resumed = resumed\<rparr>"

definition session_limits :: "control_env \<Rightarrow> nat \<Rightarrow> control_server \<Rightarrow> limits \<times> nat" where
  "session_limits e s v =
     (case map_get (sess (cs_registry v)) s of
        Some x \<Rightarrow> (case rs_account x of
                    Some (i, _) \<Rightarrow> (limitsFor i (cs_db v) (ce_quotas e), trafficFor (ce_month e) i (ce_quotas e))
                  | None \<Rightarrow> (NONE, 0))
      | None \<Rightarrow> (NONE, 0))"

definition catch_control :: "nat \<Rightarrow> err \<Rightarrow> control_server \<Rightarrow> control_server" where
  "catch_control s err v = fail_control s (if err_code err = [] then ''bad_request'' else err_code err) (err_message err) 4000 v"

definition handle_setup ::
  "control_env \<Rightarrow> time \<Rightarrow> draws \<Rightarrow> jsval \<Rightarrow> nat \<Rightarrow> control \<times> control_server \<Rightarrow> control \<times> control_server" where
  "handle_setup e now w message s cv =
     (case cv of (ct, v) \<Rightarrow>
        if ct_role ct = Some ''owner''
        then if js_get message ''type'' \<noteq> JStr ''register'' then (ct, fail_control s ''bad_request'' ''expected register'' 4000 v)
             else let (lims, traffic) = session_limits e s v
                  in (case register (ce_sha256 e) (ce_scrypt e) (dw_salt w) (dw_resume w) (dw_secret w) (dw_ids w) (ce_config e) lims traffic
                             now s message (cs_registry v) of
                        Inl err \<Rightarrow> (ct, catch_control s err v)
                      | Inr (r, oid, resumed) \<Rightarrow>
                          let v1 = v\<lparr>cs_registry := r\<rparr>
                          in (ct\<lparr>ct_state := SReady\<rparr>,
                              case map_get (objs r) oid of
                                None \<Rightarrow> v1
                              | Some t \<Rightarrow> sendControl s (MRegistered (registered_of e t resumed)) v1))
        else if js_get message ''type'' \<noteq> JStr ''join'' then (ct, fail_control s ''bad_request'' ''expected join'' 4000 v)
        else (case join_tunnel (ce_sha256 e) (ce_lookupIp e) s (js_get message ''code'') (cs_registry v) of
                (r, Inl err) \<Rightarrow> (ct, catch_control s err (v\<lparr>cs_registry := r\<rparr>))
              | (r, Inr oid) \<Rightarrow>
                  let v1 = v\<lparr>cs_registry := r\<rparr>
                  in (ct\<lparr>ct_state := SReady, ct_attached := Some oid\<rparr>,
                      case map_get (objs r) oid of
                        None \<Rightarrow> v1
                      | Some t \<Rightarrow> sendControl s (MJoined (tn_id t) (tg_port (tn_target t)) (tunnel_online r t)) v1)))"

definition handle_control ::
  "control_env \<Rightarrow> time \<Rightarrow> draws \<Rightarrow> string option \<Rightarrow> jsval \<Rightarrow> nat \<Rightarrow> control \<times> control_server \<Rightarrow> control \<times> control_server" where
  "handle_control e now w headerToken message s cv =
     (case cv of (ct, v) \<Rightarrow>
        if js_get message ''type'' = JStr ''bye''
        then (ct, close_control s 1000 ''bye'' (set_session s (\<lambda>x. x\<lparr>rs_saidBye := True\<rparr>) v))
        else (case ct_state ct of
                SHello \<Rightarrow> handle_hello e now headerToken message s (ct, v)
              | SSetup \<Rightarrow> handle_setup e now w message s (ct, v)
              | SReady \<Rightarrow> (ct, v)))"

definition handshake_timeout :: "nat \<Rightarrow> control \<times> control_server \<Rightarrow> control \<times> control_server" where
  "handshake_timeout s cv =
     (case cv of (ct, v) \<Rightarrow>
        if ct_state ct \<noteq> SReady then (ct, fail_control s ''bad_request'' ''handshake timeout'' 4000 v) else (ct, v))"

text \<open>What happens to a stream the client opens: destroyed, or relayed to the joined tunnel.\<close>

datatype stream_fate = Destroyed | RelayedTo nat | Ignored

definition on_stream :: "control \<Rightarrow> stream_fate" where
  "on_stream ct =
     (if ct_role ct \<noteq> Some ''joiner'' \<or> ct_state ct \<noteq> SReady then Destroyed
      else case ct_attached ct of None \<Rightarrow> Ignored | Some oid \<Rightarrow> RelayedTo oid)"

subsection \<open>Whose tunnels a control connection registers\<close>

text \<open>The runs of one control connection, with the states that came before. Other connections and
  the rest of the server may change anything but the identity on the session.\<close>

definition identity :: "nat \<Rightarrow> control_server \<Rightarrow> ((nat \<times> string) option \<times> string option) option" where
  "identity s v = map_option (\<lambda>x. (rs_account x, rs_credential x)) (map_get (sess (cs_registry v)) s)"

inductive control_reach :: "control_env \<Rightarrow> string option \<Rightarrow> nat \<Rightarrow> control_server list \<Rightarrow> control \<times> control_server \<Rightarrow> bool" for e h s where
  Connects: "map_get (sess (cs_registry v)) s = Some (new_session ip) \<Longrightarrow> control_reach e h s [] (new_control, v)"
| Message: "control_reach e h s past (ct, v) \<Longrightarrow> control_reach e h s (past @ [v]) (handle_control e now w h message s (ct, v))"
| Timeout: "control_reach e h s past (ct, v) \<Longrightarrow> control_reach e h s (past @ [v]) (handshake_timeout s (ct, v))"
| Elsewhere: "control_reach e h s past (ct, v) \<Longrightarrow> identity s v' = identity s v \<Longrightarrow> control_reach e h s (past @ [v]) (ct, v')"

text \<open>A device or invite token was presented and belongs to an existing account; this is the
  identity it gives.\<close>

definition signed_in_by :: "control_env \<Rightarrow> (nat \<times> string) option \<times> string option \<Rightarrow> control_server \<Rightarrow> bool" where
  "signed_in_by e i v \<longleftrightarrow> (\<exists>now token d device a.
     deviceFor (ce_sha256 e) now token (cs_db v) = (d, Some device) \<and> accountFor device d = Some a \<and>
     i = (Some (a_id a, a_username a), Some (cr_credential device)))"

definition owner_signed_in :: "control_env \<Rightarrow> nat \<Rightarrow> control_server list \<Rightarrow> control \<times> control_server \<Rightarrow> bool" where
  "owner_signed_in e s past cv \<longleftrightarrow> (case cv of (ct, v) \<Rightarrow> ct_state ct = SSetup \<longrightarrow> ct_role ct = Some ''owner'' \<longrightarrow>
     (\<forall>i. identity s v = Some i \<longrightarrow> (\<exists>u \<in> set past. signed_in_by e i u)))"

lemma sends_frame [simp]:
  "cs_registry (sendControl s m v) = cs_registry v" "cs_db (sendControl s m v) = cs_db v"
  "cs_registry (fail_control s c t w v) = cs_registry v" "cs_registry (close_control s n t v) = cs_registry v"
  "cs_registry (catch_control s err v) = cs_registry v"
  by (simp_all add: sendControl_def fail_control_def close_control_def catch_control_def)

lemma identity_sends [simp]:
  "identity s (sendControl s' m v) = identity s v" "identity s (fail_control s' c t w v) = identity s v"
  "identity s (close_control s' n t v) = identity s v" "identity s (catch_control s' err v) = identity s v"
  "identity s (v\<lparr>cs_db := d\<rparr>) = identity s v"
  by (simp_all add: identity_def)

lemma identity_set:
  "identity s (set_session s f v) = map_option (\<lambda>x. (rs_account (f x), rs_credential (f x))) (map_get (sess (cs_registry v)) s)"
  by (cases "map_get (sess (cs_registry v)) s") (auto simp: identity_def set_session_def on_session_sess)

lemma owner_hello_identity:
  assumes "owner_hello e now h message s v = (v', True)" "identity s v' = Some i"
  shows "signed_in_by e i v"
proof -
  define p where "p = (case h of Some (c # cs) \<Rightarrow> JStr (c # cs) | _ \<Rightarrow> js_get message ''token'')"
  note def = owner_hello_def p_def [symmetric] Let_def
  obtain d o' where o': "deviceFor (ce_sha256 e) now p (cs_db v) = (d, o')" by fastforce
  then obtain dv where dv: "deviceFor (ce_sha256 e) now p (cs_db v) = (d, Some dv)"
    using assms(1) unfolding def by (cases o') auto
  then obtain a where a: "accountFor dv d = Some a"
    using assms(1) unfolding def by (cases "accountFor dv d") auto
  have "i = (Some (a_id a, a_username a), Some (cr_credential dv))"
    using assms dv a unfolding def
    by (cases "map_get (sess (cs_registry v)) s")
      (auto simp: identity_def set_session_def on_session_sess split: option.splits)
  with dv a show ?thesis unfolding signed_in_by_def by blast
qed

lemma handle_hello_setup:
  assumes "handle_hello e now h message s (ct, v) = (ct', v')" "ct_state ct = SHello" "ct_state ct' = SSetup" "ct_role ct' = Some ''owner''"
  obtains v1 where "owner_hello e now h message s v = (v1, True)" "identity s v' = identity s v1"
proof (cases "owner_hello e now h message s v")
  case (Pair v1 b)
  have "js_get message ''role'' = JStr ''owner''" "b"
    using assms Pair by (auto simp: handle_hello_def Let_def split: if_splits bool.splits)
  then have "identity s v' = identity s v1"
    using assms Pair by (auto simp: handle_hello_def Let_def split: if_splits)
  with Pair \<open>b\<close> show thesis by (intro that) simp_all
qed

lemma control_reach_signed_in: "control_reach e h s past cv \<Longrightarrow> owner_signed_in e s past cv"
proof (induction rule: control_reach.induct)
  case (Connects v ip)
  then show ?case by (simp add: owner_signed_in_def new_control_def)
next
  case (Message past ct v now w message)
  obtain ct' v' where cv': "handle_control e now w h message s (ct, v) = (ct', v')" by fastforce
  show ?case
  proof (cases "js_get message ''type'' = JStr ''bye''")
    case True
    then have "ct' = ct" "identity s v' = identity s v"
      using cv' identity_set [of s "\<lambda>x. x\<lparr>rs_saidBye := True\<rparr>" v] by (auto simp: handle_control_def identity_def)
    then show ?thesis using Message.IH cv' by (auto simp: owner_signed_in_def)
  next
    case False
    show ?thesis
    proof (cases "ct_state ct")
      case SHello
      then have hh: "handle_hello e now h message s (ct, v) = (ct', v')" using cv' False by (simp add: handle_control_def)
      have "signed_in_by e i v" if "ct_state ct' = SSetup" "ct_role ct' = Some ''owner''" "identity s v' = Some i" for i
        using that by (metis handle_hello_setup [OF hh SHello] owner_hello_identity)
      then show ?thesis by (simp add: cv' owner_signed_in_def)
    next
      case SSetup
      then have "ct' = ct \<and> (ct_role ct = Some ''owner'' \<longrightarrow> identity s v' = identity s v) \<or> ct_state ct' = SReady"
        using cv' False by (auto simp: handle_control_def handle_setup_def Let_def split: if_splits sum.splits prod.splits)
      then show ?thesis using Message.IH cv' by (auto simp: owner_signed_in_def)
    next
      case SReady
      then show ?thesis using cv' False by (auto simp: handle_control_def owner_signed_in_def)
    qed
  qed
next
  case (Timeout past ct v)
  then show ?case by (auto simp: owner_signed_in_def handshake_timeout_def)
next
  case (Elsewhere past ct v v')
  then show ?case by (auto simp: owner_signed_in_def)
qed

lemma find_resume_obj: "findByResumeToken sha256 tok r = Some (k, t) \<Longrightarrow> map_get (objs r) k = Some t"
proof -
  assume a: "findByResumeToken sha256 tok r = Some (k, t)"
  have "x \<in> set xs" if "find P xs = Some x" for P and xs :: "(nat \<times> tunnel) list" and x
    using that by (induction xs) (auto split: if_splits)
  from this [OF a [unfolded findByResumeToken_def]] show ?thesis by (auto simp: List.map_filter_def)
qed

lemma register_owner:
  assumes "register sha256 scrypt salt rr rs rnds c lims traffic now s message r = Inr (r', oid, resumed)"
  shows "\<exists>x t. map_get (sess r) s = Some x \<and> map_get (objs r') oid = Some t \<and> tn_session t = Some s \<and>
    tn_accountId t = map_option fst (rs_account x) \<and> tn_credential t = rs_credential x"
proof -
  have new: "\<exists>x t. map_get (sess r) s = Some x \<and> map_get (objs r') oid = Some t \<and> tn_session t = Some s \<and>
      tn_accountId t = map_option fst (rs_account x) \<and> tn_credential t = rs_credential x"
    if n: "register_new sha256 scrypt salt rr rs rnds lims traffic now s mode target kh policy accountId message r = Inr (r', oid, resumed)"
    for mode target kh policy accountId
  proof -
    obtain allocated previous where c: "register_commit sha256 scrypt salt rr rs now s mode target kh policy previous allocated r = Inr (r', oid)"
      using n by (auto simp: register_new_def Let_def)
    obtain x where x: "map_get (sess r) s = Some x" using c by (auto simp: register_commit_def split: option.splits)
    have oid: "oid = nextObj r" using c x by (auto simp: register_commit_def Let_def split: prod.splits)
    obtain t3 tb where t3: "tn_accountId t3 = map_option fst (rs_account x)"
      and r': "r' = attach (nextObj r) s target kh (r\<lparr>table := tb, objs := map_set (nextObj r) t3 (objs r), nextObj := nextObj r + 1, names := map_set (fst allocated) (nextObj r) (names r)\<rparr>)"
      using register_commit_shape [OF _ x, of sha256 scrypt salt rr rs now mode target kh policy previous "fst allocated" "snd allocated" r' oid] c
      by (metis prod.collapse)
    show ?thesis using x t3 oid
      by (simp add: r' attach_objs [where t = t3 and x = x])
  qed
  have resumed: "\<exists>x t. map_get (sess r) s = Some x \<and> map_get (objs r') oid = Some t \<and> tn_session t = Some s \<and>
      tn_accountId t = map_option fst (rs_account x) \<and> tn_credential t = rs_credential x"
    if q: "resume_tunnel scrypt salt k t0 s target kh policy r = Inr (r', oid)" "map_get (objs r) k = Some t0"
      "map_get (sess r) s = Some x" "tn_accountId t0 = map_option fst (rs_account x)" for k t0 target kh policy x
  proof -
    obtain p tb where r': "r' = attach k s target kh ((on_tunnel k (\<lambda>t. t\<lparr>tn_policy := p\<rparr>) r)\<lparr>table := tb\<rparr>)"
      by (rule resume_shape [OF q(1,2)])
    have "oid = k" using q(1) by (auto simp: resume_tunnel_def Let_def)
    then show ?thesis using q(2-4)
      by (simp add: r' attach_objs [where t = "t0\<lparr>tn_policy := p\<rparr>" and x = x] on_tunnel_objs)
  qed
  define x where "x = map_get (sess r) s"
  define accountId where "accountId = (case x of None \<Rightarrow> None | Some x \<Rightarrow> map_option fst (rs_account x))"
  define existing where "existing = (case js_get message ''resume'' of
     JStr tok \<Rightarrow> if tok \<noteq> [] then findByResumeToken sha256 tok r else None | _ \<Rightarrow> None)"
  note def = register_def Let_def x_def [symmetric] accountId_def [symmetric] existing_def [symmetric]
  have ob: "map_get (objs r) k = Some t" if "existing = Some (k, t)" for k t
    using that find_resume_obj by (auto simp: existing_def split: jsval.splits if_splits)
  show ?thesis
  proof (cases existing)
    case None
    then have "\<exists>mode target kh policy a. register_new sha256 scrypt salt rr rs rnds lims traffic now s mode target kh policy a message r = Inr (r', oid, resumed)"
      using assms unfolding def by (auto split: if_splits option.splits intro!: exI)
    then show ?thesis using new by blast
  next
    case (Some kt)
    obtain k t where kt: "existing = Some (k, t)" using Some by (cases kt) simp
    show ?thesis
    proof (cases "accountId \<noteq> None \<and> tn_accountId t = accountId \<and> (\<exists>target kh policy. resume_tunnel scrypt salt k t s target kh policy r = Inr (r', oid))")
      case True
      then obtain y where "map_get (sess r) s = Some y" "tn_accountId t = map_option fst (rs_account y)"
        by (auto simp: accountId_def x_def split: option.splits)
      then show ?thesis using True ob [OF kt] resumed by blast
    next
      case False
      then have "\<exists>mode target kh policy a. register_new sha256 scrypt salt rr rs rnds lims traffic now s mode target kh policy a message r = Inr (r', oid, resumed)"
        using assms kt unfolding def by (auto split: if_splits option.splits intro!: exI)
      then show ?thesis using new by blast
    qed
  qed
qed

lemma handle_names:
  assumes "handle_control e now w h message s (ct, v) = (ct', v')" "\<not> (ct_state ct = SSetup \<and> ct_role ct = Some ''owner'')"
  shows "names (cs_registry v') = names (cs_registry v)"
proof -
  have join: "names (fst (join_tunnel sha256 lk s code r)) = names r" for sha256 lk code r
    by (auto simp: join_tunnel_def Let_def split: option.splits prod.splits)
  have hello: "names (cs_registry (fst (owner_hello e now h message s v))) = names (cs_registry v)"
    by (auto simp: owner_hello_def Let_def set_session_def split: prod.split option.split)
  show ?thesis
    using assms join [of "ce_sha256 e" "ce_lookupIp e" "js_get message ''code''" "cs_registry v"] hello
    by (auto simp: handle_control_def handle_hello_def handle_setup_def set_session_def Let_def
        split: if_splits hs_state.splits prod.splits sum.splits option.splits bool.splits)
qed

subsection \<open>The relay\<close>

text \<open>The closure of relayStream: the entry of the connection log, whether the opening has been
  announced and its timer is pending, the reason of the end, and which of the two streams has
  been destroyed. The owner's announcements are kept apart, in the order they are sent.\<close>

record relay =
  rl_oid :: nat
  rl_session :: nat
  rl_key :: string
  rl_announced :: bool
  rl_timer :: bool
  rl_reason :: "string option"
  rl_joinerDestroyed :: bool
  rl_ownerDestroyed :: bool

record relay_world =
  rw_registry :: registry
  rw_conns :: conn_log
  rw_visitors :: visitors
  rw_out :: "(nat \<times> control_msg) list"

definition summary :: "time \<Rightarrow> conn_entry \<Rightarrow> conn_summary" where
  "summary now e =
     \<lparr>su_key = ce_key e, su_protocol = ce_protocol e, su_ip = ce_ip e, su_country = i_country (ce_intel e), su_org = i_org (ce_intel e),
      su_client = ce_client e, su_bytesIn = ce_bytesIn e, su_bytesOut = ce_bytesOut e,
      su_duration = (case ce_endedAt e of Some t \<Rightarrow> if t \<noteq> 0 then t else now | None \<Rightarrow> now) - ce_startedAt e,
      su_reason = ce_reason e, su_detail = ce_detail e\<rparr>"

definition announce :: "time \<Rightarrow> string \<Rightarrow> relay \<Rightarrow> relay_world \<Rightarrow> relay_world" where
  "announce now event l w =
     (case (map_get (objs (rw_registry w)) (rl_oid l), map_get (cl_store (rw_conns w)) (rl_key l)) of
        (Some t, Some e) \<Rightarrow>
          (case tn_session t of
             None \<Rightarrow> w
           | Some s \<Rightarrow> if session_open s (rw_registry w) then w\<lparr>rw_out := rw_out w @ [(s, MConnection event (summary now e))]\<rparr> else w)
      | _ \<Rightarrow> w)"

definition opened :: "time \<Rightarrow> relay \<times> relay_world \<Rightarrow> relay \<times> relay_world" where
  "opened now lw =
     (case lw of (l, w) \<Rightarrow>
        if rl_announced l then (l, w)
        else let l1 = l\<lparr>rl_announced := True, rl_timer := False\<rparr> in (l1, announce now ''open'' l1 w))"

text \<open>The start of relayStream: None when the owner is offline and the stream is destroyed.\<close>

definition relayStream ::
  "string \<Rightarrow> string \<Rightarrow> (string \<Rightarrow> ip_details) \<Rightarrow> time \<Rightarrow> nat \<Rightarrow> nat \<Rightarrow> string \<Rightarrow> jsval \<Rightarrow> relay_world \<Rightarrow> (relay \<times> relay_world) option" where
  "relayStream key clientId lookupIp now oid s ip meta w =
     (case map_get (objs (rw_registry w)) oid of
        None \<Rightarrow> None
      | Some t \<Rightarrow>
          if \<not> tunnel_online (rw_registry w) t then None
          else let protocol = (if js_get meta ''protocol'' = JStr ''udp'' then ''udp'' else ''tcp'');
                   details = lookupIp ip; remote = string_or (js_get meta ''remote'') []
               in Some (\<lparr>rl_oid = oid, rl_session = s, rl_key = key, rl_announced = False, rl_timer = True, rl_reason = None,
                         rl_joinerDestroyed = False, rl_ownerDestroyed = False\<rparr>,
                        w\<lparr>rw_conns := open_conn key now (tn_id t) protocol ip details remote clientId (rw_conns w),
                          rw_visitors := seen_visitor now (tn_id t) ip details (rw_visitors w)\<rparr>))"

text \<open>A chunk or a datagram in one direction; a detection that throws leaves the rest undone.\<close>

definition relay_observe :: "time \<Rightarrow> string \<Rightarrow> bytes \<Rightarrow> relay \<times> relay_world \<Rightarrow> relay \<times> relay_world" where
  "relay_observe now direction chunk lw =
     (case lw of (l, w) \<Rightarrow>
        (case conn_data (rl_key l) direction chunk (rw_conns w) of
           (c, Inl err) \<Rightarrow> (l, w\<lparr>rw_conns := c\<rparr>)
         | (c, Inr _) \<Rightarrow>
             (case map_get (cl_store c) (rl_key l) of
                None \<Rightarrow> (l, w\<lparr>rw_conns := c\<rparr>)
              | Some e \<Rightarrow> if ce_detail e \<noteq> None then opened now (l, w\<lparr>rw_conns := c\<rparr>) else (l, w\<lparr>rw_conns := c\<rparr>))))"

definition relay_timer_fires :: "time \<Rightarrow> relay \<times> relay_world \<Rightarrow> relay \<times> relay_world" where
  "relay_timer_fires now lw = (if rl_timer (fst lw) then opened now ((fst lw)\<lparr>rl_timer := False\<rparr>, snd lw) else lw)"

definition relay_finish :: "time \<Rightarrow> string \<Rightarrow> relay \<times> relay_world \<Rightarrow> relay \<times> relay_world" where
  "relay_finish now cause lw =
     (case lw of (l, w) \<Rightarrow>
        let reason = (case rl_reason l of None \<Rightarrow> cause | Some r \<Rightarrow> r); l1 = l\<lparr>rl_reason := Some reason\<rparr>
        in (case map_get (cl_store (rw_conns w)) (rl_key l) of
              None \<Rightarrow> (l1, w)
            | Some e \<Rightarrow>
                if ce_endedAt e \<noteq> None then (l1, w)
                else let lw2 = opened now (l1, w\<lparr>rw_conns := close_conn now (rl_key l) reason (rw_conns w)\<rparr>)
                     in (fst lw2, announce now ''close'' (fst lw2) (snd lw2))))"

datatype relay_event = JoinerError | OwnerError | JoinerEnds | OwnerEnds | Chunk string bytes | TimerFires

text \<open>The listeners. The error listener of the owner's stream reads tunnel.session.closed; after
  the registry has cleared tunnel.session it throws before anything else is done.\<close>

fun relay_on :: "time \<Rightarrow> relay_event \<Rightarrow> relay \<times> relay_world \<Rightarrow> relay \<times> relay_world" where
  "relay_on now JoinerError (l, w) =
     (let (l1, w1) = relay_finish now (if session_open (rl_session l) (rw_registry w) then ''error'' else ''client disconnected'') (l, w)
      in (l1\<lparr>rl_ownerDestroyed := True\<rparr>, w1))"
| "relay_on now OwnerError (l, w) =
     (case map_get (objs (rw_registry w)) (rl_oid l) of
        None \<Rightarrow> (l, w)
      | Some t \<Rightarrow>
          (case tn_session t of
             None \<Rightarrow> (l, w)
           | Some s \<Rightarrow>
               let (l1, w1) = relay_finish now (if session_open s (rw_registry w) then ''error'' else ''tunnel closed'') (l, w)
               in (l1\<lparr>rl_joinerDestroyed := True\<rparr>, w1)))"
| "relay_on now JoinerEnds (l, w) = (let (l1, w1) = relay_finish now ''client closed'' (l, w) in (l1\<lparr>rl_ownerDestroyed := True\<rparr>, w1))"
| "relay_on now OwnerEnds (l, w) = (let (l1, w1) = relay_finish now ''app closed'' (l, w) in (l1\<lparr>rl_joinerDestroyed := True\<rparr>, w1))"
| "relay_on now (Chunk direction chunk) (l, w) = relay_observe now direction chunk (l, w)"
| "relay_on now TimerFires (l, w) = relay_timer_fires now (l, w)"

text \<open>What the owner hears of the connection with a key, and the runs of a relay. The rest of the
  server may change anything but the entry and the announcements of this connection.\<close>

definition heard :: "string \<Rightarrow> (nat \<times> control_msg) list \<Rightarrow> string list" where
  "heard k out = List.map_filter (\<lambda>(_, m). case m of MConnection ev su \<Rightarrow> if su_key su = k then Some ev else None | _ \<Rightarrow> None) out"

definition entry_of :: "relay \<times> relay_world \<Rightarrow> conn_entry option" where
  "entry_of lw = map_get (cl_store (rw_conns (snd lw))) (rl_key (fst lw))"

inductive relay_reach :: "relay \<times> relay_world \<Rightarrow> bool" where
  Opens: "heard key (rw_out w) = [] \<Longrightarrow> relayStream key clientId lookupIp now oid s ip meta w = Some lw \<Longrightarrow> relay_reach lw"
| Event: "relay_reach lw \<Longrightarrow> relay_reach (relay_on now ev lw)"
| Elsewhere: "relay_reach (l, w) \<Longrightarrow> entry_of (l, w') = entry_of (l, w) \<Longrightarrow> heard (rl_key l) (rw_out w') = heard (rl_key l) (rw_out w) \<Longrightarrow>
    relay_reach (l, w')"

definition entry_ok :: "relay \<Rightarrow> string list \<Rightarrow> conn_entry \<Rightarrow> bool" where
  "entry_ok l out e \<longleftrightarrow> ce_key e = rl_key l \<and>
     (if ce_endedAt e \<noteq> None
      then rl_announced l \<and> rl_reason l \<noteq> None \<and> ce_reason e = rl_reason l \<and> out \<in> {[], [''open''], [''close''], [''open'', ''close'']}
      else rl_reason l = None \<and> (if rl_announced l then out \<in> {[], [''open'']} else out = []))"

definition relay_inv :: "relay \<times> relay_world \<Rightarrow> bool" where
  "relay_inv lw \<longleftrightarrow> (case entry_of lw of None \<Rightarrow> False | Some e \<Rightarrow> entry_ok (fst lw) (heard (rl_key (fst lw)) (rw_out (snd lw))) e)"

lemma heard_snoc: "heard k (out @ [(s, MConnection ev su)]) = heard k out @ (if su_key su = k then [ev] else [])"
  by (simp add: heard_def List.map_filter_def)

lemma announce_heard:
  assumes "entry_of (l, w) = Some e" "ce_key e = rl_key l"
  shows "heard (rl_key l) (rw_out (announce now ev l w)) \<in> {heard (rl_key l) (rw_out w), heard (rl_key l) (rw_out w) @ [ev]}"
  using assms by (auto simp: announce_def entry_of_def heard_snoc summary_def split: option.split)

lemma announce_conns [simp]: "rw_conns (announce now ev l w) = rw_conns w"
  by (auto simp: announce_def split: option.split)

lemma opened_fields [simp]:
  "rl_key (fst (opened now lw)) = rl_key (fst lw)" "rl_reason (fst (opened now lw)) = rl_reason (fst lw)"
  "rl_announced (fst (opened now lw))" "rw_conns (snd (opened now lw)) = rw_conns (snd lw)"
  by (auto simp: opened_def Let_def split: prod.split)

lemma opened_heard:
  assumes "entry_of (l, w) = Some e" "ce_key e = rl_key l" "\<not> rl_announced l \<Longrightarrow> heard (rl_key l) (rw_out w) = []"
    "rl_announced l \<Longrightarrow> heard (rl_key l) (rw_out w) \<in> {[], [''open'']}"
  shows "heard (rl_key l) (rw_out (snd (opened now (l, w)))) \<in> {[], [''open'']}"
  using assms announce_heard [of "l\<lparr>rl_announced := True, rl_timer := False\<rparr>" w e now "''open''"]
  by (auto simp: opened_def Let_def entry_of_def)

lemma opened_inv:
  assumes "relay_inv (l, w)"
  shows "relay_inv (opened now (l, w))"
proof (cases "rl_announced l")
  case True
  then show ?thesis using assms by (simp add: opened_def)
next
  case False
  obtain e where e: "entry_of (l, w) = Some e" "ce_key e = rl_key l" "ce_endedAt e = None" "rl_reason l = None" "heard (rl_key l) (rw_out w) = []"
    using assms False by (auto simp: relay_inv_def entry_ok_def split: option.splits if_splits)
  have "entry_of (opened now (l, w)) = Some e" using e(1) by (simp add: entry_of_def)
  moreover have "heard (rl_key l) (rw_out (snd (opened now (l, w)))) \<in> {[], [''open'']}"
    by (rule opened_heard [OF e(1,2)]) (use e(5) False in auto)
  ultimately show ?thesis using e by (simp add: relay_inv_def entry_ok_def)
qed

lemma data_keeps_entry:
  assumes "map_get (cl_store c) k = Some e"
  shows "\<exists>e'. map_get (cl_store (fst (conn_data k d b c))) k = Some e' \<and> ce_key e' = ce_key e \<and> ce_endedAt e' = ce_endedAt e \<and> ce_reason e' = ce_reason e"
  using assms
  by (auto simp: conn_data_def count_data_def mark_sniffed_def Let_def split: sum.split)

lemma observe_inv:
  assumes "relay_inv (l, w)"
  shows "relay_inv (relay_observe now d b (l, w))"
proof -
  obtain e where e: "map_get (cl_store (rw_conns w)) (rl_key l) = Some e" using assms by (auto simp: relay_inv_def entry_of_def split: option.splits)
  have "relay_inv (l, w\<lparr>rw_conns := fst (conn_data (rl_key l) d b (rw_conns w))\<rparr>)"
    using assms data_keeps_entry [OF e, of d b] e by (auto simp: relay_inv_def entry_of_def entry_ok_def)
  then show ?thesis
    by (auto simp: relay_observe_def opened_inv split: prod.split sum.split option.split)
qed

lemma finish_inv:
  assumes "relay_inv (l, w)"
  shows "relay_inv (relay_finish now cause (l, w))"
proof -
  obtain e where e: "map_get (cl_store (rw_conns w)) (rl_key l) = Some e" "ce_key e = rl_key l"
    using assms by (auto simp: relay_inv_def entry_of_def entry_ok_def split: option.splits)
  show ?thesis
  proof (cases "ce_endedAt e")
    case (Some t)
    then have "relay_finish now cause (l, w) = (l, w)"
      using assms e by (cases "rl_reason l") (auto simp: relay_finish_def relay_inv_def entry_of_def entry_ok_def Let_def)
    then show ?thesis using assms by simp
  next
    case None
    have r: "rl_reason l = None" and h: "if rl_announced l then heard (rl_key l) (rw_out w) \<in> {[], [''open'']} else heard (rl_key l) (rw_out w) = []"
      using assms e None by (auto simp: relay_inv_def entry_of_def entry_ok_def)
    let ?l = "l\<lparr>rl_reason := Some cause\<rparr>" and ?w = "w\<lparr>rw_conns := close_conn now (rl_key l) cause (rw_conns w)\<rparr>"
    let ?e = "e\<lparr>ce_endedAt := Some now, ce_reason := Some cause\<rparr>" and ?o = "opened now (?l, ?w)"
    have en: "entry_of (?l, ?w) = Some ?e" using e by (simp add: entry_of_def close_conn_def)
    have ho: "heard (rl_key l) (rw_out (snd ?o)) \<in> {[], [''open'']}"
      using opened_heard [OF en, of now] e(2) h by (auto split: if_splits)
    have eo: "entry_of (fst ?o, snd ?o) = Some ?e" using en by (simp add: entry_of_def)
    have "heard (rl_key l) (rw_out (announce now ''close'' (fst ?o) (snd ?o))) \<in> {[], [''open''], [''close''], [''open'', ''close'']}"
      using announce_heard [OF eo, of now "''close''"] e(2) ho by auto
    moreover have "relay_finish now cause (l, w) = (fst ?o, announce now ''close'' (fst ?o) (snd ?o))"
      using e None r by (simp add: relay_finish_def Let_def)
    ultimately show ?thesis using eo e(2) by (simp add: relay_inv_def entry_of_def entry_ok_def)
  qed
qed

lemma relay_inv_flags:
  "relay_inv (l\<lparr>rl_ownerDestroyed := a\<rparr>, w) = relay_inv (l, w)" "relay_inv (l\<lparr>rl_joinerDestroyed := a\<rparr>, w) = relay_inv (l, w)"
  "relay_inv (l\<lparr>rl_timer := a\<rparr>, w) = relay_inv (l, w)"
  by (simp_all add: relay_inv_def entry_of_def entry_ok_def cong: option.case_cong)

lemma finish_inv_pair: "relay_inv (l, w) \<Longrightarrow> relay_finish now cause (l, w) = (l', w') \<Longrightarrow> relay_inv (l', w')"
  using finish_inv [of l w now cause] by simp

lemma relay_on_inv: "relay_inv (l, w) \<Longrightarrow> relay_inv (relay_on now ev (l, w))"
  using finish_inv_pair [of l w now] observe_inv [of l w now] opened_inv [of "l\<lparr>rl_timer := False\<rparr>" w now]
  by (cases ev) (auto simp: relay_inv_flags relay_timer_fires_def Let_def split: prod.split option.split)

lemma relay_reach_inv: "relay_reach lw \<Longrightarrow> relay_inv lw"
proof (induction rule: relay_reach.induct)
  case (Opens key w clientId lookupIp now oid s ip meta lw)
  then show ?case
    by (auto simp: relayStream_def relay_inv_def entry_of_def entry_ok_def open_conn_def Let_def split: option.splits if_splits)
next
  case (Event lw now ev)
  then show ?case using relay_on_inv [of "fst lw" "snd lw"] by simp
next
  case (Elsewhere l w w')
  then show ?case by (simp add: relay_inv_def split: option.splits)
qed

subsection \<open>What control connections promise\<close>


definition sample_env :: control_env where
  "sample_env = \<lparr>ce_sha256 = (\<lambda>b. b), ce_scrypt = (\<lambda>_ _ _. []), ce_config = run_config, ce_trustProxy = False, ce_quotas = new_Quotas,
     ce_month = ''2025-01'', ce_hosts = (\<lambda>_. []), ce_lookupIp = (\<lambda>_. undefined), ce_server = ''tunlit/1''\<rparr>"

definition sample_control_server :: control_server where
  "sample_control_server = \<lparr>cs_registry = (reg_init [])\<lparr>sess := [(0, new_session ''10.0.0.1'')]\<rparr>,
     cs_db = \<lparr>accounts = [\<lparr>a_id = 7, a_username = ''ann'', a_passwordHash = [], a_role = ''user'', a_totpSecret = None, a_totpEnabled = False,
                a_quotas = None, a_createdAt = 0\<rparr>],
              db_sessions = [], devices = [\<lparr>d_id = 3, d_accountId = 7, d_name = ''laptop'', d_kind = ''cli'', d_tokenHash = to_buf ''tok'',
                d_ip = None, d_userAgent = None, d_createdAt = 0, d_lastUsedAt = None\<rparr>],
              invites = [], nextAccount = 8, nextSession = 1, nextDevice = 4, nextInvite = 1\<rparr>,
     cs_out = [], cs_closes = []\<rparr>"

definition sample_draws :: draws where
  "sample_draws = \<lparr>dw_salt = [], dw_resume = [1], dw_secret = replicate 26 0, dw_ids = []\<rparr>"

definition sample_hello :: jsval where
  "sample_hello = JObj [(''type'', JStr ''hello''), (''version'', JInt 1), (''role'', JStr ''owner'')]"

definition sample_register :: jsval where
  "sample_register = JObj [(''type'', JStr ''register''), (''mode'', JStr ''http''), (''target'', JStr ''80''), (''name'', JStr ''web'')]"

definition sample_run :: "string option \<Rightarrow> jsval \<Rightarrow> control \<times> control_server \<Rightarrow> control \<times> control_server" where
  "sample_run token message cv = handle_control sample_env 5 sample_draws token message 0 cv"

definition sample_signed_in :: "control \<times> control_server" where
  "sample_signed_in = sample_run (Some ''tok'') sample_hello (new_control, sample_control_server)"

lemma sample_target: "parseTarget (JStr ''80'') = Some run_target"
proof -
  have "char_of (56 :: nat) = CHR ''8''" "char_of (48 :: nat) = CHR ''0''" by code_simp+
  then show ?thesis
    by (simp add: parseTarget_def split_port_def run_target_def Let_def trim_def is_space_def is_digit_def dec_nat_def digit_val_def ord_def
        show_nat.simps digit_char.simps)
qed

lemma sample_signed_in_facts:
  "cs_registry (snd sample_signed_in) = (reg_init [])\<lparr>sess := [(0, (new_session ''10.0.0.1'')\<lparr>rs_account := Some (7, ''ann''), rs_credential := Some ''device:3''\<rparr>)]\<rparr>"
  "session_limits sample_env 0 (snd sample_signed_in) = (NONE, 0)"
  "allocateId [] (JStr ''web'') (Some 7) (cs_registry (snd sample_signed_in)) = Inr (''web'', None)"
  "fst sample_signed_in = \<lparr>ct_state = SSetup, ct_role = Some ''owner'', ct_attached = None\<rparr>"
  by code_simp+

lemma sample_registration:
  "\<exists>r t. register (\<lambda>b. b) (\<lambda>_ _ _. []) [] [1] (replicate 26 0) [] run_config NONE 0 5 0 sample_register (cs_registry (snd sample_signed_in)) =
     Inr (r, 0, False) \<and> map_get (objs r) 0 = Some t \<and> tn_accountId t = Some 7"
  using sample_signed_in_facts(3) unfolding sample_signed_in_facts(1)
  by (simp add: sample_register_def register_def sample_target register_new_def register_commit_def enforce_def enforceTraffic_def limit_at_def NONE_def
      KEYS_def run_config_def new_session_def reg_init_def new_Tunnel_def attach_def Let_def on_tunnel_objs)


text \<open>
  C33. What the owner hears of a relayed connection is in order, whatever events of the two
  streams, chunks and timers come and whatever happens elsewhere: at most one opening, at most
  one end, and no opening after the end. The log has the end of the connection, with the first
  cause of it, exactly when the relay has finished.
\<close>

theorem relay_heard_in_order:
  assumes "relay_reach (l, w)"
  shows "heard (rl_key l) (rw_out w) \<in> {[], [''open''], [''close''], [''open'', ''close'']} \<and>
    (\<exists>x. map_get (cl_store (rw_conns w)) (rl_key l) = Some x \<and> (ce_endedAt x \<noteq> None \<longleftrightarrow> rl_reason l \<noteq> None) \<and>
       (ce_endedAt x \<noteq> None \<longrightarrow> ce_reason x = rl_reason l) \<and> (ce_endedAt x = None \<longrightarrow> heard (rl_key l) (rw_out w) \<in> {[], [''open'']}))"
  using relay_reach_inv [OF assms]
  by (auto simp: relay_inv_def entry_ok_def entry_of_def split: option.splits if_splits)

text \<open>A tunnel with an open owner session 0, and a relay on it.\<close>

definition relay_start :: relay_world where
  "relay_start = \<lparr>rw_registry = run_register ''tcp'' 0 run_start, rw_conns = new_ConnectionLog, rw_visitors = new_Visitors, rw_out = []\<rparr>"

definition sample_details :: ip_details where
  "sample_details = \<lparr>i_ip = ''10.0.0.9'', i_private = True, i_country = JNull, i_continent = JNull, i_eu = False, i_asn = JNull, i_org = JNull,
     i_tor = False, i_vpn = False, i_datacenter = False, i_blocklisted = False\<rparr>"

definition relay_opened :: "relay \<times> relay_world" where
  "relay_opened = the (relayStream ''k'' ''c'' (\<lambda>_. sample_details) 1 0 1 ''10.0.0.9'' (JObj []) relay_start)"

theorem relay_heard_in_order_witness:
  "heard ''k'' (rw_out (snd (relay_on 3 OwnerEnds (relay_on 2 JoinerEnds relay_opened)))) = [''open'', ''close''] \<and>
   heard ''k'' (rw_out (snd (relay_on 3 OwnerEnds (relay_on 2 JoinerEnds relay_opened)))) \<in> {[], [''open''], [''close''], [''open'', ''close'']}"
proof -
  let ?lw = "relay_on 3 OwnerEnds (relay_on 2 JoinerEnds relay_opened)"
  have some: "relayStream ''k'' ''c'' (\<lambda>_. sample_details) 1 0 1 ''10.0.0.9'' (JObj []) relay_start \<noteq> None" by code_simp
  have "relay_reach relay_opened"
    by (rule relay_reach.Opens [of "''k''" relay_start "''c''" "\<lambda>_. sample_details" 1 0 1 "''10.0.0.9''" "JObj []"])
      (use some in \<open>auto simp: relay_opened_def relay_start_def heard_def List.map_filter_def\<close>)
  then have "relay_reach (fst ?lw, snd ?lw)" by (simp add: relay_reach.Event)
  moreover have "rl_key (fst ?lw) = ''k''" by code_simp
  ultimately have "heard ''k'' (rw_out (snd ?lw)) \<in> {[], [''open''], [''close''], [''open'', ''close'']}"
    using relay_heard_in_order by metis
  moreover have "heard ''k'' (rw_out (snd ?lw)) = [''open'', ''close'']" by code_simp
  ultimately show ?thesis by blast
qed

text \<open>When the owner's session is lost, the registry clears tunnel.session before the error events
  of the session's streams run. The error listener then throws on tunnel.session.closed: the
  connection keeps an open entry and the joiner's stream is not destroyed.\<close>

lemma owner_loss_leaves_relay_open:
  "let w = (snd relay_opened)\<lparr>rw_registry := session_closed run_config 2 0 (rw_registry (snd relay_opened))\<rparr>;
       lw = relay_on 2 OwnerError (fst relay_opened, w)
   in map_option ce_endedAt (entry_of lw) = Some None \<and> \<not> rl_joinerDestroyed (fst lw)"
  by code_simp

end
