(* ===== verification/Config.thy ===== *)
theory Config
  imports Accounts Tables
begin

text \<open>
  The configuration of the server (src/server/utils/config.js), the stored settings
  (src/server/lib/settings.js) and the handlers that change them (src/server/controllers/setup.js
  and settings.js). A configuration is the JavaScript object it is in the code: values come from
  the YAML file, the environment, the database and the web interface in any type and are
  normalised in place. The parsed YAML file and the environment are arguments; a stored setting
  is kept as the value whose JSON the table holds. Numbers that are not whole keep their text.
\<close>

type_synonym cfg = "(string, jsval) jsmap"

definition cget :: "cfg \<Rightarrow> string \<Rightarrow> jsval" where
  "cget c k = js_get (JObj c) k"

definition DEFAULTS :: cfg where
  "DEFAULTS =
     [(''listen'', JStr ''0.0.0.0''), (''port'', JInt 8080), (''httpsPort'', JInt 443), (''redirectPort'', JInt 80),
      (''baseDomain'', JStr []), (''publicUrl'', JStr []), (''tlsMode'', JStr ''proxy''), (''acmeDirectoryUrl'', JStr []),
      (''trustProxy'', JBool False), (''httpMode'', JStr ''subdomain''), (''gracePeriod'', JInt 30)]"

definition ENV :: "(string \<times> string) list" where
  "ENV =
     [(''listen'', ''TUNLIT_LISTEN''), (''port'', ''TUNLIT_PORT''), (''httpsPort'', ''TUNLIT_HTTPS_PORT''),
      (''redirectPort'', ''TUNLIT_REDIRECT_PORT''), (''tlsMode'', ''TUNLIT_TLS_MODE''),
      (''acmeDirectoryUrl'', ''TUNLIT_ACME_DIRECTORY''), (''baseDomain'', ''TUNLIT_BASE_DOMAIN''),
      (''publicUrl'', ''TUNLIT_PUBLIC_URL''), (''trustProxy'', ''TUNLIT_TRUST_PROXY''),
      (''httpMode'', ''TUNLIT_HTTP_MODE''), (''gracePeriod'', ''TUNLIT_GRACE_PERIOD'')]"

definition UI_SETTING_KEYS :: "string list" where
  "UI_SETTING_KEYS = [''baseDomain'', ''publicUrl'', ''httpMode'', ''gracePeriod'', ''tlsMode'', ''trustProxy'']"

definition PINNED_BY_ENV :: "(string \<times> string) list" where
  "PINNED_BY_ENV = [(''tlsMode'', ''The HTTPS mode'')]"

text \<open>The configuration with the source of each value, and the flag index.js adds to it.\<close>

record settings =
  st_config :: cfg
  st_sources :: "(string, string) jsmap"
  st_setupRequired :: bool

definition pinned_key :: "settings \<Rightarrow> string \<Rightarrow> bool" where
  "pinned_key s key = (key \<in> fst ` set PINNED_BY_ENV \<and> map_get (st_sources s) key = Some ''env'')"

definition parseBool :: "jsval \<Rightarrow> bool" where
  "parseBool value = (to_lower (trim (js_string value)) \<in> set [''1'', ''true'', ''yes'', ''on''])"

text \<open>Number(v). A literal that is not whole stays as its text, everything else is NaN.\<close>

definition numeric_literal :: "string \<Rightarrow> bool" where
  "numeric_literal t =
     (let u = (if t \<noteq> [] \<and> (hd t = CHR ''-'' \<or> hd t = CHR ''+'') then tl t else t);
          a = takeWhile is_digit u; r = dropWhile is_digit u; dotted = (r \<noteq> [] \<and> hd r = CHR ''.'');
          frac = (if dotted then takeWhile is_digit (tl r) else []); rest = (if dotted then dropWhile is_digit (tl r) else r)
      in u = ''Infinity'' \<or> ((a \<noteq> [] \<or> frac \<noteq> []) \<and> exponent rest \<noteq> None))"

definition js_number :: "jsval \<Rightarrow> jsval" where
  "js_number v =
     (case js_integer v of
        Some i \<Rightarrow> JInt i
      | None \<Rightarrow> (case v of
                   JFloat s \<Rightarrow> JFloat s
                 | JStr s \<Rightarrow> JFloat (if numeric_literal (trim s) then trim s else ''NaN'')
                 | _ \<Rightarrow> JFloat ''NaN''))"

definition strip_dots :: "string \<Rightarrow> string" where
  "strip_dots s = rev (dropWhile (\<lambda>c. c = CHR ''.'') (rev (dropWhile (\<lambda>c. c = CHR ''.'') s)))"

definition strip_slashes :: "string \<Rightarrow> string" where
  "strip_slashes s = rev (dropWhile (\<lambda>c. c = CHR ''/'') (rev s))"

text \<open>a ?? b\<close>

definition nullish_or :: "jsval \<Rightarrow> jsval \<Rightarrow> jsval" where
  "nullish_or a b = (if a = JUndef \<or> a = JNull then b else a)"

definition norm_baseDomain :: "jsval \<Rightarrow> string" where
  "norm_baseDomain v = strip_dots (to_lower (trim (string_or v [])))"

definition norm_mode :: "string \<Rightarrow> jsval \<Rightarrow> string" where
  "norm_mode d v = to_lower (trim (string_or v d))"

definition norm_trustProxy :: "bool \<Rightarrow> jsval \<Rightarrow> bool" where
  "norm_trustProxy managesTls v = (if managesTls then False else case v of JBool b \<Rightarrow> b | _ \<Rightarrow> parseBool v)"

definition norm_publicUrl :: "jsval \<Rightarrow> jsval \<Rightarrow> string" where
  "norm_publicUrl configured url = strip_slashes (trim (js_string (nullish_or configured (nullish_or url (JStr [])))))"

fun put_all :: "(string \<times> jsval) list \<Rightarrow> cfg \<Rightarrow> cfg" where
  "put_all [] c = c"
| "put_all ((k, v) # kvs) c = put_all kvs (map_set k v c)"

text \<open>The fields normalize assigns, in its order.\<close>

definition norm_entries :: "cfg \<Rightarrow> (string \<times> jsval) list" where
  "norm_entries c =
     (let base = norm_baseDomain (cget c ''baseDomain''); http = norm_mode ''subdomain'' (cget c ''httpMode'');
          tls = norm_mode ''proxy'' (cget c ''tlsMode''); manages = (tls = ''acme'');
          configured = norm_publicUrl (cget c ''publicUrlConfigured'') (cget c ''publicUrl'');
          url = (if configured \<noteq> [] then configured else if base \<noteq> [] then ''https://'' @ base else [])
      in   [(''port'', js_number (cget c ''port'')), (''httpsPort'', js_number (cget c ''httpsPort'')),
            (''redirectPort'', js_number (cget c ''redirectPort'')), (''gracePeriod'', js_number (cget c ''gracePeriod'')),
            (''baseDomain'', JStr base), (''httpMode'', JStr http), (''tlsMode'', JStr tls),
            (''acmeDirectoryUrl'', JStr (trim (string_or (cget c ''acmeDirectoryUrl'') []))),
            (''managesTls'', JBool manages), (''trustProxy'', JBool (norm_trustProxy manages (cget c ''trustProxy''))),
            (''publicUrlConfigured'', JStr configured), (''publicUrl'', JStr url),
            (''publicScheme'', JStr (if starts_with ''http://'' url then ''http'' else ''https'')),
            (''wildcard'', JBool (http = ''subdomain'')), (''ready'', JBool (base \<noteq> []))])"

definition normalize_config :: "cfg \<Rightarrow> cfg" where
  "normalize_config c = put_all (norm_entries c) c"

definition port_ok :: "jsval \<Rightarrow> bool" where
  "port_ok v = (case v of JInt i \<Rightarrow> 1 \<le> i \<and> i \<le> 65535 | _ \<Rightarrow> False)"

definition grace_ok :: "jsval \<Rightarrow> bool" where
  "grace_ok v = (case v of
       JInt i \<Rightarrow> 0 \<le> i
     | JFloat s \<Rightarrow> s \<notin> set [''NaN'', ''Infinity'', ''+Infinity'', ''-Infinity''] \<and> \<not> starts_with ''-'' s
     | _ \<Rightarrow> False)"

text \<open>The pattern \<open>^https?:\/\/[^/\s]+$\<close>.\<close>

definition url_pattern :: "string \<Rightarrow> bool" where
  "url_pattern u =
     list_ex (\<lambda>p. starts_with p u \<and> drop (length p) u \<noteq> [] \<and> list_all (\<lambda>c. c \<noteq> CHR ''/'' \<and> \<not> is_space c) (drop (length p) u))
       [''http://'', ''https://'']"

definition domain_pattern :: "string \<Rightarrow> bool" where
  "domain_pattern s = (s \<noteq> [] \<and> list_all (\<lambda>c. is_lower c \<or> is_digit c \<or> c = CHR ''.'' \<or> c = CHR ''-'') s)"

fun text_of :: "jsval \<Rightarrow> string" where
  "text_of (JStr s) = s"
| "text_of _ = []"

definition validate_config :: "cfg \<Rightarrow> string list" where
  "validate_config c =
     (if cget c ''httpMode'' \<in> {JStr ''subdomain'', JStr ''path''} then [] else [''httpMode must be \"subdomain\" or \"path\"'']) @
     (if cget c ''tlsMode'' \<in> {JStr ''proxy'', JStr ''acme''} then [] else [''tlsMode must be \"proxy\" or \"acme\"'']) @
     map (\<lambda>key. key @ '' must be a number between 1 and 65535'')
       (filter (\<lambda>key. \<not> port_ok (cget c key)) [''port'', ''httpsPort'', ''redirectPort'']) @
     (if grace_ok (cget c ''gracePeriod'') then [] else [''gracePeriod must be a non-negative number of seconds'']) @
     (if text_of (cget c ''publicUrlConfigured'') \<noteq> [] \<and> \<not> url_pattern (text_of (cget c ''publicUrlConfigured''))
      then [''publicUrl must look like https://host[:port] without a path''] else []) @
     (if text_of (cget c ''baseDomain'') \<noteq> [] \<and> \<not> domain_pattern (text_of (cget c ''baseDomain'')) then [''baseDomain must be a hostname''] else [])"

text \<open>Values that count as given, in the file and among the stored settings.\<close>

definition given :: "jsval \<Rightarrow> bool" where
  "given v = (v \<noteq> JUndef \<and> v \<noteq> JNull \<and> v \<noteq> JStr [])"

definition listed :: "string list \<Rightarrow> string" where
  "listed problems = CHR 0x0A # ''  - '' @ join (CHR 0x0A # ''  - '') problems"

definition loadConfig :: "string \<Rightarrow> jsval \<Rightarrow> (string \<Rightarrow> string option) \<Rightarrow> settings result" where
  "loadConfig file fromFile environ =
     (if truthy fromFile \<and> \<not> (case fromFile of JObj _ \<Rightarrow> True | JArr _ \<Rightarrow> True | _ \<Rightarrow> False)
      then Inl (Err [] (file @ '' must contain a YAML mapping''))
      else let keys = map fst DEFAULTS;
               s0 = (DEFAULTS, map (\<lambda>k. (k, ''default'')) keys);
               s1 = fold (\<lambda>key (c, src). if given (js_get fromFile key)
                      then (map_set key (js_get fromFile key) c, map_set key ''file'' src) else (c, src)) keys s0;
               s2 = fold (\<lambda>(key, name) (c, src). case environ name of
                        None \<Rightarrow> (c, src)
                      | Some v \<Rightarrow> if v = [] then (c, src) else (map_set key (JStr v) c, map_set key ''env'' src)) ENV s1;
               c = normalize_config (fst s2); problems = validate_config c
           in if problems \<noteq> [] then Inl (Err [] (''Invalid configuration:'' @ listed problems))
              else Inr \<lparr>st_config = c, st_sources = snd s2, st_setupRequired = False\<rparr>)"

text \<open>applySettings: a pinned key must keep its value and is left out; the rest is merged,
  normalised and checked before anything of the live configuration changes.\<close>

definition unpinned :: "settings \<Rightarrow> cfg \<Rightarrow> cfg" where
  "unpinned s requested = filter (\<lambda>(key, _). \<not> pinned_key s key) requested"

definition merge_settings :: "cfg \<Rightarrow> cfg \<Rightarrow> cfg" where
  "merge_settings kvs c =
     (if ''publicUrl'' \<in> fst ` set kvs then map_set ''publicUrlConfigured'' (cget kvs ''publicUrl'') (put_all kvs c) else put_all kvs c)"

definition applySettings :: "settings \<Rightarrow> cfg \<Rightarrow> settings result" where
  "applySettings s requested =
     (case find (\<lambda>(key, v). pinned_key s key \<and> JStr (to_lower (trim (js_string v))) \<noteq> cget (st_config s) key) requested of
        Some (key, _) \<Rightarrow> Inl (Err ''invalid_settings'' (the (map_of PINNED_BY_ENV key) @ '' is set by '' @ the (map_of ENV key)))
      | None \<Rightarrow>
          let kvs = unpinned s requested; next = normalize_config (merge_settings kvs (st_config s)); problems = validate_config next
          in if problems \<noteq> [] then Inl (Err ''invalid_settings'' (join '', '' problems))
             else Inr (s\<lparr>st_config := next, st_sources := fold (\<lambda>(key, _). map_set key ''ui'') kvs (st_sources s)\<rparr>))"

definition applyStored :: "settings \<Rightarrow> cfg \<Rightarrow> settings result" where
  "applyStored s stored =
     (let taken = filter (\<lambda>key. given (cget stored key) \<and> \<not> pinned_key s key) UI_SETTING_KEYS;
          c = put_all (map (\<lambda>key. (key, cget stored key)) taken) (st_config s);
          c' = (if ''publicUrl'' \<in> fst ` set stored then map_set ''publicUrlConfigured'' (cget stored ''publicUrl'') c else c);
          next = normalize_config c'; problems = validate_config next
      in if problems \<noteq> [] then Inl (Err [] (''Stored settings are invalid:'' @ listed problems))
         else Inr (s\<lparr>st_config := next, st_sources := fold (\<lambda>key. map_set key ''ui'') taken (st_sources s)\<rparr>))"

subsection \<open>Stored settings\<close>

definition read_settings :: "cfg \<Rightarrow> cfg" where
  "read_settings rows = fold (\<lambda>(key, v) values. map_set key v values) rows []"

definition write_settings :: "cfg \<Rightarrow> cfg \<Rightarrow> cfg" where
  "write_settings values rows =
     fold (\<lambda>(key, v) rows. if map_get rows key \<noteq> None
         then map (\<lambda>(k, old). if k = key then (k, v) else (k, old)) rows else rows @ [(key, v)]) values rows"

subsection \<open>Setup and settings handlers\<close>

definition isSetupRequired :: "db \<Rightarrow> bool" where
  "isSetupRequired d = (account_count d = 0)"

definition shown_settings :: "settings \<Rightarrow> cfg" where
  "shown_settings s =
     map (\<lambda>key. (key, if key = ''publicUrl'' then cget (st_config s) ''publicUrlConfigured'' else cget (st_config s) key)) UI_SETTING_KEYS"

definition shown_sources :: "settings \<Rightarrow> (string \<times> string option) list" where
  "shown_sources s = map (\<lambda>key. (key, map_get (st_sources s) key)) UI_SETTING_KEYS"

definition getSetupStatus :: "settings \<Rightarrow> db \<Rightarrow> bool \<times> jsval \<times> (cfg \<times> (string \<times> string option) list) option" where
  "getSetupStatus s d =
     (isSetupRequired d, cget (st_config s) ''ready'',
      if isSetupRequired d then Some (shown_settings s, shown_sources s) else None)"

definition pickSettings :: "jsval \<Rightarrow> cfg" where
  "pickSettings body =
     map (\<lambda>key. (key,
         if key = ''gracePeriod'' then js_number (js_get body key)
         else if key = ''trustProxy'' then JBool (js_get body key \<in> {JBool True, JStr ''true''})
         else js_get body key))
       (filter (\<lambda>key. js_get body key \<noteq> JUndef) UI_SETTING_KEYS)"

record setup_world =
  sw_settings :: settings
  sw_db :: db
  sw_stored :: cfg

definition completeSetup ::
  "(string \<Rightarrow> bytes \<Rightarrow> nat \<Rightarrow> bytes) \<Rightarrow> bytes \<Rightarrow> time \<Rightarrow> jsval \<Rightarrow> jsval \<Rightarrow> jsval \<Rightarrow> setup_world \<Rightarrow> setup_world \<times> account_view reply" where
  "completeSetup scrypt salt now username password body w =
     (if \<not> isSetupRequired (sw_db w) then (w, Refuse 409 ''Setup has already been completed'')
      else (case validate username password of
              Some problem \<Rightarrow> (w, Refuse 400 problem)
            | None \<Rightarrow>
                let picked = pickSettings (if truthy body then body else JObj []);
                    changed = filter (\<lambda>(key, v). v \<noteq> cget (shown_settings (sw_settings w)) key) picked
                in (case applySettings (sw_settings w) changed of
                      Inl e \<Rightarrow> (w, Refuse 400 (err_message e))
                    | Inr s \<Rightarrow>
                        let w1 = w\<lparr>sw_settings := s\<rparr>
                        in if cget (st_config s) ''ready'' \<noteq> JBool True then (w1, Refuse 400 ''baseDomain is required'')
                           else (case create_account scrypt salt now username password (JStr ''admin'') (sw_db w1) of
                                   (d, Reply account) \<Rightarrow>
                                     (w1\<lparr>sw_db := d, sw_stored := write_settings changed (sw_stored w1),
                                         sw_settings := s\<lparr>st_setupRequired := False\<rparr>\<rparr>, Reply account)
                                 | (d, r) \<Rightarrow> (w1\<lparr>sw_db := d\<rparr>, r)))))"

definition getSettings :: "settings \<Rightarrow> cfg \<times> (string \<times> string option) list \<times> jsval \<times> jsval \<times> jsval" where
  "getSettings s =
     (shown_settings s, shown_sources s, cget (st_config s) ''publicUrl'', cget (st_config s) ''listen'', cget (st_config s) ''port'')"

definition updateSettings :: "jsval \<Rightarrow> setup_world \<Rightarrow> setup_world \<times> settings reply" where
  "updateSettings body w =
     (let picked = pickSettings body
      in if picked = [] then (w, Refuse 400 ''No settings provided'')
         else (case applySettings (sw_settings w) picked of
                 Inl e \<Rightarrow> (w, Refuse 400 (err_message e))
               | Inr s \<Rightarrow> (w\<lparr>sw_settings := s, sw_stored := write_settings picked (sw_stored w)\<rparr>, Reply s)))"

definition changePassword ::
  "(string \<Rightarrow> bytes \<Rightarrow> nat \<Rightarrow> bytes) \<Rightarrow> bytes \<Rightarrow> account \<Rightarrow> jsval \<Rightarrow> jsval \<Rightarrow> db \<Rightarrow> db \<times> string reply" where
  "changePassword scrypt salt account current new d =
     (if \<not> verifyPassword scrypt (text_of current) (a_passwordHash account) then (d, Refuse 401 ''Current password is incorrect'')
      else (case update_account scrypt salt (a_id account) JUndef new JUndef d of
              (d', Reply _) \<Rightarrow> (d', Reply ''Password changed'')
            | (d', Refuse code message) \<Rightarrow> (d', Refuse code message)
            | (d', Throw e) \<Rightarrow> (d', Throw e)))"

subsection \<open>Normalised configurations\<close>

lemma put_all_other: "k \<notin> fst ` set kvs \<Longrightarrow> cget (put_all kvs c) k = cget c k"
  by (induction kvs c rule: put_all.induct) (auto simp: cget_def)

lemma put_all_get: "distinct (map fst kvs) \<Longrightarrow> (k, v) \<in> set kvs \<Longrightarrow> cget (put_all kvs c) k = v"
proof (induction kvs c rule: put_all.induct)
  case (2 k' v' kvs c)
  then show ?case
    using put_all_other [of k kvs "map_set k v c"] by (auto simp: cget_def image_iff)
qed simp

lemma put_all_twice: "distinct (map fst kvs) \<Longrightarrow> cget (put_all kvs (put_all kvs c)) k = cget (put_all kvs c) k"
  by (cases "k \<in> fst ` set kvs") (auto simp: put_all_get put_all_other)

lemma norm_entries_distinct: "distinct (map fst (norm_entries c))"
  by (simp add: norm_entries_def Let_def)

lemma normalize_get: "(k, v) \<in> set (norm_entries c) \<Longrightarrow> cget (normalize_config c) k = v"
  by (simp add: normalize_config_def put_all_get norm_entries_distinct)

lemma normalized_fields:
  "cget (normalize_config c) ''port'' = js_number (cget c ''port'')"
  "cget (normalize_config c) ''httpsPort'' = js_number (cget c ''httpsPort'')"
  "cget (normalize_config c) ''redirectPort'' = js_number (cget c ''redirectPort'')"
  "cget (normalize_config c) ''gracePeriod'' = js_number (cget c ''gracePeriod'')"
  "cget (normalize_config c) ''baseDomain'' = JStr (norm_baseDomain (cget c ''baseDomain''))"
  "cget (normalize_config c) ''httpMode'' = JStr (norm_mode ''subdomain'' (cget c ''httpMode''))"
  "cget (normalize_config c) ''tlsMode'' = JStr (norm_mode ''proxy'' (cget c ''tlsMode''))"
  "cget (normalize_config c) ''acmeDirectoryUrl'' = JStr (trim (string_or (cget c ''acmeDirectoryUrl'') []))"
  "cget (normalize_config c) ''trustProxy'' = JBool (norm_trustProxy (norm_mode ''proxy'' (cget c ''tlsMode'') = ''acme'') (cget c ''trustProxy''))"
  "cget (normalize_config c) ''managesTls'' = JBool (norm_mode ''proxy'' (cget c ''tlsMode'') = ''acme'')"
  "cget (normalize_config c) ''publicUrlConfigured'' = JStr (norm_publicUrl (cget c ''publicUrlConfigured'') (cget c ''publicUrl''))"
  by (rule normalize_get; simp add: norm_entries_def Let_def)+

lemma js_number_idem: "js_number (js_number v) = js_number v"
  by (cases "js_integer v"; cases v) (auto simp: js_number_def)

lemma strip_dots_idem: "strip_dots (strip_dots s) = strip_dots s"
  by (simp add: strip_dots_def strip_front_idem)

lemma strip_slashes_idem: "strip_slashes (strip_slashes s) = strip_slashes s"
  by (simp add: strip_slashes_def)

lemma domain_chars:
  assumes "domain_pattern s"
  shows "trim s = s" "to_lower s = s"
proof -
  have c: "\<not> is_space c \<and> lower_char c = c" if "c \<in> set s" for c
  proof -
    have p: "\<not> is_space CHR ''.'' \<and> lower_char CHR ''.'' = CHR ''.''" "\<not> is_space CHR ''-'' \<and> lower_char CHR ''-'' = CHR ''-''" by code_simp+
    have "is_lower c \<or> is_digit c \<or> c = CHR ''.'' \<or> c = CHR ''-''"
      using assms that by (simp add: domain_pattern_def list_all_iff)
    moreover have "is_lower c \<or> is_digit c \<Longrightarrow> ?thesis" by (auto simp: is_lower_def is_digit_def is_space_def is_upper_def lower_char_def)
    ultimately show ?thesis using p by blast
  qed
  show "trim s = s" by (rule trim_no_space) (use c in blast)
  show "to_lower s = s" unfolding to_lower_def by (rule map_idI) (use c in blast)
qed

lemma url_chars: "url_pattern u \<Longrightarrow> trim u = u"
proof (rule trim_no_space)
  assume u: "url_pattern u"
  then obtain p where p: "p = ''http://'' \<or> p = ''https://''" "starts_with p u" "list_all (\<lambda>c. c \<noteq> CHR ''/'' \<and> \<not> is_space c) (drop (length p) u)"
    unfolding url_pattern_def list_ex_iff by (elim bexE conjE, simp only: list.set insert_iff empty_iff) blast
  have "u = p @ drop (length p) u" using p(2) append_take_drop_id [of "length p" u] by (simp only: starts_with_def)
  then have "set u \<subseteq> set p \<union> set (drop (length p) u)" by (metis set_append subset_refl)
  moreover have "\<forall>c \<in> set p. \<not> is_space c" using p(1) by (elim disjE) (simp_all only:, code_simp+)
  ultimately show "\<forall>c \<in> set u. \<not> is_space c" using p(3) by (auto simp: list_all_iff)
qed

text \<open>A configuration that passes the checks is a fixed point of normalize.\<close>

definition settled :: "cfg \<Rightarrow> bool" where
  "settled c \<longleftrightarrow> validate_config c = [] \<and> (\<forall>k. cget (normalize_config c) k = cget c k)"

lemma validD:
  assumes "validate_config c = []"
  shows "cget c ''httpMode'' \<in> {JStr ''subdomain'', JStr ''path''}" "cget c ''tlsMode'' \<in> {JStr ''proxy'', JStr ''acme''}"
    "port_ok (cget c ''port'')" "port_ok (cget c ''httpsPort'')" "port_ok (cget c ''redirectPort'')" "grace_ok (cget c ''gracePeriod'')"
    "text_of (cget c ''publicUrlConfigured'') = [] \<or> url_pattern (text_of (cget c ''publicUrlConfigured''))"
    "text_of (cget c ''baseDomain'') = [] \<or> domain_pattern (text_of (cget c ''baseDomain''))"
  using assms unfolding validate_config_def by (simp_all split: if_splits)

lemma norm_mode_fixed:
  "norm_mode ''subdomain'' (JStr ''subdomain'') = ''subdomain''" "norm_mode ''subdomain'' (JStr ''path'') = ''path''"
  "norm_mode ''proxy'' (JStr ''proxy'') = ''proxy''" "norm_mode ''proxy'' (JStr ''acme'') = ''acme''"
  by code_simp+

lemma string_or_str: "string_or (JStr s) [] = s"
  by (simp add: string_or_def)

lemma norm_entries_stable:
  assumes "validate_config (normalize_config c) = []"
  shows "norm_entries (normalize_config c) = norm_entries c"
proof -
  note v = validD [OF assms, unfolded normalized_fields text_of.simps]
  have base: "norm_baseDomain (JStr (norm_baseDomain x)) = norm_baseDomain x" if "norm_baseDomain x = [] \<or> domain_pattern (norm_baseDomain x)" for x
  proof (cases "norm_baseDomain x = []")
    case False
    then have "trim (norm_baseDomain x) = norm_baseDomain x" "to_lower (norm_baseDomain x) = norm_baseDomain x"
      using that domain_chars by auto
    then show ?thesis using strip_dots_idem
      by (metis norm_baseDomain_def string_or_str)
  next
    case True
    have "norm_baseDomain (JStr []) = []" by code_simp
    then show ?thesis by (simp only: True)
  qed
  have url: "norm_publicUrl (JStr (norm_publicUrl x y)) z = norm_publicUrl x y" if "norm_publicUrl x y = [] \<or> url_pattern (norm_publicUrl x y)" for x y z
  proof (cases "norm_publicUrl x y = []")
    case False
    then have "trim (norm_publicUrl x y) = norm_publicUrl x y" using that url_chars by auto
    then show ?thesis
      by (simp add: norm_publicUrl_def [of "JStr u" for u] nullish_or_def) (simp add: norm_publicUrl_def strip_slashes_idem)
  next
    case True
    have "norm_publicUrl (JStr []) z = []" by (simp add: norm_publicUrl_def nullish_or_def trim_def strip_slashes_def)
    then show ?thesis by (simp only: True)
  qed
  have http: "norm_mode ''subdomain'' (JStr (norm_mode ''subdomain'' (cget c ''httpMode''))) = norm_mode ''subdomain'' (cget c ''httpMode'')"
    using v(1) norm_mode_fixed(1,2) by auto
  have tls: "norm_mode ''proxy'' (JStr (norm_mode ''proxy'' (cget c ''tlsMode''))) = norm_mode ''proxy'' (cget c ''tlsMode'')"
    using v(2) norm_mode_fixed(3,4) by auto
  have trust: "norm_trustProxy b (JBool (norm_trustProxy b x)) = norm_trustProxy b x" for b x by (simp add: norm_trustProxy_def)
  show ?thesis
    unfolding norm_entries_def Let_def normalized_fields base [OF v(8)] url [OF v(7)] http tls trust js_number_idem string_or_str trim_idem
    by (rule refl)
qed

lemma normalize_settled:
  assumes "validate_config (normalize_config c) = []"
  shows "settled (normalize_config c)"
proof -
  have "cget (normalize_config (normalize_config c)) k = cget (normalize_config c) k" for k
    using put_all_twice [OF norm_entries_distinct, of c c k]
    by (simp add: normalize_config_def [of "normalize_config c"] norm_entries_stable [OF assms]) (simp add: normalize_config_def)
  then show ?thesis using assms by (simp add: settled_def)
qed

lemma applySettings_outcome:
  assumes "applySettings s requested = Inr s'"
  shows "st_config s' = normalize_config (merge_settings (unpinned s requested) (st_config s)) \<and> settled (st_config s')"
  using assms normalize_settled [of "merge_settings (unpinned s requested) (st_config s)"]
  by (auto simp: applySettings_def Let_def split: option.splits if_splits)

lemma pinned_kept:
  assumes "settled (st_config s)" "applySettings s requested = Inr s'" "pinned_key s ''tlsMode''"
  shows "cget (st_config s') ''tlsMode'' = cget (st_config s) ''tlsMode''"
proof -
  let ?kvs = "unpinned s requested"
  have "''tlsMode'' \<notin> fst ` set ?kvs" using assms(3) by (auto simp: unpinned_def)
  then have "cget (merge_settings ?kvs (st_config s)) ''tlsMode'' = cget (st_config s) ''tlsMode''"
    using put_all_other [of "''tlsMode''" ?kvs "st_config s"] by (simp add: merge_settings_def cget_def)
  then have "cget (st_config s') ''tlsMode'' = JStr (norm_mode ''proxy'' (cget (st_config s) ''tlsMode''))"
    using applySettings_outcome [OF assms(2)] by (simp add: normalized_fields)
  also have "\<dots> = cget (normalize_config (st_config s)) ''tlsMode''" by (simp add: normalized_fields)
  also have "\<dots> = cget (st_config s) ''tlsMode''" using assms(1) by (simp add: settled_def)
  finally show ?thesis .
qed

lemma settled_trust:
  assumes "settled c" "cget c ''managesTls'' = JBool True"
  shows "cget c ''trustProxy'' = JBool False"
proof -
  have n: "cget (normalize_config c) k = cget c k" for k using assms(1) by (simp add: settled_def)
  have "norm_mode ''proxy'' (cget c ''tlsMode'') = ''acme''"
    using assms(2) normalized_fields(10) [of c] by (simp only: n) simp
  then show ?thesis using normalized_fields(9) [of c] by (simp only: n norm_trustProxy_def) simp
qed

inductive running :: "settings \<Rightarrow> bool" where
  Loaded: "loadConfig name yaml environ = Inr s \<Longrightarrow> running s"
| Restored: "running s \<Longrightarrow> applyStored s stored = Inr s' \<Longrightarrow> running s'"
| Changed: "running s \<Longrightarrow> applySettings s requested = Inr s' \<Longrightarrow> running s'"

lemma running_settled: "running s \<Longrightarrow> settled (st_config s)"
proof (induction rule: running.induct)
  case (Loaded name yaml environ s)
  then show ?case unfolding loadConfig_def Let_def by (auto intro: normalize_settled split: if_splits)
next
  case (Restored s stored s')
  then show ?case unfolding applyStored_def Let_def by (auto intro: normalize_settled split: if_splits)
next
  case (Changed s requested s')
  then show ?case using applySettings_outcome by blast
qed


definition sample_settings :: "settings result" where
  "sample_settings = loadConfig ''config.yml'' (JObj [(''baseDomain'', JStr ''.T.example'')]) (\<lambda>k. if k = ''TUNLIT_TLS_MODE'' then Some ''ACME'' else None)"


end
