(* ===== verification/SignIn.thy ===== *)
theory SignIn
  imports Devices Attempts
begin

text \<open>
  Signing in without a password: passkeys (src/server/lib/passkeys.js, models/Passkey.js),
  OpenID Connect (src/server/lib/oidc.js, models/OidcProvider.js) and the routes that turn the
  outcome of a sign-in into a browser session (src/server/routes/auth.js, routes/oidc.js).

  Both kinds keep single-use secrets in a Map through the functions remember and take of
  OnceStore. A handler that takes a secret is split where it first awaits: what it does before
  (the take) and what it does afterwards, with the entry it took. The WebAuthn and OpenID
  libraries, JSON.parse, the URL parser and the comparison of a column with a JSON value by
  the database layer are arguments; so are the clock and random values.
\<close>

subsection \<open>Ledger of single-use secrets\<close>

text \<open>What a store of secrets issued and what was accepted for them.\<close>

datatype ('k, 'v) token_event = Issued 'k time 'v | Accepted 'k time 'v

definition issued :: "'k \<Rightarrow> ('k, 'v) token_event list \<Rightarrow> nat" where
  "issued k log = length (filter (\<lambda>e. case e of Issued k' _ _ \<Rightarrow> k' = k | _ \<Rightarrow> False) log)"

definition accepted :: "'k \<Rightarrow> ('k, 'v) token_event list \<Rightarrow> nat" where
  "accepted k log = length (filter (\<lambda>e. case e of Accepted k' _ _ \<Rightarrow> k' = k | _ \<Rightarrow> False) log)"

text \<open>Secrets that were taken and whose handler is still running: they may yet be accepted.\<close>

type_synonym ('k, 'v) flight = "'k \<times> time \<times> 'v"

definition in_flight :: "'k \<Rightarrow> ('k, 'v) flight list \<Rightarrow> nat" where
  "in_flight k fs = length (filter (\<lambda>f. fst f = k) fs)"

definition ledger ::
  "time \<Rightarrow> ('k, 'v) timed \<Rightarrow> ('k, 'v) flight list \<Rightarrow> ('k, 'v) token_event list \<Rightarrow> bool" where
  "ledger l m fs log \<longleftrightarrow>
     wf_map m \<and>
     (\<forall>k at v. map_get m k = Some (at, v) \<longrightarrow> Issued k at v \<in> set log) \<and>
     (\<forall>k t v. (k, t, v) \<in> set fs \<or> Accepted k t v \<in> set log \<longrightarrow>
        (\<exists>at. Issued k at v \<in> set log \<and> t - at \<le> l)) \<and>
     (\<forall>k. accepted k log + in_flight k fs + (if map_get m k = None then 0 else 1) \<le> issued k log)"

lemma issued_append [simp]:
  "issued k (log @ [Issued k' t v]) = issued k log + (if k' = k then 1 else 0)"
  "issued k (log @ [Accepted k' t v]) = issued k log" "issued k [] = 0"
  by (simp_all add: issued_def)

lemma accepted_append [simp]:
  "accepted k (log @ [Accepted k' t v]) = accepted k log + (if k' = k then 1 else 0)"
  "accepted k (log @ [Issued k' t v]) = accepted k log" "accepted k [] = 0"
  by (simp_all add: accepted_def)

lemma in_flight_Cons [simp]:
  "in_flight k (f # fs) = (if fst f = k then 1 else 0) + in_flight k fs" "in_flight k [] = 0"
  by (simp_all add: in_flight_def)

lemma in_flight_remove1:
  "f \<in> set fs \<Longrightarrow> in_flight k fs = in_flight k (remove1 f fs) + (if fst f = k then 1 else 0)"
  by (induction fs) (auto split: if_splits)

lemma ledger_empty: "ledger l [] [] []"
  by (simp add: ledger_def)

lemma ledger_remember:
  assumes "ledger l m fs log"
  shows "ledger l (remember l k now v m) fs (log @ [Issued k now v])"
proof -
  have wf: "wf_map m" using assms by (simp add: ledger_def)
  have "map_get (remember l k now v m) k' = Some (at, w) \<Longrightarrow> k' = k \<and> at = now \<and> w = v \<or> map_get m k' = Some (at, w)"
    for k' at w
    by (auto simp: remember_get [OF wf] split: option.splits if_splits)
  moreover have "map_get m k' = None \<Longrightarrow> k' \<noteq> k \<Longrightarrow> map_get (remember l k now v m) k' = None" for k'
    by (simp add: remember_get [OF wf])
  moreover have "accepted k' (log @ [Issued k now v]) + in_flight k' fs +
      (if map_get (remember l k now v m) k' = None then 0 else 1) \<le> issued k' (log @ [Issued k now v])" for k'
  proof -
    have "accepted k' log + in_flight k' fs + (if map_get m k' = None then 0 else 1) \<le> issued k' log"
      using assms unfolding ledger_def by blast
    then show ?thesis using calculation(2) [of k'] by (auto split: if_splits)
  qed
  ultimately show ?thesis
    using assms wf_remember [OF wf] unfolding ledger_def by (auto; blast)
qed

lemma ledger_take_some:
  assumes "ledger l m fs log" "take_entry l k now m = (m', Some v)"
  shows "ledger l m' ((k, now, v) # fs) log"
proof -
  obtain at where at: "map_get m k = Some (at, v)" "now - at \<le> l" and m': "m' = map_delete k m"
    using assms(2) by (auto simp: take_entry_def split: option.splits if_splits)
  have bal: "accepted k' log + in_flight k' fs + (if map_get m k' = None then 0 else 1) \<le> issued k' log" for k'
    using assms(1) unfolding ledger_def by blast
  have "accepted k' log + in_flight k' ((k, now, v) # fs) + (if map_get m' k' = None then 0 else 1) \<le> issued k' log" for k'
    using bal [of k'] at(1) m' by (cases "k' = k") auto
  moreover have "Issued k at v \<in> set log" using assms(1) at(1) unfolding ledger_def by blast
  ultimately show ?thesis
    using assms(1) at m' unfolding ledger_def by (auto simp: wf_map_delete simp del: in_flight_Cons; blast)
qed

lemma ledger_take_none:
  assumes "ledger l m fs log" "take_entry l k now m = (m', None)"
  shows "ledger l m' fs log"
proof -
  have m': "m' = map_delete k m" using assms(2) by (auto simp: take_entry_def split: option.splits if_splits)
  have bal: "accepted k' log + in_flight k' fs + (if map_get m k' = None then 0 else 1) \<le> issued k' log" for k'
    using assms(1) unfolding ledger_def by blast
  have "accepted k' log + in_flight k' fs + (if map_get m' k' = None then 0 else 1) \<le> issued k' log" for k'
    using bal [of k'] m' by (cases "k' = k") auto
  then show ?thesis using assms(1) m' unfolding ledger_def by (auto simp: wf_map_delete)
qed

lemma ledger_accept:
  assumes "ledger l m fs log" "(k, t, v) \<in> set fs"
  shows "ledger l m (remove1 (k, t, v) fs) (log @ [Accepted k t v])"
proof -
  have bal: "accepted k' log + in_flight k' fs + (if map_get m k' = None then 0 else 1) \<le> issued k' log" for k'
    using assms(1) unfolding ledger_def by blast
  have "accepted k' (log @ [Accepted k t v]) + in_flight k' (remove1 (k, t, v) fs) +
      (if map_get m k' = None then 0 else 1) \<le> issued k' log" for k'
    using bal [of k'] in_flight_remove1 [OF assms(2), of k'] by auto
  then show ?thesis
    using assms set_remove1_subset [of "(k, t, v)" fs] unfolding ledger_def by (auto; blast)
qed

lemma ledger_drop:
  assumes "ledger l m fs log" "(k, t, v) \<in> set fs"
  shows "ledger l m (remove1 (k, t, v) fs) log"
proof -
  have bal: "accepted k' log + in_flight k' fs + (if map_get m k' = None then 0 else 1) \<le> issued k' log" for k'
    using assms(1) unfolding ledger_def by blast
  have "accepted k' log + in_flight k' (remove1 (k, t, v) fs) +
      (if map_get m k' = None then 0 else 1) \<le> issued k' log" for k'
    using bal [of k'] in_flight_remove1 [OF assms(2), of k'] by auto
  then show ?thesis
    using assms(1) set_remove1_subset [of "(k, t, v)" fs] unfolding ledger_def by blast
qed

subsection \<open>passkeys.js and oidc.js: state\<close>

definition RP_NAME :: string where
  "RP_NAME = ''tunlit''"

definition CHALLENGE_TTL :: time where
  "CHALLENGE_TTL = 5 * 60 * 1000"

definition STATE_TTL :: time where
  "STATE_TTL = 10 * 60 * 1000"

text \<open>The column transports holds JSON text; the model keeps the value.\<close>

record passkey =
  k_id :: nat
  k_accountId :: nat
  k_name :: string
  k_credentialId :: string
  k_publicKey :: string
  k_counter :: nat
  k_deviceType :: string
  k_backedUp :: bool
  k_transports :: "jsval option"
  k_createdAt :: time
  k_lastUsedAt :: "time option"

record provider =
  o_id :: nat
  o_name :: string
  o_issuer :: string
  o_clientId :: string
  o_clientSecret :: "string option"
  o_scope :: string
  o_usernameClaim :: string
  o_createAccounts :: bool
  o_enabled :: bool
  o_createdAt :: time

text \<open>What a challenge was made for: kind, with the account of a registration.\<close>

datatype challenge_use = Registration nat | Authentication

record oidc_state =
  st_nonce :: string
  st_codeVerifier :: string
  st_providerId :: nat
  st_next :: "string option"

record signin =
  sg_db :: db
  passkeys :: "passkey list"
  nextPasskey :: nat
  challenges :: "(jsval, challenge_use) timed"
  providers :: "provider list"
  nextProvider :: nat
  states :: "(jsval, oidc_state) timed"

text \<open>
  The parts of the platform and of libraries: JSON.parse of UTF-8 bytes; Buffer.from of a
  value that is not a string; protocol and hostname of \<open>new URL(s)\<close>; whether a text
  column equals a value of a query (an error where the query cannot be built); verification
  of a registration and of a sign-in.
\<close>

record new_credential =
  nc_id :: string
  nc_publicKey :: bytes
  nc_counter :: nat
  nc_deviceType :: string
  nc_backedUp :: bool

record webauthn_check =
  ck_response :: jsval
  ck_challenge :: jsval
  ck_origin :: string
  ck_rpID :: string

record credential_check = webauthn_check +
  ck_id :: string
  ck_publicKey :: bytes
  ck_counter :: nat
  ck_transports :: jsval

record platform =
  json_parse :: "bytes \<Rightarrow> jsval result"
  buffer_other :: "jsval \<Rightarrow> bytes result"
  url_parse :: "string \<Rightarrow> (string \<times> string) result"
  column_matches :: "jsval \<Rightarrow> (string \<Rightarrow> bool) result"
  verifyRegistration :: "webauthn_check \<Rightarrow> (bool \<times> new_credential option) result"
  verifyAuthentication :: "credential_check \<Rightarrow> (bool \<times> nat) result"

subsection \<open>passkeys.js\<close>

text \<open>The property of a value that may be undefined or null: reading it there throws.\<close>

definition prop_of :: "jsval \<Rightarrow> string \<Rightarrow> jsval result" where
  "prop_of v k = (if v = JUndef \<or> v = JNull then Inl TYPE_ERROR else Inr (js_get v k))"

definition buffer_from :: "platform \<Rightarrow> jsval \<Rightarrow> bytes result" where
  "buffer_from ext v = (case v of JStr s \<Rightarrow> Inr (b64_decode s) | _ \<Rightarrow> buffer_other ext v)"

definition challengeOf :: "platform \<Rightarrow> jsval \<Rightarrow> jsval result" where
  "challengeOf ext response =
     bind (prop_of response ''response'') (\<lambda>r.
     bind (prop_of r ''clientDataJSON'') (\<lambda>d.
     bind (buffer_from ext d) (\<lambda>bytes.
     bind (json_parse ext bytes) (\<lambda>v. prop_of v ''challenge''))))"

definition transportsOf :: "passkey \<Rightarrow> jsval" where
  "transportsOf p = (case k_transports p of None \<Rightarrow> JUndef | Some v \<Rightarrow> v)"

record passkey_view =
  kv_id :: nat
  kv_name :: string
  kv_createdAt :: time
  kv_lastUsedAt :: "time option"

definition describe_passkey :: "passkey \<Rightarrow> passkey_view" where
  "describe_passkey p = \<lparr>kv_id = k_id p, kv_name = k_name p, kv_createdAt = k_createdAt p, kv_lastUsedAt = k_lastUsedAt p\<rparr>"

definition relyingParty :: "platform \<Rightarrow> string \<Rightarrow> (string \<times> string) result" where
  "relyingParty ext origin = bind (url_parse ext origin) (\<lambda>(_, hostname). Inr (origin, hostname))"

text \<open>base64url, which drops the padding and uses - and _.\<close>

definition b64url_encode :: "bytes \<Rightarrow> string" where
  "b64url_encode bs =
     map (\<lambda>c. if c = CHR ''+'' then CHR ''-'' else if c = CHR ''/'' then CHR ''_'' else c)
       (filter (\<lambda>c. c \<noteq> CHR ''='') (b64_encode bs))"

text \<open>What is asked of the library for a registration and for a sign-in; the answer of both
  contains the new challenge, which is an argument.\<close>

record registration_request =
  rr_rpName :: string
  rr_rpID :: string
  rr_userID :: bytes
  rr_userName :: string
  rr_exclude :: "(string \<times> jsval) list"

record authentication_request =
  ar_rpID :: string
  ar_allow :: "(string \<times> jsval) list option"

definition passkeysFor :: "nat \<Rightarrow> signin \<Rightarrow> passkey list" where
  "passkeysFor i w = filter (\<lambda>p. k_accountId p = i) (passkeys w)"

definition credential_list :: "passkey list \<Rightarrow> (string \<times> jsval) list" where
  "credential_list ps = map (\<lambda>p. (k_credentialId p, transportsOf p)) ps"

definition remember_challenge :: "time \<Rightarrow> string \<Rightarrow> challenge_use \<Rightarrow> signin \<Rightarrow> signin" where
  "remember_challenge now challenge u w =
     w\<lparr>challenges := remember CHALLENGE_TTL (JStr challenge) now u (challenges w)\<rparr>"

definition startRegistration ::
  "platform \<Rightarrow> time \<Rightarrow> string \<Rightarrow> account \<Rightarrow> string \<Rightarrow> signin \<Rightarrow> signin \<times> registration_request reply" where
  "startRegistration ext now challenge acc origin w =
     (case relyingParty ext origin of
        Inl e \<Rightarrow> (w, Throw e)
      | Inr (_, rpID) \<Rightarrow>
          (remember_challenge now challenge (Registration (a_id acc)) w,
           Reply \<lparr>rr_rpName = RP_NAME, rr_rpID = rpID, rr_userID = to_buf (show_nat (a_id acc)),
                  rr_userName = a_username acc, rr_exclude = credential_list (passkeysFor (a_id acc) w)\<rparr>))"

text \<open>The synchronous beginning of both finishing handlers: the entry of the challenge, if
  the response has one and it is for this use.\<close>

definition take_challenge ::
  "platform \<Rightarrow> time \<Rightarrow> jsval \<Rightarrow> challenge_use \<Rightarrow> string \<Rightarrow> signin \<Rightarrow> signin \<times> jsval reply" where
  "take_challenge ext now response u expired w =
     (case challengeOf ext response of
        Inl e \<Rightarrow> (w, Throw e)
      | Inr c \<Rightarrow>
          (case take_entry CHALLENGE_TTL c now (challenges w) of
             (m, entry) \<Rightarrow>
               (w\<lparr>challenges := m\<rparr>, if entry = Some u then Reply c else Refuse 400 expired)))"

definition finishRegistration_take ::
  "platform \<Rightarrow> time \<Rightarrow> account \<Rightarrow> jsval \<Rightarrow> signin \<Rightarrow> signin \<times> jsval reply" where
  "finishRegistration_take ext now acc response w =
     take_challenge ext now response (Registration (a_id acc)) ''That registration has expired, start again'' w"

definition create_passkey :: "time \<Rightarrow> nat \<Rightarrow> string \<Rightarrow> new_credential \<Rightarrow> jsval option \<Rightarrow> signin \<Rightarrow> signin result" where
  "create_passkey now accountId name c transports w =
     (if list_ex (\<lambda>p. k_credentialId p = nc_id c) (passkeys w)
      then Inl (Err ''SequelizeUniqueConstraintError'' ''Validation error'')
      else Inr (w\<lparr>passkeys := passkeys w @
          [\<lparr>k_id = nextPasskey w, k_accountId = accountId, k_name = name, k_credentialId = nc_id c,
            k_publicKey = b64url_encode (nc_publicKey c), k_counter = nc_counter c,
            k_deviceType = nc_deviceType c, k_backedUp = nc_backedUp c, k_transports = transports,
            k_createdAt = now, k_lastUsedAt = None\<rparr>],
        nextPasskey := nextPasskey w + 1\<rparr>))"

definition passkey_name :: "jsval \<Rightarrow> string" where
  "passkey_name name =
     (let n = take 40 (trim (string_or name [])) in if n = [] then ''Passkey'' else n)"

text \<open>What follows the take, with the challenge that was taken. Every exception in the block
  becomes a refusal with its message.\<close>

definition finishRegistration_rest ::
  "platform \<Rightarrow> time \<Rightarrow> account \<Rightarrow> jsval \<Rightarrow> jsval \<Rightarrow> string \<Rightarrow> jsval \<Rightarrow> signin \<Rightarrow> signin \<times> unit reply" where
  "finishRegistration_rest ext now acc response name origin c w =
     (case relyingParty ext origin of
        Inl e \<Rightarrow> (w, Refuse 400 (err_message e))
      | Inr (expectedOrigin, rpID) \<Rightarrow>
          (case verifyRegistration ext
                  \<lparr>ck_response = response, ck_challenge = c, ck_origin = expectedOrigin, ck_rpID = rpID\<rparr> of
             Inl e \<Rightarrow> (w, Refuse 400 (err_message e))
           | Inr (verified, info) \<Rightarrow>
               (case (if verified then info else None) of
                  None \<Rightarrow> (w, Refuse 400 ''The passkey could not be verified'')
                | Some cred \<Rightarrow>
                    let t = js_get (js_get response ''response'') ''transports''
                    in (case create_passkey now (a_id acc) (passkey_name name) cred
                               (if truthy t then Some t else None) w of
                          Inl e \<Rightarrow> (w, Refuse 400 (err_message e))
                        | Inr w' \<Rightarrow> (w', Reply ())))))"

definition startAuthentication ::
  "platform \<Rightarrow> time \<Rightarrow> string \<Rightarrow> jsval \<Rightarrow> string \<Rightarrow> signin \<Rightarrow> signin \<times> authentication_request reply" where
  "startAuthentication ext now challenge username origin w =
     (case relyingParty ext origin of
        Inl e \<Rightarrow> (w, Throw e)
      | Inr (_, rpID) \<Rightarrow>
          let known = (if truthy username
                       then (case byUsername username (sg_db w) of
                               None \<Rightarrow> [] | Some a \<Rightarrow> passkeysFor (a_id a) w)
                       else [])
          in (remember_challenge now challenge Authentication w,
              Reply \<lparr>ar_rpID = rpID, ar_allow = (if known = [] then None else Some (credential_list known))\<rparr>))"

definition finishAuthentication_take ::
  "platform \<Rightarrow> time \<Rightarrow> jsval \<Rightarrow> signin \<Rightarrow> signin \<times> jsval reply" where
  "finishAuthentication_take ext now response w =
     take_challenge ext now response Authentication ''That sign-in has expired, try again'' w"

definition authentication_check :: "jsval \<Rightarrow> jsval \<Rightarrow> string \<Rightarrow> string \<Rightarrow> passkey \<Rightarrow> credential_check" where
  "authentication_check response c origin rpID p =
     \<lparr>ck_response = response, ck_challenge = c, ck_origin = origin, ck_rpID = rpID,
      ck_id = k_credentialId p, ck_publicKey = b64_decode (k_publicKey p), ck_counter = k_counter p,
      ck_transports = transportsOf p\<rparr>"

definition touch_passkey :: "nat \<Rightarrow> nat \<Rightarrow> time \<Rightarrow> signin \<Rightarrow> signin" where
  "touch_passkey i counter now w =
     w\<lparr>passkeys := map (\<lambda>p. if k_id p = i then p\<lparr>k_counter := counter, k_lastUsedAt := Some now\<rparr> else p) (passkeys w)\<rparr>"

definition finishAuthentication_rest ::
  "platform \<Rightarrow> time \<Rightarrow> jsval \<Rightarrow> string \<Rightarrow> jsval \<Rightarrow> signin \<Rightarrow> signin \<times> account reply" where
  "finishAuthentication_rest ext now response origin c w =
     (case column_matches ext (js_get response ''id'') of
        Inl e \<Rightarrow> (w, Throw e)
      | Inr hit \<Rightarrow>
          (case find (\<lambda>p. hit (k_credentialId p)) (passkeys w) of
             None \<Rightarrow> (w, Refuse 401 ''This passkey is not registered here'')
           | Some p \<Rightarrow>
               (case byId (k_accountId p) (sg_db w) of
                  None \<Rightarrow> (w, Refuse 401 ''The account behind this passkey is gone'')
                | Some acc \<Rightarrow>
                    (case bind (relyingParty ext origin) (\<lambda>(expectedOrigin, rpID).
                            verifyAuthentication ext (authentication_check response c expectedOrigin rpID p)) of
                       Inl e \<Rightarrow> (w, Refuse 401 (err_message e))
                     | Inr (verified, counter) \<Rightarrow>
                         if \<not> verified then (w, Refuse 401 ''The passkey could not be verified'')
                         else (touch_passkey (k_id p) counter now w, Reply acc)))))"

definition list_passkeys :: "nat \<Rightarrow> signin \<Rightarrow> passkey_view list" where
  "list_passkeys accountId w =
     map describe_passkey (sort_key (\<lambda>p. - k_createdAt p) (passkeysFor accountId w))"

definition remove_passkey :: "nat \<Rightarrow> jsval \<Rightarrow> signin \<Rightarrow> signin \<times> string reply" where
  "remove_passkey accountId i w =
     (case find (\<lambda>p. i = JInt (int (k_id p)) \<and> k_accountId p = accountId) (passkeys w) of
        None \<Rightarrow> (w, Refuse 404 ''Passkey not found'')
      | Some p \<Rightarrow> (w\<lparr>passkeys := filter (\<lambda>x. k_id x \<noteq> k_id p) (passkeys w)\<rparr>, Reply (k_name p @ '' removed'')))"

subsection \<open>oidc.js\<close>

definition redirectUri :: "string \<Rightarrow> string" where
  "redirectUri publicUrl = publicUrl @ ''/@tunlit/api/auth/oidc/callback''"

record provider_view =
  pv_id :: nat
  pv_name :: string
  pv_issuer :: string
  pv_clientId :: string
  pv_hasSecret :: bool
  pv_scope :: string
  pv_usernameClaim :: string
  pv_createAccounts :: bool
  pv_enabled :: bool

definition describe_provider :: "provider \<Rightarrow> provider_view" where
  "describe_provider p =
     \<lparr>pv_id = o_id p, pv_name = o_name p, pv_issuer = o_issuer p, pv_clientId = o_clientId p,
      pv_hasSecret = (case o_clientSecret p of None \<Rightarrow> False | Some s \<Rightarrow> s \<noteq> []), pv_scope = o_scope p,
      pv_usernameClaim = o_usernameClaim p, pv_createAccounts = o_createAccounts p, pv_enabled = o_enabled p\<rparr>"

definition list_providers :: "signin \<Rightarrow> provider_view list" where
  "list_providers w = map describe_provider (sort_key o_id (providers w))"

definition enabled_providers :: "signin \<Rightarrow> (nat \<times> string) list" where
  "enabled_providers w = map (\<lambda>p. (o_id p, o_name p)) (sort_key o_id (filter o_enabled (providers w)))"

definition LOOPBACK :: "string list" where
  "LOOPBACK = [''localhost'', ''127.0.0.1'', ''[::1]'', ''::1'']"

text \<open>Discovery: the network answer of the provider, asked with or without leave to use plain
  http.\<close>

type_synonym discovery = "provider \<Rightarrow> bool \<Rightarrow> unit result"

definition discover :: "platform \<Rightarrow> discovery \<Rightarrow> provider \<Rightarrow> unit result" where
  "discover ext fetch p =
     bind (url_parse ext (o_issuer p)) (\<lambda>(protocol, hostname).
       fetch p (protocol = ''http:'' \<and> hostname \<in> set LOOPBACK))"

text \<open>The values of a request to save, as pick of the route collects them: only what the body has.\<close>

record provider_values =
  vs_name :: "string option"
  vs_issuer :: "string option"
  vs_clientId :: "string option"
  vs_scope :: "string option"
  vs_usernameClaim :: "string option"
  vs_clientSecret :: "string option"
  vs_createAccounts :: "bool option"
  vs_enabled :: "bool option"

definition given_or :: "'a option \<Rightarrow> 'a \<Rightarrow> 'a" where
  "given_or v d = (case v of None \<Rightarrow> d | Some x \<Rightarrow> x)"

definition pick_text :: "jsval \<Rightarrow> string \<Rightarrow> string option" where
  "pick_text body key = (let v = js_get body key in if v = JUndef then None else Some (trim (js_string v)))"

definition pick_flag :: "jsval \<Rightarrow> string \<Rightarrow> bool option" where
  "pick_flag body key =
     (let v = js_get body key in if v = JUndef then None else Some (v = JBool True \<or> v = JStr ''true''))"

definition pick_provider :: "jsval \<Rightarrow> provider_values" where
  "pick_provider body =
     \<lparr>vs_name = pick_text body ''name'', vs_issuer = pick_text body ''issuer'',
      vs_clientId = pick_text body ''clientId'', vs_scope = pick_text body ''scope'',
      vs_usernameClaim = pick_text body ''usernameClaim'',
      vs_clientSecret = (let v = js_get body ''clientSecret''
                         in if v = JUndef \<or> v = JStr [] then None else Some (js_string v)),
      vs_createAccounts = pick_flag body ''createAccounts'', vs_enabled = pick_flag body ''enabled''\<rparr>"

definition issuer_problem :: "platform \<Rightarrow> string option \<Rightarrow> string option" where
  "issuer_problem ext issuer =
     (case issuer of
        None \<Rightarrow> None
      | Some s \<Rightarrow>
          (case url_parse ext s of
             Inl _ \<Rightarrow> Some ''The issuer must be a URL''
           | Inr (protocol, hostname) \<Rightarrow>
               if protocol = ''http:'' \<and> hostname \<notin> set LOOPBACK
               then Some ''The issuer must be https, except on localhost'' else None))"

definition updated_provider :: "provider_values \<Rightarrow> provider \<Rightarrow> provider" where
  "updated_provider vs p =
     p\<lparr>o_name := given_or (vs_name vs) (o_name p), o_issuer := given_or (vs_issuer vs) (o_issuer p),
       o_clientId := given_or (vs_clientId vs) (o_clientId p),
       o_clientSecret := (case vs_clientSecret vs of None \<Rightarrow> o_clientSecret p | Some s \<Rightarrow> Some s),
       o_scope := given_or (vs_scope vs) (o_scope p),
       o_usernameClaim := given_or (vs_usernameClaim vs) (o_usernameClaim p),
       o_createAccounts := given_or (vs_createAccounts vs) (o_createAccounts p),
       o_enabled := given_or (vs_enabled vs) (o_enabled p)\<rparr>"

definition missing_text :: "string option \<Rightarrow> bool" where
  "missing_text v = (trim (given_or v []) = [])"

definition missing_key :: "provider_values \<Rightarrow> string option" where
  "missing_key vs =
     (if missing_text (vs_name vs) then Some ''name''
      else if missing_text (vs_issuer vs) then Some ''issuer''
      else if missing_text (vs_clientId vs) then Some ''clientId'' else None)"

definition new_provider :: "time \<Rightarrow> nat \<Rightarrow> provider_values \<Rightarrow> provider" where
  "new_provider now i vs =
     \<lparr>o_id = i, o_name = given_or (vs_name vs) [], o_issuer = given_or (vs_issuer vs) [],
      o_clientId = given_or (vs_clientId vs) [], o_clientSecret = vs_clientSecret vs,
      o_scope = given_or (vs_scope vs) ''openid profile email'',
      o_usernameClaim = given_or (vs_usernameClaim vs) ''preferred_username'',
      o_createAccounts = given_or (vs_createAccounts vs) True, o_enabled = given_or (vs_enabled vs) True,
      o_createdAt = now\<rparr>"

definition provider_by :: "jsval \<Rightarrow> signin \<Rightarrow> provider option" where
  "provider_by i w = find (\<lambda>p. i = JInt (int (o_id p))) (providers w)"

definition save_provider ::
  "platform \<Rightarrow> time \<Rightarrow> jsval \<Rightarrow> provider_values \<Rightarrow> signin \<Rightarrow> signin \<times> provider_view reply" where
  "save_provider ext now i vs w =
     (case issuer_problem ext (vs_issuer vs) of
        Some problem \<Rightarrow> (w, Refuse 400 problem)
      | None \<Rightarrow>
          if truthy i
          then (case provider_by i w of
                  None \<Rightarrow> (w, Refuse 404 ''That provider does not exist'')
                | Some p \<Rightarrow>
                    (w\<lparr>providers := map (\<lambda>q. if o_id q = o_id p then updated_provider vs q else q) (providers w)\<rparr>,
                     Reply (describe_provider (updated_provider vs p))))
          else (case missing_key vs of
                  Some key \<Rightarrow> (w, Refuse 400 (key @ '' is required''))
                | None \<Rightarrow>
                    (w\<lparr>providers := providers w @ [new_provider now (nextProvider w) vs],
                       nextProvider := nextProvider w + 1\<rparr>,
                     Reply (describe_provider (new_provider now (nextProvider w) vs)))))"

definition remove_provider :: "jsval \<Rightarrow> signin \<Rightarrow> signin \<times> string reply" where
  "remove_provider i w =
     (case provider_by i w of
        None \<Rightarrow> (w, Refuse 404 ''That provider does not exist'')
      | Some p \<Rightarrow> (w\<lparr>providers := filter (\<lambda>q. o_id q \<noteq> o_id p) (providers w)\<rparr>, Reply (o_name p @ '' removed'')))"

text \<open>begin: the provider is read first; discovery, the random values and the address built by
  the library come after it.\<close>

record authorization_request =
  az_redirect_uri :: string
  az_scope :: string
  az_state :: string
  az_nonce :: string
  az_code_challenge :: string

definition begin_provider :: "jsval \<Rightarrow> signin \<Rightarrow> provider reply" where
  "begin_provider i w =
     (case find (\<lambda>p. i = JInt (int (o_id p)) \<and> o_enabled p) (providers w) of
        None \<Rightarrow> Refuse 404 ''That provider is not available''
      | Some p \<Rightarrow> Reply p)"

definition unreachable :: "provider \<Rightarrow> err \<Rightarrow> 'a reply" where
  "unreachable p e = Refuse 502 (''Could not reach '' @ o_name p @ '': '' @ err_message e)"

definition begin_rest ::
  "platform \<Rightarrow> discovery \<Rightarrow> time \<Rightarrow> string \<Rightarrow> string \<Rightarrow> string \<Rightarrow> (string \<Rightarrow> string) \<Rightarrow>
   (authorization_request \<Rightarrow> string result) \<Rightarrow> string \<Rightarrow> string option \<Rightarrow> provider \<Rightarrow> signin \<Rightarrow> signin \<times> string reply" where
  "begin_rest ext fetch now state nonce verifier pkce authorize publicUrl next p w =
     (case discover ext fetch p of
        Inl e \<Rightarrow> (w, unreachable p e)
      | Inr _ \<Rightarrow>
          (w\<lparr>states := remember STATE_TTL (JStr state) now
               \<lparr>st_nonce = nonce, st_codeVerifier = verifier, st_providerId = o_id p, st_next = next\<rparr> (states w)\<rparr>,
           case authorize \<lparr>az_redirect_uri = redirectUri publicUrl, az_scope = o_scope p, az_state = state,
                           az_nonce = nonce, az_code_challenge = pkce verifier\<rparr> of
             Inl e \<Rightarrow> unreachable p e
           | Inr url \<Rightarrow> Reply url))"

text \<open>complete: the state is taken first. The token endpoint gets the state, nonce and verifier
  remembered for it and answers with the claims of the id token (undefined without one); the
  userinfo endpoint may replace them.\<close>

record grant_check =
  gr_query :: "(string \<times> string) list"
  gr_state :: jsval
  gr_nonce :: string
  gr_verifier :: string

definition query_value :: "(string \<times> string) list \<Rightarrow> string \<Rightarrow> jsval" where
  "query_value query key = (case map_of query key of None \<Rightarrow> JUndef | Some v \<Rightarrow> JStr v)"

definition complete_take :: "time \<Rightarrow> (string \<times> string) list \<Rightarrow> signin \<Rightarrow> signin \<times> oidc_state reply" where
  "complete_take now query w =
     (case take_entry STATE_TTL (query_value query ''state'') now (states w) of
        (m, None) \<Rightarrow> (w\<lparr>states := m\<rparr>, Refuse 400 ''That sign-in has expired, start again'')
      | (m, Some entry) \<Rightarrow> (w\<lparr>states := m\<rparr>, Reply entry))"

text \<open>a || b\<close>

definition js_or :: "jsval \<Rightarrow> jsval \<Rightarrow> jsval" where
  "js_or a b = (if truthy a then a else b)"

definition raw_name :: "provider \<Rightarrow> jsval \<Rightarrow> jsval" where
  "raw_name p claims =
     js_or (js_get claims (o_usernameClaim p))
       (js_or (js_get claims ''preferred_username'') (js_or (js_get claims ''email'') (js_get claims ''sub'')))"

definition username_char :: "char \<Rightarrow> bool" where
  "username_char c \<longleftrightarrow> is_alnum c \<or> c = CHR ''.'' \<or> c = CHR ''_'' \<or> c = CHR ''-''"

definition username_of :: "jsval \<Rightarrow> string" where
  "username_of raw = take 32 (filter username_char (hd (split_on CHR ''@'' (string_or raw []))))"

type_synonym grant = "provider \<Rightarrow> grant_check \<Rightarrow> jsval result"

definition oidc_claims ::
  "platform \<Rightarrow> discovery \<Rightarrow> grant \<Rightarrow> (jsval \<Rightarrow> jsval option) \<Rightarrow> (string \<times> string) list \<Rightarrow> oidc_state \<Rightarrow>
   provider \<Rightarrow> jsval result" where
  "oidc_claims ext fetch exchange userinfo query entry p =
     bind (discover ext fetch p) (\<lambda>_.
     bind (exchange p \<lparr>gr_query = query, gr_state = query_value query ''state'', gr_nonce = st_nonce entry,
                       gr_verifier = st_codeVerifier entry\<rparr>) (\<lambda>claims.
       if claims = JUndef then Inl TYPE_ERROR
       else Inr (case userinfo claims of None \<Rightarrow> claims | Some info \<Rightarrow> info)))"

text \<open>The account behind a username: an existing one, or a new one where the provider creates
  accounts. The password of a new account is random.\<close>

definition oidc_account ::
  "(string \<Rightarrow> bytes \<Rightarrow> nat \<Rightarrow> bytes) \<Rightarrow> bytes \<Rightarrow> bytes \<Rightarrow> time \<Rightarrow> provider \<Rightarrow> string \<Rightarrow> db \<Rightarrow> db \<times> account reply" where
  "oidc_account scrypt salt rnd now p username d =
     (case byUsername (JStr username) d of
        Some acc \<Rightarrow> (d, Reply acc)
      | None \<Rightarrow>
          if \<not> o_createAccounts p then (d, Refuse 403 (username @ '' has no account here''))
          else (case create_account scrypt salt now (JStr username) (JStr (b64url_encode rnd)) (JStr ''user'') d of
                  (d', Refuse code message) \<Rightarrow> (d', Refuse code message)
                | (d', Throw e) \<Rightarrow> (d', Refuse 502 (err_message e))
                | (d', Reply _) \<Rightarrow>
                    (d', case byUsername (JStr username) d' of
                           None \<Rightarrow> Refuse 502 (err_message TYPE_ERROR) | Some acc \<Rightarrow> Reply acc)))"

definition complete_rest ::
  "platform \<Rightarrow> discovery \<Rightarrow> grant \<Rightarrow> (jsval \<Rightarrow> jsval option) \<Rightarrow> (string \<Rightarrow> bytes \<Rightarrow> nat \<Rightarrow> bytes) \<Rightarrow> bytes \<Rightarrow> bytes \<Rightarrow>
   time \<Rightarrow> (string \<times> string) list \<Rightarrow> oidc_state \<Rightarrow> signin \<Rightarrow> signin \<times> (account \<times> string option) reply" where
  "complete_rest ext fetch exchange userinfo scrypt salt rnd now query entry w =
     (case provider_by (JInt (int (st_providerId entry))) w of
        None \<Rightarrow> (w, Refuse 404 ''That provider is gone'')
      | Some p \<Rightarrow>
          (case oidc_claims ext fetch exchange userinfo query entry p of
             Inl e \<Rightarrow> (w, Refuse 502 (err_message e))
           | Inr claims \<Rightarrow>
               let raw = raw_name p claims; username = username_of raw
               in if length username < 3
                  then (w, Refuse 400 (CHR 0x22 # js_string raw @ CHR 0x22 # '' is not a usable username''))
                  else (case oidc_account scrypt salt rnd now p username (sg_db w) of
                          (d, Reply acc) \<Rightarrow> (w\<lparr>sg_db := d\<rparr>, Reply (acc, st_next entry))
                        | (d, Refuse code message) \<Rightarrow> (w\<lparr>sg_db := d\<rparr>, Refuse code message)
                        | (d, Throw e) \<Rightarrow> (w\<lparr>sg_db := d\<rparr>, Refuse 502 (err_message e)))))"

subsection \<open>routes/auth.js\<close>

text \<open>What the routes share: the tables and stores of sign-ins, the limiter of failures and
  the device codes.\<close>

record auth_world =
  aw_signin :: signin
  aw_limiter :: limiter
  aw_pending :: pending

record client_info =
  ci_proto :: string
  ci_host :: string
  ci_clientIp :: string
  ci_userAgent :: string
  ci_secure :: bool

text \<open>An answer: a status with a message, a session cookie with the account signed in, a
  redirection with its cookie if it sets one, or an exception (a 500).\<close>

datatype auth_answer =
    Answer nat string
  | SignedIn string account
  | SendTo string "string option"
  | Failed err

definition originOf :: "client_info \<Rightarrow> string" where
  "originOf req = ci_proto req @ ''://'' @ ci_host req"

definition start_session :: "string \<Rightarrow> time \<Rightarrow> client_info \<Rightarrow> nat \<Rightarrow> auth_world \<Rightarrow> auth_world" where
  "start_session token now req i s =
     s\<lparr>aw_signin := (aw_signin s)\<lparr>sg_db :=
         fst (create_session token now i (ci_clientIp req) (ci_userAgent req) (sg_db (aw_signin s)))\<rparr>\<rparr>"

definition signIn :: "string \<Rightarrow> time \<Rightarrow> client_info \<Rightarrow> account \<Rightarrow> auth_world \<Rightarrow> auth_world \<times> auth_answer" where
  "signIn token now req acc s =
     (start_session token now req (a_id acc) s, SignedIn (sessionCookie token (ci_secure req)) acc)"

text \<open>POST /login, behind requireSetupComplete.\<close>

definition login_route ::
  "(string \<Rightarrow> bytes \<Rightarrow> nat \<Rightarrow> bytes) \<Rightarrow> string \<Rightarrow> totp_check \<Rightarrow> string \<Rightarrow> time \<Rightarrow> client_info \<Rightarrow> jsval \<Rightarrow>
   auth_world \<Rightarrow> auth_world \<times> auth_answer" where
  "login_route scrypt ABSENT check token now req body s =
     (case requireSetupComplete (sg_db (aw_signin s)) of
        Refuse code message \<Rightarrow> (s, Answer code message)
      | Throw e \<Rightarrow> (s, Failed e)
      | Reply _ \<Rightarrow>
          let key = ''login:'' @ ci_clientIp req
          in case blocked now key (aw_limiter s) of
               (l, True) \<Rightarrow> (s\<lparr>aw_limiter := l\<rparr>, Answer 429 ''Too many login attempts. Please try again later.'')
             | (l, False) \<Rightarrow>
                 (case login scrypt ABSENT check token now body (ci_clientIp req) (ci_userAgent req) (sg_db (aw_signin s)) of
                    (d, Refuse code message) \<Rightarrow>
                      (s\<lparr>aw_signin := (aw_signin s)\<lparr>sg_db := d\<rparr>,
                         aw_limiter := (if code = 401 then record_failure now key l else l)\<rparr>, Answer code message)
                  | (d, Throw e) \<Rightarrow> (s\<lparr>aw_signin := (aw_signin s)\<lparr>sg_db := d\<rparr>, aw_limiter := l\<rparr>, Failed e)
                  | (d, Reply (t, acc)) \<Rightarrow>
                      (s\<lparr>aw_signin := (aw_signin s)\<lparr>sg_db := d\<rparr>, aw_limiter := forget_key key l\<rparr>,
                       SignedIn (sessionCookie t (ci_secure req)) acc)))"

text \<open>POST /device/create and /device/poll.\<close>

definition device_create_route ::
  "bytes \<Rightarrow> bytes \<Rightarrow> time \<Rightarrow> client_info \<Rightarrow> jsval \<Rightarrow> auth_world \<Rightarrow> auth_world \<times> (string \<times> string \<times> time) reply" where
  "device_create_route rnd1 rnd2 now req body s =
     (let key = ''device:'' @ ci_clientIp req
      in case blocked now key (aw_limiter s) of
           (l, True) \<Rightarrow> (s\<lparr>aw_limiter := l\<rparr>, Refuse 429 ''Too many device codes requested. Please try again later.'')
         | (l, False) \<Rightarrow>
             if body = JNull then (s\<lparr>aw_limiter := record_failure now key l\<rparr>, Throw TYPE_ERROR)
             else (case createCode rnd1 rnd2 now (take 40 (string_or (js_get body ''client'') ''cli''))
                     (ci_clientIp req) (take 200 (ci_userAgent req)) (aw_pending s) of
                (m, created) \<Rightarrow>
                  (s\<lparr>aw_limiter := record_failure now key l, aw_pending := m\<rparr>, Reply created)))"

definition device_poll_route :: "time \<Rightarrow> jsval \<Rightarrow> auth_world \<Rightarrow> auth_world \<times> poll_status reply" where
  "device_poll_route now body s =
     (if body = JNull then (s, Throw TYPE_ERROR)
      else (case poll now (string_or (js_get body ''pollToken'') []) (aw_pending s) of
              (m, status) \<Rightarrow> (s\<lparr>aw_pending := m\<rparr>, Reply status)))"

text \<open>safeNext: the regular expression \<open>^/@tunlit/[^/\\]\<close>.\<close>

definition safe_path :: "string \<Rightarrow> bool" where
  "safe_path s \<longleftrightarrow> starts_with ''/@tunlit/'' s \<and>
     (case drop 9 s of [] \<Rightarrow> False | c # _ \<Rightarrow> c \<noteq> CHR ''/'' \<and> c \<noteq> CHR 0x5C)"

definition safeNext :: "jsval \<Rightarrow> string option" where
  "safeNext next = (case next of JStr s \<Rightarrow> if safe_path s then Some s else None | _ \<Rightarrow> None)"

text \<open>GET /oidc/callback, after complete: where the browser goes.\<close>

definition callback_answer ::
  "(string \<Rightarrow> string) \<Rightarrow> string \<Rightarrow> string \<Rightarrow> time \<Rightarrow> client_info \<Rightarrow> (account \<times> string option) reply \<Rightarrow>
   auth_world \<Rightarrow> auth_world \<times> auth_answer" where
  "callback_answer encode publicUrl token now req result s =
     (let target = publicUrl @ ''/@tunlit/''
      in case result of
           Refuse _ message \<Rightarrow> (s, SendTo (target @ ''login?error='' @ encode message) None)
         | Throw e \<Rightarrow> (s, Failed e)
         | Reply (acc, next) \<Rightarrow>
             (start_session token now req (a_id acc) s,
              SendTo (case next of Some n \<Rightarrow> publicUrl @ n | None \<Rightarrow> target)
                (Some (sessionCookie token (ci_secure req)))))"

text \<open>POST /passkey/verify: the limiter and the taking of the challenge come first; when the
  handler ends, the limiter counts the failure or forgets the key.\<close>

definition passkey_verify_begin ::
  "platform \<Rightarrow> time \<Rightarrow> client_info \<Rightarrow> jsval \<Rightarrow> auth_world \<Rightarrow> auth_world \<times> jsval reply" where
  "passkey_verify_begin ext now req body s =
     (let key = ''passkey:'' @ ci_clientIp req
      in case blocked now key (aw_limiter s) of
           (l, True) \<Rightarrow> (s\<lparr>aw_limiter := l\<rparr>, Refuse 429 ''Too many attempts. Please try again later.'')
         | (l, False) \<Rightarrow>
             (case finishAuthentication_take ext now (js_get body ''response'') (aw_signin s) of
                (w, Refuse code message) \<Rightarrow>
                  (s\<lparr>aw_signin := w, aw_limiter := record_failure now key l\<rparr>, Refuse code message)
              | (w, r) \<Rightarrow> (s\<lparr>aw_signin := w, aw_limiter := l\<rparr>, r)))"

definition passkey_verify_end ::
  "platform \<Rightarrow> string \<Rightarrow> time \<Rightarrow> client_info \<Rightarrow> jsval \<Rightarrow> jsval \<Rightarrow> auth_world \<Rightarrow> auth_world \<times> auth_answer" where
  "passkey_verify_end ext token now req body c s =
     (let key = ''passkey:'' @ ci_clientIp req
      in case finishAuthentication_rest ext now (js_get body ''response'') (originOf req) c (aw_signin s) of
           (w, Refuse code message) \<Rightarrow>
             (s\<lparr>aw_signin := w, aw_limiter := record_failure now key (aw_limiter s)\<rparr>, Answer code message)
         | (w, Throw e) \<Rightarrow> (s\<lparr>aw_signin := w\<rparr>, Failed e)
         | (w, Reply acc) \<Rightarrow> signIn token now req acc (s\<lparr>aw_signin := w, aw_limiter := forget_key key (aw_limiter s)\<rparr>))"

subsection \<open>Every secret serves once, for what it was made for\<close>

text \<open>
  The server from its start: tables as they were stored, no secret in memory. A state carries
  the secrets whose handlers are running and the ledgers of both stores. Everything else the
  server does may change the accounts at any time.
\<close>

record sign_trace =
  tr_world :: signin
  tr_keys :: "(jsval, challenge_use) flight list"
  tr_keylog :: "(jsval, challenge_use) token_event list"
  tr_grants :: "(jsval, oidc_state) flight list"
  tr_grantlog :: "(jsval, oidc_state) token_event list"

definition keys_ok :: "signin \<Rightarrow> bool" where
  "keys_ok w \<longleftrightarrow>
     distinct (map k_credentialId (passkeys w)) \<and> distinct (map k_id (passkeys w)) \<and>
     list_all (\<lambda>p. k_id p < nextPasskey w) (passkeys w)"

definition replied :: "'a reply \<Rightarrow> 'b list \<Rightarrow> 'b list" where
  "replied r xs = (case r of Reply _ \<Rightarrow> xs | _ \<Rightarrow> [])"

inductive signin_reach :: "platform \<Rightarrow> sign_trace \<Rightarrow> bool" for ext where
  boot: "keys_ok w \<Longrightarrow> challenges w = [] \<Longrightarrow> states w = [] \<Longrightarrow>
    signin_reach ext \<lparr>tr_world = w, tr_keys = [], tr_keylog = [], tr_grants = [], tr_grantlog = []\<rparr>"
| database: "signin_reach ext t \<Longrightarrow> signin_reach ext (t\<lparr>tr_world := (tr_world t)\<lparr>sg_db := d\<rparr>\<rparr>)"
| reg_start: "signin_reach ext t \<Longrightarrow>
    startRegistration ext now challenge acc origin (tr_world t) = (w, r) \<Longrightarrow>
    signin_reach ext (t\<lparr>tr_world := w,
      tr_keylog := tr_keylog t @ replied r [Issued (JStr challenge) now (Registration (a_id acc))]\<rparr>)"
| auth_start: "signin_reach ext t \<Longrightarrow>
    startAuthentication ext now challenge username origin (tr_world t) = (w, r) \<Longrightarrow>
    signin_reach ext (t\<lparr>tr_world := w,
      tr_keylog := tr_keylog t @ replied r [Issued (JStr challenge) now Authentication]\<rparr>)"
| reg_take: "signin_reach ext t \<Longrightarrow>
    finishRegistration_take ext now acc response (tr_world t) = (w, r) \<Longrightarrow>
    signin_reach ext (t\<lparr>tr_world := w,
      tr_keys := (case r of Reply c \<Rightarrow> [(c, now, Registration (a_id acc))] | _ \<Rightarrow> []) @ tr_keys t\<rparr>)"
| auth_take: "signin_reach ext t \<Longrightarrow>
    finishAuthentication_take ext now response (tr_world t) = (w, r) \<Longrightarrow>
    signin_reach ext (t\<lparr>tr_world := w,
      tr_keys := (case r of Reply c \<Rightarrow> [(c, now, Authentication)] | _ \<Rightarrow> []) @ tr_keys t\<rparr>)"
| reg_finish: "signin_reach ext t \<Longrightarrow> (c, t0, Registration (a_id acc)) \<in> set (tr_keys t) \<Longrightarrow>
    finishRegistration_rest ext now acc response name origin c (tr_world t) = (w, r) \<Longrightarrow>
    signin_reach ext (t\<lparr>tr_world := w, tr_keys := remove1 (c, t0, Registration (a_id acc)) (tr_keys t),
      tr_keylog := tr_keylog t @ replied r [Accepted c t0 (Registration (a_id acc))]\<rparr>)"
| auth_finish: "signin_reach ext t \<Longrightarrow> (c, t0, Authentication) \<in> set (tr_keys t) \<Longrightarrow>
    finishAuthentication_rest ext now response origin c (tr_world t) = (w, r) \<Longrightarrow>
    signin_reach ext (t\<lparr>tr_world := w, tr_keys := remove1 (c, t0, Authentication) (tr_keys t),
      tr_keylog := tr_keylog t @ replied r [Accepted c t0 Authentication]\<rparr>)"
| key_remove: "signin_reach ext t \<Longrightarrow> remove_passkey i j (tr_world t) = (w, r) \<Longrightarrow>
    signin_reach ext (t\<lparr>tr_world := w\<rparr>)"
| provider_save: "signin_reach ext t \<Longrightarrow> save_provider ext now i (pick_provider body) (tr_world t) = (w, r) \<Longrightarrow>
    signin_reach ext (t\<lparr>tr_world := w\<rparr>)"
| provider_remove: "signin_reach ext t \<Longrightarrow> remove_provider i (tr_world t) = (w, r') \<Longrightarrow>
    signin_reach ext (t\<lparr>tr_world := w\<rparr>)"
| grant_begin: "signin_reach ext t \<Longrightarrow> discover ext fetch p = Inr () \<Longrightarrow>
    begin_rest ext fetch now state nonce verifier pkce authorize url (safeNext next) p (tr_world t) = (w, r) \<Longrightarrow>
    signin_reach ext (t\<lparr>tr_world := w, tr_grantlog := tr_grantlog t @
      [Issued (JStr state) now \<lparr>st_nonce = nonce, st_codeVerifier = verifier, st_providerId = o_id p,
                                st_next = safeNext next\<rparr>]\<rparr>)"
| grant_take: "signin_reach ext t \<Longrightarrow> complete_take now query (tr_world t) = (w, r) \<Longrightarrow>
    signin_reach ext (t\<lparr>tr_world := w,
      tr_grants := (case r of Reply e \<Rightarrow> [(query_value query ''state'', now, e)] | _ \<Rightarrow> []) @ tr_grants t\<rparr>)"
| grant_finish: "signin_reach ext t \<Longrightarrow> (query_value query ''state'', t0, e) \<in> set (tr_grants t) \<Longrightarrow>
    complete_rest ext fetch exchange userinfo scrypt salt rnd now query e (tr_world t) = (w, r) \<Longrightarrow>
    signin_reach ext (t\<lparr>tr_world := w, tr_grants := remove1 (query_value query ''state'', t0, e) (tr_grants t),
      tr_grantlog := tr_grantlog t @ replied r [Accepted (query_value query ''state'') t0 e]\<rparr>)"

definition trace_inv :: "sign_trace \<Rightarrow> bool" where
  "trace_inv t \<longleftrightarrow>
     ledger CHALLENGE_TTL (challenges (tr_world t)) (tr_keys t) (tr_keylog t) \<and>
     ledger STATE_TTL (states (tr_world t)) (tr_grants t) (tr_grantlog t) \<and>
     keys_ok (tr_world t) \<and>
     (\<forall>k at e. Issued k at e \<in> set (tr_grantlog t) \<longrightarrow>
        (case st_next e of None \<Rightarrow> True | Some n \<Rightarrow> safe_path n))"

lemma replied_simps [simp]:
  "replied (Reply x) xs = xs" "replied (Refuse n m) xs = []" "replied (Throw e) xs = []"
  by (simp_all add: replied_def)

lemma remember_challenge_fields [simp]:
  "challenges (remember_challenge now c u w) = remember CHALLENGE_TTL (JStr c) now u (challenges w)"
  "states (remember_challenge now c u w) = states w" "passkeys (remember_challenge now c u w) = passkeys w"
  "nextPasskey (remember_challenge now c u w) = nextPasskey w"
  by (simp_all add: remember_challenge_def)

lemma keys_ok_cong: "passkeys w' = passkeys w \<Longrightarrow> nextPasskey w' = nextPasskey w \<Longrightarrow> keys_ok w' = keys_ok w"
  by (simp add: keys_ok_def)

text \<open>What each handler does to the stores and to the table of passkeys.\<close>

lemma take_challenge_ledger:
  assumes "take_challenge ext now response u m w = (w', r)"
    "ledger CHALLENGE_TTL (challenges w) fs log"
  shows "ledger CHALLENGE_TTL (challenges w') ((case r of Reply c \<Rightarrow> [(c, now, u)] | _ \<Rightarrow> []) @ fs) log \<and>
    states w' = states w \<and> passkeys w' = passkeys w \<and> nextPasskey w' = nextPasskey w"
proof (cases "challengeOf ext response")
  case (Inl e)
  then show ?thesis using assms by (auto simp: take_challenge_def)
next
  case (Inr c)
  obtain m' entry where t: "take_entry CHALLENGE_TTL c now (challenges w) = (m', entry)" by fastforce
  have w': "w' = w\<lparr>challenges := m'\<rparr>" and r: "r = (if entry = Some u then Reply c else Refuse 400 m)"
    using assms(1) Inr t by (auto simp: take_challenge_def)
  show ?thesis
  proof (cases entry)
    case None
    then show ?thesis using ledger_take_none [OF assms(2)] t w' r by auto
  next
    case (Some v)
    have "ledger CHALLENGE_TTL m' ((c, now, v) # fs) log" using ledger_take_some [OF assms(2)] t Some by simp
    then show ?thesis using ledger_drop [of _ m' "(c, now, v) # fs" log c now v] w' r Some by auto
  qed
qed

lemma create_passkey_ok:
  "create_passkey now i name c tr w = Inr w' \<Longrightarrow>
     challenges w' = challenges w \<and> states w' = states w \<and> (keys_ok w \<longrightarrow> keys_ok w')"
  by (auto simp: create_passkey_def keys_ok_def list_all_iff list_ex_iff less_Suc_eq split: if_splits) (metis, blast)

lemma finishRegistration_frame:
  "finishRegistration_rest ext now acc response name origin c w = (w', r) \<Longrightarrow>
     challenges w' = challenges w \<and> states w' = states w \<and> (keys_ok w \<longrightarrow> keys_ok w')"
  by (auto simp: finishRegistration_rest_def Let_def dest: create_passkey_ok split: sum.splits prod.splits option.splits if_splits)

lemma touch_passkey_frame [simp]:
  "challenges (touch_passkey i n now w) = challenges w" "states (touch_passkey i n now w) = states w"
  "keys_ok (touch_passkey i n now w) = keys_ok w"
proof -
  let ?f = "\<lambda>p :: passkey. if k_id p = i then p\<lparr>k_counter := n, k_lastUsedAt := Some now\<rparr> else p"
  have c: "k_credentialId \<circ> ?f = k_credentialId" "k_id \<circ> ?f = k_id" by (rule ext, simp)+
  have "list_all (\<lambda>p. k_id p < m) (map ?f ps) = list_all (\<lambda>p. k_id p < m) ps" for m ps
    by (simp add: list.pred_map c(2) comp_def cong: list.pred_cong) (metis (mono_tags, lifting) list.pred_cong)
  then show "keys_ok (touch_passkey i n now w) = keys_ok w"
    unfolding keys_ok_def touch_passkey_def by (simp add: c)
qed (simp_all add: touch_passkey_def)

lemma finishAuthentication_frame:
  "finishAuthentication_rest ext now response origin c w = (w', r) \<Longrightarrow>
     challenges w' = challenges w \<and> states w' = states w \<and> (keys_ok w \<longrightarrow> keys_ok w')"
  by (auto simp: finishAuthentication_rest_def split: sum.splits prod.splits option.splits if_splits)

lemma remove_passkey_frame:
  "remove_passkey i j w = (w', r) \<Longrightarrow>
     challenges w' = challenges w \<and> states w' = states w \<and> (keys_ok w \<longrightarrow> keys_ok w')"
  by (auto simp: remove_passkey_def keys_ok_def list_all_iff distinct_map_filter split: option.splits)

lemma provider_frames:
  "save_provider ext now i vs w = (w', r) \<Longrightarrow>
     challenges w' = challenges w \<and> states w' = states w \<and> passkeys w' = passkeys w \<and> nextPasskey w' = nextPasskey w"
  "remove_provider i w = (w', r') \<Longrightarrow>
     challenges w' = challenges w \<and> states w' = states w \<and> passkeys w' = passkeys w \<and> nextPasskey w' = nextPasskey w"
  by (auto simp: save_provider_def remove_provider_def split: option.splits if_splits)

lemma complete_rest_frame:
  "complete_rest ext fetch exchange userinfo scrypt salt rnd now query e w = (w', r) \<Longrightarrow>
     challenges w' = challenges w \<and> states w' = states w \<and> passkeys w' = passkeys w \<and> nextPasskey w' = nextPasskey w"
  by (auto simp: complete_rest_def Let_def split: option.splits sum.splits prod.splits reply.splits if_splits)

lemma begin_rest_states:
  assumes "discover ext fetch p = Inr ()"
    "begin_rest ext fetch now state nonce verifier pkce authorize url next p w = (w', r)"
  shows "w' = w\<lparr>states := remember STATE_TTL (JStr state) now
      \<lparr>st_nonce = nonce, st_codeVerifier = verifier, st_providerId = o_id p, st_next = next\<rparr> (states w)\<rparr>"
  using assms by (auto simp: begin_rest_def)

lemma complete_take_ledger:
  assumes "complete_take now query w = (w', r)" "ledger STATE_TTL (states w) fs log"
  shows "ledger STATE_TTL (states w')
      ((case r of Reply e \<Rightarrow> [(query_value query ''state'', now, e)] | _ \<Rightarrow> []) @ fs) log \<and>
    challenges w' = challenges w \<and> passkeys w' = passkeys w \<and> nextPasskey w' = nextPasskey w"
proof (cases "take_entry STATE_TTL (query_value query ''state'') now (states w)")
  case (Pair m e)
  then show ?thesis
    using assms ledger_take_none [OF assms(2)] ledger_take_some [OF assms(2)]
    by (cases e) (auto simp: complete_take_def)
qed

lemma safeNext_safe: "safeNext v = Some n \<Longrightarrow> safe_path n"
  by (auto simp: safeNext_def split: jsval.splits if_splits)

lemma trace_inv_world:
  assumes "trace_inv t" "challenges w = challenges (tr_world t)" "states w = states (tr_world t)"
    "keys_ok (tr_world t) \<Longrightarrow> keys_ok w"
  shows "trace_inv (t\<lparr>tr_world := w\<rparr>)"
  using assms by (simp add: trace_inv_def)

lemma signin_trace_inv: "signin_reach ext t \<Longrightarrow> trace_inv t"
proof (induction rule: signin_reach.induct)
  case (boot w)
  then show ?case by (simp add: trace_inv_def ledger_empty)
next
  case (database t d)
  then show ?case by (simp add: trace_inv_def keys_ok_def)
next
  case (reg_start t now challenge acc origin w r)
  then show ?case
    by (auto simp: trace_inv_def startRegistration_def keys_ok_def intro: ledger_remember
        split: sum.splits prod.splits)
next
  case (auth_start t now challenge username origin w r)
  then show ?case
    by (auto simp: trace_inv_def startAuthentication_def Let_def keys_ok_def intro: ledger_remember
        split: sum.splits prod.splits)
next
  case (reg_take t now acc response w r)
  have "ledger CHALLENGE_TTL (challenges (tr_world t)) (tr_keys t) (tr_keylog t)"
    using reg_take.IH by (simp add: trace_inv_def)
  from take_challenge_ledger [OF reg_take.hyps(2) [unfolded finishRegistration_take_def] this]
  show ?case using reg_take.IH by (simp add: trace_inv_def keys_ok_def)
next
  case (auth_take t now response w r)
  have "ledger CHALLENGE_TTL (challenges (tr_world t)) (tr_keys t) (tr_keylog t)"
    using auth_take.IH by (simp add: trace_inv_def)
  from take_challenge_ledger [OF auth_take.hyps(2) [unfolded finishAuthentication_take_def] this]
  show ?case using auth_take.IH by (simp add: trace_inv_def keys_ok_def)
next
  case (reg_finish t c t0 acc now response name origin w r)
  then show ?case using finishRegistration_frame [OF reg_finish.hyps(3)]
    by (cases r) (auto simp: trace_inv_def intro: ledger_accept ledger_drop)
next
  case (auth_finish t c t0 now response origin w r)
  then show ?case using finishAuthentication_frame [OF auth_finish.hyps(3)]
    by (cases r) (auto simp: trace_inv_def intro: ledger_accept ledger_drop)
next
  case (key_remove t i j w r)
  then show ?case using remove_passkey_frame [OF key_remove.hyps(2)] by (intro trace_inv_world) auto
next
  case (provider_save t now i body w r)
  then show ?case using provider_frames(1) [OF provider_save.hyps(2)]
    by (intro trace_inv_world) (auto simp: keys_ok_def)
next
  case (provider_remove t i w r')
  then show ?case using provider_frames(2) [OF provider_remove.hyps(2)]
    by (intro trace_inv_world) (auto simp: keys_ok_def)
next
  case (grant_begin t fetch p now state nonce verifier pkce authorize url nxt w r)
  then show ?case using begin_rest_states [OF grant_begin.hyps(2,3)]
    by (auto simp: trace_inv_def keys_ok_def intro: ledger_remember split: option.splits dest: safeNext_safe)
next
  case (grant_take t now query w r)
  have "ledger STATE_TTL (states (tr_world t)) (tr_grants t) (tr_grantlog t)"
    using grant_take.IH by (simp add: trace_inv_def)
  from complete_take_ledger [OF grant_take.hyps(2) this]
  show ?case using grant_take.IH by (simp add: trace_inv_def keys_ok_def)
next
  case (grant_finish t query t0 e fetch exchange userinfo scrypt salt rnd now w r)
  then show ?case using complete_rest_frame [OF grant_finish.hyps(3)]
    by (cases r) (auto simp: trace_inv_def keys_ok_def intro: ledger_accept ledger_drop)
qed

lemma ledger_sound:
  assumes "ledger l m fs log"
  shows "Accepted k t v \<in> set log \<Longrightarrow> \<exists>t0. Issued k t0 v \<in> set log \<and> t - t0 \<le> l"
    "accepted k log \<le> issued k log"
proof -
  show "Accepted k t v \<in> set log \<Longrightarrow> \<exists>t0. Issued k t0 v \<in> set log \<and> t - t0 \<le> l"
    using assms unfolding ledger_def by blast
  have "accepted k log + in_flight k fs + (if map_get m k = None then 0 else 1) \<le> issued k log"
    using assms unfolding ledger_def by blast
  then show "accepted k log \<le> issued k log" by simp
qed

text \<open>
  C8. A sign-in secret serves once and for its own purpose. However handlers interleave, a
  passkey challenge is accepted at most as often as it was issued, only for the use it was
  issued for (a registration of that account, or a sign-in) and within five minutes; an OIDC
  state likewise, with the nonce, verifier, provider and destination remembered for it, within
  ten minutes; and no two stored passkeys share a credential.
\<close>

theorem signin_secrets_once:
  assumes "signin_reach ext t"
  shows "(Accepted c at_time u \<in> set (tr_keylog t) \<longrightarrow>
        (\<exists>t0. Issued c t0 u \<in> set (tr_keylog t) \<and> at_time - t0 \<le> CHALLENGE_TTL)) \<and>
    accepted c (tr_keylog t) \<le> issued c (tr_keylog t) \<and>
    (Accepted k at_time e \<in> set (tr_grantlog t) \<longrightarrow>
        (\<exists>t0. Issued k t0 e \<in> set (tr_grantlog t) \<and> at_time - t0 \<le> STATE_TTL)) \<and>
    accepted k (tr_grantlog t) \<le> issued k (tr_grantlog t) \<and>
    distinct (map k_credentialId (passkeys (tr_world t)))"
proof -
  have i: "trace_inv t" using assms by (rule signin_trace_inv)
  then have "ledger CHALLENGE_TTL (challenges (tr_world t)) (tr_keys t) (tr_keylog t)"
    "ledger STATE_TTL (states (tr_world t)) (tr_grants t) (tr_grantlog t)"
    by (simp_all add: trace_inv_def)
  then show ?thesis
    using ledger_sound [of CHALLENGE_TTL] ledger_sound [of STATE_TTL] i
    by (auto simp: trace_inv_def keys_ok_def)
qed

lemma flight_issued:
  "trace_inv t \<Longrightarrow> (k, t0, e) \<in> set (tr_grants t) \<Longrightarrow> case st_next e of None \<Rightarrow> True | Some n \<Rightarrow> safe_path n"
  unfolding trace_inv_def ledger_def by blast

text \<open>
  The callback of OpenID Connect never leaves the server: wherever a sign-in ends, the
  browser is sent to the public address of the server, to its interface or to a page of it that
  the visitor named and that passed safeNext.
\<close>

theorem callback_stays_home:
  assumes "signin_reach ext t" "(k, t0, e) \<in> set (tr_grants t)"
    "complete_rest ext fetch exchange userinfo scrypt salt rnd now query e (tr_world t) = (w, r)"
    "callback_answer encode publicUrl token later req r s = (s', SendTo location cookie)"
  shows "\<exists>path. location = publicUrl @ path \<and> (path = ''/@tunlit/'' \<or> safe_path path)"
proof (cases r)
  case (Reply x)
  obtain acc nxt where x: "x = (acc, nxt)" by (cases x)
  have "nxt = st_next e"
    using assms(3) Reply x by (auto simp: complete_rest_def Let_def split: option.splits sum.splits reply.splits if_splits prod.splits)
  then have "case nxt of None \<Rightarrow> True | Some n \<Rightarrow> safe_path n"
    using flight_issued [OF signin_trace_inv [OF assms(1)] assms(2)] by simp
  then show ?thesis using assms(4) Reply x by (auto simp: callback_answer_def Let_def split: option.splits)
next
  case (Refuse code message)
  then have "location = publicUrl @ ''/@tunlit/'' @ ''login?error='' @ encode message"
    using assms(4) by (auto simp: callback_answer_def Let_def)
  moreover have "safe_path (''/@tunlit/'' @ ''login?error='' @ encode message)"
    by (simp add: safe_path_def starts_with_def)
  ultimately show ?thesis by blast
next
  case (Throw err)
  then show ?thesis using assms(4) by (simp add: callback_answer_def Let_def)
qed

subsection \<open>Accounts and sessions from a sign-in\<close>

lemma find_append_new:
  "find P xs = None \<Longrightarrow> find P (xs @ ys) = find P ys"
  by (induction xs) auto

lemma user_role: "(if JStr r = JUndef then JStr ''user'' else JStr r) = JStr r"
  by simp

lemma validate_strings:
  assumes "USERNAME_REGEX u" "length p \<ge> 8"
  shows "validate (JStr u) (JStr p) = None"
proof -
  have "p \<noteq> []" using assms(2) by auto
  moreover have "u \<noteq> []" using assms(1) by (auto simp: USERNAME_REGEX_def)
  ultimately show ?thesis using assms by (simp add: validate_def string_or_def)
qed

definition fresh_account :: "time \<Rightarrow> string \<Rightarrow> string \<Rightarrow> db \<Rightarrow> account" where
  "fresh_account now u hash d =
     \<lparr>a_id = nextAccount d, a_username = u, a_passwordHash = hash, a_role = ''user'', a_totpSecret = None,
      a_totpEnabled = False, a_quotas = None, a_createdAt = now\<rparr>"

lemma create_user_row:
  assumes "byUsername (JStr u) d = None" "u \<noteq> []"
    "create_account scrypt salt now (JStr u) (JStr p) (JStr ''user'') d = (d', Reply v)"
  shows "\<exists>hash. d' = d\<lparr>accounts := accounts d @ [fresh_account now u hash d], nextAccount := nextAccount d + 1\<rparr>"
  using assms
  by (auto simp: create_account_def Let_def insert_account_def hash_value_def ROLES_def fresh_account_def
      split: option.splits if_splits)

lemma create_user_else:
  assumes "create_account scrypt salt now (JStr u) (JStr p) (JStr ''user'') d = (d', r)" "u \<noteq> []"
    "\<forall>v. r \<noteq> Reply v"
  shows "d' = d"
  using assms
  by (auto simp: create_account_def Let_def insert_account_def hash_value_def ROLES_def byUsername_def
      find_append_new string_or_def split: option.splits if_splits)

lemma oidc_account_outcome:
  assumes "oidc_account scrypt salt rnd now p u d = (d', r)" "u \<noteq> []"
  shows "(d' = d \<or> (\<exists>hash. o_createAccounts p \<and> byUsername (JStr u) d = None \<and>
       d' = d\<lparr>accounts := accounts d @ [fresh_account now u hash d], nextAccount := nextAccount d + 1\<rparr>)) \<and>
    (\<forall>acc. r = Reply acc \<longrightarrow> byUsername (JStr u) d' = Some acc) \<and> (\<forall>e. r \<noteq> Throw e)"
proof (cases "byUsername (JStr u) d")
  case (Some acc)
  then show ?thesis using assms(1) by (auto simp: oidc_account_def)
next
  case None
  show ?thesis
  proof (cases "o_createAccounts p")
    case False
    then show ?thesis using assms(1) None by (auto simp: oidc_account_def)
  next
    case True
    obtain d1 r1 where c: "create_account scrypt salt now (JStr u) (JStr (b64url_encode rnd)) (JStr ''user'') d = (d1, r1)"
      by fastforce
    then have d1: "d' = d1" and r: "r = (case r1 of Refuse code message \<Rightarrow> Refuse code message
        | Throw e \<Rightarrow> Refuse 502 (err_message e)
        | Reply _ \<Rightarrow> (case byUsername (JStr u) d1 of None \<Rightarrow> Refuse 502 (err_message TYPE_ERROR) | Some acc \<Rightarrow> Reply acc))"
      using assms(1) None True by (auto simp: oidc_account_def split: reply.splits)
    show ?thesis
    proof (cases r1)
      case (Reply v)
      then show ?thesis using create_user_row [OF None assms(2)] c d1 r True None by (auto split: option.splits)
    next
      case (Refuse n m)
      then show ?thesis using create_user_else [OF c assms(2)] d1 r by auto
    next
      case (Throw e)
      then show ?thesis using create_user_else [OF c assms(2)] d1 r by auto
    qed
  qed
qed

lemma byUsername_SomeD: "u \<noteq> [] \<Longrightarrow> byUsername (JStr u) d = Some a \<Longrightarrow> a \<in> set (accounts d) \<and> a_username a = u"
  by (auto simp: byUsername_def string_or_def find_Some_iff)

lemma byUsername_NoneD: "u \<noteq> [] \<Longrightarrow> byUsername (JStr u) d = None \<Longrightarrow> \<forall>a \<in> set (accounts d). a_username a \<noteq> u"
  by (auto simp: byUsername_def string_or_def find_None_iff)

definition signed_name :: "provider \<Rightarrow> jsval \<Rightarrow> string" where
  "signed_name p claims = username_of (raw_name p claims)"

lemma complete_rest_cases:
  assumes "complete_rest ext fetch exchange userinfo scrypt salt rnd now query e w = (w', r)"
  obtains (stay) "w' = w" "\<forall>x. r \<noteq> Reply x"
  | (acct) p claims d ra where "provider_by (JInt (int (st_providerId e))) w = Some p"
      "oidc_claims ext fetch exchange userinfo query e p = Inr claims" "length (signed_name p claims) \<ge> 3"
      "oidc_account scrypt salt rnd now p (signed_name p claims) (sg_db w) = (d, ra)"
      "w' = w\<lparr>sg_db := d\<rparr>" "\<forall>acc nxt. r = Reply (acc, nxt) \<longrightarrow> ra = Reply acc \<and> nxt = st_next e"
proof (cases "provider_by (JInt (int (st_providerId e))) w")
  case None
  then show thesis using assms by (intro stay) (auto simp: complete_rest_def)
next
  case (Some p)
  show thesis
  proof (cases "oidc_claims ext fetch exchange userinfo query e p")
    case (Inl err)
    then show thesis using assms Some by (intro stay) (auto simp: complete_rest_def)
  next
    case (Inr claims)
    show thesis
    proof (cases "length (signed_name p claims) < 3")
      case True
      then show thesis using assms Some Inr by (intro stay) (auto simp: complete_rest_def Let_def signed_name_def)
    next
      case False
      obtain d ra where o: "oidc_account scrypt salt rnd now p (signed_name p claims) (sg_db w) = (d, ra)" by fastforce
      show thesis using assms Some Inr False o
        by (intro acct [OF Some Inr _ o]) (cases ra; auto simp: complete_rest_def Let_def signed_name_def)+
    qed
  qed
qed

text \<open>
  Whom OpenID Connect signs in. Completing a sign-in changes nothing but the accounts, and
  those only by adding one account: an ordinary user of the name derived from the claims, where
  the provider creates accounts and nobody has that name; existing accounts, and with them the
  administrators, stay as they are, and ids and names stay unique. Whoever is signed in has
  exactly the name derived from claims that the provider of the state gave for its nonce and
  verifier.
\<close>

theorem oidc_signs_in_named:
  assumes "accounts_inv (sg_db w)"
    "complete_rest ext fetch exchange userinfo scrypt salt rnd now query e w = (w', r)"
  shows "accounts_inv (sg_db w') \<and> adminCount (sg_db w') = adminCount (sg_db w) \<and>
    (\<exists>new. accounts (sg_db w') = accounts (sg_db w) @ new \<and> length new \<le> 1 \<and>
       list_all (\<lambda>a. a_role a = ''user'') new) \<and>
    (\<forall>acc nxt. r = Reply (acc, nxt) \<longrightarrow> acc \<in> set (accounts (sg_db w')) \<and> nxt = st_next e \<and>
       (\<exists>p claims. p \<in> set (providers w) \<and> o_id p = st_providerId e \<and>
          oidc_claims ext fetch exchange userinfo query e p = Inr claims \<and> a_username acc = signed_name p claims))"
proof -
  show ?thesis
  proof (rule complete_rest_cases [OF assms(2)])
    assume "w' = w" "\<forall>x. r \<noteq> Reply x"
    then show ?thesis using assms(1) by auto
  next
    fix p claims d ra
    assume acct: "provider_by (JInt (int (st_providerId e))) w = Some p"
      "oidc_claims ext fetch exchange userinfo query e p = Inr claims" "length (signed_name p claims) \<ge> 3"
      "oidc_account scrypt salt rnd now p (signed_name p claims) (sg_db w) = (d, ra)"
      "w' = w\<lparr>sg_db := d\<rparr>" "\<forall>acc nxt. r = Reply (acc, nxt) \<longrightarrow> ra = Reply acc \<and> nxt = st_next e"
    let ?u = "signed_name p claims"
    have u: "?u \<noteq> []" using acct(3) by auto
    note o = oidc_account_outcome [OF acct(4) u]
    have named: "r = Reply (acc, nxt) \<Longrightarrow> acc \<in> set (accounts d) \<and> a_username acc = ?u \<and> nxt = st_next e" for acc nxt
      using acct(6) o byUsername_SomeD [OF u] by blast
    have p: "p \<in> set (providers w)" "o_id p = st_providerId e"
      using acct(1) by (auto simp: provider_by_def find_Some_iff)
    from o consider (same) "d = sg_db w" | (new) hash where "byUsername (JStr ?u) (sg_db w) = None"
        "d = (sg_db w)\<lparr>accounts := accounts (sg_db w) @ [fresh_account now ?u hash (sg_db w)],
                        nextAccount := nextAccount (sg_db w) + 1\<rparr>" by blast
    then have "accounts_inv d \<and> adminCount d = adminCount (sg_db w) \<and>
        (\<exists>new. accounts d = accounts (sg_db w) @ new \<and> length new \<le> 1 \<and> list_all (\<lambda>a. a_role a = ''user'') new)"
    proof cases
      case same
      then show ?thesis using assms(1) by auto
    next
      case new
      then show ?thesis using assms(1) byUsername_NoneD [OF u new(1)]
        by (auto simp: accounts_inv_def adminCount_def fresh_account_def ROLES_def list_all_iff less_Suc_eq)
    qed
    then show ?thesis using named p acct(2,5) by auto
  qed
qed

lemma b64_index_url:
  "b64_index (if c = CHR ''+'' then CHR ''-'' else if c = CHR ''/'' then CHR ''_'' else c) = b64_index c"
  by (auto simp: b64_index_def js_simps)

lemma b64url_index: "List.map_filter b64_index (b64url_encode bs) = List.map_filter b64_index (b64_encode bs)"
proof -
  have "List.map_filter b64_index (map (\<lambda>c. if c = CHR ''+'' then CHR ''-'' else if c = CHR ''/'' then CHR ''_'' else c)
      (filter (\<lambda>c. c \<noteq> CHR ''='') xs)) = List.map_filter b64_index xs" for xs
    by (induction xs) (auto simp: b64_index_url simp del: if_split split: option.split)
  then show ?thesis by (simp add: b64url_encode_def)
qed

lemma b64url_roundtrip: "b64_decode (b64url_encode bs) = bs"
  using b64_roundtrip [of bs] by (simp add: b64_decode_def b64url_index)

lemma create_passkey_row:
  assumes "create_passkey now i name cred t w = Inr w'"
  shows "\<exists>p. p \<in> set (passkeys w') \<and> p \<notin> set (passkeys w) \<and> k_credentialId p = nc_id cred \<and>
    k_accountId p = i \<and> k_publicKey p = b64url_encode (nc_publicKey cred) \<and> k_counter p = nc_counter cred"
  using assms
  by (intro exI [of _ "last (passkeys w')"]) (auto simp: create_passkey_def list_ex_iff split: if_splits)

text \<open>
  The key that verifies a sign-in is the key that was registered: a registration that ends
  well stored a passkey for the account whose later checks use the credential, the public key
  bytes and the counter that the verified registration gave.
\<close>

theorem registered_key_checks:
  assumes "finishRegistration_rest ext now acc response name origin c w = (w', Reply ())"
  shows "\<exists>origin' rpID cred p.
    verifyRegistration ext \<lparr>ck_response = response, ck_challenge = c, ck_origin = origin', ck_rpID = rpID\<rparr> =
      Inr (True, Some cred) \<and>
    p \<in> set (passkeys w') \<and> p \<notin> set (passkeys w) \<and> k_accountId p = a_id acc \<and>
    authentication_check later c2 o2 rp2 p =
      \<lparr>ck_response = later, ck_challenge = c2, ck_origin = o2, ck_rpID = rp2, ck_id = nc_id cred,
       ck_publicKey = nc_publicKey cred, ck_counter = nc_counter cred, ck_transports = transportsOf p\<rparr>"
proof -
  obtain o1 rpID where rp: "relyingParty ext origin = Inr (o1, rpID)"
    using assms by (auto simp: finishRegistration_rest_def split: sum.splits)
  obtain v info where v: "verifyRegistration ext
      \<lparr>ck_response = response, ck_challenge = c, ck_origin = o1, ck_rpID = rpID\<rparr> = Inr (v, info)"
    using assms rp by (auto simp: finishRegistration_rest_def split: sum.splits)
  obtain cred where cred: "v" "info = Some cred"
    using assms rp v by (auto simp: finishRegistration_rest_def split: option.splits if_splits)
  let ?t = "js_get (js_get response ''response'') ''transports''"
  have cr: "create_passkey now (a_id acc) (passkey_name name) cred (if truthy ?t then Some ?t else None) w = Inr w'"
    using assms rp v cred by (simp add: finishRegistration_rest_def Let_def split: sum.splits split del: if_split)
  obtain p where "p \<in> set (passkeys w')" "k_credentialId p = nc_id cred" "k_accountId p = a_id acc"
    "k_publicKey p = b64url_encode (nc_publicKey cred)" "k_counter p = nc_counter cred" "p \<notin> set (passkeys w)"
    using create_passkey_row [OF cr] by blast
  then show ?thesis using v cred
    by (intro exI [of _ o1] exI [of _ rpID] exI [of _ cred] exI [of _ p])
      (auto simp: authentication_check_def b64url_roundtrip)
qed

text \<open>The two routes that end in a session.\<close>

datatype sign_route = PasswordRoute jsval | PasskeyRoute jsval jsval

fun run_route ::
  "platform \<Rightarrow> (string \<Rightarrow> bytes \<Rightarrow> nat \<Rightarrow> bytes) \<Rightarrow> string \<Rightarrow> totp_check \<Rightarrow> string \<Rightarrow> time \<Rightarrow> client_info \<Rightarrow>
   sign_route \<Rightarrow> auth_world \<Rightarrow> auth_world \<times> auth_answer" where
  "run_route ext scrypt ABSENT check token now req (PasswordRoute body) s =
     login_route scrypt ABSENT check token now req body s"
| "run_route ext scrypt ABSENT check token now req (PasskeyRoute body c) s =
     passkey_verify_end ext token now req body c s"

text \<open>What counts as proof: the password and, where it is on, the code of the authenticator,
  while the address is not blocked; or a signature over the challenge taken before, verified
  with a stored key of the account.\<close>

fun proven ::
  "platform \<Rightarrow> (string \<Rightarrow> bytes \<Rightarrow> nat \<Rightarrow> bytes) \<Rightarrow> string \<Rightarrow> totp_check \<Rightarrow> time \<Rightarrow> client_info \<Rightarrow>
   sign_route \<Rightarrow> auth_world \<Rightarrow> account \<Rightarrow> bool" where
  "proven ext scrypt ABSENT check now req (PasswordRoute body) s acc \<longleftrightarrow>
     \<not> snd (blocked now (''login:'' @ ci_clientIp req) (aw_limiter s)) \<and>
     checkCredentials scrypt ABSENT (js_get body ''username'') (js_get body ''password'') (sg_db (aw_signin s)) = Some acc \<and>
     (a_totpEnabled acc \<longrightarrow> verify_totp check (a_totpSecret acc) (js_get body ''code''))"
| "proven ext scrypt ABSENT check now req (PasskeyRoute body c) s acc \<longleftrightarrow>
     (\<exists>p \<in> set (passkeys (aw_signin s)). k_accountId p = a_id acc \<and>
       (\<exists>rpID n. relyingParty ext (originOf req) = Inr (originOf req, rpID) \<and>
          verifyAuthentication ext
            (authentication_check (js_get body ''response'') c (originOf req) rpID p) = Inr (True, n)))"

lemma login_outcome:
  assumes "login scrypt ABSENT check token now body ip ua d = (d', r)"
  shows "case r of Reply (t, acc) \<Rightarrow> d' = fst (create_session token now (a_id acc) ip ua d) \<and>
      checkCredentials scrypt ABSENT (js_get body ''username'') (js_get body ''password'') d = Some acc \<and>
      (a_totpEnabled acc \<longrightarrow> verify_totp check (a_totpSecret acc) (js_get body ''code''))
    | _ \<Rightarrow> d' = d"
  using assms by (auto simp: login_def Let_def split: option.splits if_splits prod.splits)

lemma new_session_row:
  "row \<in> set (db_sessions (fst (create_session token now i ip ua d))) \<Longrightarrow> row \<notin> set (db_sessions d) \<Longrightarrow>
   s_accountId row = i"
  by (auto simp: create_session_def)

lemma finishAuthentication_outcome:
  assumes "finishAuthentication_rest ext now response origin c w = (w', r)"
  shows "sg_db w' = sg_db w \<and> (\<forall>acc. r = Reply acc \<longrightarrow> (\<exists>p \<in> set (passkeys w). k_accountId p = a_id acc \<and>
     (\<exists>rpID n. relyingParty ext origin = Inr (origin, rpID) \<and>
        verifyAuthentication ext (authentication_check response c origin rpID p) = Inr (True, n))))"
proof -
  have origin: "relyingParty ext origin = Inr (o1, rpID) \<Longrightarrow> o1 = origin" for o1 rpID
    by (auto simp: relyingParty_def)
  have db: "sg_db (touch_passkey i n now w) = sg_db w" for i n by (simp add: touch_passkey_def)
  have "r = Reply acc \<Longrightarrow> \<exists>hit p. find (\<lambda>p. hit (k_credentialId p)) (passkeys w) = Some p \<and>
      byId (k_accountId p) (sg_db w) = Some acc \<and> (\<exists>n. bind (relyingParty ext origin) (\<lambda>(o1, rpID).
        verifyAuthentication ext (authentication_check response c o1 rpID p)) = Inr (True, n))" for acc
    using assms by (fastforce simp: finishAuthentication_rest_def split: sum.splits option.splits if_splits prod.splits)
  then have "r = Reply acc \<Longrightarrow> \<exists>p \<in> set (passkeys w). k_accountId p = a_id acc \<and>
     (\<exists>rpID n. relyingParty ext origin = Inr (origin, rpID) \<and>
        verifyAuthentication ext (authentication_check response c origin rpID p) = Inr (True, n))" for acc
    using origin by (fastforce simp: find_Some_iff dest: byId_SomeD)
  moreover have "sg_db w' = sg_db w"
    using assms db by (auto simp: finishAuthentication_rest_def split: sum.splits option.splits if_splits prod.splits)
  ultimately show ?thesis by blast
qed

text \<open>
  C9. A session needs proof: whatever the login route or the passkey route answers, a session
  that was not there before belongs to the account that the answer signs in, and that account
  was proven, by its password and its authenticator while the address was not blocked, or by a
  signature verified with one of its stored keys.
\<close>

theorem sessions_need_proof:
  assumes "run_route ext scrypt ABSENT check token now req route s = (s', answer)"
    "row \<in> set (db_sessions (sg_db (aw_signin s')))" "row \<notin> set (db_sessions (sg_db (aw_signin s)))"
  shows "\<exists>cookie acc. answer = SignedIn cookie acc \<and> s_accountId row = a_id acc \<and>
    proven ext scrypt ABSENT check now req route s acc"
proof (cases route)
  case (PasswordRoute body)
  let ?l = "login scrypt ABSENT check token now body (ci_clientIp req) (ci_userAgent req) (sg_db (aw_signin s))"
  obtain d r where l: "?l = (d, r)" by fastforce
  have run: "login_route scrypt ABSENT check token now req body s = (s', answer)" using assms(1) PasswordRoute by simp
  have open_gate: "\<not> snd (blocked now (''login:'' @ ci_clientIp req) (aw_limiter s))" "d = sg_db (aw_signin s')"
    "\<forall>t acc. r = Reply (t, acc) \<longrightarrow> answer = SignedIn (sessionCookie t (ci_secure req)) acc"
    using run assms(2,3) l
    by (auto simp: login_route_def Let_def split: reply.splits prod.splits bool.splits)
  show ?thesis
  proof (cases r)
    case (Reply x)
    then obtain t acc where x: "r = Reply (t, acc)" by (cases x) auto
    then show ?thesis using login_outcome [OF l] open_gate assms(2,3) PasswordRoute
      by (auto dest: new_session_row)
  qed (use login_outcome [OF l] open_gate assms(2,3) in auto)
next
  case (PasskeyRoute body c)
  let ?f = "finishAuthentication_rest ext now (js_get body ''response'') (originOf req) c (aw_signin s)"
  obtain w r where f: "?f = (w, r)" by fastforce
  have run: "passkey_verify_end ext token now req body c s = (s', answer)" using assms(1) PasskeyRoute by simp
  note o = finishAuthentication_outcome [OF f]
  show ?thesis
  proof (cases r)
    case (Reply acc)
    then have "answer = SignedIn (sessionCookie token (ci_secure req)) acc"
      "sg_db (aw_signin s') = fst (create_session token now (a_id acc) (ci_clientIp req) (ci_userAgent req) (sg_db w))"
      using run f by (auto simp: passkey_verify_end_def signIn_def start_session_def)
    then show ?thesis using o Reply assms(2,3) PasskeyRoute by (auto dest: new_session_row)
  qed (use run f o assms(2,3) in \<open>auto simp: passkey_verify_end_def\<close>)
qed

subsection \<open>What the rules allow\<close>

text \<open>
  An account is found by the text before the @ alone, with other characters dropped: neither the
  provider nor the subject is kept with it. Claims of different people of different providers
  lead to the same account, an administrator set up with a password included.
\<close>

lemma oidc_names_collide:
  "signed_name p (JObj [(''email'', JStr ''root@one.example''), (''sub'', JStr ''1'')]) =
   signed_name q (JObj [(''email'', JStr ''ro/ot@two.example''), (''sub'', JStr ''2'')])"
  if "o_usernameClaim p = ''preferred_username''" "o_usernameClaim q = ''preferred_username''"
  using that by (simp add: signed_name_def raw_name_def js_or_def username_of_def username_char_def string_or_def js_simps)

text \<open>PUT /:id with an id that is no number or 0 does not answer 404: it creates a provider.\<close>

lemma save_unknown_id_creates:
  assumes "i = JFloat ''NaN'' \<or> i = JInt 0" "issuer_problem ext (vs_issuer vs) = None" "missing_key vs = None"
  shows "providers (fst (save_provider ext now i vs w)) = providers w @ [new_provider now (nextProvider w) vs]"
  using assms by (auto simp: save_provider_def)

subsection \<open>Concrete runs\<close>

definition sample_credential :: new_credential where
  "sample_credential = \<lparr>nc_id = ''cred'', nc_publicKey = [1, 2], nc_counter = 0, nc_deviceType = ''singleDevice'', nc_backedUp = False\<rparr>"

definition sample_platform :: platform where
  "sample_platform = \<lparr>json_parse = (\<lambda>_. Inr (JObj [(''challenge'', JStr ''c1'')])), buffer_other = (\<lambda>_. Inl TYPE_ERROR),
     url_parse = (\<lambda>_. Inr (''https:'', ''tunlit.example'')), column_matches = (\<lambda>v. Inr (\<lambda>s. v = JStr s)),
     verifyRegistration = (\<lambda>_. Inr (True, Some sample_credential)), verifyAuthentication = (\<lambda>_. Inr (True, 1))\<rparr>"

definition sample_key :: passkey where
  "sample_key = \<lparr>k_id = 1, k_accountId = 1, k_name = ''Laptop'', k_credentialId = ''key'', k_publicKey = ''AQI'', k_counter = 0,
     k_deviceType = ''singleDevice'', k_backedUp = False, k_transports = None, k_createdAt = 0, k_lastUsedAt = None\<rparr>"

definition sample_provider :: provider where
  "sample_provider = \<lparr>o_id = 1, o_name = ''Work'', o_issuer = ''https://id.example'', o_clientId = ''tunlit'', o_clientSecret = None,
     o_scope = ''openid'', o_usernameClaim = ''preferred_username'', o_createAccounts = True, o_enabled = True, o_createdAt = 0\<rparr>"

definition sample_signin :: signin where
  "sample_signin = \<lparr>sg_db = sample_db, passkeys = [sample_key], nextPasskey = 2, challenges = [], providers = [sample_provider],
     nextProvider = 2, states = []\<rparr>"

definition sample_response :: jsval where
  "sample_response = JObj [(''id'', JStr ''key''), (''response'', JObj [(''clientDataJSON'', JStr ''e30'')])]"

definition sample_client :: client_info where
  "sample_client = \<lparr>ci_proto = ''https'', ci_host = ''tunlit.example'', ci_clientIp = ''10.0.0.1'', ci_userAgent = [], ci_secure = True\<rparr>"

definition sample_auth :: auth_world where
  "sample_auth = \<lparr>aw_signin = sample_signin, aw_limiter = new_limiter 1000 3, aw_pending = []\<rparr>"

definition sample_boot :: sign_trace where
  "sample_boot = \<lparr>tr_world = sample_signin, tr_keys = [], tr_keylog = [], tr_grants = [], tr_grantlog = []\<rparr>"

lemma sample_boot_reach: "signin_reach sample_platform sample_boot"
  unfolding sample_boot_def by (rule signin_reach.boot) (simp_all add: sample_signin_def keys_ok_def sample_key_def)

theorem signin_secrets_once_witness:
  "\<exists>t. signin_reach sample_platform t \<and> Accepted (JStr ''c1'') 10 Authentication \<in> set (tr_keylog t) \<and>
     (\<exists>t0. Issued (JStr ''c1'') t0 Authentication \<in> set (tr_keylog t) \<and> 10 - t0 \<le> CHALLENGE_TTL)"
proof -
  note sample_defs = sample_boot_def sample_signin_def sample_platform_def sample_response_def
  let ?r1 = "startAuthentication sample_platform 0 ''c1'' JUndef ''https://tunlit.example'' (tr_world sample_boot)"
  have e1: "?r1 = (fst ?r1, snd ?r1)" by simp
  have s1: "snd ?r1 = Reply \<lparr>ar_rpID = ''tunlit.example'', ar_allow = None\<rparr>"
    "fst ?r1 = sample_signin\<lparr>challenges := [(JStr ''c1'', (0, Authentication))]\<rparr>"
    by (simp_all add: sample_defs startAuthentication_def relyingParty_def remember_challenge_def remember_def)
  note t1 = signin_reach.auth_start [OF sample_boot_reach e1, unfolded s1]
  let ?t1 = "sample_boot\<lparr>tr_world := sample_signin\<lparr>challenges := [(JStr ''c1'', (0, Authentication))]\<rparr>,
      tr_keylog := [Issued (JStr ''c1'') 0 Authentication]\<rparr>"
  have r1: "signin_reach sample_platform ?t1" using t1 by (simp add: sample_boot_def)
  have e2: "finishAuthentication_take sample_platform 10 sample_response (tr_world ?t1) = (sample_signin, Reply (JStr ''c1''))"
    by (simp add: sample_defs finishAuthentication_take_def take_challenge_def challengeOf_def prop_of_def
        buffer_from_def take_entry_def CHALLENGE_TTL_def)
  note r2 = signin_reach.auth_take [OF r1 e2]
  let ?t2 = "?t1\<lparr>tr_world := sample_signin, tr_keys := [(JStr ''c1'', 10, Authentication)]\<rparr>"
  have r2': "signin_reach sample_platform ?t2" using r2 by (simp add: sample_boot_def)
  let ?f = "finishAuthentication_rest sample_platform 20 sample_response ''https://tunlit.example'' (JStr ''c1'') (tr_world ?t2)"
  have s3: "\<exists>acc. snd ?f = Reply acc"
    by (simp add: sample_defs finishAuthentication_rest_def sample_key_def relyingParty_def byId_def sample_db_def)
  then obtain acc where s3: "snd ?f = Reply acc" by blast
  have "signin_reach sample_platform (?t2\<lparr>tr_world := fst ?f, tr_keys := [],
      tr_keylog := [Issued (JStr ''c1'') 0 Authentication, Accepted (JStr ''c1'') 10 Authentication]\<rparr>)"
    using signin_reach.auth_finish [OF r2' _ prod.collapse [symmetric, of ?f], of 10] s3 by (simp add: sample_boot_def)
  from this signin_secrets_once [OF this, of "JStr ''c1''" 10 Authentication] show ?thesis by (intro exI conjI) auto
qed

definition sample_exchange :: grant where
  "sample_exchange p g = Inr (JObj [(''preferred_username'', JStr ''root@id.example'')])"

definition sample_query :: "(string \<times> string) list" where
  "sample_query = [(''state'', ''s''), (''code'', ''k'')]"

definition sample_entry :: oidc_state where
  "sample_entry = \<lparr>st_nonce = ''n'', st_codeVerifier = ''v'', st_providerId = 1, st_next = Some ''/@tunlit/settings''\<rparr>"

definition sample_complete :: "signin \<times> (account \<times> string option) reply" where
  "sample_complete = complete_rest sample_platform (\<lambda>_ _. Inr ()) sample_exchange (\<lambda>_. None) (\<lambda>p s n. []) [] [] 20
     sample_query sample_entry sample_signin"

lemma sample_complete_root:
  "sample_complete = (sample_signin, Reply (hd (accounts sample_db), Some ''/@tunlit/settings''))"
  by (simp add: sample_complete_def complete_rest_def sample_signin_def sample_entry_def provider_by_def sample_provider_def
      oidc_claims_def discover_def sample_platform_def sample_exchange_def raw_name_def js_or_def username_of_def
      username_char_def string_or_def js_simps oidc_account_def byUsername_def sample_db_def)

theorem oidc_signs_in_named_witness:
  "\<exists>acc \<in> set (accounts sample_db). a_username acc = ''root'' \<and>
     snd sample_complete = Reply (acc, Some ''/@tunlit/settings'')"
proof -
  have inv: "accounts_inv (sg_db sample_signin)" by (simp add: sample_signin_def) code_simp
  have run: "complete_rest sample_platform (\<lambda>_ _. Inr ()) sample_exchange (\<lambda>_. None) (\<lambda>p s n. []) [] [] 20
      sample_query sample_entry sample_signin = (sample_signin, Reply (hd (accounts sample_db), Some ''/@tunlit/settings''))"
    using sample_complete_root by (simp add: sample_complete_def)
  from oidc_signs_in_named [OF inv run]
  have "hd (accounts sample_db) \<in> set (accounts (sg_db sample_signin))" by blast
  moreover have "snd sample_complete = Reply (hd (accounts sample_db), Some ''/@tunlit/settings'')"
    by (simp only: sample_complete_root snd_conv)
  moreover have "a_username (hd (accounts sample_db)) = ''root''" by (simp add: sample_db_def)
  ultimately show ?thesis by (intro bexI [of _ "hd (accounts sample_db)"]) (simp_all add: sample_signin_def)
qed

theorem callback_stays_home_witness:
  "\<exists>cookie s'. callback_answer id ''https://tunlit.example'' ''tok'' 30 sample_client (snd sample_complete) sample_auth =
     (s', SendTo ''https://tunlit.example/@tunlit/settings'' cookie) \<and>
   (\<exists>path. ''https://tunlit.example/@tunlit/settings'' = ''https://tunlit.example'' @ path \<and>
      (path = ''/@tunlit/'' \<or> safe_path path))"
proof -
  let ?d = "\<lambda>_ _. Inr ()" and ?auth = "\<lambda>_. Inr ''https://id.example/authorize''"
  have d: "discover sample_platform ?d sample_provider = Inr ()"
    by (simp add: discover_def sample_platform_def)
  have nx: "safeNext (JStr ''/@tunlit/settings'') = Some ''/@tunlit/settings''"
    by (simp add: safeNext_def safe_path_def starts_with_def)
  have b: "begin_rest sample_platform ?d 0 ''s'' ''n'' ''v'' id ?auth ''https://tunlit.example''
      (safeNext (JStr ''/@tunlit/settings'')) sample_provider (tr_world sample_boot) =
      (sample_signin\<lparr>states := [(JStr ''s'', (0, sample_entry))]\<rparr>, Reply ''https://id.example/authorize'')"
  proof -
    have "o_id sample_provider = 1" by (simp add: sample_provider_def)
    moreover have "states (tr_world sample_boot) = []" "tr_world sample_boot = sample_signin"
      by (simp_all add: sample_boot_def sample_signin_def)
    ultimately show ?thesis by (simp add: begin_rest_def d nx remember_def sample_entry_def)
  qed
  note t1 = signin_reach.grant_begin [OF sample_boot_reach d b]
  have tk: "complete_take 10 sample_query (sample_signin\<lparr>states := [(JStr ''s'', (0, sample_entry))]\<rparr>) =
      (sample_signin, Reply sample_entry)"
    by (simp add: complete_take_def sample_query_def query_value_def take_entry_def STATE_TTL_def sample_signin_def)
  let ?w1 = "sample_signin\<lparr>states := [(JStr ''s'', (0, sample_entry))]\<rparr>"
  obtain t where t: "signin_reach sample_platform t" "tr_world t = ?w1" using t1 by fastforce
  have tk': "complete_take 10 sample_query (tr_world t) = (sample_signin, Reply sample_entry)" using tk t(2) by simp
  obtain t2 where t2: "signin_reach sample_platform t2" "tr_world t2 = sample_signin"
    "(query_value sample_query ''state'', 10, sample_entry) \<in> set (tr_grants t2)"
    using signin_reach.grant_take [OF t(1) tk'] by fastforce
  have run: "complete_rest sample_platform ?d sample_exchange (\<lambda>_. None) (\<lambda>p s n. []) [] [] 20
      sample_query sample_entry (tr_world t2) = (fst sample_complete, snd sample_complete)"
    using t2(2) by (simp add: sample_complete_def)
  have ans: "callback_answer id ''https://tunlit.example'' ''tok'' 30 sample_client (snd sample_complete) sample_auth =
      (start_session ''tok'' 30 sample_client (a_id (hd (accounts sample_db))) sample_auth,
       SendTo ''https://tunlit.example/@tunlit/settings'' (Some (sessionCookie ''tok'' True)))"
    by (simp add: callback_answer_def sample_complete_root sample_client_def)
  show ?thesis
    using callback_stays_home [OF t2(1,3) run ans] ans by blast
qed

theorem registered_key_checks_witness:
  "\<exists>p \<in> set (passkeys (fst (finishRegistration_rest sample_platform 0 (hd (accounts sample_db)) sample_response JUndef
       ''https://tunlit.example'' (JStr ''c1'') sample_signin))).
     ck_publicKey (authentication_check JUndef JUndef [] [] p) = [1, 2]"
proof -
  let ?f = "finishRegistration_rest sample_platform 0 (hd (accounts sample_db)) sample_response JUndef
       ''https://tunlit.example'' (JStr ''c1'') sample_signin"
  have "snd ?f = Reply ()"
    by (simp add: finishRegistration_rest_def relyingParty_def sample_platform_def create_passkey_def sample_signin_def
        sample_key_def sample_credential_def Let_def)
  then have "?f = (fst ?f, Reply ())" by (metis prod.collapse)
  from registered_key_checks [OF this, of JUndef JUndef "[]" "[]"] obtain o1 rp cred p
    where v: "verifyRegistration sample_platform \<lparr>ck_response = sample_response, ck_challenge = JStr ''c1'',
        ck_origin = o1, ck_rpID = rp\<rparr> = Inr (True, Some cred)" and p: "p \<in> set (passkeys (fst ?f))"
      "ck_publicKey (authentication_check JUndef JUndef [] [] p) = nc_publicKey cred" by auto
  have "nc_publicKey cred = [1, 2]" using v by (auto simp: sample_platform_def sample_credential_def)
  then show ?thesis using p by auto
qed

theorem sessions_need_proof_witness:
  "\<exists>acc. proven sample_platform (\<lambda>p s n. []) [] (\<lambda>s c. False) 5 sample_client
     (PasskeyRoute (JObj [(''response'', sample_response)]) (JStr ''c1'')) sample_auth acc \<and> a_id acc = 1"
proof -
  let ?route = "PasskeyRoute (JObj [(''response'', sample_response)]) (JStr ''c1'')"
  let ?run = "run_route sample_platform (\<lambda>p s n. []) [] (\<lambda>s c. False) ''fresh'' 5 sample_client ?route sample_auth"
  have s: "db_sessions (sg_db (aw_signin (fst ?run))) = db_sessions sample_db @
      [\<lparr>s_id = 2, s_accountId = 1, s_token = ''fresh'', s_ip = Some ''10.0.0.1'', s_userAgent = None, s_createdAt = 5, s_lastSeen = 5\<rparr>]"
    by (simp add: passkey_verify_end_def finishAuthentication_rest_def sample_auth_def sample_signin_def sample_key_def
        sample_response_def sample_platform_def relyingParty_def byId_def sample_db_def signIn_def start_session_def
        create_session_def touch_passkey_def sample_client_def non_empty_def)
  show ?thesis
    using sessions_need_proof [OF prod.collapse [symmetric, of ?run],
        of "\<lparr>s_id = 2, s_accountId = 1, s_token = ''fresh'', s_ip = Some ''10.0.0.1'', s_userAgent = None, s_createdAt = 5, s_lastSeen = 5\<rparr>"] s
    by (auto simp: sample_auth_def sample_signin_def sample_db_def)
qed

end
