(* ===== verification/Tls.thy ===== *)
theory Tls
  imports Accounts Tables
begin

text \<open>
  Certificates: the manager (src/server/lib/tls/manager.js), its store (store.js with
  models/Acme.js and models/Certificate.js), the DNS providers (providers/index.js, manual.js,
  cloudflare.js) and the routes of the web interface (src/server/routes/tls.js).

  A method that waits for the certificate authority is split where it waits: what it does
  before, what the authority asks for meanwhile (the challenge handlers) and what it does with
  the answer. The ACME client, key generation, the parsing of a chain and the requests to
  Cloudflare are arguments. A secure context is the pair of key and chain it was made from.
\<close>

type_synonym secure_context = "string \<times> string"

subsection \<open>store.js\<close>

record tls_row =
  x_domain :: string
  x_altNames :: "string list"
  x_privateKey :: string
  x_chain :: string
  x_issuedAt :: time
  x_expiresAt :: time

record acme_settings =
  ac_email :: "string option"
  ac_provider :: string
  ac_credential :: "string option"
  ac_accountKey :: "string option"

definition ACME_DEFAULTS :: acme_settings where
  "ACME_DEFAULTS = \<lparr>ac_email = None, ac_provider = ''manual'', ac_credential = None, ac_accountKey = None\<rparr>"

text \<open>A change of settings: the columns it names.\<close>

record acme_change =
  ch_email :: "string option option"
  ch_provider :: "string option"
  ch_credential :: "string option option"
  ch_accountKey :: "string option"

record tls_store =
  ts_row :: "acme_settings option"
  ts_certs :: "tls_row list"

definition acme_settings_of :: "tls_store \<Rightarrow> acme_settings" where
  "acme_settings_of st = (case ts_row st of None \<Rightarrow> ACME_DEFAULTS | Some row \<Rightarrow> row)"

definition or_else :: "'a option \<Rightarrow> 'a \<Rightarrow> 'a" where
  "or_else v d = (case v of None \<Rightarrow> d | Some x \<Rightarrow> x)"

definition change_settings :: "acme_change \<Rightarrow> acme_settings \<Rightarrow> acme_settings" where
  "change_settings c a =
     \<lparr>ac_email = or_else (ch_email c) (ac_email a), ac_provider = or_else (ch_provider c) (ac_provider a),
      ac_credential = or_else (ch_credential c) (ac_credential a),
      ac_accountKey = (case ch_accountKey c of None \<Rightarrow> ac_accountKey a | Some k \<Rightarrow> Some k)\<rparr>"

definition saveSettings :: "acme_change \<Rightarrow> tls_store \<Rightarrow> tls_store" where
  "saveSettings c st = st\<lparr>ts_row := Some (change_settings c (acme_settings_of st))\<rparr>"

definition certificate :: "string \<Rightarrow> tls_store \<Rightarrow> tls_row option" where
  "certificate domain st = find (\<lambda>r. x_domain r = domain) (ts_certs st)"

definition saveCertificate :: "time \<Rightarrow> string \<Rightarrow> string list \<Rightarrow> string \<Rightarrow> string \<Rightarrow> time \<Rightarrow> tls_store \<Rightarrow> tls_store" where
  "saveCertificate now domain altNames key chain expires st =
     (let row = \<lparr>x_domain = domain, x_altNames = altNames, x_privateKey = key, x_chain = chain,
                 x_issuedAt = now, x_expiresAt = expires\<rparr>
      in st\<lparr>ts_certs :=
           (if certificate domain st \<noteq> None
            then map (\<lambda>r. if x_domain r = domain then row else r) (ts_certs st) else ts_certs st @ [row])\<rparr>)"

definition forgetCertificate :: "string \<Rightarrow> tls_store \<Rightarrow> tls_store" where
  "forgetCertificate domain st = st\<lparr>ts_certs := filter (\<lambda>r. x_domain r \<noteq> domain) (ts_certs st)\<rparr>"

subsection \<open>providers/manual.js\<close>

text \<open>
  Challenges that wait for the administrator. A pending entry is the promise of its create, by
  number; settling it is logged with its outcome (None: resolved).
\<close>

definition WAIT_TIMEOUT :: time where
  "WAIT_TIMEOUT = 15 * 60 * 1000"

record manual_entry =
  me_promise :: nat
  me_record :: string
  me_value :: string

record manual =
  mp_pending :: "(string, manual_entry) jsmap"
  mp_settled :: "(nat \<times> string option) list"
  mp_next :: nat

definition settle_manual :: "string \<Rightarrow> string option \<Rightarrow> manual \<Rightarrow> manual" where
  "settle_manual key outcome m =
     (case map_get (mp_pending m) key of
        None \<Rightarrow> m
      | Some e \<Rightarrow> m\<lparr>mp_pending := map_delete key (mp_pending m), mp_settled := mp_settled m @ [(me_promise e, outcome)]\<rparr>)"

definition manual_records :: "manual \<Rightarrow> (string \<times> string) list" where
  "manual_records m = map (\<lambda>(_, e). (me_record e, me_value e)) (mp_pending m)"

definition manual_key :: "string \<Rightarrow> string \<Rightarrow> string" where
  "manual_key record_name v = record_name @ '':'' @ v"

definition create_manual :: "string \<Rightarrow> string \<Rightarrow> manual \<Rightarrow> manual" where
  "create_manual record_name v m =
     m\<lparr>mp_pending := map_set (manual_key record_name v)
         \<lparr>me_promise = mp_next m, me_record = record_name, me_value = v\<rparr> (mp_pending m), mp_next := mp_next m + 1\<rparr>"

text \<open>The timer of a create, when it fires.\<close>

definition timeout_manual :: "string \<Rightarrow> manual \<Rightarrow> manual" where
  "timeout_manual key m = settle_manual key (Some ''Timed out waiting for the TXT record to be added'') m"

definition continue_manual :: "manual \<Rightarrow> manual \<times> bool" where
  "continue_manual m =
     (let keys = map fst (mp_pending m) in (fold (\<lambda>k. settle_manual k None) keys m, keys \<noteq> []))"

definition reset_manual :: "manual \<Rightarrow> manual" where
  "reset_manual m = fold (\<lambda>k. settle_manual k (Some ''Cancelled'')) (map fst (mp_pending m)) m"

subsection \<open>providers/cloudflare.js\<close>

record zone =
  z_id :: string
  z_name :: string

record dns_entry =
  dn_id :: string
  dn_content :: string

text \<open>The answers of the service: the zones of a name, the TXT entries of a record, and what
  comes of a change.\<close>

record cloudflare =
  cf_zones :: "string \<Rightarrow> zone list result"
  cf_entries :: "zone \<Rightarrow> string \<Rightarrow> dns_entry list result"

datatype dns_change = AddTxt string string string | DropEntry string string

definition no_zone :: "string \<Rightarrow> err" where
  "no_zone hostname = Err [] (''Cloudflare: no zone found for '' @ hostname @ ''. Check that the token can read this zone.'')"

text \<open>The loop of zoneFor over the labels: every suffix of at least two labels, the longest
  first.\<close>

fun zone_from :: "(string \<Rightarrow> zone list result) \<Rightarrow> string list \<Rightarrow> zone option result" where
  "zone_from zones (x # y # labels) =
     bind (zones (join ''.'' (x # y # labels))) (\<lambda>found.
       case found of z # _ \<Rightarrow> Inr (Some z) | [] \<Rightarrow> zone_from zones (y # labels))"
| "zone_from zones labels = Inr None"

definition zoneFor :: "cloudflare \<Rightarrow> string \<Rightarrow> zone result" where
  "zoneFor cf hostname =
     bind (zone_from (cf_zones cf) (split_on CHR ''.'' hostname)) (\<lambda>z.
       case z of None \<Rightarrow> Inl (no_zone hostname) | Some z \<Rightarrow> Inr z)"

definition verify_cloudflare :: "cloudflare \<Rightarrow> string \<Rightarrow> string result" where
  "verify_cloudflare cf hostname =
     bind (zoneFor cf hostname) (\<lambda>z. Inr (''Token works, zone '' @ z_name z @ '' found''))"

definition create_cloudflare :: "cloudflare \<Rightarrow> string \<Rightarrow> string \<Rightarrow> dns_change result" where
  "create_cloudflare cf record_name v = bind (zoneFor cf record_name) (\<lambda>z. Inr (AddTxt (z_id z) record_name v))"

definition remove_cloudflare :: "cloudflare \<Rightarrow> string \<Rightarrow> string \<Rightarrow> dns_change list result" where
  "remove_cloudflare cf record_name v =
     bind (zoneFor cf record_name) (\<lambda>z.
     bind (cf_entries cf z record_name) (\<lambda>entries.
       Inr (map (\<lambda>e. DropEntry (z_id z) (dn_id e)) (filter (\<lambda>e. dn_content e = v) entries))))"

subsection \<open>providers/index.js\<close>

record dns_provider =
  dp_id :: string
  dp_title :: string
  dp_needsCredential :: bool
  dp_credentialLabel :: "string option"
  dp_httpOnly :: bool
  dp_verifies :: bool

definition PROVIDERS :: "dns_provider list" where
  "PROVIDERS =
     [\<lparr>dp_id = ''cloudflare'', dp_title = ''Cloudflare'', dp_needsCredential = True,
       dp_credentialLabel = Some ''API token'', dp_httpOnly = False, dp_verifies = True\<rparr>,
      \<lparr>dp_id = ''manual'', dp_title = ''Add the record yourself'', dp_needsCredential = False,
       dp_credentialLabel = None, dp_httpOnly = False, dp_verifies = False\<rparr>,
      \<lparr>dp_id = ''http'', dp_title = ''No DNS provider'', dp_needsCredential = False,
       dp_credentialLabel = None, dp_httpOnly = True, dp_verifies = False\<rparr>]"

text \<open>PROVIDERS[id]: a plain object also answers for the names it inherits; those values have
  none of the properties of a provider.\<close>

definition INHERITED :: "string list" where
  "INHERITED = [''constructor'', ''toString'', ''valueOf'', ''toLocaleString'', ''hasOwnProperty'', ''isPrototypeOf'',
     ''propertyIsEnumerable'', ''__proto__'', ''__defineGetter__'', ''__defineSetter__'', ''__lookupGetter__'', ''__lookupSetter__'']"

definition inherited_provider :: dns_provider where
  "inherited_provider = \<lparr>dp_id = ''undefined'', dp_title = ''undefined'', dp_needsCredential = False,
     dp_credentialLabel = None, dp_httpOnly = False, dp_verifies = False\<rparr>"

definition get_provider :: "string \<Rightarrow> dns_provider option" where
  "get_provider i =
     (case find (\<lambda>p. dp_id p = i) PROVIDERS of
        Some p \<Rightarrow> Some p
      | None \<Rightarrow> if i \<in> set INHERITED then Some inherited_provider else None)"

definition describe_providers :: "(string \<times> string \<times> bool \<times> string option \<times> bool) list" where
  "describe_providers = map (\<lambda>p. (dp_id p, dp_title p, dp_needsCredential p, dp_credentialLabel p, dp_httpOnly p)) PROVIDERS"

subsection \<open>manager.js: state\<close>

definition RENEW_BEFORE :: time where
  "RENEW_BEFORE = 30 * 24 * 60 * 60 * 1000"

definition CHECK_INTERVAL :: time where
  "CHECK_INTERVAL = 12 * 60 * 60 * 1000"

record tls_config =
  tc_baseDomain :: string
  tc_wildcard :: bool
  tc_managesTls :: bool
  tc_ready :: bool

definition domainsFor :: "tls_config \<Rightarrow> string list" where
  "domainsFor c = (if tc_wildcard c then [tc_baseDomain c, ''*.'' @ tc_baseDomain c] else [tc_baseDomain c])"

record current_certificate =
  cc_domain :: string
  cc_altNames :: "string list"
  cc_issuedAt :: time
  cc_expiresAt :: time

record tls_manager =
  tm_context :: "secure_context option"
  tm_current :: "current_certificate option"
  tm_state :: string
  tm_error :: "string option"
  tm_busy :: bool
  tm_challenges :: "(string, string) jsmap"
  tm_timer :: bool
  tm_extra :: "(string, secure_context \<times> time) jsmap"
  tm_issuing :: "string list"

record tls_world =
  tw_manager :: tls_manager
  tw_store :: tls_store
  tw_manual :: manual

definition new_manager :: tls_manager where
  "new_manager = \<lparr>tm_context = None, tm_current = None, tm_state = ''none'', tm_error = None, tm_busy = False,
     tm_challenges = [], tm_timer = False, tm_extra = [], tm_issuing = []\<rparr>"

subsection \<open>Loading\<close>

definition load_certificate :: "tls_config \<Rightarrow> time \<Rightarrow> tls_world \<Rightarrow> tls_world" where
  "load_certificate c now w =
     (case certificate (tc_baseDomain c) (tw_store w) of
        None \<Rightarrow> w\<lparr>tw_manager := (tw_manager w)\<lparr>tm_state := ''none''\<rparr>\<rparr>
      | Some row \<Rightarrow>
          w\<lparr>tw_manager := (tw_manager w)\<lparr>
              tm_current := Some \<lparr>cc_domain = x_domain row, cc_altNames = x_altNames row,
                                  cc_issuedAt = x_issuedAt row, cc_expiresAt = x_expiresAt row\<rparr>,
              tm_context := Some (x_privateKey row, x_chain row),
              tm_state := (if x_expiresAt row < now then ''expired'' else ''ready'')\<rparr>\<rparr>)"

definition set_extra :: "string \<Rightarrow> secure_context \<times> time \<Rightarrow> tls_manager \<Rightarrow> tls_manager" where
  "set_extra hostname e m = m\<lparr>tm_extra := map_set hostname e (tm_extra m)\<rparr>"

definition loadExtra :: "tls_config \<Rightarrow> tls_world \<Rightarrow> tls_world" where
  "loadExtra c w =
     w\<lparr>tw_manager :=
         fold (\<lambda>row. set_extra (x_domain row) ((x_privateKey row, x_chain row), x_expiresAt row))
           (filter (\<lambda>row. x_domain row \<noteq> tc_baseDomain c) (ts_certs (tw_store w)))
           ((tw_manager w)\<lparr>tm_extra := []\<rparr>)\<rparr>"

definition secureContextFor :: "string \<Rightarrow> tls_manager \<Rightarrow> secure_context option" where
  "secureContextFor servername m =
     (case map_get (tm_extra m) (to_lower servername) of
        Some (ctx, _) \<Rightarrow> Some ctx | None \<Rightarrow> tm_context m)"

definition certificate_info :: "string \<Rightarrow> tls_manager \<Rightarrow> time option" where
  "certificate_info hostname m = map_option snd (map_get (tm_extra m) hostname)"

definition dueFor :: "time \<Rightarrow> string \<Rightarrow> tls_manager \<Rightarrow> bool" where
  "dueFor now hostname m =
     (case map_get (tm_extra m) hostname of None \<Rightarrow> True | Some (_, expires) \<Rightarrow> expires - now < RENEW_BEFORE)"

subsection \<open>State of the base certificate\<close>

definition covers :: "tls_config \<Rightarrow> tls_manager \<Rightarrow> bool" where
  "covers c m =
     (case tm_current m of None \<Rightarrow> False | Some cur \<Rightarrow> list_all (\<lambda>n. n \<in> set (cc_altNames cur)) (domainsFor c))"

definition dueForRenewal :: "tls_config \<Rightarrow> time \<Rightarrow> tls_manager \<Rightarrow> bool" where
  "dueForRenewal c now m =
     (case tm_current m of
        None \<Rightarrow> True | Some cur \<Rightarrow> if \<not> covers c m then True else cc_expiresAt cur - now < RENEW_BEFORE)"

record tls_status =
  su_state :: string
  su_busy :: bool
  su_error :: "string option"
  su_domains :: "string list"
  su_certificate :: "current_certificate option"
  su_due :: bool
  su_pending :: "(string \<times> string) list"

definition status_state :: "tls_config \<Rightarrow> time \<Rightarrow> tls_manager \<Rightarrow> string" where
  "status_state c now m =
     (if tm_busy m then tm_state m
      else (case tm_current m of
              None \<Rightarrow> if (case tm_error m of None \<Rightarrow> False | Some e \<Rightarrow> e \<noteq> []) then ''error'' else ''none''
            | Some cur \<Rightarrow>
                if \<not> covers c m then ''stale''
                else if cc_expiresAt cur < now then ''expired'' else ''ready''))"

definition status :: "tls_config \<Rightarrow> time \<Rightarrow> tls_world \<Rightarrow> tls_status" where
  "status c now w =
     (let m = tw_manager w
      in \<lparr>su_state = status_state c now m, su_busy = tm_busy m, su_error = tm_error m, su_domains = domainsFor c,
          su_certificate = tm_current m, su_due = dueForRenewal c now m, su_pending = manual_records (tw_manual w)\<rparr>)"

subsection \<open>The account of the certificate authority\<close>

text \<open>client(): the settings as read, and the key that is made and stored when there is none.\<close>

definition acme_client :: "string \<Rightarrow> tls_world \<Rightarrow> tls_world \<times> acme_settings \<times> string" where
  "acme_client generated w =
     (let settings = acme_settings_of (tw_store w)
      in case ac_accountKey settings of
           Some k \<Rightarrow>
             if k \<noteq> [] then (w, settings, k)
             else (w\<lparr>tw_store := saveSettings \<lparr>ch_email = None, ch_provider = None, ch_credential = None,
                                              ch_accountKey = Some generated\<rparr> (tw_store w)\<rparr>, settings, generated)
         | None \<Rightarrow>
             (w\<lparr>tw_store := saveSettings \<lparr>ch_email = None, ch_provider = None, ch_credential = None,
                                         ch_accountKey = Some generated\<rparr> (tw_store w)\<rparr>, settings, generated))"

subsection \<open>Challenges\<close>

datatype challenge = Http01 string | Dns01

definition acme_record :: "string \<Rightarrow> string" where
  "acme_record identifier =
     ''_acme-challenge.'' @ (if starts_with ''*.'' identifier then drop 2 identifier else identifier)"

text \<open>The provider whose functions the handlers call; one without them makes the call throw.\<close>

definition handler_provider :: "acme_settings \<Rightarrow> string" where
  "handler_provider a =
     (case get_provider (ac_provider a) of None \<Rightarrow> ''manual'' | Some p \<Rightarrow> dp_id p)"

definition NO_FUNCTION :: err where
  "NO_FUNCTION = Err [] ''provider.create is not a function''"

definition challenge_create ::
  "cloudflare \<Rightarrow> acme_settings \<Rightarrow> string \<Rightarrow> challenge \<Rightarrow> string \<Rightarrow> tls_world \<Rightarrow> tls_world \<times> dns_change list result" where
  "challenge_create cf a identifier ch keyAuth w =
     (case ch of
        Http01 token \<Rightarrow>
          (w\<lparr>tw_manager := (tw_manager w)\<lparr>tm_challenges := map_set token keyAuth (tm_challenges (tw_manager w))\<rparr>\<rparr>, Inr [])
      | Dns01 \<Rightarrow>
          if handler_provider a = ''manual'' then (w\<lparr>tw_manual := create_manual (acme_record identifier) keyAuth (tw_manual w)\<rparr>, Inr [])
          else if handler_provider a = ''cloudflare''
          then (w, bind (create_cloudflare cf (acme_record identifier) keyAuth) (\<lambda>c. Inr [c]))
          else (w, Inl NO_FUNCTION))"

text \<open>Removing never fails: errors are only logged.\<close>

definition challenge_remove ::
  "cloudflare \<Rightarrow> acme_settings \<Rightarrow> string \<Rightarrow> challenge \<Rightarrow> string \<Rightarrow> tls_world \<Rightarrow> tls_world \<times> dns_change list" where
  "challenge_remove cf a identifier ch keyAuth w =
     (case ch of
        Http01 token \<Rightarrow>
          (w\<lparr>tw_manager := (tw_manager w)\<lparr>tm_challenges := map_delete token (tm_challenges (tw_manager w))\<rparr>\<rparr>, [])
      | Dns01 \<Rightarrow>
          (w, if handler_provider a = ''cloudflare''
              then (case remove_cloudflare cf (acme_record identifier) keyAuth of Inl _ \<Rightarrow> [] | Inr cs \<Rightarrow> cs)
              else []))"

definition challengeResponse :: "string \<Rightarrow> tls_manager \<Rightarrow> string option" where
  "challengeResponse token m =
     (case map_get (tm_challenges m) token of None \<Rightarrow> None | Some v \<Rightarrow> if v = [] then None else Some v)"

definition continueManual :: "tls_world \<Rightarrow> tls_world \<times> bool" where
  "continueManual w = (case continue_manual (tw_manual w) of (m, b) \<Rightarrow> (w\<lparr>tw_manual := m\<rparr>, b))"

subsection \<open>Certificates of custom domains\<close>

text \<open>A certificate the authority issued: key, chain and expiry.\<close>

record issued_certificate =
  ic_key :: string
  ic_chain :: string
  ic_notAfter :: time

definition issue_begin :: "tls_config \<Rightarrow> string \<Rightarrow> tls_world \<Rightarrow> tls_world \<times> unit result" where
  "issue_begin c hostname w =
     (let m = tw_manager w
      in if hostname \<in> set (tm_issuing m)
         then (w, Inl (Err [] (''A certificate request for '' @ hostname @ '' is already running'')))
         else if \<not> tc_managesTls c
         then (w, Inl (Err [] ''tunlit does not manage certificates on this server''))
         else (w\<lparr>tw_manager := m\<lparr>tm_issuing := tm_issuing m @ [hostname]\<rparr>\<rparr>, Inr ()))"

text \<open>With the chain: first the row is stored, then the context is put to use, and the name is
  free for another request; without it the name is freed.\<close>

definition issue_store :: "time \<Rightarrow> string \<Rightarrow> issued_certificate \<Rightarrow> tls_world \<Rightarrow> tls_world" where
  "issue_store now hostname i w =
     w\<lparr>tw_store := saveCertificate now hostname [hostname] (ic_key i) (ic_chain i) (ic_notAfter i) (tw_store w)\<rparr>"

definition free_name :: "string \<Rightarrow> tls_manager \<Rightarrow> tls_manager" where
  "free_name hostname m = m\<lparr>tm_issuing := filter (\<lambda>h. h \<noteq> hostname) (tm_issuing m)\<rparr>"

definition issue_end :: "string \<Rightarrow> issued_certificate \<Rightarrow> tls_world \<Rightarrow> tls_world" where
  "issue_end hostname i w =
     w\<lparr>tw_manager := free_name hostname (set_extra hostname ((ic_key i, ic_chain i), ic_notAfter i) (tw_manager w))\<rparr>"

definition issue_failed :: "string \<Rightarrow> tls_world \<Rightarrow> tls_world" where
  "issue_failed hostname w = w\<lparr>tw_manager := free_name hostname (tw_manager w)\<rparr>"

text \<open>forget: the context goes at once, the row after the database has answered.\<close>

definition forget_context :: "string \<Rightarrow> tls_world \<Rightarrow> tls_world" where
  "forget_context hostname w =
     w\<lparr>tw_manager := (tw_manager w)\<lparr>tm_extra := map_delete hostname (tm_extra (tw_manager w))\<rparr>\<rparr>"

definition forget_row :: "string \<Rightarrow> tls_world \<Rightarrow> tls_world" where
  "forget_row hostname w = w\<lparr>tw_store := forgetCertificate hostname (tw_store w)\<rparr>"

subsection \<open>The base certificate\<close>

definition request_check :: "tls_config \<Rightarrow> tls_world \<Rightarrow> unit reply" where
  "request_check c w =
     (if tm_busy (tw_manager w) then Refuse 409 ''A certificate request is already running''
      else if \<not> tc_ready c then Refuse 400 ''Set the base domain first'' else Reply ())"

text \<open>After client(): the settings are checked and run begins.\<close>

definition request_start :: "tls_config \<Rightarrow> time \<Rightarrow> acme_settings \<Rightarrow> tls_world \<Rightarrow> tls_world \<times> tls_status reply" where
  "request_start c now a w =
     (if tc_wildcard c \<and> ac_provider a = ''http''
      then (w, Refuse 400 ''Subdomain forwarding needs a wildcard certificate, which requires a DNS provider'')
      else (case get_provider (ac_provider a) of
              None \<Rightarrow> (w, Refuse 400 (''Unknown DNS provider '' @ CHR 0x22 # ac_provider a @ [CHR 0x22]))
            | Some p \<Rightarrow>
                if dp_needsCredential p \<and> (case ac_credential a of None \<Rightarrow> True | Some t \<Rightarrow> t = [])
                then (w, Refuse 400 (dp_title p @ '' needs an API token''))
                else (let w' = w\<lparr>tw_manager := (tw_manager w)\<lparr>tm_busy := True, tm_state := ''requesting'', tm_error := None\<rparr>\<rparr>
                      in (w', Reply (status c now w')))))"

text \<open>The names are those of the beginning of the run, the domain is that of its end.\<close>

definition run_store :: "tls_config \<Rightarrow> time \<Rightarrow> string list \<Rightarrow> issued_certificate \<Rightarrow> tls_world \<Rightarrow> tls_world" where
  "run_store c now altNames i w =
     w\<lparr>tw_store := saveCertificate now (tc_baseDomain c) altNames (ic_key i) (ic_chain i) (ic_notAfter i) (tw_store w)\<rparr>"

text \<open>After the row is stored: waiting challenges are cancelled, the certificate is loaded.\<close>

definition run_end :: "tls_config \<Rightarrow> time \<Rightarrow> tls_world \<Rightarrow> tls_world" where
  "run_end c now w =
     (let w' = load_certificate c now (w\<lparr>tw_manual := reset_manual (tw_manual w)\<rparr>)
      in w'\<lparr>tw_manager := (tw_manager w')\<lparr>tm_busy := False\<rparr>\<rparr>)"

definition run_failed :: "string \<Rightarrow> tls_world \<Rightarrow> tls_world" where
  "run_failed message w =
     (let m = tw_manager w
      in w\<lparr>tw_manager := m\<lparr>tm_error := Some message,
             tm_state := (if tm_current m \<noteq> None then ''ready'' else ''error''), tm_busy := False\<rparr>,
           tw_manual := reset_manual (tw_manual w)\<rparr>)"

definition start_manager :: "tls_manager \<Rightarrow> tls_manager" where
  "start_manager m = m\<lparr>tm_timer := True\<rparr>"

definition stop_manager :: "tls_manager \<Rightarrow> tls_manager" where
  "stop_manager m = m\<lparr>tm_timer := False\<rparr>"

text \<open>maybeRenew: the base certificate when it is due and no request is running, then every
  custom name in turn, each with its own clock and the answer of the authority for it.\<close>

definition issue_all :: "tls_config \<Rightarrow> time \<Rightarrow> string \<Rightarrow> issued_certificate option \<Rightarrow> tls_world \<Rightarrow> tls_world" where
  "issue_all c now hostname answer w =
     (case issue_begin c hostname w of
        (w', Inl _) \<Rightarrow> w'
      | (w', Inr _) \<Rightarrow>
          (case answer of
             None \<Rightarrow> issue_failed hostname w'
           | Some i \<Rightarrow> issue_end hostname i (issue_store now hostname i w')))"

fun renew_each ::
  "tls_config \<Rightarrow> (string \<Rightarrow> time) \<Rightarrow> (string \<Rightarrow> issued_certificate option) \<Rightarrow> string list \<Rightarrow> tls_world \<Rightarrow> tls_world" where
  "renew_each c clock answers [] w = w"
| "renew_each c clock answers (h # hs) w =
     renew_each c clock answers hs
       (if dueFor (clock h) h (tw_manager w) then issue_all c (clock h) h (answers h) w else w)"

definition renew_base :: "tls_config \<Rightarrow> time \<Rightarrow> string \<Rightarrow> tls_world \<Rightarrow> tls_world \<times> tls_status reply option" where
  "renew_base c now generated w =
     (if \<not> tm_busy (tw_manager w) \<and> dueForRenewal c now (tw_manager w)
      then (case request_check c w of
              Reply _ \<Rightarrow>
                (case acme_client generated w of
                   (w', a, _) \<Rightarrow> (case request_start c now a w' of (w'', r) \<Rightarrow> (w'', Some r)))
            | Refuse n m \<Rightarrow> (w, Some (Refuse n m)) | Throw e \<Rightarrow> (w, Some (Throw e)))
      else (w, None))"

definition maybeRenew ::
  "tls_config \<Rightarrow> time \<Rightarrow> string \<Rightarrow> (string \<Rightarrow> time) \<Rightarrow> (string \<Rightarrow> issued_certificate option) \<Rightarrow> tls_world \<Rightarrow> tls_world" where
  "maybeRenew c now generated clock answers w =
     (if \<not> tc_managesTls c \<or> \<not> tc_ready c then w
      else (let w' = fst (renew_base c now generated w)
            in renew_each c clock answers (map fst (tm_extra (tw_manager w'))) w'))"

subsection \<open>routes/tls.js\<close>

definition describe_acme :: "acme_settings \<Rightarrow> string option \<times> string \<times> bool" where
  "describe_acme a =
     (ac_email a, ac_provider a, case ac_credential a of None \<Rightarrow> False | Some t \<Rightarrow> t \<noteq> [])"

text \<open>The regular expression \<open>^[^@\s]+@[^@\s]+\.[^@\s]+$\<close>.\<close>

definition email_like :: "string \<Rightarrow> bool" where
  "email_like s \<longleftrightarrow> list_all (\<lambda>c. \<not> is_space c) s \<and>
     (case split_on CHR ''@'' s of
        [name, host] \<Rightarrow> name \<noteq> [] \<and> length host \<ge> 3 \<and> CHR ''.'' \<in> set (butlast (tl host))
      | _ \<Rightarrow> False)"

definition text_change :: "jsval \<Rightarrow> string option" where
  "text_change v = (let t = trim (string_or v []) in if t = [] then None else Some t)"

definition tls_put :: "jsval \<Rightarrow> tls_store \<Rightarrow> tls_store \<times> (string option \<times> string \<times> bool) reply" where
  "tls_put body st =
     (let email = js_get body ''email''; provider = js_get body ''provider''; credential = js_get body ''credential'';
          trimmed = trim (string_or email [])
      in if email \<noteq> JUndef \<and> trimmed \<noteq> [] \<and> \<not> email_like trimmed
         then (st, Refuse 400 ''That does not look like an email address'')
         else if provider \<noteq> JUndef \<and> get_provider (js_string provider) = None
         then (st, Refuse 400 (''Unknown DNS provider '' @ CHR 0x22 # js_string provider @ [CHR 0x22]))
         else if email = JUndef \<and> provider = JUndef \<and> credential = JUndef
         then (st, Refuse 400 ''Nothing to change'')
         else if (case provider of JArr _ \<Rightarrow> True | _ \<Rightarrow> False)
         then (st, Throw (Err ''SequelizeValidationError'' ''string violation: provider cannot be an array or an object''))
         else (let st' = saveSettings
                     \<lparr>ch_email = (if email = JUndef then None else Some (text_change email)),
                      ch_provider = (if provider = JUndef then None else Some (js_string provider)),
                      ch_credential = (if credential = JUndef then None else Some (text_change credential)),
                      ch_accountKey = None\<rparr> st
               in (st', Reply (describe_acme (acme_settings_of st')))))"

definition tls_verify :: "cloudflare \<Rightarrow> tls_config \<Rightarrow> tls_store \<Rightarrow> string reply" where
  "tls_verify cf c st =
     (let a = acme_settings_of st
      in case get_provider (ac_provider a) of
           None \<Rightarrow> Refuse 400 ''This provider has nothing to verify''
         | Some p \<Rightarrow>
             if \<not> dp_verifies p then Refuse 400 ''This provider has nothing to verify''
             else (case ac_credential a of
                     None \<Rightarrow> Refuse 400 (dp_title p @ '' needs an API token'')
                   | Some t \<Rightarrow>
                       if t = [] then Refuse 400 (dp_title p @ '' needs an API token'')
                       else (case verify_cloudflare cf (tc_baseDomain c) of
                               Inl e \<Rightarrow> Refuse 502 (err_message e) | Inr m \<Rightarrow> Reply m)))"

definition tls_continue :: "tls_world \<Rightarrow> tls_world \<times> string reply" where
  "tls_continue w =
     (case continueManual w of
        (w', True) \<Rightarrow> (w', Reply ''Checking the record'')
      | (w', False) \<Rightarrow> (w', Refuse 409 ''Nothing is waiting for a DNS record right now''))"

subsection \<open>The manager at work\<close>

text \<open>
  The manager with the handlers that are under way: requests past their check, runs with their
  names, runs that stored their row, requests for custom names before and after their row is
  stored, names being forgotten; and the log of what the authority issued for which name. The
  configuration may change between any two steps.
\<close>

record tls_system =
  sy_world :: tls_world
  sy_asking :: nat
  sy_runs :: "string list list"
  sy_loaded :: nat
  sy_jobs :: "string list"
  sy_stored :: "(string \<times> issued_certificate) list"
  sy_log :: "(string \<times> secure_context) list"

definition context_of :: "issued_certificate \<Rightarrow> secure_context" where
  "context_of i = (ic_key i, ic_chain i)"

definition row_context :: "tls_row \<Rightarrow> string \<times> secure_context" where
  "row_context r = (x_domain r, (x_privateKey r, x_chain r))"

abbreviation on_world :: "(tls_world \<Rightarrow> tls_world) \<Rightarrow> tls_system \<Rightarrow> tls_system" where
  "on_world f s \<equiv> s\<lparr>sy_world := f (sy_world s)\<rparr>"

definition empty_manual :: manual where
  "empty_manual = \<lparr>mp_pending = [], mp_settled = [], mp_next = 0\<rparr>"

inductive tls_reach :: "tls_system \<Rightarrow> bool" where
  boot: "distinct (map x_domain (ts_certs st)) \<Longrightarrow>
    tls_reach \<lparr>sy_world = \<lparr>tw_manager = new_manager, tw_store = st, tw_manual = empty_manual\<rparr>, sy_asking = 0,
               sy_runs = [], sy_loaded = 0, sy_jobs = [], sy_stored = [], sy_log = map row_context (ts_certs st)\<rparr>"
| loads: "tls_reach s \<Longrightarrow> tls_reach (on_world (load_certificate c now) s)"
| loads_extra: "tls_reach s \<Longrightarrow> tls_reach (on_world (loadExtra c) s)"
| job_begin: "tls_reach s \<Longrightarrow> issue_begin c h (sy_world s) = (w, Inr ()) \<Longrightarrow>
    tls_reach (s\<lparr>sy_world := w, sy_jobs := h # sy_jobs s\<rparr>)"
| job_store: "tls_reach s \<Longrightarrow> h \<in> set (sy_jobs s) \<Longrightarrow>
    tls_reach (s\<lparr>sy_world := issue_store now h i (sy_world s), sy_jobs := remove1 h (sy_jobs s),
                sy_stored := (h, i) # sy_stored s, sy_log := (h, context_of i) # sy_log s\<rparr>)"
| job_end: "tls_reach s \<Longrightarrow> (h, i) \<in> set (sy_stored s) \<Longrightarrow>
    tls_reach (s\<lparr>sy_world := issue_end h i (sy_world s), sy_stored := remove1 (h, i) (sy_stored s)\<rparr>)"
| job_fails: "tls_reach s \<Longrightarrow> h \<in> set (sy_jobs s) \<Longrightarrow>
    tls_reach (s\<lparr>sy_world := issue_failed h (sy_world s), sy_jobs := remove1 h (sy_jobs s)\<rparr>)"
| job_fails_late: "tls_reach s \<Longrightarrow> (h, i) \<in> set (sy_stored s) \<Longrightarrow>
    tls_reach (s\<lparr>sy_world := issue_failed h (sy_world s), sy_stored := remove1 (h, i) (sy_stored s)\<rparr>)"
| forgets: "tls_reach s \<Longrightarrow> tls_reach (on_world (forget_context h) s)"
| forgets_row: "tls_reach s \<Longrightarrow> tls_reach (on_world (forget_row h) s)"
| asks: "tls_reach s \<Longrightarrow> request_check c (sy_world s) = Reply () \<Longrightarrow> tls_reach (s\<lparr>sy_asking := sy_asking s + 1\<rparr>)"
| client: "tls_reach s \<Longrightarrow> tls_reach (on_world (\<lambda>w. fst (acme_client generated w)) s)"
| starts: "tls_reach s \<Longrightarrow> 0 < sy_asking s \<Longrightarrow> request_start c now a (sy_world s) = (w, r) \<Longrightarrow>
    tls_reach (s\<lparr>sy_world := w, sy_asking := sy_asking s - 1,
                sy_runs := (case r of Reply _ \<Rightarrow> [domainsFor c] | _ \<Rightarrow> []) @ sy_runs s\<rparr>)"
| run_stores: "tls_reach s \<Longrightarrow> names \<in> set (sy_runs s) \<Longrightarrow>
    tls_reach (s\<lparr>sy_world := run_store c now names i (sy_world s), sy_runs := remove1 names (sy_runs s),
                sy_loaded := sy_loaded s + 1, sy_log := (tc_baseDomain c, context_of i) # sy_log s\<rparr>)"
| run_ends: "tls_reach s \<Longrightarrow> 0 < sy_loaded s \<Longrightarrow>
    tls_reach (s\<lparr>sy_world := run_end c now (sy_world s), sy_loaded := sy_loaded s - 1\<rparr>)"
| run_fails: "tls_reach s \<Longrightarrow> names \<in> set (sy_runs s) \<Longrightarrow>
    tls_reach (s\<lparr>sy_world := run_failed message (sy_world s), sy_runs := remove1 names (sy_runs s)\<rparr>)"
| challenged: "tls_reach s \<Longrightarrow> tls_reach (on_world (\<lambda>w. fst (challenge_create cf a name ch auth w)) s)"
| unchallenged: "tls_reach s \<Longrightarrow> tls_reach (on_world (\<lambda>w. fst (challenge_remove cf a name ch auth w)) s)"
| continues: "tls_reach s \<Longrightarrow> tls_reach (on_world (\<lambda>w. fst (continueManual w)) s)"
| times_out: "tls_reach s \<Longrightarrow> tls_reach (on_world (\<lambda>w. w\<lparr>tw_manual := timeout_manual key (tw_manual w)\<rparr>) s)"
| settings: "tls_reach s \<Longrightarrow> tls_reach (on_world (\<lambda>w. w\<lparr>tw_store := fst (tls_put body (tw_store w))\<rparr>) s)"

definition manual_ok :: "manual \<Rightarrow> bool" where
  "manual_ok m \<longleftrightarrow>
     wf_map (mp_pending m) \<and> distinct (map fst (mp_settled m) @ map (me_promise \<circ> snd) (mp_pending m)) \<and>
     list_all (\<lambda>n. n < mp_next m) (map fst (mp_settled m) @ map (me_promise \<circ> snd) (mp_pending m))"

definition jobs_ok :: "tls_system \<Rightarrow> bool" where
  "jobs_ok s \<longleftrightarrow> distinct (sy_jobs s @ map fst (sy_stored s)) \<and>
     set (tm_issuing (tw_manager (sy_world s))) = set (sy_jobs s @ map fst (sy_stored s))"

definition store_ok :: "(string \<times> secure_context) list \<Rightarrow> tls_store \<Rightarrow> bool" where
  "store_ok log st \<longleftrightarrow> distinct (map x_domain (ts_certs st)) \<and> (\<forall>r \<in> set (ts_certs st). row_context r \<in> set log)"

definition contexts_ok :: "(string \<times> secure_context) list \<Rightarrow> tls_manager \<Rightarrow> bool" where
  "contexts_ok log m \<longleftrightarrow> wf_map (tm_extra m) \<and>
     (\<forall>h ctx t. map_get (tm_extra m) h = Some (ctx, t) \<longrightarrow> (h, ctx) \<in> set log) \<and>
     (\<forall>ctx. tm_context m = Some ctx \<longrightarrow> (\<exists>cur. tm_current m = Some cur \<and> (cc_domain cur, ctx) \<in> set log))"

definition tls_inv :: "tls_system \<Rightarrow> bool" where
  "tls_inv s \<longleftrightarrow> jobs_ok s \<and> store_ok (sy_log s) (tw_store (sy_world s)) \<and>
     contexts_ok (sy_log s) (tw_manager (sy_world s)) \<and> manual_ok (tw_manual (sy_world s)) \<and>
     (\<forall>(h, i) \<in> set (sy_stored s). (h, context_of i) \<in> set (sy_log s))"

subsection \<open>Promises of the manual provider\<close>

lemma map_delete_split:
  assumes "wf_map m" "map_get m k = Some e"
  obtains xs ys where "m = xs @ (k, e) # ys" "map_delete k m = xs @ ys"
proof -
  obtain xs ys where m: "m = xs @ (k, e) # ys" using assms(2) by (metis map_of_SomeD split_list)
  then have "k \<notin> fst ` set xs" "k \<notin> fst ` set ys" using assms(1) by auto
  then have "map_delete k xs = xs" "map_delete k ys = ys" by (simp_all add: AList.delete_id)
  then have "map_delete k m = xs @ ys" by (simp add: m AList.delete_eq)
  with m show thesis by (rule that)
qed

lemma settle_manual_cases:
  assumes "manual_ok m"
  shows "manual_ok (settle_manual k out m)" "mp_pending (settle_manual k out m) = map_delete k (mp_pending m)"
proof -
  have "manual_ok (settle_manual k out m) \<and> mp_pending (settle_manual k out m) = map_delete k (mp_pending m)"
  proof (cases "map_get (mp_pending m) k")
    case None
    then have "map_delete k (mp_pending m) = mp_pending m" by (simp add: AList.delete_id map_of_eq_None_iff)
    then show ?thesis using None assms by (simp add: settle_manual_def)
  next
    case (Some e)
    have wf: "wf_map (mp_pending m)" using assms by (simp add: manual_ok_def)
    obtain xs ys where ps: "mp_pending m = xs @ (k, e) # ys" and d: "map_delete k (mp_pending m) = xs @ ys"
      using map_delete_split [OF wf Some] by blast
    have "wf_map (xs @ ys)" using wf_map_delete [OF wf, of k] d by simp
    then show ?thesis using assms Some ps d by (auto simp: settle_manual_def manual_ok_def)
  qed
  then show "manual_ok (settle_manual k out m)" "mp_pending (settle_manual k out m) = map_delete k (mp_pending m)"
    by blast+
qed

lemma settle_each:
  "manual_ok m \<Longrightarrow> manual_ok (fold (\<lambda>k. settle_manual k out) ks m) \<and>
     mp_pending (fold (\<lambda>k. settle_manual k out) ks m) = filter (\<lambda>(k, _). k \<notin> set ks) (mp_pending m)"
proof (induction ks arbitrary: m)
  case Nil
  then show ?case by simp
next
  case (Cons k ks)
  note s = settle_manual_cases [OF Cons.prems, of k out]
  have "filter (\<lambda>(k', _). k' \<notin> set ks) (map_delete k (mp_pending m)) = filter (\<lambda>(k', _). k' \<notin> set (k # ks)) (mp_pending m)"
    by (auto simp: AList.delete_eq intro!: filter_cong)
  then show ?case using Cons.IH [OF s(1)] s(2) by simp
qed

lemma promises_set:
  "distinct (map (g \<circ> snd) xs) \<Longrightarrow> g v \<notin> (g \<circ> snd) ` set xs \<Longrightarrow> distinct (map (g \<circ> snd) (map_set k v xs))"
proof (induction xs)
  case Nil
  then show ?case by simp
next
  case (Cons x xs)
  obtain k' v' where x: "x = (k', v')" by (cases x)
  have "g v' \<notin> (g \<circ> snd) ` set (map_set k v xs)" if "k' \<noteq> k"
  proof
    assume "g v' \<in> (g \<circ> snd) ` set (map_set k v xs)"
    then obtain a where "a \<in> set (map_set k v xs)" "g (snd a) = g v'" by auto
    then have "g v = g v' \<or> g v' \<in> (g \<circ> snd) ` set xs"
      using set_map_set_subset [of k v xs] by (metis comp_apply image_eqI insertE snd_conv subsetD)
    then show False using Cons.prems x by auto
  qed
  then show ?case using Cons x by auto
qed

lemma create_manual_ok:
  assumes "manual_ok m"
  shows "manual_ok (create_manual r v m)"
proof -
  let ?e = "\<lparr>me_promise = mp_next m, me_record = r, me_value = v\<rparr>" and ?p = "mp_pending m"
  let ?q = "map_set (manual_key r v) ?e ?p"
  have lt: "n \<in> set (map fst (mp_settled m) @ map (me_promise \<circ> snd) ?p) \<Longrightarrow> n < mp_next m" for n
    using assms unfolding manual_ok_def list_all_iff by blast
  then have new: "me_promise ?e \<notin> (me_promise \<circ> snd) ` set ?p" "mp_next m \<notin> fst ` set (mp_settled m)"
    using lt [of "mp_next m"] by auto
  have im: "(me_promise \<circ> snd) ` set ?q \<subseteq> insert (mp_next m) ((me_promise \<circ> snd) ` set ?p)"
    using set_map_set_subset [of "manual_key r v" ?e ?p] by force
  have d: "distinct (map (me_promise \<circ> snd) ?q)"
    using assms promises_set [OF _ new(1)] by (simp add: manual_ok_def)
  have dis: "set (map fst (mp_settled m)) \<inter> set (map (me_promise \<circ> snd) ?q) = {}"
  proof -
    have "set (map fst (mp_settled m)) \<inter> set (map (me_promise \<circ> snd) ?p) = {}"
      using assms unfolding manual_ok_def distinct_append by blast
    moreover have "A \<inter> B = {} \<Longrightarrow> Q \<subseteq> insert n B \<Longrightarrow> n \<notin> A \<Longrightarrow> A \<inter> Q = {}" for A B Q :: "nat set" and n
      by blast
    ultimately show ?thesis using im new(2) unfolding set_map by meson
  qed
  have "n < Suc (mp_next m)" if n: "n \<in> set (map fst (mp_settled m) @ map (me_promise \<circ> snd) ?q)" for n
  proof -
    have "n = mp_next m \<or> n \<in> set (map fst (mp_settled m) @ map (me_promise \<circ> snd) ?p)"
      using n im unfolding set_append set_map by blast
    then show ?thesis using lt [of n] less_Suc_eq by blast
  qed
  then have b: "list_all (\<lambda>n. n < Suc (mp_next m)) (map fst (mp_settled m) @ map (me_promise \<circ> snd) ?q)"
    unfolding list_all_iff by blast
  have s: "distinct (map fst (mp_settled m))" "wf_map ?q" using assms by (simp_all add: manual_ok_def wf_map_set)
  have eq: "mp_pending (create_manual r v m) = ?q" "mp_settled (create_manual r v m) = mp_settled m"
    "mp_next (create_manual r v m) = Suc (mp_next m)" by (simp_all add: create_manual_def)
  show ?thesis unfolding manual_ok_def eq distinct_append using d dis b s by blast
qed

lemma continue_manual_spec:
  assumes "manual_ok m"
  shows "manual_ok (fst (continue_manual m))" "mp_pending (fst (continue_manual m)) = []"
  using settle_each [OF assms, of None "map fst (mp_pending m)"]
  by (auto simp: continue_manual_def Let_def filter_empty_conv image_iff)

lemma reset_manual_spec:
  assumes "manual_ok m"
  shows "manual_ok (reset_manual m)" "mp_pending (reset_manual m) = []"
  using settle_each [OF assms, of "Some ''Cancelled''" "map fst (mp_pending m)"]
  by (auto simp: reset_manual_def filter_empty_conv image_iff)

subsection \<open>Rows, contexts and requests\<close>

lemma certificate_None: "certificate d st = None \<longleftrightarrow> d \<notin> x_domain ` set (ts_certs st)"
  by (auto simp: certificate_def find_None_iff)

lemma saveCertificate_ok:
  assumes "store_ok log st" "(d, (key, chain)) \<in> set log"
  shows "store_ok log (saveCertificate now d names key chain expires st)"
proof (cases "certificate d st")
  case None
  then show ?thesis using assms
    by (auto simp: store_ok_def saveCertificate_def Let_def certificate_None row_context_def)
next
  case (Some r)
  let ?row = "\<lparr>x_domain = d, x_altNames = names, x_privateKey = key, x_chain = chain, x_issuedAt = now, x_expiresAt = expires\<rparr>"
  let ?f = "\<lambda>r. if x_domain r = d then ?row else r"
  have "x_domain \<circ> ?f = x_domain" by (rule ext) simp
  then have "map x_domain (map ?f (ts_certs st)) = map x_domain (ts_certs st)" by simp
  then show ?thesis using assms Some
    by (auto simp: store_ok_def saveCertificate_def Let_def row_context_def simp del: map_map)
qed

lemma store_ok_mono: "store_ok log st \<Longrightarrow> store_ok (e # log) st"
  by (auto simp: store_ok_def)

lemma contexts_ok_mono: "contexts_ok log m \<Longrightarrow> contexts_ok (e # log) m"
  unfolding contexts_ok_def by (metis list.set_intros(2))

lemma certificate_SomeD: "certificate d st = Some r \<Longrightarrow> r \<in> set (ts_certs st) \<and> x_domain r = d"
  by (auto simp: certificate_def find_Some_iff)

lemma load_certificate_frame [simp]:
  "tw_store (load_certificate c now w) = tw_store w" "tw_manual (load_certificate c now w) = tw_manual w"
  "tm_issuing (tw_manager (load_certificate c now w)) = tm_issuing (tw_manager w)"
  by (auto simp: load_certificate_def split: option.splits)

lemma load_certificate_contexts:
  assumes "store_ok log (tw_store w)" "contexts_ok log (tw_manager w)"
  shows "contexts_ok log (tw_manager (load_certificate c now w))"
  using assms
  by (auto simp: load_certificate_def contexts_ok_def store_ok_def row_context_def split: option.splits dest!: certificate_SomeD)

lemma set_extra_contexts:
  "contexts_ok log m \<Longrightarrow> (h, ctx) \<in> set log \<Longrightarrow> contexts_ok log (set_extra h (ctx, t) m)"
  by (auto simp: contexts_ok_def set_extra_def wf_map_set)

lemma loadExtra_contexts:
  assumes "store_ok log (tw_store w)" "contexts_ok log (tw_manager w)"
  shows "contexts_ok log (tw_manager (loadExtra c w))"
proof -
  let ?put = "\<lambda>row. set_extra (x_domain row) ((x_privateKey row, x_chain row), x_expiresAt row)"
  have "contexts_ok log m \<Longrightarrow> \<forall>r \<in> set rows. row_context r \<in> set log \<Longrightarrow> contexts_ok log (fold ?put rows m)" for rows m
    by (induction rows arbitrary: m) (auto simp: row_context_def set_extra_contexts)
  moreover have "contexts_ok log ((tw_manager w)\<lparr>tm_extra := []\<rparr>)" using assms(2) by (simp add: contexts_ok_def)
  ultimately show ?thesis using assms(1) by (simp add: loadExtra_def store_ok_def)
qed

lemma fold_set_extra_issuing:
  "tm_issuing (fold (\<lambda>row. set_extra (f row) (g row)) rows m) = tm_issuing m"
  by (induction rows arbitrary: m) (simp_all add: set_extra_def)

lemma loadExtra_frame [simp]:
  "tw_store (loadExtra c w) = tw_store w" "tw_manual (loadExtra c w) = tw_manual w"
  "tm_issuing (tw_manager (loadExtra c w)) = tm_issuing (tw_manager w)"
  by (simp_all add: loadExtra_def fold_set_extra_issuing)

lemma contexts_ok_cong:
  "tm_extra m' = tm_extra m \<Longrightarrow> tm_context m' = tm_context m \<Longrightarrow> tm_current m' = tm_current m \<Longrightarrow>
   contexts_ok log m' = contexts_ok log m"
  by (simp add: contexts_ok_def)

lemma store_ok_cong: "ts_certs st' = ts_certs st \<Longrightarrow> store_ok log st' = store_ok log st"
  by (simp add: store_ok_def)

text \<open>Steps that keep the requests under way, the rows and the contexts.\<close>

definition quiet :: "tls_world \<Rightarrow> tls_world \<Rightarrow> bool" where
  "quiet w w' \<longleftrightarrow> tm_issuing (tw_manager w') = tm_issuing (tw_manager w) \<and> ts_certs (tw_store w') = ts_certs (tw_store w) \<and>
     tm_extra (tw_manager w') = tm_extra (tw_manager w) \<and> tm_context (tw_manager w') = tm_context (tw_manager w) \<and>
     tm_current (tw_manager w') = tm_current (tw_manager w) \<and> (manual_ok (tw_manual w) \<longrightarrow> manual_ok (tw_manual w'))"

lemma quiet_inv:
  assumes "tls_inv s" "quiet (sy_world s) w"
    "sy_jobs s' = sy_jobs s" "sy_stored s' = sy_stored s" "sy_log s' = sy_log s" "sy_world s' = w"
  shows "tls_inv s'"
  using assms unfolding tls_inv_def quiet_def jobs_ok_def
  using contexts_ok_cong [of "tw_manager w" "tw_manager (sy_world s)"] store_ok_cong [of "tw_store w" "tw_store (sy_world s)"]
  by simp

lemma quiet_steps:
  "quiet w (fst (acme_client generated w))" "quiet w (fst (request_start c now a w))"
  "quiet w (fst (challenge_create cf a name ch auth w))" "quiet w (fst (challenge_remove cf a name ch auth w))"
  "quiet w (fst (continueManual w))" "quiet w (w\<lparr>tw_manual := timeout_manual key (tw_manual w)\<rparr>)"
  "quiet w (w\<lparr>tw_store := fst (tls_put body (tw_store w))\<rparr>)" "quiet w (run_failed message w)"
  by (auto simp: quiet_def acme_client_def saveSettings_def Let_def request_start_def challenge_create_def challenge_remove_def
      create_manual_ok continueManual_def timeout_manual_def settle_manual_cases tls_put_def
      run_failed_def reset_manual_spec split: option.splits challenge.splits prod.splits)
    (metis continue_manual_spec(1) fst_conv)?

lemma distinct_remove1_jobs:
  "distinct (xs @ ys) \<Longrightarrow> h \<in> set xs \<Longrightarrow> distinct (remove1 h xs @ h # ys) \<and> set (remove1 h xs @ h # ys) = set (xs @ ys)"
  by (auto simp: distinct_remove1 dest: notin_set_remove1)

lemma free_name_issuing [simp]: "set (tm_issuing (free_name h m)) = set (tm_issuing m) - {h}"
  by (auto simp: free_name_def)

lemma free_name_contexts [simp]: "contexts_ok log (free_name h m) = contexts_ok log m"
  by (rule contexts_ok_cong) (simp_all add: free_name_def)

lemma set_extra_issuing [simp]: "tm_issuing (set_extra h e m) = tm_issuing m"
  by (simp add: set_extra_def)

lemma job_done:
  assumes "distinct (jobs @ map fst stored)" "(h, i) \<in> set stored"
  shows "distinct (jobs @ map fst (remove1 (h, i) stored)) \<and>
    set (jobs @ map fst (remove1 (h, i) stored)) = set (jobs @ map fst stored) - {h}"
proof -
  obtain xs ys where s: "stored = xs @ (h, i) # ys" "(h, i) \<notin> set xs" using assms(2) by (meson split_list_first)
  then have "remove1 (h, i) stored = xs @ ys" by (simp add: remove1_append)
  then show ?thesis using assms(1) s by auto
qed

lemma job_dropped:
  assumes "distinct (jobs @ rest)" "h \<in> set jobs"
  shows "distinct (remove1 h jobs @ rest) \<and> set (remove1 h jobs @ rest) = set (jobs @ rest) - {h}"
  using assms by (auto simp: distinct_remove1)

lemma tls_inv_boot:
  assumes "distinct (map x_domain (ts_certs st))"
  shows "tls_inv \<lparr>sy_world = \<lparr>tw_manager = new_manager, tw_store = st, tw_manual = empty_manual\<rparr>, sy_asking = 0,
     sy_runs = [], sy_loaded = 0, sy_jobs = [], sy_stored = [], sy_log = map row_context (ts_certs st)\<rparr>"
  using assms by (simp add: tls_inv_def jobs_ok_def store_ok_def contexts_ok_def manual_ok_def new_manager_def empty_manual_def)

lemma tls_reach_inv: "tls_reach s \<Longrightarrow> tls_inv s"
proof (induction rule: tls_reach.induct)
  case (boot st)
  then show ?case by (rule tls_inv_boot)
next
  case (loads s c now)
  then show ?case by (simp add: tls_inv_def jobs_ok_def load_certificate_contexts)
next
  case (loads_extra s c)
  then show ?case by (simp add: tls_inv_def jobs_ok_def loadExtra_contexts)
next
  case (job_begin s c h w)
  have "h \<notin> set (tm_issuing (tw_manager (sy_world s)))"
    "w = (sy_world s)\<lparr>tw_manager := (tw_manager (sy_world s))\<lparr>tm_issuing := tm_issuing (tw_manager (sy_world s)) @ [h]\<rparr>\<rparr>"
    using job_begin.hyps(2) by (auto simp: issue_begin_def Let_def split: if_splits)
  then show ?case using job_begin.IH
    by (simp add: tls_inv_def jobs_ok_def contexts_ok_def)
next
  case (job_store s h i now)
  have log: "(h, (ic_key i, ic_chain i)) \<in> set ((h, context_of i) # sy_log s)" by (simp add: context_of_def)
  have st: "store_ok ((h, context_of i) # sy_log s) (tw_store (issue_store now h i (sy_world s)))"
    using saveCertificate_ok [OF store_ok_mono log] job_store.IH by (simp add: tls_inv_def issue_store_def)
  have "jobs_ok s" using job_store.IH by (simp add: tls_inv_def)
  then have j: "distinct (remove1 h (sy_jobs s) @ h # map fst (sy_stored s)) \<and>
      set (remove1 h (sy_jobs s) @ h # map fst (sy_stored s)) = set (tm_issuing (tw_manager (sy_world s)))"
    using distinct_remove1_jobs [of "sy_jobs s" "map fst (sy_stored s)" h] job_store.hyps(2) by (simp add: jobs_ok_def)
  have m: "tw_manager (issue_store now h i w) = tw_manager w" "tw_manual (issue_store now h i w) = tw_manual w" for w
    by (simp_all add: issue_store_def)
  show ?case using job_store.IH st j m contexts_ok_mono by (auto simp: tls_inv_def jobs_ok_def)
next
  case (job_end s h i)
  have inv: "tls_inv s" by fact
  then have j: "distinct (sy_jobs s @ map fst (sy_stored s))" by (simp add: tls_inv_def jobs_ok_def)
  have "(h, context_of i) \<in> set (sy_log s)" using inv job_end.hyps(2) by (auto simp: tls_inv_def)
  then have "contexts_ok (sy_log s) (tw_manager (issue_end h i (sy_world s)))"
    using inv by (simp add: tls_inv_def issue_end_def set_extra_contexts context_of_def)
  moreover have "tw_store (issue_end h i w) = tw_store w" "tw_manual (issue_end h i w) = tw_manual w"
    "set (tm_issuing (tw_manager (issue_end h i w))) = set (tm_issuing (tw_manager w)) - {h}" for w
    by (simp_all add: issue_end_def)
  ultimately show ?case using inv job_done [OF j job_end.hyps(2)]
    by (auto simp: tls_inv_def jobs_ok_def dest!: set_remove1_subset [THEN subsetD])
next
  case (job_fails s h)
  have inv: "tls_inv s" by fact
  then have j: "distinct (sy_jobs s @ map fst (sy_stored s))" by (simp add: tls_inv_def jobs_ok_def)
  show ?case using inv job_dropped [OF j job_fails.hyps(2)] by (simp add: tls_inv_def jobs_ok_def issue_failed_def)
next
  case (job_fails_late s h i)
  have inv: "tls_inv s" by fact
  then have j: "distinct (sy_jobs s @ map fst (sy_stored s))" by (simp add: tls_inv_def jobs_ok_def)
  show ?case using inv job_done [OF j job_fails_late.hyps(2)]
    by (auto simp: tls_inv_def jobs_ok_def issue_failed_def dest!: set_remove1_subset [THEN subsetD])
next
  case (forgets s h)
  then show ?case by (auto simp: tls_inv_def jobs_ok_def forget_context_def contexts_ok_def wf_map_delete)
next
  case (forgets_row s h)
  then show ?case by (auto simp: tls_inv_def jobs_ok_def forget_row_def forgetCertificate_def store_ok_def distinct_map_filter)
next
  case (asks s c)
  then show ?case by (simp add: tls_inv_def jobs_ok_def)
next
  case (client s generated)
  show ?case by (rule quiet_inv [OF client.IH quiet_steps(1) [of _ generated]]) simp_all
next
  case (starts s c now a w r)
  show ?case by (rule quiet_inv [OF starts.IH quiet_steps(2) [of _ c now a]]) (simp_all add: starts.hyps(3))
next
  case (run_stores s names c i now)
  have log: "(tc_baseDomain c, (ic_key i, ic_chain i)) \<in> set ((tc_baseDomain c, context_of i) # sy_log s)"
    by (simp add: context_of_def)
  have st: "store_ok ((tc_baseDomain c, context_of i) # sy_log s) (tw_store (run_store c now names i (sy_world s)))"
    using saveCertificate_ok [OF store_ok_mono log] run_stores.IH by (simp add: tls_inv_def run_store_def)
  have m: "tw_manager (run_store c now names i w) = tw_manager w" "tw_manual (run_store c now names i w) = tw_manual w" for w
    by (simp_all add: run_store_def)
  show ?case using run_stores.IH st m contexts_ok_mono by (auto simp: tls_inv_def jobs_ok_def)
next
  case (run_ends s c now)
  let ?w = "load_certificate c now ((sy_world s)\<lparr>tw_manual := reset_manual (tw_manual (sy_world s))\<rparr>)"
  have "contexts_ok (sy_log s) (tw_manager ?w)"
    using run_ends.IH by (intro load_certificate_contexts) (simp_all add: tls_inv_def)
  then show ?case using run_ends.IH
    by (simp add: tls_inv_def jobs_ok_def run_end_def Let_def contexts_ok_def reset_manual_spec)
next
  case (run_fails s names message)
  show ?case by (rule quiet_inv [OF run_fails.IH quiet_steps(8) [of _ message]]) simp_all
next
  case (challenged s cf a name ch auth)
  show ?case by (rule quiet_inv [OF challenged.IH quiet_steps(3) [of _ cf a name ch auth]]) simp_all
next
  case (unchallenged s cf a name ch auth)
  show ?case by (rule quiet_inv [OF unchallenged.IH quiet_steps(4) [of _ cf a name ch auth]]) simp_all
next
  case (continues s)
  show ?case by (rule quiet_inv [OF continues.IH quiet_steps(5)]) simp_all
next
  case (times_out s key)
  show ?case by (rule quiet_inv [OF times_out.IH quiet_steps(6) [of _ key]]) simp_all
next
  case (settings s body)
  show ?case by (rule quiet_inv [OF settings.IH quiet_steps(7) [of _ body]]) simp_all
qed

text \<open>
  C34. Requests exclude each other per name, and challenges are answered once. However the
  handlers interleave, at most one certificate request is under way for a custom name; and every
  challenge that waits for the administrator is settled at most once: what was settled waits no
  longer, and each waiting one is a different promise.
\<close>

theorem issuing_exclusive:
  assumes "tls_reach s"
  shows "distinct (sy_jobs s @ map fst (sy_stored s)) \<and>
    distinct (map fst (mp_settled (tw_manual (sy_world s))) @
      map (me_promise \<circ> snd) (mp_pending (tw_manual (sy_world s))))"
  using tls_reach_inv [OF assms] by (simp add: tls_inv_def jobs_ok_def manual_ok_def)


subsection \<open>Renewal\<close>

definition fresh_answer :: "(string \<Rightarrow> time) \<Rightarrow> (string \<Rightarrow> issued_certificate option) \<Rightarrow> string \<Rightarrow> bool" where
  "fresh_answer clock answers h = (case answers h of None \<Rightarrow> False | Some i \<Rightarrow> ic_notAfter i - clock h \<ge> RENEW_BEFORE)"

lemma issue_all_extra:
  assumes "tc_managesTls c" "h \<notin> set (tm_issuing (tw_manager w))"
  shows "tm_extra (tw_manager (issue_all c now h a w)) =
      (case a of None \<Rightarrow> tm_extra (tw_manager w)
       | Some i \<Rightarrow> map_set h ((ic_key i, ic_chain i), ic_notAfter i) (tm_extra (tw_manager w)))"
    "set (tm_issuing (tw_manager (issue_all c now h a w))) = set (tm_issuing (tw_manager w))"
  using assms
  by (auto simp: issue_all_def issue_begin_def Let_def issue_failed_def free_name_def issue_end_def set_extra_def issue_store_def
      split: option.splits)

lemma renew_each_extra:
  assumes "tc_managesTls c" "distinct hs" "\<forall>h \<in> set hs. h \<notin> set (tm_issuing (tw_manager w))"
  shows "map_get (tm_extra (tw_manager (renew_each c clock answers hs w))) h =
    (if h \<in> set hs \<and> dueFor (clock h) h (tw_manager w) \<and> answers h \<noteq> None
     then map_option (\<lambda>i. ((ic_key i, ic_chain i), ic_notAfter i)) (answers h)
     else map_get (tm_extra (tw_manager w)) h)"
  using assms(2,3)
proof (induction hs arbitrary: w)
  case Nil
  then show ?case by simp
next
  case (Cons g hs)
  let ?w = "if dueFor (clock g) g (tw_manager w) then issue_all c (clock g) g (answers g) w else w"
  have free: "g \<notin> set (tm_issuing (tw_manager w))" using Cons.prems by simp
  note e = issue_all_extra [OF assms(1) free, of "clock g" "answers g"]
  have other: "h' \<noteq> g \<Longrightarrow> map_get (tm_extra (tw_manager ?w)) h' = map_get (tm_extra (tw_manager w)) h'" for h'
    by (auto simp: e(1) split: option.splits)
  then have due: "h \<noteq> g \<Longrightarrow> dueFor (clock h) h (tw_manager ?w) = dueFor (clock h) h (tw_manager w)"
    by (simp add: dueFor_def)
  have "\<forall>h \<in> set hs. h \<notin> set (tm_issuing (tw_manager ?w))" using Cons.prems e(2) by auto
  then have IH: "map_get (tm_extra (tw_manager (renew_each c clock answers hs ?w))) h =
    (if h \<in> set hs \<and> dueFor (clock h) h (tw_manager ?w) \<and> answers h \<noteq> None
     then map_option (\<lambda>i. ((ic_key i, ic_chain i), ic_notAfter i)) (answers h)
     else map_get (tm_extra (tw_manager ?w)) h)" using Cons.IH [of ?w] Cons.prems by simp
  show ?case
  proof (cases "h = g")
    case True
    then show ?thesis using IH Cons.prems e(1) by (auto split: option.splits)
  next
    case False
    then show ?thesis using IH other [OF False] due by (cases "answers h") simp_all
  qed
qed

text \<open>
  The periodic check renews what is due and nothing else. While the server manages
  certificates, no request for a custom name is under way and the authority answers with
  certificates of more than 30 days, after the check no custom certificate is due; one that was
  not due is untouched, and one that was due is replaced by the answer for its name.
\<close>

theorem renewal_leaves_nothing_due:
  assumes "tc_managesTls c" "tc_ready c" "wf_map (tm_extra (tw_manager w))"
    "\<forall>h \<in> fst ` set (tm_extra (tw_manager w)). h \<notin> set (tm_issuing (tw_manager w)) \<and>
       (dueFor (clock h) h (tw_manager w) \<longrightarrow> fresh_answer clock answers h)"
    "h \<in> fst ` set (tm_extra (tw_manager w))"
  shows "\<not> dueFor (clock h) h (tw_manager (maybeRenew c now generated clock answers w)) \<and>
    map_get (tm_extra (tw_manager (maybeRenew c now generated clock answers w))) h =
      (if dueFor (clock h) h (tw_manager w)
       then map_option (\<lambda>i. ((ic_key i, ic_chain i), ic_notAfter i)) (answers h)
       else map_get (tm_extra (tw_manager w)) h)"
proof -
  let ?w = "fst (renew_base c now generated w)"
  have q: "tm_extra (tw_manager ?w) = tm_extra (tw_manager w)" "tm_issuing (tw_manager ?w) = tm_issuing (tw_manager w)"
    using quiet_steps(1) [of w generated] quiet_steps(2) [of "fst (acme_client generated w)" c now "fst (snd (acme_client generated w))"]
    by (auto simp: renew_base_def quiet_def split: reply.splits prod.splits)
  have d: "dueFor t h (tw_manager ?w) = dueFor t h (tw_manager w)" for t h by (simp add: dueFor_def q)
  have "map_get (tm_extra (tw_manager (maybeRenew c now generated clock answers w))) h =
      (if dueFor (clock h) h (tw_manager w) \<and> answers h \<noteq> None
       then map_option (\<lambda>i. ((ic_key i, ic_chain i), ic_notAfter i)) (answers h)
       else map_get (tm_extra (tw_manager w)) h)"
    using assms renew_each_extra [OF assms(1), of "map fst (tm_extra (tw_manager ?w))" ?w clock answers h]
    by (cases "answers h") (simp_all add: maybeRenew_def Let_def q d)
  then show ?thesis using assms(4,5) by (auto simp: dueFor_def fresh_answer_def split: option.splits)
qed

subsection \<open>The zone of a name\<close>

definition suffixes :: "string \<Rightarrow> string list" where
  "suffixes hostname =
     (let labels = split_on CHR ''.'' hostname in map (\<lambda>i. join ''.'' (drop i labels)) [0..<length labels - 1])"

lemma zone_from_spec:
  "zone_from zones labels =
     (case find (\<lambda>n. zones n \<noteq> Inr []) (map (\<lambda>i. join ''.'' (drop i labels)) [0..<length labels - 1]) of
        None \<Rightarrow> Inr None
      | Some n \<Rightarrow> (case zones n of Inl e \<Rightarrow> Inl e | Inr found \<Rightarrow> Inr (Some (hd found))))"
proof (induction zones labels rule: zone_from.induct)
  case (1 zones x y labels)
  let ?n = "join ''.'' (x # y # labels)"
  have "map (\<lambda>i. join ''.'' (drop i (x # y # labels))) [0..<length (x # y # labels) - 1] =
      ?n # map (\<lambda>i. join ''.'' (drop i (y # labels))) [0..<length (y # labels) - 1]"
    by (simp add: upt_conv_Cons map_Suc_upt [symmetric] del: map_Suc_upt upt_Suc join.simps)
  then show ?case using 1 by (cases "zones ?n") (auto split: list.splits simp del: join.simps)
qed simp_all

text \<open>
  The zone of a DNS challenge is the closest one: zoneFor asks for the suffixes of a name
  with at least two labels, the longest first, and takes the first zone of the first suffix that
  has one; it fails with the error of the service where asking fails before that, and with the
  advice to check the token where no suffix has a zone.
\<close>

theorem zone_is_longest_suffix:
  "zoneFor cf hostname =
     (case find (\<lambda>n. cf_zones cf n \<noteq> Inr []) (suffixes hostname) of
        None \<Rightarrow> Inl (no_zone hostname)
      | Some n \<Rightarrow> (case cf_zones cf n of Inl e \<Rightarrow> Inl e | Inr found \<Rightarrow> Inr (hd found)))"
  unfolding zoneFor_def zone_from_spec suffixes_def Let_def
  by (auto split: option.splits sum.splits)

lemma cloudflare_removes_own:
  "remove_cloudflare cf r v = Inr changes \<Longrightarrow>
   \<exists>z entries. zoneFor cf r = Inr z \<and> cf_entries cf z r = Inr entries \<and>
     changes = map (\<lambda>e. DropEntry (z_id z) (dn_id e)) (filter (\<lambda>e. dn_content e = v) entries)"
  by (auto simp: remove_cloudflare_def)

subsection \<open>What the interleavings allow\<close>

text \<open>The check of busy and its setting are separated by the database: two requests can both
  pass the check, and then two runs are under way although a second one is to be refused.\<close>

definition sample_tls :: tls_config where
  "sample_tls = \<lparr>tc_baseDomain = ''tunlit.example'', tc_wildcard = False, tc_managesTls = True, tc_ready = True\<rparr>"

definition sample_account :: acme_settings where
  "sample_account = \<lparr>ac_email = None, ac_provider = ''http'', ac_credential = None, ac_accountKey = Some ''k''\<rparr>"

definition sample_store :: tls_store where
  "sample_store = \<lparr>ts_row = Some sample_account, ts_certs = []\<rparr>"

definition idle_system :: tls_system where
  "idle_system = \<lparr>sy_world = \<lparr>tw_manager = new_manager, tw_store = sample_store, tw_manual = empty_manual\<rparr>,
     sy_asking = 0, sy_runs = [], sy_loaded = 0, sy_jobs = [], sy_stored = [], sy_log = []\<rparr>"

lemma idle_reach: "tls_reach idle_system"
  using tls_reach.boot [of sample_store] by (simp add: idle_system_def sample_store_def)

lemma two_runs_at_once: "\<exists>s. tls_reach s \<and> length (sy_runs s) = 2"
proof -
  let ?w = "\<lparr>tw_manager = new_manager, tw_store = sample_store, tw_manual = empty_manual\<rparr>"
  have ok: "request_check sample_tls ?w = Reply ()" by (simp add: request_check_def new_manager_def sample_tls_def)
  have "tls_reach (idle_system\<lparr>sy_asking := 1\<rparr>)"
    using tls_reach.asks [OF idle_reach, of sample_tls] ok by (simp add: idle_system_def)
  from tls_reach.asks [OF this, of sample_tls] have two: "tls_reach (idle_system\<lparr>sy_asking := 2\<rparr>)"
    using ok by (simp add: idle_system_def numeral_2_eq_2)
  have started: "\<exists>st. snd (request_start sample_tls 0 sample_account w) = Reply st" for w
    by (simp add: request_start_def sample_tls_def sample_account_def get_provider_def PROVIDERS_def Let_def)
  obtain s1 where s1: "tls_reach s1" "sy_asking s1 = 1" "length (sy_runs s1) = 1"
  proof -
    obtain st where "snd (request_start sample_tls 0 sample_account (sy_world (idle_system\<lparr>sy_asking := 2\<rparr>))) = Reply st"
      using started by blast
    from tls_reach.starts [OF two _ prod.collapse [symmetric], of sample_tls 0 sample_account] this
    show ?thesis by (intro that) (auto simp: idle_system_def)
  qed
  obtain st where "snd (request_start sample_tls 0 sample_account (sy_world s1)) = Reply st" using started by blast
  with tls_reach.starts [OF s1(1) _ prod.collapse [symmetric], of sample_tls 0 sample_account] s1(2)
  have "tls_reach (s1\<lparr>sy_world := fst (request_start sample_tls 0 sample_account (sy_world s1)), sy_asking := 0,
      sy_runs := domainsFor sample_tls # sy_runs s1\<rparr>)" by simp
  moreover have "length (domainsFor sample_tls # sy_runs s1) = 2" using s1(3) by simp
  ultimately show ?thesis by (metis (no_types, lifting) tls_system.select_convs(3) tls_system.surjective tls_system.update_convs(3))
qed

text \<open>A custom name that is forgotten while its certificate is being issued keeps it: the
  certificate is stored and put to use after it was forgotten, and is renewed from then on.\<close>

lemma saved_certificate: "certificate d (saveCertificate now d names key chain expires st) \<noteq> None"
proof (cases "certificate d st")
  case None
  then show ?thesis by (simp add: certificate_None saveCertificate_def Let_def)
next
  case (Some r)
  then have "\<exists>r \<in> set (ts_certs st). x_domain r = d" using certificate_SomeD by blast
  then show ?thesis using Some by (auto simp: saveCertificate_def Let_def certificate_def find_None_iff)
qed

lemma forgotten_name_keeps_certificate:
  fixes i :: issued_certificate and w w1 :: tls_world
  assumes "issue_begin c h w = (w1, Inr ())"
  defines "w2 \<equiv> forget_row h (forget_context h w1)"
  shows "map_get (tm_extra (tw_manager (issue_end h i (issue_store now h i w2)))) h = Some (context_of i, ic_notAfter i)"
    "certificate h (tw_store (issue_end h i (issue_store now h i w2))) \<noteq> None"
proof -
  show "map_get (tm_extra (tw_manager (issue_end h i (issue_store now h i w2)))) h = Some (context_of i, ic_notAfter i)"
    by (simp add: issue_end_def set_extra_def free_name_def context_of_def)
  have "tw_store (issue_end h i (issue_store now h i w2)) =
      saveCertificate now h [h] (ic_key i) (ic_chain i) (ic_notAfter i) (tw_store w2)"
    by (simp add: issue_end_def issue_store_def)
  then show "certificate h (tw_store (issue_end h i (issue_store now h i w2))) \<noteq> None"
    using saved_certificate by simp
qed

text \<open>The table of providers also answers for names that every object has.\<close>

lemma inherited_name_is_a_provider: "get_provider ''constructor'' \<noteq> None"
  by (simp add: get_provider_def PROVIDERS_def INHERITED_def)

subsection \<open>Concrete runs\<close>

definition sample_chain :: issued_certificate where
  "sample_chain = \<lparr>ic_key = ''key'', ic_chain = ''chain'', ic_notAfter = 90 * 24 * 60 * 60 * 1000\<rparr>"

lemma sample_job: "\<exists>s. tls_reach s \<and> sy_jobs s = [''app.example''] \<and> sy_stored s = [] \<and>
  sy_world s = \<lparr>tw_manager = new_manager\<lparr>tm_issuing := [''app.example'']\<rparr>, tw_store = sample_store, tw_manual = empty_manual\<rparr>"
proof -
  have b: "issue_begin sample_tls ''app.example'' (sy_world idle_system) =
      (\<lparr>tw_manager = new_manager\<lparr>tm_issuing := [''app.example'']\<rparr>, tw_store = sample_store, tw_manual = empty_manual\<rparr>, Inr ())"
    by (simp add: issue_begin_def Let_def idle_system_def new_manager_def sample_tls_def)
  show ?thesis using tls_reach.job_begin [OF idle_reach b] by (intro exI conjI, assumption) (simp_all add: idle_system_def)
qed

theorem issuing_exclusive_witness:
  "\<exists>s. tls_reach s \<and> sy_jobs s = [''app.example''] \<and> distinct (sy_jobs s @ map fst (sy_stored s))"
  using sample_job issuing_exclusive by blast


theorem renewal_leaves_nothing_due_witness:
  "\<not> dueFor 5 ''app.example'' (tw_manager (maybeRenew sample_tls 0 ''k'' (\<lambda>_. 5) (\<lambda>_. Some sample_chain)
     \<lparr>tw_manager = new_manager\<lparr>tm_extra := [(''app.example'', ((''old'', ''old''), 10))]\<rparr>, tw_store = sample_store,
      tw_manual = empty_manual\<rparr>))"
proof -
  let ?w = "\<lparr>tw_manager = new_manager\<lparr>tm_extra := [(''app.example'', ((''old'', ''old''), 10))]\<rparr>, tw_store = sample_store,
      tw_manual = empty_manual\<rparr>"
  have "\<not> dueFor ((\<lambda>_. 5) ''app.example'') ''app.example''
      (tw_manager (maybeRenew sample_tls 0 ''k'' (\<lambda>_. 5) (\<lambda>_. Some sample_chain) ?w))"
    by (rule renewal_leaves_nothing_due [THEN conjunct1])
      (simp_all add: sample_tls_def new_manager_def fresh_answer_def sample_chain_def RENEW_BEFORE_def)
  then show ?thesis by simp
qed

end
