(* ===== verification/Router.thy ===== *)
theory Router
  imports Js
begin

text \<open>
  The router of the API (src/server/utils/router.js): patterns compiled to regular expressions,
  the search of a mount and a route, the reading of a body and the chain of middlewares and
  handlers. What a handler does is an argument; so are JSON.parse of the body and
  decodeURIComponent.
\<close>

subsection \<open>Patterns\<close>

text \<open>
  The regular expression made of a pattern: /:name becomes \<open>/([^/]+)\<close>, every other character
  stands as it is, which for a dot means any character but a line break. The whole is anchored
  and takes one more slash at the end.
\<close>

datatype piece = Lit char | AnyChar | Capture string

definition is_letter :: "char \<Rightarrow> bool" where
  "is_letter c \<longleftrightarrow> is_lower c \<or> is_upper c"

definition lit :: "char \<Rightarrow> piece" where
  "lit c = (if c = CHR ''.'' then AnyChar else Lit c)"

function compile :: "string \<Rightarrow> piece list" where
  "compile s =
     (case s of
        [] \<Rightarrow> []
      | c # cs \<Rightarrow>
          if c = CHR ''/'' \<and> (case cs of d # e # _ \<Rightarrow> d = CHR '':'' \<and> is_letter e | _ \<Rightarrow> False)
          then Lit CHR ''/'' # Capture (takeWhile is_letter (tl cs)) # compile (dropWhile is_letter (tl cs))
          else lit c # compile cs)"
  by pat_completeness auto
termination
proof (relation "measure length")
  show "wf (measure (length :: string \<Rightarrow> nat))" by simp
next
  fix s cs :: string and c
  assume "s = c # cs"
  then show "(dropWhile is_letter (tl cs), s) \<in> measure length"
    using length_dropWhile_le [of is_letter "tl cs"] by simp
next
  fix s cs :: string and c
  assume "s = c # cs"
  then show "(cs, s) \<in> measure length" by simp
qed

declare compile.simps [simp del]

fun capture_keys :: "piece list \<Rightarrow> string list" where
  "capture_keys [] = []"
| "capture_keys (Capture k # ps) = k # capture_keys ps"
| "capture_keys (_ # ps) = capture_keys ps"

definition line_break :: "char \<Rightarrow> bool" where
  "line_break c \<longleftrightarrow> ord c = 10 \<or> ord c = 13"

fun first_some :: "('a \<Rightarrow> 'b option) \<Rightarrow> 'a list \<Rightarrow> 'b option" where
  "first_some f [] = None"
| "first_some f (x # xs) = (case f x of None \<Rightarrow> first_some f xs | Some y \<Rightarrow> Some y)"

text \<open>regex.exec(s): the captured texts. A capture tries the longest text first.\<close>

primrec match_pieces :: "piece list \<Rightarrow> string \<Rightarrow> string list option" where
  "match_pieces [] = (\<lambda>s. if s = [] \<or> s = ''/'' then Some [] else None)"
| "match_pieces (p # ps) = (\<lambda>s.
     case p of
       Lit c \<Rightarrow> (case s of [] \<Rightarrow> None | x # xs \<Rightarrow> if x = c then match_pieces ps xs else None)
     | AnyChar \<Rightarrow> (case s of [] \<Rightarrow> None | x # xs \<Rightarrow> if line_break x then None else match_pieces ps xs)
     | Capture k \<Rightarrow>
         first_some (\<lambda>n. map_option ((#) (take n s)) (match_pieces ps (drop n s)))
           (rev [1..<Suc (length (takeWhile (\<lambda>c. c \<noteq> CHR ''/'') s))]))"

subsection \<open>Routes and mounts\<close>

record 'h route =
  rt_method :: string
  rt_pattern :: string
  rt_handlers :: "'h list"

record 'h mount =
  mo_prefix :: string
  mo_middlewares :: "'h list"
  mo_routes :: "'h route list"

definition under_mount :: "string \<Rightarrow> string \<Rightarrow> bool" where
  "under_mount mountpoint pathname \<longleftrightarrow> pathname = mountpoint \<or> starts_with (mountpoint @ ''/'') pathname"

definition rest_of :: "string \<Rightarrow> string \<Rightarrow> string" where
  "rest_of mountpoint pathname = (let r = drop (length mountpoint) pathname in if r = [] then ''/'' else r)"

definition match_route :: "string \<Rightarrow> string \<Rightarrow> 'h route \<Rightarrow> (string \<times> string) list option" where
  "match_route method rest r =
     (if rt_method r \<noteq> method then None
      else map_option (zip (capture_keys (compile (rt_pattern r)))) (match_pieces (compile (rt_pattern r)) rest))"

fun find_route :: "string \<Rightarrow> string \<Rightarrow> 'h route list \<Rightarrow> ('h list \<times> (string \<times> string) list) option" where
  "find_route method rest [] = None"
| "find_route method rest (r # rs) =
     (case match_route method rest r of
        None \<Rightarrow> find_route method rest rs | Some ps \<Rightarrow> Some (rt_handlers r, ps))"

fun find_mount :: "string \<Rightarrow> string \<Rightarrow> 'h mount list \<Rightarrow> ('h list \<times> (string \<times> string) list) option" where
  "find_mount method pathname [] = None"
| "find_mount method pathname (m # ms) =
     (if \<not> under_mount (mo_prefix m) pathname then find_mount method pathname ms
      else (case find_route method (rest_of (mo_prefix m) pathname) (mo_routes m) of
              None \<Rightarrow> find_mount method pathname ms
            | Some (hs, ps) \<Rightarrow> Some (mo_middlewares m @ hs, ps)))"

subsection \<open>Bodies\<close>

definition MAX_BODY :: nat where
  "MAX_BODY = 64 * 1024"

text \<open>readBody: the chunks are counted as they arrive; an error carries its status.\<close>

datatype body = Body jsval | BadBody nat string

fun read_chunks :: "nat \<Rightarrow> bytes \<Rightarrow> bytes list \<Rightarrow> bytes option" where
  "read_chunks n acc [] = Some acc"
| "read_chunks n acc (c # cs) =
     (if n + length c > MAX_BODY then None else read_chunks (n + length c) (acc @ c) cs)"

definition readBody :: "(bytes \<Rightarrow> jsval option) \<Rightarrow> bytes list \<Rightarrow> body" where
  "readBody parse chunks =
     (case read_chunks 0 [] chunks of
        None \<Rightarrow> BadBody 413 ''Request body too large''
      | Some bytes \<Rightarrow>
          if chunks = [] then Body (JObj [])
          else (case parse bytes of None \<Rightarrow> BadBody 400 ''Body must be valid JSON'' | Some v \<Rightarrow> Body v))"

subsection \<open>Handling a request\<close>

text \<open>What a handler does with the state and the request: call next, answer, or throw; an
  error thrown by a handler has no status.\<close>

datatype 'a outcome = Next | Answered 'a | Thrown err

record 'c api_request =
  rq_method :: string
  rq_params :: "(string \<times> string) list"
  rq_body :: jsval
  rq_context :: 'c

datatype 'a handled = Unrouted | Finished 'a | Unanswered | Rejected nat string | Crashed err

fun run_handlers ::
  "('h \<Rightarrow> 'c api_request \<Rightarrow> 's \<Rightarrow> 's \<times> 'c \<times> 'a outcome) \<Rightarrow> 'h list \<Rightarrow> 'c api_request \<Rightarrow> 's \<Rightarrow> 's \<times> 'a handled" where
  "run_handlers exec [] req s = (s, Unanswered)"
| "run_handlers exec (h # hs) req s =
     (case exec h req s of
        (s', c, Next) \<Rightarrow> run_handlers exec hs (req\<lparr>rq_context := c\<rparr>) s'
      | (s', c, Answered a) \<Rightarrow> (s', Finished a)
      | (s', c, Thrown e) \<Rightarrow> (s', Crashed e))"

fun decode_params :: "(string \<Rightarrow> string result) \<Rightarrow> (string \<times> string) list \<Rightarrow> (string \<times> string) list result" where
  "decode_params dec [] = Inr []"
| "decode_params dec ((k, v) # ps) = bind (dec v) (\<lambda>w. bind (decode_params dec ps) (\<lambda>qs. Inr ((k, w) # qs)))"

definition has_body :: "string \<Rightarrow> bool" where
  "has_body method \<longleftrightarrow> method \<in> {''POST'', ''PUT'', ''PATCH''}"

text \<open>app.handle. Parameters that cannot be decoded throw before anything is caught.\<close>

definition handle_api ::
  "('h \<Rightarrow> 'c api_request \<Rightarrow> 's \<Rightarrow> 's \<times> 'c \<times> 'a outcome) \<Rightarrow> (string \<Rightarrow> string result) \<Rightarrow> (bytes \<Rightarrow> jsval option) \<Rightarrow>
   'h mount list \<Rightarrow> string \<Rightarrow> string \<Rightarrow> bytes list \<Rightarrow> 'c \<Rightarrow> 's \<Rightarrow> 's \<times> 'a handled" where
  "handle_api exec dec parse mounts method pathname chunks context s =
     (case find_mount method pathname mounts of
        None \<Rightarrow> (s, Unrouted)
      | Some (hs, ps) \<Rightarrow>
          (case decode_params dec ps of
             Inl e \<Rightarrow> (s, Crashed e)
           | Inr params \<Rightarrow>
               (case (if has_body method then readBody parse chunks else Body (JObj [])) of
                  BadBody status message \<Rightarrow> (s, Rejected status message)
                | Body b \<Rightarrow>
                    run_handlers exec hs \<lparr>rq_method = method, rq_params = params, rq_body = b, rq_context = context\<rparr> s)))"

subsection \<open>Patterns match by segments\<close>

text \<open>The patterns of the routes are sequences of words and named segments.\<close>

datatype seg = Word string | Key string

fun render_seg :: "seg \<Rightarrow> string" where
  "render_seg (Word w) = CHR ''/'' # w"
| "render_seg (Key k) = CHR ''/'' # CHR '':'' # k"

definition render :: "seg list \<Rightarrow> string" where
  "render segs = concat (map render_seg segs)"

fun seg_ok :: "seg \<Rightarrow> bool" where
  "seg_ok (Word w) \<longleftrightarrow> CHR ''/'' \<notin> set w \<and> CHR ''.'' \<notin> set w \<and> CHR '':'' \<notin> set w"
| "seg_ok (Key k) \<longleftrightarrow> k \<noteq> [] \<and> list_all is_letter k"

text \<open>The reference: the parts of the path between slashes against the segments, one by one;
  one more empty part at the end is allowed.\<close>

fun seg_match :: "seg list \<Rightarrow> string list \<Rightarrow> string list option" where
  "seg_match [] parts = (if parts = [] \<or> parts = [[]] then Some [] else None)"
| "seg_match (Word w # segs) (p # parts) = (if p = w then seg_match segs parts else None)"
| "seg_match (Key k # segs) (p # parts) = (if p = [] then None else map_option ((#) p) (seg_match segs parts))"
| "seg_match segs [] = None"

fun path_parts :: "string \<Rightarrow> string list option" where
  "path_parts [] = Some []"
| "path_parts (c # cs) = (if c = CHR ''/'' then Some (split_on CHR ''/'' cs) else None)"

definition match_segments :: "seg list \<Rightarrow> string \<Rightarrow> string list option" where
  "match_segments segs s = (case path_parts s of None \<Rightarrow> None | Some parts \<Rightarrow> seg_match segs parts)"

fun seg_pieces :: "seg \<Rightarrow> piece list" where
  "seg_pieces (Word w) = Lit CHR ''/'' # map Lit w"
| "seg_pieces (Key k) = [Lit CHR ''/'', Capture k]"

lemma slash_not_letter: "\<not> is_letter CHR ''/''" "\<not> is_letter CHR '':''"
  by (simp_all add: is_letter_def js_simps)

lemma compile_Nil [simp]: "compile [] = []"
  by (subst compile.simps) simp

lemma compile_plain:
  "c \<noteq> CHR ''/'' \<Longrightarrow> compile (c # cs) = lit c # compile cs"
  by (subst compile.simps) simp

lemma compile_word:
  "CHR ''/'' \<notin> set w \<Longrightarrow> CHR ''.'' \<notin> set w \<Longrightarrow> compile (w @ s) = map Lit w @ compile s"
  by (induction w) (auto simp: compile_plain lit_def)

lemma takeWhile_letters:
  assumes "list_all is_letter k" "s = [] \<or> (\<exists>t. s = CHR ''/'' # t)"
  shows "takeWhile is_letter (k @ s) = k" "dropWhile is_letter (k @ s) = s"
  using assms slash_not_letter by (auto simp: takeWhile_append dropWhile_append list_all_iff)

lemma render_head: "render segs = [] \<or> (\<exists>t. render segs = CHR ''/'' # t)"
  by (cases segs; cases "hd segs") (auto simp: render_def)

lemma render_Cons [simp]: "render (g # segs) = render_seg g @ render segs" "render [] = []"
  by (simp_all add: render_def)

lemma compile_render:
  "list_all seg_ok segs \<Longrightarrow> compile (render segs) = concat (map seg_pieces segs)"
proof (induction segs)
  case Nil
  then show ?case by simp
next
  case (Cons g segs)
  then have IH: "compile (render segs) = concat (map seg_pieces segs)" by simp
  show ?case
  proof (cases g)
    case (Word w)
    then have ok: "CHR ''/'' \<notin> set w" "CHR ''.'' \<notin> set w" "CHR '':'' \<notin> set w" using Cons.prems by auto
    have nk: "\<not> (case w @ render segs of d # e # _ \<Rightarrow> d = CHR '':'' \<and> is_letter e | _ \<Rightarrow> False)"
      using ok render_head [of segs] by (cases w) (auto split: list.splits)
    have "compile (CHR ''/'' # w @ render segs) = Lit CHR ''/'' # compile (w @ render segs)"
      by (subst compile.simps) (simp add: nk lit_def)
    then show ?thesis using Word compile_word [OF ok(1,2)] IH by simp
  next
    case (Key k)
    then have k: "k \<noteq> []" "list_all is_letter k" using Cons.prems by auto
    note tw = takeWhile_letters [OF k(2) render_head [of segs]]
    have nk: "(case CHR '':'' # k @ render segs of d # e # _ \<Rightarrow> d = CHR '':'' \<and> is_letter e | _ \<Rightarrow> False)"
      using k by (cases k) auto
    have "compile (CHR ''/'' # CHR '':'' # k @ render segs) = Lit CHR ''/'' # Capture k # compile (render segs)"
      by (subst compile.simps) (use nk tw in simp)
    then show ?thesis using Key IH by simp
  qed
qed

lemma match_lits:
  "match_pieces (map Lit w @ ps) s = (if starts_with w s then match_pieces ps (drop (length w) s) else None)"
proof (induction w arbitrary: s)
  case Nil
  then show ?case by (simp add: starts_with_def)
next
  case (Cons c w)
  then show ?case by (cases s) (auto simp: starts_with_def)
qed

text \<open>What follows a segment starts at a slash or at the end.\<close>

lemma match_rest_needs_slash:
  "s \<noteq> [] \<Longrightarrow> hd s \<noteq> CHR ''/'' \<Longrightarrow> match_pieces (concat (map seg_pieces segs)) s = None"
  by (cases segs; cases "hd segs"; cases s) auto

lemma first_some_append: "first_some f (xs @ ys) = (case first_some f xs of None \<Rightarrow> first_some f ys | Some y \<Rightarrow> Some y)"
  by (induction xs) (auto split: option.splits)

lemma first_some_None: "\<forall>x \<in> set xs. f x = None \<Longrightarrow> first_some f xs = None"
  by (induction xs) auto

lemma match_capture:
  fixes s :: string and k :: string
  defines "p \<equiv> takeWhile (\<lambda>c. c \<noteq> CHR ''/'') s" and "r \<equiv> dropWhile (\<lambda>c. c \<noteq> CHR ''/'') s"
  shows "match_pieces (Capture k # concat (map seg_pieces segs)) s =
    (if p = [] then None else map_option ((#) p) (match_pieces (concat (map seg_pieces segs)) r))"
proof -
  let ?m = "match_pieces (concat (map seg_pieces segs))"
  let ?f = "\<lambda>n. map_option ((#) (take n s)) (?m (drop n s))"
  have s: "s = p @ r" by (simp add: p_def r_def)
  have short: "?f n = None" if "n < length p" for n
  proof -
    have "drop n s \<noteq> []" "hd (drop n s) = p ! n" using that s by (auto simp: hd_drop_conv_nth nth_append)
    moreover have "p ! n \<noteq> CHR ''/''" using that nth_mem set_takeWhileD unfolding p_def by fastforce
    ultimately show ?thesis using match_rest_needs_slash by simp
  qed
  have "match_pieces (Capture k # concat (map seg_pieces segs)) s = first_some ?f (rev [1..<Suc (length p)])"
    by (simp add: p_def)
  also have "\<dots> = (if p = [] then None else ?f (length p))"
  proof (cases "p = []")
    case True
    then show ?thesis by simp
  next
    case False
    then have "rev [1..<Suc (length p)] = length p # rev [1..<length p]" by (simp add: Suc_leI)
    moreover have "first_some ?f (rev [1..<length p]) = None" by (rule first_some_None) (use short in auto)
    ultimately show ?thesis using False by (simp split: option.splits)
  qed
  also have "\<dots> = (if p = [] then None else map_option ((#) p) (?m r))" using s by simp
  finally show ?thesis .
qed

lemma split_first:
  "split_on CHR ''/'' s = takeWhile (\<lambda>c. c \<noteq> CHR ''/'') s #
     (case dropWhile (\<lambda>c. c \<noteq> CHR ''/'') s of [] \<Rightarrow> [] | _ # t \<Rightarrow> split_on CHR ''/'' t)"
  by (induction s) auto

lemma match_tail:
  "r = [] \<or> (\<exists>t. r = CHR ''/'' # t) \<Longrightarrow>
   match_segments segs r = seg_match segs (case r of [] \<Rightarrow> [] | _ # t \<Rightarrow> split_on CHR ''/'' t)"
  by (auto simp: match_segments_def)

text \<open>A word in front of other segments matches when it is the whole first part.\<close>

lemma match_word:
  assumes w: "CHR ''/'' \<notin> set w"
  shows "(if starts_with w cs then match_segments segs (drop (length w) cs) else None) =
    (if takeWhile (\<lambda>c. c \<noteq> CHR ''/'') cs = w then match_segments segs (dropWhile (\<lambda>c. c \<noteq> CHR ''/'') cs) else None)"
proof -
  let ?p = "takeWhile (\<lambda>c. c \<noteq> CHR ''/'') cs" and ?r = "dropWhile (\<lambda>c. c \<noteq> CHR ''/'') cs"
  show ?thesis
  proof (cases "starts_with w cs")
    case True
    then obtain t where t: "cs = w @ t" by (auto simp: starts_with_iff prefix_def)
    then have p: "?p = w @ takeWhile (\<lambda>c. c \<noteq> CHR ''/'') t" "?r = dropWhile (\<lambda>c. c \<noteq> CHR ''/'') t"
      using w by (auto simp: takeWhile_append dropWhile_append)
    have d: "drop (length w) cs = t" using t by simp
    show ?thesis
    proof (cases "t = [] \<or> hd t = CHR ''/''")
      case at_end: True
      have "takeWhile (\<lambda>c. c \<noteq> CHR ''/'') t = []" "dropWhile (\<lambda>c. c \<noteq> CHR ''/'') t = t"
        using at_end by (cases t; simp)+
      then have "?p = w" "?r = t" using p by (simp_all only: append_Nil2)
      then show ?thesis using True d by (simp only: simp_thms if_True)
    next
      case False
      have "takeWhile (\<lambda>c. c \<noteq> CHR ''/'') t \<noteq> []" "match_segments segs t = None"
        using False by (cases t; simp add: match_segments_def)+
      then show ?thesis using True d p(1) by (simp only: append_self_conv) simp
    qed
  next
    case False
    moreover have "cs = ?p @ ?r" by simp
    then have "starts_with ?p cs" by (metis starts_with_append)
    ultimately have "?p \<noteq> w" by auto
    then show ?thesis using False by simp
  qed
qed

lemma match_parts:
  "list_all seg_ok segs \<Longrightarrow> match_pieces (concat (map seg_pieces segs)) s = match_segments segs s"
proof (induction segs arbitrary: s)
  case Nil
  have "split_on CHR ''/'' cs = [[]] \<longleftrightarrow> cs = []" for cs
    using split_first [of cs] by (cases cs) (auto split: list.splits if_splits)
  then show ?case by (cases s) (auto simp: match_segments_def)
next
  case (Cons g segs)
  then have IH: "match_pieces (concat (map seg_pieces segs)) t = match_segments segs t" for t by simp
  show ?case
  proof (cases s)
    case Nil
    then show ?thesis by (cases g) (auto simp: match_segments_def)
  next
    case (Cons c cs)
    let ?p = "takeWhile (\<lambda>c. c \<noteq> CHR ''/'') cs" and ?r = "dropWhile (\<lambda>c. c \<noteq> CHR ''/'') cs"
    have r: "?r = [] \<or> (\<exists>t. ?r = CHR ''/'' # t)"
      by (cases ?r) (use hd_dropWhile [of "\<lambda>c. c \<noteq> CHR ''/''" cs] in auto)
    then have tail: "match_segments segs ?r = seg_match segs (case ?r of [] \<Rightarrow> [] | _ # t \<Rightarrow> split_on CHR ''/'' t)"
      by (rule match_tail)
    show ?thesis
    proof (cases g)
      case (Word w)
      then have w: "CHR ''/'' \<notin> set w" using Cons.prems by simp
      have "match_pieces (concat (map seg_pieces (g # segs))) s =
          (if c = CHR ''/'' \<and> starts_with w cs then match_segments segs (drop (length w) cs) else None)"
        using Word Cons IH by (simp add: match_lits)
      also have "\<dots> = (if c = CHR ''/'' \<and> ?p = w then match_segments segs ?r else None)"
        by (cases "c = CHR ''/''") (simp_all only: match_word [OF w] simp_thms if_False)
      finally show ?thesis using Word Cons tail split_first [of cs] by (simp add: match_segments_def)
    next
      case (Key k)
      have "match_pieces (concat (map seg_pieces (g # segs))) s =
          (if c = CHR ''/'' then (if ?p = [] then None else map_option ((#) ?p) (match_segments segs ?r)) else None)"
        using Key Cons IH match_capture [of k segs cs] by simp
      then show ?thesis using Key Cons tail split_first [of cs] by (simp add: match_segments_def)
    qed
  qed
qed



text \<open>A dot of a pattern is not escaped: the route of the export also answers other paths.\<close>

lemma dot_matches_any_character:
  "match_pieces (compile ''/:id/requests.har'') ''/abc/requestsXhar'' = Some [''abc'']"
proof -
  have "compile ''/:id/requests.har'' = Lit CHR ''/'' # Capture ''id'' # map lit ''/requests.har''"
    by (simp add: compile.simps [of "_ # _"] is_letter_def js_simps lit_def)
  then show ?thesis
    by (simp add: lit_def line_break_def js_simps numeral_2_eq_2 numeral_3_eq_3)
qed

subsection \<open>Bodies and handlers\<close>

lemma read_chunks_spec:
  "read_chunks n acc chunks = (if n + length (concat chunks) > MAX_BODY \<and> chunks \<noteq> [] then None else Some (acc @ concat chunks))"
  if "n \<le> MAX_BODY"
  using that by (induction chunks arbitrary: n acc) (auto simp: MAX_BODY_def)

text \<open>
  The limit of a body is exact, however it arrives in pieces: a body of more than 64 KiB is
  refused with 413, and of anything smaller the whole is parsed; a request without a body has an
  empty object.
\<close>

theorem body_limit_exact:
  "readBody parse chunks =
     (if MAX_BODY < length (concat chunks) then BadBody 413 ''Request body too large''
      else if chunks = [] then Body (JObj [])
      else (case parse (concat chunks) of None \<Rightarrow> BadBody 400 ''Body must be valid JSON'' | Some v \<Rightarrow> Body v))"
  by (auto simp: readBody_def read_chunks_spec)

lemma find_route_member:
  "find_route method rest rs = Some (hs, ps) \<Longrightarrow> \<exists>r \<in> set rs. rt_method r = method \<and> hs = rt_handlers r"
  by (induction rs) (auto simp: match_route_def split: option.splits if_splits)

lemma find_mount_member:
  "find_mount method pathname ms = Some (hs, ps) \<Longrightarrow>
   \<exists>m \<in> set ms. under_mount (mo_prefix m) pathname \<and>
     (\<exists>r \<in> set (mo_routes m). rt_method r = method \<and> hs = mo_middlewares m @ rt_handlers r)"
  by (induction ms) (auto split: option.splits if_splits dest!: find_route_member)

end
