(* ===== verification/ApiTable.thy ===== *)
theory ApiTable
  imports Router Devices Http
begin

text \<open>
  The table of the API: the routes of src/server/routes, mounted by createRouter of
  src/server/controllers/http.js with the middlewares of src/server/middlewares/auth.js in front
  of them. A route is data: its method, its pattern and its chain of handlers, of which the last
  one is an endpoint. What the endpoints do is an argument here; the theorem about the table says
  which of them a request can reach.
\<close>

subsection \<open>Endpoints\<close>

text \<open>One type per router, one constructor per route.\<close>

datatype service_op =
  Info | WhoAmI | TunnelStatus | GatePassword | GateAuthorize

datatype setup_op =
  SetupStatus | SetupComplete

datatype auth_op =
  Login | Logout | Me | DeviceCreate | DevicePoll | EnabledProviders | OidcStart | OidcCallback |
  PasskeyOptions | PasskeyVerify | TotpSetup | TotpEnable | TotpDisable | PasskeyList | PasskeyNew |
  PasskeyAdd | PasskeyRemove

datatype tunnel_op =
  TunnelList | TunnelGet | TunnelHar | TunnelRequests | TunnelVisitors | VisitorsClear |
  TunnelConnections | ConnectionGet | ConnectionsClear | RequestsClear | FramesGet | FrameSend |
  RequestGet | RequestReplay | BreakpointsGet | BreakpointsSet | BreakpointResolve | TunnelStats |
  TunnelAccess | ClientsDisconnect | ClientDisconnect | TunnelClose

datatype persistent_op =
  PersistentList | PersistentCreate | PersistentGet | PersistentAccess | PersistentRemove | DomainAdd
  | DomainCheck | DomainRemove

datatype quota_op =
  QuotasGet | QuotasSave

datatype setting_op =
  SettingsGet | SettingsPut | PasswordPut

datatype device_op =
  DeviceList | DeviceKey | DevicePending | DeviceApprove | DeviceDeny | DeviceRevoke

datatype invite_op =
  InviteList | InviteCreate | InviteRevoke

datatype account_op =
  AccountList | AccountCreate | AccountUpdate | AccountRemove

datatype tls_op =
  TlsGet | TlsPut | TlsVerify | TlsRequest | TlsContinue | TlsStatus

datatype oidc_op =
  OidcList | OidcAdd | OidcPut | OidcRemove

datatype endpoint =
    ServiceOp service_op | SetupOp setup_op | AuthOp auth_op | TunnelOp tunnel_op
  | PersistentOp persistent_op | QuotaOp quota_op | SettingOp setting_op | DeviceOp device_op
  | InviteOp invite_op | AccountOp account_op | TlsOp tls_op | OidcOp oidc_op

datatype step = Authenticate | RequireBrowser | RequireAdmin | RequireSetup | Run endpoint

definition on_route :: "string \<Rightarrow> string \<Rightarrow> step list \<Rightarrow> step route" where
  "on_route method pattern handlers = \<lparr>rt_method = method, rt_pattern = pattern, rt_handlers = handlers\<rparr>"

subsection \<open>The routes\<close>

definition service_routes :: "step route list" where
  "service_routes =
     [on_route ''GET'' ''/info'' [Run (ServiceOp Info)],
      on_route ''GET'' ''/whoami'' [Run (ServiceOp WhoAmI)],
      on_route ''GET'' ''/status/:id'' [Run (ServiceOp TunnelStatus)],
      on_route ''POST'' ''/gate/:id'' [Run (ServiceOp GatePassword)],
      on_route ''GET'' ''/gate/:id/authorize'' [Run (ServiceOp GateAuthorize)]]"

definition setup_routes :: "step route list" where
  "setup_routes =
     [on_route ''GET'' ''/status'' [Run (SetupOp SetupStatus)],
      on_route ''POST'' ''/complete'' [Run (SetupOp SetupComplete)]]"

definition auth_routes :: "step route list" where
  "auth_routes =
     [on_route ''POST'' ''/login'' [RequireSetup, Run (AuthOp Login)],
      on_route ''POST'' ''/logout'' [Authenticate, Run (AuthOp Logout)],
      on_route ''GET'' ''/me'' [Authenticate, Run (AuthOp Me)],
      on_route ''POST'' ''/device/create'' [Run (AuthOp DeviceCreate)],
      on_route ''POST'' ''/device/poll'' [Run (AuthOp DevicePoll)],
      on_route ''GET'' ''/providers'' [Run (AuthOp EnabledProviders)],
      on_route ''POST'' ''/oidc/:id/start'' [Run (AuthOp OidcStart)],
      on_route ''GET'' ''/oidc/callback'' [Run (AuthOp OidcCallback)],
      on_route ''POST'' ''/passkey/options'' [Run (AuthOp PasskeyOptions)],
      on_route ''POST'' ''/passkey/verify'' [Run (AuthOp PasskeyVerify)],
      on_route ''GET'' ''/totp/setup'' [Authenticate, Run (AuthOp TotpSetup)],
      on_route ''POST'' ''/totp/enable'' [Authenticate, Run (AuthOp TotpEnable)],
      on_route ''POST'' ''/totp/disable'' [Authenticate, Run (AuthOp TotpDisable)],
      on_route ''GET'' ''/passkeys'' [Authenticate, Run (AuthOp PasskeyList)],
      on_route ''POST'' ''/passkeys/options'' [Authenticate, Run (AuthOp PasskeyNew)],
      on_route ''POST'' ''/passkeys'' [Authenticate, Run (AuthOp PasskeyAdd)],
      on_route ''DELETE'' ''/passkeys/:id'' [Authenticate, Run (AuthOp PasskeyRemove)]]"

definition tunnels_routes :: "step route list" where
  "tunnels_routes =
     [on_route ''GET'' ''/'' [Run (TunnelOp TunnelList)],
      on_route ''GET'' ''/:id'' [Run (TunnelOp TunnelGet)],
      on_route ''GET'' ''/:id/requests.har'' [Run (TunnelOp TunnelHar)],
      on_route ''GET'' ''/:id/requests'' [Run (TunnelOp TunnelRequests)],
      on_route ''GET'' ''/:id/visitors'' [Run (TunnelOp TunnelVisitors)],
      on_route ''DELETE'' ''/:id/visitors'' [Run (TunnelOp VisitorsClear)],
      on_route ''GET'' ''/:id/connections'' [Run (TunnelOp TunnelConnections)],
      on_route ''GET'' ''/:id/connections/:key'' [Run (TunnelOp ConnectionGet)],
      on_route ''DELETE'' ''/:id/connections'' [Run (TunnelOp ConnectionsClear)],
      on_route ''DELETE'' ''/:id/requests'' [Run (TunnelOp RequestsClear)],
      on_route ''GET'' ''/:id/requests/:requestId/frames'' [Run (TunnelOp FramesGet)],
      on_route ''POST'' ''/:id/requests/:requestId/frames'' [Run (TunnelOp FrameSend)],
      on_route ''GET'' ''/:id/requests/:requestId'' [Run (TunnelOp RequestGet)],
      on_route ''POST'' ''/:id/requests/:requestId/replay'' [Run (TunnelOp RequestReplay)],
      on_route ''GET'' ''/:id/breakpoints'' [Run (TunnelOp BreakpointsGet)],
      on_route ''PUT'' ''/:id/breakpoints'' [Run (TunnelOp BreakpointsSet)],
      on_route ''POST'' ''/:id/breakpoints/:holdId'' [Run (TunnelOp BreakpointResolve)],
      on_route ''GET'' ''/:id/stats'' [Run (TunnelOp TunnelStats)],
      on_route ''PUT'' ''/:id/access'' [Run (TunnelOp TunnelAccess)],
      on_route ''DELETE'' ''/:id/clients'' [Run (TunnelOp ClientsDisconnect)],
      on_route ''DELETE'' ''/:id/clients/:clientId'' [Run (TunnelOp ClientDisconnect)],
      on_route ''DELETE'' ''/:id'' [Run (TunnelOp TunnelClose)]]"

definition persistent_routes :: "step route list" where
  "persistent_routes =
     [on_route ''GET'' ''/'' [Run (PersistentOp PersistentList)],
      on_route ''POST'' ''/'' [Run (PersistentOp PersistentCreate)],
      on_route ''GET'' ''/:name'' [Run (PersistentOp PersistentGet)],
      on_route ''PUT'' ''/:name/access'' [Run (PersistentOp PersistentAccess)],
      on_route ''DELETE'' ''/:name'' [Run (PersistentOp PersistentRemove)],
      on_route ''POST'' ''/:name/domains'' [Run (PersistentOp DomainAdd)],
      on_route ''POST'' ''/:name/domains/:hostname/check'' [Run (PersistentOp DomainCheck)],
      on_route ''DELETE'' ''/:name/domains/:hostname'' [Run (PersistentOp DomainRemove)]]"

definition quotas_routes :: "step route list" where
  "quotas_routes =
     [on_route ''GET'' ''/'' [Run (QuotaOp QuotasGet)],
      on_route ''PUT'' ''/'' [RequireAdmin, Run (QuotaOp QuotasSave)]]"

definition settings_routes :: "step route list" where
  "settings_routes =
     [on_route ''GET'' ''/'' [Run (SettingOp SettingsGet)],
      on_route ''PUT'' ''/'' [RequireAdmin, Run (SettingOp SettingsPut)],
      on_route ''PUT'' ''/password'' [RequireBrowser, Run (SettingOp PasswordPut)]]"

definition devices_routes :: "step route list" where
  "devices_routes =
     [on_route ''GET'' ''/'' [Run (DeviceOp DeviceList)],
      on_route ''POST'' ''/'' [Run (DeviceOp DeviceKey)],
      on_route ''GET'' ''/pending/:code'' [Run (DeviceOp DevicePending)],
      on_route ''POST'' ''/pending/:code/approve'' [Run (DeviceOp DeviceApprove)],
      on_route ''POST'' ''/pending/:code/deny'' [Run (DeviceOp DeviceDeny)],
      on_route ''DELETE'' ''/:id'' [Run (DeviceOp DeviceRevoke)]]"

definition invites_routes :: "step route list" where
  "invites_routes =
     [on_route ''GET'' ''/'' [Run (InviteOp InviteList)],
      on_route ''POST'' ''/'' [Run (InviteOp InviteCreate)],
      on_route ''DELETE'' ''/:id'' [Run (InviteOp InviteRevoke)]]"

definition accounts_routes :: "step route list" where
  "accounts_routes =
     [on_route ''GET'' ''/'' [Run (AccountOp AccountList)],
      on_route ''POST'' ''/'' [Run (AccountOp AccountCreate)],
      on_route ''PUT'' ''/:id'' [Run (AccountOp AccountUpdate)],
      on_route ''DELETE'' ''/:id'' [Run (AccountOp AccountRemove)]]"

definition tls_routes :: "step route list" where
  "tls_routes =
     [on_route ''GET'' ''/'' [Run (TlsOp TlsGet)],
      on_route ''PUT'' ''/'' [Run (TlsOp TlsPut)],
      on_route ''POST'' ''/verify'' [Run (TlsOp TlsVerify)],
      on_route ''POST'' ''/request'' [Run (TlsOp TlsRequest)],
      on_route ''POST'' ''/continue'' [Run (TlsOp TlsContinue)],
      on_route ''GET'' ''/status'' [Run (TlsOp TlsStatus)]]"

definition oidc_routes :: "step route list" where
  "oidc_routes =
     [on_route ''GET'' ''/'' [Run (OidcOp OidcList)],
      on_route ''POST'' ''/'' [Run (OidcOp OidcAdd)],
      on_route ''PUT'' ''/:id'' [Run (OidcOp OidcPut)],
      on_route ''DELETE'' ''/:id'' [Run (OidcOp OidcRemove)]]"

text \<open>The mounts of createRouter.\<close>

definition under :: "string \<Rightarrow> step list \<Rightarrow> step route list \<Rightarrow> step mount" where
  "under path middlewares rs =
     \<lparr>mo_prefix = API_PREFIX @ path, mo_middlewares = middlewares, mo_routes = rs\<rparr>"

definition API :: "step mount list" where
  "API =
     [under [] [] service_routes,
      under ''/setup'' [] setup_routes,
      under ''/auth'' [] auth_routes,
      under ''/tunnels'' [Authenticate] tunnels_routes,
      under ''/persistent'' [Authenticate] persistent_routes,
      under ''/quotas'' [Authenticate] quotas_routes,
      under ''/settings'' [Authenticate] settings_routes,
      under ''/devices'' [Authenticate] devices_routes,
      under ''/invites'' [Authenticate] invites_routes,
      under ''/accounts'' [Authenticate, RequireAdmin] accounts_routes,
      under ''/tls'' [Authenticate, RequireAdmin] tls_routes,
      under ''/oidc'' [Authenticate, RequireAdmin] oidc_routes]"

subsection \<open>Running a step\<close>

text \<open>What the middlewares read of a request and leave on it: req.session with req.account, and
  req.sessionToken.\<close>

record api_context =
  ax_cookie :: string
  ax_authorization :: "string option"
  ax_session :: "signed_in option"
  ax_token :: "string option"

datatype 'a answer = Refusal nat string | Done 'a

text \<open>An endpoint changes the accounts and the rest of the server, and answers or throws.\<close>

type_synonym ('w, 'a) endpoints = "endpoint \<Rightarrow> api_context api_request \<Rightarrow> db \<times> 'w \<Rightarrow> (db \<times> 'w) \<times> 'a result"

definition NO_SESSION :: err where
  "NO_SESSION = Err ''TypeError'' ''Cannot read properties of undefined''"

definition guard_outcome :: "unit reply \<Rightarrow> 'a answer outcome" where
  "guard_outcome r = (case r of Reply _ \<Rightarrow> Next | Refuse code message \<Rightarrow> outcome.Answered (Refusal code message) | Throw e \<Rightarrow> Thrown e)"

fun exec ::
  "(bytes \<Rightarrow> bytes) \<Rightarrow> time \<Rightarrow> ('w, 'a) endpoints \<Rightarrow> step \<Rightarrow> api_context api_request \<Rightarrow> db \<times> 'w \<Rightarrow>
   (db \<times> 'w) \<times> api_context \<times> 'a answer outcome" where
  "exec sha now ep Authenticate req (d, w) =
     (let c = rq_context req
      in case authenticate sha now (ax_cookie c) (ax_authorization c) d of
           (d', Reply s) \<Rightarrow> ((d', w), c\<lparr>ax_session := Some s, ax_token := session_token (ax_cookie c)\<rparr>, Next)
         | (d', Refuse code message) \<Rightarrow> ((d', w), c, outcome.Answered (Refusal code message))
         | (d', Throw e) \<Rightarrow> ((d', w), c, Thrown e))"
| "exec sha now ep RequireBrowser req s =
     (s, rq_context req, case ax_session (rq_context req) of None \<Rightarrow> Thrown NO_SESSION | Some v \<Rightarrow> guard_outcome (requireBrowser v))"
| "exec sha now ep RequireAdmin req s =
     (s, rq_context req, case ax_session (rq_context req) of None \<Rightarrow> Thrown NO_SESSION | Some v \<Rightarrow> guard_outcome (requireAdmin v))"
| "exec sha now ep RequireSetup req (d, w) = ((d, w), rq_context req, guard_outcome (requireSetupComplete d))"
| "exec sha now ep (Run e) req s =
     (case ep e req s of
        (s', Inl err) \<Rightarrow> (s', rq_context req, Thrown err)
      | (s', Inr a) \<Rightarrow> (s', rq_context req, outcome.Answered (Done a)))"

definition new_context :: "string \<Rightarrow> string option \<Rightarrow> api_context" where
  "new_context cookie bearer =
     \<lparr>ax_cookie = cookie, ax_authorization = bearer, ax_session = None, ax_token = None\<rparr>"

text \<open>The whole of a request to the API.\<close>

definition serve_api ::
  "(bytes \<Rightarrow> bytes) \<Rightarrow> time \<Rightarrow> ('w, 'a) endpoints \<Rightarrow> (string \<Rightarrow> string result) \<Rightarrow> (bytes \<Rightarrow> jsval option) \<Rightarrow>
   string \<Rightarrow> string \<Rightarrow> bytes list \<Rightarrow> string \<Rightarrow> string option \<Rightarrow> db \<times> 'w \<Rightarrow> (db \<times> 'w) \<times> 'a answer handled" where
  "serve_api sha now ep dec parse method pathname sent_body cookie bearer s =
     handle_api (exec sha now ep) dec parse API method pathname sent_body (new_context cookie bearer) s"

subsection \<open>Who may do what\<close>

text \<open>The specification: what a request must prove before an endpoint runs.\<close>

datatype clearance = Anyone | SignedIn | InBrowser | Administrator

fun clearance_of :: "endpoint \<Rightarrow> clearance" where
  "clearance_of (ServiceOp _) = Anyone"
| "clearance_of (SetupOp _) = Anyone"
| "clearance_of (AuthOp x) =
     (if x \<in> {Login, DeviceCreate, DevicePoll, EnabledProviders, OidcStart, OidcCallback, PasskeyOptions, PasskeyVerify}
      then Anyone else SignedIn)"
| "clearance_of (QuotaOp x) = (if x = QuotasSave then Administrator else SignedIn)"
| "clearance_of (SettingOp x) = (case x of SettingsGet \<Rightarrow> SignedIn | SettingsPut \<Rightarrow> Administrator | PasswordPut \<Rightarrow> InBrowser)"
| "clearance_of (AccountOp _) = Administrator"
| "clearance_of (TlsOp _) = Administrator"
| "clearance_of (OidcOp _) = Administrator"
| "clearance_of _ = SignedIn"

text \<open>Whether the credentials of a request prove it, and whether the endpoint is told whose they
  are.\<close>

definition cleared :: "(bytes \<Rightarrow> bytes) \<Rightarrow> time \<Rightarrow> string \<Rightarrow> string option \<Rightarrow> db \<Rightarrow> endpoint \<Rightarrow> api_context api_request \<Rightarrow> bool" where
  "cleared sha now cookie bearer d e req \<longleftrightarrow>
     clearance_of e = Anyone \<or>
     (\<exists>s. snd (authenticate sha now cookie bearer d) = Reply s \<and> ax_session (rq_context req) = Some s \<and>
        (clearance_of e = Administrator \<longrightarrow> in_role s = ''admin'') \<and>
        (clearance_of e = InBrowser \<longrightarrow> \<not> in_device s))"

text \<open>What a chain of steps has established: a session, an administrator, a browser.\<close>

fun guarded :: "bool \<Rightarrow> bool \<Rightarrow> bool \<Rightarrow> step list \<Rightarrow> bool" where
  "guarded a r b [] = True"
| "guarded a r b (Authenticate # hs) = (\<not> a \<and> guarded True r b hs)"
| "guarded a r b (RequireAdmin # hs) = (a \<and> guarded a True b hs)"
| "guarded a r b (RequireBrowser # hs) = (a \<and> guarded a r True hs)"
| "guarded a r b (RequireSetup # hs) = guarded a r b hs"
| "guarded a r b (Run e # hs) =
     (hs = [] \<and>
      (case clearance_of e of Anyone \<Rightarrow> True | SignedIn \<Rightarrow> a | InBrowser \<Rightarrow> a \<and> b | Administrator \<Rightarrow> a \<and> r))"

definition table_guarded :: bool where
  "table_guarded \<longleftrightarrow> list_all (\<lambda>m. list_all (\<lambda>r. guarded False False False (mo_middlewares m @ rt_handlers r)) (mo_routes m)) API"

lemma table_guarded: table_guarded
  by code_simp

lemma route_guarded:
  assumes "find_mount method pathname API = Some (hs, ps)"
  shows "guarded False False False hs"
  using find_mount_member [OF assms] table_guarded by (auto simp: table_guarded_def list_all_iff)

lemma guarded_runs_cleared:
  assumes "guarded a r b hs"
    and agree: "\<And>e req s. cleared sha now cookie bearer d e req \<Longrightarrow> ep e req s = ep' e req s"
    and ctx: "ax_cookie (rq_context req) = cookie" "ax_authorization (rq_context req) = bearer"
    and st: "if a then (\<exists>v. snd (authenticate sha now cookie bearer d) = Reply v \<and> ax_session (rq_context req) = Some v \<and>
                            (r \<longrightarrow> in_role v = ''admin'') \<and> (b \<longrightarrow> \<not> in_device v))
             else fst s = d \<and> \<not> r \<and> \<not> b"
  shows "run_handlers (exec sha now ep) hs req s = run_handlers (exec sha now ep') hs req s"
  using assms(1) ctx st
proof (induction a r b hs arbitrary: req s rule: guarded.induct)
  case (2 a r b hs)
  then have a: "\<not> a" "guarded True False False hs" and st: "fst s = d" "\<not> r" "\<not> b" by auto
  obtain w where s: "s = (d, w)" using st(1) by (cases s) simp
  obtain d' v where au: "authenticate sha now cookie bearer d = (d', v)" by (cases "authenticate sha now cookie bearer d")
  show ?case
  proof (cases v)
    case (Reply x)
    let ?req = "req\<lparr>rq_context := (rq_context req)\<lparr>ax_session := Some x, ax_token := session_token cookie\<rparr>\<rparr>"
    have "run_handlers (exec sha now ep) hs ?req (d', w) = run_handlers (exec sha now ep') hs ?req (d', w)"
      by (rule "2.IH") (use 2 a st au Reply in auto)
    then show ?thesis using 2 s au Reply by (simp add: Let_def)
  qed (use 2 s au in \<open>simp_all add: Let_def\<close>)
next
  case (3 a r b hs)
  then obtain v where v: "snd (authenticate sha now cookie bearer d) = Reply v" "ax_session (rq_context req) = Some v"
    "r \<longrightarrow> in_role v = ''admin''" "b \<longrightarrow> \<not> in_device v" and a: a "guarded a True b hs" by auto
  show ?case
  proof (cases "in_role v = ''admin''")
    case True
    have "run_handlers (exec sha now ep) hs req s = run_handlers (exec sha now ep') hs req s"
      by (rule "3.IH") (use 3 v a True in auto)
    then show ?thesis using v True by (simp add: guard_outcome_def requireAdmin_def)
  qed (use v in \<open>simp add: guard_outcome_def requireAdmin_def\<close>)
next
  case (4 a r b hs)
  then obtain v where v: "snd (authenticate sha now cookie bearer d) = Reply v" "ax_session (rq_context req) = Some v"
    "r \<longrightarrow> in_role v = ''admin''" "b \<longrightarrow> \<not> in_device v" and a: a "guarded a r True hs" by auto
  show ?case
  proof (cases "in_device v")
    case False
    have "run_handlers (exec sha now ep) hs req s = run_handlers (exec sha now ep') hs req s"
      by (rule "4.IH") (use 4 v a False in auto)
    then show ?thesis using v False by (simp add: guard_outcome_def requireBrowser_def)
  qed (use v in \<open>simp add: guard_outcome_def requireBrowser_def\<close>)
next
  case (5 a r b hs)
  obtain d' w where s: "s = (d', w)" by (cases s)
  then show ?case using 5 by (auto simp: guard_outcome_def split: Accounts.reply.splits)
next
  case (6 a r b e hs)
  then have "cleared sha now cookie bearer d e req"
    by (auto simp: cleared_def simp del: clearance_of.simps split: clearance.splits if_splits)
  then have "ep e req s = ep' e req s" by (rule agree)
  then show ?case using 6 by simp
qed simp

text \<open>
  C4. An endpoint runs only for those who may run it: whatever the endpoints do, a request
  changes the server and is answered as if every endpoint did something else for requests that
  lack its clearance. An endpoint that is not open to anyone runs only when the cookie or the
  token of the request proves a session, and is given that session; those of administrators only
  for the role admin, and the change of the own password only from a browser.
\<close>

theorem endpoints_need_clearance:
  assumes "\<And>e req s. cleared sha now cookie bearer (fst s\<^sub>0) e req \<Longrightarrow> ep e req s = ep' e req s"
  shows "serve_api sha now ep dec parse method pathname sent_body cookie bearer s\<^sub>0 =
         serve_api sha now ep' dec parse method pathname sent_body cookie bearer s\<^sub>0"
proof -
  have "run_handlers (exec sha now ep) hs req s\<^sub>0 = run_handlers (exec sha now ep') hs req s\<^sub>0"
    if "find_mount method pathname API = Some (hs, ps)" "rq_context req = new_context cookie bearer" for hs ps req
    by (rule guarded_runs_cleared [OF route_guarded [OF that(1)], of sha now cookie bearer "fst s\<^sub>0"])
      (use assms that(2) in \<open>auto simp: new_context_def\<close>)
  then show ?thesis
    by (auto simp: serve_api_def handle_api_def split: option.splits sum.splits body.splits)
qed

text \<open>A request without credentials, and endpoints that count what runs.\<close>

definition count_all :: "(nat, nat) endpoints" where
  "count_all e req s = ((fst s, snd s + 1), Inr (snd s))"

definition count_open :: "(nat, nat) endpoints" where
  "count_open e req s = (if clearance_of e = Anyone then count_all e req s else (s, Inr 0))"

theorem endpoints_need_clearance_witness:
  "serve_api id 5 count_all Inr (\<lambda>_. None) ''DELETE'' ''/@tunlit/api/accounts/1'' [] [] None (sample_db, 0) =
     ((sample_db, 0), Finished (Refusal 401 ''You need to be logged in''))"
proof -
  have no: "snd (authenticate id 5 [] None sample_db) = Refuse 401 ''You need to be logged in''" by code_simp
  have "serve_api id 5 count_all Inr (\<lambda>_. None) ''DELETE'' ''/@tunlit/api/accounts/1'' [] [] None (sample_db, 0) =
        serve_api id 5 count_open Inr (\<lambda>_. None) ''DELETE'' ''/@tunlit/api/accounts/1'' [] [] None (sample_db, 0)"
    by (rule endpoints_need_clearance) (use no in \<open>auto simp: cleared_def count_open_def simp del: clearance_of.simps\<close>)
  also have "\<dots> = ((sample_db, 0), Finished (Refusal 401 ''You need to be logged in''))" by code_simp
  finally show ?thesis .
qed

end
