(* ===== verification/AccountRoutes.thy ===== *)
theory AccountRoutes
  imports Router SignIn TunnelsApi Control
begin

text \<open>
  The handlers of src/server/routes/accounts.js, devices.js and invites.js, and those of
  routes/auth.js that work for a session: signing out, two-factor codes and passkeys. A handler
  gets the session that the middleware authenticate left on the request, the parameters of its
  route as text and the parsed body, and answers with a value, a refusal or an exception. Ids
  that are no number of a row match no row.
\<close>

record office =
  of_db :: db
  of_registry :: registry
  of_pending :: pending

text \<open>Reading a property of a body; a body that is the JSON value null throws.\<close>

definition body_prop :: "jsval \<Rightarrow> string \<Rightarrow> jsval result" where
  "body_prop body k =
     (if body = JNull
      then Inl (Err ''TypeError'' (''Cannot read properties of null (reading '' @ [CHR 0x27] @ k @ [CHR 0x27] @ '')''))
      else Inr (js_get body k))"

text \<open>Number(req.params.id) as the id of a row.\<close>

definition row_id :: "string \<Rightarrow> nat option" where
  "row_id text = (case number_of_string text of None \<Rightarrow> None | Some i \<Rightarrow> if i < 0 then None else Some (nat i))"

text \<open>undefined for an admin, who sees what belongs to anyone.\<close>

definition scope :: "signed_in \<Rightarrow> nat option" where
  "scope s = (if in_role s = ''admin'' then None else Some (a_id (in_account s)))"

definition NO_ACCOUNT :: "'a Accounts.reply" where
  "NO_ACCOUNT = Accounts.Refuse 404 ''That account does not exist''"

subsection \<open>accounts.js\<close>

definition accounts_get ::
  "quotas \<Rightarrow> string \<Rightarrow> api \<Rightarrow> db \<Rightarrow> (account_view \<times> limits \<times> (string \<times> nat) list) list \<times> limits" where
  "accounts_get q month a d =
     (map (\<lambda>v. (v, limitsFor (av_id v) d q, usageFor d q month (av_id v) a)) (list_accounts d), defaults q)"

definition accounts_post ::
  "(string \<Rightarrow> bytes \<Rightarrow> nat \<Rightarrow> bytes) \<Rightarrow> bytes \<Rightarrow> time \<Rightarrow> jsval \<Rightarrow> db \<Rightarrow> db \<times> account_view Accounts.reply" where
  "accounts_post scrypt salt now body d =
     (case body_prop body ''username'' of
        Inl e \<Rightarrow> (d, Throw e)
      | Inr username \<Rightarrow> create_account scrypt salt now username (js_get body ''password'') (js_get body ''role'') d)"

text \<open>The quotas of the body: undefined, null or an object, as update takes them.\<close>

definition quotas_of_body :: "jsval \<Rightarrow> jsval result" where
  "quotas_of_body body =
     bind (body_prop body ''quotas'') (\<lambda>v.
     if v = JUndef then Inr JUndef
     else bind (parseOverride v) (\<lambda>q. Inr (case q of None \<Rightarrow> JNull | Some ls \<Rightarrow> limits_value ls)))"

definition accounts_put ::
  "(string \<Rightarrow> bytes \<Rightarrow> nat \<Rightarrow> bytes) \<Rightarrow> bytes \<Rightarrow> signed_in \<Rightarrow> string \<Rightarrow> jsval \<Rightarrow> db \<Rightarrow> db \<times> account_view Accounts.reply" where
  "accounts_put scrypt salt s text body d =
     (let own = (row_id text = Some (a_id (in_account s)))
      in if own \<and> body = JNull then (d, case body_prop body ''role'' of Inl e \<Rightarrow> Throw e | Inr _ \<Rightarrow> NO_ACCOUNT)
         else if own \<and> js_get body ''role'' \<noteq> JUndef \<and> js_get body ''role'' \<noteq> JStr (in_role s)
         then (d, Accounts.Refuse 409 ''You cannot change your own role'')
         else (case quotas_of_body body of
                 Inl e \<Rightarrow> (d, Accounts.Refuse 400 (err_message e))
               | Inr q \<Rightarrow>
                   (case row_id text of
                      None \<Rightarrow> (d, NO_ACCOUNT)
                    | Some i \<Rightarrow> update_account scrypt salt i (js_get body ''role'') (js_get body ''password'') q d)))"

definition accounts_delete :: "signed_in \<Rightarrow> string \<Rightarrow> db \<Rightarrow> db \<times> unit Accounts.reply" where
  "accounts_delete s text d =
     (if row_id text = Some (a_id (in_account s)) then (d, Accounts.Refuse 409 ''You cannot delete your own account'')
      else (case row_id text of None \<Rightarrow> (d, NO_ACCOUNT) | Some i \<Rightarrow> remove_account i d))"

subsection \<open>devices.js\<close>

definition devices_get :: "signed_in \<Rightarrow> office \<Rightarrow> device_view list" where
  "devices_get s v = list_devices (scope s) (of_db v)"

definition devices_post ::
  "(bytes \<Rightarrow> bytes) \<Rightarrow> bytes \<Rightarrow> time \<Rightarrow> signed_in \<Rightarrow> jsval \<Rightarrow> office \<Rightarrow> office \<times> (device_view \<times> string) Accounts.reply" where
  "devices_post sha rnd now s body v =
     (case body_prop body ''name'' of
        Inl e \<Rightarrow> (v, Throw e)
      | Inr name \<Rightarrow>
          (case createKey sha rnd now (a_id (in_account s)) name (of_db v) of (d, r) \<Rightarrow> (v\<lparr>of_db := d\<rparr>, r)))"

definition pending_get ::
  "time \<Rightarrow> string \<Rightarrow> office \<Rightarrow> office \<times> (string \<times> string \<times> string \<times> string \<times> time \<times> time \<times> string) Accounts.reply" where
  "pending_get now code v =
     (case describe_pending now (JStr code) (of_pending v) of
        (m, None) \<Rightarrow> (v\<lparr>of_pending := m\<rparr>, Accounts.Refuse 404 ''That code is unknown or has expired'')
      | (m, Some r) \<Rightarrow> (v\<lparr>of_pending := m\<rparr>, Accounts.Reply r))"

definition pending_approve ::
  "(bytes \<Rightarrow> bytes) \<Rightarrow> bytes \<Rightarrow> time \<Rightarrow> signed_in \<Rightarrow> string \<Rightarrow> jsval \<Rightarrow> office \<Rightarrow> office \<times> device_view Accounts.reply" where
  "pending_approve sha rnd now s code body v =
     (case body_prop body ''name'' of
        Inl e \<Rightarrow> (v, Throw e)
      | Inr name \<Rightarrow>
          (case approve sha rnd now (JStr code) name (a_id (in_account s)) (of_pending v) (of_db v) of
             (m, d, r) \<Rightarrow> (v\<lparr>of_pending := m, of_db := d\<rparr>, r)))"

definition pending_deny :: "time \<Rightarrow> string \<Rightarrow> office \<Rightarrow> office \<times> unit Accounts.reply" where
  "pending_deny now code v = (case deny now (JStr code) (of_pending v) of (m, r) \<Rightarrow> (v\<lparr>of_pending := m\<rparr>, r))"

definition device_credential :: "nat \<Rightarrow> string" where
  "device_credential i = ''device:'' @ show_nat i"

definition devices_delete :: "signed_in \<Rightarrow> string \<Rightarrow> office \<Rightarrow> office \<times> string Accounts.reply" where
  "devices_delete s text v =
     (case row_id text of
        None \<Rightarrow> (v, Accounts.Refuse 404 ''Device not found'')
      | Some i \<Rightarrow>
          (case revoke_device i (scope s) (of_db v) of
             (d, Accounts.Reply m) \<Rightarrow>
               (v\<lparr>of_db := d, of_registry := closeCredential (device_credential i) ''device revoked'' (of_registry v)\<rparr>, Accounts.Reply m)
           | (d, r) \<Rightarrow> (v\<lparr>of_db := d\<rparr>, r)))"

subsection \<open>invites.js\<close>

definition invites_get :: "signed_in \<Rightarrow> office \<Rightarrow> (invite \<times> string option) list" where
  "invites_get s v = list_invites (scope s) (of_db v)"

definition invites_post ::
  "(bytes \<Rightarrow> bytes) \<Rightarrow> bytes \<Rightarrow> time \<Rightarrow> string \<Rightarrow> signed_in \<Rightarrow> jsval \<Rightarrow> office \<Rightarrow> office \<times> (invite \<times> string) Accounts.reply" where
  "invites_post sha rnd now site s body v =
     (case body_prop body ''label'' of
        Inl e \<Rightarrow> (v, Throw e)
      | Inr name \<Rightarrow>
          (case create_invite sha rnd now (a_id (in_account s)) name (of_db v) of
             (d, Accounts.Reply (x, token)) \<Rightarrow> (v\<lparr>of_db := d\<rparr>, Accounts.Reply (x, linkFor site token))
           | (d, Accounts.Refuse code m) \<Rightarrow> (v\<lparr>of_db := d\<rparr>, Accounts.Refuse code m)
           | (d, Throw e) \<Rightarrow> (v\<lparr>of_db := d\<rparr>, Throw e)))"

definition invite_credential :: "nat \<Rightarrow> string" where
  "invite_credential i = ''invite:'' @ show_nat i"

definition invites_delete :: "signed_in \<Rightarrow> string \<Rightarrow> office \<Rightarrow> office \<times> string Accounts.reply" where
  "invites_delete s text v =
     (case row_id text of
        None \<Rightarrow> (v, Accounts.Refuse 404 ''Invite not found'')
      | Some i \<Rightarrow>
          (case revoke_invite i (scope s) (of_db v) of
             (d, Accounts.Reply m) \<Rightarrow>
               (v\<lparr>of_db := d, of_registry := closeCredential (invite_credential i) ''invite revoked'' (of_registry v)\<rparr>, Accounts.Reply m)
           | (d, r) \<Rightarrow> (v\<lparr>of_db := d\<rparr>, r)))"

subsection \<open>auth.js\<close>

text \<open>POST /logout: a session of a device has no cookie.\<close>

definition logout_route :: "string option \<Rightarrow> bool \<Rightarrow> db \<Rightarrow> db \<times> string" where
  "logout_route token secure d =
     (logout (case token of None \<Rightarrow> [] | Some t \<Rightarrow> t) d, clearSessionCookie secure)"

text \<open>GET /totp/setup, POST /totp/enable and POST /totp/disable; enabling clears the cookie.\<close>

definition totp_setup_route :: "string \<Rightarrow> signed_in \<Rightarrow> db \<Rightarrow> db \<times> string Accounts.reply" where
  "totp_setup_route generated s d = begin_totp generated (in_account s) d"

definition totp_enable_route :: "totp_check \<Rightarrow> bool \<Rightarrow> signed_in \<Rightarrow> jsval \<Rightarrow> db \<Rightarrow> db \<times> string Accounts.reply" where
  "totp_enable_route check secure s body d =
     (case body_prop body ''code'' of
        Inl e \<Rightarrow> (d, Throw e)
      | Inr code \<Rightarrow>
          (case enable_totp check (in_account s) code d of
             (d', Accounts.Reply _) \<Rightarrow> (d', Accounts.Reply (clearSessionCookie secure))
           | (d', Accounts.Refuse c m) \<Rightarrow> (d', Accounts.Refuse c m)
           | (d', Throw e) \<Rightarrow> (d', Throw e)))"

definition totp_disable_route :: "totp_check \<Rightarrow> signed_in \<Rightarrow> jsval \<Rightarrow> db \<Rightarrow> db \<times> unit Accounts.reply" where
  "totp_disable_route check s body d =
     (case body_prop body ''code'' of Inl e \<Rightarrow> (d, Throw e) | Inr code \<Rightarrow> disable_totp check (in_account s) code d)"

text \<open>DELETE /passkeys/:id.\<close>

definition passkey_remove_route :: "signed_in \<Rightarrow> string \<Rightarrow> signin \<Rightarrow> signin \<times> string Accounts.reply" where
  "passkey_remove_route s text w =
     (case row_id text of
        None \<Rightarrow> (w, Accounts.Refuse 404 ''Passkey not found'')
      | Some i \<Rightarrow> remove_passkey (a_id (in_account s)) (JInt (int i)) w)"

subsection \<open>Revocation\<close>

lemma get_after_remove:
  assumes "reg_inv r"
  shows "get_tunnel j (remove i reason r) = (if j = i then None else get_tunnel j r)"
proof (cases "get_tunnel i r")
  case None
  then show ?thesis by (auto simp: remove_none)
next
  case (Some p)
  obtain oid t where p: "get_tunnel i r = Some (oid, t)" using Some by (cases p) auto
  then have n: "map_get (names r) i = Some oid" by (auto simp: get_tunnel_def split: option.splits)
  have "oid' \<noteq> oid" if "map_get (names r) j = Some oid'" "j \<noteq> i" for oid'
    using that n assms unfolding reg_inv_def by (metis option.inject)
  then show ?thesis
    by (auto simp: get_tunnel_def remove_frame(1,3) [OF p] split: option.split)
qed

lemma get_after_remove_each:
  "reg_inv r \<Longrightarrow> get_tunnel j (remove_each is reason r) = (if j \<in> set is then None else get_tunnel j r)"
proof (induction "is" arbitrary: r)
  case (Cons i "is")
  have "reg_inv (remove i reason r)"
  proof -
    have "RegistryLife.kept UNIV r" by (simp add: RegistryLife.kept_def)
    then show ?thesis using remove_keeps Cons.prems by blast
  qed
  then show ?case using Cons by (simp add: get_after_remove)
qed simp

lemma names_where_iff:
  assumes "reg_inv r"
  shows "i \<in> set (names_where P r) \<longleftrightarrow> (\<exists>oid t. get_tunnel i r = Some (oid, t) \<and> P t)"
proof -
  have wf: "wf_map (names r)" using assms by (simp add: reg_inv_def)
  have "(i, oid) \<in> set (names r) \<longleftrightarrow> map_get (names r) i = Some oid" for oid
    using wf by (auto intro: map_of_is_SomeI dest: map_of_SomeD)
  then show ?thesis
    by (fastforce simp: names_where_def get_tunnel_def image_iff split: option.splits)
qed

lemma get_after_close:
  assumes "reg_inv r"
  shows "get_tunnel j (closeCredential c reason r) =
    (case get_tunnel j r of None \<Rightarrow> None | Some (oid, t) \<Rightarrow> if tn_credential t = Some c then None else Some (oid, t))"
  by (auto simp: closeCredential_def get_after_remove_each [OF assms] names_where_iff [OF assms] split: option.splits)

definition cut_off :: "string \<Rightarrow> registry \<Rightarrow> registry \<Rightarrow> bool" where
  "cut_off c r r' \<longleftrightarrow> (\<forall>j. get_tunnel j r' =
     (case get_tunnel j r of None \<Rightarrow> None | Some (oid, t) \<Rightarrow> if tn_credential t = Some c then None else Some (oid, t)))"

text \<open>Who may revoke: the account the row belongs to, and admins.\<close>

definition may_revoke :: "signed_in \<Rightarrow> nat \<Rightarrow> bool" where
  "may_revoke s owner \<longleftrightarrow> in_role s = ''admin'' \<or> owner = a_id (in_account s)"

lemma scoped_scope: "scoped (scope s) owner \<longleftrightarrow> may_revoke s owner"
  by (simp add: scoped_def scope_def may_revoke_def)

lemma find_member: "find P xs = Some x \<Longrightarrow> x \<in> set xs"
  by (auto simp: find_Some_iff)

lemma verify_device_member: "snd (verify_device sha now token d) = Some y \<Longrightarrow> y \<in> set (devices d)"
  by (auto simp: verify_device_def split: jsval.splits if_splits option.splits dest: find_member)

lemma verify_invite_member: "verify_invite sha token d = Some y \<Longrightarrow> y \<in> set (invites d)"
  by (auto simp: verify_invite_def split: jsval.splits if_splits dest: find_member)

lemma device_revocation:
  assumes "reg_inv (of_registry v)"
  shows "case devices_delete s text v of
      (v', Accounts.Reply _) \<Rightarrow> (\<exists>x \<in> set (devices (of_db v)). row_id text = Some (d_id x) \<and> may_revoke s (d_accountId x) \<and>
         devices (of_db v') = filter (\<lambda>y. d_id y \<noteq> d_id x) (devices (of_db v)) \<and>
         cut_off (device_credential (d_id x)) (of_registry v) (of_registry v') \<and>
         (\<forall>sha now token y. snd (verify_device sha now token (of_db v')) = Some y \<longrightarrow> d_id y \<noteq> d_id x))
    | (v', _) \<Rightarrow> v' = v"
proof (cases "row_id text")
  case (Some i)
  show ?thesis
  proof (cases "find (\<lambda>x. d_id x = i \<and> scoped (scope s) (d_accountId x)) (devices (of_db v))")
    case None
    then show ?thesis using Some by (simp add: devices_delete_def revoke_device_def)
  next
    case (Some x)
    then have x: "x \<in> set (devices (of_db v))" "d_id x = i" "may_revoke s (d_accountId x)"
      by (auto simp: find_Some_iff scoped_scope)
    have eq: "devices_delete s text v =
        (v\<lparr>of_db := of_db v\<lparr>devices := filter (\<lambda>y. d_id y \<noteq> i) (devices (of_db v))\<rparr>,
           of_registry := closeCredential (device_credential i) ''device revoked'' (of_registry v)\<rparr>,
         Accounts.Reply (d_name x @ '' revoked''))"
      using Some x(2) \<open>row_id text = Some i\<close> by (simp add: devices_delete_def revoke_device_def)
    have cut: "cut_off (device_credential i) (of_registry v) (closeCredential (device_credential i) ''device revoked'' (of_registry v))"
      by (simp add: cut_off_def get_after_close [OF assms])
    show ?thesis
      unfolding eq prod.case Accounts.reply.case
    proof (intro bexI [of _ x] conjI allI impI)
      let ?v = "v\<lparr>of_db := of_db v\<lparr>devices := filter (\<lambda>y. d_id y \<noteq> i) (devices (of_db v))\<rparr>,
           of_registry := closeCredential (device_credential i) ''device revoked'' (of_registry v)\<rparr>"
      show "x \<in> set (devices (of_db v))" by (rule x(1))
      show "row_id text = Some (d_id x)" using \<open>row_id text = Some i\<close> x(2) by simp
      show "may_revoke s (d_accountId x)" by (rule x(3))
      show "devices (of_db ?v) = filter (\<lambda>y. d_id y \<noteq> d_id x) (devices (of_db v))" using x(2) by simp
      show "cut_off (device_credential (d_id x)) (of_registry v) (of_registry ?v)" using cut x(2) by simp
      show "d_id y \<noteq> d_id x" if "snd (verify_device sha now token (of_db ?v)) = Some y" for sha now token y
        using verify_device_member [OF that] x(2) by simp
    qed
  qed
qed (simp add: devices_delete_def)

lemma invite_revocation:
  assumes "reg_inv (of_registry v)"
  shows "case invites_delete s text v of
      (v', Accounts.Reply _) \<Rightarrow> (\<exists>x \<in> set (invites (of_db v)). row_id text = Some (n_id x) \<and> may_revoke s (n_accountId x) \<and>
         invites (of_db v') = filter (\<lambda>y. n_id y \<noteq> n_id x) (invites (of_db v)) \<and>
         cut_off (invite_credential (n_id x)) (of_registry v) (of_registry v') \<and>
         (\<forall>sha token y. verify_invite sha token (of_db v') = Some y \<longrightarrow> n_id y \<noteq> n_id x))
    | (v', _) \<Rightarrow> v' = v"
proof (cases "row_id text")
  case (Some i)
  show ?thesis
  proof (cases "find (\<lambda>x. n_id x = i \<and> scoped (scope s) (n_accountId x)) (invites (of_db v))")
    case None
    then show ?thesis using Some by (simp add: invites_delete_def revoke_invite_def)
  next
    case (Some x)
    then have x: "x \<in> set (invites (of_db v))" "n_id x = i" "may_revoke s (n_accountId x)"
      by (auto simp: find_Some_iff scoped_scope)
    have eq: "invites_delete s text v =
        (v\<lparr>of_db := of_db v\<lparr>invites := filter (\<lambda>y. n_id y \<noteq> i) (invites (of_db v))\<rparr>,
           of_registry := closeCredential (invite_credential i) ''invite revoked'' (of_registry v)\<rparr>,
         Accounts.Reply (n_label x @ '' revoked''))"
      using Some x(2) \<open>row_id text = Some i\<close> by (simp add: invites_delete_def revoke_invite_def)
    have cut: "cut_off (invite_credential i) (of_registry v) (closeCredential (invite_credential i) ''invite revoked'' (of_registry v))"
      by (simp add: cut_off_def get_after_close [OF assms])
    show ?thesis
      unfolding eq prod.case Accounts.reply.case
    proof (intro bexI [of _ x] conjI allI impI)
      let ?v = "v\<lparr>of_db := of_db v\<lparr>invites := filter (\<lambda>y. n_id y \<noteq> i) (invites (of_db v))\<rparr>,
           of_registry := closeCredential (invite_credential i) ''invite revoked'' (of_registry v)\<rparr>"
      show "x \<in> set (invites (of_db v))" by (rule x(1))
      show "row_id text = Some (n_id x)" using \<open>row_id text = Some i\<close> x(2) by simp
      show "may_revoke s (n_accountId x)" by (rule x(3))
      show "invites (of_db ?v) = filter (\<lambda>y. n_id y \<noteq> n_id x) (invites (of_db v))" using x(2) by simp
      show "cut_off (invite_credential (n_id x)) (of_registry v) (of_registry ?v)" using cut x(2) by simp
      show "n_id y \<noteq> n_id x" if "verify_invite sha token (of_db ?v) = Some y" for sha token y
        using verify_invite_member [OF that] x(2) by simp
    qed
  qed
qed (simp add: invites_delete_def)


definition sample_office :: office where
  "sample_office = \<lparr>of_db = cs_db sample_control_server,
     of_registry = (reg_init [])\<lparr>objs := [(0, sample_tunnel\<lparr>tn_credential := Some (device_credential 3)\<rparr>)], names := [(''web'', 0)], nextObj := 1\<rparr>,
     of_pending = []\<rparr>"

definition sample_caller :: "nat \<Rightarrow> string \<Rightarrow> signed_in" where
  "sample_caller i role = \<lparr>in_account = (hd (accounts (cs_db sample_control_server)))\<lparr>a_id := i, a_role := role\<rparr>, in_username = ''ann'',
     in_role = role, in_device = False\<rparr>"


text \<open>
  A command line client whose hello was accepted before its token was revoked has no tunnel
  yet that could be removed, and its registration is not checked again: it registers a tunnel
  with the revoked credential.
\<close>

definition after_revocation :: "control \<times> control_server" where
  "after_revocation = (case sample_signed_in of (ct, v) \<Rightarrow>
     let w = fst (devices_delete (sample_caller 7 ''user'') ''3'' \<lparr>of_db = cs_db v, of_registry = cs_registry v, of_pending = []\<rparr>)
     in (ct, v\<lparr>cs_db := of_db w, cs_registry := of_registry w\<rparr>))"

lemma revoked_device_registers:
  "devices (cs_db (snd after_revocation)) = []"
  "map_option tn_credential (map_get (objs (cs_registry (snd (sample_run None sample_register after_revocation)))) 0) =
     Some (Some (device_credential 3))"
proof -
  have c3: "device_credential 3 = ''device:3''" by code_simp
  show "devices (cs_db (snd after_revocation)) = []" by code_simp
  have f: "cs_registry (snd after_revocation) = cs_registry (snd sample_signed_in)"
    "fst after_revocation = \<lparr>ct_state = SSetup, ct_role = Some ''owner'', ct_attached = None\<rparr>"
    "session_limits sample_env 0 (snd after_revocation) = (NONE, 0)"
    unfolding sample_signed_in_facts(1) by code_simp+
  obtain v where v: "after_revocation = (\<lparr>ct_state = SSetup, ct_role = Some ''owner'', ct_attached = None\<rparr>, v)"
    using f(2) by (metis prod.collapse)
  have "\<exists>r t. register (\<lambda>b. b) (\<lambda>_ _ _. []) [] [1] (replicate 26 0) [] run_config NONE 0 5 0 sample_register (cs_registry v) =
      Inr (r, 0, False) \<and> map_get (objs r) 0 = Some t \<and> tn_credential t = Some (device_credential 3)"
    using sample_signed_in_facts(3) f(1) unfolding v sample_signed_in_facts(1)
    by (simp add: sample_register_def register_def sample_target register_new_def register_commit_def enforce_def enforceTraffic_def limit_at_def NONE_def
        KEYS_def run_config_def new_session_def reg_init_def new_Tunnel_def attach_def Let_def on_tunnel_objs c3)
  then show "map_option tn_credential (map_get (objs (cs_registry (snd (sample_run None sample_register after_revocation)))) 0) =
     Some (Some (device_credential 3))"
    using f(3) by (auto simp: v sample_run_def handle_control_def handle_setup_def sample_env_def sample_draws_def Let_def sample_register_def)
qed

subsection \<open>An administrator cannot lock themselves out\<close>

lemma find_append: "find P (xs @ ys) = (case find P xs of None \<Rightarrow> find P ys | Some x \<Rightarrow> Some x)"
  by (induction xs) auto

lemma find_map_keeps:
  "(\<And>a. P (f a) = P a) \<Longrightarrow> find P (map f xs) = map_option f (find P xs)"
  by (induction xs) auto

lemma find_filter_keeps: "(\<And>a. P a \<Longrightarrow> Q a) \<Longrightarrow> find P (filter Q xs) = find P xs"
  by (induction xs) auto

lemma create_keeps_account:
  "byId i d = Some a \<Longrightarrow> byId i (fst (create_account sc salt now u p r d)) = Some a"
  by (auto simp: create_account_def insert_account_def byId_def find_append Let_def split: option.splits sum.splits jsval.splits)

lemma update_keeps_account:
  assumes "byId k d = Some a" "i = k \<longrightarrow> r = JUndef \<or> r = JStr (a_role a)"
  shows "\<exists>b. byId k (fst (update_account sc salt i r p q d)) = Some b \<and> a_id b = a_id a \<and> a_username b = a_username a \<and> a_role b = a_role a"
proof (rule update_account_cases [of sc salt i r p q d])
  assume "fst (update_account sc salt i r p q d) = d"
  then show ?thesis using assms(1) by simp
next
  fix acc hash
  let ?f = "\<lambda>a. if a_id a = i then updated_row r p hash q acc a else a"
  assume acc: "byId i d = Some acc"
    and eq: "fst (update_account sc salt i r p q d) = put_account i (updated_row r p hash q acc) (if p = JUndef then d else forAccount i d)"
  have "accounts (put_account i (updated_row r p hash q acc) (if p = JUndef then d else forAccount i d)) = map ?f (accounts d)"
    by (simp add: put_account_def forAccount_def)
  then have "byId k (fst (update_account sc salt i r p q d)) = map_option ?f (byId k d)"
    unfolding eq byId_def by (simp add: find_map_keeps updated_row_def)
  then have "byId k (fst (update_account sc salt i r p q d)) = Some (?f a)" using assms(1) by simp
  moreover have "a_id (?f a) = a_id a" "a_username (?f a) = a_username a" by (simp_all add: updated_row_def)
  moreover have "a_role (?f a) = a_role a"
    using assms acc byId_SomeD [OF assms(1)] by (cases "i = k") (auto simp: updated_row_def)
  ultimately show ?thesis by blast
qed

lemma remove_keeps_account:
  "byId k d = Some a \<Longrightarrow> i \<noteq> k \<Longrightarrow> byId k (fst (remove_account i d)) = Some a"
  using find_filter_keeps [of "\<lambda>a. a_id a = k" "\<lambda>a. a_id a \<noteq> i" "accounts d"]
  by (auto simp: remove_account_def byId_def split: option.splits)

text \<open>
  Whatever a signed-in administrator asks of the routes of the accounts, their own account
  is still there afterwards, with the same id, name and role; of the own account only the
  password and the limits can be changed.
\<close>

theorem caller_keeps_account:
  assumes "byId (a_id (in_account s)) d = Some a" "in_role s = a_role a"
      and "d' \<in> {fst (accounts_post scrypt salt now body d), fst (accounts_put scrypt salt s text body d), fst (accounts_delete s text d)}"
  shows "\<exists>b. byId (a_id (in_account s)) d' = Some b \<and> a_id b = a_id a \<and> a_username b = a_username a \<and> a_role b = a_role a"
proof -
  let ?k = "a_id (in_account s)" and ?same = "\<lambda>d'. \<exists>b. byId (a_id (in_account s)) d' = Some b \<and> a_id b = a_id a \<and> a_username b = a_username a \<and> a_role b = a_role a"
  have same: "?same d" using assms(1) by simp
  have "?same (fst (accounts_post scrypt salt now body d))"
    using same create_keeps_account [OF assms(1)] by (simp add: accounts_post_def split: sum.split)
  moreover have "?same (fst (accounts_put scrypt salt s text body d))"
  proof -
    have "?same (fst (update_account scrypt salt i (js_get body ''role'') (js_get body ''password'') q d))"
      if "i = ?k \<longrightarrow> js_get body ''role'' = JUndef \<or> js_get body ''role'' = JStr (in_role s)" for i q
      by (rule update_keeps_account [OF assms(1)]) (use that assms(2) in simp)
    then show ?thesis using same by (auto simp: accounts_put_def Let_def split: sum.split option.split)
  qed
  moreover have "?same (fst (accounts_delete s text d))"
    using same remove_keeps_account [OF assms(1)] by (auto simp: accounts_delete_def split: option.split)
  ultimately show ?thesis using assms(3) by blast
qed

theorem caller_keeps_account_witness:
  "\<exists>b. byId 1 (fst (accounts_put (\<lambda>_ _ _. []) [] (sample_caller 1 ''admin'') ''1'' (JObj [(''role'', JStr ''user'')]) sample_db)) = Some b \<and> a_role b = ''admin''"
proof -
  let ?s = "sample_caller 1 ''admin''"
  have "a_id (in_account ?s) = 1" "in_role ?s = ''admin''" by (simp_all add: sample_caller_def)
  moreover have "byId 1 sample_db = Some (hd (accounts sample_db))" "a_role (hd (accounts sample_db)) = ''admin''"
    by (simp_all add: byId_def sample_db_def)
  ultimately show ?thesis
    using caller_keeps_account [of ?s sample_db "hd (accounts sample_db)" "fst (accounts_put (\<lambda>_ _ _. []) [] ?s ''1'' (JObj [(''role'', JStr ''user'')]) sample_db)"
        "\<lambda>_ _ _. []" "[]" 0 "JObj [(''role'', JStr ''user'')]" "''1''"] by auto
qed

text \<open>Removing an account does not touch the registry: a tunnel it had opened stays reachable, now
  without an account that owns it.\<close>

definition sample_removal :: office where
  "sample_removal = (let v = sample_office\<lparr>of_registry := (reg_init [])\<lparr>objs := [(0, sample_tunnel\<lparr>tn_accountId := Some 7\<rparr>)], names := [(''web'', 0)], nextObj := 1\<rparr>\<rparr>
     in v\<lparr>of_db := fst (accounts_delete (sample_caller 1 ''admin'') ''7'' (of_db v))\<rparr>)"

lemma removed_account_keeps_tunnels:
  "byId 7 (of_db sample_removal) = None"
  "map_option (\<lambda>(_, t). tn_accountId t) (get_tunnel ''web'' (of_registry sample_removal)) = Some (Some 7)"
  by code_simp+

end
