(* ===== verification/AdminRoutes.thy ===== *)
theory AdminRoutes
  imports ApiTable AccountRoutes Tls Config
begin

text \<open>
  The handlers of src/server/routes/setup.js, settings.js, quotas.js, persistent.js, and those of
  routes/oidc.js, routes/tls.js and routes/auth.js that only hand on: what each takes from the request for its
  controller, and what it answers. They stand behind the guards of the table of the API.
\<close>

subsection \<open>setup.js\<close>

definition setup_status_route :: "setup_world \<Rightarrow> bool \<times> jsval \<times> (cfg \<times> (string \<times> string option) list) option" where
  "setup_status_route w = getSetupStatus (sw_settings w) (sw_db w)"

text \<open>POST /complete: the account made by the setup is signed in with it.\<close>

definition setup_complete_route ::
  "(string \<Rightarrow> bytes \<Rightarrow> nat \<Rightarrow> bytes) \<Rightarrow> bytes \<Rightarrow> string \<Rightarrow> time \<Rightarrow> client_info \<Rightarrow> jsval \<Rightarrow> setup_world \<Rightarrow>
   setup_world \<times> string Accounts.reply" where
  "setup_complete_route scrypt salt token now req body w =
     (case body_prop body ''username'' of
        Inl e \<Rightarrow> (w, Throw e)
      | Inr username \<Rightarrow>
          (case completeSetup scrypt salt now username (js_get body ''password'') (js_get body ''settings'') w of
             (w', Accounts.Reply v) \<Rightarrow>
               (w'\<lparr>sw_db := fst (create_session token now (av_id v) (ci_clientIp req) (ci_userAgent req) (sw_db w'))\<rparr>,
                Accounts.Reply (sessionCookie token (ci_secure req)))
           | (w', Accounts.Refuse code m) \<Rightarrow> (w', Accounts.Refuse code m)
           | (w', Throw e) \<Rightarrow> (w', Throw e)))"

subsection \<open>settings.js\<close>

definition settings_get_route :: "setup_world \<Rightarrow> cfg \<times> (string \<times> string option) list \<times> jsval \<times> jsval \<times> jsval" where
  "settings_get_route w = getSettings (sw_settings w)"

definition settings_put_route :: "jsval \<Rightarrow> setup_world \<Rightarrow> setup_world \<times> settings Accounts.reply" where
  "settings_put_route body w =
     (case body_prop body (hd UI_SETTING_KEYS) of Inl e \<Rightarrow> (w, Throw e) | Inr _ \<Rightarrow> updateSettings body w)"

definition settings_password_route ::
  "(string \<Rightarrow> bytes \<Rightarrow> nat \<Rightarrow> bytes) \<Rightarrow> bytes \<Rightarrow> signed_in \<Rightarrow> jsval \<Rightarrow> setup_world \<Rightarrow> setup_world \<times> string Accounts.reply" where
  "settings_password_route scrypt salt s body w =
     (case body_prop body ''currentPassword'' of
        Inl e \<Rightarrow> (w, Throw e)
      | Inr current \<Rightarrow>
          (case changePassword scrypt salt (in_account s) current (js_get body ''newPassword'') (sw_db w) of
             (d, r) \<Rightarrow> (w\<lparr>sw_db := d\<rparr>, r)))"

subsection \<open>quotas.js\<close>

text \<open>req.body || \{\}: a body that counts as false is an empty object.\<close>

definition body_or_object :: "jsval \<Rightarrow> jsval" where
  "body_or_object body = (if truthy body then body else JObj [])"

definition quotas_get_route ::
  "db \<Rightarrow> string \<Rightarrow> signed_in \<Rightarrow> quotas \<times> api \<Rightarrow> limits \<times> limits \<times> (string \<times> nat) list" where
  "quotas_get_route d month s w = quotas_mine d (fst w) month (a_id (in_account s)) (snd w)"

definition quotas_put_route :: "jsval \<Rightarrow> quotas \<times> api \<Rightarrow> (quotas \<times> api) \<times> limits TunnelsApi.reply" where
  "quotas_put_route body w =
     (case quotas_saveDefaults (body_or_object body) (fst w) of (q, r) \<Rightarrow> ((q, snd w), r))"

subsection \<open>persistent.js\<close>

datatype persistent_answer =
    PRefuse nat string
  | PList "unit persistent_view list" time
  | POne "unit persistent_view"
  | PStored string "unit persistent_view option"
  | PAccess policy_view
  | PDomain string "unit domain_view"
  | PDone string

definition preply :: "(string \<Rightarrow> 'a \<Rightarrow> persistent_answer) \<Rightarrow> 'a TunnelsApi.reply \<Rightarrow> persistent_answer" where
  "preply f r = (case r of TunnelsApi.Refuse code m \<Rightarrow> PRefuse code m | TunnelsApi.Reply m x \<Rightarrow> f m x)"

definition persistent_route ::
  "api_env \<Rightarrow> time \<Rightarrow> signed_in \<Rightarrow> persistent_op \<Rightarrow> (string \<Rightarrow> string) \<Rightarrow> jsval \<Rightarrow> api \<Rightarrow> api \<times> persistent_answer" where
  "persistent_route e now s op p body a =
     (let v = \<lparr>vw_role = in_role s, vw_account = a_id (in_account s), vw_username = in_username s\<rparr>;
          c = env_config e; name = to_lower (p ''name''); hostname = JStr (p ''hostname''); input = body_or_object body;
          info = (\<lambda>_. ())
      in case op of
           PersistentList \<Rightarrow> (a, PList (persistent_list c info (env_db e) v a) now)
         | PersistentCreate \<Rightarrow>
             map_prod id (preply PStored) (persistent_create c info (env_scrypt e) (env_salt e) (env_db e) (env_quotas e) now input v a)
         | PersistentGet \<Rightarrow> (a, preply (\<lambda>_. POne) (persistent_get c info name v a))
         | PersistentAccess \<Rightarrow>
             map_prod id (preply (\<lambda>_. PAccess)) (persistent_updateAccess (env_scrypt e) (env_salt e) name input v a)
         | PersistentRemove \<Rightarrow> map_prod id (preply (\<lambda>m _. PDone m)) (persistent_remove name v a)
         | DomainAdd \<Rightarrow>
             map_prod id (preply PDomain) (addDomain c info (env_db e) (env_quotas e) now name input v a)
         | DomainCheck \<Rightarrow>
             map_prod id (preply PDomain)
               (checkDomain c info (env_tls e) (env_due e) (env_dns e) (env_issued e) now name hostname v a)
         | DomainRemove \<Rightarrow> map_prod id (preply (\<lambda>m _. PDone m)) (removeDomain name hostname v a))"

subsection \<open>oidc.js\<close>

definition oidc_get_route :: "string \<Rightarrow> signin \<Rightarrow> provider_view list \<times> string" where
  "oidc_get_route site w = (list_providers w, redirectUri site)"

definition oidc_post_route :: "platform \<Rightarrow> time \<Rightarrow> jsval \<Rightarrow> signin \<Rightarrow> signin \<times> provider_view Accounts.reply" where
  "oidc_post_route ext now body w = save_provider ext now JNull (pick_provider (body_or_object body)) w"

text \<open>Number of a text that is none is NaN, which counts as false and equals no id.\<close>

definition js_id :: "string \<Rightarrow> jsval" where
  "js_id text = (case number_of_string text of None \<Rightarrow> JUndef | Some i \<Rightarrow> JInt i)"

definition oidc_put_route ::
  "platform \<Rightarrow> time \<Rightarrow> string \<Rightarrow> jsval \<Rightarrow> signin \<Rightarrow> signin \<times> provider_view Accounts.reply" where
  "oidc_put_route ext now text body w = save_provider ext now (js_id text) (pick_provider (body_or_object body)) w"

definition oidc_delete_route :: "string \<Rightarrow> signin \<Rightarrow> signin \<times> string Accounts.reply" where
  "oidc_delete_route text w = remove_provider (js_id text) w"

subsection \<open>tls.js\<close>

record tls_view =
  tv_mode :: jsval
  tv_wildcard :: jsval
  tv_httpsPort :: jsval
  tv_redirectPort :: jsval
  tv_providers :: "(string \<times> string \<times> bool \<times> string option \<times> bool) list"
  tv_acme :: "string option \<times> string \<times> bool"
  tv_status :: tls_status

definition tls_get_route :: "cfg \<Rightarrow> tls_config \<Rightarrow> time \<Rightarrow> tls_world \<Rightarrow> tls_view" where
  "tls_get_route settings c now w =
     \<lparr>tv_mode = cget settings ''tlsMode'', tv_wildcard = cget settings ''wildcard'', tv_httpsPort = cget settings ''httpsPort'',
      tv_redirectPort = cget settings ''redirectPort'', tv_providers = describe_providers,
      tv_acme = describe_acme (acme_settings_of (tw_store w)), tv_status = status c now w\<rparr>"

definition tls_request_route :: "string \<Rightarrow> tls_config \<Rightarrow> time \<Rightarrow> tls_world \<Rightarrow> tls_world \<times> tls_status Accounts.reply" where
  "tls_request_route generated c now w =
     (case request_check c w of
        Accounts.Reply _ \<Rightarrow> (case acme_client generated w of (w', a, _) \<Rightarrow> request_start c now a w')
      | Accounts.Refuse n m \<Rightarrow> (w, Accounts.Refuse n m)
      | Throw e \<Rightarrow> (w, Throw e))"

definition tls_status_route :: "tls_config \<Rightarrow> time \<Rightarrow> tls_world \<Rightarrow> tls_status" where
  "tls_status_route c now w = status c now w"

subsection \<open>auth.js: the routes that hand on\<close>

definition me_route :: "signed_in \<Rightarrow> time option \<Rightarrow> nat \<times> string \<times> string \<times> bool \<times> time option" where
  "me_route s createdAt = (a_id (in_account s), in_username s, in_role s, a_totpEnabled (in_account s), createdAt)"

definition providers_route :: "signin \<Rightarrow> (nat \<times> string) list" where
  "providers_route w = enabled_providers w"

text \<open>POST /oidc/:id/start, up to the discovery.\<close>

definition oidc_start_route :: "string \<Rightarrow> jsval \<Rightarrow> signin \<Rightarrow> (provider \<times> string option) Accounts.reply" where
  "oidc_start_route text body w =
     (case body_prop body ''next'' of
        Inl e \<Rightarrow> Throw e
      | Inr next \<Rightarrow>
          (case begin_provider (js_id text) w of
             Accounts.Reply p \<Rightarrow> Accounts.Reply (p, safeNext next)
           | Accounts.Refuse code m \<Rightarrow> Accounts.Refuse code m
           | Throw e \<Rightarrow> Throw e))"

definition passkey_options_route ::
  "platform \<Rightarrow> time \<Rightarrow> string \<Rightarrow> client_info \<Rightarrow> jsval \<Rightarrow> signin \<Rightarrow> signin \<times> authentication_request Accounts.reply" where
  "passkey_options_route ext now challenge req body w =
     (case body_prop body ''username'' of
        Inl e \<Rightarrow> (w, Throw e)
      | Inr username \<Rightarrow> startAuthentication ext now challenge username (originOf req) w)"

definition passkeys_route :: "signed_in \<Rightarrow> signin \<Rightarrow> passkey_view list" where
  "passkeys_route s w = list_passkeys (a_id (in_account s)) w"

definition passkey_new_route ::
  "platform \<Rightarrow> time \<Rightarrow> string \<Rightarrow> client_info \<Rightarrow> signed_in \<Rightarrow> signin \<Rightarrow> signin \<times> registration_request Accounts.reply" where
  "passkey_new_route ext now challenge req s w = startRegistration ext now challenge (in_account s) (originOf req) w"

text \<open>POST /passkeys: the challenge is taken first, the check of the response waits.\<close>

definition passkey_add_begin :: "platform \<Rightarrow> time \<Rightarrow> signed_in \<Rightarrow> jsval \<Rightarrow> signin \<Rightarrow> signin \<times> jsval Accounts.reply" where
  "passkey_add_begin ext now s body w =
     (case body_prop body ''response'' of
        Inl e \<Rightarrow> (w, Throw e)
      | Inr response \<Rightarrow> finishRegistration_take ext now (in_account s) response w)"

definition passkey_add_end ::
  "platform \<Rightarrow> time \<Rightarrow> client_info \<Rightarrow> signed_in \<Rightarrow> jsval \<Rightarrow> jsval \<Rightarrow> signin \<Rightarrow> signin \<times> unit Accounts.reply" where
  "passkey_add_end ext now req s body c w =
     finishRegistration_rest ext now (in_account s) (js_get body ''response'') (js_get body ''name'') (originOf req) c w"

subsection \<open>The first account\<close>

lemma create_first:
  assumes "accounts d = []" "create_account scrypt salt now u p (JStr ''admin'') d = (d', Accounts.Reply v)"
  shows "\<exists>a. accounts d' = [a] \<and> a_role a = ''admin'' \<and> av_id v = a_id a \<and> hash_value scrypt salt p = Inr (a_passwordHash a) \<and>
    db_sessions d' = db_sessions d \<and> nextSession d' = nextSession d"
  using assms
  by (auto simp: create_account_def insert_account_def byUsername_def describe_account_def Let_def
      split: option.splits if_splits jsval.splits sum.splits)

lemma completeSetup_refused:
  assumes "completeSetup scrypt salt now u p body w = (w', r)" "\<forall>v. r \<noteq> Accounts.Reply v"
  shows "sw_stored w' = sw_stored w"
  using assms by (auto simp: completeSetup_def Let_def split: option.splits sum.splits if_splits prod.splits Accounts.reply.splits)

lemma completeSetup_sessions:
  assumes "completeSetup scrypt salt now u p body w = (w', r)"
  shows "db_sessions (sw_db w') = db_sessions (sw_db w)"
proof -
  have "sw_db w' = sw_db w \<or> sw_db w' = fst (create_account scrypt salt now u p (JStr ''admin'') (sw_db w))"
    using assms by (auto simp: completeSetup_def Let_def split: option.splits sum.splits if_splits prod.splits Accounts.reply.splits)
  then show ?thesis by (cases rule: create_account_cases [of scrypt salt now u p "JStr ''admin''" "sw_db w"]) auto
qed

lemma completeSetup_closed:
  assumes "accounts (sw_db w) \<noteq> []"
  shows "completeSetup scrypt salt now u p body w = (w, Accounts.Refuse 409 ''Setup has already been completed'')"
  using assms by (simp add: completeSetup_def isSetupRequired_def account_count_def)

lemma completeSetup_opened:
  assumes "completeSetup scrypt salt now u p body w = (w', Accounts.Reply v)"
  shows "accounts (sw_db w) = [] \<and>
    (\<exists>a. accounts (sw_db w') = [a] \<and> a_role a = ''admin'' \<and> av_id v = a_id a \<and> hash_value scrypt salt p = Inr (a_passwordHash a)) \<and>
    db_sessions (sw_db w') = db_sessions (sw_db w)"
proof -
  have empty: "accounts (sw_db w) = []"
    using assms by (cases "accounts (sw_db w)") (auto simp: completeSetup_def isSetupRequired_def account_count_def)
  obtain w1 d where c: "create_account scrypt salt now u p (JStr ''admin'') (sw_db w) = (d, Accounts.Reply v)" "sw_db w' = d"
    using assms
    by (auto simp: completeSetup_def Let_def split: option.splits sum.splits if_splits prod.splits Accounts.reply.splits)
  show ?thesis using empty create_first [OF empty c(1)] c(2) by auto
qed


definition loaded :: "(string \<times> jsval) list \<Rightarrow> settings" where
  "loaded file =
     (case loadConfig ''config.yml'' (JObj file) (\<lambda>_. None) of
        Inr s \<Rightarrow> s | Inl _ \<Rightarrow> \<lparr>st_config = [], st_sources = [], st_setupRequired = True\<rparr>)"

definition fresh_server :: "(string \<times> jsval) list \<Rightarrow> setup_world" where
  "fresh_server file =
     \<lparr>sw_settings = loaded file,
      sw_db = \<lparr>accounts = [], db_sessions = [], devices = [], invites = [],
                nextAccount = 1, nextSession = 1, nextDevice = 1, nextInvite = 1\<rparr>, sw_stored = []\<rparr>"

definition setup_browser :: client_info where
  "setup_browser = \<lparr>ci_proto = ''http'', ci_host = ''t.example'', ci_clientIp = ''10.0.0.9'', ci_userAgent = [], ci_secure = False\<rparr>"

definition setup_request :: "(string \<times> jsval) list \<Rightarrow> jsval" where
  "setup_request settings =
     JObj [(''username'', JStr ''root''), (''password'', JStr ''correct horse''), (''settings'', JObj settings)]"

definition setup_answer :: "(string \<times> jsval) list \<Rightarrow> (string \<times> jsval) list \<Rightarrow> setup_world \<times> string Accounts.reply" where
  "setup_answer file settings =
     setup_complete_route (\<lambda>_ _ _. [1, 2]) [3, 4] ''token'' 5 setup_browser (setup_request settings) (fresh_server file)"

lemma setup_request_props [simp]:
  "body_prop (setup_request settings) ''username'' = Inr (JStr ''root'')"
  "js_get (setup_request settings) ''password'' = JStr ''correct horse''"
  "js_get (setup_request settings) ''settings'' = JObj settings"
  by (simp_all add: setup_request_def body_prop_def)

lemma setup_account_valid: "validate (JStr ''root'') (JStr ''correct horse'') = None"
  by code_simp

lemma setup_hash: "hash_value (\<lambda>_ _ _. [1, 2]) [3, 4] (JStr ''correct horse'') = Inr ''scrypt$0304$0102''"
  by code_simp

lemma ready_file:
  "case applySettings (loaded [(''baseDomain'', JStr ''t.example'')]) [] of
     Inr s \<Rightarrow> cget (st_config s) ''ready'' = JBool True | Inl _ \<Rightarrow> False"
  by code_simp

lemma setup_answered: "\<exists>cookie. snd (setup_answer [(''baseDomain'', JStr ''t.example'')] []) = Accounts.Reply cookie"
proof -
  have none: "pickSettings (JObj []) = []" by code_simp
  show ?thesis using ready_file
    by (auto simp: setup_answer_def setup_complete_route_def completeSetup_def fresh_server_def isSetupRequired_def account_count_def
        setup_account_valid setup_hash none Let_def create_account_def insert_account_def byUsername_def ROLES_def string_or_def
        split: option.splits sum.splits)
qed


text \<open>A setup that is refused because the base domain is missing has already changed the running
  configuration, though nothing was stored.\<close>

lemma unready_file:
  "cget (st_config (loaded [])) ''gracePeriod'' \<noteq> JInt 7 \<and>
   (case applySettings (loaded []) [(''gracePeriod'', JInt 7)] of
      Inr s \<Rightarrow> cget (st_config s) ''ready'' \<noteq> JBool True \<and> cget (st_config s) ''gracePeriod'' = JInt 7 | Inl _ \<Rightarrow> False)"
  by code_simp

lemma refused_setup_changes_config:
  "let (w, r) = setup_answer [] [(''gracePeriod'', JStr ''7'')]
   in r = Accounts.Refuse 400 ''baseDomain is required'' \<and> sw_stored w = [] \<and>
     cget (st_config (loaded [])) ''gracePeriod'' \<noteq> JInt 7 \<and> cget (st_config (sw_settings w)) ''gracePeriod'' = JInt 7"
proof -
  have picked: "pickSettings (JObj [(''gracePeriod'', JStr ''7'')]) = [(''gracePeriod'', JInt 7)]" by code_simp
  have shown: "cget (shown_settings (sw_settings (fresh_server []))) ''gracePeriod'' = cget (st_config (loaded [])) ''gracePeriod''"
    by (simp add: shown_settings_def UI_SETTING_KEYS_def fresh_server_def cget_def)
  show ?thesis using unready_file shown
    by (auto simp: setup_answer_def setup_complete_route_def completeSetup_def fresh_server_def isSetupRequired_def account_count_def
        setup_account_valid picked Let_def split: option.splits sum.splits)
qed

end
