(* ===== verification/ServiceRoutes.thy ===== *)
theory ServiceRoutes
  imports Router Http Devices
begin

text \<open>
  The routes of src/server/routes/service.js that need no session: what a visitor asks about a
  tunnel, the password gate, and the hand-over of a visitor who is signed in on the server to the
  host of a tunnel. The URL parser, encodeURIComponent and the parsing and printing of query
  strings are arguments.
\<close>

datatype gate_answer =
    GateError nat string string
  | Granted string
  | ToLogin string
  | ToGate string string string
  | GateCrash err

text \<open>GET /info, GET /whoami and GET /status/:id.\<close>

definition info_route :: "string \<Rightarrow> hconfig \<Rightarrow> string \<times> string \<times> string \<times> string" where
  "info_route version c = (''tunlit'', version, h_baseDomain c, h_publicUrl c)"

definition whoami_route ::
  "(bytes \<Rightarrow> bytes) \<Rightarrow> time \<Rightarrow> hconfig \<Rightarrow> string option \<Rightarrow> db \<Rightarrow> db \<times> (string \<times> string option) option" where
  "whoami_route sha now c bearer d =
     (if \<not> h_ready c then (d, None)
      else (case deviceFor sha now (opt_value (bearerFromHeaders bearer)) d of
              (d', None) \<Rightarrow> (d', None)
            | (d', Some v) \<Rightarrow> (d', map_option (\<lambda>a. (a_username a, map_option n_label (cr_guest v))) (accountFor v d'))))"

definition status_route :: "string \<Rightarrow> registry \<Rightarrow> bool \<times> bool" where
  "status_route i r =
     (case get_tunnel (to_lower i) r of None \<Rightarrow> (False, False) | Some (_, t) \<Rightarrow> (True, tunnel_online r t))"

subsection \<open>The password gate\<close>

definition NO_TUNNEL :: gate_answer where
  "NO_TUNNEL = GateError 404 ''not_found'' ''Tunnel not found''"

definition NOT_ALLOWED :: gate_answer where
  "NOT_ALLOWED = GateError 403 ''forbidden'' ''Your address is not allowed to use this tunnel''"

definition gate_post ::
  "environment \<Rightarrow> bytes \<Rightarrow> time \<Rightarrow> request_info \<Rightarrow> string \<Rightarrow> jsval \<Rightarrow> gateway \<Rightarrow> gateway \<times> gate_answer" where
  "gate_post env rnd now info i body g =
     (let ip = ri_clientIp info
      in case get_tunnel (to_lower i) (g_registry g) of
           None \<Rightarrow> (g, NO_TUNNEL)
         | Some (_, t) \<Rightarrow>
             if evaluate (tn_policy t) ip (e_lookup env ip) \<noteq> None then (g, NOT_ALLOWED)
             else if auth (tn_policy t) \<noteq> ''password''
             then (g, GateError 400 ''bad_request'' ''This tunnel does not use a password'')
             else let key = gate_key (tn_id t) ip
                  in (case Attempts.blocked now key (g_attempts g) of
                        (l, True) \<Rightarrow> (g\<lparr>g_attempts := l\<rparr>, GateError 429 ''too_many_attempts'' ''Too many attempts. Please try again later.'')
                      | (l, False) \<Rightarrow>
                          if body = JNull then (g\<lparr>g_attempts := l\<rparr>, GateCrash TYPE_ERROR)
                          else if \<not> verifyPassword (e_scrypt env) (string_or (js_get body ''password'') [])
                                      (case passwordHash (tn_policy t) of None \<Rightarrow> [] | Some h \<Rightarrow> h)
                          then (g\<lparr>g_attempts := record_failure now key l\<rparr>, GateError 401 ''unauthorized'' ''Wrong password'')
                          else (case AccessStore.create rnd now (tn_id t) (g_access g) of
                                  (a, token) \<Rightarrow>
                                    (g\<lparr>g_attempts := forget_key key l, g_access := a\<rparr>, Granted (cookieFor token (ri_secure info))))))"

subsection \<open>The hand-over\<close>

record url_tools =
  parse_url :: "string \<Rightarrow> url option"
  search_params :: "string \<Rightarrow> (string \<times> string) list"
  print_params :: "(string \<times> string) list \<Rightarrow> string"
  encode_component :: "string \<Rightarrow> string"

text \<open>url.search after the parameter of the tunnel was deleted.\<close>

definition search_without_param :: "url_tools \<Rightarrow> url \<Rightarrow> string" where
  "search_without_param ext u =
     (let rest = print_params ext (filter (\<lambda>(n, _). n \<noteq> QUERY_PARAM) (search_params ext (url_search u)))
      in if rest = [] then [] else ''?'' @ rest)"

text \<open>The URL a visitor is to return to, when it leads to the tunnel, and the path on its host.\<close>

definition returnTarget ::
  "environment \<Rightarrow> url_tools \<Rightarrow> hconfig \<Rightarrow> tunnel \<Rightarrow> string option \<Rightarrow> (url \<times> string) option" where
  "returnTarget env ext c t raw =
     (case parse_url ext (case raw of None \<Rightarrow> ''null'' | Some s \<Rightarrow> s) of
        None \<Rightarrow> None
      | Some u \<Rightarrow>
          if url_protocol u \<notin> {''http:'', ''https:''} then None
          else (case classifyHost (url_hostname u) (h_baseDomain c) of
                  Base \<Rightarrow> Some (u, ''/@'' @ tn_id t @ url_pathname u @ search_without_param ext u)
                | Subdomain name \<Rightarrow> if name = tn_id t then Some (u, url_pathname u @ url_search u) else None
                | Unknown \<Rightarrow> if e_custom env (url_hostname u) = Some (tn_id t) then Some (u, url_pathname u @ url_search u) else None))"

definition origin_of :: "url \<Rightarrow> string" where
  "origin_of u = url_protocol u @ ''//'' @ url_host u"

text \<open>The session comes from the cookie alone; reading it may touch or remove its row.\<close>

definition gate_authorize ::
  "environment \<Rightarrow> url_tools \<Rightarrow> hconfig \<Rightarrow> bytes \<Rightarrow> time \<Rightarrow> request_info \<Rightarrow> string \<Rightarrow> string \<Rightarrow> string \<Rightarrow> string option \<Rightarrow>
   gateway \<times> db \<Rightarrow> (gateway \<times> db) \<times> gate_answer" where
  "gate_authorize env ext c rnd now info raw cookie i to gd =
     (case gd of (g, d) \<Rightarrow>
        let ip = ri_clientIp info
        in case get_tunnel (to_lower i) (g_registry g) of
             None \<Rightarrow> (gd, NO_TUNNEL)
           | Some (_, t) \<Rightarrow>
               if auth (tn_policy t) \<noteq> ''tunlit'' then (gd, NO_TUNNEL)
               else if evaluate (tn_policy t) ip (e_lookup env ip) \<noteq> None then (gd, NOT_ALLOWED)
               else (case returnTarget env ext c t to of
                       None \<Rightarrow> (gd, GateError 400 ''bad_request'' ''That return address does not belong to this tunnel'')
                     | Some (u, path) \<Rightarrow>
                         (case get_session now (case session_token cookie of None \<Rightarrow> [] | Some s \<Rightarrow> s) d of
                            (d', None) \<Rightarrow> ((g, d'), ToLogin raw)
                          | (d', Some _) \<Rightarrow>
                              (case issueCode rnd now (tn_id t) (url_hostname u) (g_access g) of
                                 (a, code) \<Rightarrow> ((g\<lparr>g_access := a\<rparr>, d'), ToGate (origin_of u) code path)))))"

text \<open>The Location of a redirection.\<close>

fun location_of :: "url_tools \<Rightarrow> gate_answer \<Rightarrow> string option" where
  "location_of ext (ToLogin raw) = Some (''/@tunlit/login?next='' @ encode_component ext raw)"
| "location_of ext (ToGate origin code to) = Some (origin @ ''/@tunlit/gate?code='' @ code @ ''&to='' @ encode_component ext to)"
| "location_of ext _ = None"

subsection \<open>What the two gates give away\<close>

text \<open>The hosts at which a request for the tunnel arrives: the base domain, its own subdomain and
  its custom domains.\<close>

definition leads_to :: "environment \<Rightarrow> hconfig \<Rightarrow> string \<Rightarrow> string \<Rightarrow> bool" where
  "leads_to env c hostname i \<longleftrightarrow> hostFor env c hostname \<in> {OnBase, OnSubdomain i, OnCustom i}"

lemma returnTarget_leads:
  assumes "returnTarget env ext c t to = Some (u, path)"
  shows "leads_to env c (url_hostname u) (tn_id t)" "url_protocol u \<in> {''http:'', ''https:''}"
    "parse_url ext (case to of None \<Rightarrow> ''null'' | Some s \<Rightarrow> s) = Some u"
  using assms by (auto simp: returnTarget_def leads_to_def hostFor_def split: option.splits if_splits host_class.splits)

lemma create_allows:
  "0 \<le> ttl a \<Longrightarrow> rnd \<noteq> [] \<Longrightarrow> create rnd now i a = (a', token) \<Longrightarrow> snd (allows now token x a') = (x = i)"
  by (auto simp: create_def allows_def Let_def randomToken_def randomFrom_def)

text \<open>
  C12. A hand-over stays with the tunnel: a visitor is sent to a gate with a code only when the
  tunnel asks for accounts of the server, the rules of the tunnel admit the address, and the
  cookie of the request is that of a session; the host sent to is one at which the tunnel is
  served. The code is good for that host and that tunnel alone: at any other host it redeems
  nothing, and what it redeems opens no other tunnel.
\<close>

theorem handover_stays_with_tunnel:
  assumes "gate_authorize env ext c rnd now info raw cookie i to (g, d) = ((g', d'), ToGate origin code path)"
    and "rnd \<noteq> []" "rnd' \<noteq> []" "0 \<le> ttl (g_access g)" "now \<le> t'" "t' \<le> now + CODE_TTL"
  shows "\<exists>oid t u session. get_tunnel (to_lower i) (g_registry g) = Some (oid, t) \<and> auth (tn_policy t) = ''tunlit'' \<and>
    evaluate (tn_policy t) (ri_clientIp info) (e_lookup env (ri_clientIp info)) = None \<and>
    snd (get_session now (case session_token cookie of None \<Rightarrow> [] | Some s \<Rightarrow> s) d) = Some session \<and>
    origin = origin_of u \<and> leads_to env c (url_hostname u) (tn_id t) \<and>
    (\<forall>host. case redeem rnd' t' code host (g_access g') of
       (_, None) \<Rightarrow> host \<noteq> url_hostname u
     | (a, Some token) \<Rightarrow> host = url_hostname u \<and> (\<forall>x. snd (allows t' token x a) \<longleftrightarrow> x = tn_id t))"
proof -
  obtain oid t where t: "get_tunnel (to_lower i) (g_registry g) = Some (oid, t)"
    using assms(1) by (auto simp: gate_authorize_def Let_def NO_TUNNEL_def split: option.splits)
  have p: "auth (tn_policy t) = ''tunlit''" "evaluate (tn_policy t) (ri_clientIp info) (e_lookup env (ri_clientIp info)) = None"
    using assms(1) t by (auto simp: gate_authorize_def Let_def NO_TUNNEL_def NOT_ALLOWED_def split: if_splits)
  obtain u q where u: "returnTarget env ext c t to = Some (u, q)"
    using assms(1) t p by (auto simp: gate_authorize_def Let_def split: option.splits)
  obtain d1 session where s: "get_session now (case session_token cookie of None \<Rightarrow> [] | Some s \<Rightarrow> s) d = (d1, Some session)"
    using assms(1) t p u by (auto simp: gate_authorize_def Let_def split: prod.splits option.splits)
  have g': "g_access g' = fst (issueCode rnd now (tn_id t) (url_hostname u) (g_access g))" "code = randomToken rnd" "origin = origin_of u"
    using assms(1) t p u s by (auto simp: gate_authorize_def issueCode_def Let_def)
  have "code \<noteq> []" using g'(2) assms(2) by (simp add: randomToken_def randomFrom_def)
  moreover have "map_get (codes (g_access g')) code = Some \<lparr>c_tunnelId = tn_id t, c_host = url_hostname u, c_expiresAt = now + CODE_TTL\<rparr>"
    "0 \<le> ttl (g_access g')"
    using g' assms(4) by (simp_all add: issueCode_def store_code_def Let_def)
  moreover from this have al: "create rnd' t' (tn_id t) (g_access g'\<lparr>codes := cs\<rparr>) = (a, token) \<Longrightarrow> snd (allows t' token x a) = (x = tn_id t)"
    for cs a token x
    using create_allows [OF _ assms(3), of "g_access g'\<lparr>codes := cs\<rparr>"] by simp
  ultimately have rd: "case redeem rnd' t' code host (g_access g') of
       (_, None) \<Rightarrow> host \<noteq> url_hostname u
     | (a, Some token) \<Rightarrow> host = url_hostname u \<and> (\<forall>x. snd (allows t' token x a) \<longleftrightarrow> x = tn_id t)" for host
    using assms(6) al by (auto simp: redeem_def take_code_def split: prod.splits)
  show ?thesis
    by (intro exI [of _ oid] exI [of _ t] exI [of _ u] exI [of _ session] conjI allI rd t p g'(3) returnTarget_leads(1) [OF u])
      (simp add: s)
qed

definition opens :: "environment \<Rightarrow> time \<Rightarrow> request_info \<Rightarrow> string \<Rightarrow> jsval \<Rightarrow> gateway \<Rightarrow> tunnel \<Rightarrow> bool" where
  "opens env now info i body g t \<longleftrightarrow>
     map_option snd (get_tunnel (to_lower i) (g_registry g)) = Some t \<and> auth (tn_policy t) = ''password'' \<and>
     evaluate (tn_policy t) (ri_clientIp info) (e_lookup env (ri_clientIp info)) = None \<and>
     \<not> snd (Attempts.blocked now (gate_key (tn_id t) (ri_clientIp info)) (g_attempts g)) \<and> body \<noteq> JNull \<and>
     verifyPassword (e_scrypt env) (string_or (js_get body ''password'') [])
       (case passwordHash (tn_policy t) of None \<Rightarrow> [] | Some h \<Rightarrow> h)"

lemma gate_post_opens:
  assumes "opens env now info i body g t" "create rnd now (tn_id t) (g_access g) = (a, token)"
  shows "\<exists>l. gate_post env rnd now info i body g =
    (g\<lparr>g_attempts := l, g_access := a\<rparr>, Granted (cookieFor token (ri_secure info)))"
proof -
  obtain oid where t: "get_tunnel (to_lower i) (g_registry g) = Some (oid, t)"
    using assms(1) by (auto simp: opens_def)
  obtain l where l: "Attempts.blocked now (gate_key (tn_id t) (ri_clientIp info)) (g_attempts g) = (l, False)"
    using assms(1) by (cases "Attempts.blocked now (gate_key (tn_id t) (ri_clientIp info)) (g_attempts g)") (auto simp: opens_def)
  show ?thesis
    by (rule exI [of _ "forget_key (gate_key (tn_id t) (ri_clientIp info)) l"]) (use assms t l in \<open>simp add: opens_def gate_post_def Let_def\<close>)
qed

definition counted_only :: "time \<Rightarrow> string \<Rightarrow> gate_answer \<Rightarrow> gateway \<Rightarrow> gateway \<Rightarrow> bool" where
  "counted_only now key answer g g' \<longleftrightarrow>
     (let l = fst (Attempts.blocked now key (g_attempts g))
      in g_attempts g' = (if answer = GateError 401 ''unauthorized'' ''Wrong password'' then record_failure now key l else l))"

lemma gate_post_closed:
  assumes "gate_post env rnd now info i body g = (g', answer)" "\<And>t. \<not> opens env now info i body g t"
  shows "g_access g' = g_access g \<and> (\<forall>cookie. answer \<noteq> Granted cookie) \<and>
    (g_attempts g' = g_attempts g \<or>
     (\<exists>oid t. get_tunnel (to_lower i) (g_registry g) = Some (oid, t) \<and> counted_only now (gate_key (tn_id t) (ri_clientIp info)) answer g g'))"
proof (cases "get_tunnel (to_lower i) (g_registry g)")
  case None
  then show ?thesis using assms(1) by (auto simp: gate_post_def NO_TUNNEL_def)
next
  case (Some ot)
  then obtain oid t where t: "get_tunnel (to_lower i) (g_registry g) = Some (oid, t)" by (cases ot) auto
  let ?key = "gate_key (tn_id t) (ri_clientIp info)"
  show ?thesis
  proof (cases "evaluate (tn_policy t) (ri_clientIp info) (e_lookup env (ri_clientIp info)) \<noteq> None \<or> auth (tn_policy t) \<noteq> ''password''")
    case True
    then show ?thesis using assms(1) t by (auto simp: gate_post_def Let_def NOT_ALLOWED_def split: if_splits)
  next
    case False
    obtain l b where l: "Attempts.blocked now ?key (g_attempts g) = (l, b)" by fastforce
    have "g_access g' = g_access g \<and> (\<forall>cookie. answer \<noteq> Granted cookie) \<and> counted_only now ?key answer g g'"
    proof (cases "b \<or> body = JNull")
      case True
      then show ?thesis
        using assms(1) t False l by (cases b) (auto simp: gate_post_def Let_def counted_only_def)
    next
      case open': False
      have "\<not> verifyPassword (e_scrypt env) (string_or (js_get body ''password'') [])
          (case passwordHash (tn_policy t) of None \<Rightarrow> [] | Some h \<Rightarrow> h)"
        using assms(2) [of t] t False l open' by (simp add: opens_def)
      then show ?thesis
        using assms(1) t False l open' by (auto simp: gate_post_def Let_def counted_only_def)
    qed
    with t show ?thesis by blast
  qed
qed

text \<open>
  C27. The password gate opens for exactly the right password: a token is given when the tunnel
  exists and asks for a password, its rules admit the address, the address has not failed too
  often, and the password verifies, and in no other case. The token opens this tunnel and no
  other. A wrong password is counted against the address, and no other answer gives access or
  counts anything.
\<close>

theorem password_gate_exact:
  assumes "gate_post env rnd now info i body g = (g', answer)" "rnd \<noteq> []" "0 \<le> ttl (g_access g)"
  shows "((\<exists>cookie. answer = Granted cookie) \<longleftrightarrow> (\<exists>t. opens env now info i body g t)) \<and>
    (\<forall>t. opens env now info i body g t \<longrightarrow>
       (\<exists>token. answer = Granted (cookieFor token (ri_secure info)) \<and> (\<forall>x. snd (allows now token x (g_access g')) \<longleftrightarrow> x = tn_id t))) \<and>
    ((\<forall>t. \<not> opens env now info i body g t) \<longrightarrow> g_access g' = g_access g \<and>
       (g_attempts g' = g_attempts g \<or>
        (\<exists>oid t. get_tunnel (to_lower i) (g_registry g) = Some (oid, t) \<and>
           counted_only now (gate_key (tn_id t) (ri_clientIp info)) answer g g')))"
proof (cases "\<exists>t. opens env now info i body g t")
  case True
  have "\<exists>token. answer = Granted (cookieFor token (ri_secure info)) \<and> (\<forall>x. snd (allows now token x (g_access g')) \<longleftrightarrow> x = tn_id t)"
    if o: "opens env now info i body g t" for t
  proof -
    obtain a token where c: "create rnd now (tn_id t) (g_access g) = (a, token)" by fastforce
    show ?thesis
    proof -
      obtain l where e: "(g', answer) = (g\<lparr>g_attempts := l, g_access := a\<rparr>, Granted (cookieFor token (ri_secure info)))"
        using gate_post_opens [OF o c] assms(1) by auto
      then have "g_access g' = a" "answer = Granted (cookieFor token (ri_secure info))" by simp_all
      then show ?thesis using create_allows [OF assms(3,2) c] by blast
    qed
  qed
  with True show ?thesis by (intro conjI) blast+
next
  case False
  with gate_post_closed [OF assms(1)] show ?thesis by (intro conjI) blast+
qed

definition sample_gate :: "(policy \<Rightarrow> policy) \<Rightarrow> gateway" where
  "sample_gate f = sample_gateway\<lparr>g_registry := sample_registry\<lparr>objs := [(0, sample_tunnel\<lparr>tn_policy := f emptyPolicy\<rparr>)]\<rparr>\<rparr>"

definition sample_return :: url where
  "sample_return = \<lparr>url_protocol = ''https:'', url_hostname = ''web.t.example'', url_port = [], url_host = ''web.t.example'',
     url_pathname = ''/x'', url_search = [], url_hash = []\<rparr>"

definition sample_tools :: url_tools where
  "sample_tools = \<lparr>parse_url = (\<lambda>s. if s = ''https://web.t.example/x'' then Some sample_return else None), search_params = (\<lambda>_. []),
     print_params = (\<lambda>_. []), encode_component = (\<lambda>s. s)\<rparr>"

definition sample_visitor :: request_info where
  "sample_visitor = \<lparr>ri_host = ''t.example'', ri_hostname = ''t.example'', ri_proto = ''https'', ri_secure = True, ri_clientIp = ''10.0.0.1''\<rparr>"

definition sample_authorize :: "(gateway \<times> db) \<times> gate_answer" where
  "sample_authorize = gate_authorize sample_env sample_tools sample_hconfig [1] 5 sample_visitor [] ''tunlit-admin=t'' ''web''
     (Some ''https://web.t.example/x'') (sample_gate (\<lambda>p. p\<lparr>auth := ''tunlit''\<rparr>), sample_db)"

theorem handover_stays_with_tunnel_witness:
  "snd sample_authorize = ToGate ''https://web.t.example'' ''B'' ''/x'' \<and>
   snd (redeem [2] 6 ''B'' ''other.t.example'' (g_access (fst (fst sample_authorize)))) = None"
proof -
  let ?g = "sample_gate (\<lambda>p. p\<lparr>auth := ''tunlit''\<rparr>)"
  have a: "snd sample_authorize = ToGate ''https://web.t.example'' ''B'' ''/x''" by code_simp
  then have e: "gate_authorize sample_env sample_tools sample_hconfig [1] 5 sample_visitor [] ''tunlit-admin=t'' ''web''
     (Some ''https://web.t.example/x'') (?g, sample_db) = ((fst (fst sample_authorize), snd (fst sample_authorize)), ToGate ''https://web.t.example'' ''B'' ''/x'')"
    unfolding sample_authorize_def by (metis prod.collapse)
  have f: "[1 :: byte] \<noteq> []" "[2 :: byte] \<noteq> []" "0 \<le> ttl (g_access ?g)" "(5 :: time) \<le> 6" "6 \<le> 5 + CODE_TTL"
    by (simp, simp, code_simp, simp, simp add: CODE_TTL_def)
  from handover_stays_with_tunnel [OF e f] obtain t :: tunnel and u :: url where
    r: "\<forall>host. case redeem [2] 6 ''B'' host (g_access (fst (fst sample_authorize))) of
       (_, None) \<Rightarrow> host \<noteq> url_hostname u
     | (a, Some token) \<Rightarrow> host = url_hostname u \<and> (\<forall>x. snd (allows 6 token x a) \<longleftrightarrow> x = tn_id t)" by blast
  have "snd (redeem [2] 6 ''B'' ''web.t.example'' (g_access (fst (fst sample_authorize)))) = Some ''C''" by code_simp
  then have "url_hostname u = ''web.t.example''" using r [rule_format, of "''web.t.example''"] by (auto split: prod.splits)
  then have "snd (redeem [2] 6 ''B'' ''other.t.example'' (g_access (fst (fst sample_authorize)))) = None"
    using r [rule_format, of "''other.t.example''"] by (auto split: prod.splits option.splits)
  with a show ?thesis ..
qed

definition sample_password_env :: environment where
  "sample_password_env = sample_env\<lparr>e_scrypt := (\<lambda>p _ n. replicate n (if p = ''secret'' then 1 else 0))\<rparr>"

definition sample_password_gate :: gateway where
  "sample_password_gate = sample_gate (\<lambda>p. p\<lparr>auth := ''password'', passwordHash := Some ''scrypt$01$01''\<rparr>)"

theorem password_gate_exact_witness:
  "\<not> (\<exists>cookie. snd (gate_post sample_password_env [1] 5 sample_visitor ''web'' (JObj [(''password'', JStr ''guess'')]) sample_password_gate) = Granted cookie) \<and>
   (\<exists>cookie. snd (gate_post sample_password_env [1] 5 sample_visitor ''web'' (JObj [(''password'', JStr ''secret'')]) sample_password_gate) = Granted cookie)"
proof -
  have ttl: "0 \<le> ttl (g_access sample_password_gate)" by code_simp
  let ?t = "snd (the (get_tunnel ''web'' (g_registry sample_password_gate)))"
  have no: "\<not> opens sample_password_env 5 sample_visitor ''web'' (JObj [(''password'', JStr ''guess'')]) sample_password_gate ?t" by code_simp
  have at_web: "get_tunnel (to_lower ''web'') (g_registry sample_password_gate) = Some (0, ?t)" by code_simp
  have only: "opens sample_password_env 5 sample_visitor ''web'' b sample_password_gate t \<Longrightarrow> t = ?t" for b t
    unfolding opens_def at_web by simp
  have yes: "opens sample_password_env 5 sample_visitor ''web'' (JObj [(''password'', JStr ''secret'')]) sample_password_gate ?t" by code_simp
  show ?thesis
    using password_gate_exact [OF surjective_pairing, of "[1]" sample_password_gate sample_password_env 5 sample_visitor "''web''"] ttl no only yes
    by (metis list.distinct(1))
qed

end
