(* ===== verification/Har.thy ===== *)
theory Har
  imports Traffic
begin

text \<open>
  The export of recorded requests as an HTTP archive (src/server/lib/har.js). Decoding and
  encoding of UTF-8, the URL parser and the printing of a date are arguments; times are in
  milliseconds where the archive divides them by a thousand.
\<close>

record har_tools =
  decode_utf8 :: "bytes \<Rightarrow> string"
  encode_utf8 :: "string \<Rightarrow> bytes"
  url_of :: "string \<Rightarrow> string \<Rightarrow> (string \<times> (string \<times> string) list) option"
  iso_date :: "time \<Rightarrow> string"

record har_text =
  ht_text :: string
  ht_encoding :: "string option"

record har_message =
  hm_type :: string
  hm_time :: time
  hm_opcode :: nat
  hm_data :: string

record har_entry =
  he_startedDateTime :: string
  he_time :: nat
  he_method :: "string option"
  he_url :: string
  he_headers :: "(string \<times> string) list"
  he_queryString :: "(string \<times> string) list"
  he_bodySize :: nat
  he_postData :: "(string \<times> har_text option) option"
  he_status :: nat
  he_responseHeaders :: "(string \<times> string) list"
  he_contentSize :: nat
  he_mimeType :: string
  he_content :: "har_text option"
  he_redirectURL :: string
  he_wait :: nat
  he_serverIPAddress :: "string option"
  he_messages :: "har_message list option"

definition har_header :: "(string \<times> string) list \<Rightarrow> string \<Rightarrow> string" where
  "har_header hs wanted = (case find (\<lambda>(name, _). to_lower name = wanted) hs of None \<Rightarrow> [] | Some (_, v) \<Rightarrow> v)"

text \<open>A body in base64 becomes text when decoding and encoding it gives the same bytes.\<close>

definition har_text_of :: "har_tools \<Rightarrow> string option \<Rightarrow> har_text option" where
  "har_text_of ext body =
     (case body of
        None \<Rightarrow> None
      | Some b \<Rightarrow>
          if b = [] then None
          else let bs = b64_decode b; decoded = decode_utf8 ext bs
               in if encode_utf8 ext decoded = bs then Some \<lparr>ht_text = decoded, ht_encoding = None\<rparr>
                  else Some \<lparr>ht_text = b, ht_encoding = Some ''base64''\<rparr>)"

definition message :: "har_tools \<Rightarrow> frame_view \<Rightarrow> har_message" where
  "message ext f =
     \<lparr>hm_type = (if fv_direction f = ''in'' then ''send'' else ''receive''), hm_time = fv_time f, hm_opcode = fv_opcode f,
      hm_data = (case fv_payload f of
          None \<Rightarrow> []
        | Some p \<Rightarrow> if p = [] then []
                    else if fv_opcode f = 1 then decode_utf8 ext (b64_decode p) else b64_encode (b64_decode p))\<rparr>"

text \<open>What is put into the text of a URL for a null.\<close>

definition text_of_null :: "string option \<Rightarrow> string" where
  "text_of_null v = (case v of None \<Rightarrow> ''null'' | Some s \<Rightarrow> s)"

definition INVALID_URL :: err where
  "INVALID_URL = Err ''ERR_INVALID_URL'' ''Invalid URL''"

definition har_entry_of ::
  "har_tools \<Rightarrow> string \<Rightarrow> (string, frame_view list) jsmap \<Rightarrow> request_view \<times> side_view \<times> side_view \<Rightarrow> har_entry result" where
  "har_entry_of ext scheme frames row =
     (case row of (r, request, response) \<Rightarrow>
        case url_of ext (text_of_null (rv_path r)) (scheme @ ''://'' @ text_of_null (rv_host r)) of
          None \<Rightarrow> Inl INVALID_URL
        | Some (href, params) \<Rightarrow>
            Inr \<lparr>he_startedDateTime = iso_date ext (rv_time r), he_time = rv_duration r,
                 he_method = (if rv_kind r = ''ws'' then Some ''GET'' else rv_method r), he_url = href,
                 he_headers = sd_headers request, he_queryString = params, he_bodySize = sd_bytes request,
                 he_postData = (case sd_body request of
                     None \<Rightarrow> None
                   | Some b \<Rightarrow> if b = [] then None
                               else Some (har_header (sd_headers request) ''content-type'', har_text_of ext (Some b))),
                 he_status = (case rv_status r of None \<Rightarrow> 0 | Some s \<Rightarrow> s),
                 he_responseHeaders = sd_headers response, he_contentSize = sd_bytes response,
                 he_mimeType = har_header (sd_headers response) ''content-type'',
                 he_content = har_text_of ext (sd_body response),
                 he_redirectURL = har_header (sd_headers response) ''location'', he_wait = rv_duration r,
                 he_serverIPAddress = (case rv_ip r of None \<Rightarrow> None | Some ip \<Rightarrow> if ip = [] then None else Some ip),
                 he_messages = (if rv_kind r = ''ws''
                   then Some (map (message ext) (case rv_connection r of None \<Rightarrow> []
                       | Some c \<Rightarrow> (case map_get frames c of None \<Rightarrow> [] | Some fs \<Rightarrow> fs)))
                   else None)\<rparr>)"

text \<open>One row that cannot be exported fails the whole archive.\<close>

fun toHar ::
  "har_tools \<Rightarrow> string \<Rightarrow> (string, frame_view list) jsmap \<Rightarrow> (request_view \<times> side_view \<times> side_view) list \<Rightarrow> har_entry list result" where
  "toHar ext scheme frames [] = Inr []"
| "toHar ext scheme frames (row # rows) =
     bind (har_entry_of ext scheme frames row) (\<lambda>e. bind (toHar ext scheme frames rows) (\<lambda>es. Inr (e # es)))"

subsection \<open>Nothing is lost\<close>

text \<open>What a reader of the archive makes of a text.\<close>

definition har_bytes :: "har_tools \<Rightarrow> har_text option \<Rightarrow> bytes" where
  "har_bytes ext t =
     (case t of
        None \<Rightarrow> []
      | Some x \<Rightarrow> if ht_encoding x = Some ''base64'' then b64_decode (ht_text x) else encode_utf8 ext (ht_text x))"

lemma har_text_bytes: "har_bytes ext (har_text_of ext (map_option b64_encode b)) = (case b of None \<Rightarrow> [] | Some x \<Rightarrow> x)"
proof (cases b)
  case (Some x)
  show ?thesis
  proof (cases "b64_encode x = []")
    case True
    then have "x = []" by (cases x rule: b64_encode.cases) auto
    then show ?thesis using Some by (simp add: har_text_of_def har_bytes_def)
  next
    case False
    then show ?thesis using Some by (simp add: har_text_of_def har_bytes_def Let_def b64_roundtrip)
  qed
qed (simp add: har_text_of_def har_bytes_def)

lemma toHar_rows:
  "toHar ext scheme frames rows = Inr es \<longleftrightarrow> list_all2 (\<lambda>row e. har_entry_of ext scheme frames row = Inr e) rows es"
  by (induction rows arbitrary: es) (auto simp: list_all2_Cons1)

lemma har_entry_bodies:
  assumes "har_entry_of ext scheme frames (r, q, p) = Inr e"
  shows "he_content e = har_text_of ext (sd_body p)"
    "he_postData e = (case sd_body q of None \<Rightarrow> None
       | Some b \<Rightarrow> if b = [] then None else Some (har_header (sd_headers q) ''content-type'', har_text_of ext (Some b)))"
proof -
  obtain href params where "url_of ext (text_of_null (rv_path r)) (scheme @ ''://'' @ text_of_null (rv_host r)) = Some (href, params)"
    using assms by (auto simp: har_entry_of_def split: option.splits)
  with assms show "he_content e = har_text_of ext (sd_body p)"
    "he_postData e = (case sd_body q of None \<Rightarrow> None
       | Some b \<Rightarrow> if b = [] then None else Some (har_header (sd_headers q) ''content-type'', har_text_of ext (Some b)))"
    unfolding har_entry_of_def by (simp_all only: prod.case option.case sum.inject, auto)
qed

text \<open>
  The archive has every byte: it has one entry per stored request, in their order, and
  the bodies of an entry, read the way the archive says, are exactly the bytes that were
  stored, whether or not they are valid text.
\<close>

theorem archive_keeps_bodies:
  assumes "toHar ext scheme frames (map detail_request rows) = Inr es"
  shows "length es = length rows \<and>
    (\<forall>i < length rows. har_bytes ext (he_content (es ! i)) = (case rq_responseBody (rows ! i) of None \<Rightarrow> [] | Some b \<Rightarrow> b) \<and>
       har_bytes ext (case he_postData (es ! i) of None \<Rightarrow> None | Some (_, t) \<Rightarrow> t) = (case rq_requestBody (rows ! i) of None \<Rightarrow> [] | Some b \<Rightarrow> b))"
proof -
  have l: "list_all2 (\<lambda>row e. har_entry_of ext scheme frames (detail_request row) = Inr e) rows es"
    using assms by (simp add: toHar_rows list_all2_map1)
  have post: "har_bytes ext (case (case map_option b64_encode b of None \<Rightarrow> None
      | Some x \<Rightarrow> if x = [] then None else Some (m, har_text_of ext (Some x))) of None \<Rightarrow> None | Some (_, t) \<Rightarrow> t) =
      har_bytes ext (har_text_of ext (map_option b64_encode b))" for b and m :: string
    by (cases b) (auto simp: har_text_of_def)
  have "har_bytes ext (he_content (es ! i)) = (case rq_responseBody (rows ! i) of None \<Rightarrow> [] | Some b \<Rightarrow> b) \<and>
       har_bytes ext (case he_postData (es ! i) of None \<Rightarrow> None | Some (_, t) \<Rightarrow> t) = (case rq_requestBody (rows ! i) of None \<Rightarrow> [] | Some b \<Rightarrow> b)"
    if "i < length rows" for i
  proof -
    have e: "har_entry_of ext scheme frames (detail_request (rows ! i)) = Inr (es ! i)" using l that by (simp add: list_all2_conv_all_nth)
    note c = har_entry_bodies(1) [OF e [unfolded detail_request_def]] and p = har_entry_bodies(2) [OF e [unfolded detail_request_def]]
    show ?thesis unfolding c p side_view.simps post by (simp only: har_text_bytes)
  qed
  then show ?thesis using l by (auto dest: list_all2_lengthD)
qed

text \<open>A request whose path the URL parser refuses, such as one with the path of two slashes, makes
  the export of the whole tunnel fail.\<close>

lemma one_bad_path_fails_export:
  assumes "(r, request, response) \<in> set rows" "url_of ext (text_of_null (rv_path r)) (scheme @ ''://'' @ text_of_null (rv_host r)) = None"
  shows "\<exists>e. toHar ext scheme frames rows = Inl e"
proof (cases "toHar ext scheme frames rows")
  case (Inr es)
  then have "list_all2 (\<lambda>row e. har_entry_of ext scheme frames row = Inr e) rows es" by (simp add: toHar_rows)
  then obtain e where "har_entry_of ext scheme frames (r, request, response) = Inr e"
    using assms(1) by (auto simp: list_all2_conv_all_nth in_set_conv_nth)
  then show ?thesis using assms(2) by (simp add: har_entry_of_def)
qed simp

definition sample_har :: har_tools where
  "sample_har = \<lparr>decode_utf8 = map (\<lambda>b. char_of (unat b mod 128)), encode_utf8 = to_buf, url_of = (\<lambda>p b. Some (b @ p, [])), iso_date = (\<lambda>_. [])\<rparr>"

definition sample_row :: request_row where
  "sample_row = \<lparr>rq_id = 1, rq_tunnel = ''web'', rq_time = 0, rq_duration = 3, rq_kind = ''http'', rq_connection = None, rq_intel = None,
     rq_method = Some ''POST'', rq_path = Some ''/x'', rq_status = Some 200, rq_ip = None, rq_host = Some ''web.t.example'',
     rq_requestHeaders = [], rq_requestBody = Some [104, 105], rq_requestBytes = 2, rq_requestTruncated = False,
     rq_responseHeaders = [(''Content-Type'', ''image/png'')], rq_responseBody = Some [137, 80], rq_responseBytes = 2, rq_responseTruncated = False\<rparr>"

theorem archive_keeps_bodies_witness:
  "\<exists>e. toHar sample_har ''https'' [] (map detail_request [sample_row]) = Inr [e] \<and>
     he_mimeType e = ''image/png'' \<and> map_option ht_encoding (he_content e) = Some (Some ''base64'') \<and>
     har_bytes sample_har (he_content e) = [137, 80]"
proof -
  obtain es where es: "toHar sample_har ''https'' [] (map detail_request [sample_row]) = Inr es"
    by (simp add: har_entry_of_def detail_request_def summarise_request_def sample_row_def sample_har_def)
  from archive_keeps_bodies [OF this] obtain e where e: "es = [e]" "har_bytes sample_har (he_content e) = [137, 80]"
    by (cases es) (auto simp: sample_row_def)
  have "(case toHar sample_har ''https'' [] (map detail_request [sample_row]) of Inl _ \<Rightarrow> False
      | Inr es \<Rightarrow> he_mimeType (hd es) = ''image/png'' \<and> map_option ht_encoding (he_content (hd es)) = Some (Some ''base64''))" by code_simp
  then show ?thesis using e es by auto
qed

end
