(* ===== verification/TunnelRoutes.thy ===== *)
theory TunnelRoutes
  imports ApiTable AccountRoutes Har Connections
begin

text \<open>
  The handlers of src/server/routes/tunnels.js: one function from the operation of a route, its
  parameters, query and body to the new state of the server and the answer. They read and clear
  the logs of a tunnel, and hand on to the controllers of TunnelsApi. Numbers of the query with a
  fraction count as missing; the web interface sends none.
\<close>

record tunnel_world =
  tw_api :: api
  tw_logs :: "traffic_log \<times> frame_log"
  tw_visitors :: visitors
  tw_conns :: conn_log
  tw_stats :: stats

text \<open>What the handlers take from the rest of the server: the configuration, hashing, what the
  sessions know of clients, LIKE of the database, whether it stores a batch, the tools of the
  archive, and the answer of the target of a replay.\<close>

record tunnel_tools =
  tt_config :: rconfig
  tt_scheme :: string
  tt_scrypt :: "string \<Rightarrow> bytes \<Rightarrow> nat \<Rightarrow> bytes"
  tt_salt :: bytes
  tt_client :: "nat \<Rightarrow> client_view"
  tt_like :: "string \<Rightarrow> string \<Rightarrow> bool"
  tt_ok :: bool
  tt_har :: har_tools
  tt_started :: time
  tt_response :: "upstream_response option"

datatype tunnel_answer =
    ARefuse nat string
  | AFail err
  | ADone string
  | AList "tunnel_view list"
  | ATunnel "tunnel_view \<times> nat \<times> client_view list option"
  | AHar "har_entry list"
  | ARequests "request_view list" nat "(string \<times> nat) list"
  | AVisitors "visitor_row list" nat
  | AConnections "conn_row list" nat
  | AConnection conn_row
  | AFrames "frame_view list" bool
  | ARequest "request_view \<times> side_view \<times> side_view"
  | AReplayed string "upstream_request \<times> nat \<times> traffic_entry"
  | ABreakpoints "bp_rule list \<times> held_view list \<times> time"
  | ARules string "bp_rule list"
  | AStats stats_view
  | AAccess string policy_view

subsection \<open>Parameters and queries\<close>

type_synonym query = "(string \<times> string) list"

definition query_or :: "query \<Rightarrow> string \<Rightarrow> string \<Rightarrow> string" where
  "query_or q key other = (case map_of q key of None \<Rightarrow> other | Some v \<Rightarrow> if v = [] then other else v)"

text \<open>Number(...) || other.\<close>

definition query_number :: "query \<Rightarrow> string \<Rightarrow> int \<Rightarrow> int" where
  "query_number q key other =
     (case map_of q key of
        None \<Rightarrow> other
      | Some v \<Rightarrow> (case number_of_string v of None \<Rightarrow> other | Some n \<Rightarrow> if n = 0 then other else n))"

definition query_list :: "query \<Rightarrow> string \<Rightarrow> string list" where
  "query_list q key = filter (\<lambda>v. v \<noteq> []) (map trim (split_on CHR '','' (query_or q key [])))"

definition country_like :: "string \<Rightarrow> bool" where
  "country_like code \<longleftrightarrow> length code = 2 \<and> list_all is_upper code"

definition request_filter :: "query \<Rightarrow> criteria_filter" where
  "request_filter q =
     \<lparr>cf_search = take 200 (trim (query_or q ''search'' [])),
      cf_methods = map to_upper (query_list q ''methods''),
      cf_statuses = map nat (filter (\<lambda>n. 1 \<le> n \<and> n \<le> 5) (List.map_filter number_of_string (query_list q ''statuses''))),
      cf_countries = filter country_like (map to_upper (query_list q ''countries''))\<rparr>"

text \<open>The ids of rows start at 1: 0 stands for a number that is no id.\<close>

definition request_id :: "string \<Rightarrow> nat" where
  "request_id text = (case row_id text of None \<Rightarrow> 0 | Some i \<Rightarrow> i)"

definition body_or_empty :: "jsval \<Rightarrow> jsval" where
  "body_or_empty body = (if truthy body then body else JObj [])"

definition viewer_of :: "signed_in \<Rightarrow> viewer" where
  "viewer_of s = \<lparr>vw_role = in_role s, vw_account = a_id (in_account s), vw_username = in_username s\<rparr>"

subsection \<open>Reading logs\<close>

definition har_route :: "tunnel_tools \<Rightarrow> string \<Rightarrow> tunnel_world \<Rightarrow> tunnel_world \<times> tunnel_answer" where
  "har_route ext i w =
     (case all_requests (tt_ok ext) i (tw_logs w) of
        ((t, f), rows) \<Rightarrow>
          (case forConnections (tt_ok ext) i
                  (List.map_filter (\<lambda>(r, _, _). case rv_connection r of Some (c # cs) \<Rightarrow> Some (c # cs) | _ \<Rightarrow> None) rows) f of
             (f', frames) \<Rightarrow>
               (w\<lparr>tw_logs := (t, f')\<rparr>,
                case toHar (tt_har ext) (tt_scheme ext) frames rows of Inl e \<Rightarrow> AFail e | Inr es \<Rightarrow> AHar es)))"

definition requests_route :: "tunnel_tools \<Rightarrow> string \<Rightarrow> query \<Rightarrow> tunnel_world \<Rightarrow> tunnel_world \<times> tunnel_answer" where
  "requests_route ext i q w =
     (let flt = request_filter q
      in case list_requests (tt_like ext) (tt_ok ext) i flt (query_or q ''sort'' ''time'') (query_or q ''order'' ''desc'')
                (query_number q ''offset'' 0) (query_number q ''limit'' (int PAGE_SIZE)) (tw_logs w) of
           (tf, rows) \<Rightarrow>
             (w\<lparr>tw_logs := tf\<rparr>, ARequests rows (count_requests (tt_like ext) i flt (fst tf)) (countries i (fst tf))))"

definition visitors_route :: "string \<Rightarrow> query \<Rightarrow> tunnel_world \<Rightarrow> tunnel_world \<times> tunnel_answer" where
  "visitors_route i q w =
     (case list_visitors i (query_or q ''sort'' ''last'') (query_or q ''order'' ''desc'')
             (query_number q ''offset'' 0) (query_number q ''limit'' 50) (tw_visitors w) of
        (v, rows) \<Rightarrow> (w\<lparr>tw_visitors := v\<rparr>, AVisitors rows (count_visitors i v)))"

definition connections_route :: "tunnel_tools \<Rightarrow> string \<Rightarrow> query \<Rightarrow> tunnel_world \<Rightarrow> tunnel_world \<times> tunnel_answer" where
  "connections_route ext i q w =
     (case list_conns (tt_ok ext) i (query_or q ''sort'' ''started'') (query_or q ''order'' ''desc'')
             (query_number q ''offset'' 0) (query_number q ''limit'' 50) (tw_conns w) of
        (l, rows) \<Rightarrow> (w\<lparr>tw_conns := l\<rparr>, AConnections rows (count_conns i l)))"

definition connection_route :: "tunnel_tools \<Rightarrow> string \<Rightarrow> string \<Rightarrow> tunnel_world \<Rightarrow> tunnel_world \<times> tunnel_answer" where
  "connection_route ext i key w =
     (case get_conn (tt_ok ext) i key (tw_conns w) of
        (l, None) \<Rightarrow> (w\<lparr>tw_conns := l\<rparr>, ARefuse 404 ''Connection not found'')
      | (l, Some r) \<Rightarrow> (w\<lparr>tw_conns := l\<rparr>, AConnection r))"

text \<open>The connection of a stored request, when it has one.\<close>

definition entry_connection :: "(request_view \<times> side_view \<times> side_view) option \<Rightarrow> string option" where
  "entry_connection entry =
     (case entry of None \<Rightarrow> None | Some (r, _, _) \<Rightarrow> (case rv_connection r of Some (c # cs) \<Rightarrow> Some (c # cs) | _ \<Rightarrow> None))"

definition frames_route :: "tunnel_tools \<Rightarrow> string \<Rightarrow> string \<Rightarrow> query \<Rightarrow> tunnel_world \<Rightarrow> tunnel_world \<times> tunnel_answer" where
  "frames_route ext i requestId q w =
     (case get_request (tt_ok ext) i (request_id requestId) (tw_logs w) of
        ((t, f), entry) \<Rightarrow>
          (case entry_connection entry of
             None \<Rightarrow> (w\<lparr>tw_logs := (t, f)\<rparr>, ARefuse 404 ''No frames for that request'')
           | Some c \<Rightarrow>
               (case list_frames (tt_ok ext) i c (nat (query_number q ''after'' 0)) f of
                  (f', rows) \<Rightarrow> (w\<lparr>tw_logs := (t, f')\<rparr>, AFrames rows (isOpen c f')))))"

definition frame_send_route :: "tunnel_tools \<Rightarrow> time \<Rightarrow> string \<Rightarrow> string \<Rightarrow> jsval \<Rightarrow> tunnel_world \<Rightarrow> tunnel_world \<times> tunnel_answer" where
  "frame_send_route ext now i requestId body w =
     (case get_request (tt_ok ext) i (request_id requestId) (tw_logs w) of
        ((t, f), entry) \<Rightarrow>
          let w' = w\<lparr>tw_logs := (t, f)\<rparr>
          in case entry_connection entry of
               None \<Rightarrow> (w', ARefuse 404 ''No such connection'')
             | Some c \<Rightarrow>
                 (case body_prop body ''direction'' of
                    Inl e \<Rightarrow> (w', AFail e)
                  | Inr direction \<Rightarrow>
                      if direction \<notin> {JStr ''in'', JStr ''out''} then (w', ARefuse 400 ''direction must be in or out'')
                      else (case js_get body ''text'' of
                              JStr (x # xs) \<Rightarrow>
                                (case inject now i c (js_string direction) (to_buf (x # xs)) f of
                                   (f', False) \<Rightarrow> (w'\<lparr>tw_logs := (t, f')\<rparr>, ARefuse 409 ''The connection is closed'')
                                 | (f', True) \<Rightarrow> (w'\<lparr>tw_logs := (t, f')\<rparr>, ADone ''Sent''))
                            | _ \<Rightarrow> (w', ARefuse 400 ''Nothing to send''))))"

definition request_route :: "tunnel_tools \<Rightarrow> string \<Rightarrow> string \<Rightarrow> tunnel_world \<Rightarrow> tunnel_world \<times> tunnel_answer" where
  "request_route ext i requestId w =
     (case get_request (tt_ok ext) i (request_id requestId) (tw_logs w) of
        (tf, None) \<Rightarrow> (w\<lparr>tw_logs := tf\<rparr>, ARefuse 404 ''That request is no longer stored'')
      | (tf, Some entry) \<Rightarrow> (w\<lparr>tw_logs := tf\<rparr>, ARequest entry))"

subsection \<open>The router\<close>

definition NO_SUCH_TUNNEL :: tunnel_answer where
  "NO_SUCH_TUNNEL = ARefuse 404 ''Tunnel not found''"

text \<open>The handlers that ask mayTouch themselves, and those that leave it to a controller.\<close>

definition guarded_route ::
  "viewer \<Rightarrow> string \<Rightarrow> (tunnel_world \<Rightarrow> tunnel_world \<times> tunnel_answer) \<Rightarrow> tunnel_world \<Rightarrow> tunnel_world \<times> tunnel_answer" where
  "guarded_route v i handler w =
     (if mayTouch (map_option snd (get_tunnel i (ap_registry (tw_api w)))) v then handler w else (w, NO_SUCH_TUNNEL))"

definition replied :: "(string \<Rightarrow> 'a \<Rightarrow> tunnel_answer) \<Rightarrow> 'a TunnelsApi.reply \<Rightarrow> tunnel_answer" where
  "replied f r = (case r of TunnelsApi.Refuse code m \<Rightarrow> ARefuse code m | TunnelsApi.Reply m x \<Rightarrow> f m x)"

definition by_controller ::
  "(string \<Rightarrow> 'a \<Rightarrow> tunnel_answer) \<Rightarrow> api \<times> 'a TunnelsApi.reply \<Rightarrow> tunnel_world \<Rightarrow> tunnel_world \<times> tunnel_answer" where
  "by_controller f ar w = (w\<lparr>tw_api := fst ar\<rparr>, replied f (snd ar))"

definition tunnels_route ::
  "tunnel_tools \<Rightarrow> time \<Rightarrow> viewer \<Rightarrow> tunnel_op \<Rightarrow> (string \<Rightarrow> string) \<Rightarrow> query \<Rightarrow> jsval \<Rightarrow> tunnel_world \<Rightarrow> tunnel_world \<times> tunnel_answer" where
  "tunnels_route ext now v op p q body w =
     (let i = to_lower (p ''id''); a = tw_api w; input = body_or_empty body; done = (\<lambda>m _. ADone m)
      in case op of
           TunnelList \<Rightarrow> (w, AList (listTunnels (tt_config ext) v a))
         | TunnelGet \<Rightarrow>
             (w, case getTunnel (tt_config ext) (tt_client ext) (\<lambda>n. length (filter (\<lambda>r. rq_tunnel r = n) (tl_rows (fst (tw_logs w))))) i v a of
                   None \<Rightarrow> NO_SUCH_TUNNEL | Some t \<Rightarrow> ATunnel t)
         | TunnelHar \<Rightarrow> guarded_route v i (har_route ext i) w
         | TunnelRequests \<Rightarrow> guarded_route v i (requests_route ext i q) w
         | TunnelVisitors \<Rightarrow> guarded_route v i (visitors_route i q) w
         | VisitorsClear \<Rightarrow> guarded_route v i (\<lambda>w. (w\<lparr>tw_visitors := forget_visitors i (tw_visitors w)\<rparr>, ADone ''Visitors cleared'')) w
         | TunnelConnections \<Rightarrow> guarded_route v i (connections_route ext i q) w
         | ConnectionGet \<Rightarrow> guarded_route v i (connection_route ext i (p ''key'')) w
         | ConnectionsClear \<Rightarrow> guarded_route v i (\<lambda>w. (w\<lparr>tw_conns := clear_conns (tt_ok ext) i (tw_conns w)\<rparr>, ADone ''Connections cleared'')) w
         | RequestsClear \<Rightarrow> guarded_route v i (\<lambda>w. (w\<lparr>tw_logs := forget_requests i (tw_logs w)\<rparr>, ADone ''Requests cleared'')) w
         | FramesGet \<Rightarrow> guarded_route v i (frames_route ext i (p ''requestId'') q) w
         | FrameSend \<Rightarrow> guarded_route v i (frame_send_route ext now i (p ''requestId'') body) w
         | RequestGet \<Rightarrow> guarded_route v i (request_route ext i (p ''requestId'')) w
         | RequestReplay \<Rightarrow>
             (case replay (tt_ok ext) (tt_started ext) now (tt_response ext) i (request_id (p ''requestId'')) input v a (tw_logs w) of
                (tf, r) \<Rightarrow> (w\<lparr>tw_logs := tf\<rparr>, replied AReplayed r))
         | BreakpointsGet \<Rightarrow> (w, replied (\<lambda>_. ABreakpoints) (getBreakpoints now i v a))
         | BreakpointsSet \<Rightarrow> by_controller ARules (setBreakpoints i input v a) w
         | BreakpointResolve \<Rightarrow> by_controller done (resolveBreakpoint i (p ''holdId'') input v a) w
         | TunnelStats \<Rightarrow> guarded_route v i (\<lambda>w. (w, AStats (read_stats i (tw_stats w)))) w
         | TunnelAccess \<Rightarrow> by_controller AAccess (updateAccess (tt_scrypt ext) (tt_salt ext) i input v a) w
         | ClientsDisconnect \<Rightarrow> by_controller done (disconnectAllClients i v a) w
         | ClientDisconnect \<Rightarrow> by_controller done (disconnectClient (tt_client ext) i (p ''clientId'') v a) w
         | TunnelClose \<Rightarrow> by_controller done (closeTunnel i v a) w)"

text \<open>
  C15. A tunnel of someone else might as well not exist: whatever one asks of a tunnel that is not
  one's own, by any route and without the role of an admin, the answer is the one for a name
  that nobody uses, and nothing of the server has changed; the list of tunnels has only those
  one may touch.
\<close>

theorem foreign_tunnel_invisible:
  "(op \<noteq> TunnelList \<longrightarrow> touched (to_lower (p ''id'')) v (ap_registry (tw_api w)) = None \<longrightarrow>
      tunnels_route ext now v op p q body w = (w, NO_SUCH_TUNNEL)) \<and>
   (\<forall>t. tunnels_route ext now v TunnelList p q body w = (w, AList t) \<longrightarrow>
      set t = serializeTunnel (tt_config ext) (tw_api w) ` {x \<in> set (live_tunnels (ap_registry (tw_api w))). mayTouch (Some x) v})"
proof (intro conjI impI allI)
  assume op: "op \<noteq> TunnelList" and none: "touched (to_lower (p ''id'')) v (ap_registry (tw_api w)) = None"
  have guard: "\<not> mayTouch (map_option snd (get_tunnel (to_lower (p ''id'')) (ap_registry (tw_api w)))) v"
    using none by (auto simp: touched_def mayTouch_def split: if_splits option.splits)
  have tcp: "tcpTunnel (to_lower (p ''id'')) v (tw_api w) = TunnelsApi.Refuse 404 ''Tunnel not found''"
    using none by (simp add: tcpTunnel_def TunnelsApi.NOT_FOUND_def)
  show "tunnels_route ext now v op p q body w = (w, NO_SUCH_TUNNEL)"
    using op none guard tcp
    by (cases op)
      (simp_all add: tunnels_route_def guarded_route_def by_controller_def replied_def getTunnel_def replay_def getBreakpoints_def
        setBreakpoints_def resolveBreakpoint_def updateAccess_def disconnectAllClients_def disconnectClient_def closeTunnel_def
        TunnelsApi.NOT_FOUND_def NO_SUCH_TUNNEL_def Let_def)
next
  fix t assume "tunnels_route ext now v TunnelList p q body w = (w, AList t)"
  then show "set t = serializeTunnel (tt_config ext) (tw_api w) ` {x \<in> set (live_tunnels (ap_registry (tw_api w))). mayTouch (Some x) v}"
    by (simp add: tunnels_route_def listTunnels_def Let_def) (auto simp: mayTouch_def)
qed

definition sample_world :: tunnel_world where
  "sample_world = \<lparr>tw_api = sample_api, tw_logs = (new_TrafficLog\<lparr>tl_rows := [sample_row]\<rparr>, new_FrameLog), tw_visitors = new_Visitors,
     tw_conns = new_ConnectionLog, tw_stats = []\<rparr>"

definition sample_tunnel_tools :: tunnel_tools where
  "sample_tunnel_tools = \<lparr>tt_config = run_config, tt_scheme = ''https'', tt_scrypt = (\<lambda>_ _ _. []), tt_salt = [],
     tt_client = (\<lambda>_. \<lparr>cv_id = [], cv_ip = [], cv_connectedAt = None, cv_streams = 0\<rparr>), tt_like = (\<lambda>_ _. True), tt_ok = True,
     tt_har = sample_har, tt_started = 0, tt_response = None\<rparr>"

definition clear_web :: "nat \<Rightarrow> tunnel_world \<times> tunnel_answer" where
  "clear_web account = tunnels_route sample_tunnel_tools 5 \<lparr>vw_role = ''user'', vw_account = account, vw_username = ''bob''\<rparr>
     RequestsClear (\<lambda>_. ''Web'') [] (JObj []) sample_world"

theorem foreign_tunnel_invisible_witness:
  "clear_web 2 = (sample_world, NO_SUCH_TUNNEL) \<and> tl_rows (fst (tw_logs (fst (clear_web 1)))) = []"
proof -
  have none: "touched (to_lower ''Web'') \<lparr>vw_role = ''user'', vw_account = 2, vw_username = ''bob''\<rparr> (ap_registry (tw_api sample_world)) = None"
    by code_simp
  have "clear_web 2 = (sample_world, NO_SUCH_TUNNEL)"
    unfolding clear_web_def
    by (rule foreign_tunnel_invisible [THEN conjunct1, rule_format]) (simp, rule none)
  moreover have "tl_rows (fst (tw_logs (fst (clear_web 1)))) = []" by code_simp
  ultimately show ?thesis ..
qed

end
