(* ===== verification/Pages.thy ===== *)
theory Pages
  imports Http
begin

text \<open>
  What the server sends to browsers besides the API: pages with a state written into them
  (src/server/utils/pages.js, html.js) and files of the web interface (utils/static.js).
  JSON.stringify, the built index page and the file system are arguments; paths are those of
  POSIX.
\<close>

subsection \<open>Pages with a state\<close>

text \<open>The replacement text of String.replace with a string as the pattern: the marks for a dollar,
  the match, and the text before and after it.\<close>

fun expand_template :: "string \<Rightarrow> string \<Rightarrow> string \<Rightarrow> string \<Rightarrow> string" where
  "expand_template m before after (c # d # cs) =
     (if c = CHR ''$'' \<and> d = CHR ''$'' then CHR ''$'' # expand_template m before after cs
      else if c = CHR ''$'' \<and> d = CHR ''&'' then m @ expand_template m before after cs
      else if c = CHR ''$'' \<and> d = CHR 0x60 then before @ expand_template m before after cs
      else if c = CHR ''$'' \<and> d = CHR 0x27 then after @ expand_template m before after cs
      else c # expand_template m before after (d # cs))"
| "expand_template m before after s = s"

definition replace_first :: "string \<Rightarrow> string \<Rightarrow> string \<Rightarrow> string" where
  "replace_first pattern template s =
     (case index_of pattern s of
        None \<Rightarrow> s
      | Some i \<Rightarrow>
          let before = take i s; after = drop (i + length pattern) s
          in before @ expand_template pattern before after template @ after)"

definition escape_less :: "string \<Rightarrow> string" where
  "escape_less s = concat (map (\<lambda>c. if c = CHR ''<'' then [CHR 0x5C] @ ''u003c'' else [c]) s)"

definition HEAD_END_MARK :: string where
  "HEAD_END_MARK = ''</head>''"

definition state_page :: "string \<Rightarrow> string \<Rightarrow> string" where
  "state_page payload html =
     replace_first HEAD_END_MARK (''<script>window.__tunlit__='' @ payload @ ''</script></head>'') html"

text \<open>An answer is JSON, or a page; the page of a HEAD request has only its length.\<close>

datatype page_answer = JsonAnswer nat jsval "(string \<times> string) list" | HtmlAnswer nat string bool "(string \<times> string) list"

fun object_entries :: "jsval \<Rightarrow> (string \<times> jsval) list" where
  "object_entries (JObj kvs) = kvs"
| "object_entries _ = []"

definition sendAppState ::
  "(jsval \<Rightarrow> string) \<Rightarrow> string option \<Rightarrow> string \<Rightarrow> headers \<Rightarrow> nat \<Rightarrow> jsval \<Rightarrow> (string \<times> string) list \<Rightarrow> page_answer" where
  "sendAppState stringify index_html method hs status state extra =
     (case (if isNavigation hs then index_html else None) of
        Some (x # xs) \<Rightarrow>
          HtmlAnswer status (state_page (escape_less (stringify state)) (x # xs)) (method = ''HEAD'') extra
      | _ \<Rightarrow>
          JsonAnswer status
            (JObj (fold (\<lambda>(k, v) m. map_set k v m) (object_entries state) [(''error'', js_get state ''kind'')])) extra)"

lemma escape_less_inert: "CHR ''<'' \<notin> set (escape_less s)"
  by (auto simp: escape_less_def)

lemma escape_less_plain: "CHR ''$'' \<notin> set s \<Longrightarrow> CHR ''$'' \<notin> set (escape_less s)"
  by (auto simp: escape_less_def)

lemma expand_plain: "CHR ''$'' \<notin> set t \<Longrightarrow> expand_template m before after t = t"
  by (induction m before after t rule: expand_template.induct) auto

lemma index_of_split: "index_of p s = Some i \<Longrightarrow> s = take i s @ p @ drop (i + length p) s"
proof (induction s arbitrary: i)
  case Nil
  then show ?case by (auto split: if_splits)
next
  case (Cons x s)
  show ?case
  proof (cases "starts_with p (x # s)")
    case True
    then have "i = 0" "take (length p) (x # s) = p" using Cons.prems by (auto simp: starts_with_def)
    then show ?thesis using append_take_drop_id [of "length p" "x # s"] by simp
  next
    case False
    then obtain j where j: "index_of p s = Some j" "i = Suc j" using Cons.prems by auto
    then show ?thesis using Cons.IH [OF j(1)] by simp
  qed
qed

text \<open>
  The state of a page stays inside its script: for a state whose text has no dollar sign the
  page is the index page with one script in front of the first end of the head, and nothing in
  the text of that script can end it; nothing else of the index page is changed.
\<close>

theorem page_state_contained:
  assumes "isNavigation hs" "html = before @ HEAD_END_MARK @ after" "index_of HEAD_END_MARK html = Some (length before)"
    "CHR ''$'' \<notin> set (stringify state)"
  shows "\<exists>text. sendAppState stringify (Some html) method hs status state extra =
      HtmlAnswer status (before @ ''<script>window.__tunlit__='' @ text @ ''</script></head>'' @ after) (method = ''HEAD'') extra \<and>
    CHR ''<'' \<notin> set text"
proof -
  let ?t = "escape_less (stringify state)"
  have "html \<noteq> []" using assms(2) by (simp add: HEAD_END_MARK_def)
  then obtain x xs where html: "html = x # xs" by (cases html) auto
  have "state_page ?t html = before @ ''<script>window.__tunlit__='' @ ?t @ ''</script></head>'' @ after"
    using assms(2,3) escape_less_plain [OF assms(4)]
    by (simp add: state_page_def replace_first_def Let_def expand_plain)
  then show ?thesis using assms(1) html escape_less_inert [of "stringify state"] by (auto simp: sendAppState_def)
qed

definition sample_html :: string where
  "sample_html = ''<head></head><body>page</body>''"

definition sample_navigation :: headers where
  "sample_navigation = [(''sec-fetch-dest'', HOne ''document'')]"

theorem page_state_contained_witness:
  "\<exists>text. sendAppState (\<lambda>v. js_string (js_get v ''id'')) (Some sample_html) ''GET'' sample_navigation 404
       (JObj [(''kind'', JStr ''missing''), (''id'', JStr ''</script>'')]) [] =
     HtmlAnswer 404 (''<head>'' @ ''<script>window.__tunlit__='' @ text @ ''</script></head>'' @ ''<body>page</body>'') False [] \<and>
   CHR ''<'' \<notin> set text"
proof -
  have "isNavigation sample_navigation" by code_simp
  moreover have "sample_html = ''<head>'' @ HEAD_END_MARK @ ''<body>page</body>''" by code_simp
  moreover have "index_of HEAD_END_MARK sample_html = Some (length ''<head>'')" by code_simp
  ultimately show ?thesis
    using page_state_contained [of sample_navigation sample_html "''<head>''" "''<body>page</body>''" "\<lambda>v. js_string (js_get v ''id'')"
        "JObj [(''kind'', JStr ''missing''), (''id'', JStr ''</script>'')]" "''GET''" 404 "[]"] by simp
qed

text \<open>A dollar sign in the state is a mark of the replacement: the rest of the page is copied into
  the script, and the first end of a script in it ends the one of the state.\<close>

lemma dollar_copies_page_into_script:
  "sendAppState (\<lambda>v. js_string (js_get v ''id'')) (Some (''<head></head>'' @ ''<script>run()</script>'')) ''GET'' sample_navigation 404
     (JObj [(''kind'', JStr ''missing''), (''id'', JStr (''$'' @ [CHR 0x27]))]) [] =
   HtmlAnswer 404 (''<head><script>window.__tunlit__='' @ ''<script>run()</script>'' @ ''</script></head>'' @ ''<script>run()</script>'') False []"
  by code_simp

subsection \<open>Files of the web interface\<close>

text \<open>path.normalize of an absolute path, and path.join of an absolute directory and a relative
  path.\<close>

fun resolve_segments :: "string list \<Rightarrow> string list \<Rightarrow> string list" where
  "resolve_segments stack [] = rev stack"
| "resolve_segments stack (s # segs) =
     (if s = [] \<or> s = ''.'' then resolve_segments stack segs
      else if s = ''..'' then resolve_segments (tl stack) segs
      else resolve_segments (s # stack) segs)"

definition normalize_path :: "string \<Rightarrow> string" where
  "normalize_path p =
     (let segs = resolve_segments [] (split_on CHR ''/'' p)
      in ''/'' @ join ''/'' segs @ (if segs \<noteq> [] \<and> last p = CHR ''/'' then ''/'' else []))"

definition path_join :: "string \<Rightarrow> string \<Rightarrow> string" where
  "path_join dir relative = normalize_path (if relative = [] then dir else dir @ ''/'' @ relative)"

text \<open>path.extname: from the last dot of the base name, unless that is its first character.\<close>

definition extname :: "string \<Rightarrow> string" where
  "extname p =
     (case filter (\<lambda>s. s \<noteq> []) (split_on CHR ''/'' p) of
        [] \<Rightarrow> []
      | s # segs \<Rightarrow>
          (let base = last (s # segs); ext = rev (takeWhile (\<lambda>c. c \<noteq> CHR ''.'') (rev base))
           in if CHR ''.'' \<in> set (tl base) \<and> base \<noteq> ''..'' then CHR ''.'' # ext else []))"

definition MIME :: "(string \<times> string) list" where
  "MIME =
     [(''.html'', ''text/html; charset=utf-8''), (''.js'', ''text/javascript; charset=utf-8''),
      (''.css'', ''text/css; charset=utf-8''), (''.svg'', ''image/svg+xml''), (''.png'', ''image/png''),
      (''.ico'', ''image/x-icon''), (''.json'', ''application/json; charset=utf-8''), (''.woff'', ''font/woff''),
      (''.woff2'', ''font/woff2''), (''.txt'', ''text/plain; charset=utf-8''),
      (''.map'', ''application/json; charset=utf-8'')]"

text \<open>The file system: whether a path is a file, with its size; None when stat throws.\<close>

type_synonym stat = "string \<Rightarrow> (bool \<times> nat) option"

record file_answer =
  fa_path :: string
  fa_type :: string
  fa_length :: nat
  fa_cache :: string
  fa_streamed :: bool

definition sendFile :: "string \<Rightarrow> stat \<Rightarrow> string \<Rightarrow> string \<Rightarrow> file_answer option" where
  "sendFile dist stat method relative =
     (let p = normalize_path (path_join dist relative)
      in if \<not> starts_with (dist @ ''/'') p then None
         else case stat p of
                None \<Rightarrow> None
              | Some (regular, bytes) \<Rightarrow>
                  if \<not> regular then None
                  else Some \<lparr>fa_path = p,
                    fa_type = (case map_of MIME (to_lower (extname p)) of None \<Rightarrow> ''application/octet-stream'' | Some t \<Rightarrow> t),
                    fa_length = bytes,
                    fa_cache = (if starts_with ''assets/'' relative then ''public, max-age=31536000, immutable'' else ''no-cache''),
                    fa_streamed = (method \<noteq> ''HEAD'')\<rparr>)"

text \<open>The cached index page: read again when the file has another time stamp.\<close>

definition readIndex :: "(nat \<times> string) option \<Rightarrow> (nat \<times> string) option \<Rightarrow> (nat \<times> string) option \<times> string option" where
  "readIndex file cached =
     (case file of
        None \<Rightarrow> (cached, None)
      | Some (mtime, html) \<Rightarrow>
          (case cached of
             Some (s, old) \<Rightarrow> if s = mtime then (cached, Some old) else (Some (mtime, html), Some html)
           | None \<Rightarrow> (Some (mtime, html), Some html)))"

text \<open>None is the page that says the interface has not been built, with status 503.\<close>

definition sendIndex :: "string \<Rightarrow> stat \<Rightarrow> string \<Rightarrow> file_answer option" where
  "sendIndex dist stat method = sendFile dist stat method ''index.html''"

lemma resolve_segments_clean:
  "(\<forall>s \<in> set stack. s \<noteq> [] \<and> s \<noteq> ''.'' \<and> s \<noteq> ''..'' \<and> CHR ''/'' \<notin> set s) \<Longrightarrow> (\<forall>s \<in> set segs. CHR ''/'' \<notin> set s) \<Longrightarrow>
   s \<in> set (resolve_segments stack segs) \<Longrightarrow> s \<noteq> [] \<and> s \<noteq> ''.'' \<and> s \<noteq> ''..'' \<and> CHR ''/'' \<notin> set s"
proof (induction stack segs rule: resolve_segments.induct)
  case (2 stack x segs)
  have "\<forall>s \<in> set (tl stack). s \<noteq> [] \<and> s \<noteq> ''.'' \<and> s \<noteq> ''..'' \<and> CHR ''/'' \<notin> set s"
    using 2(4) by (cases stack) auto
  then show ?case using 2 by (auto split: if_splits)
qed auto

definition clean :: "string list \<Rightarrow> bool" where
  "clean segs \<longleftrightarrow> (\<forall>s \<in> set segs. s \<noteq> [] \<and> s \<noteq> ''.'' \<and> s \<noteq> ''..'' \<and> CHR ''/'' \<notin> set s)"

lemma resolve_clean: "clean (resolve_segments [] (split_on CHR ''/'' p))"
  using resolve_segments_clean [of "[]" "split_on CHR ''/'' p"] split_on_parts by (fastforce simp: clean_def)

lemma resolve_segments_id: "clean segs \<Longrightarrow> resolve_segments stack segs = rev stack @ segs"
  by (induction stack segs rule: resolve_segments.induct) (auto simp: clean_def)

lemma split_join_slash: "segs \<noteq> [] \<Longrightarrow> clean segs \<Longrightarrow> split_on CHR ''/'' (join ''/'' segs @ ''/'') = segs @ [[]]"
proof (induction segs rule: induct_list012)
  case (2 x)
  then show ?case using split_on_append_sep [of "CHR ''/''" x "[]"] by (auto simp: clean_def)
next
  case (3 x y zs)
  then have "CHR ''/'' \<notin> set x" "clean (y # zs)" by (auto simp: clean_def)
  then show ?case using 3 split_on_append_sep [of "CHR ''/''" x "join ''/'' (y # zs) @ ''/''"] by (simp add: join_Cons)
qed simp

lemma normal_segments:
  assumes "s \<in> set (split_on CHR ''/'' (normalize_path p))"
  shows "s \<noteq> ''.'' \<and> s \<noteq> ''..''"
proof -
  define segs where "segs = resolve_segments [] (split_on CHR ''/'' p)"
  have c: "clean segs" using resolve_clean by (simp add: segs_def)
  have n: "normalize_path p = CHR ''/'' # join ''/'' segs @ (if segs \<noteq> [] \<and> last p = CHR ''/'' then ''/'' else [])"
    by (simp add: normalize_path_def segs_def Let_def)
  have "set (split_on CHR ''/'' (normalize_path p)) \<subseteq> insert [] (set segs)"
  proof (cases "segs = []")
    case False
    then have "split_on CHR ''/'' (join ''/'' segs) = segs" using c by (intro split_on_join) (auto simp: clean_def)
    then show ?thesis using split_join_slash [OF False c] by (auto simp: n)
  qed (simp add: n)
  then show ?thesis using assms c by (auto simp: clean_def)
qed

lemma normalize_clean: "segs \<noteq> [] \<Longrightarrow> clean segs \<Longrightarrow> normalize_path (''/'' @ join ''/'' segs) = ''/'' @ join ''/'' segs"
proof -
  assume a: "segs \<noteq> []" "clean segs"
  then have s: "split_on CHR ''/'' (join ''/'' segs) = segs" by (intro split_on_join) (auto simp: clean_def)
  have "last (join ''/'' segs) \<noteq> CHR ''/'' \<and> join ''/'' segs \<noteq> []" using a
  proof (induction segs rule: induct_list012)
    case (2 x)
    then show ?case by (auto simp: clean_def) (metis last_in_set)
  next
    case (3 x y zs)
    then show ?case by (auto simp: clean_def join_Cons)
  qed simp
  then show ?thesis using s a by (simp add: normalize_path_def resolve_segments_id)
qed

lemma join_append: "xs \<noteq> [] \<Longrightarrow> ys \<noteq> [] \<Longrightarrow> join sep (xs @ ys) = join sep xs @ sep @ join sep ys"
proof (induction xs)
  case (Cons x xs)
  then show ?case by (cases "xs = []") (simp_all add: join_Cons)
qed simp

text \<open>
  The files of the web interface are served and nothing else. Whatever path is asked for, the
  file sent is an existing regular one below the directory of the build, by a path without any
  relative segment; and every regular file below that directory is sent under its own path.
\<close>

theorem static_files_contained:
  assumes dist: "dist = ''/'' @ join ''/'' ds" "ds \<noteq> []" "clean ds"
  shows "(sendFile dist stat method relative = Some a \<longrightarrow>
      starts_with (dist @ ''/'') (fa_path a) \<and> stat (fa_path a) = Some (True, fa_length a) \<and>
      (\<forall>s \<in> set (split_on CHR ''/'' (fa_path a)). s \<noteq> ''.'' \<and> s \<noteq> ''..'')) \<and>
    (clean rs \<and> rs \<noteq> [] \<and> stat (dist @ ''/'' @ join ''/'' rs) = Some (True, n) \<longrightarrow>
      (\<exists>a. sendFile dist stat method (join ''/'' rs) = Some a \<and> fa_path a = dist @ ''/'' @ join ''/'' rs))"
proof
  show "sendFile dist stat method relative = Some a \<longrightarrow>
      starts_with (dist @ ''/'') (fa_path a) \<and> stat (fa_path a) = Some (True, fa_length a) \<and>
      (\<forall>s \<in> set (split_on CHR ''/'' (fa_path a)). s \<noteq> ''.'' \<and> s \<noteq> ''..'')"
  proof
    let ?p = "normalize_path (path_join dist relative)"
    assume a: "sendFile dist stat method relative = Some a"
    then have "fa_path a = ?p" "starts_with (dist @ ''/'') ?p" "stat ?p = Some (True, fa_length a)"
      by (auto simp: sendFile_def Let_def split: if_splits option.splits)
    then show "starts_with (dist @ ''/'') (fa_path a) \<and> stat (fa_path a) = Some (True, fa_length a) \<and>
      (\<forall>s \<in> set (split_on CHR ''/'' (fa_path a)). s \<noteq> ''.'' \<and> s \<noteq> ''..'')"
      using normal_segments [of _ "path_join dist relative"] by simp
  qed
  show "clean rs \<and> rs \<noteq> [] \<and> stat (dist @ ''/'' @ join ''/'' rs) = Some (True, n) \<longrightarrow>
      (\<exists>a. sendFile dist stat method (join ''/'' rs) = Some a \<and> fa_path a = dist @ ''/'' @ join ''/'' rs)"
  proof
    assume r: "clean rs \<and> rs \<noteq> [] \<and> stat (dist @ ''/'' @ join ''/'' rs) = Some (True, n)"
    have whole: "dist @ ''/'' @ join ''/'' rs = ''/'' @ join ''/'' (ds @ rs)"
      using r dist by (simp add: join_append)
    have c: "clean (ds @ rs)" "ds @ rs \<noteq> []" using r dist by (auto simp: clean_def)
    have "join ''/'' rs \<noteq> []" using r by (cases rs; cases "tl rs") (auto simp: clean_def join_Cons)
    then have "path_join dist (join ''/'' rs) = dist @ ''/'' @ join ''/'' rs"
      using normalize_clean [OF c(2,1)] whole by (simp add: path_join_def)
    moreover have "normalize_path (dist @ ''/'' @ join ''/'' rs) = dist @ ''/'' @ join ''/'' rs"
      using normalize_clean [OF c(2,1)] whole by simp
    ultimately show "\<exists>a. sendFile dist stat method (join ''/'' rs) = Some a \<and> fa_path a = dist @ ''/'' @ join ''/'' rs"
      using r by (simp add: sendFile_def Let_def starts_with_iff)
  qed
qed

theorem static_files_contained_witness:
  "sendFile ''/srv/dist'' (\<lambda>p. if p = ''/srv/dist/assets/a.js'' then Some (True, 7) else None) ''GET'' ''x/../../secret'' = None \<and>
   (\<exists>a. sendFile ''/srv/dist'' (\<lambda>p. if p = ''/srv/dist/assets/a.js'' then Some (True, 7) else None) ''GET'' ''assets/a.js'' = Some a \<and>
      fa_path a = ''/srv/dist/assets/a.js'')"
proof -
  have d: "''/srv/dist'' = ''/'' @ join ''/'' [''srv'', ''dist'']" "[''srv'', ''dist''] \<noteq> []" "clean [''srv'', ''dist'']"
    by (simp_all add: clean_def)
  have "clean [''assets'', ''a.js'']" by (simp add: clean_def)
  then have "\<exists>a. sendFile ''/srv/dist'' (\<lambda>p. if p = ''/srv/dist/assets/a.js'' then Some (True, 7) else None) ''GET'' ''assets/a.js'' = Some a \<and>
      fa_path a = ''/srv/dist/assets/a.js''"
    using conjunct2 [OF static_files_contained [OF d, of "\<lambda>p. if p = ''/srv/dist/assets/a.js'' then Some (True, 7) else None"
        "''GET''" undefined undefined "[''assets'', ''a.js'']" 7]] by simp
  moreover have "sendFile ''/srv/dist'' (\<lambda>p. if p = ''/srv/dist/assets/a.js'' then Some (True, 7) else None) ''GET'' ''x/../../secret'' = None"
    by code_simp
  ultimately show ?thesis by blast
qed

end
