(* ===== verification/Browser.thy ===== *)
theory Browser
  imports Http
begin

text \<open>
  The scripts that keep the pages of a path-mode tunnel with their tunnel
  (src/server/lib/browser.js): the service worker of the origin, which knows the tunnel of every
  page and forwards its requests, and what the script injected into a page does to its
  websockets. They run in the browser of a visitor; URL parsing is an argument, a request of the
  browser is given parsed.
\<close>

subsection \<open>The service worker\<close>

text \<open>A request that the worker sees: its address, whether it is a navigation, the page that makes
  it and the page that a navigation will become.\<close>

record fetch_event =
  fe_origin :: string
  fe_pathname :: string
  fe_params :: "(string \<times> string) list"
  fe_href :: string
  fe_navigate :: bool
  fe_client :: string
  fe_resulting :: string

type_synonym bindings = "(string, string) jsmap"

definition attach_char :: "char \<Rightarrow> bool" where
  "attach_char c \<longleftrightarrow> (97 \<le> ord c \<and> ord c \<le> 122) \<or> (48 \<le> ord c \<and> ord c \<le> 57) \<or> c = CHR ''-''"

text \<open>The match of \<open>^/@[a-z0-9-]{3,32}(/|$)\<close>.\<close>

definition ATTACH_PATH :: "string \<Rightarrow> bool" where
  "ATTACH_PATH pathname \<longleftrightarrow> starts_with ''/@'' pathname \<and>
     (let name = takeWhile attach_char (drop 2 pathname); rest = drop (2 + length name) pathname
      in 3 \<le> length name \<and> length name \<le> 32 \<and> (rest = [] \<or> hd rest = CHR ''/''))"

definition isOwnPath :: "string \<Rightarrow> bool" where
  "isOwnPath pathname \<longleftrightarrow>
     pathname = UI_PREFIX \<or> starts_with (UI_PREFIX @ ''/'') pathname \<or> ATTACH_PATH pathname"

text \<open>The message of a page that was served: it is bound to its tunnel and told so.\<close>

definition on_message :: "string \<Rightarrow> string \<Rightarrow> string option \<Rightarrow> bindings \<Rightarrow> bindings \<times> (string \<times> string) option" where
  "on_message type tunnel source b =
     (if type \<noteq> ''tunlit-bind'' \<or> tunnel = [] then (b, None)
      else case source of None \<Rightarrow> (b, None) | Some client \<Rightarrow> (map_set client tunnel b, Some (client, tunnel)))"

text \<open>URLSearchParams.set: the first entry of the name is replaced, the others go.\<close>

fun params_set :: "string \<Rightarrow> string \<Rightarrow> (string \<times> string) list \<Rightarrow> (string \<times> string) list" where
  "params_set k v [] = [(k, v)]"
| "params_set k v ((k', v') # ps) =
     (if k' = k then (k, v) # filter (\<lambda>(n, _). n \<noteq> k) ps else (k', v') # params_set k v ps)"

datatype fetch_decision =
    PassOn
  | Forward string "(string \<times> string) list" bool
  | Reattach string

definition bound :: "bindings \<Rightarrow> string \<Rightarrow> string option" where
  "bound b client = (case map_get b client of None \<Rightarrow> None | Some t \<Rightarrow> if t = [] then None else Some t)"

definition on_fetch :: "string \<Rightarrow> fetch_event \<Rightarrow> bindings \<Rightarrow> bindings \<times> fetch_decision" where
  "on_fetch origin e b =
     (if fe_origin e \<noteq> origin then (b, PassOn)
      else if isOwnPath (fe_pathname e) \<or> map_of (fe_params e) QUERY_PARAM \<noteq> None then (b, PassOn)
      else case bound b (fe_client e) of
             Some tunnel \<Rightarrow>
               (if fe_navigate e \<and> fe_resulting e \<noteq> [] then map_set (fe_resulting e) tunnel b else b,
                Forward (fe_pathname e) (params_set QUERY_PARAM tunnel (fe_params e)) (\<not> fe_navigate e))
           | None \<Rightarrow> (b, if fe_navigate e then Reattach (fe_href e) else PassOn))"

subsection \<open>Websockets of a page\<close>

record socket_url =
  so_protocol :: string
  so_host :: string
  so_pathname :: string
  so_params :: "(string \<times> string) list"

definition fix_socket :: "string \<Rightarrow> string \<Rightarrow> string \<Rightarrow> socket_url \<Rightarrow> socket_url" where
  "fix_socket tunnel protocol host u =
     (let u1 = (if protocol = ''https:'' \<and> so_protocol u = ''ws:'' then u\<lparr>so_protocol := ''wss:''\<rparr> else u)
      in if so_host u1 = host then u1\<lparr>so_params := params_set QUERY_PARAM tunnel (so_params u1)\<rparr> else u1)"

text \<open>What becomes of the registration of another service worker, and of those already there.\<close>

definition own_worker :: "string \<Rightarrow> bool" where
  "own_worker scriptURL \<longleftrightarrow> includes_str SW_PATH scriptURL"

definition registrations :: "string list \<Rightarrow> string list \<times> bool" where
  "registrations urls = (filter own_worker urls, \<not> list_ex own_worker urls)"

subsection \<open>A page and its tunnel\<close>

lemma params_set_get: "map_of (params_set k v ps) k = Some v"
  by (induction k v ps rule: params_set.induct) auto

lemma params_set_other: "k' \<noteq> k \<Longrightarrow> map_of (params_set k v ps) k' = map_of ps k'"
proof (induction k v ps rule: params_set.induct)
  case (2 k v k1 v1 ps)
  have "map_of (filter (\<lambda>(n, _). n \<noteq> k) ps) k' = map_of ps k'" using 2(2) by (induction ps) auto
  then show ?case using 2 by auto
qed simp

text \<open>Pages that follow one another by navigation.\<close>

inductive navigated :: "string \<Rightarrow> bindings \<Rightarrow> string \<Rightarrow> bindings \<Rightarrow> string \<Rightarrow> bool" for origin where
  Stay: "navigated origin b c b c"
| Navigate: "navigated origin b c b' c' \<Longrightarrow> fe_client e = c' \<Longrightarrow> fe_navigate e \<Longrightarrow> fe_resulting e = c'' \<Longrightarrow> c'' \<noteq> [] \<Longrightarrow>
    on_fetch origin e b' = (b'', Forward p ps follow) \<Longrightarrow> navigated origin b c b'' c''"
| Elsewhere: "navigated origin b c b' c' \<Longrightarrow> fe_client e \<noteq> c' \<Longrightarrow> fe_resulting e \<noteq> c' \<Longrightarrow>
    navigated origin b c (fst (on_fetch origin e b')) c'"

lemma navigated_bound: "navigated origin b c b' c' \<Longrightarrow> bound b c = Some tunnel \<Longrightarrow> bound b' c' = Some tunnel"
proof (induction rule: navigated.induct)
  case (Navigate b c b' c' e c'' b'' p ps follow)
  then show ?case by (auto simp: on_fetch_def bound_def split: if_splits option.splits)
next
  case (Elsewhere b c b' c' e)
  then show ?case by (auto simp: on_fetch_def bound_def split: if_splits option.splits)
qed

lemma own_paths: "\<not> isOwnPath p \<Longrightarrow> p \<noteq> UI_PREFIX \<and> \<not> starts_with (UI_PREFIX @ ''/'') p \<and> p \<noteq> GATE_PATH"
  by (auto simp: isOwnPath_def GATE_PATH_def UI_PREFIX_def starts_with_def)

lemma base_serves_selected:
  assumes "acmeChallenge env (pu_pathname (hq_url q)) = None" "h_ready c" "\<not> h_setupRequired c"
    "hostFor env c (ri_hostname (request_info_of c q)) = OnBase" "\<not> isOwnPath (pu_pathname (hq_url q))"
    "selection (pu_pathname (hq_url q)) = None" "map_of (pu_params (hq_url q)) QUERY_PARAM = Some v"
  shows "handleRequest env c rnd now q g = serveSelected env c rnd now (hq_headers q) (request_info_of c q) (to_lower v) g"
  using assms own_paths [OF assms(5)] by (simp add: handleRequest_def serve_base_def Let_def)


definition sample_fetch :: fetch_event where
  "sample_fetch = \<lparr>fe_origin = ''https://t.example'', fe_pathname = ''/app.js'', fe_params = [], fe_href = ''https://t.example/app.js'',
     fe_navigate = False, fe_client = ''page2'', fe_resulting = []\<rparr>"

definition sample_click :: fetch_event where
  "sample_click = \<lparr>fe_origin = ''https://t.example'', fe_pathname = ''/next'', fe_params = [], fe_href = ''https://t.example/next'',
     fe_navigate = True, fe_client = ''page1'', fe_resulting = ''page2''\<rparr>"


text \<open>Paths of an application that begin with an at sign are not forwarded, or are taken by the
  server for the address of a tunnel, as the two patterns do not agree on such paths either.\<close>

lemma at_paths_are_lost:
  "isOwnPath ''/@vite/client'' \<and> \<not> isOwnPath ''/@fs/main.js'' \<and> selection ''/@fs/main.js'' = Some (''fs'', ''/main.js'')"
  by code_simp

end
