(* ===== verification/Server.thy ===== *)
theory Server
  imports TunnelRoutes ServiceRoutes Tls Config
begin

text \<open>
  The process of the server, src/server/index.js: what its parts do when another one reports an
  event, the listeners and the certificate they answer with, starting and stopping; and the
  migrations of the database that a start runs (src/server/utils/migrationRunner.js). A migration
  is an argument, as is whether the database can be opened.
\<close>

subsection \<open>Migrations\<close>

record 'd migrated =
  mg_done :: "string list"
  mg_data :: 'd

fun apply_migrations ::
  "(string \<Rightarrow> 'd \<Rightarrow> 'd \<times> err option) \<Rightarrow> string list \<Rightarrow> 'd migrated \<Rightarrow> 'd migrated \<times> err option" where
  "apply_migrations up [] m = (m, None)"
| "apply_migrations up (file # files) m =
     (case up file (mg_data m) of
        (d, Some e) \<Rightarrow> (m\<lparr>mg_data := d\<rparr>, Some e)
      | (d, None) \<Rightarrow> apply_migrations up files \<lparr>mg_done = mg_done m @ [file], mg_data = d\<rparr>)"

definition migration_files :: "string list \<Rightarrow> string list" where
  "migration_files entries = sort_key (map ord) (filter (ends_with ''.js'') entries)"

definition runMigrations ::
  "(string \<Rightarrow> 'd \<Rightarrow> 'd \<times> err option) \<Rightarrow> string list \<Rightarrow> 'd migrated \<Rightarrow> 'd migrated \<times> err option" where
  "runMigrations up entries m =
     apply_migrations up (filter (\<lambda>f. f \<notin> set (mg_done m)) (migration_files entries)) m"

subsection \<open>Events between the parts\<close>

text \<open>quotas.on("exceeded"), registry.on("blocked") and registry.on("forget"); the listeners run
  where the event is emitted.\<close>

definition on_exceeded :: "nat \<Rightarrow> registry \<Rightarrow> registry" where
  "on_exceeded accountId r = closeFor (Some accountId) ''monthly traffic limit reached'' r"

definition on_blocked :: "time \<Rightarrow> string \<Rightarrow> string \<Rightarrow> ip_details \<Rightarrow> string \<Rightarrow> tunnel_world \<Rightarrow> tunnel_world" where
  "on_blocked now i ip details reason w = w\<lparr>tw_visitors := blocked_visitor now i ip details reason (tw_visitors w)\<rparr>"

definition on_forget :: "string \<Rightarrow> tunnel_world \<Rightarrow> tunnel_world" where
  "on_forget i w =
     w\<lparr>tw_logs := forget_requests i (tw_logs w), tw_visitors := forget_visitors i (tw_visitors w),
       tw_conns := forget_conns i (tw_conns w), tw_stats := forget_series i (tw_stats w),
       tw_api := (tw_api w)\<lparr>ap_bps := bp_forget i (ap_bps (tw_api w)), ap_access := forget_tunnel i (ap_access (tw_api w))\<rparr>\<rparr>"

subsection \<open>Listeners\<close>

text \<open>A connection that cannot be parsed is closed, with an answer when it still takes one.\<close>

definition CLIENT_ERROR :: string where
  "CLIENT_ERROR = ''HTTP/1.1 400 Bad Request'' @ [CHR 13, CHR 10] @ ''Connection: close'' @ [CHR 13, CHR 10, CHR 13, CHR 10]"

definition onClientError :: "string \<Rightarrow> bool \<Rightarrow> string option" where
  "onClientError code writable = (if code = ''ECONNRESET'' \<or> \<not> writable then None else Some CLIENT_ERROR)"

definition onListenError :: "string \<Rightarrow> string \<Rightarrow> string \<Rightarrow> string \<Rightarrow> string \<Rightarrow> string" where
  "onListenError listen name port code stack =
     (if code = ''EADDRINUSE'' then listen @ '':'' @ port @ '' is already in use, stop whatever is listening there first''
      else if code = ''EACCES'' then ''Not allowed to listen on '' @ listen @ '':'' @ port @ ''. Ports below 1024 need CAP_NET_BIND_SERVICE''
      else name @ '' server error: '' @ stack)"

definition SNICallback :: "string \<Rightarrow> tls_manager \<Rightarrow> secure_context result" where
  "SNICallback servername m =
     (case secureContextFor servername m of
        None \<Rightarrow> Inl (Err [] ''tunlit has no certificate yet'') | Some ctx \<Rightarrow> Inr ctx)"

datatype listener = HttpListener jsval | HttpsListener jsval | RedirectListener jsval

definition buildServers :: "cfg \<Rightarrow> listener list" where
  "buildServers c =
     (if \<not> truthy (cget c ''managesTls'') then [HttpListener (cget c ''port'')]
      else [HttpsListener (cget c ''httpsPort''), RedirectListener (cget c ''redirectPort'')])"

subsection \<open>Starting and stopping\<close>

record 'd process =
  ps_settings :: settings
  ps_stored :: cfg
  ps_limits :: jsval
  ps_db :: db
  ps_migrated :: "'d migrated"
  ps_tls :: tls_world
  ps_domains :: domains
  ps_quotas :: quotas
  ps_timers :: "string list"
  ps_listeners :: "listener list"

datatype 'd started = Exited string | Running "'d process"

definition tls_config_of :: "cfg \<Rightarrow> tls_config" where
  "tls_config_of c =
     \<lparr>tc_baseDomain = js_string (cget c ''baseDomain''), tc_wildcard = truthy (cget c ''wildcard''),
      tc_managesTls = truthy (cget c ''managesTls''), tc_ready = truthy (cget c ''ready'')\<rparr>"

definition start_tls :: "time \<Rightarrow> 'd process \<Rightarrow> 'd process" where
  "start_tls now p =
     (let c = tls_config_of (st_config (ps_settings p));
          w = loadExtra c (load_certificate c now (ps_tls p))
      in if tc_managesTls c
         then p\<lparr>ps_tls := w\<lparr>tw_manager := start_manager (tw_manager w)\<rparr>\<rparr> else p)"

definition TIMERS :: "string list" where
  "TIMERS = [''quotas'', ''intel'', ''stats'', ''traffic'', ''visitors'', ''connections'', ''frames'']"

definition start_process ::
  "(string \<Rightarrow> 'd \<Rightarrow> 'd \<times> err option) \<Rightarrow> string list \<Rightarrow> bool \<Rightarrow> time \<Rightarrow> 'd process \<Rightarrow> 'd started" where
  "start_process up entries available now p =
     (if \<not> available then Exited ''Could not open the database''
      else case runMigrations up entries (ps_migrated p) of
             (m, Some e) \<Rightarrow> Exited (''Could not start: '' @ err_message e)
           | (m, None) \<Rightarrow>
               (case applyStored ((ps_settings p)\<lparr>st_setupRequired := isSetupRequired (ps_db p)\<rparr>) (read_settings (ps_stored p)) of
                  Inl e \<Rightarrow> Exited (err_message e)
                | Inr s \<Rightarrow>
                    let p1 = start_tls now (p\<lparr>ps_migrated := m, ps_settings := s\<rparr>);
                        p2 = p1\<lparr>ps_domains := load_domains (ps_domains p1)\<rparr>
                    in (case load_quotas (ps_limits p2) (ps_quotas p2) of
                          Inl e \<Rightarrow> Exited (''Could not start: '' @ err_message e)
                        | Inr q \<Rightarrow>
                            Running (p2\<lparr>ps_quotas := q,
                              ps_timers := (if truthy (cget (st_config s) ''ready'') then [''domains''] else []) @ TIMERS,
                              ps_listeners := buildServers (st_config s)\<rparr>))))"

text \<open>shutdown: the listed parts stop, the traffic of the accounts is stored; what the logs have
  not stored is lost with the process.\<close>

definition STOPPED :: "string list" where
  "STOPPED = [''quotas'', ''domains'', ''stats'', ''traffic'', ''frames'', ''intel'']"

definition shutdown :: "string \<Rightarrow> 'd process \<Rightarrow> 'd process" where
  "shutdown month p =
     p\<lparr>ps_quotas := flush_usage (ps_db p) month (ps_quotas p),
       ps_tls := (ps_tls p)\<lparr>tw_manager := stop_manager (tw_manager (ps_tls p))\<rparr>,
       ps_timers := filter (\<lambda>t. t \<notin> set STOPPED) (ps_timers p), ps_listeners := []\<rparr>"

subsection \<open>What the migrations leave\<close>

lemma apply_migrations_trace:
  "apply_migrations up files m = (m', r) \<Longrightarrow>
   \<exists>ran rest. files = ran @ rest \<and> mg_done m' = mg_done m @ ran \<and> (r = None \<longleftrightarrow> rest = [])"
proof (induction up files m rule: apply_migrations.induct)
  case (2 up f fs m)
  obtain d e where u: "up f (mg_data m) = (d, e)" by (cases "up f (mg_data m)") auto
  show ?case
  proof (cases e)
    case None
    then obtain ran rest where "fs = ran @ rest" "mg_done m' = (mg_done m @ [f]) @ ran" "(r = None) = (rest = [])"
      using 2 u by fastforce
    then show ?thesis by (intro exI [of _ "f # ran"] exI [of _ rest]) simp
  next
    case (Some x)
    then have "mg_done m' = mg_done m" "r \<noteq> None" using 2 u by auto
    then show ?thesis by (intro exI [of _ "[]"] exI [of _ "f # fs"]) simp
  qed
qed simp

text \<open>
  A migration runs at most once, in the order of the names. A run appends to the record what
  it carried out, a prefix of what was pending; when it ends without an error every file of the
  directory is recorded and another run does nothing; when it stops, the next run takes up exactly
  what is left, the migration that failed first.
\<close>

theorem migrations_run_once:
  assumes run: "runMigrations up entries m = (m', r)" and names: "distinct entries" "distinct (mg_done m)"
  shows "\<exists>ran rest. filter (\<lambda>f. f \<notin> set (mg_done m)) (migration_files entries) = ran @ rest \<and>
      mg_done m' = mg_done m @ ran \<and> distinct (mg_done m') \<and>
      (r = None \<longleftrightarrow> rest = []) \<and> runMigrations up entries m' = apply_migrations up rest m'"
proof -
  let ?pending = "\<lambda>m. filter (\<lambda>f. f \<notin> set (mg_done m)) (migration_files entries)"
  obtain ran rest where d: "?pending m = ran @ rest" "mg_done m' = mg_done m @ ran" "(r = None) = (rest = [])"
    using apply_migrations_trace [OF run [unfolded runMigrations_def]] by blast
  have dist: "distinct (?pending m)" using names by (simp add: migration_files_def)
  then have sep: "set ran \<inter> set rest = {}" "distinct ran" using d(1) by auto
  have "set ran \<subseteq> set (?pending m)" using d(1) by simp
  then have fresh: "set (mg_done m) \<inter> set ran = {}" by auto
  have "?pending m' = filter (\<lambda>f. f \<notin> set ran) (?pending m)" using d(2) by (auto simp: conj_commute intro: filter_cong)
  also have "\<dots> = rest" using d(1) sep(1) by (auto simp: filter_empty_conv filter_id_conv)
  finally show ?thesis using d names(2) fresh sep(2) by (auto simp: runMigrations_def)
qed

definition sample_up :: "string \<Rightarrow> nat \<Rightarrow> nat \<times> err option" where
  "sample_up file d = (if file = ''0002-b.js'' \<and> d < 10 then (d + 5, Some (Err [] ''no such column'')) else (d + 1, None))"

definition sample_directory :: "string list" where
  "sample_directory = [''0002-b.js'', ''readme.md'', ''0001-a.js'']"

theorem migrations_run_once_witness:
  "runMigrations sample_up sample_directory \<lparr>mg_done = [], mg_data = 0\<rparr> =
     (\<lparr>mg_done = [''0001-a.js''], mg_data = 6\<rparr>, Some (Err [] ''no such column'')) \<and>
   runMigrations sample_up sample_directory \<lparr>mg_done = [''0001-a.js''], mg_data = 6\<rparr> =
     apply_migrations sample_up [''0002-b.js''] \<lparr>mg_done = [''0001-a.js''], mg_data = 6\<rparr>"
proof -
  have run: "runMigrations sample_up sample_directory \<lparr>mg_done = [], mg_data = 0\<rparr> =
     (\<lparr>mg_done = [''0001-a.js''], mg_data = 6\<rparr>, Some (Err [] ''no such column''))" by code_simp
  have pending: "filter (\<lambda>f. f \<notin> set (mg_done (\<lparr>mg_done = [], mg_data = 0 :: nat\<rparr>))) (migration_files sample_directory) =
     [''0001-a.js'', ''0002-b.js'']" by code_simp
  have names: "distinct sample_directory" by code_simp
  have no: "distinct (mg_done (\<lparr>mg_done = [], mg_data = 0 :: nat\<rparr>))" by simp
  obtain ran rest where
    "filter (\<lambda>f. f \<notin> set (mg_done (\<lparr>mg_done = [], mg_data = 0 :: nat\<rparr>))) (migration_files sample_directory) = ran @ rest"
    "mg_done (\<lparr>mg_done = [''0001-a.js''], mg_data = 6 :: nat\<rparr>) = mg_done (\<lparr>mg_done = [], mg_data = 0 :: nat\<rparr>) @ ran"
    and again: "runMigrations sample_up sample_directory \<lparr>mg_done = [''0001-a.js''], mg_data = 6\<rparr> =
       apply_migrations sample_up rest \<lparr>mg_done = [''0001-a.js''], mg_data = 6\<rparr>"
    using migrations_run_once [OF run names no] by blast
  then have "rest = [''0002-b.js'']" unfolding pending by auto
  then show ?thesis using run again by blast
qed

subsection \<open>A forgotten name\<close>

lemma number_requests_tunnel: "r \<in> set (number_requests n rs) \<Longrightarrow> rq_tunnel r \<in> rq_tunnel ` set rs"
  by (induction n rs rule: number_requests.induct) auto

lemma flush_requests_tunnels:
  "r \<in> set (tl_rows (fst (flush_requests ok (t, f)))) \<Longrightarrow> rq_tunnel r \<in> rq_tunnel ` (set (tl_rows t) \<union> set (tl_pending t))"
proof -
  assume r: "r \<in> set (tl_rows (fst (flush_requests ok (t, f))))"
  have sub: "set (fst (fold prune_requests gs (rows, frames))) \<subseteq> set rows" for gs rows frames
  proof (induction gs arbitrary: rows frames)
    case (Cons g gs)
    obtain rows' frames' where g: "prune_requests g (rows, frames) = (rows', frames')" by fastforce
    then have "set rows' \<subseteq> set rows" using prune_requests_rows [of g rows frames] prune_rows_subset by fastforce
    then show ?case using Cons.IH [of rows' frames'] g by auto
  qed simp
  show ?thesis
  proof (cases "tl_pending t = [] \<or> \<not> ok")
    case True
    then show ?thesis using r by (auto simp: flush_requests_def Let_def split: if_splits)
  next
    case False
    then have "r \<in> set (tl_rows t @ number_requests (tl_next t) (tl_pending t))"
      using r sub [of "js_set (map rq_tunnel (tl_pending t))" "tl_rows t @ number_requests (tl_next t) (tl_pending t)" "fl_rows f"]
      by (auto simp: flush_requests_def Let_def split: prod.splits)
    then show ?thesis using number_requests_tunnel [of r "tl_next t" "tl_pending t"] by auto
  qed
qed

lemma forgotten_requests:
  assumes "tf' = flush_requests ok (forget_requests i tf)" "r \<in> set (tl_rows (fst tf'))"
  shows "rq_tunnel r \<noteq> i"
proof -
  obtain t f where tf: "tf = (t, f)" by (cases tf)
  show ?thesis using assms flush_requests_tunnels unfolding tf forget_requests_def by fastforce
qed

lemma forgotten_lists:
  "list_requests like ok i flt sortBy order offset lim (forget_requests i tf) = (flush_requests ok (forget_requests i tf), [])"
  "count_requests like i flt (fst (flush_requests ok (forget_requests i tf))) = 0"
  "countries i (fst (flush_requests ok (forget_requests i tf))) = []"
  "all_requests ok i (forget_requests i tf) = (flush_requests ok (forget_requests i tf), [])"
  "get_request ok i n (forget_requests i tf) = (flush_requests ok (forget_requests i tf), None)"
proof -
  let ?rows = "tl_rows (fst (flush_requests ok (forget_requests i tf)))"
  have away: "\<forall>r \<in> set ?rows. rq_tunnel r \<noteq> i" using forgotten_requests [OF refl] by blast
  then have none: "filter (\<lambda>r. rq_tunnel r = i) ?rows = []" "filter (criteria like i flt) ?rows = []"
    by (auto simp: filter_empty_conv criteria_def)
  then show "list_requests like ok i flt sortBy order offset lim (forget_requests i tf) = (flush_requests ok (forget_requests i tf), [])"
    by (simp add: list_requests_def Let_def order_rows_def page_def)
  show "count_requests like i flt (fst (flush_requests ok (forget_requests i tf))) = 0" using none by (simp add: count_requests_def)
  show "countries i (fst (flush_requests ok (forget_requests i tf))) = []"
    using none by (simp add: countries_def js_set_def List.map_filter_def)
  show "all_requests ok i (forget_requests i tf) = (flush_requests ok (forget_requests i tf), [])"
    using none by (simp add: all_requests_def Let_def)
  show "get_request ok i n (forget_requests i tf) = (flush_requests ok (forget_requests i tf), None)"
    using away by (auto simp: get_request_def Let_def find_None_iff)
qed

lemma flush_visitor_tunnels: "vr_tunnel ` set (vs_rows (flush_visitor e v)) \<subseteq> insert (ve_tunnel e) (vr_tunnel ` set (vs_rows v))"
  by (auto simp: flush_visitor_def split: option.splits)

lemma flush_each_tunnels: "vr_tunnel ` set (vs_rows (fold flush_visitor es v)) \<subseteq> ve_tunnel ` set es \<union> vr_tunnel ` set (vs_rows v)"
proof (induction es arbitrary: v)
  case (Cons e es)
  have "vr_tunnel ` set (vs_rows (fold flush_visitor (e # es) v)) \<subseteq> ve_tunnel ` set es \<union> vr_tunnel ` set (vs_rows (flush_visitor e v))"
    using Cons.IH [of "flush_visitor e v"] by (simp del: image_subset_iff)
  also have "\<dots> \<subseteq> ve_tunnel ` set (e # es) \<union> vr_tunnel ` set (vs_rows v)"
    using flush_visitor_tunnels [of e v] unfolding list.set by blast
  finally show ?case .
qed simp

lemma prune_each_visitors: "set (fold prune_visitors gs rows) \<subseteq> set rows"
proof (induction gs arbitrary: rows)
  case (Cons g gs)
  have "set (prune_visitors g rows) \<subseteq> set rows" by (simp add: prune_visitors_def prune_rows_subset)
  then show ?case using Cons.IH [of "prune_visitors g rows"] by simp
qed simp

lemma forgotten_visitors:
  assumes "r \<in> set (vs_rows (flush_visitors (forget_visitors i v)))"
  shows "vr_tunnel r \<noteq> i"
proof -
  let ?v = "forget_visitors i v" let ?es = "map snd (vs_pending ?v)"
  have "set (vs_rows (flush_visitors ?v)) \<subseteq> set (vs_rows ?v) \<union> set (vs_rows (fold flush_visitor ?es (?v\<lparr>vs_pending := []\<rparr>)))"
    using prune_each_visitors by (auto simp: flush_visitors_def Let_def split: if_splits)
  then have "vr_tunnel r \<in> vr_tunnel ` set (vs_rows ?v) \<or>
      vr_tunnel r \<in> vr_tunnel ` set (vs_rows (fold flush_visitor ?es (?v\<lparr>vs_pending := []\<rparr>)))"
    using assms by blast
  then have "vr_tunnel r \<in> ve_tunnel ` set ?es \<union> vr_tunnel ` set (vs_rows ?v)"
    using flush_each_tunnels [of ?es "?v\<lparr>vs_pending := []\<rparr>"] by auto
  then show ?thesis by (auto simp: forget_visitors_def)
qed

lemma update_row_tunnels: "cr_tunnel ` set (map (update_row e) rows) = cr_tunnel ` set rows"
proof -
  have "cr_tunnel \<circ> update_row e = cr_tunnel" by (auto simp: update_row_def)
  then show ?thesis by (simp add: image_comp)
qed

lemma flush_dirty_tunnels: "cr_tunnel ` set (cl_rows (flush_dirty fresh keys l)) = cr_tunnel ` set (cl_rows l)"
proof (induction fresh keys l rule: flush_dirty.induct)
  case (2 fresh key keys l)
  show ?case
  proof (cases "key \<notin> set (cl_live l) \<or> map_get (cl_store l) key = None")
    case False
    then obtain e where e: "map_get (cl_store l) key = Some e" "key \<in> set (cl_live l)" by auto
    define l1 where "l1 = (if key \<in> set fresh then l else l\<lparr>cl_rows := map (update_row e) (cl_rows l)\<rparr>)"
    define l2 where "l2 = (if ce_endedAt e \<noteq> None then l1\<lparr>cl_live := filter (\<lambda>k. k \<noteq> key) (cl_live l1)\<rparr> else l1)"
    have "cr_tunnel ` set (cl_rows l2) = cr_tunnel ` set (cl_rows l)"
      by (simp add: l2_def l1_def update_row_tunnels del: set_map)
    moreover have "flush_dirty fresh (key # keys) l = flush_dirty fresh keys l2"
      using e by (simp add: l1_def l2_def Let_def)
    moreover have "cr_tunnel ` set (cl_rows (flush_dirty fresh keys l2)) = cr_tunnel ` set (cl_rows l2)"
      using "2.IH" e l1_def l2_def by simp
    ultimately show ?thesis by simp
  qed auto
qed simp

lemma insert_rows_tunnels: "cr_tunnel ` set (insert_rows n es) \<subseteq> ce_tunnel ` set es"
  by (induction n es rule: insert_rows.induct) (auto simp: conn_row_of_def)

lemma store_inserts_tunnels:
  "cr_tunnel ` set (cl_rows (store_inserts l)) \<subseteq> cr_tunnel ` set (cl_rows l) \<union> ce_tunnel ` set (entries_of (cl_inserts l) l)"
proof (cases "cl_inserts l = []")
  case False
  let ?es = "entries_of (cl_inserts l) l"
  have "set (cl_rows (store_inserts l)) \<subseteq> set (cl_rows l) \<union> set (insert_rows (cl_next l) ?es)"
    using False prune_conns_subset [of "js_set (map ce_tunnel ?es)" "cl_rows l @ insert_rows (cl_next l) ?es"]
    by (simp add: store_inserts_def Let_def)
  then have "cr_tunnel ` set (cl_rows (store_inserts l)) \<subseteq> cr_tunnel ` set (cl_rows l) \<union> cr_tunnel ` set (insert_rows (cl_next l) ?es)"
    by (metis image_Un image_mono)
  then show ?thesis using insert_rows_tunnels [of "cl_next l" ?es] by blast
qed (simp add: store_inserts_def)

lemma forgotten_conns:
  assumes "r \<in> set (cl_rows (flush_conns ok (forget_conns i l)))"
  shows "cr_tunnel r \<noteq> i"
proof -
  let ?l = "forget_conns i l" let ?c = "(store_inserts ?l)\<lparr>cl_inserts := [], cl_dirty := []\<rparr>"
  have rows: "i \<notin> cr_tunnel ` set (cl_rows ?l)" by (auto simp: forget_conns_def Let_def)
  have "i \<notin> ce_tunnel ` set (entries_of (cl_inserts ?l) ?l)"
    by (auto simp: entries_of_def forget_conns_def Let_def List.map_filter_def split: option.splits)
  then have "i \<notin> cr_tunnel ` set (cl_rows ?c)" using store_inserts_tunnels [of ?l] rows by auto
  then have "i \<notin> cr_tunnel ` set (cl_rows (flush_dirty fresh keys ?c))" for fresh keys
    using flush_dirty_tunnels [of fresh keys ?c] by simp
  then have "i \<notin> cr_tunnel ` set (cl_rows (flush_conns ok ?l))"
    using rows by (simp add: flush_conns_def Let_def)
  then show ?thesis using assms by blast
qed

lemma forgotten_rows:
  "list_visitors i sortBy order offset lim (forget_visitors i v) = (flush_visitors (forget_visitors i v), [])"
  "count_visitors i (flush_visitors (forget_visitors i v)) = 0"
  "list_conns ok i sortBy order offset lim (forget_conns i l) = (flush_conns ok (forget_conns i l), [])"
  "count_conns i (flush_conns ok (forget_conns i l)) = 0"
  "get_conn ok i key (forget_conns i l) = (flush_conns ok (forget_conns i l), None)"
proof -
  have v: "filter (\<lambda>r. vr_tunnel r = i) (vs_rows (flush_visitors (forget_visitors i v))) = []"
    using forgotten_visitors by (auto simp: filter_empty_conv)
  then show "list_visitors i sortBy order offset lim (forget_visitors i v) = (flush_visitors (forget_visitors i v), [])"
    "count_visitors i (flush_visitors (forget_visitors i v)) = 0"
    by (simp_all add: list_visitors_def count_visitors_def Let_def order_rows_def page_def)
  have c: "filter (\<lambda>r. cr_tunnel r = i) (cl_rows (flush_conns ok (forget_conns i l))) = []"
    using forgotten_conns by (auto simp: filter_empty_conv)
  then show "list_conns ok i sortBy order offset lim (forget_conns i l) = (flush_conns ok (forget_conns i l), [])"
    "count_conns i (flush_conns ok (forget_conns i l)) = 0"
    by (simp_all add: list_conns_def count_conns_def Let_def order_rows_def page_def)
  have "\<forall>r \<in> set (cl_rows (flush_conns ok (forget_conns i l))). cr_tunnel r \<noteq> i" using forgotten_conns by blast
  then show "get_conn ok i key (forget_conns i l) = (flush_conns ok (forget_conns i l), None)"
    by (auto simp: get_conn_def Let_def find_None_iff)
qed

lemma forgotten_token: "\<not> snd (allows now token i (forget_tunnel i s))"
proof (cases "map_get (tokens (forget_tunnel i s)) token")
  case (Some e)
  have "(token, e) \<in> set (tokens (forget_tunnel i s))" using Some by (simp add: map_of_SomeD)
  then show ?thesis using Some by (auto simp: allows_def forget_tunnel_def)
qed (simp add: allows_def)


definition first_page :: "tunnel_world \<Rightarrow> nat" where
  "first_page w = (case snd (requests_route sample_tunnel_tools ''web'' [] w) of ARequests rows _ _ \<Rightarrow> length rows | _ \<Rightarrow> 0)"


subsection \<open>What the listeners miss\<close>

text \<open>The removal of a tunnel ends its session after the listeners have run. A request that is
  under way then fails, and is recorded under the name: whoever takes the name next can read it.\<close>

definition late_entry :: traffic_entry where
  "late_entry =
     \<lparr>te_time = 5, te_duration = 40, te_kind = None, te_connection = None, te_intel = None, te_method = Some ''POST'',
      te_path = Some ''/login'', te_status = Some 502, te_ip = Some ''10.0.0.9'', te_host = Some ''web.t.example'',
      te_request = None, te_response = None\<rparr>"

lemma late_request_reaches_next_owner:
  "let w = on_forget ''web'' sample_world
   in first_page (w\<lparr>tw_logs := (record_request ''web'' late_entry (fst (tw_logs w)), snd (tw_logs w))\<rparr>) = 1"
  by code_simp

text \<open>Forgetting the tokens of a tunnel, which its removal and every change of its access do, leaves
  the hand-over codes that are on their way: such a code still becomes a token, and the token opens
  the tunnel whatever its policy has become.\<close>

lemma code_outlives_forget:
  assumes "map_get (codes s) code = Some e" "code \<noteq> []" "now \<le> c_expiresAt e" "0 \<le> ttl s" "randomToken rnd \<noteq> []"
  shows "\<exists>token. snd (redeem rnd now code (c_host e) (forget_tunnel (c_tunnelId e) s)) = Some token \<and>
    snd (allows now token (c_tunnelId e) (fst (redeem rnd now code (c_host e) (forget_tunnel (c_tunnelId e) s))))"
  using assms by (simp add: redeem_def take_code_def forget_tunnel_def create_def allows_def Let_def)

end
