(* ===== verification/WebTraffic.thy ===== *)
theory WebTraffic
  imports TunnelRoutes Config
begin

text \<open>
  The traffic inspector of the web interface (src/client/src/pages/TunnelDetail): the filter and
  the keys of the table of requests, the form that edits a stored or held request, the command
  copied from a request, the messages of a websocket and the list of breakpoints. Each part is
  the state a component keeps and the functions of its handlers; what it sends is handed to the
  model of the route that answers. The text of a body stands for its UTF-8 code units.
\<close>

subsection \<open>Editing a request (RequestEdit.jsx, body.js)\<close>

text \<open>TextDecoder drops a leading byte order mark; valid UTF-8 is a parameter.\<close>

definition strip_bom :: "bytes \<Rightarrow> bytes" where
  "strip_bom bs = (if take 3 bs = [0xEF, 0xBB, 0xBF] then drop 3 bs else bs)"

definition decode_body :: "(bytes \<Rightarrow> bool) \<Rightarrow> string \<Rightarrow> string option" where
  "decode_body utf8 value = (let bs = b64_decode value in if utf8 bs then Some (latin1 (strip_bom bs)) else None)"

definition parse_line :: "string \<Rightarrow> string \<times> string" where
  "parse_line line =
     (case index_of '':'' line of
        None \<Rightarrow> (line, [])
      | Some i \<Rightarrow> (trim (take i line), trim (drop (i + 1) line)))"

definition parseHeaders :: "string \<Rightarrow> (string \<times> string) list" where
  "parseHeaders text = map parse_line (filter (\<lambda>l. l \<noteq> []) (map trim (split_on (CHR 10) text)))"

definition show_header :: "string \<times> string \<Rightarrow> string" where
  "show_header h = fst h @ '': '' @ snd h"

definition show_headers :: "(string \<times> string) list \<Rightarrow> string" where
  "show_headers hs = join [CHR 10] (map show_header hs)"

definition contentType :: "string \<Rightarrow> string" where
  "contentType text =
     (case find (\<lambda>h. to_lower (fst h) = ''content-type'') (parseHeaders text) of None \<Rightarrow> [] | Some h \<Rightarrow> snd h)"

text \<open>The state of the form; \<open>ef_binary\<close> is the constant computed beside it.\<close>

record edit_form =
  ef_method :: string
  ef_path :: string
  ef_status :: string
  ef_headers :: string
  ef_body :: string
  ef_binary :: bool

definition edit_of :: "(bytes \<Rightarrow> bool) \<Rightarrow> string \<Rightarrow> string \<Rightarrow> string \<Rightarrow> stored_part \<Rightarrow> edit_form" where
  "edit_of utf8 method path status source =
     (case source of (headers, body, _, _) \<Rightarrow>
        let stored = (case body of None \<Rightarrow> Some [] | Some b \<Rightarrow> if b = [] then Some [] else decode_body utf8 b)
        in \<lparr>ef_method = method, ef_path = path, ef_status = status, ef_headers = show_headers headers,
            ef_body = (case stored of None \<Rightarrow> [] | Some t \<Rightarrow> t), ef_binary = (stored = None)\<rparr>)"

text \<open>Number(text) in JSON: a number that is not finite becomes null.\<close>

definition number_value :: "string \<Rightarrow> jsval" where
  "number_value text =
     (case js_number (JStr text) of
        JFloat t \<Rightarrow> if t \<in> set [''NaN'', ''Infinity'', ''+Infinity'', ''-Infinity''] then JNull else JFloat t
      | v \<Rightarrow> v)"

text \<open>What onSend posts.\<close>

definition edit_submit :: "bool \<Rightarrow> edit_form \<Rightarrow> jsval" where
  "edit_submit response f =
     JObj ((if response then [(''status'', number_value (ef_status f))]
            else [(''method'', JStr (ef_method f)), (''path'', JStr (ef_path f))])
           @ [(''headers'', pairs_value (parseHeaders (ef_headers f)))]
           @ (if ef_binary f then [] else [(''body'', JStr (ef_body f))]))"

definition header_name :: "string \<Rightarrow> bool" where
  "header_name n \<longleftrightarrow> n \<noteq> [] \<and> trim n = n \<and> CHR '':'' \<notin> set n \<and> CHR 10 \<notin> set n"

definition header_value :: "string \<Rightarrow> bool" where
  "header_value v \<longleftrightarrow> trim v = v \<and> CHR 10 \<notin> set v"

definition plain_headers :: "(string \<times> string) list \<Rightarrow> bool" where
  "plain_headers hs \<longleftrightarrow> list_all (\<lambda>(n, v). header_name n \<and> header_value v) hs"

lemma dropWhile_length_id: "length (dropWhile P xs) = length xs \<Longrightarrow> dropWhile P xs = xs"
  by (metis suffix_dropWhile suffix_length_suffix suffix_order.antisym suffix_order.order_refl order_refl)

lemma trim_ends: "trim s = s \<longleftrightarrow> s = [] \<or> (\<not> is_space (hd s) \<and> \<not> is_space (last s))"
proof
  assume t: "trim s = s"
  have "length (dropWhile is_space s) = length s"
    using t length_dropWhile_le [of is_space s] length_dropWhile_le [of is_space "rev (dropWhile is_space s)"]
    by (simp add: trim_def) (metis le_antisym length_rev)
  then have a: "dropWhile is_space s = s" by (rule dropWhile_length_id)
  then have "dropWhile is_space (rev s) = rev s"
    using t by (metis rev_rev_ident trim_def)
  with a show "s = [] \<or> (\<not> is_space (hd s) \<and> \<not> is_space (last s))"
    by (auto simp: dropWhile_eq_self_iff hd_rev)
next
  assume "s = [] \<or> (\<not> is_space (hd s) \<and> \<not> is_space (last s))"
  then have "dropWhile is_space s = s" "dropWhile is_space (rev s) = rev s"
    by (auto simp: dropWhile_eq_self_iff hd_rev)
  then show "trim s = s" by (simp add: trim_def)
qed

lemma parse_show_header:
  assumes "header_name n" "header_value v"
  shows "parse_line (trim (show_header (n, v))) = (n, v)" "trim (show_header (n, v)) \<noteq> []"
proof -
  have n: "n \<noteq> []" "\<not> is_space (hd n)" "CHR '':'' \<notin> set n" "trim n = n"
    using assms(1) by (auto simp: header_name_def trim_ends)
  have colon: "\<not> is_space CHR '':''" "is_space CHR '' ''" by (simp_all add: is_space_def ord_def)
  have at_colon: "index_of '':'' (n @ CHR '':'' # r) = Some (length n)" for r
    using n(3) by (induction n) (auto simp: starts_with_def)
  have t: "trim (show_header (n, v)) = n @ '':'' @ (if v = [] then [] else CHR '' '' # v)"
  proof (cases "v = []")
    case True
    then show ?thesis using n colon
      by (cases n) (simp_all add: trim_def show_header_def)
  next
    case False
    then have "\<not> is_space (last v)" using assms(2) by (auto simp: header_value_def trim_ends)
    then have "trim (n @ '': '' @ v) = n @ '': '' @ v"
      using n False by (simp add: trim_ends)
    then show ?thesis using False by (simp add: show_header_def)
  qed
  have v: "trim (CHR '' '' # v) = v"
  proof -
    have "trim (CHR '' '' # v) = trim v" using colon by (simp add: trim_def)
    then show ?thesis using assms(2) by (simp add: header_value_def)
  qed
  show "parse_line (trim (show_header (n, v))) = (n, v)"
    unfolding t using n(4) v at_colon [of "[]"] at_colon [of "CHR '' '' # v"] trim_no_space [of "[]"]
    by (cases "v = []") (simp_all add: parse_line_def)
  show "trim (show_header (n, v)) \<noteq> []" by (simp add: t)
qed

lemma headers_roundtrip: "plain_headers hs \<Longrightarrow> parseHeaders (show_headers hs) = hs"
proof (cases "hs = []")
  case True
  then show ?thesis by (simp add: parseHeaders_def show_headers_def trim_def)
next
  case False
  assume p: "plain_headers hs"
  have "CHR 10 \<notin> set (show_header h)" if "h \<in> set hs" for h
    using p that by (cases h) (auto simp: plain_headers_def list_all_iff header_name_def header_value_def show_header_def)
  then have "split_on (CHR 10) (show_headers hs) = map show_header hs"
    using False by (simp add: show_headers_def split_on_join)
  moreover have "filter (\<lambda>l. l \<noteq> []) (map trim (map show_header hs)) = map trim (map show_header hs)"
    using p parse_show_header(2) by (auto simp: filter_id_conv plain_headers_def list_all_iff)
  ultimately show ?thesis
    using p parse_show_header(1)
    by (simp add: parseHeaders_def comp_def) (rule map_idI, auto simp: plain_headers_def list_all_iff)
qed

lemma edited_pairs: "plain_headers hs \<Longrightarrow> edited_headers (pairs_value hs) = Inr hs"
proof -
  assume p: "plain_headers hs"
  have "List.map_filter header_pair (map (\<lambda>(n, v). JArr [JStr n, JStr v]) hs) = hs" and
    "\<not> list_ex (\<lambda>q. header_pair q = None) (map (\<lambda>(n, v). JArr [JStr n, JStr v]) hs)" and
    "filter (\<lambda>(name, _). name \<noteq> []) hs = hs"
    using p by (induction hs) (auto simp: plain_headers_def header_name_def header_value_def map_filter_simps)
  then show ?thesis by (simp add: edited_headers_def pairs_value_def)
qed

lemma METHOD_upper: "METHOD m \<Longrightarrow> to_upper (trim m) = m"
proof -
  assume m: "METHOD m"
  have "\<not> is_space c" "upper_char c = c" if "c \<in> set m" for c
    using m that by (auto simp: METHOD_def list_all_iff js_simps)
  then show ?thesis by (simp add: trim_no_space to_upper_def map_idI)
qed



text \<open>A body of which only the beginning is stored is refused when the request is replayed as it
  is, and goes out cut when it is replayed from the form.\<close>

lemma truncated_body_is_sent:
  "edited (([], Some (b64_encode [123]), 900, True), Some ''POST'', Some ''/a'') (JObj []) =
     Inr (([], Some (b64_encode [123]), 900, True), Some ''POST'', Some ''/a'') \<and>
   edited (([], Some (b64_encode [123]), 900, True), Some ''POST'', Some ''/a'')
     (edit_submit False (edit_of (\<lambda>_. True) ''POST'' ''/a'' ''0'' ([], Some (b64_encode [123]), 900, True))) =
     Inr (([], Some (b64_encode [123]), 1, False), Some ''POST'', Some ''/a'')"
  by code_simp

text \<open>A byte order mark is lost on the way through the form.\<close>

lemma byte_order_mark_is_lost:
  "fst (projr (edited (([], Some (b64_encode [0xEF, 0xBB, 0xBF, 123]), 4, False), None, None)
     (edit_submit False (edit_of (\<lambda>_. True) ''POST'' ''/a'' ''0'' ([], Some (b64_encode [0xEF, 0xBB, 0xBF, 123]), 4, False))))) =
   ([], Some (b64_encode [123]), 1, False)"
  by code_simp

subsection \<open>The copied command (RequestPanel.jsx)\<close>

definition header_of :: "(string \<times> string) list \<Rightarrow> string \<Rightarrow> string option" where
  "header_of hs name = map_option snd (find (\<lambda>h. to_lower (fst h) = name) hs)"

definition QUOTE :: char where
  "QUOTE = CHR 39"

definition BACKSLASH :: char where
  "BACKSLASH = CHR 92"

definition shell_escape :: "string \<Rightarrow> string" where
  "shell_escape s = concat (map (\<lambda>c. if c = QUOTE then [QUOTE, BACKSLASH, QUOTE, QUOTE] else [c]) s)"

definition quoted :: "string \<Rightarrow> string" where
  "quoted s = QUOTE # s @ [QUOTE]"

definition sent_headers :: "(string \<times> string) list \<Rightarrow> (string \<times> string) list" where
  "sent_headers hs = filter (\<lambda>h. to_lower (fst h) \<notin> {''host'', ''content-length''}) hs"

definition curlFor :: "(bytes \<Rightarrow> bool) \<Rightarrow> string \<Rightarrow> string \<Rightarrow> stored_part \<Rightarrow> string" where
  "curlFor utf8 url method request =
     (case request of (headers, body, _, _) \<Rightarrow>
        let text = (case body of None \<Rightarrow> None | Some b \<Rightarrow> if b = [] then None else decode_body utf8 b)
        in join ('' '' @ [BACKSLASH, CHR 10] @ ''  '')
             ((''curl -X '' @ method @ '' '' @ quoted url)
              # map (\<lambda>h. ''-H '' @ quoted (show_header h)) (sent_headers headers)
              @ (case text of None \<Rightarrow> [] | Some t \<Rightarrow> if t = [] then [] else [''--data-raw '' @ quoted (shell_escape t)])))"

definition rawFor :: "string \<Rightarrow> (string \<times> string) list \<Rightarrow> string" where
  "rawFor line headers = join [CHR 10] (line # map show_header headers)"

definition request_line :: "string \<Rightarrow> string \<Rightarrow> string" where
  "request_line method path = method @ '' '' @ path @ '' HTTP/1.1''"

definition status_line :: "nat \<Rightarrow> string" where
  "status_line status = ''HTTP/1.1 '' @ show_nat status"

text \<open>
  The words of a command line as a POSIX shell splits it: single quotes, a backslash before a
  character or at the end of a line, blanks, and ; between commands. The other characters with a
  meaning of their own give None, so Some lists every command that runs.
\<close>

definition shell_meta :: "char \<Rightarrow> bool" where
  "shell_meta c \<longleftrightarrow> c \<in> set ''|&<>()$`*?[]{}~#!='' \<or> c = CHR 34"

definition emit :: "string option \<Rightarrow> string list" where
  "emit w = (case w of None \<Rightarrow> [] | Some x \<Rightarrow> [x])"

definition word_of :: "string option \<Rightarrow> string" where
  "word_of w = (case w of None \<Rightarrow> [] | Some x \<Rightarrow> x)"

fun sh :: "bool \<Rightarrow> string option \<Rightarrow> string \<Rightarrow> (string list \<times> string list list) option" where
  "sh q w [] = (if q then None else Some (emit w, []))"
| "sh q w (c # cs) =
     (if q then (if c = QUOTE then sh False w cs else sh True (Some (word_of w @ [c])) cs)
      else if c = QUOTE then sh True (Some (word_of w)) cs
      else if c = BACKSLASH
      then (case cs of
              [] \<Rightarrow> None
            | d # ds \<Rightarrow> if d = CHR 10 then sh False w ds else sh False (Some (word_of w @ [d])) ds)
      else if c = CHR '' '' then map_option (\<lambda>(ws, rest). (emit w @ ws, rest)) (sh False None cs)
      else if c = CHR '';'' \<or> c = CHR 10 then map_option (\<lambda>(ws, rest). (emit w, ws # rest)) (sh False None cs)
      else if shell_meta c then None
      else sh False (Some (word_of w @ [c])) cs)"

definition shell_commands :: "string \<Rightarrow> string list list option" where
  "shell_commands s = map_option (\<lambda>(ws, rest). filter (\<lambda>c. c \<noteq> []) (ws # rest)) (sh False None s)"

definition plain_char :: "char \<Rightarrow> bool" where
  "plain_char c \<longleftrightarrow> c \<noteq> QUOTE \<and> c \<noteq> BACKSLASH \<and> c \<noteq> CHR '' '' \<and> c \<noteq> CHR '';'' \<and> c \<noteq> CHR 10 \<and> \<not> shell_meta c"

declare sh.simps [simp del]

lemma shell_chars:
  "QUOTE \<noteq> BACKSLASH" "BACKSLASH \<noteq> QUOTE" "CHR '' '' \<noteq> QUOTE" "CHR '' '' \<noteq> BACKSLASH" "QUOTE \<noteq> CHR 10" "BACKSLASH \<noteq> CHR 10"
  by (simp_all add: QUOTE_def BACKSLASH_def)

lemma sh_steps:
  "sh True w (QUOTE # cs) = sh False w cs"
  "c \<noteq> QUOTE \<Longrightarrow> sh True w (c # cs) = sh True (Some (word_of w @ [c])) cs"
  "sh False w (QUOTE # cs) = sh True (Some (word_of w)) cs"
  "sh False w (BACKSLASH # CHR 10 # cs) = sh False w cs"
  "d \<noteq> CHR 10 \<Longrightarrow> sh False w (BACKSLASH # d # cs) = sh False (Some (word_of w @ [d])) cs"
  "sh False w (CHR '' '' # cs) = map_option (\<lambda>(ws, rest). (emit w @ ws, rest)) (sh False None cs)"
  "plain_char c \<Longrightarrow> sh False w (c # cs) = sh False (Some (word_of w @ [c])) cs"
  by (simp_all add: sh.simps(2) shell_chars plain_char_def)

lemma sh_end: "sh False w [] = Some (emit w, [])"
  by (simp add: sh.simps)

lemma word_simps [simp]: "word_of None = []" "word_of (Some x) = x" "emit None = []" "emit (Some x) = [x]"
  by (simp_all add: word_of_def emit_def)

lemma sh_plain: "list_all plain_char s \<Longrightarrow> sh False (Some x) (s @ rest) = sh False (Some (x @ s)) rest"
  by (induction s arbitrary: x) (simp_all add: sh_steps(7))

lemma sh_word: "list_all plain_char s \<Longrightarrow> s \<noteq> [] \<Longrightarrow> sh False None (s @ rest) = sh False (Some s) rest"
  by (cases s) (simp_all add: sh_steps(7) sh_plain)

lemma sh_inside: "QUOTE \<notin> set s \<Longrightarrow> sh True (Some x) (s @ QUOTE # rest) = sh False (Some (x @ s)) rest"
  by (induction s arbitrary: x) (auto simp: sh_steps(1,2))

lemma sh_quoted: "QUOTE \<notin> set s \<Longrightarrow> sh False None (quoted s @ rest) = sh False (Some s) rest"
  by (simp add: quoted_def sh_steps(3) sh_inside)

lemma sh_escaped: "sh True (Some x) (shell_escape s @ QUOTE # rest) = sh False (Some (x @ s)) rest"
proof (induction s arbitrary: x)
  case Nil
  then show ?case by (simp add: shell_escape_def sh_steps(1))
next
  case (Cons c s)
  have "shell_escape (c # s) = (if c = QUOTE then [QUOTE, BACKSLASH, QUOTE, QUOTE] else [c]) @ shell_escape s"
    by (simp add: shell_escape_def)
  then show ?case using Cons.IH
    by (cases "c = QUOTE") (simp_all add: sh_steps(1,2,3) sh_steps(5) [OF shell_chars(5)])
qed

lemma sh_body: "sh False None (quoted (shell_escape s) @ rest) = sh False (Some s) rest"
  by (simp add: quoted_def sh_steps(3) sh_escaped)

text \<open>The separator of the parts of the command only ends a word.\<close>

definition CONTINUED :: string where
  "CONTINUED = '' '' @ [BACKSLASH, CHR 10] @ ''  ''"

lemma sh_continued: "sh False w (CONTINUED @ rest) = map_option (\<lambda>(ws, r). (emit w @ ws, r)) (sh False None rest)"
  by (simp add: CONTINUED_def sh_steps(4,6) option.map_comp comp_def case_prod_unfold)

text \<open>A part that a shell reads as the given words and nothing else.\<close>

definition reads_as :: "string \<Rightarrow> string list \<Rightarrow> bool" where
  "reads_as s ws \<longleftrightarrow> (\<forall>rest. \<exists>fs w. ws = fs @ [w] \<and>
     sh False None (s @ rest) = map_option (\<lambda>(xs, r). (fs @ xs, r)) (sh False (Some w) rest))"

lemma reads_join:
  assumes "list_all2 reads_as parts wss" "parts \<noteq> []"
  shows "sh False None (join CONTINUED parts) = Some (concat wss, [])"
  using assms
proof (induction parts arbitrary: wss)
  case (Cons p ps)
  then obtain ws wss' where w: "wss = ws # wss'" "reads_as p ws" "list_all2 reads_as ps wss'"
    by (auto simp: list_all2_Cons1)
  show ?case
  proof (cases "ps = []")
    case True
    obtain fs w where f: "ws = fs @ [w]"
      "sh False None (p @ []) = map_option (\<lambda>(xs, r). (fs @ xs, r)) (sh False (Some w) [])"
      using w(2) by (metis reads_as_def)
    then show ?thesis using True w by (simp add: sh_end)
  next
    case False
    obtain fs w where f: "ws = fs @ [w]"
      "sh False None (p @ CONTINUED @ join CONTINUED ps) =
       map_option (\<lambda>(xs, r). (fs @ xs, r)) (sh False (Some w) (CONTINUED @ join CONTINUED ps))"
      using w(2) by (metis reads_as_def)
    have "sh False None (join CONTINUED ps) = Some (concat wss', [])"
      using Cons.IH [OF w(3) False] .
    then show ?thesis using False w f by (simp add: join_Cons sh_continued)
  qed
qed simp

lemma reads_quoted: "QUOTE \<notin> set s \<Longrightarrow> reads_as (quoted s) [s]"
  by (auto simp: reads_as_def sh_quoted option.map_ident case_prod_unfold)

lemma reads_body: "reads_as (quoted (shell_escape s)) [s]"
  by (auto simp: reads_as_def sh_body option.map_ident case_prod_unfold)

lemma reads_prefixed:
  assumes "list_all plain_char p" "p \<noteq> []" "reads_as s ws"
  shows "reads_as (p @ '' '' @ s) (p # ws)"
  unfolding reads_as_def
proof
  fix rest
  obtain fs w where f: "ws = fs @ [w]" "sh False None (s @ rest) = map_option (\<lambda>(xs, r). (fs @ xs, r)) (sh False (Some w) rest)"
    using assms(3) by (metis reads_as_def)
  have "sh False None ((p @ '' '' @ s) @ rest) = map_option (\<lambda>(xs, r). ((p # fs) @ xs, r)) (sh False (Some w) rest)"
    using sh_word [OF assms(1,2), of "CHR '' '' # s @ rest"] f(2)
    by (simp add: sh_steps(6) option.map_comp comp_def case_prod_unfold)
  then show "\<exists>fs w. p # ws = fs @ [w] \<and>
      sh False None ((p @ '' '' @ s) @ rest) = map_option (\<lambda>(xs, r). (fs @ xs, r)) (sh False (Some w) rest)"
    using f(1) by (intro exI [of _ "p # fs"] exI [of _ w]) simp
qed

text \<open>
  The command copied from a request whose address and headers hold no quote runs one command
  in a shell, curl, with exactly the method, the address, the headers and, whatever it holds, the
  text of the body as its arguments.
\<close>

theorem curl_is_one_command:
  assumes "list_all plain_char method" "method \<noteq> []" "QUOTE \<notin> set url"
    "list_all (\<lambda>(n, v). QUOTE \<notin> set n \<and> QUOTE \<notin> set v) hs"
  shows "shell_commands (curlFor utf8 url method (hs, map_option b64_encode body, sz, truncated)) =
    Some [[''curl'', ''-X'', method, url]
      @ concat (map (\<lambda>h. [''-H'', show_header h]) (sent_headers hs))
      @ (case body of None \<Rightarrow> [] | Some b \<Rightarrow>
           if utf8 b \<and> strip_bom b \<noteq> [] then [''--data-raw'', latin1 (strip_bom b)] else [])]"
proof -
  let ?hs = "map (\<lambda>h. ''-H '' @ quoted (show_header h)) (sent_headers hs)"
  let ?text = "case body of None \<Rightarrow> [] | Some b \<Rightarrow> if utf8 b \<and> strip_bom b \<noteq> [] then [latin1 (strip_bom b)] else []"
  have flags: "list_all plain_char ''curl''" "list_all plain_char ''-X''" "list_all plain_char ''-H''" "list_all plain_char ''--data-raw''"
    by code_simp+
  have "reads_as (''curl'' @ '' '' @ ''-X'' @ '' '' @ method @ '' '' @ quoted url) [''curl'', ''-X'', method, url]"
    using flags assms(1-3) by (intro reads_prefixed reads_quoted) auto
  then have curl: "reads_as (''curl -X '' @ method @ '' '' @ quoted url) [''curl'', ''-X'', method, url]" by simp
  have heads: "list_all2 reads_as ?hs (map (\<lambda>h. [''-H'', show_header h]) (sent_headers hs))"
  proof -
    have "reads_as (''-H'' @ '' '' @ quoted (show_header h)) [''-H'', show_header h]" if "h \<in> set (sent_headers hs)" for h
      using flags assms(4) that
      by (intro reads_prefixed reads_quoted) (auto simp: sent_headers_def show_header_def list_all_iff QUOTE_def)
    then show ?thesis by (simp add: list_all2_map1 list_all2_map2 list_all2_same)
  qed
  have data: "list_all2 reads_as (map (\<lambda>t. ''--data-raw '' @ quoted (shell_escape t)) ?text) (map (\<lambda>t. [''--data-raw'', t]) ?text)"
    using reads_prefixed [OF flags(4) _ reads_body] by (simp add: list_all2_map1 list_all2_map2 list_all2_same)
  have enc: "b64_encode b = [] \<longleftrightarrow> b = []" for b by (cases b rule: b64_encode.cases) auto
  have lat: "latin1 b = [] \<longleftrightarrow> b = []" for b by (simp add: latin1_def)
  have cmd: "curlFor utf8 url method (hs, map_option b64_encode body, sz, truncated) =
      join CONTINUED ((''curl -X '' @ method @ '' '' @ quoted url) # ?hs @ map (\<lambda>t. ''--data-raw '' @ quoted (shell_escape t)) ?text)"
    by (cases body) (simp_all add: curlFor_def CONTINUED_def decode_body_def b64_roundtrip enc lat Let_def strip_bom_def)
  have "list_all2 reads_as ((''curl -X '' @ method @ '' '' @ quoted url) # ?hs @ map (\<lambda>t. ''--data-raw '' @ quoted (shell_escape t)) ?text)
      ([''curl'', ''-X'', method, url] # map (\<lambda>h. [''-H'', show_header h]) (sent_headers hs) @ map (\<lambda>t. [''--data-raw'', t]) ?text)"
    using curl heads data by (simp add: list_all2_appendI)
  from reads_join [OF this] have
    "sh False None (curlFor utf8 url method (hs, map_option b64_encode body, sz, truncated)) =
      Some (concat ([''curl'', ''-X'', method, url] # map (\<lambda>h. [''-H'', show_header h]) (sent_headers hs) @
        map (\<lambda>t. [''--data-raw'', t]) ?text), [])"
    unfolding cmd by simp
  then show ?thesis
    unfolding shell_commands_def by (simp split: option.split)
qed

theorem curl_is_one_command_witness:
  "shell_commands (curlFor (\<lambda>_. True) ''https://a.b/c'' ''POST'' ([(''Accept'', ''*/*'')], Some (b64_encode (to_buf [QUOTE, CHR '';''])), 2, False)) =
   Some [[''curl'', ''-X'', ''POST'', ''https://a.b/c'', ''-H'', ''Accept: */*'', ''--data-raw'', [QUOTE, CHR '';'']]]"
proof -
  have a: "list_all plain_char ''POST''" "QUOTE \<notin> set ''https://a.b/c''" by code_simp+
  have b: "list_all (\<lambda>(n, v). QUOTE \<notin> set n \<and> QUOTE \<notin> set v) [(''Accept'', ''*/*'')]" by code_simp
  have c: "latin1 (strip_bom (to_buf [QUOTE, CHR '';''])) = [QUOTE, CHR '';'']" "strip_bom (to_buf [QUOTE, CHR '';'']) \<noteq> []"
    "sent_headers [(''Accept'', ''*/*'')] = [(''Accept'', ''*/*'')]" "show_header (''Accept'', ''*/*'') = ''Accept: */*''"
    by code_simp+
  show ?thesis
    using curl_is_one_command [OF a(1) _ a(2) b, of "\<lambda>_. True" "Some (to_buf [QUOTE, CHR '';''])" 2 False] c by simp
qed

text \<open>A quote in a header ends the argument: the rest of the header runs as a command of its own.\<close>

lemma header_runs_command:
  "shell_commands (curlFor (\<lambda>_. True) ''https://a.b/'' ''GET'' ([(''X'', [QUOTE] @ ''; touch owned; '' @ [QUOTE])], None, 0, False)) =
   Some [[''curl'', ''-X'', ''GET'', ''https://a.b/'', ''-H'', ''X: ''], [''touch'', ''owned''], [[]]]"
  by code_simp

subsection \<open>The table of requests (TrafficTable.jsx, format.js)\<close>

definition TABLE_PAGE :: nat where
  "TABLE_PAGE = 50"

definition METHODS :: "string list" where
  "METHODS = [''GET'', ''POST'', ''PUT'', ''PATCH'', ''DELETE'', ''WS'']"

definition STATUSES :: "nat list" where
  "STATUSES = [2, 3, 4, 5]"

record table_filter =
  ff_search :: string
  ff_methods :: "string list"
  ff_statuses :: "nat list"
  ff_countries :: "string list"

definition EMPTY :: table_filter where
  "EMPTY = \<lparr>ff_search = [], ff_methods = [], ff_statuses = [], ff_countries = []\<rparr>"

definition toggle :: "'a list \<Rightarrow> 'a \<Rightarrow> 'a list" where
  "toggle list value = (if value \<in> set list then filter (\<lambda>e. e \<noteq> value) list else list @ [value])"

definition chip_method :: "string \<Rightarrow> table_filter \<Rightarrow> table_filter" where
  "chip_method m f = f\<lparr>ff_methods := toggle (ff_methods f) m\<rparr>"

definition chip_status :: "nat \<Rightarrow> table_filter \<Rightarrow> table_filter" where
  "chip_status n f = f\<lparr>ff_statuses := toggle (ff_statuses f) n\<rparr>"

definition chip_country :: "string \<Rightarrow> table_filter \<Rightarrow> table_filter" where
  "chip_country c f = f\<lparr>ff_countries := toggle (ff_countries f) c\<rparr>"

definition search_timer :: "string \<Rightarrow> table_filter \<Rightarrow> table_filter" where
  "search_timer text f = f\<lparr>ff_search := trim text\<rparr>"

text \<open>Sorting by a column, newest or largest first at the first click.\<close>

definition sortBy :: "string \<Rightarrow> string \<times> string \<Rightarrow> string \<times> string" where
  "sortBy key current = (key, if fst current = key \<and> snd current = ''desc'' then ''asc'' else ''desc'')"

definition filtering :: "table_filter \<Rightarrow> bool" where
  "filtering f \<longleftrightarrow> ff_search f \<noteq> [] \<or> ff_methods f \<noteq> [] \<or> ff_statuses f \<noteq> [] \<or> ff_countries f \<noteq> []"

definition pages :: "nat \<Rightarrow> nat" where
  "pages n = max 1 ((n + TABLE_PAGE - 1) div TABLE_PAGE)"

definition first_shown :: "nat \<Rightarrow> nat" where
  "first_shown pg = pg * TABLE_PAGE + 1"

definition last_shown :: "nat \<Rightarrow> nat \<Rightarrow> nat" where
  "last_shown n pg = min n ((pg + 1) * TABLE_PAGE)"

text \<open>URLSearchParams set under a fresh key, and its text as the server parses it back.\<close>

definition load_query :: "nat \<Rightarrow> string \<times> string \<Rightarrow> table_filter \<Rightarrow> query" where
  "load_query pg so f =
     [(''offset'', show_nat (pg * TABLE_PAGE)), (''limit'', show_nat TABLE_PAGE), (''sort'', fst so), (''order'', snd so)]
     @ (if ff_search f \<noteq> [] then [(''search'', ff_search f)] else [])
     @ (if ff_methods f \<noteq> [] then [(''methods'', join '','' (ff_methods f))] else [])
     @ (if ff_statuses f \<noteq> [] then [(''statuses'', join '','' (map show_nat (ff_statuses f)))] else [])
     @ (if ff_countries f \<noteq> [] then [(''countries'', join '','' (ff_countries f))] else [])"

definition statusClass :: "nat \<Rightarrow> string" where
  "statusClass status =
     (if status \<ge> 500 then ''error'' else if status \<ge> 400 then ''warn'' else if status \<ge> 300 then ''info''
      else if status \<ge> 200 then ''ok'' else [])"

text \<open>What a visitor of the page does to the filter: the chips offered and the search field. The
  chips of countries are the ones the server counted.\<close>

datatype filter_event = ClickMethod string | ClickStatus nat | ClickCountry string | TypedSearch string | ResetFilter

fun filter_step :: "string list \<Rightarrow> filter_event \<Rightarrow> table_filter \<Rightarrow> table_filter" where
  "filter_step offered (ClickMethod m) f = (if m \<in> set METHODS then chip_method m f else f)"
| "filter_step offered (ClickStatus n) f = (if n \<in> set STATUSES then chip_status n f else f)"
| "filter_step offered (ClickCountry c) f = (if c \<in> set offered then chip_country c f else f)"
| "filter_step offered (TypedSearch s) f = search_timer s f"
| "filter_step offered ResetFilter f = EMPTY"

definition filter_ok :: "string list \<Rightarrow> table_filter \<Rightarrow> bool" where
  "filter_ok offered f \<longleftrightarrow> trim (ff_search f) = ff_search f \<and>
     distinct (ff_methods f) \<and> set (ff_methods f) \<subseteq> set METHODS \<and>
     distinct (ff_statuses f) \<and> set (ff_statuses f) \<subseteq> set STATUSES \<and>
     distinct (ff_countries f) \<and> set (ff_countries f) \<subseteq> set offered"

lemma toggle_set: "distinct xs \<Longrightarrow> set (toggle xs x) = (if x \<in> set xs then set xs - {x} else insert x (set xs))"
  by (auto simp: toggle_def)

lemma toggle_distinct: "distinct xs \<Longrightarrow> distinct (toggle xs x)"
  by (simp add: toggle_def)

lemma filter_step_ok: "filter_ok offered f \<Longrightarrow> filter_ok offered (filter_step offered e f)"
  by (cases e)
    (auto simp: filter_ok_def chip_method_def chip_status_def chip_country_def search_timer_def EMPTY_def toggle_set toggle_distinct
      trim_idem trim_no_space)

lemma filter_steps_ok: "filter_ok offered f \<Longrightarrow> filter_ok offered (fold (filter_step offered) es f)"
  by (induction es arbitrary: f) (simp_all add: filter_step_ok)

text \<open>A list of values as the server reads it back.\<close>

definition list_value :: "string \<Rightarrow> bool" where
  "list_value v \<longleftrightarrow> v \<noteq> [] \<and> trim v = v \<and> CHR '','' \<notin> set v"

lemma query_list_back:
  assumes "list_all list_value xs" "map_of q key = (if xs = [] then None else Some (join '','' xs))"
  shows "query_list q key = xs"
proof (cases "xs = []")
  case True
  then show ?thesis using assms(2) by (simp add: query_list_def query_or_def trim_def)
next
  case False
  have ne: "join '','' xs \<noteq> []"
    using False assms(1) by (cases xs; cases "tl xs") (auto simp: list_value_def)
  have "split_on CHR '','' (join '','' xs) = xs"
    using False assms(1) by (intro split_on_join) (auto simp: list_all_iff list_value_def)
  then show ?thesis
    using False ne assms by (simp add: query_list_def query_or_def list_all_iff list_value_def map_idI filter_id_conv)
qed

definition COLUMN_KEYS :: "string list" where
  "COLUMN_KEYS = [''time'', ''client'', ''method'', ''path'', ''status'', ''duration'']"

definition wanted :: "table_filter \<Rightarrow> criteria_filter" where
  "wanted f = \<lparr>cf_search = take 200 (ff_search f), cf_methods = ff_methods f, cf_statuses = ff_statuses f, cf_countries = ff_countries f\<rparr>"

lemma load_query_lookup:
  "map_of (load_query pg so f) ''offset'' = Some (show_nat (pg * TABLE_PAGE))"
  "map_of (load_query pg so f) ''limit'' = Some (show_nat TABLE_PAGE)"
  "map_of (load_query pg so f) ''sort'' = Some (fst so)"
  "map_of (load_query pg so f) ''order'' = Some (snd so)"
  "map_of (load_query pg so f) ''search'' = (if ff_search f = [] then None else Some (ff_search f))"
  "map_of (load_query pg so f) ''methods'' = (if ff_methods f = [] then None else Some (join '','' (ff_methods f)))"
  "map_of (load_query pg so f) ''statuses'' = (if map show_nat (ff_statuses f) = [] then None else Some (join '','' (map show_nat (ff_statuses f))))"
  "map_of (load_query pg so f) ''countries'' = (if ff_countries f = [] then None else Some (join '','' (ff_countries f)))"
  by (simp_all add: load_query_def)

lemma plain_list_value: "v \<noteq> [] \<Longrightarrow> \<forall>c \<in> set v. is_alnum c \<Longrightarrow> list_value v"
proof -
  assume v: "v \<noteq> []" "\<forall>c \<in> set v. is_alnum c"
  have "\<not> is_space c" "c \<noteq> CHR '',''" if "is_alnum c" for c
    using that by (auto simp: is_alnum_def is_digit_def is_lower_def is_upper_def is_space_def ord_def)
  then show ?thesis using v by (auto simp: list_value_def trim_no_space)
qed

lemma wanted_back:
  assumes "filter_ok offered f" "list_all country_like offered"
  shows "request_filter (load_query pg so f) = wanted f"
proof -
  have upper: "list_value v \<and> to_upper v = v" if "v \<noteq> []" "list_all is_upper v" for v
    using that by (intro conjI plain_list_value) (auto simp: is_alnum_def list_all_iff to_upper_def js_simps intro!: map_idI)
  have "list_all (\<lambda>m. m \<noteq> [] \<and> list_all is_upper m) METHODS" by code_simp
  then have m: "list_all list_value (ff_methods f)" "map to_upper (ff_methods f) = ff_methods f"
    using assms(1) upper by (auto simp: filter_ok_def list_all_iff intro!: map_idI)
  have like: "country_like c" if "c \<in> set (ff_countries f)" for c
    using that assms by (auto simp: filter_ok_def list_all_iff)
  then have "c \<noteq> [] \<and> list_all is_upper c" if "c \<in> set (ff_countries f)" for c
    using that by (fastforce simp: country_like_def)
  then have c: "list_all list_value (ff_countries f)" "map to_upper (ff_countries f) = ff_countries f"
    "filter country_like (ff_countries f) = ff_countries f"
    using upper like by (auto simp: list_all_iff filter_id_conv intro!: map_idI)
  have s: "list_all list_value (map show_nat (ff_statuses f))"
    using show_nat_digits by (auto simp: list_all_iff is_alnum_def intro!: plain_list_value)
  have n: "filter (\<lambda>n. 1 \<le> n \<and> n \<le> 5) (List.map_filter number_of_string (map show_nat (ff_statuses f))) = map int (ff_statuses f)"
    using assms(1) by (auto simp: filter_ok_def map_filter_def number_of_show_nat comp_def STATUSES_def filter_id_conv)
  have "trim (ff_search f) = ff_search f" using assms(1) by (simp add: filter_ok_def)
  moreover have "query_or (load_query pg so f) ''search'' [] = ff_search f"
    by (simp add: query_or_def load_query_lookup)
  ultimately show ?thesis
    using query_list_back [OF m(1) load_query_lookup(6)] query_list_back [OF c(1) load_query_lookup(8)]
      query_list_back [OF s load_query_lookup(7)] m(2) c(2,3) n
    by (simp add: request_filter_def wanted_def comp_def)
qed

lemma sort_clicked: "list_all (\<lambda>k. k \<in> set COLUMN_KEYS) ks \<Longrightarrow> fst c \<noteq> [] \<and> snd c \<noteq> [] \<Longrightarrow> fst (fold sortBy ks c) \<noteq> [] \<and> snd (fold sortBy ks c) \<noteq> []"
  by (induction ks arbitrary: c) (auto simp: sortBy_def COLUMN_KEYS_def)



text \<open>The pages the buttons reach cover the rows: page k shows rows 50 k + 1 to 50 (k + 1), and no
  later page has any.\<close>

lemma pages_cover: "pg < pages n \<Longrightarrow> 0 < n \<Longrightarrow> first_shown pg \<le> last_shown n pg" "pages n \<le> pg \<Longrightarrow> n < first_shown pg"
  by (auto simp: pages_def first_shown_def last_shown_def TABLE_PAGE_def max_def split: if_splits)

subsection \<open>The keys of the table\<close>

text \<open>A row is a held request, known by its token, or a stored one, known by its number.\<close>

datatype row_key = HeldRow string | StoredRow nat

record key_state =
  ks_rows :: "row_key list"
  ks_cursor :: "row_key option"
  ks_selected :: "row_key option"

datatype key_press = KeyJ | KeyK | KeyEnter | KeyEscape | KeyR | OtherKey

text \<open>findIndex, with -1 when no row matches.\<close>

fun find_index :: "row_key option \<Rightarrow> row_key list \<Rightarrow> int" where
  "find_index k [] = - 1"
| "find_index k (r # rs) = (if k = Some r then 0 else (let i = find_index k rs in if i < 0 then - 1 else i + 1))"

definition move_cursor :: "bool \<Rightarrow> key_state \<Rightarrow> key_state" where
  "move_cursor down s =
     (if ks_rows s = [] then s
      else let at = find_index (case ks_cursor s of None \<Rightarrow> ks_selected s | Some c \<Rightarrow> Some c) (ks_rows s);
               next_row = (if down then min (int (length (ks_rows s)) - 1) (at + 1) else max 0 (at - 1));
               row = ks_rows s ! nat next_row
           in s\<lparr>ks_cursor := Some row, ks_selected := (if ks_selected s = None then None else Some row)\<rparr>)"

text \<open>The new state and the request that is replayed, if any. Keys with a modifier and keys typed
  into a field are ignored.\<close>

definition on_key :: "bool \<Rightarrow> key_press \<Rightarrow> key_state \<Rightarrow> key_state \<times> nat option" where
  "on_key ignored k s =
     (if ignored then (s, None)
      else case k of
        KeyJ \<Rightarrow> (move_cursor True s, None)
      | KeyK \<Rightarrow> (move_cursor False s, None)
      | KeyEnter \<Rightarrow>
          (case ks_cursor s of
             None \<Rightarrow> (s, None)
           | Some c \<Rightarrow> (if c \<in> set (ks_rows s) then s\<lparr>ks_selected := Some c\<rparr> else s, None))
      | KeyEscape \<Rightarrow> (s\<lparr>ks_cursor := None\<rparr>, None)
      | KeyR \<Rightarrow> (s, case ks_selected s of Some (StoredRow n) \<Rightarrow> Some n | _ \<Rightarrow> None)
      | OtherKey \<Rightarrow> (s, None))"

text \<open>A held request that was decided meanwhile loses its panel.\<close>

definition drop_settled :: "string list \<Rightarrow> key_state \<Rightarrow> key_state" where
  "drop_settled held s =
     s\<lparr>ks_selected := (case ks_selected s of Some (HeldRow t) \<Rightarrow> if t \<in> set held then Some (HeldRow t) else None | x \<Rightarrow> x)\<rparr>"

text \<open>The rows after a poll: the held requests above the stored ones.\<close>

definition refresh_rows :: "string list \<Rightarrow> nat list \<Rightarrow> key_state \<Rightarrow> key_state" where
  "refresh_rows held stored s = (drop_settled held s)\<lparr>ks_rows := map HeldRow held @ map StoredRow stored\<rparr>"

lemma find_index_bounds: "- 1 \<le> find_index k rs \<and> find_index k rs < int (length rs)"
  by (induction rs) (auto simp: Let_def)

lemma find_index_row: "0 \<le> find_index k rs \<Longrightarrow> k = Some (rs ! nat (find_index k rs))"
  by (induction rs) (auto simp: Let_def nat_add_distrib split: if_splits)

lemma find_index_nth: "distinct rs \<Longrightarrow> i < length rs \<Longrightarrow> find_index (Some (rs ! i)) rs = int i"
proof (induction rs arbitrary: i)
  case (Cons r rs)
  then show ?case by (cases i) (auto simp: Let_def)
qed simp

text \<open>With the cursor on row i, j moves it to row i + 1 and k to row i - 1, as far as there are rows;
  after a poll took its row away it starts again at the top.\<close>

lemma move_cursor_steps:
  assumes "distinct (ks_rows s)" "i < length (ks_rows s)" "ks_cursor s = Some (ks_rows s ! i)"
  shows "ks_cursor (move_cursor True s) = Some (ks_rows s ! min (length (ks_rows s) - 1) (i + 1))"
    "ks_cursor (move_cursor False s) = Some (ks_rows s ! (i - 1))"
proof -
  have at: "find_index (Some (ks_rows s ! i)) (ks_rows s) = int i" using assms(1,2) by (rule find_index_nth)
  have ne: "ks_rows s \<noteq> []" using assms(2) by auto
  have "nat (min (int (length (ks_rows s)) - 1) (int i + 1)) = min (length (ks_rows s) - 1) (i + 1)"
    "nat (max 0 (int i - 1)) = i - 1" using assms(2) by auto
  then show "ks_cursor (move_cursor True s) = Some (ks_rows s ! min (length (ks_rows s) - 1) (i + 1))"
    "ks_cursor (move_cursor False s) = Some (ks_rows s ! (i - 1))"
    using at ne assms(3) by (simp_all add: move_cursor_def Let_def)
qed

text \<open>Every key leaves the cursor and the panel on rows of the table.\<close>

definition keys_ok :: "key_state \<Rightarrow> bool" where
  "keys_ok s \<longleftrightarrow> (case ks_cursor s of None \<Rightarrow> True | Some c \<Rightarrow> c \<in> set (ks_rows s)) \<and>
     (case ks_selected s of None \<Rightarrow> True | Some c \<Rightarrow> c \<in> set (ks_rows s))"

lemma next_row_bound:
  "- 1 \<le> a \<Longrightarrow> a < int n \<Longrightarrow> 0 < n \<Longrightarrow> nat (if down then min (int n - 1) (a + 1) else max 0 (a - 1)) < n"
  by (cases down) (auto simp: nat_less_iff)

lemma on_key_ok: "keys_ok s \<Longrightarrow> keys_ok (fst (on_key ignored k s))"
proof -
  assume ok: "keys_ok s"
  have "keys_ok (move_cursor down s)" for down
  proof (cases "ks_rows s = []")
    case False
    let ?at = "find_index (case ks_cursor s of None \<Rightarrow> ks_selected s | Some c \<Rightarrow> Some c) (ks_rows s)"
    have "nat (if down then min (int (length (ks_rows s)) - 1) (?at + 1) else max 0 (?at - 1)) < length (ks_rows s)"
      using False find_index_bounds by (intro next_row_bound) auto
    then show ?thesis using False by (simp add: keys_ok_def move_cursor_def Let_def)
  qed (use ok in \<open>simp add: move_cursor_def\<close>)
  moreover have "keys_ok (s\<lparr>ks_cursor := None\<rparr>)" "c \<in> set (ks_rows s) \<Longrightarrow> keys_ok (s\<lparr>ks_selected := Some c\<rparr>)" for c
    using ok by (auto simp: keys_ok_def split: option.splits)
  ultimately show ?thesis using ok
    by (cases k) (simp_all add: on_key_def split: option.split)
qed

end
