(* ===== verification/WebMessages.thy ===== *)
theory WebMessages
  imports WebTraffic
begin

text \<open>
  The live view of the messages of a websocket connection and the list of breakpoints of the web
  interface (src/client/src/pages/TunnelDetail/components/TrafficTable/components), each with the
  operations of the server that answer it.
\<close>

subsection \<open>The messages of a websocket (FramesView.jsx)\<close>

definition KEEP :: nat where
  "KEEP = 500"

definition OPCODES :: "(nat \<times> string) list" where
  "OPCODES = [(1, ''text''), (2, ''binary''), (8, ''close''), (9, ''ping''), (10, ''pong'')]"

text \<open>The text of a payload, or the size of one that is not text, which is printed in its place.\<close>

datatype frame_text = FrameText string | BinaryFrame nat

definition describe :: "(bytes \<Rightarrow> bool) \<Rightarrow> frame_view \<Rightarrow> frame_view \<times> string \<times> frame_text" where
  "describe utf8 frame =
     (let text = (case fv_payload frame of None \<Rightarrow> Some [] | Some p \<Rightarrow> if p = [] then Some [] else decode_body utf8 p)
      in (frame, case map_of OPCODES (fv_opcode frame) of None \<Rightarrow> show_nat (fv_opcode frame) | Some k \<Rightarrow> k,
          case text of None \<Rightarrow> BinaryFrame (fv_bytes frame) | Some t \<Rightarrow> FrameText t))"

text \<open>The frames are kept before they are described, which adds two fields to each.\<close>

record messages_view =
  mv_frames :: "frame_view list"
  mv_latest :: nat
  mv_open :: bool
  mv_draft :: string
  mv_direction :: string
  mv_filter :: string

definition new_messages :: messages_view where
  "new_messages = \<lparr>mv_frames = [], mv_latest = 0, mv_open = True, mv_draft = [], mv_direction = ''in'', mv_filter = ''all''\<rparr>"

definition poll_query :: "messages_view \<Rightarrow> query" where
  "poll_query v = [(''after'', show_nat (mv_latest v))]"

definition keep_last :: "nat \<Rightarrow> 'a list \<Rightarrow> 'a list" where
  "keep_last n xs = drop (length xs - n) xs"

text \<open>The answer to a poll: the frames and whether the connection is open; None when it failed.\<close>

definition poll_answer :: "(frame_view list \<times> bool) option \<Rightarrow> messages_view \<Rightarrow> messages_view" where
  "poll_answer answer v =
     (case answer of
        None \<Rightarrow> v\<lparr>mv_open := False\<rparr>
      | Some (rows, is_open) \<Rightarrow>
          if rows = [] then v\<lparr>mv_open := is_open\<rparr>
          else v\<lparr>mv_open := is_open, mv_latest := fv_id (last rows), mv_frames := keep_last KEEP (mv_frames v @ rows)\<rparr>)"

definition clear_messages :: "messages_view \<Rightarrow> messages_view" where
  "clear_messages v = v\<lparr>mv_frames := []\<rparr>"

definition shown_messages :: "messages_view \<Rightarrow> frame_view list" where
  "shown_messages v = (if mv_filter v = ''all'' then mv_frames v else filter (\<lambda>f. fv_direction f = mv_filter v) (mv_frames v))"

text \<open>The message posted, and the form after the answer: an empty draft is not sent, and a refused
  message stays in the field.\<close>

definition send_message :: "messages_view \<Rightarrow> jsval option" where
  "send_message v =
     (if mv_draft v = [] then None else Some (JObj [(''direction'', JStr (mv_direction v)), (''text'', JStr (mv_draft v))]))"

definition message_sent :: "bool \<Rightarrow> messages_view \<Rightarrow> messages_view" where
  "message_sent ok v = (if ok then v\<lparr>mv_draft := []\<rparr> else v)"

text \<open>A poll whose answer arrives before the next one is sent.\<close>

definition poll :: "string \<Rightarrow> string \<Rightarrow> (bool \<times> frame_log) option \<Rightarrow> messages_view \<Rightarrow> messages_view" where
  "poll tunnel connection log v =
     poll_answer (case log of
         None \<Rightarrow> None
       | Some (ok, f) \<Rightarrow> Some (snd (list_frames ok tunnel connection (mv_latest v) f), isOpen connection f)) v"

lemma poll_query_after: "nat (query_number (poll_query v) ''after'' 0) = mv_latest v"
  by (simp add: query_number_def poll_query_def number_of_show_nat)

definition rows_of :: "string \<Rightarrow> string \<Rightarrow> bool \<Rightarrow> frame_log \<Rightarrow> frame_row list" where
  "rows_of tunnel connection ok f = filter (\<lambda>r. fr_tunnel r = tunnel \<and> fr_connection r = connection) (fl_rows (flush_frames ok f))"

definition log_ok :: "string \<Rightarrow> string \<Rightarrow> bool \<times> frame_log \<Rightarrow> bool" where
  "log_ok tunnel connection = (\<lambda>(ok, f).
     distinct (map fr_id (rows_of tunnel connection ok f)) \<and> 0 \<notin> fr_id ` set (rows_of tunnel connection ok f) \<and>
     length (rows_of tunnel connection ok f) \<le> PER_CONNECTION)"

lemma fv_id_summarise [simp]: "fv_id (summarise_frame r) = fr_id r"
  by (simp add: summarise_frame_def)

lemma new_rows:
  fixes after :: nat
  assumes "log_ok tunnel connection (ok, f)"
  defines "rows \<equiv> snd (list_frames ok tunnel connection after f)"
  shows "sorted_wrt (<) (map fv_id rows)" "length rows \<le> PER_CONNECTION"
    "set rows = summarise_frame ` {r \<in> set (rows_of tunnel connection ok f). after < fr_id r}"
proof -
  let ?rs = "filter (\<lambda>r. after < fr_id r) (rows_of tunnel connection ok f)"
  have "filter (\<lambda>r. fr_tunnel r = tunnel \<and> fr_connection r = connection \<and> (after \<noteq> 0 \<longrightarrow> fr_id r > after)) (fl_rows (flush_frames ok f)) = ?rs"
    using assms(1) by (auto simp: rows_of_def log_ok_def intro!: filter_cong)
  moreover have len: "length ?rs \<le> PER_CONNECTION"
  proof -
    have "length (rows_of tunnel connection ok f) \<le> PER_CONNECTION" using assms(1) by (simp add: log_ok_def)
    with length_filter_le show ?thesis by (rule le_trans)
  qed
  ultimately have rows: "rows = map summarise_frame (sort_key fr_id ?rs)"
    by (simp add: rows_def list_frames_def Let_def)
  have "distinct (map fr_id ?rs)" using assms(1) by (auto simp: log_ok_def distinct_map_filter)
  then have "distinct (map fr_id (sort_key fr_id ?rs))" by (simp add: distinct_map)
  then show "sorted_wrt (<) (map fv_id rows)"
    by (simp add: rows comp_def strict_sorted_iff)
  show "length rows \<le> PER_CONNECTION" "set rows = summarise_frame ` {r \<in> set (rows_of tunnel connection ok f). after < fr_id r}"
    using len by (simp_all add: rows)
qed

definition view_ok :: "messages_view \<Rightarrow> bool" where
  "view_ok v \<longleftrightarrow> sorted_wrt (<) (map fv_id (mv_frames v)) \<and> (\<forall>x \<in> set (mv_frames v). fv_id x \<le> mv_latest v) \<and> length (mv_frames v) \<le> KEEP"

lemma sorted_wrt_drop: "sorted_wrt P xs \<Longrightarrow> sorted_wrt P (drop n xs)"
  by (metis append_take_drop_id sorted_wrt_append)

lemma sorted_last: "sorted_wrt (<) (map (g :: 'a \<Rightarrow> nat) xs) \<Longrightarrow> x \<in> set xs \<Longrightarrow> g x \<le> g (last xs)"
  by (induction xs) (auto intro: less_imp_le)

lemma poll_answer_rows:
  assumes "view_ok v" "sorted_wrt (<) (map fv_id rows)" "\<forall>x \<in> set rows. mv_latest v < fv_id x" "length rows \<le> KEEP"
  shows "view_ok (poll_answer (Some (rows, is_open)) v)"
    "set rows \<subseteq> set (mv_frames (poll_answer (Some (rows, is_open)) v))"
    "\<forall>x \<in> set rows. fv_id x \<le> mv_latest (poll_answer (Some (rows, is_open)) v)"
    "mv_latest v \<le> mv_latest (poll_answer (Some (rows, is_open)) v)"
proof -
  let ?v = "poll_answer (Some (rows, is_open)) v"
  have last_max: "\<forall>x \<in> set rows. fv_id x \<le> fv_id (last rows)" using sorted_last [OF assms(2)] by blast
  have all: "view_ok ?v \<and> set rows \<subseteq> set (mv_frames ?v) \<and> (\<forall>x \<in> set rows. fv_id x \<le> mv_latest ?v) \<and>
      mv_latest v \<le> mv_latest ?v"
  proof (cases "rows = []")
    case True
    then show ?thesis using assms(1) by (simp add: poll_answer_def view_ok_def)
  next
    case False
    let ?k = "length (mv_frames v @ rows) - KEEP"
    have kept: "mv_frames ?v = drop ?k (mv_frames v @ rows)" "mv_latest ?v = fv_id (last rows)"
      using False by (simp_all add: poll_answer_def keep_last_def)
    have "?k \<le> length (mv_frames v)" using assms(4) by simp
    then have d: "drop ?k (mv_frames v @ rows) = drop ?k (mv_frames v) @ rows" by simp
    have "sorted_wrt (<) (map fv_id (mv_frames v @ rows))"
      using assms(1-3) by (fastforce simp: view_ok_def sorted_wrt_append)
    then have "sorted_wrt (<) (map fv_id (mv_frames ?v))"
      unfolding kept by (metis drop_map sorted_wrt_drop)
    moreover have "mv_latest v \<le> fv_id (last rows)"
      using False assms(3) by (meson last_in_set less_imp_le_nat)
    moreover have "length (mv_frames ?v) \<le> KEEP" unfolding kept by simp
    moreover have "set (drop ?k (mv_frames v)) \<subseteq> set (mv_frames v)" by (rule set_drop_subset)
    moreover have "\<forall>x \<in> set (mv_frames ?v). fv_id x \<le> fv_id (last rows)"
    proof
      fix x assume "x \<in> set (mv_frames ?v)"
      then consider "x \<in> set (mv_frames v)" | "x \<in> set rows"
        using \<open>set (drop ?k (mv_frames v)) \<subseteq> set (mv_frames v)\<close> unfolding kept d by auto
      then show "fv_id x \<le> fv_id (last rows)"
        using assms(1) last_max \<open>mv_latest v \<le> fv_id (last rows)\<close> by cases (auto simp: view_ok_def intro: le_trans)
    qed
    moreover have "set rows \<subseteq> set (mv_frames ?v)" unfolding kept d by simp
    ultimately show ?thesis using last_max unfolding view_ok_def kept(2) by simp
  qed
  then show "view_ok ?v" "set rows \<subseteq> set (mv_frames ?v)" "\<forall>x \<in> set rows. fv_id x \<le> mv_latest ?v"
    "mv_latest v \<le> mv_latest ?v" by simp_all
qed

lemma poll_ok:
  assumes "view_ok v" "case log of None \<Rightarrow> True | Some l \<Rightarrow> log_ok tunnel connection l"
  shows "view_ok (poll tunnel connection log v)"
proof (cases log)
  case None
  then show ?thesis using assms(1) by (simp add: poll_def poll_answer_def view_ok_def)
next
  case (Some l)
  obtain ok f where l: "l = (ok, f)" by (cases l)
  have "log_ok tunnel connection (ok, f)" using assms(2) Some l by simp
  from poll_answer_rows(1) [OF assms(1) new_rows(1) [OF this]] new_rows(2,3) [OF this]
  show ?thesis by (simp add: Some l poll_def KEEP_def PER_CONNECTION_def)
qed

lemma polls_ok:
  "view_ok v \<Longrightarrow> list_all (\<lambda>log. case log of None \<Rightarrow> True | Some l \<Rightarrow> log_ok tunnel connection l) logs \<Longrightarrow>
   view_ok (fold (poll tunnel connection) logs v)"
  by (induction logs arbitrary: v) (simp_all add: poll_ok)

text \<open>
  C39. As long as every poll waits for the one before, whatever the log of messages held at each of
  them and however many failed, the messages shown are in the order of the log, none twice and at
  most 500; and after a poll that succeeds every message of the connection that is newer than all
  seen before is among them.
\<close>

theorem messages_follow_log:
  assumes "list_all (\<lambda>log. case log of None \<Rightarrow> True | Some l \<Rightarrow> log_ok tunnel connection l) logs"
    "log_ok tunnel connection (ok, f)"
  shows "let before = fold (poll tunnel connection) logs new_messages; v = poll tunnel connection (Some (ok, f)) before
    in sorted_wrt (<) (map fv_id (mv_frames v)) \<and> length (mv_frames v) \<le> KEEP \<and>
       (\<forall>r \<in> set (rows_of tunnel connection ok f).
          fr_id r \<le> mv_latest v \<and> (mv_latest before < fr_id r \<longrightarrow> summarise_frame r \<in> set (mv_frames v)))"
proof -
  let ?before = "fold (poll tunnel connection) logs new_messages"
  let ?rows = "snd (list_frames ok tunnel connection (mv_latest ?before) f)"
  let ?v = "poll tunnel connection (Some (ok, f)) ?before"
  have b: "view_ok ?before"
    by (rule polls_ok [OF _ assms(1)]) (simp add: view_ok_def new_messages_def)
  have n: "\<forall>x \<in> set ?rows. mv_latest ?before < fv_id x" "length ?rows \<le> KEEP"
    using new_rows(2,3) [OF assms(2)] by (simp_all add: KEEP_def PER_CONNECTION_def)
  have v: "?v = poll_answer (Some (?rows, isOpen connection f)) ?before" by (simp add: poll_def)
  note a = poll_answer_rows [OF b new_rows(1) [OF assms(2)] n, where is_open = "isOpen connection f"]
  have "fr_id r \<le> mv_latest ?v \<and> (mv_latest ?before < fr_id r \<longrightarrow> summarise_frame r \<in> set (mv_frames ?v))"
    if r: "r \<in> set (rows_of tunnel connection ok f)" for r
  proof (cases "mv_latest ?before < fr_id r")
    case True
    then have row: "summarise_frame r \<in> set ?rows" using r new_rows(3) [OF assms(2)] by simp
    have "summarise_frame r \<in> set (mv_frames ?v)" unfolding v by (rule subsetD [OF a(2) row])
    moreover have "fv_id (summarise_frame r) \<le> mv_latest ?v" unfolding v by (rule bspec [OF a(3) row])
    ultimately show ?thesis by simp
  next
    case False
    then show ?thesis using a(4) unfolding v by simp
  qed
  moreover have "view_ok ?v" using a(1) unfolding v .
  ultimately show ?thesis unfolding Let_def view_ok_def by blast
qed

definition sample_frame :: "nat \<Rightarrow> frame_row" where
  "sample_frame n = \<lparr>fr_id = n, fr_tunnel = ''web'', fr_connection = ''c'', fr_direction = ''in'', fr_opcode = 1, fr_time = 0,
     fr_bytes = 1, fr_payload = Some [65], fr_truncated = False\<rparr>"

definition sample_log :: "nat \<Rightarrow> frame_log" where
  "sample_log n = new_FrameLog\<lparr>fl_rows := map sample_frame [1 ..< Suc n], fl_open := [''c''], fl_next := Suc n\<rparr>"

theorem messages_follow_log_witness:
  "let before = fold (poll ''web'' ''c'') [Some (True, sample_log 1), None] new_messages; v = poll ''web'' ''c'' (Some (True, sample_log 2)) before
   in sorted_wrt (<) (map fv_id (mv_frames v)) \<and> length (mv_frames v) \<le> KEEP \<and>
      (\<forall>r \<in> set (rows_of ''web'' ''c'' True (sample_log 2)).
         fr_id r \<le> mv_latest v \<and> (mv_latest before < fr_id r \<longrightarrow> summarise_frame r \<in> set (mv_frames v)))"
proof -
  have a: "list_all (\<lambda>log. case log of None \<Rightarrow> True | Some l \<Rightarrow> log_ok ''web'' ''c'' l) [Some (True, sample_log 1), None]" by code_simp
  have b: "log_ok ''web'' ''c'' (True, sample_log 2)" by code_simp
  show ?thesis by (rule messages_follow_log [OF a b])
qed

text \<open>A poll that is sent before the answer of another one has arrived asks for the same messages:
  they are shown twice.\<close>

lemma overlapping_polls_repeat:
  "let rows = snd (list_frames True ''web'' ''c'' 0 (sample_log 2)); v = poll_answer (Some (rows, True)) new_messages
   in map fv_id (mv_frames (poll_answer (Some (rows, True)) v)) = [1, 2, 1, 2]"
  by code_simp

subsection \<open>Breakpoints (BreakpointsBar.jsx)\<close>

definition rule_value :: "bp_rule \<Rightarrow> jsval" where
  "rule_value r =
     JObj [(''method'', case rule_method r of None \<Rightarrow> JNull | Some m \<Rightarrow> JStr m), (''path'', JStr (rule_path r)), (''phase'', JStr (rule_phase r))]"

definition save_rules :: "jsval list \<Rightarrow> jsval" where
  "save_rules rules = JObj [(''rules'', JArr rules)]"

definition remove_rule :: "nat \<Rightarrow> bp_rule list \<Rightarrow> jsval" where
  "remove_rule index rules = save_rules (map rule_value (take index rules @ drop (Suc index) rules))"

definition add_rule :: "string \<Rightarrow> string \<Rightarrow> string \<Rightarrow> bp_rule list \<Rightarrow> jsval" where
  "add_rule method path phase rules =
     save_rules (map rule_value rules @ [JObj [(''method'', JStr method), (''path'', JStr (trim path)), (''phase'', JStr phase)]])"

text \<open>A rule of the server with an empty method, which stands for any, becomes one without.\<close>

definition plain_rule :: "bp_rule \<Rightarrow> bp_rule" where
  "plain_rule r = (if rule_method r = Some [] then r\<lparr>rule_method := None\<rparr> else r)"

lemma plain_rule_matches: "rule_matches m p ph (plain_rule r) = rule_matches m p ph r"
  by (simp add: rule_matches_def plain_rule_def)

lemma normalize_fields:
  "normalize_rule v = Inr r \<Longrightarrow>
   (rule_method r = None \<or> rule_method r = Some [] \<or> METHOD (the (rule_method r))) \<and>
   trim (rule_path r) = rule_path r \<and> starts_with ''/'' (rule_path r) \<and> rule_phase r \<in> set PHASES"
  by (auto simp: normalize_rule_def Let_def trim_idem split: if_splits)

lemma normalize_again:
  assumes "normalize_rule v = Inr r"
  shows "normalize_rule (rule_value r) = Inr (plain_rule r)"
proof -
  note f = normalize_fields [OF assms]
  consider "rule_method r = None" | "rule_method r = Some []" | m where "rule_method r = Some m" "METHOD m"
    using f by (cases "rule_method r") auto
  then show ?thesis
  proof cases
    case 3
    have "m \<noteq> []" using 3(2) by (auto simp: METHOD_def)
    then show ?thesis using f 3 METHOD_upper [OF 3(2)]
      by (cases m) (simp_all add: normalize_rule_def rule_value_def plain_rule_def Let_def)
  qed (use f in \<open>simp_all add: normalize_rule_def rule_value_def plain_rule_def Let_def\<close>)
qed

lemma normalize_each_again:
  "\<forall>r \<in> set rs. \<exists>v. normalize_rule v = Inr r \<Longrightarrow> normalize_each (map rule_value rs) = Inr (map plain_rule rs)"
  by (induction rs) (auto simp: normalize_again)

lemma normalize_each_from: "normalize_each vs = Inr rs \<Longrightarrow> \<forall>r \<in> set rs. \<exists>v. normalize_rule v = Inr r"
  by (induction vs arbitrary: rs) (auto split: sum.splits)

text \<open>Removing a rule in the list sends the others back as the server gave them, and the server takes
  exactly those: the rules of one tunnel lose the one that was removed, and nothing else changes.\<close>

lemma removed_rule_saved:
  assumes "setRules t input b0 = Inr (b1, rs)"
  shows "setRules t (js_get (remove_rule i rs) ''rules'') b =
    Inr (let rest = map plain_rule (take i rs @ drop (Suc i) rs)
         in (if rest \<noteq> [] then b\<lparr>bp_rules := map_set t rest (bp_rules b)\<rparr> else b\<lparr>bp_rules := map_delete t (bp_rules b)\<rparr>, rest))"
proof -
  from assms have "normalizeRules input = Inr rs" by (simp add: setRules_def split: sum.splits)
  then obtain vs where vs: "normalize_each vs = Inr rs" "length vs \<le> MAX_RULES"
    by (auto simp: normalizeRules_def split: jsval.splits if_splits)
  have len: "length rs \<le> MAX_RULES" using normalize_each_ok [OF vs(1)] vs(2) by simp
  have "normalize_each (map rule_value (take i rs @ drop (Suc i) rs)) = Inr (map plain_rule (take i rs @ drop (Suc i) rs))"
    using normalize_each_from [OF vs(1)] by (intro normalize_each_again) (auto dest: in_set_takeD in_set_dropD)
  moreover have "\<not> length (take i rs @ drop (Suc i) rs) > MAX_RULES" using len by simp
  ultimately show ?thesis
    by (simp add: setRules_def remove_rule_def save_rules_def normalizeRules_def Let_def)
qed

end
