(* ===== verification/WebAccess.thy ===== *)
theory WebAccess
  imports Policy
begin

text \<open>
  The access rules of a tunnel as the web interface edits them: the lists of addresses and
  countries, the categories and the way to sign in (src/client/src/pages/TunnelDetail/components,
  AccessSection and VisitorsTable). Each edit sends only the list that changed; buildPolicy of the
  server puts it into the policy.
\<close>

definition SUGGESTIONS :: nat where
  "SUGGESTIONS = 6"

text \<open>The codes with a flag and the names of the countries come from packages: parameters.\<close>

definition country_matches :: "string list \<Rightarrow> (string \<Rightarrow> string) \<Rightarrow> string \<Rightarrow> string list \<Rightarrow> string list" where
  "country_matches known name text taken =
     (let v = to_lower (trim text)
      in if v = [] then []
         else take SUGGESTIONS (filter (\<lambda>c. c \<notin> set taken \<and> (starts_with v (to_lower c) \<or> includes_str v (to_lower (name c)))) known))"

text \<open>The new list that add, pick and remove hand to onChange; None when nothing is sent.\<close>

definition rule_add :: "string list option \<Rightarrow> string \<Rightarrow> string list \<Rightarrow> string list option" where
  "rule_add suggestions draft items =
     (case (case suggestions of None \<Rightarrow> Some (trim draft) | Some [] \<Rightarrow> None | Some (c # _) \<Rightarrow> Some c) of
        None \<Rightarrow> None
      | Some entry \<Rightarrow> if entry = [] \<or> entry \<in> set items then None else Some (items @ [entry]))"

definition rule_pick :: "string \<Rightarrow> string list \<Rightarrow> string list" where
  "rule_pick code items = items @ [code]"

definition rule_remove :: "string \<Rightarrow> string list \<Rightarrow> string list" where
  "rule_remove item items = filter (\<lambda>e. e \<noteq> item) items"

datatype rule_list = AllowIps | AllowCountries | BlockIps | BlockCountries

definition rules_body :: "rule_list \<Rightarrow> string list \<Rightarrow> jsval" where
  "rules_body l items =
     (let xs = JArr (map JStr items)
      in case l of
           AllowIps \<Rightarrow> JObj [(''allow'', JObj [(''ips'', xs)])]
         | AllowCountries \<Rightarrow> JObj [(''allow'', JObj [(''countries'', xs)])]
         | BlockIps \<Rightarrow> JObj [(''block'', JObj [(''ips'', xs)])]
         | BlockCountries \<Rightarrow> JObj [(''block'', JObj [(''countries'', xs)])])"

definition toggleCategory :: "string \<Rightarrow> bool \<Rightarrow> string list \<Rightarrow> string list" where
  "toggleCategory key on cs = (if on then cs @ [key] else filter (\<lambda>e. e \<noteq> key) cs)"

definition categories_body :: "string list \<Rightarrow> jsval" where
  "categories_body cs = JObj [(''block'', JObj [(''categories'', JArr (map JStr cs))])]"

definition auth_body :: "string \<Rightarrow> string \<Rightarrow> jsval" where
  "auth_body mode password = JObj ((''auth'', JStr mode) # (if password = [] then [] else [(''password'', JStr password)]))"

definition authChanged :: "string \<Rightarrow> string \<Rightarrow> policy_view \<Rightarrow> bool" where
  "authChanged mode password v \<longleftrightarrow> mode \<noteq> v_auth v \<or> password \<noteq> []"

definition needsPassword :: "string \<Rightarrow> string \<Rightarrow> policy_view \<Rightarrow> bool" where
  "needsPassword mode password v \<longleftrightarrow> mode = ''password'' \<and> \<not> v_hasPassword v \<and> password = []"

text \<open>The button of a visitor in VisitorsTable blocks the address or takes the rule away again.\<close>

definition toggleBlock :: "string \<Rightarrow> string list \<Rightarrow> string list" where
  "toggleBlock ip blocked = (if ip \<in> set blocked then filter (\<lambda>e. e \<noteq> ip) blocked else blocked @ [ip])"

subsection \<open>An edit changes one list\<close>

definition get_rules :: "rule_list \<Rightarrow> policy \<Rightarrow> string list" where
  "get_rules l p = (case l of AllowIps \<Rightarrow> allow_ips p | AllowCountries \<Rightarrow> allow_countries p | BlockIps \<Rightarrow> block_ips p | BlockCountries \<Rightarrow> block_countries p)"

definition put_rules :: "rule_list \<Rightarrow> string list \<Rightarrow> policy \<Rightarrow> policy" where
  "put_rules l xs p =
     (case l of AllowIps \<Rightarrow> p\<lparr>allow_ips := xs\<rparr> | AllowCountries \<Rightarrow> p\<lparr>allow_countries := xs\<rparr>
      | BlockIps \<Rightarrow> p\<lparr>block_ips := xs\<rparr> | BlockCountries \<Rightarrow> p\<lparr>block_countries := xs\<rparr>)"

definition entries_ok :: "rule_list \<Rightarrow> string list \<Rightarrow> bool" where
  "entries_ok l xs \<longleftrightarrow>
     (if l \<in> {AllowIps, BlockIps}
      then length xs \<le> 64 \<and> list_all (\<lambda>r. parseRule r \<noteq> None \<and> r \<noteq> [] \<and> trim r = r) xs
      else distinct xs \<and> list_all country_code xs)"

text \<open>A policy whose rules are trimmed, as every policy that the server built.\<close>

definition rules_trimmed :: "policy \<Rightarrow> bool" where
  "rules_trimmed p \<longleftrightarrow> list_all (\<lambda>r. r \<noteq> [] \<and> trim r = r) (allow_ips p) \<and> list_all (\<lambda>r. r \<noteq> [] \<and> trim r = r) (block_ips p)"

lemma country_code_plain: "country_code c \<Longrightarrow> c \<noteq> [] \<and> trim c = c \<and> to_upper c = c"
proof -
  assume c: "country_code c"
  have "\<not> is_space x" "upper_char x = x" if "x \<in> set c" for x
    using c that by (auto simp: country_code_def list_all_iff js_simps)
  then show ?thesis using c by (auto simp: country_code_def trim_no_space to_upper_def intro!: map_idI)
qed

lemma listOf_strings: "list_all (\<lambda>r. r \<noteq> [] \<and> trim r = r) xs \<Longrightarrow> listOf (JArr (map JStr xs)) = xs"
  by (simp add: listOf_def comp_def) (induction xs, auto)

lemma uniq_distinct: "distinct xs \<Longrightarrow> uniq xs = xs"
  by (simp add: uniq_def distinct_remdups_id)

lemma ipRules_back: "entries_ok AllowIps xs \<Longrightarrow> ipRules (JArr (map JStr xs)) = Inr xs"
  using listOf_strings [of xs]
  by (auto simp: ipRules_def entries_ok_def Let_def list_all_iff find_None_iff split: option.split dest: find_None_all)

lemma countryCodes_back: "entries_ok AllowCountries xs \<Longrightarrow> countryCodes (JArr (map JStr xs)) = Inr xs"
proof -
  assume ok: "entries_ok AllowCountries xs"
  then have c: "\<forall>c \<in> set xs. country_code c" "distinct xs" by (auto simp: entries_ok_def list_all_iff)
  have "listOf (JArr (map JStr xs)) = xs" using c(1) country_code_plain by (intro listOf_strings) (auto simp: list_all_iff)
  moreover have "map to_upper xs = xs" using c(1) country_code_plain by (auto intro: map_idI)
  moreover have "find (\<lambda>c. \<not> country_code c) xs = None" using c(1) by (simp add: find_None_iff)
  ultimately show ?thesis using c(2) by (simp add: countryCodes_def uniq_distinct)
qed

lemma categories_back: "distinct xs \<Longrightarrow> set xs \<subseteq> set CATEGORIES \<Longrightarrow> categories (JArr (map JStr xs)) = Inr xs"
proof -
  assume c: "distinct xs" "set xs \<subseteq> set CATEGORIES"
  have "list_all (\<lambda>x. x \<noteq> [] \<and> trim x = x \<and> to_lower x = x) CATEGORIES" by code_simp
  then have p: "\<forall>x \<in> set xs. x \<noteq> [] \<and> trim x = x \<and> to_lower x = x" using c(2) by (auto simp: list_all_iff)
  then have "listOf (JArr (map JStr xs)) = xs" by (intro listOf_strings) (auto simp: list_all_iff)
  moreover have "map to_lower xs = xs" using p by (auto intro: map_idI)
  moreover have "find (\<lambda>e. e \<notin> set CATEGORIES) xs = None" using c(2) by (auto simp: find_None_iff)
  ultimately show ?thesis using c(1) by (simp add: categories_def uniq_distinct)
qed

lemma finish_kept: "policy_wf p \<Longrightarrow> build_finish p = Inr p"
  by (cases "passwordHash p") (auto simp: build_finish_def policy_wf_def)

lemma saved_rules:
  assumes "policy_wf p" "entries_ok l xs"
  shows "buildPolicy scrypt salt (rules_body l xs) p = Inr (put_rules l xs p)"
proof -
  have "policy_wf (put_rules l xs p)"
    using assms by (cases l) (auto simp: policy_wf_def put_rules_def entries_ok_def rules_ok_def codes_ok_def list_all_iff)
  note fin = finish_kept [OF this]
  have ips: "entries_ok AllowIps xs" if "l \<in> {AllowIps, BlockIps}" using assms(2) that by (auto simp: entries_ok_def)
  have ctr: "entries_ok AllowCountries xs" if "l \<in> {AllowCountries, BlockCountries}" using assms(2) that by (auto simp: entries_ok_def)
  show ?thesis
  proof (cases l)
    case AllowIps
    then show ?thesis using fin ipRules_back [OF ips]
      by (simp add: buildPolicy_def rules_body_def set_field_def put_rules_def build_auth_def build_password_def Let_def)
  next
    case AllowCountries
    then show ?thesis using fin countryCodes_back [OF ctr]
      by (simp add: buildPolicy_def rules_body_def set_field_def put_rules_def build_auth_def build_password_def Let_def)
  next
    case BlockIps
    then show ?thesis using fin ipRules_back [OF ips]
      by (simp add: buildPolicy_def rules_body_def set_field_def put_rules_def build_auth_def build_password_def Let_def)
  next
    case BlockCountries
    then show ?thesis using fin countryCodes_back [OF ctr]
      by (simp add: buildPolicy_def rules_body_def set_field_def put_rules_def build_auth_def build_password_def Let_def)
  qed
qed

lemma saved_categories:
  assumes "policy_wf p" "distinct cs" "set cs \<subseteq> set CATEGORIES"
  shows "buildPolicy scrypt salt (categories_body cs) p = Inr (p\<lparr>block_categories := cs\<rparr>)"
proof -
  have "policy_wf (p\<lparr>block_categories := cs\<rparr>)" using assms by (auto simp: policy_wf_def)
  then show ?thesis using finish_kept categories_back [OF assms(2,3)]
    by (simp add: buildPolicy_def categories_body_def set_field_def build_auth_def build_password_def Let_def)
qed

lemma entries_kept: "policy_wf p \<Longrightarrow> rules_trimmed p \<Longrightarrow> entries_ok l (get_rules l p)"
  by (cases l) (auto simp: policy_wf_def rules_trimmed_def entries_ok_def rules_ok_def codes_ok_def get_rules_def list_all_iff)

lemma entries_filter: "entries_ok l xs \<Longrightarrow> entries_ok l (filter P xs)"
  by (auto simp: entries_ok_def list_all_iff intro: le_trans [OF length_filter_le])

lemma set_field_trimmed:
  assumes "set_field v parse put p = Inr q" "rules_trimmed p" "\<And>xs. parse v = Inr xs \<Longrightarrow> rules_trimmed (put xs p)"
  shows "rules_trimmed q"
  using assms by (auto simp: set_field_Inr split: if_splits)

lemma listOf_trimmed: "x \<in> set (listOf v) \<Longrightarrow> x \<noteq> [] \<and> trim x = x"
  by (auto simp: listOf_def trim_idem split: jsval.splits)

lemma ipRules_trimmed: "ipRules v = Inr xs \<Longrightarrow> list_all (\<lambda>r. r \<noteq> [] \<and> trim r = r) xs"
  using listOf_trimmed by (auto simp: ipRules_def Let_def list_all_iff split: option.splits if_splits)

lemma buildPolicy_trimmed:
  assumes "rules_trimmed p" "buildPolicy scrypt salt input p = Inr q"
  shows "rules_trimmed q"
proof -
  from assms(2) obtain a b c d e f g where
    s: "set_field (js_get (js_get input ''allow'') ''ips'') ipRules (\<lambda>xs p. p\<lparr>allow_ips := xs\<rparr>) p = Inr a"
      "set_field (js_get (js_get input ''allow'') ''countries'') countryCodes (\<lambda>xs p. p\<lparr>allow_countries := xs\<rparr>) a = Inr b"
      "set_field (js_get (js_get input ''block'') ''ips'') ipRules (\<lambda>xs p. p\<lparr>block_ips := xs\<rparr>) b = Inr c"
      "set_field (js_get (js_get input ''block'') ''countries'') countryCodes (\<lambda>xs p. p\<lparr>block_countries := xs\<rparr>) c = Inr d"
      "set_field (js_get (js_get input ''block'') ''categories'') categories (\<lambda>xs p. p\<lparr>block_categories := xs\<rparr>) d = Inr e"
      "build_auth input e = Inr f" "build_password scrypt salt input f = Inr g" "build_finish g = Inr q"
    unfolding buildPolicy_def Let_def bind_Inr by blast
  have "rules_trimmed e"
  proof -
    have "rules_trimmed a" using s(1) by (rule set_field_trimmed) (use assms(1) ipRules_trimmed in \<open>auto simp: rules_trimmed_def\<close>)
    note b = set_field_trimmed [OF s(2) this]
    have "rules_trimmed b" by (rule b) (use \<open>rules_trimmed a\<close> in \<open>simp add: rules_trimmed_def\<close>)
    have "rules_trimmed c" using s(3) \<open>rules_trimmed b\<close> by (rule set_field_trimmed) (use \<open>rules_trimmed b\<close> ipRules_trimmed in \<open>auto simp: rules_trimmed_def\<close>)
    have "rules_trimmed d" using s(4) \<open>rules_trimmed c\<close> by (rule set_field_trimmed) (use \<open>rules_trimmed c\<close> in \<open>simp add: rules_trimmed_def\<close>)
    show ?thesis using s(5) \<open>rules_trimmed d\<close> by (rule set_field_trimmed) (use \<open>rules_trimmed d\<close> in \<open>simp add: rules_trimmed_def\<close>)
  qed
  moreover have "allow_ips g = allow_ips e \<and> block_ips g = block_ips e"
    using build_auth_Inr [OF s(6)] build_password_Inr [OF s(7)] by auto
  moreover have "allow_ips q = allow_ips g \<and> block_ips q = block_ips g"
    using s(8) by (auto simp: build_finish_def split: if_splits)
  ultimately show ?thesis by (simp add: rules_trimmed_def)
qed

lemma saved_auth:
  assumes "policy_wf p" "mode \<in> set AUTH_MODES"
  shows "buildPolicy scrypt salt (auth_body mode []) p =
    (if needsPassword mode [] (describePolicy p) then Inl (Err ''bad_request'' ''Password protection needs a password'')
     else Inr (p\<lparr>auth := mode, passwordHash := if mode = ''password'' then passwordHash p else None\<rparr>))"
proof -
  have ne: "mode \<noteq> []" using assms(2) by (auto simp: AUTH_MODES_def)
  have h: "passwordHash p \<noteq> Some []" using assms(1) by (simp add: policy_wf_def)
  have a: "build_auth (auth_body mode []) p = Inr (p\<lparr>auth := mode\<rparr>)"
  proof -
    have "string_or (JStr mode) ''none'' = mode" using ne by (cases mode) (simp_all add: string_or_def)
    then show ?thesis using assms(2) by (simp add: build_auth_def auth_body_def)
  qed
  have "buildPolicy scrypt salt (auth_body mode []) p = build_finish (p\<lparr>auth := mode\<rparr>)"
    using a by (simp add: buildPolicy_def set_field_def build_password_def auth_body_def Let_def)
  then show ?thesis
    using h by (cases "passwordHash p") (auto simp: build_finish_def needsPassword_def describePolicy_def)
qed

lemma saved_removal:
  assumes "policy_wf p" "rules_trimmed p"
  shows "buildPolicy scrypt salt (rules_body l (rule_remove x (get_rules l p))) p = Inr (put_rules l (rule_remove x (get_rules l p)) p)"
  unfolding rule_remove_def by (intro saved_rules entries_filter entries_kept assms)

lemma saved_address:
  assumes "policy_wf p" "rules_trimmed p" and l: "l \<in> {AllowIps, BlockIps}" and add: "rule_add None draft (get_rules l p) = Some items"
  shows "buildPolicy scrypt salt (rules_body l items) p =
        (if parseRule (trim draft) = None then Inl (fail (''\"'' @ trim draft @ ''\" is not an IP address or CIDR range''))
         else if length items > 64 then Inl (fail ''At most 64 IP rules'') else Inr (put_rules l items p))"
proof -
  let ?x = "trim draft"
  have items: "items = get_rules l p @ [?x]" "?x \<noteq> []"
    using add by (auto simp: rule_add_def split: if_splits)
  have old: "entries_ok l (get_rules l p)" using assms(1,2) by (rule entries_kept)
  then have plain: "list_all (\<lambda>r. r \<noteq> [] \<and> trim r = r) items" "list_all (\<lambda>r. parseRule r \<noteq> None) (get_rules l p)"
    using l items by (auto simp: entries_ok_def list_all_iff trim_idem)
  note xs = listOf_strings [OF plain(1)]
  show "buildPolicy scrypt salt (rules_body l items) p =
        (if parseRule ?x = None then Inl (fail (''\"'' @ ?x @ ''\" is not an IP address or CIDR range''))
         else if length items > 64 then Inl (fail ''At most 64 IP rules'') else Inr (put_rules l items p))"
  proof (cases "parseRule ?x \<noteq> None \<and> length items \<le> 64")
    case True
    then have "entries_ok l items" using l plain items by (auto simp: entries_ok_def list_all_iff)
    then show ?thesis using True saved_rules [OF assms(1)] by auto
  next
    case False
    have "find (\<lambda>r. parseRule r = None) items = (if parseRule ?x = None then Some ?x else None)"
    proof -
      have "find (\<lambda>r. parseRule r = None) (ys @ [z]) = (if parseRule z = None then Some z else None)"
        if "list_all (\<lambda>r. parseRule r \<noteq> None) ys" for ys z
        using that by (induction ys) auto
      then show ?thesis using plain(2) items(1) by blast
    qed
    then have r: "ipRules (JArr (map JStr items)) =
        (if parseRule ?x = None then Inl (fail (''\"'' @ ?x @ ''\" is not an IP address or CIDR range'')) else Inl (fail ''At most 64 IP rules''))"
      using xs False by (cases "parseRule ?x = None") (auto simp: ipRules_def)
    have "buildPolicy scrypt salt (rules_body l items) p =
        bind (ipRules (JArr (map JStr items))) (\<lambda>xs. buildPolicy scrypt salt (rules_body l items) p)"
    proof -
      have "l = AllowIps \<or> l = BlockIps" using l by auto
      then show ?thesis
        by (cases "ipRules (JArr (map JStr items))")
          (auto simp: buildPolicy_def rules_body_def set_field_def Let_def simp del: map_map)
    qed
    then show ?thesis using False unfolding r by (cases "parseRule ?x = None") auto
  qed
qed

lemma saved_toggle:
  assumes "policy_wf p" "key \<in> set CATEGORIES" "on \<noteq> (key \<in> set (block_categories p))"
  shows "buildPolicy scrypt salt (categories_body (toggleCategory key on (block_categories p))) p =
    Inr (p\<lparr>block_categories := toggleCategory key on (block_categories p)\<rparr>)"
  using assms by (intro saved_categories) (auto simp: toggleCategory_def policy_wf_def)


definition sample_rules :: policy where
  "sample_rules = emptyPolicy\<lparr>allow_ips := [''10.0.0.0/8'', ''::1''], block_countries := [''DE''], auth := ''password'', passwordHash := Some ''h''\<rparr>"


end
