(* ===== verification/WebPages.thy ===== *)
theory WebPages
  imports Browser SignIn
begin

text \<open>
  The pages of the web interface and what they share (src/client/src): requests to the API and
  their errors (RequestUtil.js), who is signed in and where the router sends them (UserContext,
  Root, PublicRoot, Login), the pages that attach a tab to a tunnel (Status, Select), the page of a
  tunnel (TunnelDetail), linking a device (Handoff), the notice of a new release (Footer), the times
  and downloads that are printed (formatUtils.js, platform.js). Rendering is left out.
\<close>

subsection \<open>Requests to the API (RequestUtil.js)\<close>

definition API_BASE :: string where
  "API_BASE = ''/@tunlit/api/''"

definition api_url :: "string \<Rightarrow> string" where
  "api_url url = API_BASE @ (if starts_with ''/'' url then tl url else url)"

text \<open>What is thrown: the code and the message of the error object.\<close>

datatype api_error = ApiError (ae_code: jsval) (ae_message: jsval)

definition or_else :: "jsval \<Rightarrow> jsval \<Rightarrow> jsval" where
  "or_else a b = (if truthy a then a else b)"

definition object_key :: "jsval \<Rightarrow> string \<Rightarrow> jsval option" where
  "object_key v key = (case v of JObj kvs \<Rightarrow> map_of kvs key | _ \<Rightarrow> None)"

text \<open>
  The text of the answer is parsed by JSON.parse, a parameter with None where it throws. The
  properties of the answer overwrite those of the error, its code first of all.
\<close>

definition request_answer :: "(string \<Rightarrow> jsval option) \<Rightarrow> bool \<Rightarrow> nat \<Rightarrow> string \<Rightarrow> api_error + jsval" where
  "request_answer json ok status raw =
     (case (if raw = [] then Some (JObj []) else json raw) of
        None \<Rightarrow> Inl (ApiError JUndef (JStr ''SyntaxError''))
      | Some data \<Rightarrow>
          if ok then Inr data
          else if data = JNull then Inl (ApiError JUndef (JStr ''TypeError''))
          else Inl (ApiError
                 (case object_key data ''code'' of None \<Rightarrow> JInt (int status) | Some c \<Rightarrow> c)
                 (case object_key data ''message'' of
                    Some m \<Rightarrow> m
                  | None \<Rightarrow> or_else (js_get data ''message'')
                      (or_else (js_get data ''error'') (JStr (''Request failed ('' @ show_nat status @ '')''))))))"

subsection \<open>Who is signed in\<close>

record user_context =
  uc_user :: "jsval option"
  uc_setupRequired :: bool
  uc_serverInfo :: "jsval option"
  uc_loaded :: bool

definition new_context :: user_context where
  "new_context = \<lparr>uc_user = None, uc_setupRequired = False, uc_serverInfo = None, uc_loaded = False\<rparr>"

definition checkSetup :: "api_error + jsval \<Rightarrow> user_context \<Rightarrow> user_context" where
  "checkSetup answer c =
     (case answer of Inl _ \<Rightarrow> c | Inr status \<Rightarrow> c\<lparr>uc_setupRequired := truthy (js_get status ''setupRequired'')\<rparr>)"

definition context_login :: "api_error + jsval \<Rightarrow> user_context \<Rightarrow> user_context \<times> bool" where
  "context_login answer c = (case answer of Inl _ \<Rightarrow> (c\<lparr>uc_user := None\<rparr>, False) | Inr u \<Rightarrow> (c\<lparr>uc_user := Some u\<rparr>, True))"

definition context_logout :: "user_context \<Rightarrow> user_context" where
  "context_logout c = c\<lparr>uc_user := None\<rparr>"

text \<open>The three requests of the start, which end in any order, and the flag that is set last.\<close>

definition context_start :: "api_error + jsval \<Rightarrow> api_error + jsval \<Rightarrow> api_error + jsval \<Rightarrow> user_context \<Rightarrow> user_context" where
  "context_start setup me info c =
     (let c1 = fst (context_login me (checkSetup setup c))
      in (case info of Inl _ \<Rightarrow> c1 | Inr i \<Rightarrow> c1\<lparr>uc_serverInfo := Some i\<rparr>)\<lparr>uc_loaded := True\<rparr>)"

datatype shown = Spinner | Redirect string | Shown

definition root_view :: "user_context \<Rightarrow> shown" where
  "root_view c =
     (if \<not> uc_loaded c then Spinner else if uc_setupRequired c then Redirect ''/setup''
      else if uc_user c = None then Redirect ''/login'' else Shown)"

definition public_view :: "string \<Rightarrow> user_context \<Rightarrow> shown" where
  "public_view pathname c =
     (if \<not> uc_loaded c then Spinner else if uc_setupRequired c \<and> pathname \<noteq> ''/setup'' then Redirect ''/setup'' else Shown)"

text \<open>The address to return to after signing in: test() of a missing parameter sees the text null.\<close>

definition login_next :: "string option \<Rightarrow> string option" where
  "login_next requested = (case requested of None \<Rightarrow> None | Some r \<Rightarrow> if safe_path r then Some r else None)"

datatype login_view = LoginForm | LeaveTo string | RouteTo string

definition login_shown :: "string option \<Rightarrow> string option \<Rightarrow> user_context \<Rightarrow> login_view" where
  "login_shown requested from c =
     (if uc_setupRequired c then RouteTo ''/setup''
      else if uc_user c \<noteq> None
      then (case login_next requested of
              Some n \<Rightarrow> LeaveTo n
            | None \<Rightarrow> RouteTo (case from of None \<Rightarrow> ''/tunnels'' | Some f \<Rightarrow> if f = [] then ''/tunnels'' else f))
      else LoginForm)"

record login_form =
  lf_username :: string
  lf_password :: string
  lf_code :: string
  lf_needsCode :: bool
  lf_loading :: bool

definition filled_or :: "string \<Rightarrow> string \<Rightarrow> string" where
  "filled_or filled state = (if filled = [] then state else filled)"

text \<open>What the form posts: the fields of the page, where a password manager filled them unseen.\<close>

definition login_submit :: "string \<times> string \<times> string \<Rightarrow> login_form \<Rightarrow> login_form \<times> jsval" where
  "login_submit filled f =
     (case filled of (u, p, k) \<Rightarrow>
        let identity = filled_or u (lf_username f); secret = filled_or p (lf_password f)
        in (f\<lparr>lf_username := identity, lf_password := secret, lf_loading := True\<rparr>,
            JObj ([(''username'', JStr identity), (''password'', JStr secret)]
                  @ (if lf_needsCode f then [(''code'', JStr (filled_or k (lf_code f)))] else []))))"

text \<open>True when the sign-in is complete.\<close>

definition login_answer :: "api_error + jsval \<Rightarrow> login_form \<Rightarrow> login_form \<times> bool" where
  "login_answer answer f =
     (case answer of
        Inl _ \<Rightarrow> (f\<lparr>lf_loading := False\<rparr>, False)
      | Inr result \<Rightarrow>
          if truthy (js_get result ''totpRequired'') then (f\<lparr>lf_needsCode := True, lf_code := [], lf_loading := False\<rparr>, False)
          else (f\<lparr>lf_loading := False\<rparr>, True))"

lemma login_stays_here: "login_next requested = Some n \<Longrightarrow> safe_path n"
  by (auto simp: login_next_def split: option.splits if_splits)

text \<open>The page and the server agree on the addresses to return to.\<close>

lemma login_next_is_safeNext: "login_next (Some s) = safeNext (JStr s)"
  by (simp add: login_next_def safeNext_def)

text \<open>Nothing of the dashboard is shown before the start is complete or to someone not signed in,
  and no redirection of the two frames leads to a page that redirects back.\<close>

lemma dashboard_needs_user: "root_view c = Shown \<Longrightarrow> uc_loaded c \<and> uc_user c \<noteq> None \<and> \<not> uc_setupRequired c"
  by (auto simp: root_view_def split: if_splits)

lemma redirections_end:
  "root_view c = Redirect p \<Longrightarrow> public_view p c = Shown \<and> (p = ''/login'' \<longrightarrow> login_shown requested from c = LoginForm)"
  by (auto simp: root_view_def public_view_def login_shown_def split: if_splits)

subsection \<open>Tabs and tunnels (Status.jsx, Select.jsx)\<close>

datatype tab_kind = Attach | Reattach

text \<open>Where the tab goes: the tunnel it is bound to and the address it is sent to once the worker
  answers or two seconds have passed; None leads to the choice of a tunnel.\<close>

definition tab_target :: "string option \<Rightarrow> string option \<Rightarrow> string" where
  "tab_target given param =
     (case given of Some (c # cs) \<Rightarrow> c # cs
      | _ \<Rightarrow> (case param of Some (c # cs) \<Rightarrow> c # cs | _ \<Rightarrow> ''/''))"

definition open_tab :: "tab_kind \<Rightarrow> string \<Rightarrow> string option \<Rightarrow> string option \<Rightarrow> string option \<Rightarrow> (string \<times> string) option" where
  "open_tab kind tid stored given param =
     (case (if kind = Attach then Some tid else stored) of
        Some (c # cs) \<Rightarrow> Some (c # cs, tab_target given param)
      | _ \<Rightarrow> None)"

text \<open>The name typed on the page that chooses a tunnel; encodeURIComponent is a parameter.\<close>

definition select_open :: "(string \<Rightarrow> string) \<Rightarrow> string \<Rightarrow> string option" where
  "select_open encode typed =
     (let t = to_lower (trim typed); name = (if starts_with ''@'' t then tl t else t)
      in if name = [] then None else Some (''/@'' @ encode name))"

text \<open>A tab without a tunnel is never sent on; a tab that is keeps the tunnel it had.\<close>

lemma tab_keeps_tunnel: "open_tab Reattach tid stored given param = Some (t, target) \<Longrightarrow> stored = Some t"
  by (auto simp: open_tab_def split: option.splits list.splits)

text \<open>The address in the query is followed unchecked, a script as well.\<close>

lemma reattach_follows_any_address:
  "open_tab Reattach [] (Some ''web'') None (Some ''javascript:alert(1)'') = Some (''web'', ''javascript:alert(1)'')"
  by code_simp

text \<open>The text for each reason a visitor was refused; the server has no other reasons.\<close>

definition BLOCKED :: "(string \<times> string) list" where
  "BLOCKED =
     [(''address'', ''This tunnel does not accept requests from your address.''),
      (''country'', ''This tunnel does not accept requests from your country.''),
      (''tor'', ''This tunnel does not accept requests from Tor exit nodes.''),
      (''vpn'', ''This tunnel does not accept requests from VPN services.''),
      (''datacenter'', ''This tunnel does not accept requests from datacenters.''),
      (''blocklist'', ''This tunnel does not accept requests from blocklisted addresses.'')]"


lemma refusals_explained:
  assumes "set (block_categories p) \<subseteq> set CATEGORIES" "evaluate p ip intel = Some reason"
  shows "map_of BLOCKED reason \<noteq> None"
proof -
  have known: "list_all (\<lambda>r. map_of BLOCKED r \<noteq> None) (''address'' # ''country'' # CATEGORIES)" by code_simp
  have "reason \<in> {''address'', ''country''} \<or> find (in_category intel) (block_categories p) = Some reason"
    using assms(2) by (auto simp: evaluate_def split: if_splits option.splits)
  moreover have "find (in_category intel) (block_categories p) = Some reason \<Longrightarrow> reason \<in> set CATEGORIES"
    using assms(1) by (auto simp: find_Some_iff)
  ultimately show ?thesis using known unfolding list_all_iff by fastforce
qed

subsection \<open>Times (formatUtils.js)\<close>

text \<open>Math.round of a quotient: halves are rounded up.\<close>

definition js_round :: "int \<Rightarrow> int \<Rightarrow> int" where
  "js_round a b = (2 * a + b) div (2 * b)"

text \<open>The difference in milliseconds; None for a date that is none.\<close>

definition formatRelative :: "int option \<Rightarrow> string" where
  "formatRelative elapsed =
     (case elapsed of
        None \<Rightarrow> ''unknown''
      | Some d \<Rightarrow>
          let seconds = js_round d 1000; minutes = js_round seconds 60; hours = js_round minutes 60
          in if seconds < 5 then ''just now''
             else if seconds < 60 then show_int seconds @ ''s ago''
             else if minutes < 60 then show_int minutes @ ''m ago''
             else if hours < 24 then show_int hours @ ''h ago''
             else show_int (js_round hours 24) @ ''d ago'')"

definition formatCountdown :: "int \<Rightarrow> int \<Rightarrow> string" where
  "formatCountdown until now =
     (let seconds = max 0 (- ((now - until) div 1000))
      in if seconds < 60 then show_int seconds @ ''s'' else show_int (seconds div 60) @ ''m '' @ show_int (seconds mod 60) @ ''s'')"

lemma js_round_one: "0 < b \<Longrightarrow> b \<le> a \<Longrightarrow> 1 \<le> js_round a b"
  using zdiv_mono1 [of "2 * b" "2 * a + b" "2 * b"] by (simp add: js_round_def)

text \<open>No unit is shown where the next larger one has begun, nor none of it.\<close>

lemma relative_units:
  "formatRelative (Some d) = ''just now'' \<or>
   (\<exists>n. (5 \<le> n \<and> n < 60 \<and> formatRelative (Some d) = show_int n @ ''s ago'') \<or>
        (1 \<le> n \<and> n < 60 \<and> formatRelative (Some d) = show_int n @ ''m ago'') \<or>
        (1 \<le> n \<and> n < 24 \<and> formatRelative (Some d) = show_int n @ ''h ago'') \<or>
        (1 \<le> n \<and> formatRelative (Some d) = show_int n @ ''d ago''))"
proof -
  let ?s = "js_round d 1000"
  let ?m = "js_round ?s 60"
  let ?h = "js_round ?m 60"
  have m: "60 \<le> ?s \<Longrightarrow> 1 \<le> ?m" and h: "60 \<le> ?m \<Longrightarrow> 1 \<le> ?h" and d: "24 \<le> ?h \<Longrightarrow> 1 \<le> js_round ?h 24"
    using js_round_one [of 60 ?s] js_round_one [of 60 ?m] js_round_one [of 24 ?h] by simp_all
  consider "?s < 5" | "5 \<le> ?s" "?s < 60" | "60 \<le> ?s" "?m < 60" | "60 \<le> ?s" "60 \<le> ?m" "?h < 24" | "60 \<le> ?s" "60 \<le> ?m" "24 \<le> ?h"
    by linarith
  then show ?thesis
  proof cases
    case 1
    then show ?thesis by (simp add: formatRelative_def)
  next
    case 2
    then show ?thesis by - (rule disjI2, rule exI [of _ ?s], simp add: formatRelative_def)
  next
    case 3
    then show ?thesis using m by - (rule disjI2, rule exI [of _ ?m], simp add: formatRelative_def)
  next
    case 4
    then show ?thesis using h by - (rule disjI2, rule exI [of _ ?h], simp add: formatRelative_def)
  next
    case 5
    then show ?thesis using d by - (rule disjI2, rule exI [of _ "js_round ?h 24"], simp add: formatRelative_def)
  qed
qed

subsection \<open>A new release (Footer.jsx)\<close>

text \<open>Number of a part; a part that is no whole number counts as NaN.\<close>

definition parseVersion :: "string \<Rightarrow> int option list" where
  "parseVersion version =
     map number_of_string (split_on CHR ''.'' (hd (split_on CHR ''-'' (if starts_with ''v'' version then tl version else version))))"

definition version_part :: "int list \<Rightarrow> nat \<Rightarrow> int" where
  "version_part a i = (if i < length a then a ! i else 0)"

definition newer :: "int list \<Rightarrow> int list \<Rightarrow> bool" where
  "newer a b =
     (case find (\<lambda>i. version_part a i \<noteq> version_part b i) [0 ..< max (length a) (length b)] of
        None \<Rightarrow> False
      | Some i \<Rightarrow> version_part a i > version_part b i)"

definition isNewer :: "string \<Rightarrow> string \<Rightarrow> bool" where
  "isNewer candidate current =
     (let a = parseVersion candidate; b = parseVersion current
      in if None \<in> set a \<or> None \<in> set b then False else newer (map the a) (map the b))"

text \<open>The tag in the cache is used for six hours; then it is fetched again, and kept as it was when
  that fails.\<close>

definition CACHE_TTL :: nat where
  "CACHE_TTL = 6 * 60 * 60 * 1000"

definition cached_release :: "(string \<times> nat) option \<Rightarrow> nat \<Rightarrow> string option" where
  "cached_release cached now = (case cached of None \<Rightarrow> None | Some (version, fetched) \<Rightarrow> if now - fetched < CACHE_TTL then Some version else None)"

definition fetched_release :: "string option \<Rightarrow> nat \<Rightarrow> (string \<times> nat) option \<Rightarrow> string option \<times> (string \<times> nat) option" where
  "fetched_release tag now cached =
     (case tag of Some (c # cs) \<Rightarrow> (Some (c # cs), Some (c # cs, now)) | _ \<Rightarrow> (None, cached))"

definition update_offered :: "string option \<Rightarrow> string option \<Rightarrow> string option" where
  "update_offered version latest =
     (case (version, latest) of (Some v, Some l) \<Rightarrow> if v \<noteq> [] \<and> l \<noteq> [] \<and> isNewer l v then Some l else None | _ \<Rightarrow> None)"

text \<open>The order of versions is the lexicographic one of their parts, continued by zeros.\<close>

lemma newer_iff: "newer a b \<longleftrightarrow> (\<exists>i. version_part a i > version_part b i \<and> (\<forall>j < i. version_part a j = version_part b j))"
proof
  assume "newer a b"
  then obtain i where "find (\<lambda>i. version_part a i \<noteq> version_part b i) [0 ..< max (length a) (length b)] = Some i"
    "version_part a i > version_part b i"
    by (auto simp: newer_def split: option.splits)
  then show "\<exists>i. version_part a i > version_part b i \<and> (\<forall>j < i. version_part a j = version_part b j)"
    by (auto simp: find_Some_iff intro!: exI [of _ i])
next
  assume "\<exists>i. version_part a i > version_part b i \<and> (\<forall>j < i. version_part a j = version_part b j)"
  then obtain i where i: "version_part a i > version_part b i" "\<forall>j < i. version_part a j = version_part b j" by blast
  have "i < max (length a) (length b)" using i(1) by (auto simp: version_part_def split: if_splits)
  then have "find (\<lambda>i. version_part a i \<noteq> version_part b i) [0 ..< max (length a) (length b)] = Some i"
    using i by (auto simp: find_Some_iff intro!: exI [of _ i])
  then show "newer a b" using i(1) by (simp add: newer_def)
qed

lemma newer_irreflexive: "\<not> newer a a"
  by (simp add: newer_iff)

lemma newer_transitive: "newer a b \<Longrightarrow> newer b c \<Longrightarrow> newer a c"
proof -
  assume "newer a b" "newer b c"
  then obtain i k where i: "version_part a i > version_part b i" "\<forall>j < i. version_part a j = version_part b j"
    and k: "version_part b k > version_part c k" "\<forall>j < k. version_part b j = version_part c j"
    by (auto simp: newer_iff)
  consider "i < k" | "i = k" | "k < i" by linarith
  then show "newer a c"
  proof cases
    case 1
    then show ?thesis using i k by (auto simp: newer_iff intro!: exI [of _ i])
  next
    case 2
    then show ?thesis using i k by (auto simp: newer_iff intro!: exI [of _ i])
  next
    case 3
    then show ?thesis using i k by (auto simp: newer_iff intro!: exI [of _ k])
  qed
qed

lemma same_release_not_offered: "\<not> isNewer v v"
  by (simp add: isNewer_def newer_irreflexive Let_def)

subsection \<open>Downloads (platform.js)\<close>

record platform =
  pf_os :: "string option"
  pf_arch :: "string option"

definition agent_has :: "string \<Rightarrow> string \<Rightarrow> bool" where
  "agent_has word agent = includes_str word (to_lower agent)"

text \<open>The user agent and whether the graphics card is Apple's.\<close>

definition fromUserAgent :: "string \<Rightarrow> bool \<Rightarrow> platform" where
  "fromUserAgent agent silicon =
     (let os = (if agent_has ''windows'' agent then Some ''windows''
                else if agent_has ''mac os x'' agent \<or> agent_has ''macintosh'' agent then Some ''macos''
                else if agent_has ''linux'' agent \<or> agent_has ''x11'' agent then Some ''linux'' else None)
      in if os = Some ''macos'' then \<lparr>pf_os = os, pf_arch = (if silicon then Some ''arm64'' else None)\<rparr>
         else if agent_has ''arm64'' agent \<or> agent_has ''aarch64'' agent then \<lparr>pf_os = os, pf_arch = Some ''arm64''\<rparr>
         else if list_ex (\<lambda>p. agent_has p agent) [''x86_64'', ''x86-64'', ''win64'', ''wow64'', ''x64''] then \<lparr>pf_os = os, pf_arch = Some ''x64''\<rparr>
         else \<lparr>pf_os = os, pf_arch = None\<rparr>)"

definition PLATFORMS :: "(string \<times> string) list" where
  "PLATFORMS = [(''Windows'', ''windows''), (''macOS'', ''macos''), (''Linux'', ''linux'')]"

text \<open>The hints (platform, architecture, bitness); None where the browser has none or refuses.\<close>

definition detectPlatform :: "(string \<times> string \<times> string) option \<Rightarrow> string \<Rightarrow> bool \<Rightarrow> platform" where
  "detectPlatform hints agent silicon =
     (case hints of
        None \<Rightarrow> fromUserAgent agent silicon
      | Some (name, architecture, bitness) \<Rightarrow>
          let arch = (if architecture = ''arm'' \<and> bitness = ''64'' then Some ''arm64''
                      else if architecture = ''x86'' \<and> bitness = ''64'' then Some ''x64'' else None)
          in (case map_of PLATFORMS name of
                None \<Rightarrow> fromUserAgent agent silicon
              | Some os \<Rightarrow> \<lparr>pf_os = Some os, pf_arch = (if arch = None then pf_arch (fromUserAgent agent silicon) else arch)\<rparr>))"

definition REPOSITORY :: string where
  "REPOSITORY = ''https://github.com/gnmyt/tunlit''"

definition releasesUrl :: "string option \<Rightarrow> string" where
  "releasesUrl version =
     (case version of Some (c # cs) \<Rightarrow> REPOSITORY @ ''/releases/tag/v'' @ c # cs | _ \<Rightarrow> REPOSITORY @ ''/releases/latest'')"

definition installCommand :: "string option \<Rightarrow> string" where
  "installCommand os =
     (if os = Some ''windows'' then ''irm https://tunlit.dev/install.ps1 | iex'' else ''curl -fsSL https://tunlit.dev/install | sh'')"

text \<open>The files offered: address and label.\<close>

definition downloadsFor :: "platform \<Rightarrow> string option \<Rightarrow> (string \<times> string) list" where
  "downloadsFor p version =
     (let base = (case version of Some (c # cs) \<Rightarrow> REPOSITORY @ ''/releases/download/v'' @ c # cs | _ \<Rightarrow> REPOSITORY @ ''/releases/latest/download'');
          item = (\<lambda>name label. (base @ ''/'' @ name, label));
          onArm = (pf_arch p = Some ''arm64'')
      in case pf_os p of
           None \<Rightarrow> []
         | Some os \<Rightarrow>
             if os = [] then []
             else if os = ''windows''
             then let suffix = (if onArm then ''arm64'' else ''x64'')
                  in [item (''tunlit-'' @ suffix @ ''.msi'') ''Windows installer'', item (''tunlit-windows-'' @ suffix @ ''.exe'') ''Plain tunlit.exe'']
             else if os = ''macos''
             then let silicon = item ''tunlit-macos-arm64'' ''macOS, Apple Silicon''; intel = item ''tunlit-macos-x64'' ''macOS, Intel''
                  in if pf_arch p = Some ''x64'' then [intel, silicon] else [silicon, intel]
             else let plain = (if onArm then ''tunlit-linux-arm64'' else ''tunlit-linux-x64'')
                  in [item (''tunlit-cli-'' @ (if onArm then ''arm64'' else ''amd64'') @ ''.deb'') ''Debian, Ubuntu'',
                      item (''tunlit-cli-'' @ (if onArm then ''aarch64'' else ''x86_64'') @ ''.rpm'') ''Fedora, RHEL'',
                      item plain ''Plain binary'', item (plain @ ''-static'') ''Static binary, any distro''])"

text \<open>A platform that is known gets files, each of them of the release that was asked for.\<close>

lemma downloads_offered: "pf_os (detectPlatform hints agent silicon) = Some os \<Longrightarrow> downloadsFor (detectPlatform hints agent silicon) version \<noteq> []"
  by (auto simp: downloadsFor_def detectPlatform_def PLATFORMS_def fromUserAgent_def Let_def split: option.splits if_splits)

lemma downloads_of_release: "(url, text) \<in> set (downloadsFor p (Some (c # cs))) \<Longrightarrow> starts_with (REPOSITORY @ ''/releases/download/v'' @ (c # cs) @ ''/'') url"
  by (auto simp: downloadsFor_def Let_def starts_with_iff split: option.splits if_splits)

subsection \<open>The page of a tunnel (TunnelDetail.jsx)\<close>

text \<open>What the page knows of a running tunnel.\<close>

record tunnel_summary =
  ts_id :: string
  ts_mode :: string
  ts_online :: bool
  ts_graceUntil :: int
  ts_persistent :: bool

record detail_page =
  dp_live :: "tunnel_summary option"
  dp_definition :: "string option"
  dp_checked :: bool

definition new_detail :: detail_page where
  "new_detail = \<lparr>dp_live = None, dp_definition = None, dp_checked = False\<rparr>"

text \<open>The answers are the values or the codes of the errors; a failed load that is not a 404 leaves
  the page as it is.\<close>

definition load_tunnel :: "jsval + tunnel_summary \<Rightarrow> detail_page \<Rightarrow> detail_page" where
  "load_tunnel answer d =
     (case answer of Inr t \<Rightarrow> d\<lparr>dp_live := Some t\<rparr> | Inl code \<Rightarrow> if code = JInt 404 then d\<lparr>dp_live := None\<rparr> else d)"

definition loadDefinition :: "jsval + string \<Rightarrow> detail_page \<Rightarrow> detail_page" where
  "loadDefinition answer d =
     (if (case dp_live d of None \<Rightarrow> False | Some t \<Rightarrow> \<not> ts_persistent t) then d\<lparr>dp_definition := None\<rparr>
      else (case answer of Inr name \<Rightarrow> d\<lparr>dp_definition := Some name\<rparr> | Inl code \<Rightarrow> if code = JInt 404 then d\<lparr>dp_definition := None\<rparr> else d))"

definition refresh_detail :: "(jsval + tunnel_summary) \<times> (jsval + string) \<Rightarrow> detail_page \<Rightarrow> detail_page" where
  "refresh_detail answers d = (loadDefinition (snd answers) (load_tunnel (fst answers) d))\<lparr>dp_checked := True\<rparr>"

definition is_persistent :: "detail_page \<Rightarrow> bool" where
  "is_persistent d = (case dp_live d of None \<Rightarrow> dp_definition d \<noteq> None | Some t \<Rightarrow> ts_persistent t)"

definition stateOf :: "detail_page \<Rightarrow> int \<Rightarrow> string \<times> string" where
  "stateOf d now =
     (case dp_live d of
        None \<Rightarrow> (''dormant'', ''Offline'')
      | Some t \<Rightarrow> if ts_online t then (''online'', ''Online'')
                  else (''offline'', ''Reconnecting '' @ [CHR 0xB7] @ '' closes in '' @ formatCountdown (ts_graceUntil t) now))"

datatype detail_view = DetailGone | DetailLoading | DetailPage string

text \<open>The page with the address its access rules are saved to.\<close>

definition detail_view :: "detail_page \<Rightarrow> detail_view" where
  "detail_view d =
     (case dp_live d of
        Some t \<Rightarrow> DetailPage (''tunnels/'' @ ts_id t @ ''/access'')
      | None \<Rightarrow>
          (case dp_definition d of
             Some name \<Rightarrow> DetailPage (''persistent/'' @ name @ ''/access'')
           | None \<Rightarrow> if dp_checked d then DetailGone else DetailLoading))"

text \<open>Where the page goes after an action that succeeded; None when it stays.\<close>

definition after_close :: "detail_page \<Rightarrow> string option" where
  "after_close d = (if is_persistent d then None else Some ''/tunnels'')"

definition after_release :: "detail_page \<Rightarrow> detail_page \<times> string option" where
  "after_release d = (d\<lparr>dp_definition := None\<rparr>, if dp_live d = None then Some ''/tunnels'' else None)"

text \<open>Once a tunnel was shown, the page only says that it is gone after the server said so: errors of
  other kinds keep what was shown.\<close>

lemma gone_was_answered:
  "detail_view d \<noteq> DetailGone \<Longrightarrow> dp_checked d \<Longrightarrow> detail_view (refresh_detail (a, b) d) = DetailGone \<Longrightarrow> a = Inl (JInt 404) \<or> b = Inl (JInt 404)"
  by (cases a; cases b) (auto simp: detail_view_def refresh_detail_def load_tunnel_def loadDefinition_def split: option.splits if_splits)

text \<open>A first load that fails for another reason reads as a tunnel that was closed.\<close>

lemma failed_load_says_closed: "detail_view (refresh_detail (Inl (JInt 500), Inl (JInt 500)) new_detail) = DetailGone"
  by code_simp

subsection \<open>Linking a device (Handoff.jsx)\<close>

record handoff_page =
  hp_request :: "jsval option"
  hp_name :: string
  hp_error :: "jsval option"
  hp_done :: "string option"

definition new_handoff :: handoff_page where
  "new_handoff = \<lparr>hp_request = None, hp_name = [], hp_error = None, hp_done = None\<rparr>"

definition handoff_code :: "string option \<Rightarrow> string" where
  "handoff_code param = to_upper (case param of None \<Rightarrow> [] | Some c \<Rightarrow> c)"

text \<open>The answer to the question for the request, not asked without a code. A name already typed stays.\<close>

definition handoff_load :: "string \<Rightarrow> api_error + jsval \<Rightarrow> handoff_page \<Rightarrow> handoff_page" where
  "handoff_load code answer h =
     (if code = [] then h\<lparr>hp_error := Some (JStr ''This link has no code in it.'')\<rparr>
      else (case answer of
              Inl e \<Rightarrow> if ae_code e \<noteq> JInt 401 then h\<lparr>hp_error := Some (ae_message e)\<rparr> else h
            | Inr data \<Rightarrow>
                let r = js_get data ''request''
                in h\<lparr>hp_request := Some r, hp_name := (if hp_name h \<noteq> [] then hp_name h else string_or (js_get r ''client'') [])\<rparr>))"

definition handoff_body :: "bool \<Rightarrow> handoff_page \<Rightarrow> jsval" where
  "handoff_body yes h = (if yes then JObj [(''name'', JStr (hp_name h))] else JObj [])"

definition handoff_acted :: "bool \<Rightarrow> api_error + jsval \<Rightarrow> handoff_page \<Rightarrow> handoff_page" where
  "handoff_acted yes answer h =
     (case answer of
        Inl e \<Rightarrow> h\<lparr>hp_error := Some (ae_message e)\<rparr>
      | Inr _ \<Rightarrow> h\<lparr>hp_done := Some (if yes then ''approved'' else ''denied'')\<rparr>)"

datatype handoff_view = HandoffSpinner | SignInFirst | HandoffDone string | HandoffError jsval | HandoffAsk jsval

definition handoff_view :: "user_context \<Rightarrow> handoff_page \<Rightarrow> handoff_view" where
  "handoff_view c h =
     (if \<not> uc_loaded c then HandoffSpinner
      else if uc_user c = None then SignInFirst
      else case hp_done h of
             Some d \<Rightarrow> HandoffDone d
           | None \<Rightarrow> (case hp_error h of
               Some e \<Rightarrow> HandoffError e
             | None \<Rightarrow> (case hp_request h of None \<Rightarrow> HandoffSpinner | Some r \<Rightarrow> HandoffAsk r)))"

text \<open>The page asks whether to link a device only of someone signed in, for a request the server knows,
  and says that it is linked only after the server approved it.\<close>

lemma handoff_asks: "handoff_view c h = HandoffAsk r \<Longrightarrow> uc_user c \<noteq> None \<and> hp_request h = Some r \<and> hp_done h = None \<and> hp_error h = None"
  by (auto simp: handoff_view_def split: if_splits option.splits)

lemma handoff_linked: "hp_done (handoff_acted yes answer h) = Some ''approved'' \<Longrightarrow> hp_done h = None \<Longrightarrow> yes \<and> (\<exists>x. answer = Inr x)"
  by (auto simp: handoff_acted_def split: sum.splits if_splits)

end
