(* ===== verification/Spec2Isabelle.thy ===== *)
theory Spec2Isabelle
  imports Ids MuxPeer MuxSession Address Intel Policy AccessStore Attempts Capture Breakpoints Websocket Sniff
    Accounts Devices Quotas Persistent Registry RegistryLife Tables Traffic Connections Proxy ProxyFlow Http Domains TunnelsApi Control Config
    SignIn Tls Router ApiTable AccountRoutes AdminRoutes ServiceRoutes TunnelRoutes Har Pages Browser Server
    WebTraffic WebMessages WebAccess WebPages
begin

text \<open>
  A verification of tunlit, a self-hosted tunnel server. The server (src/server, Node.js) gives
  programs on private machines a public address: a command line client (src/cli, Rust) holds a
  websocket to the server, many streams are multiplexed over it, and the server forwards HTTP
  requests of visitors and TCP or UDP streams of joiners into those streams. Accounts, devices,
  access policies, quotas, traffic logs and a web interface surround that core. The development
  models the JavaScript of the server, and of the web interface what it decides, as functions on
  explicit state and proves what makes its parts correct.

  \<^bold>\<open>Parts and theories.\<close>
  Each theory opens with a note on the source it models; definitions keep the names of the
  source where that is possible.

  Shared vocabulary: Prelude (strings, insertion-ordered maps, the locale js_map), Js (values of
  JavaScript, truthiness, String() and Number(), results with errors as values), Bytes
  (big-endian integers, buffers, hexadecimal), Base64, Tables (rows of the database: ordering,
  paging, pruning, the locale pruned).

  Multiplexing: Ids (utils/ids.js: names, secrets, share codes), Frames (lib/frames.js: the wire
  format), MuxStream, MuxFlow, MuxLink, MuxPeer (the class MuxStream of lib/MuxSession.js: one
  stream as a record with its write queue and window, its events, then two streams connected by
  a link), MuxSession (the class MuxSession: streams of a websocket, frames, pings, closing).

  Access: Address and Policy (lib/access.js: IP rules, policies and their evaluation), Intel
  (lib/intel.js: range lists and categories), Password (utils/password.js), OnceStore (secrets
  that are taken once), AccessStore (tokens and hand-over codes of lib/access.js, the cookie and
  basic credentials), Attempts (utils/attempts.js: the limiter of failed sign-ins).

  Accounts: Accounts (lib/accounts.js, sessions.js, invites.js, totp.js, controllers/auth.js),
  Devices (lib/devices.js, utils/auth.js, middlewares/auth.js), Quotas (lib/quotas.js, stats.js),
  Config (utils/config.js, lib/settings.js, controllers/setup.js and settings.js).

  Signing in: SignIn (lib/passkeys.js, lib/oidc.js and the routes of auth.js with a state of their
  own). Certificates: Tls (lib/tls/manager.js, store.js, the providers and routes/tls.js).

  The API: Router (utils/router.js: patterns, bodies, the chain of handlers), ApiTable (the table
  of routes as data, with the middlewares of middlewares/auth.js), and its handlers: AccountRoutes
  (routes/accounts.js, devices.js, invites.js and parts of auth.js), AdminRoutes (setup.js,
  settings.js, quotas.js, persistent.js, oidc.js, tls.js and the rest of auth.js), ServiceRoutes
  (service.js), TunnelRoutes (tunnels.js), Har (lib/har.js: the archive of recorded traffic).

  Pages and process: Pages (utils/pages.js, html.js, static.js), Browser (lib/browser.js: the
  service worker and the injected script), Server (index.js: events between the parts, listeners,
  start and shutdown; utils/migrationRunner.js).

  Tunnels: Persistent (lib/persistent.js), Registry and RegistryLife (lib/registry.js: tunnels as
  objects with an identity, registration and resumption in halves, grace timers, joins, and the
  transition relation over them), Domains (lib/domains.js), Control (controllers/control.js: the
  handshake of a client; controllers/relay.js: the relay of a joiner's stream), TunnelsApi
  (controllers/tunnels.js, persistent.js and quotas.js).

  HTTP: Proxy and ProxyFlow (lib/proxy.js: headers, redirects, cookies, injection of the snippet,
  the two halves of a proxied request, replays, upgrades), Http (controllers/http.js: routing and
  the gate), Capture (lib/capture.js), Breakpoints (lib/breakpoints.js), Websocket
  (lib/websocket.js), Sniff (lib/sniff.js), Traffic (lib/traffic.js, wsframes.js), Connections
  (lib/connections.js, visitors.js).

  Web interface (src/client/src): WebTraffic (TrafficTable.jsx with its filter and keys,
  RequestEdit.jsx, the copied command of RequestPanel.jsx), WebMessages (FramesView.jsx,
  BreakpointsBar.jsx), WebAccess (AccessSection.jsx, the button of VisitorsTable.jsx), WebPages
  (RequestUtil.js, UserContext.jsx, Root.jsx, PublicRoot.jsx, Login.jsx, Status.jsx, Select.jsx,
  TunnelDetail.jsx, Handoff.jsx, Footer.jsx, formatUtils.js, platform.js).

  \<^bold>\<open>How the parts interact.\<close>
  Control receives the messages of a client, asks Devices for the credential and Registry for a
  registration or a join; Http asks Registry for the tunnel of a host or path, Domains for custom
  hosts and the policy of the tunnel for admission, and hands the request to ProxyFlow, which
  consults Breakpoints and reports to Traffic; a joined session opens streams that Control
  relays and Connections records; TunnelsApi lets an account change what it owns. A request to the
  API goes through Router and the guards of ApiTable to a handler; Server connects what Registry
  emits with the logs and stores that keep something for a tunnel; the pages that Http serves run
  the scripts of Browser, whose requests come back to Http. What the web interface sends is handed
  to the operation of the server that answers it: WebTraffic to TunnelRoutes and TunnelsApi,
  WebMessages to Traffic and Breakpoints, WebAccess to Policy. Where one part
  relies on what several others promise there is a locale: js_map for every Map of the server,
  once_store for secrets that are taken once, pruned for tables that keep a bounded number of
  rows per group. Each is interpreted on the definitions of the parts that provide it.

  \<^bold>\<open>State and time.\<close>
  A class is a record, a method a function from the record and its arguments to the new record
  and what it returns; exceptions and refusals are values. The random bytes, the clock and the
  cryptographic functions are arguments. An operation that awaits is split where other operations
  may come in between and where that matters: registration, additions, removals and verifications
  of domains, the closing of sessions, timers; step relations then interleave the parts. Loops
  are structurally recursive or come with a termination proof. The one use of fuel is drain_turns of
  Websocket, a second form of the endless loop of the frame parser: half the length of the buffer
  and one more turn are proved to be enough.

  \<^bold>\<open>What is shown.\<close>
  Streams: no byte is lost, duplicated or reordered, what is delivered, in flight and queued is
  what was written, and flow control never deadlocks; frames, websocket messages and share codes
  survive encoding. Admission: no request or upgrade reaches a tunnel past its policy; an address
  is admitted exactly as the rules say; codes and tokens are exchanged once and for their host
  and tunnel; repeated failures block. Ownership: an account cannot change what belongs to
  another one, a control connection registers tunnels only for the account whose token it
  presented, custom domains never take over the server's own names, an administrator always
  remains. Signing in: a challenge or state is accepted once, for its purpose and in its lifetime; a
  session needs a password with its second factor, or a verified key; the setup of a server opens
  it once. The API: a compiled pattern matches exactly the paths of the same segments; no endpoint
  runs without the clearance it needs; a revoked device or invite loses what it holds; a tunnel of
  another account answers like a name nobody uses; hand-over codes only go where their tunnel is.
  Certificates: the one that is served was issued for the name. Lifetime: a registered tunnel is held by an open session or a pending timer; forgetting
  a tunnel releases what waits on it and leaves nothing to the next owner of the name; what the
  owner hears of a relayed connection is in order; migrations run in order and once.
  Records: logs stay within their limits, a flush stores exactly what happened, visitors are
  counted exactly. Forwarding: injection into a stream equals injection into the whole page,
  forwarded headers are those the server determined, a held message that is continued without
  edits is unchanged. The web interface: the server lists what the table was set to, the edit form
  changes nothing by itself, the messages shown follow the log, an edit of the rules changes that
  rule only, the copied command runs once. Configuration: what is running is valid and a fixed point of normalisation.

  Some lemmas state behaviour that is not what the code means to do, on concrete runs or in
  general: a rule with an empty prefix, nested address ranges, a crafted packet for the detection,
  a grace timer that outlives its tunnel, a registration that ends after its session, keys left
  behind by forgetting a tunnel, a lost owner whose relays stay open; accounts of different people
  that share a name at sign-in, two certificate runs at once, a device that registers after its
  revocation, tunnels that outlive their account, an export that one path stops, a state that
  leaves its script, a refused setup that takes effect, requests that are recorded after their
  tunnel was forgotten, hand-over codes that outlive a change of the policy, a header that runs
  as a command, a cut body that is sent, messages that overlapping polls repeat, an address of the
  query that a tab follows.

  \<^bold>\<open>Parameters.\<close>
  SHA-256, scrypt, TOTP, WebAuthn, OpenID Connect and ACME clients, decompression, URL, date, query
  and JSON parsing, LIKE of the database, DNS answers, the parsed YAML file, the country and network
  databases, the file system, the migrations, the validity of UTF-8 and the names of countries in
  the browser are arguments of the definitions that use them.

  \<^bold>\<open>Not modelled.\<close>
  Logging and the database connection (utils/logger.js, paths.js, database.js) and the SQL of the
  migrations, which are input and output only; what a browser does outside the decisions of
  Browser and of the web interface; how the web interface draws its components, the settings
  pages, which post a form each, and the byte counts it prints (floating point); the landing page
  (src/landing) and the Rust client (src/cli).
\<close>

end
